(* ===== verification/Prelude.thy ===== *)
theory Prelude
  imports Main "HOL-Library.Word"
begin

text \<open>
  Shared ground of the development: the machine integers of the 32-bit kernel, the flat byte
  memory, the counting loops of the C sources as combinators with closed forms, and the generic
  facts on words and lists that the component theories rest on.
\<close>

unbundle bit_operations_syntax

section \<open>Machine types\<close>

type_synonym u8 = "8 word"
type_synonym u16 = "16 word"
type_synonym u32 = "32 word"
type_synonym u64 = "64 word"

text \<open>
  The bytes reachable from a C pointer: the flat memory of the kernel when the offset is an
  address, a buffer or an array when the offset counts from its first element. Offsets are 32-bit
  and wrap as pointer arithmetic does on IA32.
\<close>

type_synonym bytes = "u32 \<Rightarrow> u8"

definition view :: "bytes \<Rightarrow> u32 \<Rightarrow> bytes" where
  "view m p = (\<lambda>i. m (p + i))"

named_theorems loop_simps \<open>closed forms of the counting loops\<close>
named_theorems mem_simps \<open>reads of updated memory\<close>

lemma view_apply: "view m p i = m (p + i)"
  by (simp add: view_def)

lemma view_0 [simp]: "view m 0 = m"
  by (simp add: view_def)

lemma view_view [simp]: "view (view m p) q = view m (p + q)"
  by (simp add: view_def add.assoc)

section \<open>Word arithmetic\<close>

lemma unat_lt2p: "unat n < 2 ^ LENGTH('a)" for n :: "'a::len word"
  by simp

lemma unat_add_no_wrap: "unat a + unat b < 2 ^ LENGTH('a) \<Longrightarrow> unat (a + b) = unat a + unat b"
  for a b :: "'a::len word"
  by (simp add: unat_word_ariths)

lemma unat_mult_no_wrap: "unat a * unat b < 2 ^ LENGTH('a) \<Longrightarrow> unat (a * b) = unat a * unat b"
  for a b :: "'a::len word"
  by (simp add: unat_word_ariths)

lemma ucast_ucast_same: "LENGTH('a) \<le> LENGTH('b) \<Longrightarrow> ucast (ucast x :: 'b::len word) = x" for x :: "'a::len word"
  by (rule bit_eqI) (auto simp: bit_ucast_iff dest: bit_imp_le_length)

lemma unat_ucast_up: "LENGTH('a) \<le> LENGTH('b) \<Longrightarrow> unat (ucast x :: 'b::len word) = unat x" for x :: "'a::len word"
proof -
  assume "LENGTH('a) \<le> LENGTH('b)"
  then have "unat x < 2 ^ LENGTH('b)"
    using unat_lt2p [of x] by (meson less_le_trans one_le_numeral power_increasing)
  then show ?thesis by (simp add: unsigned_ucast_eq take_bit_nat_eq_self)
qed

lemma unat_ucast_u8 [simp]: "unat (ucast (x :: u8) :: u32) = unat x" "unat (ucast (y :: u16) :: u32) = unat y"
  by (rule unat_ucast_up, simp)+

lemma ucast_round [simp]:
  "ucast (ucast (x :: u8) :: u64) = x" "ucast (ucast (y :: u16) :: u64) = y" "ucast (ucast (z :: u32) :: u64) = z"
  "ucast (ucast (x :: u8) :: u32) = x" "ucast (ucast (y :: u16) :: u32) = y" "ucast (ucast (x :: u8) :: u16) = x"
  by (rule ucast_ucast_same, simp)+

lemma sint_eq_iff: "sint a = sint b \<longleftrightarrow> a = b" for a b :: "'a::len word"
  by (metis signed_word_eqI)

lemma sint_eq_0_iff: "sint a = 0 \<longleftrightarrow> a = 0" for a :: "'a::len word"
  using sint_eq_iff [of a 0] by simp

lemma unat_Suc_less: "i < n \<Longrightarrow> unat (i + 1) = Suc (unat i)" for i n :: "'a::len word"
proof -
  assume "i < n"
  then have "Suc (unat i) < 2 ^ LENGTH('a)"
    using unsigned_less [of n, where ?'a = nat] unfolding word_less_nat_alt by linarith
  then show ?thesis by (simp add: unat_word_ariths)
qed

lemma loop_measure: "i < n \<Longrightarrow> unat n - unat (i + 1) < unat n - unat i" for i n :: "'a::len word"
  by (simp add: unat_Suc_less word_less_nat_alt)

lemma of_nat_unat_less: "k < unat n \<Longrightarrow> unat (of_nat k :: 'a word) = k" for n :: "'a::len word"
  by (metis le_unat_uoi less_imp_le_nat)

lemma of_nat_less_iff_unat: "k < 2 ^ LENGTH('a) \<Longrightarrow> (of_nat k < n) = (k < unat n)"
  for n :: "'a::len word"
  by (simp add: word_less_nat_alt unat_of_nat take_bit_nat_eq_self)

text \<open>Computing with words that are given as natural numbers below the modulus.\<close>

lemma of_nat_div_word: "x < 2 ^ LENGTH('a) \<Longrightarrow> y < 2 ^ LENGTH('a) \<Longrightarrow>
  (of_nat x :: 'a::len word) div of_nat y = of_nat (x div y)"
  by (simp add: word_unat_eq_iff unat_div unat_of_nat take_bit_nat_eq_self le_less_trans [OF div_le_dividend])

lemma of_nat_mod_word: "x < 2 ^ LENGTH('a) \<Longrightarrow> y < 2 ^ LENGTH('a) \<Longrightarrow>
  (of_nat x :: 'a::len word) mod of_nat y = of_nat (x mod y)"
  by (simp add: word_unat_eq_iff unat_mod unat_of_nat take_bit_nat_eq_self le_less_trans [OF mod_less_eq_dividend])

lemma of_nat_le_word: "x < 2 ^ LENGTH('a) \<Longrightarrow> y < 2 ^ LENGTH('a) \<Longrightarrow>
  ((of_nat x :: 'a::len word) \<le> of_nat y) = (x \<le> y)"
  by (simp add: word_le_nat_alt unat_of_nat take_bit_nat_eq_self)

lemma ucast_of_nat: "n < 2 ^ LENGTH('a) \<Longrightarrow> ucast (of_nat n :: 'a::len word) = of_nat n"
  by (simp add: unsigned_of_nat take_bit_nat_eq_self)

lemma sint_of_nat_small: "n < 2 ^ (LENGTH('a) - 1) \<Longrightarrow> sint (of_nat n :: 'a::len word) = int n"
  by (simp add: signed_of_nat signed_take_bit_int_eq_self_iff)
    (metis dual_order.trans neg_le_0_iff_le of_nat_0_le_iff of_nat_less_iff of_nat_numeral of_nat_power zero_le_numeral zero_le_power)

lemma uint_of_nat_small: "n < 2 ^ LENGTH('a) \<Longrightarrow> uint (of_nat n :: 'a::len word) = int n"
  by (simp add: unsigned_of_nat take_bit_nat_eq_self)

text \<open>A range of addresses is its first address and the range that follows it.\<close>

lemma range_step:
  fixes a p :: "'a::len word"
  assumes "q < 2 ^ LENGTH('a)"
  shows "unat (a - p) < Suc q \<longleftrightarrow> a = p \<or> a \<noteq> p \<and> unat (a - (p + 1)) < q"
proof (cases "a = p")
  case False
  then have "unat (a - p) = Suc (unat (a - p - 1))"
    by (simp add: unat_minus_one unat_gt_0)
  then show ?thesis using False by (simp add: diff_diff_eq)
qed simp

lemma all_less_of_nat: "(\<forall>i<n. P i) \<longleftrightarrow> (\<forall>k<unat n. P (of_nat k))" for n :: "'a::len word"
proof
  assume "\<forall>i<n. P i"
  then show "\<forall>k<unat n. P (of_nat k)" by (simp add: word_less_nat_alt of_nat_unat_less)
next
  assume A: "\<forall>k<unat n. P (of_nat k)"
  show "\<forall>i<n. P i"
  proof (intro allI impI)
    fix i assume "i < n"
    then show "P i" using A [rule_format, of "unat i"] by (simp add: word_less_nat_alt)
  qed
qed

section \<open>Counting loops\<close>

text \<open>
  \<open>for (i = i0; i < n; i++) body\<close>, with the counter at its machine width. \<open>for_ret\<close> is the same
  loop with a body that may return from the function (\<open>Inl\<close>).
\<close>

function for_upto :: "'a::len word \<Rightarrow> 'a word \<Rightarrow> ('a word \<Rightarrow> 's \<Rightarrow> 's) \<Rightarrow> 's \<Rightarrow> 's" where
  "for_upto i n body s = (if i < n then for_upto (i + 1) n body (body i s) else s)"
  by pat_completeness auto
termination
  by (relation "measure (\<lambda>(i, n, _, _). unat n - unat i)") (auto simp: loop_measure)

function for_ret :: "'a::len word \<Rightarrow> 'a word \<Rightarrow> ('a word \<Rightarrow> 's \<Rightarrow> 'r + 's) \<Rightarrow> 's \<Rightarrow> 'r + 's" where
  "for_ret i n body s =
     (if i < n then (case body i s of Inl r \<Rightarrow> Inl r | Inr s' \<Rightarrow> for_ret (i + 1) n body s')
      else Inr s)"
  by pat_completeness auto
termination
  by (relation "measure (\<lambda>(i, n, _, _). unat n - unat i)") (auto simp: loop_measure)

text \<open>\<open>for (i = n; i != 0; i--) body\<close>, where the body works on element \<open>i - 1\<close>.\<close>

function for_downto :: "'a::len word \<Rightarrow> ('a word \<Rightarrow> 's \<Rightarrow> 's) \<Rightarrow> 's \<Rightarrow> 's" where
  "for_downto i body s = (if i \<noteq> 0 then for_downto (i - 1) body (body (i - 1) s) else s)"
  by pat_completeness auto
termination
  by (relation "measure (\<lambda>(i, _, _). unat i)") (auto simp: unat_minus_one unat_gt_0)

declare for_upto.simps [simp del] for_ret.simps [simp del] for_downto.simps [simp del]

lemma for_upto_fold:
  "for_upto i n body s = fold (\<lambda>k. body (of_nat k)) [unat i..<unat n] s"
proof (induction i n body s rule: for_upto.induct)
  case (1 i n body s)
  show ?case
  proof (cases "i < n")
    case True
    then have "[unat i..<unat n] = unat i # [unat (i + 1)..<unat n]"
      by (simp add: unat_Suc_less word_less_nat_alt upt_conv_Cons)
    with 1 True show ?thesis by (simp add: for_upto.simps [of i n])
  next
    case False
    then show ?thesis by (simp add: for_upto.simps [of i n] word_less_nat_alt)
  qed
qed

lemma for_upto_0 [loop_simps]:
  "for_upto 0 n body s = fold (\<lambda>k. body (of_nat k)) [0..<unat n] s"
  by (simp add: for_upto_fold)

lemma for_downto_fold [loop_simps]:
  "for_downto i body s = fold (\<lambda>k. body (of_nat k)) (rev [0..<unat i]) s"
proof (induction i body s rule: for_downto.induct)
  case (1 i body s)
  show ?case
  proof (cases "i = 0")
    case False
    then have "unat i = Suc (unat (i - 1))"
      by (simp add: unat_minus_one unat_gt_0)
    then have "rev [0..<unat i] = unat (i - 1) # rev [0..<unat (i - 1)]"
      by simp
    with 1 False show ?thesis by (simp add: for_downto.simps [of i])
  next
    case True
    then show ?thesis by (simp add: for_downto.simps [of 0])
  qed
qed

lemma for_ret_Inr:
  "for_ret i n body s = Inr s' \<longleftrightarrow>
     (if i < n then \<exists>t. body i s = Inr t \<and> for_ret (i + 1) n body t = Inr s' else s' = s)"
  by (subst for_ret.simps) (auto split: sum.splits)

text \<open>Writes to pairwise different places.\<close>

lemma fold_upd_other: "(\<And>k. k < n \<Longrightarrow> a \<noteq> s k) \<Longrightarrow> fold (\<lambda>k m. m(s k := v k)) [0..<n] m a = m a"
  by (induction n) simp_all

lemma fold_upd_at:
  "inj_on s {..<n} \<Longrightarrow> k < n \<Longrightarrow> fold (\<lambda>k m. m(s k := v k)) [0..<n] m (s k) = v k"
proof (induction n)
  case (Suc n)
  then have "inj_on s {..<n}" by (auto simp: inj_on_def)
  moreover have "s k \<noteq> s n" if "k < n" using Suc.prems that by (auto simp: inj_on_def)
  ultimately show ?case using Suc by (cases "k = n") auto
qed simp

text \<open>A search loop: the body returns at the first index that satisfies a test.\<close>

lemma for_ret_search:
  assumes "\<And>k. body k () = (if P k then Inl (f k) else Inr ())"
  shows "for_ret i n body () =
    (if \<exists>k\<in>{unat i..<unat n}. P (of_nat k)
     then Inl (f (of_nat (LEAST k. unat i \<le> k \<and> P (of_nat k)))) else Inr ())"
proof (induction "unat n - unat i" arbitrary: i)
  case 0
  then show ?case by (subst for_ret.simps) (auto simp: word_less_nat_alt)
next
  case (Suc d)
  then have lt: "i < n" by (simp add: word_less_nat_alt)
  then have u: "unat (i + 1) = Suc (unat i)" by (rule unat_Suc_less)
  have IH: "for_ret (i + 1) n body () =
    (if \<exists>k\<in>{Suc (unat i)..<unat n}. P (of_nat k)
     then Inl (f (of_nat (LEAST k. Suc (unat i) \<le> k \<and> P (of_nat k)))) else Inr ())"
    using Suc(1) [of "i + 1"] Suc(2) u by simp
  show ?case
  proof (cases "P i")
    case True
    have "(LEAST k. unat i \<le> k \<and> P (of_nat k)) = unat i"
      by (rule Least_equality) (simp_all add: True)
    moreover have "\<exists>k\<in>{unat i..<unat n}. P (of_nat k)"
      using lt True by (intro bexI [of _ "unat i"]) (simp_all add: word_less_nat_alt)
    ultimately show ?thesis
      using lt True by (subst for_ret.simps) (simp add: assms)
  next
    case False
    have eq: "unat i \<le> k \<and> P (of_nat k) \<longleftrightarrow> Suc (unat i) \<le> k \<and> P (of_nat k)" for k
      using False by (metis Suc_leD le_antisym not_less_eq_eq of_nat_unat ucast_id)
    have ex: "(\<exists>k\<in>{unat i..<unat n}. P (of_nat k)) = (\<exists>k\<in>{Suc (unat i)..<unat n}. P (of_nat k))"
      unfolding Bex_def atLeastLessThan_iff using eq by blast
    show ?thesis
      using lt False IH ex by (subst for_ret.simps) (simp add: assms eq)
  qed
qed

end
