(* ===== verification/Libk_Mem.thy ===== *)
theory Libk_Mem
  imports Prelude
begin

text \<open>
  The memory routines of \<open>libk\<close> (memcpy.c, memmove.c, memset.c, memcmp.c) over the flat byte
  memory, with their contracts: copying, overlap-safe moving, filling and lexicographic
  comparison. The pointer each routine returns is its first argument and is left out.
\<close>

section \<open>Operations\<close>

definition memcpy :: "bytes \<Rightarrow> u32 \<Rightarrow> u32 \<Rightarrow> u32 \<Rightarrow> bytes" where
  "memcpy m dst src sz = for_upto 0 sz (\<lambda>i m. m(dst + i := m (src + i))) m"

definition memmove :: "bytes \<Rightarrow> u32 \<Rightarrow> u32 \<Rightarrow> u32 \<Rightarrow> bytes" where
  "memmove m dst src sz =
     (if dst < src then for_upto 0 sz (\<lambda>i m. m(dst + i := m (src + i))) m
      else for_downto sz (\<lambda>i m. m(dst + i := m (src + i))) m)"

definition memset :: "bytes \<Rightarrow> u32 \<Rightarrow> u32 \<Rightarrow> u32 \<Rightarrow> bytes" where
  "memset m bufptr value sz = for_upto 0 sz (\<lambda>i m. m(bufptr + i := ucast value)) m"

definition memcmp :: "bytes \<Rightarrow> bytes \<Rightarrow> u32 \<Rightarrow> int" where
  "memcmp a b sz =
     (case for_ret 0 sz
        (\<lambda>i _. if a i < b i then Inl (-1) else if b i < a i then Inl 1 else Inr ()) ()
      of Inl r \<Rightarrow> r | Inr _ \<Rightarrow> 0)"

text \<open>\<open>rsize_t\<close> is a (signed) \<open>int\<close> in stddef.h and \<open>RSIZE_MAX\<close> is \<open>INT32_MAX >> 1\<close>.\<close>

definition RSIZE_MAX :: int where
  "RSIZE_MAX = 1073741823"

function memset_s_loop :: "bytes \<Rightarrow> u32 \<Rightarrow> int \<Rightarrow> u32 \<Rightarrow> int \<Rightarrow> int \<Rightarrow> bytes" where
  "memset_s_loop m dest destsz c len i =
     (if i < len \<and> i < destsz
      then memset_s_loop (m(dest + of_int i := ucast c)) dest destsz c len (i + 1) else m)"
  by pat_completeness auto
termination
  by (relation "measure (\<lambda>(_, _, _, _, len, i). nat (len - i))") auto

definition memset_s :: "bytes \<Rightarrow> u32 \<Rightarrow> int \<Rightarrow> u32 \<Rightarrow> int \<Rightarrow> int \<times> bytes" where
  "memset_s m dest destsz c len =
     (if destsz > RSIZE_MAX \<or> len > RSIZE_MAX \<or> len > destsz then (-1, m)
      else if dest = 0 then (-1, m)
      else (-1, memset_s_loop m dest destsz c len 0))"

section \<open>Regions of memory\<close>

text \<open>
  The bytes at \<open>p, \<dots>, p + n - 1\<close> (with wrap-around) are those with \<open>a - p < n\<close>.
\<close>

definition in_region :: "u32 \<Rightarrow> u32 \<Rightarrow> u32 \<Rightarrow> bool" where
  "in_region a p n \<longleftrightarrow> a - p < n"

definition disjoint :: "u32 \<Rightarrow> u32 \<Rightarrow> u32 \<Rightarrow> u32 \<Rightarrow> bool" where
  "disjoint p n q k \<longleftrightarrow> (\<forall>a. \<not> (in_region a p n \<and> in_region a q k))"

text \<open>A region that does not run past the end of the address space.\<close>

definition fits :: "u32 \<Rightarrow> u32 \<Rightarrow> bool" where
  "fits p n \<longleftrightarrow> unat p + unat n \<le> 2 ^ 32"

lemma in_region_self [simp]: "in_region (p + i) p n \<longleftrightarrow> i < n"
  by (simp add: in_region_def)

lemma disjoint_sym: "disjoint p n q k \<longleftrightarrow> disjoint q k p n"
  by (auto simp: disjoint_def)

lemma disjointD: "disjoint p n q k \<Longrightarrow> in_region a p n \<Longrightarrow> \<not> in_region a q k"
  by (auto simp: disjoint_def)

lemma disjoint_neq: "disjoint p n q k \<Longrightarrow> i < n \<Longrightarrow> j < k \<Longrightarrow> p + i \<noteq> q + j"
  by (metis disjointD in_region_self)

lemma fits_unat: "fits p n \<Longrightarrow> i < n \<Longrightarrow> unat (p + i) = unat p + unat i"
  by (auto simp: fits_def word_less_nat_alt unat_word_ariths)

lemma disjointI:
  assumes "fits p n" "fits q k" "unat p + unat n \<le> unat q"
  shows "disjoint p n q k"
proof -
  have "\<not> (a - p < n \<and> a - q < k)" for a
  proof
    assume A: "a - p < n \<and> a - q < k"
    have "unat a = unat p + unat (a - p)" using fits_unat [OF assms(1), of "a - p"] A by simp
    moreover have "unat a = unat q + unat (a - q)" using fits_unat [OF assms(2), of "a - q"] A by simp
    moreover have "unat (a - p) < unat n" using A by (simp add: word_less_nat_alt)
    ultimately show False using assms(3) by linarith
  qed
  then show ?thesis by (simp add: disjoint_def in_region_def)
qed

section \<open>Closed forms\<close>

lemma offset_eq_iff:
  fixes a p :: u32
  assumes "n < 2 ^ 32"
  shows "a = p + of_nat n \<longleftrightarrow> unat (a - p) = n"
proof -
  have u: "unat (of_nat n :: u32) = n" using assms by (simp add: unat_of_nat)
  have "a = p + of_nat n \<longleftrightarrow> a - p = of_nat n" by (auto simp: algebra_simps)
  also have "\<dots> \<longleftrightarrow> unat (a - p) = unat (of_nat n :: u32)" by (rule word_unat_eq_iff)
  finally show ?thesis by (simp only: u)
qed

lemma fold_write:
  fixes p a :: u32
  assumes "n \<le> 2 ^ 32"
  shows "fold (\<lambda>k m. m(p + of_nat k := f k)) [0..<n] m a =
    (if unat (a - p) < n then f (unat (a - p)) else m a)"
  using assms
proof (induction n)
  case (Suc n)
  then show ?case by (auto simp: less_Suc_eq offset_eq_iff)
qed simp

text \<open>
  Copying in any order of the indices \<open>ks\<close>, provided that no byte is overwritten before it has
  been read.
\<close>

lemma fold_copy:
  fixes dst src a :: u32
  assumes "\<forall>k\<in>set ks. k < 2 ^ 32"
    and "sorted_wrt (\<lambda>u k. dst + of_nat u \<noteq> src + of_nat k) ks"
  shows "fold (\<lambda>k m. m(dst + of_nat k := m (src + of_nat k))) ks m a =
    (if unat (a - dst) \<in> set ks then m (src + (a - dst)) else m a)"
  using assms
proof (induction ks arbitrary: a rule: rev_induct)
  case (snoc k ks)
  define M where "M = fold (\<lambda>k m. m(dst + of_nat k := m (src + of_nat k))) ks m"
  have IH: "M b = (if unat (b - dst) \<in> set ks then m (src + (b - dst)) else m b)" for b
    unfolding M_def using snoc.prems by (intro snoc.IH) (simp_all add: sorted_wrt_append)
  have fold: "fold (\<lambda>k m. m(dst + of_nat k := m (src + of_nat k))) (ks @ [k]) m =
      M(dst + of_nat k := M (src + of_nat k))"
    by (simp add: M_def)
  have "unat (src + of_nat k - dst) \<notin> set ks"
  proof
    assume A: "unat (src + of_nat k - dst) \<in> set ks"
    have "\<forall>u\<in>set ks. dst + of_nat u \<noteq> src + of_nat k"
      using snoc.prems(2) by (simp add: sorted_wrt_append)
    from bspec [OF this A] show False by simp
  qed
  then show ?case unfolding fold using snoc.prems(1) by (auto simp: IH offset_eq_iff)
qed simp

lemma memset_apply [mem_simps]:
  "memset m p v n a = (if in_region a p n then ucast v else m a)"
proof -
  have "memset m p v n a = (if unat (a - p) < unat n then ucast v else m a)"
    unfolding memset_def for_upto_0
    by (rule fold_write [where f = "\<lambda>_. ucast v"]) (use unat_lt2p [of n] in simp)
  then show ?thesis by (simp add: in_region_def word_less_nat_alt)
qed

lemma copy_upt:
  fixes n :: u32
  shows "\<forall>k\<in>set [0..<unat n]. k < 2 ^ 32" and "\<forall>k\<in>set (rev [0..<unat n]). k < 2 ^ 32"
  using unat_lt2p [of n] by auto

lemma memcpy_apply [mem_simps]:
  assumes "disjoint dst n src n"
  shows "memcpy m dst src n a = (if in_region a dst n then m (src + (a - dst)) else m a)"
proof -
  have "dst + of_nat i \<noteq> src + of_nat j" if "i < unat n" "j < unat n" for i j
    using disjoint_neq [OF assms, of "of_nat i" "of_nat j"] that
    by (simp add: word_less_nat_alt of_nat_unat_less)
  then have "sorted_wrt (\<lambda>u k. dst + of_nat u \<noteq> src + of_nat k) [0..<unat n]"
    by (simp add: sorted_wrt_iff_nth_less)
  from fold_copy [OF copy_upt(1) this, of m a] show ?thesis
    by (simp add: memcpy_def for_upto_0 in_region_def word_less_nat_alt)
qed

text \<open>Whatever the overlap, nothing outside the destination changes.\<close>

lemma memcpy_frame:
  assumes "\<not> in_region a dst n"
  shows "memcpy m dst src n a = m a"
proof -
  have fr: "fold (\<lambda>k m. m(dst + of_nat k := m (src + of_nat k))) ks m a = m a" if "\<forall>k\<in>set ks. k < unat n" for ks m
    using that
  proof (induction ks arbitrary: m)
    case (Cons k ks)
    then have "unat (of_nat k :: u32) < unat n" using of_nat_unat_less [of k n] by simp
    then have "a \<noteq> dst + of_nat k" using assms by (auto simp: in_region_def word_less_nat_alt)
    then show ?case using Cons by simp
  qed simp
  show ?thesis unfolding memcpy_def for_upto_0 by (rule fr) simp
qed

lemma memmove_apply [mem_simps]:
  assumes "fits dst n" and "fits src n"
  shows "memmove m dst src n a = (if in_region a dst n then m (src + (a - dst)) else m a)"
proof -
  have u: "unat (p + of_nat i) = unat p + i" if "fits p n" "i < unat n" for p i
    using fits_unat [OF that(1), of "of_nat i"] that by (simp add: word_less_nat_alt of_nat_unat_less)
  have ne: "dst + of_nat i \<noteq> src + of_nat j"
    if "i < unat n" "j < unat n" "if dst < src then i < j else j < i" for i j
  proof -
    have "unat (dst + of_nat i) \<noteq> unat (src + of_nat j)"
      using that u [OF assms(1), of i] u [OF assms(2), of j]
      by (auto simp: word_less_nat_alt split: if_splits)
    then show ?thesis by metis
  qed
  show ?thesis
  proof (cases "dst < src")
    case True
    then have "sorted_wrt (\<lambda>u k. dst + of_nat u \<noteq> src + of_nat k) [0..<unat n]"
      using ne by (simp add: sorted_wrt_iff_nth_less)
    from fold_copy [OF copy_upt(1) this, of m a] True show ?thesis
      by (simp add: memmove_def for_upto_0 in_region_def word_less_nat_alt)
  next
    case False
    then have "sorted_wrt (\<lambda>u k. dst + of_nat u \<noteq> src + of_nat k) (rev [0..<unat n])"
      unfolding sorted_wrt_rev using ne by (simp add: sorted_wrt_iff_nth_less)
    from fold_copy [OF copy_upt(2) this, of m a] False show ?thesis
      by (simp add: memmove_def for_downto_fold in_region_def word_less_nat_alt)
  qed
qed

section \<open>Comparison\<close>

lemma memcmp_alt:
  "memcmp a b n =
    (if \<exists>k<unat n. a (of_nat k) \<noteq> b (of_nat k)
     then (let k = of_nat (LEAST k. a (of_nat k) \<noteq> b (of_nat k)) in if a k < b k then -1 else 1)
     else 0)"
proof -
  have "for_ret 0 n (\<lambda>i _. if a i < b i then Inl (-1) else if b i < a i then Inl 1 else Inr ()) () =
    (if \<exists>k\<in>{unat (0::u32)..<unat n}. a (of_nat k) \<noteq> b (of_nat k)
     then Inl ((\<lambda>k. if a k < b k then -1 else 1 :: int)
       (of_nat (LEAST k. unat (0::u32) \<le> k \<and> a (of_nat k) \<noteq> b (of_nat k)))) else Inr ())"
    by (rule for_ret_search) auto
  then show ?thesis by (auto simp: memcmp_def Let_def Bex_def)
qed

lemma memcmp_eq_0_iff: "memcmp a b n = 0 \<longleftrightarrow> (\<forall>i<n. a i = b i)"
proof -
  have "memcmp a b n = 0 \<longleftrightarrow> (\<forall>k<unat n. a (of_nat k) = b (of_nat k))"
    by (auto simp: memcmp_alt Let_def)
  then show ?thesis by (simp add: all_less_of_nat)
qed

lemma memcmp_first_difference:
  assumes "k < n" and "\<forall>j<k. a j = b j" and "a k \<noteq> b k"
  shows "memcmp a b n = (if a k < b k then -1 else 1)"
proof -
  have "(LEAST j. a (of_nat j) \<noteq> b (of_nat j)) = unat k"
  proof (rule Least_equality)
    show "a (of_nat (unat k)) \<noteq> b (of_nat (unat k))" using assms(3) by simp
    show "unat k \<le> j" if "a (of_nat j) \<noteq> b (of_nat j)" for j
      using assms(2) that by (metis not_le of_nat_unat_less word_less_nat_alt)
  qed
  moreover have "\<exists>j<unat n. a (of_nat j) \<noteq> b (of_nat j)"
    using assms(1,3) by (intro exI [of _ "unat k"]) (simp add: word_less_nat_alt)
  ultimately show ?thesis by (simp add: memcmp_alt Let_def)
qed

section \<open>Machine words in memory\<close>

text \<open>The little-endian 32-bit accesses the kernel makes through \<open>uint32_t\<close> and \<open>size_t\<close> pointers.\<close>

definition load32 :: "bytes \<Rightarrow> u32 \<Rightarrow> u32" where
  "load32 m p = ucast (m p) OR push_bit 8 (ucast (m (p + 1))) OR
     push_bit 16 (ucast (m (p + 2))) OR push_bit 24 (ucast (m (p + 3)))"

definition store32 :: "bytes \<Rightarrow> u32 \<Rightarrow> u32 \<Rightarrow> bytes" where
  "store32 m p w = m(p := ucast w, p + 1 := ucast (drop_bit 8 w), p + 2 := ucast (drop_bit 16 w),
     p + 3 := ucast (drop_bit 24 w))"

lemma store32_other: "\<not> in_region a p 4 \<Longrightarrow> store32 m p w a = m a"
  by (auto simp: store32_def in_region_def)

lemma load32_cong:
  assumes "\<And>i. i < 4 \<Longrightarrow> m (p + i) = m' (p + i)"
  shows "load32 m p = load32 m' p"
  using assms [of 0] assms [of 1] assms [of 2] assms [of 3] by (simp add: load32_def)

lemma load32_store32 [simp]: "load32 (store32 m p w) p = w"
proof (rule bit_word_eqI)
  fix n
  assume "n < LENGTH(32)"
  then consider "n < 8" | "8 \<le> n" "n < 16" | "16 \<le> n" "n < 24" | "24 \<le> n" "n < 32"
    by (auto simp: not_less [symmetric])
  then show "bit (load32 (store32 m p w) p) n = bit w n"
    by cases (auto simp: load32_def store32_def bit_simps)
qed

end
