(* ===== verification/Libk_String.thy ===== *)
theory Libk_String
  imports Libk_Mem
begin

text \<open>
  The string routines of string.c. A string argument that is only read is the \<^typ>\<open>bytes\<close> seen
  from its pointer; a routine that writes works on the flat memory and on pointers into it. The
  abstraction relation \<open>cstr_at m p s\<close> says that the NUL-terminated string at \<open>p\<close> is the byte
  list \<open>s\<close>.
\<close>

section \<open>Operations\<close>

definition SIZE_MAX :: u32 where
  "SIZE_MAX = 0xFFFFFFFF"

function strnlen_loop :: "bytes \<Rightarrow> u32 \<Rightarrow> u32 \<Rightarrow> u32" where
  "strnlen_loop str maxlen len =
     (if str len \<noteq> 0 \<and> len < maxlen then strnlen_loop str maxlen (len + 1) else len)"
  by pat_completeness auto
termination
  by (relation "measure (\<lambda>(_, maxlen, len). unat maxlen - unat len)") (auto simp: loop_measure)

definition strnlen :: "bytes \<Rightarrow> u32 \<Rightarrow> u32" where
  "strnlen str maxlen = strnlen_loop str maxlen 0"

definition strlen :: "bytes \<Rightarrow> u32" where
  "strlen str = strnlen str SIZE_MAX"

function strncpy_loop :: "bytes \<Rightarrow> u32 \<Rightarrow> u32 \<Rightarrow> u32 \<Rightarrow> u32 \<Rightarrow> u32 \<times> bytes" where
  "strncpy_loop m dest src n i =
     (if i < n \<and> m (src + i) \<noteq> 0
      then strncpy_loop (m(dest + i := m (src + i))) dest src n (i + 1) else (i, m))"
  by pat_completeness auto
termination
  by (relation "measure (\<lambda>(_, _, _, n, i). unat n - unat i)") (auto simp: loop_measure)

definition strncpy :: "bytes \<Rightarrow> u32 \<Rightarrow> u32 \<Rightarrow> u32 \<Rightarrow> bytes" where
  "strncpy m dest src n =
     (case strncpy_loop m dest src n 0 of (i, m') \<Rightarrow> if i < n then m'(dest + i := 0) else m')"

definition strcpy :: "bytes \<Rightarrow> u32 \<Rightarrow> u32 \<Rightarrow> bytes" where
  "strcpy m dest src = strncpy m dest src SIZE_MAX"

text \<open>
  The same routine where the destination is an object of its own (a local array, the name field
  of a structure) that shares no byte with the source.
\<close>

function strncpy_to_loop :: "bytes \<Rightarrow> bytes \<Rightarrow> u32 \<Rightarrow> u32 \<Rightarrow> u32 \<times> bytes" where
  "strncpy_to_loop d src n i =
     (if i < n \<and> src i \<noteq> 0 then strncpy_to_loop (d(i := src i)) src n (i + 1) else (i, d))"
  by pat_completeness auto
termination
  by (relation "measure (\<lambda>(_, _, n, i). unat n - unat i)") (auto simp: loop_measure)

definition strncpy_to :: "bytes \<Rightarrow> bytes \<Rightarrow> u32 \<Rightarrow> bytes" where
  "strncpy_to d src n =
     (case strncpy_to_loop d src n 0 of (i, d') \<Rightarrow> if i < n then d'(i := 0) else d')"

function strncmp_loop :: "bytes \<Rightarrow> bytes \<Rightarrow> u32 \<Rightarrow> u32 \<Rightarrow> int" where
  "strncmp_loop s1 s2 n i =
     (if s1 i \<noteq> 0 \<and> s1 i = s2 i \<and> n > 0 then strncmp_loop s1 s2 (n - 1) (i + 1)
      else sint (s1 i) - sint (s2 i))"
  by pat_completeness auto
termination
  by (relation "measure (\<lambda>(_, _, n, _). unat n)") (auto simp: unat_minus_one unat_gt_0 word_gt_0)

definition strncmp :: "bytes \<Rightarrow> bytes \<Rightarrow> u32 \<Rightarrow> int" where
  "strncmp s1 s2 n = strncmp_loop s1 s2 n 0"

definition strcmp :: "bytes \<Rightarrow> bytes \<Rightarrow> int" where
  "strcmp s1 s2 = strncmp s1 s2 SIZE_MAX"

text \<open>
  The two loops of \<open>strtok_r\<close> have no bound of their own: \<open>None\<close> is a loop that does not end. The
  pointers into the buffer are offsets, \<open>None\<close> for NULL; the result is the token, the buffer with
  the delimiter overwritten, and the new context.
\<close>

partial_function (option) strtok_skip :: "bytes \<Rightarrow> bytes \<Rightarrow> u32 \<Rightarrow> u32 \<Rightarrow> u32 option" where
  "strtok_skip b delim delimLen token =
     (if memcmp (view b token) delim delimLen = 0
      then strtok_skip b delim delimLen (token + delimLen) else Some token)"

declare strtok_skip.simps [code]

partial_function (option) strtok_scan :: "bytes \<Rightarrow> bytes \<Rightarrow> u32 \<Rightarrow> u32 \<Rightarrow> u32 \<Rightarrow> u32 option" where
  "strtok_scan b delim delimLen token count =
     (if memcmp (view b (token + count)) delim delimLen \<noteq> 0 \<and> b (token + count) \<noteq> 0
      then strtok_scan b delim delimLen token (count + 1) else Some count)"

declare strtok_scan.simps [code]

definition strtok_r ::
  "bytes \<Rightarrow> u32 option \<Rightarrow> bytes \<Rightarrow> u32 option \<Rightarrow> (u32 option \<times> bytes \<times> u32 option) option" where
  "strtok_r b str delim saveptr =
     (if str \<noteq> None \<or> saveptr \<noteq> None then
        let delimLen = strlen delim;
            start = (case str of Some p \<Rightarrow> p | None \<Rightarrow> the saveptr)
        in (case strtok_skip b delim delimLen start of
              None \<Rightarrow> None
            | Some token \<Rightarrow>
                (case strtok_scan b delim delimLen token 0 of
                   None \<Rightarrow> None
                 | Some count \<Rightarrow>
                     if b (token + count) \<noteq> 0
                     then Some (Some token, b(token + count := 0), Some (token + count + delimLen))
                     else Some (if b token = 0 then None else Some token, b, None)))
      else Some (None, b, saveptr))"

function strncat_loop :: "bytes \<Rightarrow> u32 \<Rightarrow> u32 \<Rightarrow> u32 \<Rightarrow> u32 \<Rightarrow> u32 \<Rightarrow> u32 \<times> bytes" where
  "strncat_loop m dest dest_len src n i =
     (if i < n \<and> m (src + i) \<noteq> 0
      then strncat_loop (m(dest + (dest_len + i) := m (src + i))) dest dest_len src n (i + 1)
      else (i, m))"
  by pat_completeness auto
termination
  by (relation "measure (\<lambda>(_, _, _, _, n, i). unat n - unat i)") (auto simp: loop_measure)

definition strncat :: "bytes \<Rightarrow> u32 \<Rightarrow> u32 \<Rightarrow> u32 \<Rightarrow> bytes" where
  "strncat m dest src n =
     (let dest_len = strlen (view m dest)
      in case strncat_loop m dest dest_len src n 0 of (i, m') \<Rightarrow> m'(dest + (dest_len + i) := 0))"

definition strcat :: "bytes \<Rightarrow> u32 \<Rightarrow> u32 \<Rightarrow> bytes" where
  "strcat m dest src = strncat m dest src SIZE_MAX"

declare strnlen_loop.simps [simp del] strncpy_loop.simps [simp del] strncpy_to_loop.simps [simp del]
  strncmp_loop.simps [simp del] strncat_loop.simps [simp del]

section \<open>C strings\<close>

text \<open>\<open>cstr_at m p s\<close>: the NUL-terminated string at address \<open>p\<close> is \<open>s\<close>.\<close>

fun cstr_at :: "bytes \<Rightarrow> u32 \<Rightarrow> u8 list \<Rightarrow> bool" where
  "cstr_at m p [] \<longleftrightarrow> m p = 0"
| "cstr_at m p (c # s) \<longleftrightarrow> c \<noteq> 0 \<and> m p = c \<and> cstr_at m (p + 1) s"

abbreviation is_cstr :: "bytes \<Rightarrow> u8 list \<Rightarrow> bool" where
  "is_cstr v s \<equiv> cstr_at v 0 s"

text \<open>A string literal of the source as the bytes seen from its address.\<close>

definition cstr :: "string \<Rightarrow> bytes" where
  "cstr s i = (if unat i < length s then of_char (s ! unat i) else 0)"

lemma cstr_at_view [simp]: "cstr_at (view m p) q s \<longleftrightarrow> cstr_at m (p + q) s"
  by (induction s arbitrary: q) (simp_all add: view_apply add.assoc)

lemma cstr_at_iff_nth:
  "cstr_at m p s \<longleftrightarrow>
     (\<forall>k<length s. m (p + of_nat k) = s ! k \<and> s ! k \<noteq> 0) \<and> m (p + of_nat (length s)) = 0"
  by (induction s arbitrary: p) (auto simp: All_less_Suc2 add.assoc)

lemma cstr_at_nth: "cstr_at m p s \<Longrightarrow> k < length s \<Longrightarrow> m (p + of_nat k) = s ! k"
  and cstr_at_nonzero: "cstr_at m p s \<Longrightarrow> 0 \<notin> set s"
  and cstr_at_end: "cstr_at m p s \<Longrightarrow> m (p + of_nat (length s)) = 0"
  by (auto simp: cstr_at_iff_nth in_set_conv_nth)

lemma cstr_at_length:
  assumes "cstr_at m p s"
  shows "length s < 2 ^ 32"
proof (rule ccontr)
  assume A: "\<not> length s < 2 ^ 32"
  define k where "k = length s mod 2 ^ 32"
  have "k < 2 ^ 32" by (simp add: k_def)
  then have "k < length s" using A by linarith
  moreover have "(of_nat (length s) :: u32) = of_nat k"
    by (simp add: k_def word_of_nat_eq_iff take_bit_eq_mod)
  ultimately show False using assms by (metis cstr_at_iff_nth)
qed

lemma cstr_at_unique: "cstr_at m p s \<Longrightarrow> cstr_at m p t \<Longrightarrow> s = t"
proof (induction s arbitrary: p t)
  case Nil
  then show ?case by (cases t) auto
next
  case (Cons c s)
  then show ?case by (cases t) auto
qed

section \<open>Contracts\<close>

lemma strnlen_loop_cstr:
  assumes "cstr_at v i s" and "unat i + length s < 2 ^ 32" and "i \<le> n"
  shows "unat (strnlen_loop v n i) = min (unat i + length s) (unat n)"
  using assms
proof (induction s arbitrary: i)
  case Nil
  then show ?case by (simp add: strnlen_loop.simps [of v n i] word_le_nat_alt)
next
  case (Cons c s)
  show ?case
  proof (cases "i < n")
    case True
    then have "unat (i + 1) = Suc (unat i)" by (rule unat_Suc_less)
    with Cons True show ?thesis
      by (simp add: strnlen_loop.simps [of v n i] word_le_nat_alt word_less_nat_alt)
  next
    case False
    with Cons show ?thesis by (simp add: strnlen_loop.simps [of v n i] word_le_nat_alt word_less_nat_alt)
  qed
qed

lemma strnlen_cstr: "is_cstr v s \<Longrightarrow> unat (strnlen v n) = min (length s) (unat n)"
  using strnlen_loop_cstr [of v 0 s n] cstr_at_length [of v 0 s] by (simp add: strnlen_def)

lemma unat_SIZE_MAX [simp]: "unat SIZE_MAX = 2 ^ 32 - 1"
  by (simp add: SIZE_MAX_def)

lemma strlen_cstr: "is_cstr v s \<Longrightarrow> unat (strlen v) = length s"
  using cstr_at_length [of v 0 s] by (simp add: strlen_def strnlen_cstr)

text \<open>\<open>strncmp\<close> stops at the first difference, at the end of the string or after \<open>n\<close> bytes.\<close>

lemma strncmp_loop_cstr:
  assumes "cstr_at v i s" and "cstr_at w i t" and "length s \<le> unat n"
  shows "strncmp_loop v w n i = 0 \<longleftrightarrow> s = t"
  using assms
proof (induction s arbitrary: i t n)
  case Nil
  then show ?case by (cases t) (auto simp: strncmp_loop.simps [of v w n i] sint_eq_iff sint_eq_0_iff)
next
  case (Cons c s)
  have "n \<noteq> 0" using Cons.prems(3) by auto
  then have n: "n > 0" "unat (n - 1) = unat n - 1" by (simp_all add: word_gt_0 unat_minus_one)
  show ?case
  proof (cases t)
    case Nil
    with Cons n show ?thesis by (auto simp: strncmp_loop.simps [of v w n i] sint_eq_0_iff)
  next
    case (Cons d u)
    note t = this
    show ?thesis
    proof (cases "c = d")
      case True
      then show ?thesis using Cons.prems n t Cons.IH [of "i + 1" u "n - 1"]
        by (simp add: strncmp_loop.simps [of v w n i])
    next
      case False
      then show ?thesis using Cons.prems t
        by (auto simp: strncmp_loop.simps [of v w n i] sint_eq_iff sint_eq_0_iff)
    qed
  qed
qed

lemma strncmp_eq_0_iff:
  "is_cstr v s \<Longrightarrow> is_cstr w t \<Longrightarrow> length s \<le> unat n \<Longrightarrow> strncmp v w n = 0 \<longleftrightarrow> s = t"
  using strncmp_loop_cstr [of v 0 s w t n] by (simp add: strncmp_def)

lemma strncmp_loop_cong:
  "cstr_at v i s \<Longrightarrow> cstr_at w i s \<Longrightarrow> strncmp_loop x v n i = strncmp_loop x w n i"
proof (induction s arbitrary: i n)
  case Nil
  then show ?case by (auto simp: strncmp_loop.simps [of x _ n i])
next
  case (Cons c s)
  then show ?case by (simp add: strncmp_loop.simps [of x _ n i])
qed

lemma strncmp_cong: "is_cstr v s \<Longrightarrow> is_cstr w s \<Longrightarrow> strncmp x v n = strncmp x w n"
  unfolding strncmp_def by (rule strncmp_loop_cong)

lemma cstr_at_upd:
  "\<forall>k\<le>length s. p + of_nat k \<noteq> a \<Longrightarrow> cstr_at (m(a := x)) p s \<longleftrightarrow> cstr_at m p s"
  by (auto simp: cstr_at_iff_nth)

lemma strncpy_to_loop_cstr:
  assumes "cstr_at v i s" and "i \<le> n"
  shows "strncpy_to_loop d v n i =
    (i + of_nat (min (length s) (unat n - unat i)),
     \<lambda>a. if unat (a - i) < min (length s) (unat n - unat i) then v a else d a)"
  using assms
proof (induction s arbitrary: i d)
  case Nil
  then show ?case by (simp add: strncpy_to_loop.simps [of d v n i])
next
  case (Cons c s)
  show ?case
  proof (cases "i < n")
    case True
    then have u: "unat (i + 1) = Suc (unat i)" by (rule unat_Suc_less)
    define q where "q = min (length s) (unat n - Suc (unat i))"
    have q: "min (length (c # s)) (unat n - unat i) = Suc q" "q < 2 ^ 32"
      using True cstr_at_length [OF Cons.prems(1)] by (auto simp: q_def word_less_nat_alt)
    have "cstr_at v (i + 1) s" "i + 1 \<le> n"
      using Cons.prems(1) True u by (simp_all add: word_le_nat_alt word_less_nat_alt)
    from Cons.IH [OF this, of "d(i := v i)"]
    have "strncpy_to_loop (d(i := v i)) v n (i + 1) =
      (i + 1 + of_nat q, \<lambda>a. if unat (a - (i + 1)) < q then v a else (d(i := v i)) a)"
      by (simp only: u q_def)
    then show ?thesis using Cons.prems True q
      by (auto simp: strncpy_to_loop.simps [of d v n i] range_step add.assoc fun_eq_iff)
  next
    case False
    with Cons.prems have "i = n" by simp
    then show ?thesis by (simp add: strncpy_to_loop.simps [of d v n n])
  qed
qed

lemma strncpy_to_apply:
  assumes "is_cstr v s"
  shows "strncpy_to d v n a =
    (if unat a < min (length s) (unat n) then v a
     else if unat a = length s \<and> length s < unat n then 0 else d a)"
proof -
  have len: "unat (of_nat (length s) :: u32) = length s"
    using cstr_at_length [OF assms] by (simp add: unat_of_nat)
  have eq: "a = of_nat (length s) \<longleftrightarrow> unat a = length s" for a :: u32
    using len by (metis word_unat_eq_iff)
  show ?thesis
  proof (cases "length s < unat n")
    case True
    then show ?thesis using strncpy_to_loop_cstr [OF assms, of n d] len
      by (auto simp: strncpy_to_def word_less_nat_alt eq)
  next
    case False
    then show ?thesis using strncpy_to_loop_cstr [OF assms, of n d]
      by (simp add: strncpy_to_def min_def)
  qed
qed

lemma strncpy_to_cstr: "is_cstr v s \<Longrightarrow> length s < unat n \<Longrightarrow> is_cstr (strncpy_to d v n) s"
  using cstr_at_length [of v 0 s]
  by (auto simp: cstr_at_iff_nth strncpy_to_apply [where s = s] unat_of_nat take_bit_nat_eq_self)

section \<open>Tokens\<close>

text \<open>The non-empty pieces of a string between single-character delimiters.\<close>

function tokens :: "u8 \<Rightarrow> u8 list \<Rightarrow> u8 list list" where
  "tokens c s =
     (let ds = dropWhile (\<lambda>x. x = c) s
      in if ds = [] then []
         else takeWhile (\<lambda>x. x \<noteq> c) ds # tokens c (dropWhile (\<lambda>x. x \<noteq> c) ds))"
  by pat_completeness auto
termination
proof (relation "measure (\<lambda>(_, s). length s)", goal_cases)
  case (2 c s ds)
  then have "hd ds \<noteq> c" "ds \<noteq> []" "length ds \<le> length s"
    using hd_dropWhile [of "\<lambda>x. x = c" s] by (auto simp: length_dropWhile_le)
  then have "length (dropWhile (\<lambda>x. x \<noteq> c) (tl ds)) < length ds"
    by (metis length_dropWhile_le length_tl le_trans diff_less length_greater_0_conv zero_less_one
        le_imp_less_Suc Suc_pred' less_Suc_eq_le)
  then show ?case using \<open>hd ds \<noteq> c\<close> \<open>ds \<noteq> []\<close> \<open>length ds \<le> length s\<close>
    by (cases ds) auto
qed simp

declare tokens.simps [simp del]

lemma tokens_Nil [simp]: "tokens c [] = []"
  and tokens_delim [simp]: "tokens c (c # s) = tokens c s"
  by (simp_all add: tokens.simps [of c "[]"] tokens.simps [of c "c # s"] tokens.simps [of c s])

lemma tokens_append: "tokens c (d @ c # f) = tokens c d @ tokens c f"
proof (induction c d rule: tokens.induct)
  case (1 c d)
  define ds where "ds = dropWhile (\<lambda>x. x = c) d"
  show ?case
  proof (cases "ds = []")
    case True
    then have "dropWhile (\<lambda>x. x = c) (d @ c # f) = dropWhile (\<lambda>x. x = c) f"
      by (simp add: ds_def dropWhile_append)
    then have "tokens c (d @ c # f) = tokens c f"
      by (simp only: tokens.simps [of c "d @ c # f"] tokens.simps [of c f])
    moreover have "tokens c d = []"
      using True by (simp add: tokens.simps [of c d] ds_def Let_def del: dropWhile_eq_Nil_conv)
    ultimately show ?thesis by simp
  next
    case False
    then have d: "dropWhile (\<lambda>x. x = c) (d @ c # f) = ds @ c # f"
      by (auto simp: ds_def dropWhile_append)
    have "takeWhile (\<lambda>x. x \<noteq> c) (ds @ c # f) = takeWhile (\<lambda>x. x \<noteq> c) ds"
      by (induction ds) auto
    moreover have "dropWhile (\<lambda>x. x \<noteq> c) (ds @ c # f) = dropWhile (\<lambda>x. x \<noteq> c) ds @ c # f"
      by (induction ds) auto
    ultimately show ?thesis
      using False 1 [OF ds_def False]
      by (simp only: tokens.simps [of c "d @ c # f"] tokens.simps [of c d] ds_def [symmetric] d
          Let_def if_False append_is_Nil_conv append_Cons list.distinct simp_thms)
  qed
qed

lemma tokens_single: "c \<notin> set f \<Longrightarrow> f \<noteq> [] \<Longrightarrow> tokens c f = [f]"
proof -
  assume A: "c \<notin> set f" "f \<noteq> []"
  then have "dropWhile (\<lambda>x. x = c) f = f" "takeWhile (\<lambda>x. x \<noteq> c) f = f" "dropWhile (\<lambda>x. x \<noteq> c) f = []"
    by (cases f; auto simp: takeWhile_eq_all_conv)+
  then show ?thesis using A by (subst tokens.simps) (simp only: Let_def if_False tokens_Nil)
qed

lemma memcmp_1 [simp]: "memcmp a d 1 = 0 \<longleftrightarrow> a 0 = d 0"
  by (simp add: memcmp_eq_0_iff word_less_1)

lemma strtok_skip_cstr:
  "cstr_at b p s \<Longrightarrow> c \<noteq> 0 \<Longrightarrow> delim 0 = c \<Longrightarrow>
   strtok_skip b delim 1 p = Some (p + of_nat (length (takeWhile (\<lambda>x. x = c) s)))"
proof (induction s arbitrary: p)
  case Nil
  then show ?case by (simp add: strtok_skip.simps [of b delim 1 p] view_apply)
next
  case (Cons x s)
  then show ?case by (simp add: strtok_skip.simps [of b delim 1 p] view_apply add.assoc)
qed

lemma strtok_scan_cstr:
  "cstr_at b (q + k) s \<Longrightarrow> delim 0 = c \<Longrightarrow>
   strtok_scan b delim 1 q k = Some (k + of_nat (length (takeWhile (\<lambda>x. x \<noteq> c) s)))"
proof (induction s arbitrary: k)
  case Nil
  then show ?case by (simp add: strtok_scan.simps [of b delim 1 q k] view_apply)
next
  case (Cons x s)
  then show ?case by (simp add: strtok_scan.simps [of b delim 1 q k] view_apply add.assoc)
qed

lemma cstr_at_append: "cstr_at b p (s @ t) \<Longrightarrow> cstr_at b (p + of_nat (length s)) t"
proof (induction s arbitrary: p)
  case (Cons x s)
  then show ?case using Cons.IH [of "p + 1"] by (simp add: add.assoc)
qed simp

lemma cstr_at_prefix:
  "cstr_at b p (s @ t) \<Longrightarrow> k < length s \<Longrightarrow> b (p + of_nat k) = s ! k \<and> s ! k \<noteq> 0"
proof (induction s arbitrary: p k)
  case (Cons x s)
  then show ?case using Cons.IH [of "p + 1"] by (cases k) (auto simp: add.assoc)
qed simp

lemma cstr_at_cut:
  assumes "cstr_at b q (t @ x # r)"
  shows "cstr_at (b(q + of_nat (length t) := 0)) q t"
    and "cstr_at (b(q + of_nat (length t) := 0)) (q + of_nat (length t) + 1) r"
proof -
  have len: "length t + length r + 1 < 2 ^ 32" using cstr_at_length [OF assms] by simp
  have inj: "q + of_nat k \<noteq> q + of_nat (length t)" if "k \<le> length t + length r + 1" "k \<noteq> length t" for k
    using that len by (simp add: word_of_nat_eq_iff take_bit_nat_eq_self)
  show "cstr_at (b(q + of_nat (length t) := 0)) q t"
    using cstr_at_prefix [OF assms] inj by (auto simp: cstr_at_iff_nth)
  have "cstr_at b (q + of_nat (length t) + 1) r"
    using cstr_at_append [of b q "t @ [x]" r] assms by (simp add: ac_simps)
  moreover have "\<forall>k\<le>length r. q + of_nat (length t) + 1 + of_nat k \<noteq> q + of_nat (length t)"
  proof (intro allI impI)
    fix k assume "k \<le> length r"
    then show "q + of_nat (length t) + 1 + of_nat k \<noteq> q + of_nat (length t)"
      using inj [of "length t + 1 + k"] by (simp add: ac_simps)
  qed
  ultimately show "cstr_at (b(q + of_nat (length t) := 0)) (q + of_nat (length t) + 1) r"
    by (simp add: cstr_at_upd)
qed

lemma strlen_single: "is_cstr delim [c] \<Longrightarrow> strlen delim = 1"
  using strlen_cstr [of delim "[c]"] by (simp add: word_unat_eq_iff)

text \<open>
  One call of \<open>strtok_r\<close> with a one-character delimiter: leading delimiters are skipped, the token
  is cut off by overwriting the delimiter that ends it, and the context points behind it.
\<close>

lemma strtok_r_cstr:
  assumes delim: "is_cstr delim [c]"
    and start: "str = Some p \<or> str = None \<and> saveptr = Some p"
    and s: "cstr_at b p s"
    and ds: "ds = dropWhile (\<lambda>x. x = c) s"
    and t: "t = takeWhile (\<lambda>x. x \<noteq> c) ds"
    and q: "q = p + of_nat (length (takeWhile (\<lambda>x. x = c) s))"
  shows "strtok_r b str delim saveptr =
    Some (if ds = [] then (None, b, None)
          else if dropWhile (\<lambda>x. x \<noteq> c) ds = [] then (Some q, b, None)
          else (Some q, b(q + of_nat (length t) := 0), Some (q + of_nat (length t) + 1)))"
proof -
  have c: "c \<noteq> 0" "delim 0 = c" "strlen delim = 1" using delim strlen_single by auto
  have p: "(case str of Some p \<Rightarrow> p | None \<Rightarrow> the saveptr) = p" "str \<noteq> None \<or> saveptr \<noteq> None"
    using start by auto
  have sds: "s = takeWhile (\<lambda>x. x = c) s @ ds" by (simp add: ds)
  then have qds: "cstr_at b q ds" using cstr_at_append s q by metis
  have tr: "ds = t @ dropWhile (\<lambda>x. x \<noteq> c) ds" by (simp add: t)
  have skip: "strtok_skip b delim 1 p = Some q"
    using strtok_skip_cstr [of b p s c delim] s c q by simp
  have scan: "strtok_scan b delim 1 q 0 = Some (of_nat (length t))"
    using strtok_scan_cstr [of b q 0 ds delim c] qds c t by simp
  have "cstr_at b (q + of_nat (length t)) (dropWhile (\<lambda>x. x \<noteq> c) ds)"
    using qds tr cstr_at_append by metis
  then have end0: "b (q + of_nat (length t)) = 0 \<longleftrightarrow> dropWhile (\<lambda>x. x \<noteq> c) ds = []"
    by (cases "dropWhile (\<lambda>x. x \<noteq> c) ds") auto
  have "b q = 0 \<longleftrightarrow> ds = []" using qds by (cases ds) auto
  then show ?thesis
    using end0 start by (auto simp: strtok_r_def Let_def p c skip scan)
qed

section \<open>Literals as lists of bytes\<close>

text \<open>A format or text of the program as its bytes.\<close>

definition bytes_of :: "string \<Rightarrow> u8 list" where
  "bytes_of s = map of_char s"

lemma cstr_bytes: "0 \<notin> set (bytes_of s) \<Longrightarrow> length s < 2 ^ 32 \<Longrightarrow> is_cstr (cstr s) (bytes_of s)"
proof -
  assume a: "0 \<notin> set (bytes_of s)" "length s < 2 ^ 32"
  have "bytes_of s ! k \<noteq> 0" if "k < length s" for k using a(1) nth_mem [of k "bytes_of s"] that by (auto simp: bytes_of_def simp del: nth_map)
  then show ?thesis using a(2) by (simp add: cstr_at_iff_nth cstr_def bytes_of_def unat_of_nat take_bit_nat_eq_self)
qed

end
