(* ===== verification/Coresys_Vfs.thy ===== *)
theory Coresys_Vfs
  imports Libk_String
begin

text \<open>
  The virtual file system layer of vfs.c and vfs.h: the node structure with its callbacks, the
  root and the inode counter, path resolution, symbolic links, and the path utilities. Nodes live
  in a store from addresses to structures; NULL is address 0 and a dereference of an address that
  holds no node is the result \<open>None\<close>, as is a loop that does not end. A concrete file system
  extends \<open>fs_node\<close> with its own fields, as the C code does by embedding it as first member.
\<close>

section \<open>Constants and data\<close>

definition VFS_T_NOK :: int where "VFS_T_NOK = -1"
definition VFS_T_OK :: int where "VFS_T_OK = 0"
definition MAX_FNAME :: u32 where "MAX_FNAME = 128"
definition MAX_PATH :: u32 where "MAX_PATH = 255"
definition FTYPE_REGULAR :: u32 where "FTYPE_REGULAR = 0x1"
definition FTYPE_DIRECTORY :: u32 where "FTYPE_DIRECTORY = 0x2"
definition FTYPE_SYMLINK :: u32 where "FTYPE_SYMLINK = 0x20"

lemmas ftype_defs = FTYPE_REGULAR_def FTYPE_DIRECTORY_def FTYPE_SYMLINK_def
lemmas vfs_consts = VFS_T_NOK_def VFS_T_OK_def MAX_FNAME_def MAX_PATH_def

text \<open>The functions of the kernel whose addresses are stored in callback fields.\<close>

datatype fs_callback =
    Cb_ramfs_open | Cb_ramfs_close | Cb_ramfs_read | Cb_ramfs_write | Cb_ramfs_readdir | Cb_ramfs_find
  | Cb_null_read | Cb_null_write
  | Cb_pci_vfs_confing_read | Cb_pci_vfs_confing_write
  | Cb_serial_fs_read | Cb_serial_fs_write | Cb_vga_fs_write

record fs_node =
  name :: bytes
  ino :: u32
  owner_id :: u32
  owner_group :: u32
  perm :: u32
  ftype :: u32
  flength :: u32
  impl_def :: u64
  open_cb :: "fs_callback option"
  close_cb :: "fs_callback option"
  read_cb :: "fs_callback option"
  write_cb :: "fs_callback option"
  readdir_cb :: "fs_callback option"
  find_cb :: "fs_callback option"
  node_ptr :: u32

record dirent =
  d_ino :: u32
  d_reclen :: u16
  d_type :: u8
  d_name :: bytes

record 'n vfs =
  nodes :: "u32 \<Rightarrow> 'n option"
  fs_root :: u32
  last_ino :: u32

text \<open>
  The bytes seen from the address of the name field: the array and, behind it, the inode number
  (little endian). No routine reads further than the first byte behind the array.
\<close>

definition name_view :: "'a fs_node_scheme \<Rightarrow> bytes" where
  "name_view n = (\<lambda>i. if i < MAX_FNAME then name n i
     else ucast (drop_bit (8 * unat (i - MAX_FNAME)) (ino n)))"

section \<open>Nodes and paths\<close>

definition fs_set_root :: "u32 \<Rightarrow> ('n, 'z) vfs_scheme \<Rightarrow> ('n, 'z) vfs_scheme" where
  "fs_set_root root_node st = st\<lparr>fs_root := root_node\<rparr>"

definition fs_get_root :: "('n, 'z) vfs_scheme \<Rightarrow> u32" where
  "fs_get_root st = fs_root st"

definition fs_new_ino_id :: "('n, 'z) vfs_scheme \<Rightarrow> u32 \<times> ('n, 'z) vfs_scheme" where
  "fs_new_ino_id st = (let st' = st\<lparr>last_ino := last_ino st + 1\<rparr> in (last_ino st' - 1, st'))"

partial_function (option) vfs_nodeFromSimlink ::
  "('a fs_node_scheme, 'z) vfs_scheme \<Rightarrow> u32 \<Rightarrow> u32 option" where
  "vfs_nodeFromSimlink st node =
     (case nodes st node of
        None \<Rightarrow> None
      | Some n \<Rightarrow> if ftype n = FTYPE_SYMLINK then vfs_nodeFromSimlink st (node_ptr n) else Some node)"

declare vfs_nodeFromSimlink.simps [code]

type_synonym 'st find_call = "fs_callback \<Rightarrow> 'st \<Rightarrow> u32 \<Rightarrow> bytes \<Rightarrow> u32 option"

definition fs_find ::
  "('a fs_node_scheme, 'z) vfs_scheme find_call \<Rightarrow> ('a fs_node_scheme, 'z) vfs_scheme \<Rightarrow> u32 \<Rightarrow> bytes
   \<Rightarrow> u32 option" where
  "fs_find call st dir_node nm =
     Option.bind (vfs_nodeFromSimlink st dir_node) (\<lambda>d.
     Option.bind (nodes st d) (\<lambda>n.
       case find_cb n of Some f \<Rightarrow> call f st d nm | None \<Rightarrow> Some 0))"

text \<open>
  The loop of \<open>fs_get_node\<close>: \<open>b\<close> is the private copy of the path that \<open>strtok_r\<close> cuts up, \<open>token\<close>
  the offset of the current component. The initial contents of the local array (and of the stack
  around it) are the argument \<open>stk\<close>.
\<close>

partial_function (option) fs_get_node_loop ::
  "('a fs_node_scheme, 'z) vfs_scheme find_call \<Rightarrow> ('a fs_node_scheme, 'z) vfs_scheme \<Rightarrow> u32
   \<Rightarrow> bytes \<Rightarrow> u32 \<Rightarrow> u32 option \<Rightarrow> u32 option" where
  "fs_get_node_loop call st currNode b token saveptr =
     Option.bind (fs_find call st currNode (view b token)) (\<lambda>n.
       if n = 0 then Some 0
       else Option.bind (strtok_r b None (cstr ''/'') saveptr) (\<lambda>(t, b', sp).
         case t of None \<Rightarrow> Some n | Some token' \<Rightarrow> fs_get_node_loop call st n b' token' sp))"

declare fs_get_node_loop.simps [code]

definition slash :: u8 where "slash = 0x2F"

definition fs_get_node ::
  "('a fs_node_scheme, 'z) vfs_scheme find_call \<Rightarrow> bytes \<Rightarrow> ('a fs_node_scheme, 'z) vfs_scheme \<Rightarrow> u32
   \<Rightarrow> bytes \<Rightarrow> u32 option" where
  "fs_get_node call stk st current path =
     (let intPath = strncpy_to stk path MAX_PATH
      in if intPath 0 \<noteq> slash \<and> current = 0 then Some 0
         else let currNode = (if intPath 0 = slash then fs_root st else current)
              in if currNode \<noteq> 0
                 then Option.bind (strtok_r intPath (Some 0) (cstr ''/'') None) (\<lambda>(t, b, sp).
                   case t of None \<Rightarrow> Some currNode
                   | Some token \<Rightarrow> fs_get_node_loop call st currNode b token sp)
                 else Some currNode)"

definition fs_get_simlink ::
  "bytes \<Rightarrow> u32 \<Rightarrow> u32 \<Rightarrow> ('a fs_node_scheme, 'z) vfs_scheme \<Rightarrow> ('a fs_node_scheme, 'z) vfs_scheme option"
where
  "fs_get_simlink simlinkName inNode simlink st =
     (case nodes st simlink of
        None \<Rightarrow> None
      | Some n \<Rightarrow>
          (case fs_new_ino_id st of (new_ino, st') \<Rightarrow>
             Some (st'\<lparr>nodes := (nodes st')(simlink \<mapsto>
               n\<lparr>open_cb := None, close_cb := None, read_cb := None, write_cb := None,
                 find_cb := None, readdir_cb := None, flength := 0, ino := new_ino,
                 name := strncpy_to (name n) simlinkName MAX_FNAME, owner_group := 0, owner_id := 0,
                 perm := 0, ftype := FTYPE_SYMLINK, node_ptr := inNode, impl_def := 0\<rparr>)\<rparr>)))"

section \<open>Operations through the callbacks\<close>

type_synonym 'st io_call = "fs_callback \<Rightarrow> 'st \<Rightarrow> u32 \<Rightarrow> u32 \<Rightarrow> u32 \<Rightarrow> u32 \<Rightarrow> (int \<times> 'st) option"
type_synonym 'st node_call = "fs_callback \<Rightarrow> 'st \<Rightarrow> u32 \<Rightarrow> (int \<times> 'st) option"
type_synonym 'st readdir_call =
  "fs_callback \<Rightarrow> 'st \<Rightarrow> u32 \<Rightarrow> u32 \<Rightarrow> dirent \<Rightarrow> (int \<times> dirent option \<times> dirent) option"

definition fs_read ::
  "('a fs_node_scheme, 'z) vfs_scheme io_call \<Rightarrow> ('a fs_node_scheme, 'z) vfs_scheme
   \<Rightarrow> u32 \<Rightarrow> u32 \<Rightarrow> u32 \<Rightarrow> u32 \<Rightarrow> (int \<times> ('a fs_node_scheme, 'z) vfs_scheme) option" where
  "fs_read call st node buf nbyte off =
     Option.bind (vfs_nodeFromSimlink st node) (\<lambda>d.
     Option.bind (nodes st d) (\<lambda>n.
       case read_cb n of Some f \<Rightarrow> call f st d buf nbyte off | None \<Rightarrow> Some (VFS_T_NOK, st)))"

definition fs_write ::
  "('a fs_node_scheme, 'z) vfs_scheme io_call \<Rightarrow> ('a fs_node_scheme, 'z) vfs_scheme
   \<Rightarrow> u32 \<Rightarrow> u32 \<Rightarrow> u32 \<Rightarrow> u32 \<Rightarrow> (int \<times> ('a fs_node_scheme, 'z) vfs_scheme) option" where
  "fs_write call st node buf nbyte off =
     Option.bind (vfs_nodeFromSimlink st node) (\<lambda>d.
     Option.bind (nodes st d) (\<lambda>n.
       case write_cb n of Some f \<Rightarrow> call f st d buf nbyte off | None \<Rightarrow> Some (VFS_T_NOK, st)))"

definition fs_open ::
  "('a fs_node_scheme, 'z) vfs_scheme node_call \<Rightarrow> ('a fs_node_scheme, 'z) vfs_scheme
   \<Rightarrow> u32 \<Rightarrow> (int \<times> ('a fs_node_scheme, 'z) vfs_scheme) option" where
  "fs_open call st node =
     Option.bind (vfs_nodeFromSimlink st node) (\<lambda>d.
     Option.bind (nodes st d) (\<lambda>n.
       case open_cb n of Some f \<Rightarrow> call f st d | None \<Rightarrow> Some (VFS_T_NOK, st)))"

definition fs_close ::
  "('a fs_node_scheme, 'z) vfs_scheme node_call \<Rightarrow> ('a fs_node_scheme, 'z) vfs_scheme
   \<Rightarrow> u32 \<Rightarrow> (int \<times> ('a fs_node_scheme, 'z) vfs_scheme) option" where
  "fs_close call st node =
     Option.bind (vfs_nodeFromSimlink st node) (\<lambda>d.
     Option.bind (nodes st d) (\<lambda>n.
       case close_cb n of Some f \<Rightarrow> call f st d | None \<Rightarrow> Some (VFS_T_NOK, st)))"

text \<open>\<open>res\<close> is the value of \<open>*result\<close> on entry, which a node without callback leaves alone.\<close>

definition fs_readdir ::
  "('a fs_node_scheme, 'z) vfs_scheme readdir_call \<Rightarrow> ('a fs_node_scheme, 'z) vfs_scheme
   \<Rightarrow> u32 \<Rightarrow> u32 \<Rightarrow> dirent \<Rightarrow> dirent option \<Rightarrow> (int \<times> dirent option \<times> dirent) option" where
  "fs_readdir call st dir_node index entry res =
     Option.bind (vfs_nodeFromSimlink st dir_node) (\<lambda>d.
     Option.bind (nodes st d) (\<lambda>n.
       case readdir_cb n of Some f \<Rightarrow> call f st d index entry | None \<Rightarrow> Some (VFS_T_NOK, res, entry)))"

section \<open>Path utilities\<close>

definition vfs_forbiden_chars :: string where "vfs_forbiden_chars = ''/''"
definition vfs_forbiden_names :: "string list" where "vfs_forbiden_names = [''.'', ''..'']"

definition fs_remove_last_slash :: "bytes \<Rightarrow> u32 \<Rightarrow> bytes \<times> u32" where
  "fs_remove_last_slash path pathLen =
     (if path (pathLen - 1) = slash then (path(pathLen - 1 := 0), pathLen - 1) else (path, pathLen))"

partial_function (option) fs_getFileName_loop ::
  "bytes \<Rightarrow> u32 \<Rightarrow> u32 option \<Rightarrow> (u32 option \<times> bytes) option" where
  "fs_getFileName_loop b prevTokenNode saveptr =
     Option.bind (strtok_r b None (cstr ''/'') saveptr) (\<lambda>(t, b', sp).
       case t of None \<Rightarrow> Some (Some prevTokenNode, b')
       | Some token \<Rightarrow> fs_getFileName_loop b' token sp)"

declare fs_getFileName_loop.simps [code]

text \<open>
  The result is the offset of the last component in the local array, and the array. (The C
  function returns a pointer into that array, whose lifetime ends with the call; the model lets
  the caller read it as it was left.)
\<close>

definition fs_getFileName :: "bytes \<Rightarrow> bytes \<Rightarrow> (u32 option \<times> bytes) option" where
  "fs_getFileName stk filePath =
     (let intPath0 = strncpy_to stk filePath MAX_FNAME;
          intPathLen0 = strnlen intPath0 MAX_FNAME;
          (intPath, intPathLen) = fs_remove_last_slash intPath0 intPathLen0
      in Option.bind (strtok_r intPath (Some 0) (cstr ''/'') None) (\<lambda>(t, b, sp).
           case t of None \<Rightarrow> Some (None, b) | Some token \<Rightarrow> fs_getFileName_loop b token sp))"

definition fs_getParentPath :: "bytes \<Rightarrow> bytes \<Rightarrow> bytes \<Rightarrow> bytes \<Rightarrow> (int \<times> bytes) option" where
  "fs_getParentPath stk stk' filePath parentPath =
     (let intPath0 = strncpy_to stk filePath MAX_FNAME;
          intPathLen0 = strnlen intPath0 MAX_FNAME;
          (intPath, intPathLen1) = fs_remove_last_slash intPath0 intPathLen0
      in Option.bind (fs_getFileName stk' filePath) (\<lambda>(fileName, b).
           case fileName of
             None \<Rightarrow> Some (VFS_T_NOK, parentPath)
           | Some f \<Rightarrow>
               let fileNameLen = strnlen (view b f) MAX_FNAME;
                   intPathLen = intPathLen1 - fileNameLen;
                   parentPath1 = for_upto 0 intPathLen (\<lambda>i d. d(i := intPath i)) parentPath;
                   (parentPath2, len) =
                     (if intPathLen \<noteq> 1 then fs_remove_last_slash parentPath1 intPathLen
                      else (parentPath1, intPathLen))
               in Some (VFS_T_OK, parentPath2(len := 0))))"

text \<open>The second component is the offset stored through \<open>errChar\<close>.\<close>

definition fs_checkFileName :: "bytes \<Rightarrow> int \<times> u32 option" where
  "fs_checkFileName fileName =
     (if list_ex (\<lambda>nm. strncmp fileName (cstr nm) MAX_FNAME = 0) vfs_forbiden_names
      then (VFS_T_NOK, None)
      else
        let fileNameLen = strnlen fileName MAX_FNAME
        in case for_ret 0 (of_nat (length vfs_forbiden_chars) :: u32) (\<lambda>i _.
                  for_ret 0 fileNameLen (\<lambda>k _.
                    if fileName k = cstr vfs_forbiden_chars i then Inl k else Inr ()) ()) ()
           of Inl k \<Rightarrow> (VFS_T_NOK, Some k) | Inr _ \<Rightarrow> (VFS_T_OK, None))"

section \<open>Path resolution\<close>

text \<open>The canonical bytes of a string, and the walk along the components of a path.\<close>

definition str_view :: "u8 list \<Rightarrow> bytes" where
  "str_view s = (\<lambda>i. if unat i < length s then s ! unat i else 0)"

fun vfs_walk ::
  "('a fs_node_scheme, 'z) vfs_scheme find_call \<Rightarrow> ('a fs_node_scheme, 'z) vfs_scheme \<Rightarrow> u32
   \<Rightarrow> u8 list list \<Rightarrow> u32 option" where
  "vfs_walk call st n [] = Some n"
| "vfs_walk call st n (t # ts) =
     Option.bind (fs_find call st n (str_view t)) (\<lambda>n'. if n' = 0 then Some 0 else vfs_walk call st n' ts)"

lemma str_view_cstr: "0 \<notin> set s \<Longrightarrow> length s < 2 ^ 32 \<Longrightarrow> is_cstr (str_view s) s"
  by (auto simp: cstr_at_iff_nth str_view_def unat_of_nat take_bit_nat_eq_self in_set_conv_nth)

lemma str_view_cstr_at: "cstr_at m p s \<Longrightarrow> is_cstr (str_view s) s"
  using str_view_cstr cstr_at_nonzero cstr_at_length by blast

lemma cstr_slash: "is_cstr (cstr ''/'') [slash]"
  by (simp add: cstr_def slash_def)

lemma tokens_step:
  assumes "ds = dropWhile (\<lambda>x. x = c) s" and "ds \<noteq> []"
    and "t = takeWhile (\<lambda>x. x \<noteq> c) ds" and "r = tl (dropWhile (\<lambda>x. x \<noteq> c) ds)"
  shows "tokens c s = t # tokens c r"
proof -
  have eq: "tokens c (dropWhile (\<lambda>x. x \<noteq> c) ds) = tokens c r"
  proof (cases "dropWhile (\<lambda>x. x \<noteq> c) ds")
    case (Cons x xs)
    then have "x = c" using hd_dropWhile [of "\<lambda>x. x \<noteq> c" ds] by (metis list.distinct(1) list.sel(1))
    with Cons show ?thesis unfolding assms(4) by simp
  next
    case Nil
    then show ?thesis unfolding assms(4) by (simp only: list.sel)
  qed
  show ?thesis
    using assms(2) by (subst tokens.simps) (simp only: Let_def assms(1) [symmetric] assms(3) [symmetric] eq if_False)
qed

text \<open>What the kernel's \<open>strtok_r\<close> leaves in the buffer: the token, and the rest to be cut.\<close>

lemma strtok_r_tokens:
  assumes delim: "is_cstr delim [c]"
    and start: "str = Some p \<or> str = None \<and> saveptr = Some p"
    and s: "cstr_at b p s"
  shows "case tokens c s of
      [] \<Rightarrow> strtok_r b str delim saveptr = Some (None, b, None)
    | t # ts \<Rightarrow> \<exists>q b' sp. strtok_r b str delim saveptr = Some (Some q, b', sp) \<and> cstr_at b' q t \<and>
        (case sp of None \<Rightarrow> ts = []
         | Some p' \<Rightarrow> \<exists>r. cstr_at b' p' r \<and> ts = tokens c r \<and> length r < length s)"
proof -
  define ds where "ds = dropWhile (\<lambda>x. x = c) s"
  define t where "t = takeWhile (\<lambda>x. x \<noteq> c) ds"
  define q where "q = p + of_nat (length (takeWhile (\<lambda>x. x = c) s))"
  note st = strtok_r_cstr [OF delim start s ds_def t_def q_def]
  show ?thesis
  proof (cases "ds = []")
    case True
    then have "tokens c s = []" by (subst tokens.simps) (simp add: ds_def Let_def)
    with st True show ?thesis by simp
  next
    case False
    define e where "e = dropWhile (\<lambda>x. x \<noteq> c) ds"
    note ts = tokens_step [OF ds_def False t_def refl, folded e_def]
    have "s = takeWhile (\<lambda>x. x = c) s @ ds" by (simp add: ds_def)
    then have qds: "cstr_at b q ds" and len: "length ds \<le> length s"
      using cstr_at_append s q_def by (metis, simp add: ds_def length_dropWhile_le)
    have te: "ds = t @ e" by (simp add: t_def e_def)
    show ?thesis
    proof (cases e)
      case Nil
      then have "tokens c s = [t]" "ds = t" using ts te by simp_all
      then show ?thesis using st [folded e_def] False Nil qds by simp
    next
      case (Cons x r)
      then show ?thesis
        using st [folded e_def] False ts te len cstr_at_cut [of b q t x r] qds
        by (auto intro!: exI [of _ r])
    qed
  qed
qed

text \<open>
  A file system's look-up callback sees only the string it is given, whatever memory holds it.
\<close>

locale find_provider =
  fixes call :: "('a fs_node_scheme, 'z) vfs_scheme find_call"
  assumes call_cong: "is_cstr v s \<Longrightarrow> is_cstr w s \<Longrightarrow> call f st d v = call f st d w"
begin

lemma fs_find_cong: "is_cstr v s \<Longrightarrow> is_cstr w s \<Longrightarrow> fs_find call st d v = fs_find call st d w"
proof -
  assume "is_cstr v s" "is_cstr w s"
  then have "call f st e v = call f st e w" for f e by (rule call_cong)
  then show ?thesis by (simp only: fs_find_def)
qed

lemma fs_get_node_loop_walk:
  assumes "cstr_at b token t"
    and "case sp of None \<Rightarrow> ts = [] | Some p \<Rightarrow> \<exists>r. cstr_at b p r \<and> ts = tokens slash r"
  shows "fs_get_node_loop call st n b token sp = vfs_walk call st n (t # ts)"
  using assms
proof (induction ts arbitrary: n b token t sp)
  case Nil
  have f: "fs_find call st n (view b token) = fs_find call st n (str_view t)"
    using Nil(1) by (intro fs_find_cong [of _ t]) (auto intro: str_view_cstr_at)
  have "strtok_r b None (cstr ''/'') sp = Some (None, b, None)"
  proof (cases sp)
    case (Some p)
    with Nil show ?thesis using strtok_r_tokens [OF cstr_slash, of None p sp b] by fastforce
  qed (simp add: strtok_r_def)
  then show ?case
    using f by (simp add: fs_get_node_loop.simps [of call st n] cong: if_cong)
next
  case (Cons t' ts)
  from Cons.prems(2) obtain p r where sp: "sp = Some p" "cstr_at b p r" "tokens slash r = t' # ts"
    by (cases sp) auto
  from strtok_r_tokens [OF cstr_slash, of None p sp b r] sp obtain q b' sp' where
    tok: "strtok_r b None (cstr ''/'') sp = Some (Some q, b', sp')" "cstr_at b' q t'"
      "case sp' of None \<Rightarrow> ts = [] | Some p' \<Rightarrow> \<exists>r. cstr_at b' p' r \<and> ts = tokens slash r"
    by (force split: option.splits)
  have f: "fs_find call st n (view b token) = fs_find call st n (str_view t)"
    using Cons.prems(1) by (intro fs_find_cong [of _ t]) (auto intro: str_view_cstr_at)
  show ?case
    using f tok(1) Cons.IH [OF tok(2,3)] by (simp add: fs_get_node_loop.simps [of call st n] cong: if_cong)
qed

lemma fs_get_node_walk:
  assumes "is_cstr path s" and "length s < 255" and "s \<noteq> []" and "hd s = slash" and "fs_root st \<noteq> 0"
  shows "fs_get_node call stk st current path = vfs_walk call st (fs_root st) (tokens slash s)"
proof -
  define b where "b = strncpy_to stk path MAX_PATH"
  have b: "is_cstr b s"
    unfolding b_def using assms(1,2) by (intro strncpy_to_cstr) (simp_all add: MAX_PATH_def)
  then have "b 0 = slash" using assms(3,4) by (cases s) auto
  then have eq: "fs_get_node call stk st current path =
    Option.bind (strtok_r b (Some 0) (cstr ''/'') None) (\<lambda>(t, b, sp).
       case t of None \<Rightarrow> Some (fs_root st)
       | Some token \<Rightarrow> fs_get_node_loop call st (fs_root st) b token sp)"
    using assms(5) by (simp add: fs_get_node_def Let_def b_def [symmetric])
  have tok: "case tokens slash s of
      [] \<Rightarrow> strtok_r b (Some 0) (cstr ''/'') None = Some (None, b, None)
    | t # ts \<Rightarrow> \<exists>q b' sp. strtok_r b (Some 0) (cstr ''/'') None = Some (Some q, b', sp) \<and>
        cstr_at b' q t \<and> (case sp of None \<Rightarrow> ts = []
          | Some p \<Rightarrow> \<exists>r. cstr_at b' p r \<and> ts = tokens slash r \<and> length r < length s)"
    using strtok_r_tokens [OF cstr_slash, of "Some 0" 0 None b s] b by simp
  show ?thesis
  proof (cases "tokens slash s")
    case (Cons t ts)
    with tok obtain q b' sp where
      q: "strtok_r b (Some 0) (cstr ''/'') None = Some (Some q, b', sp)" "cstr_at b' q t"
        "case sp of None \<Rightarrow> ts = [] | Some p \<Rightarrow> \<exists>r. cstr_at b' p r \<and> ts = tokens slash r"
      by (force split: option.splits)
    with eq Cons fs_get_node_loop_walk [OF q(2,3)] show ?thesis by simp
  next
    case Nil
    with eq tok show ?thesis by simp
  qed
qed

end

section \<open>File names and parent paths\<close>

definition strip_slash :: "u8 list \<Rightarrow> u8 list" where
  "strip_slash s = (if s \<noteq> [] \<and> last s = slash then butlast s else s)"

lemma strip_slash_prefix: obtains t where "s = strip_slash s @ t"
proof (cases "s \<noteq> [] \<and> last s = slash")
  case True
  then have "s = strip_slash s @ [slash]" by (metis strip_slash_def append_butlast_last_id)
  then show thesis by (rule that)
next
  case False
  then have "s = strip_slash s @ []" by (auto simp: strip_slash_def)
  then show thesis by (rule that)
qed

lemma slash_nonzero [simp]: "slash \<noteq> 0"
  by (simp add: slash_def)

lemma tokens_strip_slash [simp]: "tokens slash (strip_slash s) = tokens slash s"
proof (cases "s \<noteq> [] \<and> last s = slash")
  case True
  then obtain d where "s = d @ [slash]" by (metis append_butlast_last_id)
  then show ?thesis using tokens_append [of slash d "[]"] by (simp add: strip_slash_def)
qed (auto simp: strip_slash_def)

lemma fs_remove_last_slash_cstr:
  assumes "is_cstr b s" and "s \<noteq> []" and "unat len = length s"
    and "fs_remove_last_slash b len = (b', len')"
  shows "is_cstr b' (strip_slash s)" and "unat len' = length (strip_slash s)"
proof -
  have len: "len = of_nat (length (butlast s)) + 1"
    using assms(2,3) by (metis append_butlast_last_id length_append_singleton of_nat_Suc add.commute
        of_nat_unat ucast_id)
  obtain d x where s: "s = d @ [x]" using assms(2) by (metis append_butlast_last_id)
  have x: "b (len - 1) = x" using cstr_at_append [of b 0 d "[x]"] assms(1) len s by simp
  have "unat (len - 1) = length s - 1"
    using assms(2,3) by (subst unat_minus_one) auto
  then show "is_cstr b' (strip_slash s)" "unat len' = length (strip_slash s)"
    using assms x len cstr_at_cut(1) [of b 0 d x "[]"] s
    by (auto simp: fs_remove_last_slash_def strip_slash_def split: if_splits)
qed

lemma fs_getFileName_loop_last:
  assumes "cstr_at b token t"
    and "case sp of None \<Rightarrow> ts = [] | Some p \<Rightarrow> \<exists>r. cstr_at b p r \<and> ts = tokens slash r"
  shows "\<exists>q b'. fs_getFileName_loop b token sp = Some (Some q, b') \<and> cstr_at b' q (last (t # ts))"
  using assms
proof (induction ts arbitrary: b token t sp)
  case Nil
  have "strtok_r b None (cstr ''/'') sp = Some (None, b, None)"
  proof (cases sp)
    case (Some p)
    with Nil show ?thesis using strtok_r_tokens [OF cstr_slash, of None p sp b] by fastforce
  qed (simp add: strtok_r_def)
  then show ?case using Nil(1) by (simp add: fs_getFileName_loop.simps [of b])
next
  case (Cons t' ts)
  from Cons.prems(2) obtain p r where sp: "sp = Some p" "cstr_at b p r" "tokens slash r = t' # ts"
    by (cases sp) auto
  from strtok_r_tokens [OF cstr_slash, of None p sp b r] sp obtain q b' sp' where
    tok: "strtok_r b None (cstr ''/'') sp = Some (Some q, b', sp')" "cstr_at b' q t'"
      "case sp' of None \<Rightarrow> ts = [] | Some p' \<Rightarrow> \<exists>r. cstr_at b' p' r \<and> ts = tokens slash r"
    by (force split: option.splits)
  then show ?case using Cons.IH [OF tok(2,3)] by (simp add: fs_getFileName_loop.simps [of b])
qed

lemma path_copy:
  assumes "is_cstr path s" and "length s < 128"
  shows "is_cstr (strncpy_to stk path MAX_FNAME) s"
    and "unat (strnlen (strncpy_to stk path MAX_FNAME) MAX_FNAME) = length s"
proof -
  show c: "is_cstr (strncpy_to stk path MAX_FNAME) s"
    using assms by (intro strncpy_to_cstr) (simp_all add: MAX_FNAME_def)
  show "unat (strnlen (strncpy_to stk path MAX_FNAME) MAX_FNAME) = length s"
    using strnlen_cstr [OF c, of MAX_FNAME] assms(2) by (simp add: MAX_FNAME_def)
qed

lemma fs_getFileName_last:
  assumes "is_cstr path s" and "length s < 128" and "s \<noteq> []"
  shows "if tokens slash s = [] then \<exists>b. fs_getFileName stk path = Some (None, b)
    else \<exists>q b. fs_getFileName stk path = Some (Some q, b) \<and> cstr_at b q (last (tokens slash s))"
proof -
  define b0 where "b0 = strncpy_to stk path MAX_FNAME"
  obtain b n where b: "fs_remove_last_slash b0 (strnlen b0 MAX_FNAME) = (b, n)" by (metis surj_pair)
  have c: "is_cstr b (strip_slash s)"
    by (rule fs_remove_last_slash_cstr [OF _ assms(3) _ b])
       (use path_copy [OF assms(1,2), of stk] in \<open>simp_all add: b0_def\<close>)
  have eq: "fs_getFileName stk path = Option.bind (strtok_r b (Some 0) (cstr ''/'') None) (\<lambda>(t, b, sp).
      case t of None \<Rightarrow> Some (None, b) | Some token \<Rightarrow> fs_getFileName_loop b token sp)"
    by (simp add: fs_getFileName_def Let_def b0_def [symmetric] b)
  have tok: "case tokens slash s of
      [] \<Rightarrow> strtok_r b (Some 0) (cstr ''/'') None = Some (None, b, None)
    | t # ts \<Rightarrow> \<exists>q b' sp. strtok_r b (Some 0) (cstr ''/'') None = Some (Some q, b', sp) \<and>
        cstr_at b' q t \<and> (case sp of None \<Rightarrow> ts = []
          | Some p \<Rightarrow> \<exists>r. cstr_at b' p r \<and> ts = tokens slash r \<and> length r < length (strip_slash s))"
    using strtok_r_tokens [OF cstr_slash, of "Some 0" 0 None b "strip_slash s"] c by simp
  show ?thesis
  proof (cases "tokens slash s")
    case (Cons t ts)
    with tok obtain q b' sp where
      q: "strtok_r b (Some 0) (cstr ''/'') None = Some (Some q, b', sp)" "cstr_at b' q t"
        "case sp of None \<Rightarrow> ts = [] | Some p \<Rightarrow> \<exists>r. cstr_at b' p r \<and> ts = tokens slash r"
      by (force split: option.splits)
    with eq Cons fs_getFileName_loop_last [OF q(2,3)] show ?thesis by simp
  next
    case Nil
    with eq tok show ?thesis by simp
  qed
qed

lemma cstr_terminate:
  assumes "\<And>k. k < length x \<Longrightarrow> b (of_nat k) = x ! k" and "0 \<notin> set x" and "unat n = length x"
  shows "is_cstr (b(n := 0)) x"
proof -
  have n: "n = of_nat (length x)" "length x < 2 ^ 32"
    using assms(3) unat_lt2p [of n] by (metis of_nat_unat ucast_id, simp)
  have "of_nat k \<noteq> n" if "k < length x" for k
    using that n by (simp add: word_of_nat_eq_iff take_bit_nat_eq_self)
  then show ?thesis using assms(1,2) n(1) by (auto simp: cstr_at_iff_nth in_set_conv_nth)
qed

lemma copy_prefix:
  "for_upto 0 n (\<lambda>i d. d(i := v i)) d a = (if a < n then v a else d a)" for v d :: bytes
proof -
  have "unat n \<le> 2 ^ 32" using unat_lt2p [of n] by simp
  then show ?thesis
    using fold_write [of "unat n" 0 "\<lambda>k. v (of_nat k)" d a]
    by (simp add: loop_simps word_less_nat_alt)
qed

lemma fs_getParentPath_split:
  assumes "is_cstr path s" and "length s < 128"
    and split: "strip_slash s = d @ slash # f" and f: "slash \<notin> set f" "f \<noteq> []"
  shows "\<exists>pp. fs_getParentPath stk stk' path parentPath = Some (VFS_T_OK, pp) \<and>
    is_cstr pp (if d = [] then [slash] else d)"
proof -
  have ne: "s \<noteq> []" using split by (auto simp: strip_slash_def)
  have "tokens slash s = tokens slash d @ [f]"
    using tokens_strip_slash [of s] by (simp add: split tokens_append tokens_single f del: tokens_strip_slash)
  then obtain q b where fn: "fs_getFileName stk' path = Some (Some q, b)" "cstr_at b q f"
    using fs_getFileName_last [OF assms(1,2) ne, of stk'] by auto
  define b0 where "b0 = strncpy_to stk path MAX_FNAME"
  obtain ip n where ip: "fs_remove_last_slash b0 (strnlen b0 MAX_FNAME) = (ip, n)" by (metis surj_pair)
  have c: "is_cstr ip (d @ slash # f)" "unat n = length (d @ slash # f)"
    using fs_remove_last_slash_cstr [OF _ ne _ ip] path_copy [OF assms(1,2), of stk]
    by (simp_all add: b0_def split)
  have len: "length (d @ slash # f) < 128"
    using assms(2) by (simp flip: split) (auto simp: strip_slash_def)
  define fl where "fl = strnlen (view b q) MAX_FNAME"
  have fl: "unat fl = length f"
    unfolding fl_def using strnlen_cstr [of "view b q" f MAX_FNAME] fn(2) len by (simp add: MAX_FNAME_def)
  define n' where "n' = n - fl"
  have n': "unat n' = Suc (length d)"
    unfolding n'_def using c(2) fl by (simp add: unat_sub word_le_nat_alt)
  define pp where "pp = for_upto 0 n' (\<lambda>i d. d(i := ip i)) parentPath"
  have pp: "pp (of_nat k) = (d @ [slash]) ! k" if "k < Suc (length d)" for k
  proof -
    have "pp (of_nat k) = ip (of_nat k)"
      using that n' len by (simp add: pp_def copy_prefix word_less_nat_alt unat_of_nat take_bit_nat_eq_self)
    then show ?thesis
      using cstr_at_prefix [of ip 0 "d @ [slash]" f k] c(1) that by simp
  qed
  have nz: "0 \<notin> set d" using cstr_at_nonzero [OF c(1)] by simp
  have eq: "fs_getParentPath stk stk' path parentPath = Some (VFS_T_OK,
      let (pp2, len) = (if n' \<noteq> 1 then fs_remove_last_slash pp n' else (pp, n')) in pp2(len := 0))"
    by (simp add: fs_getParentPath_def Let_def b0_def [symmetric] ip fn(1) fl_def [symmetric]
        n'_def [symmetric] pp_def split: prod.splits)
  have one: "n' = 1 \<longleftrightarrow> d = []" using n' by (simp add: word_unat_eq_iff)
  show ?thesis
  proof (cases "d = []")
    case True
    then have "is_cstr (pp(n' := 0)) [slash]"
      using pp [of 0] n' by (intro cstr_terminate) simp_all
    with eq one True show ?thesis by simp
  next
    case False
    have n1: "unat (n' - 1) = length d" using n' by (subst unat_minus_one) auto
    then have "pp (n' - 1) = slash" using pp [of "length d"] by (metis nth_append_length lessI of_nat_unat ucast_id)
    moreover have "is_cstr (pp(n' - 1 := 0)) d"
      using pp nz n1 by (intro cstr_terminate) (simp_all add: nth_append)
    ultimately show ?thesis using eq one False by (simp add: fs_remove_last_slash_def)
  qed
qed

lemma fs_checkFileName_iff:
  assumes "is_cstr fileName s" and "length s \<le> 128"
  shows "fst (fs_checkFileName fileName) = VFS_T_OK \<longleftrightarrow> s \<noteq> [0x2E] \<and> s \<noteq> [0x2E, 0x2E] \<and> slash \<notin> set s"
proof -
  have names: "strncmp fileName (cstr ''.'') MAX_FNAME = 0 \<longleftrightarrow> s = [0x2E]"
    "strncmp fileName (cstr ''..'') MAX_FNAME = 0 \<longleftrightarrow> s = [0x2E, 0x2E]"
    using assms by (intro strncmp_eq_0_iff; simp add: cstr_def MAX_FNAME_def)+
  define n where "n = strnlen fileName MAX_FNAME"
  have n: "unat n = length s"
    using strnlen_cstr [OF assms(1), of MAX_FNAME] assms(2) by (simp add: n_def MAX_FNAME_def)
  have inner: "for_ret 0 n (\<lambda>k _. if fileName k = cstr ''/'' 0 then Inl k else Inr ()) () = Inr () \<longleftrightarrow>
      slash \<notin> set s"
    using n cstr_at_nth [OF assms(1)]
    by (subst for_ret_search [where f = "\<lambda>k. k" and P = "\<lambda>k. fileName k = slash"])
       (auto simp: cstr_def slash_def in_set_conv_nth)
  have outer: "for_ret 0 (1::u32) B () = B 0 ()" for B :: "u32 \<Rightarrow> unit \<Rightarrow> u32 + unit"
    using for_ret.simps [of 0 "1::u32" B "()"] for_ret.simps [of 1 "1::u32" B "()"]
    by (auto split: sum.split)
  show ?thesis
    using names inner
    by (auto simp: fs_checkFileName_def vfs_forbiden_names_def vfs_forbiden_chars_def outer vfs_consts
        n_def [symmetric, unfolded vfs_consts] split: sum.splits)
qed

end
