(* ===== verification/Libk_Heap.thy ===== *)
theory Libk_Heap
  imports Libk_Mem
begin

text \<open>
  The kernel heap of kheap.c: a bump allocator over a static area that marks the end of the last
  block with a magic word, a \<open>krealloc\<close> that finds the old size by looking for that word, and a
  \<open>kfree\<close> that does nothing. The magic word is the address of a string literal, a link-time
  constant that the definitions take as the argument \<open>magic\<close>.
\<close>

section \<open>State and operations\<close>

record kheap =
  HeapMem :: u32
  HeapMemSize :: u32
  CurrentPointer :: u32

definition MEM_MIN_SIZE :: u32 where
  "MEM_MIN_SIZE = 4"

definition round_up :: "u32 \<Rightarrow> u32" where
  "round_up n = ((n + MEM_MIN_SIZE - 1) div MEM_MIN_SIZE) * MEM_MIN_SIZE"

definition InitKernelHeap :: "u32 \<Rightarrow> u32 \<Rightarrow> kheap" where
  "InitKernelHeap startAddr memSize =
     \<lparr>HeapMem = round_up startAddr, HeapMemSize = memSize, CurrentPointer = round_up startAddr\<rparr>"

definition kmalloc :: "u32 \<Rightarrow> bytes \<Rightarrow> kheap \<Rightarrow> u32 \<Rightarrow> u32 \<times> bytes \<times> kheap" where
  "kmalloc magic m h n =
     (let sizeToAlloc = round_up n;
          nextAddrInt = CurrentPointer h + sizeToAlloc;
          (returnAddr, h') =
            (if nextAddrInt \<le> HeapMemSize h + HeapMem h
             then (CurrentPointer h, h\<lparr>CurrentPointer := nextAddrInt\<rparr>) else (0, h))
      in (returnAddr, store32 m nextAddrInt magic, h'))"

definition kcalloc :: "u32 \<Rightarrow> bytes \<Rightarrow> kheap \<Rightarrow> u32 \<Rightarrow> u32 \<Rightarrow> u32 \<times> bytes \<times> kheap" where
  "kcalloc magic m h nmemb n = kmalloc magic m h (nmemb * n)"

definition kfree :: "kheap \<Rightarrow> u32 \<Rightarrow> kheap" where
  "kfree h ptr = h"

function krealloc_scan :: "u32 \<Rightarrow> bytes \<Rightarrow> u32 \<Rightarrow> u32 \<Rightarrow> u32 \<Rightarrow> u32" where
  "krealloc_scan magic m count oldSize ptrCount =
     (if count \<noteq> 0 \<and> load32 m ptrCount \<noteq> magic
      then krealloc_scan magic m (count - 1) (oldSize + 1) (ptrCount + 1) else oldSize)"
  by pat_completeness auto
termination
  by (relation "measure (\<lambda>(_, _, count, _, _). unat count)") (auto simp: unat_minus_one unat_gt_0)

declare krealloc_scan.simps [simp del]

definition krealloc_old_size :: "u32 \<Rightarrow> bytes \<Rightarrow> u32 \<Rightarrow> u32 \<Rightarrow> u32" where
  "krealloc_old_size magic m ptr n =
     (let oldSize = krealloc_scan magic m n 0 ptr - 1 in if oldSize > n then n else oldSize)"

definition krealloc :: "u32 \<Rightarrow> bytes \<Rightarrow> kheap \<Rightarrow> u32 \<Rightarrow> u32 \<Rightarrow> u32 \<times> bytes \<times> kheap" where
  "krealloc magic m h ptr n =
     (let oldSize = krealloc_old_size magic m ptr n
      in if n > 0
         then (case kmalloc magic m h n of (newPtr, m', h') \<Rightarrow>
                 (newPtr, memcpy m' newPtr ptr oldSize, kfree h' ptr))
         else (0, m, kfree h ptr))"

section \<open>The allocator contract\<close>

text \<open>
  What the clients of the heap rely on: a block of the requested size that overlaps nothing handed
  out before, and contents of handed-out memory that allocation leaves alone.
\<close>

locale allocator =
  fixes alloc :: "'s \<Rightarrow> u32 \<Rightarrow> u32 \<times> 's"
    and used :: "'s \<Rightarrow> u32 set"
    and content :: "'s \<Rightarrow> bytes"
    and inv :: "'s \<Rightarrow> bool"
    and ok :: "'s \<Rightarrow> u32 \<Rightarrow> bool"
  assumes inv_alloc: "inv s \<Longrightarrow> ok s n \<Longrightarrow> alloc s n = (p, s') \<Longrightarrow> inv s'"
    and alloc_fresh: "inv s \<Longrightarrow> ok s n \<Longrightarrow> alloc s n = (p, s') \<Longrightarrow> p \<noteq> 0 \<Longrightarrow> i < n \<Longrightarrow>
          p + i \<notin> used s \<and> p + i \<in> used s'"
    and alloc_mono: "inv s \<Longrightarrow> ok s n \<Longrightarrow> alloc s n = (p, s') \<Longrightarrow> used s \<subseteq> used s'"
    and alloc_content: "inv s \<Longrightarrow> ok s n \<Longrightarrow> alloc s n = (p, s') \<Longrightarrow> a \<in> used s \<Longrightarrow>
          content s' a = content s a"
begin

lemma alloc_disjoint_used:
  assumes "inv s" "ok s n" "alloc s n = (p, s')" "p \<noteq> 0" "i < n" "a \<in> used s"
  shows "p + i \<noteq> a"
  using alloc_fresh [OF assms(1-5)] assms(6) by auto

lemma two_blocks_disjoint:
  assumes "inv s" "ok s n" "alloc s n = (p, s')" "p \<noteq> 0"
    and "ok s' k" "alloc s' k = (q, s'')" "q \<noteq> 0" "i < n" "j < k"
  shows "p + i \<noteq> q + j"
proof -
  have "p + i \<in> used s'" using alloc_fresh [OF assms(1-4,8)] by simp
  moreover have "inv s'" using inv_alloc [OF assms(1-3)] .
  ultimately show ?thesis
    using alloc_disjoint_used [of s' k q s'' j "p + i"] assms by metis
qed

end

section \<open>The bump allocator meets the contract\<close>

text \<open>
  The heap lies inside the address space with room for the word behind it, and the bump pointer
  stays between its ends. A request is in range when neither the rounding nor the address of the
  next block wraps around.
\<close>

definition heap_inv :: "kheap \<Rightarrow> bool" where
  "heap_inv h \<longleftrightarrow> HeapMem h \<noteq> 0 \<and> unat (HeapMem h) + unat (HeapMemSize h) < 2 ^ 32 \<and>
     HeapMem h \<le> CurrentPointer h \<and>
     unat (CurrentPointer h) \<le> unat (HeapMem h) + unat (HeapMemSize h)"

definition request_ok :: "kheap \<Rightarrow> u32 \<Rightarrow> bool" where
  "request_ok h n \<longleftrightarrow> unat (CurrentPointer h) + unat n + 7 \<le> 2 ^ 32"

definition heap_used :: "kheap \<Rightarrow> u32 set" where
  "heap_used h = {a. HeapMem h \<le> a \<and> a < CurrentPointer h}"

lemma unat_round_up:
  assumes "unat n + 3 < 2 ^ 32"
  shows "unat (round_up n) = (unat n + 3) div 4 * 4"
proof -
  have n3: "unat (n + 3) = unat n + 3"
    using assms by (simp add: unat_word_ariths)
  have "n + 4 - 1 = n + 3" by simp
  then have d: "unat ((n + 4 - 1) div 4) = (unat n + 3) div 4"
    by (simp only: unat_div n3) simp
  have lt: "(unat n + 3) div 4 * 4 < 2 ^ 32" using assms by linarith
  have "unat ((n + 4 - 1) div 4 * 4) = unat ((n + 4 - 1) div 4) * unat (4::u32)"
    by (rule unat_mult_no_wrap) (use lt in \<open>simp only: d; simp\<close>)
  then show ?thesis unfolding round_up_def MEM_MIN_SIZE_def d by simp
qed

lemma round_up_bounds:
  assumes "unat n + 3 < 2 ^ 32"
  shows "unat n \<le> unat (round_up n)" "unat (round_up n) \<le> unat n + 3"
  using unat_round_up [OF assms] by linarith+

lemma kmalloc_next:
  assumes "request_ok h n"
  shows "unat (CurrentPointer h + round_up n) = unat (CurrentPointer h) + unat (round_up n)"
proof -
  have "unat (round_up n) \<le> unat n + 3"
    using assms by (intro round_up_bounds) (simp add: request_ok_def)
  then show ?thesis using assms by (simp add: request_ok_def unat_word_ariths)
qed

lemma kmalloc_result:
  assumes "heap_inv h" and "request_ok h n" and "kmalloc magic m h n = (p, m', h')"
  shows "m' = store32 m (CurrentPointer h + round_up n) magic"
    and "p = 0 \<longleftrightarrow> unat (HeapMem h) + unat (HeapMemSize h) < unat (CurrentPointer h) + unat (round_up n)"
    and "p = 0 \<Longrightarrow> h' = h"
    and "p \<noteq> 0 \<Longrightarrow> p = CurrentPointer h \<and> h' = h\<lparr>CurrentPointer := p + round_up n\<rparr>"
proof -
  have end_: "unat (HeapMemSize h + HeapMem h) = unat (HeapMem h) + unat (HeapMemSize h)"
    using assms(1) by (subst unat_add_no_wrap) (simp_all add: heap_inv_def)
  have nz: "CurrentPointer h \<noteq> 0" using assms(1) by (auto simp: heap_inv_def)
  show "m' = store32 m (CurrentPointer h + round_up n) magic"
    using assms(3) by (auto simp: kmalloc_def Let_def split: if_splits)
  show "p = 0 \<longleftrightarrow> unat (HeapMem h) + unat (HeapMemSize h) < unat (CurrentPointer h) + unat (round_up n)"
    using assms(3) nz kmalloc_next [OF assms(2)] end_
    by (auto simp: kmalloc_def Let_def word_le_nat_alt split: if_splits)
  show "p = 0 \<Longrightarrow> h' = h"
    using assms(3) nz by (auto simp: kmalloc_def Let_def split: if_splits)
  show "p \<noteq> 0 \<Longrightarrow> p = CurrentPointer h \<and> h' = h\<lparr>CurrentPointer := p + round_up n\<rparr>"
    using assms(3) by (auto simp: kmalloc_def Let_def split: if_splits)
qed

lemma kmalloc_heap_inv:
  assumes "heap_inv h" and "request_ok h n" and "kmalloc magic m h n = (p, m', h')"
  shows "heap_inv h'"
proof (cases "p = 0")
  case False
  then show ?thesis
    using kmalloc_result [OF assms] kmalloc_next [OF assms(2)] assms(1)
    by (auto simp: heap_inv_def word_le_nat_alt)
qed (use kmalloc_result [OF assms] assms(1) in simp)

text \<open>The block lies between the old and the new bump pointer.\<close>

lemma kmalloc_block:
  assumes "heap_inv h" and "request_ok h n" and "kmalloc magic m h n = (p, m', h')"
    and "p \<noteq> 0" and "i < n"
  shows "unat (p + i) = unat (CurrentPointer h) + unat i"
    and "unat (p + i) < unat (CurrentPointer h')"
    and "HeapMem h \<le> p + i"
proof -
  have p: "p = CurrentPointer h" "h' = h\<lparr>CurrentPointer := p + round_up n\<rparr>"
    using kmalloc_result [OF assms(1-3)] assms(4) by auto
  have "unat n \<le> unat (round_up n)"
    using assms(2) by (intro round_up_bounds) (simp add: request_ok_def)
  then have lt: "unat i < unat (round_up n)" using assms(5) by (simp add: word_less_nat_alt)
  show u: "unat (p + i) = unat (CurrentPointer h) + unat i"
    using assms(2,5) p(1) by (simp add: request_ok_def unat_word_ariths word_less_nat_alt)
  show "unat (p + i) < unat (CurrentPointer h')"
    using u lt p kmalloc_next [OF assms(2)] by simp
  show "HeapMem h \<le> p + i"
    using u assms(1) by (simp add: heap_inv_def word_le_nat_alt)
qed

lemma kmalloc_content:
  assumes "heap_inv h" and "request_ok h n" and "kmalloc magic m h n = (p, m', h')"
    and "a < CurrentPointer h"
  shows "m' a = m a"
proof -
  have "unat (round_up n) \<le> unat n + 3"
    using assms(2) by (intro round_up_bounds) (simp add: request_ok_def)
  then have "fits (CurrentPointer h + round_up n) 4"
    using assms(2) kmalloc_next [OF assms(2)] by (simp add: fits_def request_ok_def)
  then have "\<not> in_region a (CurrentPointer h + round_up n) 4"
    using fits_unat [of "CurrentPointer h + round_up n" 4 "a - (CurrentPointer h + round_up n)"]
      kmalloc_next [OF assms(2)] assms(4) by (auto simp: in_region_def word_less_nat_alt)
  then show ?thesis using kmalloc_result(1) [OF assms(1-3)] store32_other by simp
qed

definition heap_alloc :: "u32 \<Rightarrow> bytes \<times> kheap \<Rightarrow> u32 \<Rightarrow> u32 \<times> bytes \<times> kheap" where
  "heap_alloc magic s n = (case s of (m, h) \<Rightarrow> kmalloc magic m h n)"

interpretation heap: allocator "heap_alloc magic" "\<lambda>(m, h). heap_used h" fst
  "\<lambda>(m, h). heap_inv h" "\<lambda>(m, h). request_ok h"
proof (unfold_locales, goal_cases)
  case (1 s n p s')
  then show ?case by (cases s; cases s') (auto simp: heap_alloc_def intro: kmalloc_heap_inv)
next
  case (2 s n p s' i)
  then obtain m h m' h' where s: "s = (m, h)" "s' = (m', h')" by (metis surj_pair)
  with 2 have A: "heap_inv h" "request_ok h n" "kmalloc magic m h n = (p, m', h')"
    by (auto simp: heap_alloc_def)
  have "HeapMem h' = HeapMem h" using kmalloc_result [OF A] 2 by auto
  then show ?case using kmalloc_block [OF A 2(4,5)] s
    by (auto simp: heap_used_def word_less_nat_alt)
next
  case (3 s n p s')
  then obtain m h m' h' where s: "s = (m, h)" "s' = (m', h')" by (metis surj_pair)
  with 3 have A: "heap_inv h" "request_ok h n" "kmalloc magic m h n = (p, m', h')"
    by (auto simp: heap_alloc_def)
  show ?case using kmalloc_result [OF A] kmalloc_next [OF A(2)] s
    by (cases "p = 0") (auto simp: heap_used_def word_less_nat_alt)
next
  case (4 s n p s' a)
  then show ?case by (cases s; cases s') (auto simp: heap_alloc_def heap_used_def kmalloc_content)
qed

section \<open>Growing a block\<close>

lemma krealloc_scan_found:
  assumes "\<forall>k<L. load32 m (p + of_nat k) \<noteq> magic" and "load32 m (p + of_nat L) = magic"
    and "L \<le> unat count"
  shows "krealloc_scan magic m count old p = old + of_nat L"
  using assms
proof (induction L arbitrary: count old p)
  case 0
  then show ?case by (simp add: krealloc_scan.simps [of magic m count])
next
  case (Suc L)
  have nz: "count \<noteq> 0" using Suc.prems(3) by auto
  have "krealloc_scan magic m (count - 1) (old + 1) (p + 1) = old + 1 + of_nat L"
    using Suc.prems nz by (intro Suc.IH) (simp_all add: All_less_Suc2 unat_minus_one add.assoc)
  then show ?case
    using Suc.prems(1) nz by (simp add: krealloc_scan.simps [of magic m count] All_less_Suc2 add.assoc)
qed

text \<open>
  The block at \<open>ptr\<close> is the last one handed out: it has \<open>L\<close> bytes, the magic word follows it, and
  the magic word does not occur inside it.
\<close>

definition last_block :: "u32 \<Rightarrow> bytes \<Rightarrow> kheap \<Rightarrow> u32 \<Rightarrow> nat \<Rightarrow> bool" where
  "last_block magic m h ptr L \<longleftrightarrow> 0 < L \<and> unat ptr + L = unat (CurrentPointer h) \<and>
     (\<forall>k<L. load32 m (ptr + of_nat k) \<noteq> magic) \<and> load32 m (ptr + of_nat L) = magic"

lemma krealloc_old_size_last:
  assumes "last_block magic m h ptr L" and "L \<le> unat n"
  shows "unat (krealloc_old_size magic m ptr n) = L - 1"
proof -
  have L: "0 < L" "L < 2 ^ 32"
    using assms unat_lt2p [of n] by (simp_all add: last_block_def)
  have "krealloc_scan magic m n 0 ptr = of_nat L"
    using assms krealloc_scan_found [of L m ptr magic n 0] by (simp add: last_block_def)
  moreover have "unat (of_nat L - 1 :: u32) = L - 1"
    using L by (simp add: unat_minus_one unat_of_nat take_bit_nat_eq_self word_of_nat_eq_0_iff
        dvd_imp_le nat_dvd_not_less)
  ultimately show ?thesis
    using assms(2) L by (simp add: krealloc_old_size_def Let_def word_less_nat_alt)
qed

lemma krealloc_grow:
  assumes inv: "heap_inv h" and ok: "request_ok h n" and blk: "last_block magic m h ptr L"
    and grow: "L < unat n" and fits: "unat (CurrentPointer h) + unat (round_up n)
      \<le> unat (HeapMem h) + unat (HeapMemSize h)"
    and i: "i < n"
  shows "krealloc magic m h ptr n =
      (CurrentPointer h, fst (snd (krealloc magic m h ptr n)),
       h\<lparr>CurrentPointer := CurrentPointer h + round_up n\<rparr>)"
    and "fst (snd (krealloc magic m h ptr n)) (CurrentPointer h + i) =
      (if unat i < L - 1 then m (ptr + i)
       else store32 m (CurrentPointer h + round_up n) magic (CurrentPointer h + i))"
proof -
  obtain p m' h' where k: "kmalloc magic m h n = (p, m', h')" by (metis surj_pair)
  note res = kmalloc_result [OF inv ok k]
  have p: "p = CurrentPointer h" "h' = h\<lparr>CurrentPointer := p + round_up n\<rparr>"
    using res fits by (metis not_le)+
  have n0: "n > 0" using grow by (auto simp: word_gt_0)
  define old where "old = krealloc_old_size magic m ptr n"
  have old: "unat old = L - 1" using krealloc_old_size_last [OF blk] grow by (simp add: old_def)
  have eq: "krealloc magic m h ptr n = (p, memcpy m' p ptr old, h')"
    using n0 k by (simp add: krealloc_def Let_def kfree_def old_def)
  then show "krealloc magic m h ptr n =
      (CurrentPointer h, fst (snd (krealloc magic m h ptr n)),
       h\<lparr>CurrentPointer := CurrentPointer h + round_up n\<rparr>)"
    using p by simp
  have "unat (CurrentPointer h) + L \<le> 2 ^ 32" using ok grow by (simp add: request_ok_def)
  then have dis: "disjoint p old ptr old"
    unfolding disjoint_sym [of p] using blk old p(1)
    by (intro disjointI) (auto simp: fits_def last_block_def)
  have below: "m' (ptr + i) = m (ptr + i)" if "unat i < L - 1"
  proof (rule kmalloc_content [OF inv ok k])
    have L: "unat ptr + L = unat (CurrentPointer h)" using blk by (simp add: last_block_def)
    then have "unat (ptr + i) = unat ptr + unat i"
      using that unat_lt2p [of "CurrentPointer h"] by (intro unat_add_no_wrap) simp
    then show "ptr + i < CurrentPointer h"
      using that L by (simp add: word_less_nat_alt)
  qed
  show "fst (snd (krealloc magic m h ptr n)) (CurrentPointer h + i) =
      (if unat i < L - 1 then m (ptr + i)
       else store32 m (CurrentPointer h + round_up n) magic (CurrentPointer h + i))"
    using eq p(1) below res(1) old by (simp add: memcpy_apply [OF dis [unfolded p(1)]] word_less_nat_alt)
qed

text \<open>
  Whatever \<open>krealloc\<close> takes for the old size, it hands out a fresh block and leaves the rest of
  memory alone, but for the magic word behind the block.
\<close>

lemma krealloc_frame:
  assumes inv: "heap_inv h" and ok: "request_ok h n" and n: "n > 0"
    and room: "unat (CurrentPointer h) + unat (round_up n) \<le> unat (HeapMem h) + unat (HeapMemSize h)"
    and k: "krealloc magic m h ptr n = (p, m', h')"
  shows "p = CurrentPointer h" and "h' = h\<lparr>CurrentPointer := CurrentPointer h + round_up n\<rparr>"
    and "\<not> in_region a (CurrentPointer h) (round_up n + 4) \<Longrightarrow> m' a = m a"
proof -
  obtain q m1 h1 where q: "kmalloc magic m h n = (q, m1, h1)" by (metis surj_pair)
  note r = kmalloc_result [OF inv ok q]
  have q0: "q \<noteq> 0" using r(2) room by simp
  define old where "old = krealloc_old_size magic m ptr n"
  have eq: "p = q" "m' = memcpy m1 q ptr old" "h' = h1"
    using k n q by (auto simp: krealloc_def Let_def kfree_def old_def)
  show p: "p = CurrentPointer h" and "h' = h\<lparr>CurrentPointer := CurrentPointer h + round_up n\<rparr>"
    using r(4) [OF q0] eq by auto
  have b: "unat (round_up n) \<ge> unat n" "unat (round_up n) \<le> unat n + 3"
    using ok round_up_bounds [of n] by (simp_all add: request_ok_def)
  have "0 < unat (CurrentPointer h)"
    using inv by (auto simp: heap_inv_def unat_gt_0)
  then have "unat (round_up n) + 4 < 2 ^ 32" using ok b unfolding request_ok_def by linarith
  then have "unat (round_up n + 4) = unat (round_up n) + 4" by (simp add: unat_word_ariths)
  moreover have "old \<le> n" by (auto simp: old_def krealloc_old_size_def Let_def not_less)
  ultimately have le: "old \<le> round_up n" "unat (round_up n + 4) = unat (round_up n) + 4"
    using b by (simp_all add: word_le_nat_alt)
  assume a: "\<not> in_region a (CurrentPointer h) (round_up n + 4)"
  then have "\<not> in_region a q old"
    using le p eq by (auto simp: in_region_def word_less_nat_alt word_le_nat_alt)
  moreover have "\<not> in_region a (CurrentPointer h + round_up n) 4"
  proof
    assume b: "in_region a (CurrentPointer h + round_up n) 4"
    define c where "c = a - (CurrentPointer h + round_up n)"
    have "a - CurrentPointer h = round_up n + c" "unat c < 4"
      using b by (simp_all add: c_def in_region_def word_less_nat_alt)
    then have "unat (a - CurrentPointer h) < unat (round_up n) + 4"
      using unat_plus_if' [of "round_up n" c] le(2) unat_lt2p [of "round_up n + 4"]
      by (auto split: if_splits)
    then show False using a le(2) by (simp add: in_region_def word_less_nat_alt)
  qed
  ultimately show "m' a = m a" using eq r(1) by (simp add: memcpy_frame store32_other)
qed

end
