(* ===== verification/Coresys_Ramfs.thy ===== *)
theory Coresys_Ramfs
  imports Coresys_Vfs Libk_Heap "HOL-Library.Monad_Syntax"
begin

text \<open>
  The RAM file system of ramfs.c, the loader of the initial RAM disk and the device directory of
  devfs.c. A node is the structure \<open>ramfs_file_header_t\<close> in the node store; its block comes from
  the kernel heap and the contents of files are bytes of the flat memory. An operation is a
  function on the whole state; \<open>None\<close> is a dereference of an address that holds no node, or a
  loop that does not end.
\<close>

section \<open>State\<close>

record ramfs_file_header = fs_node +
  filePtr :: u32
  next_node :: u32
  children :: u32

text \<open>
  \<open>root_obj\<close> and \<open>heap_magic\<close> are link-time constants: the address of the static object \<open>root\<close>
  and the word that \<open>kmalloc\<close> writes behind a block.
\<close>

record ramfs = "ramfs_file_header vfs" +
  root_obj :: u32
  initrd_base :: u32
  nullNodeFile :: u32
  mem :: bytes
  heap :: kheap
  heap_magic :: u32

definition RFS_FILE_ALREADY_EXISTS :: int where "RFS_FILE_ALREADY_EXISTS = 1"

definition sizeof_ramfs_file_header :: u32 where "sizeof_ramfs_file_header = 200"
definition sizeof_dirent :: u32 where "sizeof_dirent = 136"

definition zero_node :: ramfs_file_header where
  "zero_node = \<lparr>name = (\<lambda>_. 0), ino = 0, owner_id = 0, owner_group = 0, perm = 0, ftype = 0,
     flength = 0, impl_def = 0, open_cb = None, close_cb = None, read_cb = None, write_cb = None,
     readdir_cb = None, find_cb = None, node_ptr = 0, filePtr = 0, next_node = 0, children = 0\<rparr>"

definition deref :: "ramfs \<Rightarrow> u32 \<Rightarrow> ramfs_file_header option" where
  "deref st p = nodes st p"

definition assign :: "u32 \<Rightarrow> (ramfs_file_header \<Rightarrow> ramfs_file_header) \<Rightarrow> ramfs \<Rightarrow> ramfs option" where
  "assign p f st =
     do { n \<leftarrow> deref st p; Some (st\<lparr>nodes := (nodes st)(p \<mapsto> f n)\<rparr>) }"

definition free_mem :: "u32 \<Rightarrow> ramfs \<Rightarrow> ramfs" where
  "free_mem p st = st\<lparr>heap := kfree (heap st) p\<rparr>"

section \<open>Allocation and chains\<close>

definition ramfs_allocNode :: "ramfs \<Rightarrow> u32 \<times> ramfs" where
  "ramfs_allocNode st =
     (case kmalloc (heap_magic st) (mem st) (heap st) sizeof_ramfs_file_header of
        (newNode, m, h) \<Rightarrow>
          if newNode = 0 then (0, st\<lparr>mem := m, heap := h\<rparr>)
          else (newNode, st\<lparr>mem := memset m newNode 0 sizeof_ramfs_file_header, heap := h,
                            nodes := (nodes st)(newNode \<mapsto> zero_node)\<rparr>))"

definition ramfs_deallocNode :: "u32 \<Rightarrow> ramfs \<Rightarrow> ramfs option" where
  "ramfs_deallocNode node st =
     do { n \<leftarrow> deref st node; Some (free_mem node (free_mem (filePtr n) st)) }"

partial_function (option) ramfs_getLastChild_loop :: "ramfs \<Rightarrow> u32 \<Rightarrow> u32 option" where
  "ramfs_getLastChild_loop st currChild =
     do { n \<leftarrow> deref st currChild;
          if next_node n \<noteq> 0 then ramfs_getLastChild_loop st (next_node n) else Some currChild }"

declare ramfs_getLastChild_loop.simps [code]

definition ramfs_getLastChild :: "ramfs \<Rightarrow> u32 \<Rightarrow> u32 option" where
  "ramfs_getLastChild st parent =
     do { n \<leftarrow> deref st parent; ramfs_getLastChild_loop st (children n) }"

section \<open>Callbacks\<close>

partial_function (option) ramfs_find_loop :: "ramfs \<Rightarrow> u32 \<Rightarrow> bytes \<Rightarrow> u32 option" where
  "ramfs_find_loop st ramfsNode nm =
     do { n \<leftarrow> deref st ramfsNode;
          if strncmp (name_view n) nm MAX_FNAME = 0 then Some ramfsNode
          else if next_node n \<noteq> 0 then ramfs_find_loop st (next_node n) nm
          else Some 0 }"

declare ramfs_find_loop.simps [code]

definition ramfs_find :: "ramfs \<Rightarrow> u32 \<Rightarrow> bytes \<Rightarrow> u32 option" where
  "ramfs_find st dir_node nm =
     (if dir_node = 0 then Some 0
      else do { n \<leftarrow> deref st dir_node;
             if readdir_cb n = None \<or> ftype n \<noteq> FTYPE_DIRECTORY then Some 0
             else if children n \<noteq> 0 then ramfs_find_loop st (children n) nm
             else Some 0 })"

text \<open>The functions behind the \<open>find\<close> fields: \<open>ramfs_find\<close> is the only one of that type.\<close>

definition find_dispatch :: "fs_callback \<Rightarrow> ramfs \<Rightarrow> u32 \<Rightarrow> bytes \<Rightarrow> u32 option" where
  "find_dispatch f st d nm = (if f = Cb_ramfs_find then ramfs_find st d nm else None)"

definition ramfs_read :: "ramfs \<Rightarrow> u32 \<Rightarrow> u32 \<Rightarrow> u32 \<Rightarrow> u32 \<Rightarrow> (int \<times> ramfs) option" where
  "ramfs_read st node buf nbyte off =
     (if node = 0 \<or> buf = 0 then Some (-1, st)
      else do { n \<leftarrow> deref st node;
             if read_cb n = None \<or> ftype n \<noteq> FTYPE_REGULAR \<or> off > flength n then Some (-1, st)
             else
               let toReadLen = (if nbyte + off > flength n then flength n - off else nbyte)
               in Some (sint toReadLen, st\<lparr>mem := memcpy (mem st) buf (filePtr n + off) toReadLen\<rparr>) })"

definition ramfs_write :: "ramfs \<Rightarrow> u32 \<Rightarrow> u32 \<Rightarrow> u32 \<Rightarrow> u32 \<Rightarrow> (int \<times> ramfs) option" where
  "ramfs_write st node buf nbyte off =
     (if node = 0 \<or> buf = 0 then Some (VFS_T_NOK, st)
      else do { n \<leftarrow> deref st node;
             if read_cb n = None \<or> ftype n \<noteq> FTYPE_REGULAR \<or> off > flength n then Some (VFS_T_NOK, st)
             else if nbyte + off > flength n then
               let newLen = nbyte + off
               in (case krealloc (heap_magic st) (mem st) (heap st) (filePtr n) newLen of
                     (newFilePtr, m, h) \<Rightarrow>
                       let st1 = st\<lparr>mem := m, heap := h\<rparr>
                       in if newFilePtr = 0 then Some (VFS_T_NOK, free_mem newFilePtr st1)
                          else do {
                            st2 \<leftarrow> assign node (\<lambda>n. n\<lparr>filePtr := newFilePtr, flength := newLen\<rparr>) st1;
                            Some (sint nbyte, st2\<lparr>mem := memcpy (mem st2) (newFilePtr + off) buf nbyte\<rparr>) })
             else Some (sint nbyte, st\<lparr>mem := memcpy (mem st) (filePtr n + off) buf nbyte\<rparr>) })"

definition ramfs_open :: "ramfs \<Rightarrow> u32 \<Rightarrow> (int \<times> ramfs) option" where
  "ramfs_open st node = Some (VFS_T_OK, st)"

definition ramfs_close :: "ramfs \<Rightarrow> u32 \<Rightarrow> (int \<times> ramfs) option" where
  "ramfs_close st node = Some (VFS_T_OK, st)"

function ramfs_readdir_loop :: "ramfs \<Rightarrow> u32 \<Rightarrow> u32 \<Rightarrow> u32 \<Rightarrow> (u32 \<times> u32) option" where
  "ramfs_readdir_loop st index i ramfsNode =
     (if i \<noteq> index \<and> ramfsNode \<noteq> 0
      then (case deref st ramfsNode of
              None \<Rightarrow> None | Some n \<Rightarrow> ramfs_readdir_loop st index (i + 1) (next_node n))
      else Some (i, ramfsNode))"
  by pat_completeness auto
termination
proof (relation "measure (\<lambda>(_, index, i, _). unat (index - i))", goal_cases)
  case (2 st index i node n)
  then have "index - i \<noteq> 0" by auto
  then show ?case by (simp add: diff_diff_eq [symmetric] unat_minus_one unat_gt_0)
qed simp

declare ramfs_readdir_loop.simps [simp del]

definition ramfs_readdir :: "ramfs \<Rightarrow> u32 \<Rightarrow> u32 \<Rightarrow> dirent \<Rightarrow> (int \<times> dirent option \<times> dirent) option" where
  "ramfs_readdir st dir_node index entry =
     (if dir_node = 0 then Some (VFS_T_NOK, None, entry)
      else do { d \<leftarrow> deref st dir_node;
             if readdir_cb d = None \<or> ftype d \<noteq> FTYPE_DIRECTORY then Some (VFS_T_NOK, None, entry)
             else if children d = 0 then Some (VFS_T_OK, None, entry)
             else do {
               (i, node) \<leftarrow> ramfs_readdir_loop st index 0 (children d);
               if i \<noteq> index \<or> node = 0 then Some (VFS_T_OK, None, entry)
               else do {
                 n \<leftarrow> deref st node;
                 let nm = strncpy_to (d_name entry) (name_view n) MAX_FNAME;
                 let e = \<lparr>d_ino = ino n, d_reclen = ucast (sizeof_dirent - MAX_FNAME + strlen nm),
                          d_type = ucast (ftype n), d_name = nm\<rparr>;
                 Some (VFS_T_OK, Some e, e) } } })"

section \<open>Creating and deleting nodes\<close>

text \<open>
  \<open>stk\<close> is what the stack holds where the callees have their local arrays.
\<close>

definition ramfs_get_node :: "bytes \<Rightarrow> ramfs \<Rightarrow> bytes \<Rightarrow> u32 option" where
  "ramfs_get_node stk st path = fs_get_node find_dispatch stk st 0 path"

definition ramfs_init :: "ramfs \<Rightarrow> (int \<times> ramfs) option" where
  "ramfs_init st0 =
     do { let root = root_obj st0;
          let (new_ino, st1) = fs_new_ino_id st0;
          st2 \<leftarrow> assign root (\<lambda>n. n\<lparr>open_cb := None, close_cb := None, read_cb := None,
            write_cb := None, find_cb := Some Cb_ramfs_find, readdir_cb := Some Cb_ramfs_readdir,
            flength := 0, ino := new_ino, name := (name n)(0 := 0), owner_group := 0, owner_id := 0,
            perm := 0, ftype := FTYPE_DIRECTORY, node_ptr := 0, impl_def := 0\<rparr>) st1;
          let (currentDirSimlink, st3) = ramfs_allocNode st2;
          if currentDirSimlink = 0 then Some (VFS_T_NOK, st3)
          else do {
            st4 \<leftarrow> fs_get_simlink (cstr ''.'') root currentDirSimlink st3;
            let (parentSimlink, st5) = ramfs_allocNode st4;
            if parentSimlink = 0 then Some (VFS_T_NOK, free_mem currentDirSimlink st5)
            else do {
              st6 \<leftarrow> fs_get_simlink (cstr ''..'') root parentSimlink st5;
              r \<leftarrow> deref st6 root;
              st9 \<leftarrow> (if children r = 0 then do {
                st7 \<leftarrow> assign root (\<lambda>n. n\<lparr>children := currentDirSimlink\<rparr>) st6;
                st8 \<leftarrow> assign currentDirSimlink (\<lambda>n. n\<lparr>next_node := parentSimlink\<rparr>) st7;
                assign parentSimlink (\<lambda>n. n\<lparr>next_node := 0\<rparr>) st8 } else Some st6);
              Some (VFS_T_OK, fs_set_root root st9) } } }"

partial_function (option) ramfs_inter_deleteNode :: "ramfs \<Rightarrow> u32 \<Rightarrow> (int \<times> ramfs) option" where
  "ramfs_inter_deleteNode st node =
     do { n \<leftarrow> deref st node;
          (r1, st1) \<leftarrow> (if children n \<noteq> 0 then ramfs_inter_deleteNode st (children n) else Some (VFS_T_OK, st));
          if r1 \<noteq> VFS_T_OK then Some (VFS_T_NOK, st1)
          else do {
            n1 \<leftarrow> deref st1 node;
            (r2, st2) \<leftarrow> (if next_node n1 \<noteq> 0 then ramfs_inter_deleteNode st1 (next_node n1)
                          else Some (VFS_T_OK, st1));
            if r2 \<noteq> VFS_T_OK then Some (VFS_T_NOK, st2)
            else do { st3 \<leftarrow> ramfs_deallocNode node st2; Some (VFS_T_OK, st3) } } }"

declare ramfs_inter_deleteNode.simps [code]

text \<open>The search for the predecessor of \<open>node\<close>; the result is the pair \<open>(prev, curr)\<close>.\<close>

partial_function (option) ramfs_unlink_loop :: "ramfs \<Rightarrow> u32 \<Rightarrow> u32 \<Rightarrow> u32 \<Rightarrow> (u32 \<times> u32) option" where
  "ramfs_unlink_loop st node prev cur =
     (if cur = 0 \<or> cur = node then Some (prev, cur)
      else do { n \<leftarrow> deref st cur; ramfs_unlink_loop st node cur (next_node n) })"

declare ramfs_unlink_loop.simps [code]

definition ramfs_deleteNode :: "bytes \<Rightarrow> bytes \<Rightarrow> ramfs \<Rightarrow> bytes \<Rightarrow> (int \<times> ramfs) option" where
  "ramfs_deleteNode stk parentPath0 st nodeAbsPath =
     do { (r, parentPath) \<leftarrow> fs_getParentPath stk stk nodeAbsPath parentPath0;
          if r \<noteq> 0 then Some (VFS_T_NOK, st)
          else do {
            parentDir \<leftarrow> ramfs_get_node stk st parentPath;
            if parentDir = 0 then Some (VFS_T_NOK, st)
            else do {
              node \<leftarrow> ramfs_get_node stk st nodeAbsPath;
              if node = 0 then Some (VFS_T_NOK, st)
              else do {
                d \<leftarrow> deref st parentDir;
                if children d = node then do {
                  n \<leftarrow> deref st node;
                  st1 \<leftarrow> assign parentDir (\<lambda>d. d\<lparr>children := next_node n\<rparr>) st;
                  ramfs_inter_deleteNode st1 node }
                else do {
                  c \<leftarrow> deref st (children d);
                  (prev, curr) \<leftarrow> ramfs_unlink_loop st node (children d) (next_node c);
                  if curr = 0 then Some (VFS_T_NOK, st)
                  else do {
                    n \<leftarrow> deref st node;
                    st1 \<leftarrow> assign prev (\<lambda>p. p\<lparr>next_node := next_node n\<rparr>) st;
                    ramfs_inter_deleteNode st1 node } } } } } }"

text \<open>\<open>*err\<close> is part of the result.\<close>

definition ramfs_mkDir :: "bytes \<Rightarrow> ramfs \<Rightarrow> bytes \<Rightarrow> bytes \<Rightarrow> (u32 \<times> int \<times> ramfs) option" where
  "ramfs_mkDir stk st dirName parentDirAbsPath =
     (if fst (fs_checkFileName dirName) \<noteq> 0 then Some (0, VFS_T_NOK, st)
      else do {
        parentDir \<leftarrow> ramfs_get_node stk st parentDirAbsPath;
        if parentDir = 0 then Some (0, VFS_T_NOK, st)
        else do {
          existing \<leftarrow> fs_find find_dispatch st parentDir dirName;
          if existing \<noteq> 0 then Some (0, RFS_FILE_ALREADY_EXISTS, st)
          else do {
            let (newDir, st1) = ramfs_allocNode st;
            if newDir = 0 then Some (0, VFS_T_NOK, st1)
            else do {
              let st2 = st1\<lparr>mem := memset (mem st1) newDir 0 sizeof_ramfs_file_header,
                            nodes := (nodes st1)(newDir \<mapsto> zero_node)\<rparr>;
              let (new_ino, st3) = fs_new_ino_id st2;
              st4 \<leftarrow> assign newDir (\<lambda>n. n\<lparr>open_cb := None, close_cb := None, read_cb := None,
                write_cb := None, find_cb := Some Cb_ramfs_find, readdir_cb := Some Cb_ramfs_readdir,
                flength := 0, ino := new_ino, name := strncpy_to (name n) dirName MAX_FNAME,
                owner_group := 0, owner_id := 0, perm := 0, ftype := FTYPE_DIRECTORY, node_ptr := 0,
                impl_def := 0\<rparr>) st3;
              let (currentDirSimlink, st5) = ramfs_allocNode st4;
              if currentDirSimlink = 0 then Some (0, VFS_T_NOK, free_mem currentDirSimlink (free_mem newDir st5))
              else do {
                st6 \<leftarrow> fs_get_simlink (cstr ''.'') newDir currentDirSimlink st5;
                let (parentDirSimlink, st7) = ramfs_allocNode st6;
                if parentDirSimlink = 0 then Some (0, VFS_T_NOK, free_mem currentDirSimlink st7)
                else do {
                  st8 \<leftarrow> fs_get_simlink (cstr ''..'') parentDir parentDirSimlink st7;
                  d \<leftarrow> deref st8 newDir;
                  st11 \<leftarrow> (if children d = 0 then do {
                    st9 \<leftarrow> assign newDir (\<lambda>n. n\<lparr>children := currentDirSimlink\<rparr>) st8;
                    st10 \<leftarrow> assign currentDirSimlink (\<lambda>n. n\<lparr>next_node := parentDirSimlink\<rparr>) st9;
                    assign parentDirSimlink (\<lambda>n. n\<lparr>next_node := 0\<rparr>) st10 } else Some st8);
                  lst \<leftarrow> ramfs_getLastChild st11 parentDir;
                  st12 \<leftarrow> assign lst (\<lambda>n. n\<lparr>next_node := newDir\<rparr>) st11;
                  Some (newDir, VFS_T_OK, st12) } } } } } })"

definition ramfs_newRegFile :: "bytes \<Rightarrow> ramfs \<Rightarrow> bytes \<Rightarrow> bytes \<Rightarrow> (u32 \<times> int \<times> ramfs) option" where
  "ramfs_newRegFile stk st fileName parentDirAbsPath =
     (if fst (fs_checkFileName fileName) \<noteq> 0 then Some (0, VFS_T_NOK, st)
      else do {
        parentDir \<leftarrow> ramfs_get_node stk st parentDirAbsPath;
        if parentDir = 0 then Some (0, VFS_T_NOK, st)
        else do {
          existing \<leftarrow> fs_find find_dispatch st parentDir fileName;
          if existing \<noteq> 0 then Some (0, RFS_FILE_ALREADY_EXISTS, st)
          else do {
            let (newRegFile, st1) = ramfs_allocNode st;
            if newRegFile = 0 then Some (0, VFS_T_NOK, st1)
            else do {
              let st2 = st1\<lparr>mem := memset (mem st1) newRegFile 0 sizeof_ramfs_file_header,
                            nodes := (nodes st1)(newRegFile \<mapsto> zero_node)\<rparr>;
              let (new_ino, st3) = fs_new_ino_id st2;
              st4 \<leftarrow> assign newRegFile (\<lambda>n. n\<lparr>open_cb := Some Cb_ramfs_open,
                close_cb := Some Cb_ramfs_close, read_cb := Some Cb_ramfs_read,
                write_cb := Some Cb_ramfs_write, find_cb := None, readdir_cb := None, flength := 0,
                ino := new_ino, name := strncpy_to (name n) fileName MAX_FNAME, owner_group := 0,
                owner_id := 0, perm := 0, ftype := FTYPE_REGULAR, node_ptr := 0, impl_def := 0\<rparr>) st3;
              lst \<leftarrow> ramfs_getLastChild st4 parentDir;
              st5 \<leftarrow> assign lst (\<lambda>n. n\<lparr>next_node := newRegFile\<rparr>) st4;
              Some (newRegFile, VFS_T_OK, st5) } } } })"

text \<open>\<open>copyChild\<close> is the structure behind the pointer argument.\<close>

definition ramfs_addChild :: "ramfs \<Rightarrow> u32 \<Rightarrow> fs_node \<Rightarrow> (int \<times> ramfs) option" where
  "ramfs_addChild st dirNode copyChild =
     (if dirNode = 0 then Some (VFS_T_NOK, st)
      else do {
        d \<leftarrow> deref st dirNode;
        if ftype d \<noteq> FTYPE_DIRECTORY then Some (VFS_T_NOK, st)
        else do {
          let (child, st1) = ramfs_allocNode st;
          if child = 0 then Some (VFS_T_NOK, st1)
          else do {
            st2 \<leftarrow> assign child (\<lambda>n. fs_node.extend copyChild
              (ramfs_file_header.fields (filePtr n) 0 0)) st1;
            parent \<leftarrow> deref st2 dirNode;
            st3 \<leftarrow> (if children parent = 0 then assign dirNode (\<lambda>n. n\<lparr>children := child\<rparr>) st2
                    else do {
                      lst \<leftarrow> ramfs_getLastChild st2 dirNode;
                      assign lst (\<lambda>n. n\<lparr>next_node := child\<rparr>) st2 });
            Some (VFS_T_OK, st3) } } })"

section \<open>The initial RAM disk\<close>

definition INITRD_FTYPE_REGULAR :: u32 where "INITRD_FTYPE_REGULAR = 1"
definition INITRD_FTYPE_DIR :: u32 where "INITRD_FTYPE_DIR = 2"
definition INITRD_MAGIC :: u32 where "INITRD_MAGIC = 0x696E7264"

text \<open>\<open>UINT32_INITRD_ORDER\<close> on the little endian IA32.\<close>

definition UINT32_INITRD_ORDER :: "u32 \<Rightarrow> u32" where "UINT32_INITRD_ORDER x = x"

record initrd_file_header =
  i_name :: bytes
  i_id :: u32
  i_type :: u32
  i_dir_nfiles :: u32
  i_start_file_off :: u32
  i_length :: u32
  i_checksum :: u32

definition sizeof_initrd_header :: u32 where "sizeof_initrd_header = 12"
definition sizeof_initrd_file_header :: u32 where "sizeof_initrd_file_header = 152"

definition initrd_file_at :: "bytes \<Rightarrow> u32 \<Rightarrow> initrd_file_header" where
  "initrd_file_at m p = \<lparr>i_name = view m p, i_id = load32 m (p + 128), i_type = load32 m (p + 132),
     i_dir_nfiles = load32 m (p + 136), i_start_file_off = load32 m (p + 140),
     i_length = load32 m (p + 144), i_checksum = load32 m (p + 148)\<rparr>"

definition LoadInitrdRegFile :: "ramfs \<Rightarrow> u32 \<Rightarrow> (u32 \<times> ramfs) option" where
  "LoadInitrdRegFile st initrdFile =
     do { let (node, st1) = ramfs_allocNode st;
          if node = 0 then Some (0, st1)
          else do {
            let len = UINT32_INITRD_ORDER (i_length (initrd_file_at (mem st1) initrdFile));
            let (new_ino, st2) = fs_new_ino_id st1;
            st3 \<leftarrow> assign node (\<lambda>n. n\<lparr>open_cb := Some Cb_ramfs_open, close_cb := Some Cb_ramfs_close,
              read_cb := Some Cb_ramfs_read, write_cb := Some Cb_ramfs_write, find_cb := None,
              readdir_cb := None, flength := len, ino := new_ino,
              name := strncpy_to (name n) (i_name (initrd_file_at (mem st2) initrdFile)) MAX_FNAME,
              owner_group := 0, owner_id := 0, perm := 0, ftype := FTYPE_REGULAR, node_ptr := 0,
              impl_def := 0, children := 0, next_node := 0\<rparr>) st2;
            let (p, m, h) = kmalloc (heap_magic st3) (mem st3) (heap st3) len;
            st4 \<leftarrow> assign node (\<lambda>n. n\<lparr>filePtr := p\<rparr>) (st3\<lparr>mem := m, heap := h\<rparr>);
            if p \<noteq> 0
            then Some (node, st4\<lparr>mem := memcpy (mem st4) p (initrd_base st4 +
                   UINT32_INITRD_ORDER (i_start_file_off (initrd_file_at (mem st4) initrdFile))) len\<rparr>)
            else Some (0, free_mem node st4) } }"

definition LoadInitrdDirFile :: "ramfs \<Rightarrow> u32 \<Rightarrow> (u32 \<times> ramfs) option" where
  "LoadInitrdDirFile st initrdFile =
     do { let (node, st1) = ramfs_allocNode st;
          if node = 0 then Some (0, st1)
          else do {
            let (new_ino, st2) = fs_new_ino_id st1;
            st3 \<leftarrow> assign node (\<lambda>n. n\<lparr>open_cb := None, close_cb := None, read_cb := None,
              write_cb := None, find_cb := Some Cb_ramfs_find, readdir_cb := Some Cb_ramfs_readdir,
              flength := 0, ino := new_ino,
              name := strncpy_to (name n) (i_name (initrd_file_at (mem st2) initrdFile)) MAX_FNAME,
              owner_group := 0, owner_id := 0, perm := 0, ftype := FTYPE_DIRECTORY, node_ptr := 0,
              impl_def := 0, children := 0, next_node := 0, filePtr := 0\<rparr>) st2;
            Some (node, st3) } }"

text \<open>
  \<open>LoadInitrdFiles\<close> up to its loop: \<open>Inl\<close> is the early return, \<open>Inr\<close> the address of the link to
  the parent directory.
\<close>

definition LoadInitrdFiles_links :: "ramfs \<Rightarrow> u32 \<Rightarrow> u32 \<Rightarrow> ((int + u32) \<times> ramfs) option" where
  "LoadInitrdFiles_links st parent currentDir =
     do { d \<leftarrow> deref st currentDir;
          if children d = 0 then do {
            let (currentDirSimlink, st1) = ramfs_allocNode st;
            if currentDirSimlink = 0 then Some (Inl VFS_T_NOK, st1)
            else do {
              st2 \<leftarrow> fs_get_simlink (cstr ''.'') currentDir currentDirSimlink st1;
              let (parentDirSimlink, st3) = ramfs_allocNode st2;
              if parentDirSimlink = 0 then Some (Inl VFS_T_NOK, free_mem currentDir st3)
              else do {
                st4 \<leftarrow> fs_get_simlink (cstr ''..'') parent parentDirSimlink st3;
                st5 \<leftarrow> assign currentDir (\<lambda>n. n\<lparr>children := currentDirSimlink\<rparr>) st4;
                st6 \<leftarrow> assign currentDirSimlink (\<lambda>n. n\<lparr>next_node := parentDirSimlink\<rparr>) st5;
                st7 \<leftarrow> assign parentDirSimlink (\<lambda>n. n\<lparr>next_node := 0\<rparr>) st6;
                Some (Inr parentDirSimlink, st7) } } }
          else do {
            c \<leftarrow> deref st (children d);
            Some (Inr (next_node c), st) } }"

definition LoadInitrd_append :: "ramfs \<Rightarrow> u32 \<Rightarrow> u32 \<Rightarrow> u32 \<Rightarrow> ramfs option" where
  "LoadInitrd_append st parentDirSimlink prev cur =
     do { l \<leftarrow> deref st parentDirSimlink;
          if next_node l = 0 then assign parentDirSimlink (\<lambda>n. n\<lparr>next_node := cur\<rparr>) st
          else assign prev (\<lambda>n. n\<lparr>next_node := cur\<rparr>) st }"

partial_function (option) LoadInitrdFiles_loop ::
  "ramfs \<Rightarrow> u32 \<Rightarrow> u32 \<Rightarrow> u32 \<Rightarrow> u32 \<Rightarrow> u32 \<Rightarrow> (int \<times> ramfs) option" where
  "LoadInitrdFiles_loop st currentDir initrdcurrentDir parentDirSimlink prev i =
     (if i < UINT32_INITRD_ORDER (i_dir_nfiles (initrd_file_at (mem st) initrdcurrentDir)) then
        do { let child = initrdcurrentDir + sizeof_initrd_file_header + i * sizeof_initrd_file_header;
             let ty = i_type (initrd_file_at (mem st) child);
             if ty = UINT32_INITRD_ORDER INITRD_FTYPE_REGULAR then do {
               (curr, st1) \<leftarrow> LoadInitrdRegFile st child;
               st2 \<leftarrow> LoadInitrd_append st1 parentDirSimlink prev curr;
               LoadInitrdFiles_loop st2 currentDir initrdcurrentDir parentDirSimlink curr (i + 1) }
             else if ty = UINT32_INITRD_ORDER INITRD_FTYPE_DIR then do {
               (curr, st1) \<leftarrow> LoadInitrdDirFile st child;
               (l, st2) \<leftarrow> LoadInitrdFiles_links st1 currentDir curr;
               (r, st3) \<leftarrow> (case l of Inl e \<Rightarrow> Some (e, st2)
                             | Inr lnk \<Rightarrow> LoadInitrdFiles_loop st2 curr child lnk 0 0);
               if r \<noteq> VFS_T_OK then Some (VFS_T_NOK, st3)
               else do {
                 st4 \<leftarrow> LoadInitrd_append st3 parentDirSimlink prev curr;
                 LoadInitrdFiles_loop st4 currentDir initrdcurrentDir parentDirSimlink curr (i + 1) } }
             else LoadInitrdFiles_loop st currentDir initrdcurrentDir parentDirSimlink prev (i + 1) }
      else Some (VFS_T_OK, st))"

declare LoadInitrdFiles_loop.simps [code]

definition LoadInitrdFiles :: "ramfs \<Rightarrow> u32 \<Rightarrow> u32 \<Rightarrow> u32 \<Rightarrow> (int \<times> ramfs) option" where
  "LoadInitrdFiles st parent currentDir initrdcurrentDir =
     do { (l, st1) \<leftarrow> LoadInitrdFiles_links st parent currentDir;
          case l of Inl e \<Rightarrow> Some (e, st1)
          | Inr lnk \<Rightarrow> LoadInitrdFiles_loop st1 currentDir initrdcurrentDir lnk 0 0 }"

definition ramfs_loadInitrd :: "bytes \<Rightarrow> ramfs \<Rightarrow> u32 \<Rightarrow> bytes \<Rightarrow> (int \<times> ramfs) option" where
  "ramfs_loadInitrd stk st initrdPtr path =
     (if UINT32_INITRD_ORDER (load32 (mem st) initrdPtr) \<noteq> INITRD_MAGIC then Some (VFS_T_NOK, st)
      else do {
        let st1 = st\<lparr>initrd_base := initrdPtr\<rparr>;
        curr_dir \<leftarrow> ramfs_get_node stk st1 path;
        if curr_dir = 0 then Some (VFS_T_NOK, st1)
        else do {
          d \<leftarrow> deref st1 curr_dir;
          if ftype d \<noteq> FTYPE_DIRECTORY then Some (VFS_T_NOK, st1)
          else do {
            c \<leftarrow> deref st1 (children d);
            parent_dir \<leftarrow> deref st1 (next_node c);
            LoadInitrdFiles st1 (node_ptr parent_dir) curr_dir (initrdPtr + sizeof_initrd_header) } } })"

section \<open>The device directory\<close>

definition null_read :: "ramfs \<Rightarrow> u32 \<Rightarrow> u32 \<Rightarrow> u32 \<Rightarrow> u32 \<Rightarrow> (int \<times> ramfs) option" where
  "null_read st node buf nbyte off = Some (0, st)"

definition null_write :: "ramfs \<Rightarrow> u32 \<Rightarrow> u32 \<Rightarrow> u32 \<Rightarrow> u32 \<Rightarrow> (int \<times> ramfs) option" where
  "null_write st node buf nbyte off = Some (sint nbyte, st)"

definition devfs_init :: "bytes \<Rightarrow> ramfs \<Rightarrow> (int \<times> ramfs) option" where
  "devfs_init stk st =
     do { (devDir, err, st1) \<leftarrow> ramfs_mkDir stk st (cstr ''dev'') (cstr ''/'');
          if devDir = 0 then Some (-1, st1)
          else do {
            let (nullNodeAddr, m, h) =
              kmalloc (heap_magic st1) (mem st1) (heap st1) sizeof_ramfs_file_header;
            let st2 = st1\<lparr>mem := m, heap := h\<rparr>;
            if nullNodeAddr = 0 then Some (-1, st2)
            else do {
              let (new_ino, st3) = fs_new_ino_id st2;
              let n = \<lparr>name = strncpy_to (view m nullNodeAddr) (cstr ''null'') SIZE_MAX, ino = new_ino,
                owner_id = 0, owner_group = 0, perm = 0, ftype = FTYPE_REGULAR, flength = 0,
                impl_def = 0, open_cb = None, close_cb = None, read_cb = Some Cb_null_read,
                write_cb = Some Cb_null_write, readdir_cb = None, find_cb = None, node_ptr = 0,
                filePtr = 0, next_node = 0, children = 0\<rparr>;
              let st4 = st3\<lparr>nullNodeFile := nullNodeAddr, nodes := (nodes st3)(nullNodeAddr \<mapsto> n)\<rparr>;
              lst \<leftarrow> ramfs_getLastChild st4 devDir;
              st5 \<leftarrow> assign lst (\<lambda>n. n\<lparr>next_node := nullNodeAddr\<rparr>) st4;
              Some (0, st5) } } }"

text \<open>The functions behind the \<open>read\<close> and \<open>write\<close> fields of the files of this theory.\<close>

definition io_dispatch :: "fs_callback \<Rightarrow> ramfs \<Rightarrow> u32 \<Rightarrow> u32 \<Rightarrow> u32 \<Rightarrow> u32 \<Rightarrow> (int \<times> ramfs) option" where
  "io_dispatch f =
     (case f of Cb_ramfs_read \<Rightarrow> ramfs_read | Cb_ramfs_write \<Rightarrow> ramfs_write
      | Cb_null_read \<Rightarrow> null_read | Cb_null_write \<Rightarrow> null_write | _ \<Rightarrow> (\<lambda>_ _ _ _ _. None))"

end
