(* ===== verification/Coresys_Ramfs_Inv.thy ===== *)
theory Coresys_Ramfs_Inv
  imports Coresys_Ramfs
begin

text \<open>
  The well-formedness invariant of the RAM file system and what the operations do under it. A
  directory's entries are a NULL-terminated chain; the ghost argument \<open>K\<close> lists the entries of
  every directory, and the live nodes are the root and the entries. The invariant says that the
  chains are disjoint, that a symbolic link leads to a live directory, and that live nodes lie in
  blocks the allocator has handed out.
\<close>

section \<open>Chains\<close>

fun chain :: "(u32 \<Rightarrow> ramfs_file_header option) \<Rightarrow> u32 \<Rightarrow> u32 list \<Rightarrow> bool" where
  "chain ns p [] \<longleftrightarrow> p = 0"
| "chain ns p (a # as) \<longleftrightarrow> p = a \<and> a \<noteq> 0 \<and>
     (case ns a of None \<Rightarrow> False | Some n \<Rightarrow> chain ns (next_node n) as)"

lemma chain_unique: "chain ns p xs \<Longrightarrow> chain ns p ys \<Longrightarrow> xs = ys"
proof (induction xs arbitrary: p ys)
  case Nil
  then show ?case by (cases ys) auto
next
  case (Cons a xs)
  then show ?case by (cases ys) (auto split: option.splits)
qed

lemma chain_mem: "chain ns p xs \<Longrightarrow> a \<in> set xs \<Longrightarrow> a \<noteq> 0 \<and> (\<exists>n. ns a = Some n)"
  by (induction xs arbitrary: p) (auto split: option.splits)

lemma chain_suffix: "chain ns p (xs @ a # ys) \<Longrightarrow> chain ns a (a # ys)"
proof (induction xs arbitrary: p)
  case (Cons b xs)
  then obtain n where "ns b = Some n" "chain ns (next_node n) (xs @ a # ys)"
    by (cases "ns b") auto
  then show ?case by (intro Cons.IH)
qed simp

lemma chain_distinct: "chain ns p xs \<Longrightarrow> distinct xs"
proof (induction xs arbitrary: p)
  case (Cons a xs)
  have "a \<notin> set xs"
  proof
    assume "a \<in> set xs"
    then obtain us vs where xs: "xs = us @ a # vs" by (meson split_list)
    then have "chain ns a (a # vs)" using Cons.prems chain_suffix [of ns p "a # us" a vs] by simp
    moreover have "chain ns a (a # xs)" using Cons.prems by simp
    ultimately have "vs = xs" using chain_unique by blast
    then show False using xs by simp
  qed
  with Cons show ?case by (auto split: option.splits)
qed simp

lemma chain_cong:
  assumes "\<And>x. x \<in> set xs \<Longrightarrow> map_option next_node (ns x) = map_option next_node (ns' x)"
  shows "chain ns p xs = chain ns' p xs"
  using assms
proof (induction xs arbitrary: p)
  case (Cons a xs)
  then have "map_option next_node (ns a) = map_option next_node (ns' a)" by simp
  then show ?case using Cons by (cases "ns a"; cases "ns' a") auto
qed simp

lemma chain_snoc:
  assumes "chain ns p xs" and "xs \<noteq> []" and "q \<noteq> 0" and "q \<notin> set xs"
    and "ns (last xs) = Some l" and "ns q = Some n" and "next_node n = 0"
  shows "chain (ns(last xs \<mapsto> l\<lparr>next_node := q\<rparr>)) p (xs @ [q])"
  using assms
proof (induction xs arbitrary: p)
  case (Cons a xs)
  show ?case
  proof (cases "xs = []")
    case True
    with Cons.prems show ?thesis by (auto split: option.splits)
  next
    case False
    then have "a \<noteq> last xs" using chain_distinct [OF Cons.prems(1)] by auto
    with Cons False show ?thesis by (auto split: option.splits)
  qed
qed simp

section \<open>Loops along a chain\<close>

definition name_match :: "ramfs \<Rightarrow> bytes \<Rightarrow> u32 \<Rightarrow> bool" where
  "name_match st v a \<longleftrightarrow>
     (case nodes st a of None \<Rightarrow> False | Some n \<Rightarrow> strncmp (name_view n) v MAX_FNAME = 0)"

definition pick :: "ramfs \<Rightarrow> bytes \<Rightarrow> u32 list \<Rightarrow> u32" where
  "pick st v xs = (case List.find (name_match st v) xs of None \<Rightarrow> 0 | Some a \<Rightarrow> a)"

lemma ramfs_getLastChild_loop_last:
  "chain (nodes st) p xs \<Longrightarrow> xs \<noteq> [] \<Longrightarrow> ramfs_getLastChild_loop st p = Some (last xs)"
proof (induction xs arbitrary: p)
  case (Cons a xs)
  then show ?case
    by (cases xs) (auto simp: ramfs_getLastChild_loop.simps [of st a] deref_def split: option.splits)
qed simp

lemma ramfs_find_loop_pick:
  "chain (nodes st) p xs \<Longrightarrow> xs \<noteq> [] \<Longrightarrow> ramfs_find_loop st p v = Some (pick st v xs)"
proof (induction xs arbitrary: p)
  case (Cons a xs)
  then obtain n where n: "nodes st a = Some n" "p = a" "chain (nodes st) (next_node n) xs"
    by (auto split: option.splits)
  show ?case
  proof (cases "xs = []")
    case True
    with n show ?thesis
      by (simp add: ramfs_find_loop.simps [of st a] deref_def pick_def name_match_def)
  next
    case False
    then have "next_node n \<noteq> 0" using n(3) by (cases xs) auto
    with n False Cons.IH [OF n(3)] show ?thesis
      by (simp add: ramfs_find_loop.simps [of st a] deref_def pick_def name_match_def)
  qed
qed simp

lemma ramfs_readdir_loop_nth:
  assumes "chain (nodes st) p xs" and "length xs < 2 ^ 32"
  shows "ramfs_readdir_loop st index i p =
    (if unat (index - i) < length xs then Some (index, xs ! unat (index - i))
     else Some (i + of_nat (length xs), 0))"
  using assms
proof (induction xs arbitrary: i p)
  case Nil
  then show ?case by (simp add: ramfs_readdir_loop.simps [of st index i])
next
  case (Cons a xs)
  then obtain n where n: "nodes st a = Some n" "p = a" "a \<noteq> 0" "chain (nodes st) (next_node n) xs"
    by (auto split: option.splits)
  show ?case
  proof (cases "i = index")
    case True
    then show ?thesis using n by (simp add: ramfs_readdir_loop.simps [of st index])
  next
    case False
    then have u: "unat (index - i) = Suc (unat (index - (i + 1)))"
      by (simp add: diff_diff_eq [symmetric] unat_minus_one unat_gt_0)
    show ?thesis
      using n False Cons.IH [OF n(4), of "i + 1"] Cons.prems(2) u
      by (simp add: ramfs_readdir_loop.simps [of st index i] deref_def add.assoc)
  qed
qed

section \<open>The invariant\<close>

definition is_dir :: "ramfs \<Rightarrow> u32 \<Rightarrow> bool" where
  "is_dir st p \<longleftrightarrow> (case nodes st p of None \<Rightarrow> False | Some n \<Rightarrow> ftype n = FTYPE_DIRECTORY)"

definition live :: "ramfs \<Rightarrow> (u32 \<Rightarrow> u32 list) \<Rightarrow> u32 set" where
  "live st K = insert (root_obj st) (\<Union>p. set (K p))"

definition heap_ok :: "ramfs \<Rightarrow> bool" where
  "heap_ok st \<longleftrightarrow> heap_inv (heap st) \<and>
     unat (HeapMem (heap st)) + unat (HeapMemSize (heap st)) + 207 \<le> 2 ^ 32 \<and> root_obj st \<noteq> 0 \<and>
     (root_obj st < HeapMem (heap st) \<or>
      unat (HeapMem (heap st)) + unat (HeapMemSize (heap st)) \<le> unat (root_obj st))"

definition placed :: "ramfs \<Rightarrow> u32 \<Rightarrow> bool" where
  "placed st p \<longleftrightarrow> p = root_obj st \<or>
     HeapMem (heap st) \<le> p \<and> unat p + 200 \<le> unat (CurrentPointer (heap st))"

definition entry_ok :: "ramfs \<Rightarrow> (u32 \<Rightarrow> u32 list) \<Rightarrow> u32 \<Rightarrow> ramfs_file_header \<Rightarrow> bool" where
  "entry_ok st K p n \<longleftrightarrow>
     (if ftype n = FTYPE_DIRECTORY
      then find_cb n = Some Cb_ramfs_find \<and> readdir_cb n = Some Cb_ramfs_readdir \<and> K p \<noteq> [] \<and>
           chain (nodes st) (children n) (K p)
      else find_cb n = None \<and> K p = [] \<and> children n = 0 \<and>
           (ftype n = FTYPE_SYMLINK \<longrightarrow> is_dir st (node_ptr n) \<and> node_ptr n \<in> live st K))"

definition live_ok :: "ramfs \<Rightarrow> (u32 \<Rightarrow> u32 list) \<Rightarrow> u32 \<Rightarrow> bool" where
  "live_ok st K p \<longleftrightarrow> placed st p \<and>
     (case nodes st p of None \<Rightarrow> False | Some n \<Rightarrow> entry_ok st K p n)"

text \<open>
  Blocks are handed out in ascending order and never reused, so entries follow their directory
  and each other in memory: the tree has no cycles.
\<close>

definition ordered :: "ramfs \<Rightarrow> (u32 \<Rightarrow> u32 list) \<Rightarrow> bool" where
  "ordered st K \<longleftrightarrow> (\<forall>p. sorted_wrt (<) (K p) \<and>
     (\<forall>x\<in>set (K p). x \<noteq> root_obj st \<and> (p \<noteq> root_obj st \<longrightarrow> p < x)))"

definition tree_inv :: "ramfs \<Rightarrow> (u32 \<Rightarrow> u32 list) \<Rightarrow> bool" where
  "tree_inv st K \<longleftrightarrow> heap_ok st \<and> fs_root st = root_obj st \<and> is_dir st (root_obj st) \<and>
     (\<forall>p\<in>live st K. live_ok st K p) \<and> (\<forall>p. p \<notin> live st K \<longrightarrow> K p = []) \<and>
     (\<forall>p q. p \<noteq> q \<longrightarrow> set (K p) \<inter> set (K q) = {}) \<and> ordered st K"

lemma tree_invD:
  assumes "tree_inv st K"
  shows "heap_ok st" and "fs_root st = root_obj st" and "is_dir st (root_obj st)"
    and "p \<in> live st K \<Longrightarrow> live_ok st K p" and "p \<notin> live st K \<Longrightarrow> K p = []"
    and "p \<noteq> q \<Longrightarrow> set (K p) \<inter> set (K q) = {}"
    and "fs_root st \<in> live st K" and "fs_root st \<noteq> 0" and "ordered st K"
  using assms by (auto simp: tree_inv_def live_def heap_ok_def)

lemma root_live [simp]: "root_obj st \<in> live st K"
  by (simp add: live_def)

lemma liveI: "a \<in> set (K p) \<Longrightarrow> a \<in> live st K"
  by (auto simp: live_def)

lemma placed_nonzero: "heap_ok st \<Longrightarrow> placed st p \<Longrightarrow> p \<noteq> 0"
  by (auto simp: heap_ok_def placed_def heap_inv_def)

lemma live_node:
  assumes "tree_inv st K" and "p \<in> live st K"
  obtains n where "nodes st p = Some n" "entry_ok st K p n" "placed st p" "p \<noteq> 0"
proof -
  have "live_ok st K p" using tree_invD(4) [OF assms] .
  then obtain n where "nodes st p = Some n" "entry_ok st K p n" "placed st p"
    by (cases "nodes st p") (auto simp: live_ok_def)
  then show thesis using that placed_nonzero tree_invD(1) [OF assms(1)] by blast
qed

text \<open>The state may change anywhere but at the live nodes, and the heap may hand out more.\<close>

lemma live_cong: "root_obj st' = root_obj st \<Longrightarrow> live st' K = live st K"
  by (simp add: live_def)

lemma tree_inv_cong:
  assumes inv: "tree_inv st K"
    and nodes: "\<And>p. p \<in> live st K \<Longrightarrow> nodes st' p = nodes st p"
    and same: "root_obj st' = root_obj st" "fs_root st' = fs_root st"
    and heap: "heap_ok st'" "HeapMem (heap st') = HeapMem (heap st)"
      "CurrentPointer (heap st) \<le> CurrentPointer (heap st')"
  shows "tree_inv st' K"
proof -
  note L = live_cong [of st' st K, OF same(1)]
  have dir: "is_dir st' p = is_dir st p" if "p \<in> live st K" for p
    using nodes that by (simp add: is_dir_def)
  have "live_ok st' K p" if p: "p \<in> live st K" for p
  proof -
    obtain n where n: "nodes st p = Some n" "entry_ok st K p n" "placed st p"
      using live_node [OF inv p] by metis
    have "chain (nodes st') q (K p) = chain (nodes st) q (K p)" for q
      by (rule chain_cong) (simp add: nodes liveI)
    then have "entry_ok st' K p n" using n(2) by (auto simp: entry_ok_def L dir)
    moreover have "placed st' p"
      using n(3) heap(2,3) same(1) by (auto simp: placed_def word_le_nat_alt)
    ultimately show ?thesis using nodes [OF p] n(1) by (simp add: live_ok_def)
  qed
  moreover have "is_dir st' (root_obj st')" using tree_invD(3) [OF inv] dir by (simp add: live_def same(1))
  ultimately show ?thesis using inv heap(1) same by (simp add: tree_inv_def L ordered_def)
qed

text \<open>
  Linking a fresh node \<open>x\<close> (with its own entries \<open>ks\<close>, when it is a directory) behind the last
  entry of the directory \<open>d\<close>.
\<close>

lemma tree_inv_link:
  assumes inv: "tree_inv st K" and d: "d \<in> live st K" "is_dir st d"
    and fresh: "insert x (set ks) \<inter> live st K = {}" "x \<notin> set ks"
    and K': "K' = K(d := K d @ [x], x := ks)"
    and ord: "ordered st K'"
    and new: "\<And>p. p \<in> insert x (set ks) \<Longrightarrow> live_ok st K' p" "\<And>p. p \<in> set ks \<Longrightarrow> K' p = []"
    and x: "nodes st x = Some nx" "next_node nx = 0"
    and l: "nodes st (last (K d)) = Some nl"
    and st': "st' = st\<lparr>nodes := (nodes st)(last (K d) \<mapsto> nl\<lparr>next_node := x\<rparr>)\<rparr>"
  shows "tree_inv st' K'"
proof -
  note D = tree_invD [OF inv]
  obtain nd where nd: "nodes st d = Some nd" "entry_ok st K d nd" using live_node [OF inv d(1)] .
  then have kd: "K d \<noteq> []" "chain (nodes st) (children nd) (K d)"
    using d(2) by (auto simp: entry_ok_def is_dir_def)
  then have l_in: "last (K d) \<in> set (K d)" by simp
  then have l_live: "last (K d) \<in> live st K" by (rule liveI)
  have xd: "x \<noteq> d" using fresh d by auto
  have L: "live st' K' = live st K \<union> insert x (set ks)"
  proof -
    have "K x = []" using D(5) fresh(1) by auto
    then have "(\<Union>p. set (K' p)) = (\<Union>p. set (K p)) \<union> insert x (set ks)"
      using xd by (auto simp: K' split: if_splits) (metis empty_iff empty_set)+
    then show ?thesis by (auto simp: live_def st')
  qed
  have x0: "x \<noteq> 0" using new(1) [of x] placed_nonzero [OF D(1)] by (simp add: live_ok_def)
  have dir: "is_dir st' p = is_dir st p" for p
    using l by (simp add: st' is_dir_def)
  have pl: "placed st' p = placed st p" for p by (simp add: placed_def st')
  have other: "chain (nodes st') q xs = chain (nodes st) q xs" if "last (K d) \<notin> set xs" for q xs
    using that by (intro chain_cong) (auto simp: st')
  have old: "live_ok st' K' p" if p: "p \<in> live st K" for p
  proof -
    obtain n where n: "nodes st p = Some n" "entry_ok st K p n" "placed st p"
      using live_node [OF inv p] by metis
    define n' where "n' = (if p = last (K d) then nl\<lparr>next_node := x\<rparr> else n)"
    have n': "nodes st' p = Some n'" "ftype n' = ftype n" "find_cb n' = find_cb n" "readdir_cb n' = readdir_cb n"
      "children n' = children n" "node_ptr n' = node_ptr n"
      using n(1) l by (auto simp: st' n'_def)
    have px: "p \<noteq> x" using p fresh by auto
    have "entry_ok st' K' p n'"
    proof (cases "p = d")
      case True
      have "chain (nodes st') (children nd) (K d @ [x])"
        unfolding st' using chain_snoc [OF kd(2,1) x0 _ l x] fresh liveI by fastforce
      then show ?thesis using n n' nd d(2) True xd by (auto simp: entry_ok_def K' is_dir_def)
    next
      case False
      then have "last (K d) \<notin> set (K p)" using D(6) [of d p] l_in by auto
      then show ?thesis using n(2) n' other False px by (auto simp: entry_ok_def L [unfolded K'] K' dir)
    qed
    then show ?thesis using n(3) n'(1) by (simp add: live_ok_def pl)
  qed
  have young: "live_ok st' K' p" if p: "p \<in> insert x (set ks)" for p
  proof -
    have "last (K d) \<notin> set (K' p)"
    proof (cases "p = x")
      case True
      then show ?thesis using fresh l_live by (auto simp: K')
    next
      case False
      then show ?thesis using p new(2) [of p] by simp
    qed
    moreover have "nodes st' p = nodes st p" using p fresh l_live by (auto simp: st')
    moreover have "live st' K' = live st K'" by (simp add: live_def st')
    ultimately show ?thesis
      using new(1) [OF p] other by (auto simp: live_ok_def entry_ok_def pl dir split: option.splits)
  qed
  have "K' p = []" if "p \<notin> live st' K'" for p
    using that [unfolded L] D(5) [of p] d(1) by (auto simp: K')
  moreover have "set (K' p) \<inter> set (K' q) = {}" if "p \<noteq> q" for p q
  proof -
    have "set (K r) \<inter> insert x (set ks) = {}" for r using fresh liveI by fastforce
    then show ?thesis using that D(6) [of p q] D(6) [of d q] D(6) [of p d] fresh(2) xd
      by (auto simp: K')
  qed
  moreover have "heap_ok st'" "fs_root st' = root_obj st'" "is_dir st' (root_obj st')"
    using D(1,2,3) dir by (simp_all add: st' heap_ok_def)
  moreover have "ordered st' K'" using ord by (simp add: ordered_def st')
  ultimately show ?thesis using old young by (auto simp: tree_inv_def L)
qed

lemma ordered_snoc:
  assumes "ordered st K" and "x \<noteq> root_obj st" and "d = root_obj st \<or> d < x" and "\<And>y. y \<in> set (K d) \<Longrightarrow> y < x"
    and "sorted_wrt (<) (x # ks)" and "root_obj st \<notin> set ks"
  shows "ordered st (K(d := K d @ [x], x := ks))"
  using assms by (auto simp: ordered_def sorted_wrt_append)

section \<open>Allocating a node\<close>

definition has_room :: "ramfs \<Rightarrow> nat \<Rightarrow> bool" where
  "has_room st k \<longleftrightarrow> unat (CurrentPointer (heap st)) + 200 * k
     \<le> unat (HeapMem (heap st)) + unat (HeapMemSize (heap st))"

lemma round_up_node [simp]: "round_up sizeof_ramfs_file_header = 200"
  by (simp add: round_up_def MEM_MIN_SIZE_def sizeof_ramfs_file_header_def)

lemma heap_ok_request: "heap_ok st \<Longrightarrow> request_ok (heap st) sizeof_ramfs_file_header"
  by (simp add: heap_ok_def request_ok_def heap_inv_def sizeof_ramfs_file_header_def)

lemma ramfs_allocNode_fail:
  assumes "heap_ok st" and "\<not> has_room st 1"
  obtains m where "ramfs_allocNode st = (0, st\<lparr>mem := m\<rparr>)"
proof -
  obtain p m h where k: "kmalloc (heap_magic st) (mem st) (heap st) sizeof_ramfs_file_header = (p, m, h)"
    by (metis surj_pair)
  note r = kmalloc_result [OF _ heap_ok_request k, OF _ assms(1)]
  have "p = 0" "h = heap st" using r assms by (auto simp: heap_ok_def has_room_def)
  then have "ramfs_allocNode st = (0, st\<lparr>mem := m\<rparr>)" using k by (simp add: ramfs_allocNode_def)
  then show thesis by (rule that)
qed

text \<open>The addresses that no allocation writes to: below the free part of the heap and behind its guard word.\<close>

definition untouched :: "ramfs \<Rightarrow> u32 \<Rightarrow> bool" where
  "untouched st a \<longleftrightarrow> a < CurrentPointer (heap st) \<or>
     unat (HeapMem (heap st)) + unat (HeapMemSize (heap st)) + 4 \<le> unat a"

text \<open>What changes when the node \<open>CurrentPointer (heap st)\<close> is allocated with contents \<open>n\<close>.\<close>

definition grown :: "ramfs \<Rightarrow> ramfs_file_header \<Rightarrow> ramfs \<Rightarrow> bool" where
  "grown st n st' \<longleftrightarrow> heap st' = (heap st)\<lparr>CurrentPointer := CurrentPointer (heap st) + 200\<rparr> \<and>
     nodes st' = (nodes st)(CurrentPointer (heap st) \<mapsto> n) \<and>
     root_obj st' = root_obj st \<and> fs_root st' = fs_root st \<and>
     (\<forall>a. untouched st a \<longrightarrow> mem st' a = mem st a)"

lemma untouched_block:
  assumes "untouched st a" and "unat (CurrentPointer (heap st)) + unat k \<le> 2 ^ 32"
    and "unat (CurrentPointer (heap st)) + unat k \<le> unat (HeapMem (heap st)) + unat (HeapMemSize (heap st)) + 4"
  shows "\<not> in_region a (CurrentPointer (heap st)) k"
proof -
  have "fits (CurrentPointer (heap st)) k" using assms(2) by (simp add: fits_def)
  then show ?thesis
    using fits_unat [of "CurrentPointer (heap st)" k "a - CurrentPointer (heap st)"] assms(1,3)
    by (auto simp: in_region_def untouched_def word_less_nat_alt)
qed

lemma memset_node_untouched:
  assumes "heap_ok st" and "has_room st 1" and "untouched st a"
  shows "memset m (CurrentPointer (heap st)) 0 sizeof_ramfs_file_header a = m a"
  using untouched_block [of st a 200] assms
  by (simp add: memset_apply sizeof_ramfs_file_header_def heap_ok_def has_room_def)

lemma store_guard_untouched:
  assumes "heap_inv (heap st)" and "untouched st a" and "unat (CurrentPointer (heap st)) + unat k + 7 \<le> 2 ^ 32"
    and "unat (CurrentPointer (heap st)) + unat k \<le> unat (HeapMem (heap st)) + unat (HeapMemSize (heap st))"
  shows "store32 m (CurrentPointer (heap st) + k) w a = m a"
proof (rule store32_other)
  have u: "unat (CurrentPointer (heap st) + k) = unat (CurrentPointer (heap st)) + unat k"
    using assms(3) by (intro unat_add_no_wrap) simp
  then have "fits (CurrentPointer (heap st) + k) 4" using assms(3) by (simp add: fits_def)
  then show "\<not> in_region a (CurrentPointer (heap st) + k) 4"
    using fits_unat [of "CurrentPointer (heap st) + k" 4 "a - (CurrentPointer (heap st) + k)"] assms(2,4) u
    by (auto simp: in_region_def untouched_def word_less_nat_alt)
qed

lemma ramfs_allocNode_ok:
  assumes "heap_ok st" and "has_room st 1"
  obtains st' where "ramfs_allocNode st = (CurrentPointer (heap st), st')" "grown st zero_node st'"
    "last_ino st' = last_ino st"
proof -
  obtain p m h where k: "kmalloc (heap_magic st) (mem st) (heap st) sizeof_ramfs_file_header = (p, m, h)"
    by (metis surj_pair)
  note r = kmalloc_result [OF _ heap_ok_request k, OF _ assms(1)]
  have "p \<noteq> 0" using r(2) assms by (auto simp: heap_ok_def has_room_def)
  moreover from this have "p = CurrentPointer (heap st)" "h = (heap st)\<lparr>CurrentPointer := p + 200\<rparr>"
    using r(4) assms by (auto simp: heap_ok_def)
  moreover have "m a = mem st a" if "untouched st a" for a
    using r(1) store_guard_untouched [OF _ that, of 200] assms by (simp add: heap_ok_def has_room_def)
  ultimately show thesis using k that by (simp add: ramfs_allocNode_def grown_def memset_node_untouched [OF assms])
qed

lemma next_pointer:
  assumes "heap_ok st" and "has_room st 1"
  shows "unat (CurrentPointer (heap st) + 200) = unat (CurrentPointer (heap st)) + 200"
    and "CurrentPointer (heap st) \<le> CurrentPointer (heap st) + 200"
proof -
  show u: "unat (CurrentPointer (heap st) + 200) = unat (CurrentPointer (heap st)) + 200"
    using assms by (subst unat_add_no_wrap) (simp_all add: heap_ok_def has_room_def heap_inv_def)
  then show "CurrentPointer (heap st) \<le> CurrentPointer (heap st) + 200" by (simp add: word_le_nat_alt)
qed

lemma bump_heap_ok:
  assumes "heap_ok st" and "has_room st 1"
    and "heap st' = (heap st)\<lparr>CurrentPointer := CurrentPointer (heap st) + 200\<rparr>" "root_obj st' = root_obj st"
  shows "heap_ok st'" and "placed st' (CurrentPointer (heap st))"
    and "has_room st (Suc k) \<Longrightarrow> has_room st' k"
  using assms next_pointer [OF assms(1,2)]
  by (auto simp: heap_ok_def heap_inv_def placed_def has_room_def word_le_nat_alt)

lemma fresh_not_placed:
  assumes "heap_ok st" and "has_room st 1"
  shows "\<not> placed st (CurrentPointer (heap st))"
  using assms by (auto simp: heap_ok_def heap_inv_def placed_def has_room_def word_le_nat_alt word_less_nat_alt)

lemma fresh_not_live:
  assumes "tree_inv st K" and "has_room st 1"
  shows "CurrentPointer (heap st) \<notin> live st K"
  using fresh_not_placed tree_invD(1,4) [OF assms(1)] assms(2) by (auto simp: live_ok_def)

lemma fresh_above:
  assumes "tree_inv st K" and "has_room st 1" and "y \<in> live st K"
  shows "y = root_obj st \<or> y < CurrentPointer (heap st)"
  using tree_invD(4) [OF assms(1,3)] by (auto simp: live_ok_def placed_def word_less_nat_alt)

lemma fresh_ordered:
  assumes inv: "tree_inv st K" and room: "has_room st 1" and x: "x = CurrentPointer (heap st)"
    and d: "d \<in> live st K" and ks: "sorted_wrt (<) (x # ks)" "root_obj st \<notin> set ks"
  shows "ordered st (K(d := K d @ [x], x := ks))"
proof (rule ordered_snoc [OF tree_invD(9) [OF inv] _ _ _ ks])
  show "x \<noteq> root_obj st" using fresh_not_live [OF inv room] by (auto simp: x live_def)
  show "d = root_obj st \<or> d < x" using fresh_above [OF inv room d] by (simp add: x)
  show "y < x" if y: "y \<in> set (K d)" for y
    using fresh_above [OF inv room liveI [of y K d]] y tree_invD(9) [OF inv] by (auto simp: ordered_def x)
qed

section \<open>Looking up names\<close>

lemma ramfs_find_loop_cong:
  assumes "is_cstr v s" and "is_cstr w s" and "ramfs_find_loop st p v = Some r"
  shows "ramfs_find_loop st p w = Some r"
proof -
  have "v' = v \<longrightarrow> ramfs_find_loop st p w = Some r" if "ramfs_find_loop st p v' = Some r" for v'
    using that
  proof (rule ramfs_find_loop.raw_induct [rotated])
    fix f st p v' r
    assume "\<And>st p v' r. f st p v' = Some r \<Longrightarrow> v' = v \<longrightarrow> ramfs_find_loop st p w = Some r"
      and "Option.bind (deref st p) (\<lambda>n. if strncmp (name_view n) v' MAX_FNAME = 0 then Some p
        else if next_node n \<noteq> 0 then f st (next_node n) v' else Some 0) = Some r"
    then show "v' = v \<longrightarrow> ramfs_find_loop st p w = Some r"
      using strncmp_cong [OF assms(1,2)]
      by (auto simp: bind_eq_Some_conv ramfs_find_loop.simps [of st p w] split: if_splits)
  qed
  then show ?thesis using assms(3) by simp
qed

lemma option_eqI: "(\<And>r. a = Some r \<Longrightarrow> b = Some r) \<Longrightarrow> (\<And>r. b = Some r \<Longrightarrow> a = Some r) \<Longrightarrow> a = b"
  by (cases a; cases b) auto

interpretation ramfs_vfs: find_provider find_dispatch
proof (rule find_provider.intro)
  fix v s w f st d
  assume vw: "is_cstr v s" "is_cstr w s"
  have "ramfs_find_loop st p v = ramfs_find_loop st p w" for p
    by (rule option_eqI)
       (rule ramfs_find_loop_cong [OF vw], assumption, rule ramfs_find_loop_cong [OF vw(2,1)], assumption)
  then show "find_dispatch f st d v = find_dispatch f st d w"
    unfolding find_dispatch_def ramfs_find_def by (simp only:)
qed

text \<open>The directory that a node stands for.\<close>

definition target :: "ramfs \<Rightarrow> u32 \<Rightarrow> u32" where
  "target st p = (case nodes st p of None \<Rightarrow> p
     | Some n \<Rightarrow> if ftype n = FTYPE_SYMLINK then node_ptr n else p)"

lemma target_live:
  assumes "tree_inv st K" and "p \<in> live st K"
  shows "target st p \<in> live st K" and "vfs_nodeFromSimlink st p = Some (target st p)"
proof -
  obtain n where n: "nodes st p = Some n" "entry_ok st K p n" using live_node [OF assms] .
  show "target st p \<in> live st K"
    using n assms by (auto simp: target_def entry_ok_def ftype_defs split: if_splits)
  show "vfs_nodeFromSimlink st p = Some (target st p)"
  proof (cases "ftype n = FTYPE_SYMLINK")
    case True
    then have "is_dir st (node_ptr n)" using n by (simp add: entry_ok_def ftype_defs)
    then obtain d where "nodes st (node_ptr n) = Some d" "ftype d = FTYPE_DIRECTORY"
      by (auto simp: is_dir_def split: option.splits)
    then show ?thesis using n True
      by (simp add: vfs_nodeFromSimlink.simps [of st p] vfs_nodeFromSimlink.simps [of st "node_ptr n"]
          target_def ftype_defs)
  next
    case False
    then show ?thesis using n by (simp add: vfs_nodeFromSimlink.simps [of st p] target_def)
  qed
qed

lemma fs_find_pick:
  assumes "tree_inv st K" and "p \<in> live st K"
  shows "fs_find find_dispatch st p v = Some (pick st v (K (target st p)))"
proof -
  note t = target_live [OF assms]
  obtain n where n: "nodes st (target st p) = Some n" "entry_ok st K (target st p) n" "target st p \<noteq> 0"
    using live_node [OF assms(1) t(1)] by metis
  show ?thesis
  proof (cases "ftype n = FTYPE_DIRECTORY")
    case True
    then have c: "K (target st p) \<noteq> []" "chain (nodes st) (children n) (K (target st p))"
      using n by (simp_all add: entry_ok_def)
    then have "children n \<noteq> 0" by (cases "K (target st p)") auto
    then show ?thesis
      using n t(2) True ramfs_find_loop_pick [OF c(2,1)]
      by (simp add: fs_find_def find_dispatch_def ramfs_find_def deref_def entry_ok_def)
  next
    case False
    then show ?thesis using n t(2) by (simp add: fs_find_def entry_ok_def pick_def)
  qed
qed

lemma pick_mem: "pick st v xs \<noteq> 0 \<Longrightarrow> pick st v xs \<in> set xs \<and> name_match st v (pick st v xs)"
proof (cases "List.find (name_match st v) xs")
  case (Some a)
  then show ?thesis using Some [unfolded find_Some_iff] by (auto simp: pick_def)
qed (simp add: pick_def)

lemma pick_live: "pick st v (K p) \<noteq> 0 \<Longrightarrow> pick st v (K p) \<in> live st K"
  using pick_mem liveI by blast

text \<open>Path resolution always returns, and leads to NULL or to a live node.\<close>

lemma vfs_walk_live:
  assumes "tree_inv st K"
  shows "p \<in> live st K \<Longrightarrow> \<exists>r. vfs_walk find_dispatch st p ts = Some r \<and> (r = 0 \<or> r \<in> live st K)"
proof (induction ts arbitrary: p)
  case (Cons t ts)
  show ?case
    using Cons.IH pick_live [of st _ K] by (auto simp: fs_find_pick [OF assms Cons.prems])
qed simp

lemma ramfs_get_node_walk:
  assumes "tree_inv st K" and "is_cstr path s" and "length s < 255" and "s \<noteq> []" and "hd s = slash"
  shows "ramfs_get_node stk st path = vfs_walk find_dispatch st (fs_root st) (tokens slash s)"
  unfolding ramfs_get_node_def
  using ramfs_vfs.fs_get_node_walk [of path s st stk 0] assms tree_invD(8) [OF assms(1)] by simp

section \<open>States that extend a state\<close>

text \<open>Every live node keeps its contents but for the link to its successor, and its entries.\<close>

definition extends :: "ramfs \<Rightarrow> (u32 \<Rightarrow> u32 list) \<Rightarrow> ramfs \<Rightarrow> (u32 \<Rightarrow> u32 list) \<Rightarrow> bool" where
  "extends st K st' K' \<longleftrightarrow> fs_root st' = fs_root st \<and>
     (\<forall>q\<in>live st K. q \<in> live st' K' \<and> (\<exists>ys. K' q = K q @ ys) \<and>
        (\<exists>n x. nodes st q = Some n \<and> nodes st' q = Some (n\<lparr>next_node := x\<rparr>)))"

lemma extendsE:
  assumes "extends st K st' K'" and "q \<in> live st K"
  obtains ys n x where "q \<in> live st' K'" "K' q = K q @ ys" "nodes st q = Some n"
    "nodes st' q = Some (n\<lparr>next_node := x\<rparr>)"
  using assms unfolding extends_def by blast

lemma name_view_next [simp]: "name_view (n\<lparr>next_node := x\<rparr>) = name_view n"
  for n :: ramfs_file_header
  by (simp add: name_view_def cong: if_cong)

lemma extends_match: "extends st K st' K' \<Longrightarrow> q \<in> live st K \<Longrightarrow> name_match st' v q = name_match st v q"
  by (erule (1) extendsE) (simp add: name_match_def)

lemma extends_target: "extends st K st' K' \<Longrightarrow> q \<in> live st K \<Longrightarrow> target st' q = target st q"
  by (erule (1) extendsE) (simp add: target_def)

lemma find_append: "List.find P (xs @ ys) = (case List.find P xs of None \<Rightarrow> List.find P ys | Some a \<Rightarrow> Some a)"
  by (induction xs) auto

lemma pick_append: "0 \<notin> set xs \<Longrightarrow> pick st v (xs @ ys) = (if pick st v xs = 0 then pick st v ys else pick st v xs)"
proof (cases "List.find (name_match st v) xs")
  case (Some a)
  moreover assume "0 \<notin> set xs"
  moreover have "a \<in> set xs" using Some [unfolded find_Some_iff] by auto
  ultimately show ?thesis by (auto simp: pick_def find_append)
qed (simp add: pick_def find_append)

lemma pick_cong: "(\<And>a. a \<in> set xs \<Longrightarrow> name_match st' w a = name_match st v a) \<Longrightarrow> pick st' w xs = pick st v xs"
  by (simp add: pick_def cong: find_cong)

lemma kids_nonzero: "tree_inv st K \<Longrightarrow> 0 \<notin> set (K p)"
  using live_node liveI by metis

lemma extends_pick:
  assumes "tree_inv st K" and "extends st K st' K'" and "q \<in> live st K" and "K' q = K q @ ys"
  shows "pick st' v (K' q) = (if pick st v (K q) = 0 then pick st' v ys else pick st v (K q))"
proof -
  have "pick st' v (K q) = pick st v (K q)"
    using extends_match [OF assms(2)] liveI by (intro pick_cong) blast
  then show ?thesis using kids_nonzero [OF assms(1), of q] by (simp add: assms(4) pick_append)
qed

lemma walk_extends:
  assumes inv: "tree_inv st K" "tree_inv st' K'" and ext: "extends st K st' K'"
  shows "p \<in> live st K \<Longrightarrow> vfs_walk find_dispatch st p ts = Some r \<Longrightarrow> r \<noteq> 0 \<Longrightarrow>
    vfs_walk find_dispatch st' p ts = Some r"
proof (induction ts arbitrary: p)
  case (Cons t ts)
  define q where "q = target st p"
  define a where "a = pick st (str_view t) (K q)"
  have q: "q \<in> live st K" "p \<in> live st' K'"
    using target_live(1) [OF inv(1) Cons.prems(1)] extendsE [OF ext Cons.prems(1)] by (auto simp: q_def)
  have a: "a \<noteq> 0" "vfs_walk find_dispatch st a ts = Some r"
    using Cons.prems by (auto simp: fs_find_pick [OF inv(1)] q_def a_def split: if_splits)
  obtain ys where "K' q = K q @ ys" using extendsE [OF ext q(1)] .
  then have "pick st' (str_view t) (K' q) = a"
    using extends_pick [OF inv(1) ext q(1)] a(1) by (simp add: a_def)
  then show ?case
    using Cons.IH [OF _ a(2)] Cons.prems(1,3) a(1) pick_live [of st _ K q] q(2)
    by (simp add: fs_find_pick [OF inv(2)] extends_target [OF ext] q_def [symmetric] a_def)
qed simp

lemma vfs_walk_append:
  "p \<noteq> 0 \<Longrightarrow> vfs_walk call st p (ts @ us) =
     Option.bind (vfs_walk call st p ts) (\<lambda>r. if r = 0 then Some 0 else vfs_walk call st r us)"
proof (induction ts arbitrary: p)
  case (Cons t ts)
  show ?case
    by (cases "fs_find call st p (str_view t)") (simp_all add: Cons.IH)
qed simp

section \<open>Creating a regular file\<close>

lemma ramfs_getLastChild_dir:
  assumes "tree_inv st K" and "d \<in> live st K" and "is_dir st d"
  obtains nl where "ramfs_getLastChild st d = Some (last (K d))" "nodes st (last (K d)) = Some nl"
    "last (K d) \<in> live st K"
proof -
  obtain n where n: "nodes st d = Some n" "entry_ok st K d n" using live_node [OF assms(1,2)] .
  then have c: "chain (nodes st) (children n) (K d)" "K d \<noteq> []"
    using assms(3) by (simp_all add: is_dir_def entry_ok_def)
  then have l: "last (K d) \<in> live st K" by (intro liveI [of _ K d]) simp
  obtain nl where "nodes st (last (K d)) = Some nl" using live_node [OF assms(1) l] .
  then show thesis
    using that l ramfs_getLastChild_loop_last [OF c] n(1) by (simp add: ramfs_getLastChild_def deref_def)
qed

end
