(* ===== verification/Coresys_Ramfs_Ops.thy ===== *)
theory Coresys_Ramfs_Ops
  imports Coresys_Ramfs_Inv
begin

text \<open>
  Contracts of the operations that change the RAM file system, on every branch: creating regular
  files and directories, deleting a node, and the contents of files.
\<close>

section \<open>Linking\<close>

lemma extends_link:
  assumes "tree_inv st K" and "d \<in> live st K" and "is_dir st d" and "x \<notin> live st K"
    and "K' = K(d := K d @ [x], x := ks)"
    and "nodes st (last (K d)) = Some nl"
    and "st' = st\<lparr>nodes := (nodes st)(last (K d) \<mapsto> nl\<lparr>next_node := x\<rparr>)\<rparr>"
    and "tree_inv st' K'"
  shows "extends st K st' K'"
  unfolding extends_def
proof (intro conjI ballI)
  fix q assume q: "q \<in> live st K"
  then have qx: "q \<noteq> x" using assms(4) by auto
  then show "\<exists>ys. K' q = K q @ ys" using assms(5) by simp
  obtain n where n: "nodes st q = Some n" using live_node [OF assms(1) q] .
  show "\<exists>n x. nodes st q = Some n \<and> nodes st' q = Some (n\<lparr>next_node := x\<rparr>)"
  proof (cases "q = last (K d)")
    case True
    then show ?thesis using assms(6,7) by auto
  next
    case False
    then have "nodes st' q = Some (n\<lparr>next_node := next_node n\<rparr>)" using n assms(7) by simp
    with n show ?thesis by blast
  qed
  show "q \<in> live st' K'"
  proof (cases "q = root_obj st")
    case True
    then show ?thesis using assms(7) by (simp add: live_def)
  next
    case False
    then obtain r where r: "q \<in> set (K r)" using q by (auto simp: live_def)
    have "K x = []" using tree_invD(5) [OF assms(1,4)] .
    with r have "r \<noteq> x" by auto
    then have "q \<in> set (K' r)" using r assms(5) by auto
    then show ?thesis by (rule liveI)
  qed
qed (simp add: assms(7))

lemma name_view_cstr:
  assumes "is_cstr (name n) f" and "length f < 128"
  shows "is_cstr (name_view n) f"
proof -
  have "name_view n (of_nat k) = name n (of_nat k)" if "k \<le> length f" for k
    using that assms(2) by (simp add: name_view_def MAX_FNAME_def word_less_nat_alt unat_of_nat take_bit_nat_eq_self)
  then show ?thesis using assms(1) by (simp add: cstr_at_iff_nth)
qed

lemma name_match_named:
  assumes "nodes st p = Some n" and "is_cstr (name n) f" and "length f < 128" and "is_cstr v g"
  shows "name_match st v p \<longleftrightarrow> f = g"
  using strncmp_eq_0_iff [OF name_view_cstr [OF assms(2,3)] assms(4), of MAX_FNAME] assms(1,3)
  by (simp add: name_match_def MAX_FNAME_def)

lemma pick_str_view: "is_cstr v f \<Longrightarrow> pick st v xs = pick st (str_view f) xs"
proof (rule pick_cong)
  fix a assume v: "is_cstr v f"
  have "strncmp x v MAX_FNAME = strncmp x (str_view f) MAX_FNAME" for x
    using strncmp_cong [OF v str_view_cstr_at [OF v]] .
  then show "name_match st v a = name_match st (str_view f) a" by (simp only: name_match_def)
qed

section \<open>Creating a regular file\<close>

definition reg_file_node :: "bytes \<Rightarrow> u32 \<Rightarrow> ramfs_file_header" where
  "reg_file_node fileName new_ino = zero_node\<lparr>open_cb := Some Cb_ramfs_open,
     close_cb := Some Cb_ramfs_close, read_cb := Some Cb_ramfs_read, write_cb := Some Cb_ramfs_write,
     ino := new_ino, name := strncpy_to (\<lambda>_. 0) fileName MAX_FNAME, ftype := FTYPE_REGULAR\<rparr>"

text \<open>What a path argument is, for the operations that resolve the path of a parent directory.\<close>

definition abs_path :: "bytes \<Rightarrow> u8 list \<Rightarrow> bool" where
  "abs_path path s \<longleftrightarrow> is_cstr path s \<and> length s < 255 \<and> s \<noteq> [] \<and> hd s = slash"

definition valid_name :: "bytes \<Rightarrow> u8 list \<Rightarrow> bool" where
  "valid_name v f \<longleftrightarrow> is_cstr v f \<and> length f < 128 \<and> f \<noteq> [0x2E] \<and> f \<noteq> [0x2E, 0x2E] \<and> slash \<notin> set f"

lemma valid_name_check: "valid_name v f \<Longrightarrow> fst (fs_checkFileName v) = 0"
  using fs_checkFileName_iff [of v f] by (simp add: valid_name_def VFS_T_OK_def)

text \<open>The state up to the allocation, common to both operations.\<close>

definition parent_ok :: "ramfs \<Rightarrow> (u32 \<Rightarrow> u32 list) \<Rightarrow> bytes \<Rightarrow> u8 list \<Rightarrow> u32 \<Rightarrow> bool" where
  "parent_ok st K path s d \<longleftrightarrow> tree_inv st K \<and> abs_path path s \<and>
     vfs_walk find_dispatch st (fs_root st) (tokens slash s) = Some d \<and> d \<noteq> 0 \<and> is_dir st d"

lemma parent_okD:
  assumes "parent_ok st K path s d"
  shows "tree_inv st K" and "ramfs_get_node stk st path = Some d" and "d \<in> live st K" and "is_dir st d"
    and "target st d = d" and "fs_find find_dispatch st d v = Some (pick st v (K d))" and "d \<noteq> 0"
proof -
  show inv: "tree_inv st K" and dir: "is_dir st d" and "d \<noteq> 0" using assms by (simp_all add: parent_ok_def)
  show "ramfs_get_node stk st path = Some d"
    using assms ramfs_get_node_walk [OF inv, of path s stk] by (simp add: parent_ok_def abs_path_def)
  show live: "d \<in> live st K"
    using vfs_walk_live [OF inv tree_invD(7) [OF inv], of "tokens slash s"] assms by (simp add: parent_ok_def)
  show t: "target st d = d"
    using dir by (auto simp: target_def is_dir_def ftype_defs split: option.splits)
  show "fs_find find_dispatch st d v = Some (pick st v (K d))"
    using fs_find_pick [OF inv live] t by simp
qed

lemma ramfs_newRegFile_exists:
  assumes "parent_ok st K path s d" and "valid_name fileName f" and "pick st (str_view f) (K d) \<noteq> 0"
  shows "ramfs_newRegFile stk st fileName path = Some (0, RFS_FILE_ALREADY_EXISTS, st)"
  using parent_okD [OF assms(1)] valid_name_check [OF assms(2)] assms(2,3) pick_str_view [of fileName f]
  by (simp add: ramfs_newRegFile_def valid_name_def)

lemma ramfs_newRegFile_no_room:
  assumes "parent_ok st K path s d" and "valid_name fileName f" and "pick st (str_view f) (K d) = 0"
    and "\<not> has_room st 1"
  obtains m where "ramfs_newRegFile stk st fileName path = Some (0, VFS_T_NOK, st\<lparr>mem := m\<rparr>)"
proof -
  obtain m where "ramfs_allocNode st = (0, st\<lparr>mem := m\<rparr>)"
    using ramfs_allocNode_fail assms(4) tree_invD(1) parent_okD(1) [OF assms(1)] by blast
  then have "ramfs_newRegFile stk st fileName path = Some (0, VFS_T_NOK, st\<lparr>mem := m\<rparr>)"
    using parent_okD [OF assms(1)] valid_name_check [OF assms(2)] assms(2,3) pick_str_view [of fileName f]
    by (simp add: ramfs_newRegFile_def valid_name_def)
  then show thesis by (rule that)
qed

lemma walk_new_entry:
  assumes par: "parent_ok st K path s d" and inv': "tree_inv st' K'" and ext: "extends st K st' K'"
    and kd: "K' d = K d @ [x]" and absent: "pick st (str_view f) (K d) = 0"
    and x: "name_match st' (str_view f) x" "x \<noteq> 0"
  shows "vfs_walk find_dispatch st' (fs_root st') (tokens slash s @ [f]) = Some x"
proof -
  note P = parent_okD [OF par]
  have root: "fs_root st' = fs_root st" "fs_root st \<noteq> 0"
    using ext tree_invD(8) [OF P(1)] by (simp_all add: extends_def)
  have "vfs_walk find_dispatch st' (fs_root st) (tokens slash s) = Some d"
    using walk_extends [OF P(1) inv' ext tree_invD(7) [OF P(1)]] par by (simp add: parent_ok_def)
  moreover have "d \<in> live st' K'" using extendsE [OF ext P(3)] by metis
  moreover have "pick st' (str_view f) (K' d) = x"
    using extends_pick [OF P(1) ext P(3) kd] absent x by (simp add: pick_def)
  ultimately show ?thesis
    using P(5,7) root extends_target [OF ext P(3)] x(2)
    by (simp add: vfs_walk_append fs_find_pick [OF inv'])
qed

lemma fresh_inv:
  assumes inv: "tree_inv st K" and room: "has_room st 1"
    and grown: "grown st n st'"
  shows "tree_inv st' K" and "placed st' (CurrentPointer (heap st))"
    and "CurrentPointer (heap st) \<notin> live st' K"
    and "has_room st (Suc k) \<Longrightarrow> has_room st' k"
proof -
  note h = tree_invD(1) [OF inv]
  have same: "heap st' = (heap st)\<lparr>CurrentPointer := CurrentPointer (heap st) + 200\<rparr>"
    "root_obj st' = root_obj st" "fs_root st' = fs_root st"
    using grown by (simp_all add: grown_def)
  show nl: "CurrentPointer (heap st) \<notin> live st' K"
    using fresh_not_live [OF inv room] live_cong [OF same(2)] by simp
  show "placed st' (CurrentPointer (heap st))" and "has_room st (Suc k) \<Longrightarrow> has_room st' k"
    using bump_heap_ok [OF h room same(1,2)] by simp_all
  show "tree_inv st' K"
    using bump_heap_ok(1) [OF h room same(1,2)] next_pointer(2) [OF h room] nl [unfolded live_cong [OF same(2)]]
    using grown by (intro tree_inv_cong [OF inv _ same(2,3)]) (auto simp: grown_def)
qed

text \<open>The heap pointer has advanced by \<open>b\<close> bytes, and the memory has only changed in the free part of the heap.\<close>

definition bumped :: "ramfs \<Rightarrow> ramfs \<Rightarrow> nat \<Rightarrow> bool" where
  "bumped st st' b \<longleftrightarrow> heap st' = (heap st)\<lparr>CurrentPointer := CurrentPointer (heap st) + of_nat b\<rparr> \<and>
     unat (CurrentPointer (heap st) + of_nat b) = unat (CurrentPointer (heap st)) + b \<and>
     (\<forall>a. untouched st a \<longrightarrow> mem st' a = mem st a) \<and> root_obj st' = root_obj st"

lemma bumped_trans:
  assumes "bumped st st' b" and "bumped st' st'' c"
  shows "bumped st st'' (b + c)"
  using assms by (auto simp: bumped_def untouched_def add.assoc [symmetric] word_less_nat_alt)

lemma bumped_room: "bumped st st' b \<Longrightarrow> b \<le> 200 * j \<Longrightarrow> has_room st (j + k) \<Longrightarrow> has_room st' k"
  by (auto simp: bumped_def has_room_def)

lemma bumped_grown:
  assumes "heap_ok st" and "has_room st 1" and "grown st n st'"
  shows "bumped st st' 200"
  using assms(3) next_pointer(1) [OF assms(1,2)] by (simp add: bumped_def grown_def)

lemma bumped_heap_ok:
  assumes "bumped st st' b" and "heap_ok st" and "has_room st k" and "b \<le> 200 * k"
  shows "heap_ok st'"
  using assms by (auto simp: bumped_def heap_ok_def heap_inv_def has_room_def word_le_nat_alt)

text \<open>Room for \<open>b\<close> bytes.\<close>

definition room :: "ramfs \<Rightarrow> nat \<Rightarrow> bool" where
  "room st b \<longleftrightarrow> unat (CurrentPointer (heap st)) + b \<le> unat (HeapMem (heap st)) + unat (HeapMemSize (heap st))"

lemma room_has_room: "room st b \<Longrightarrow> 200 * k \<le> b \<Longrightarrow> has_room st k"
  by (simp add: room_def has_room_def)

lemma heap_ok_bumped:
  assumes "bumped st st' b" and "heap_ok st" and "room st b"
  shows "heap_ok st'"
  using assms by (auto simp: bumped_def heap_ok_def heap_inv_def room_def word_le_nat_alt)

text \<open>A new regular file, linked behind the last entry of a directory.\<close>

lemma link_file:
  assumes inv: "tree_inv st K" and d: "d \<in> live st K" "is_dir st d" and p: "p = CurrentPointer (heap st)"
    and st1: "bumped st st1 b" "200 \<le> b" "room st b" "nodes st1 = (nodes st)(p \<mapsto> n)" "fs_root st1 = fs_root st"
    and n: "ftype n = FTYPE_REGULAR" "find_cb n = None" "children n = 0" "next_node n = 0"
    and l: "nodes st (last (K d)) = Some nl"
    and st': "st' = st1\<lparr>nodes := (nodes st1)(last (K d) \<mapsto> nl\<lparr>next_node := p\<rparr>)\<rparr>"
  shows "tree_inv st' (K(d := K d @ [p]))" and "extends st K st' (K(d := K d @ [p]))" and "bumped st st' b" and "p \<notin> live st K" and "nodes st' p = Some n"
proof -
  define K1 where "K1 = K(d := K d @ [p])"
  have rm: "has_room st 1" by (rule room_has_room [OF st1(3)]) (use st1(2) in simp)
  have ro: "root_obj st1 = root_obj st" and cp: "unat (CurrentPointer (heap st1)) = unat p + b" "HeapMem (heap st1) = HeapMem (heap st)"
    using st1(1) by (simp_all add: bumped_def p)
  note h1 = heap_ok_bumped [OF st1(1) tree_invD(1) [OF inv] st1(3)]
  show pl: "p \<notin> live st K" using fresh_not_live [OF inv rm] by (simp add: p)
  note L = live_cong [OF ro, of K]
  have inv1: "tree_inv st1 K"
    using pl cp h1 by (intro tree_inv_cong [OF inv _ ro st1(5)]) (auto simp: st1(4) p word_le_nat_alt)
  have placed1: "placed st1 p"
    using cp st1(2) tree_invD(1) [OF inv] by (simp add: placed_def p heap_ok_def heap_inv_def)
  have nd: "d \<noteq> p" using d pl by auto
  have dir1: "d \<in> live st1 K" "is_dir st1 d" using d nd by (simp_all add: is_dir_def st1(4) L)
  have last: "last (K d) \<in> live st K" using ramfs_getLastChild_dir [OF inv d] by blast
  then have lp: "last (K d) \<noteq> p" using pl by auto
  then have l1: "nodes st1 (last (K d)) = Some nl" using l by (simp add: st1(4))
  have pl1: "p \<notin> live st1 K" using pl by (simp add: L)
  have K': "K1 = K(d := K d @ [p], p := [])"
    using tree_invD(5) [OF inv1 pl1] nd by (auto simp: K1_def fun_eq_iff)
  have ord: "ordered st1 K1"
    using fresh_ordered [OF inv rm p d(1), of "[]"] by (simp add: ordered_def ro K')
  have ok: "live_ok st1 K1 p"
    using placed1 n by (simp add: live_ok_def st1(4) entry_ok_def ftype_defs K')
  have inv': "tree_inv st' K1"
    using pl1 ok n(4)
    by (intro tree_inv_link [OF inv1 dir1 _ _ K' ord _ _ _ _ l1 st', of n]) (simp_all add: st1(4) K')
  have "extends st1 K st' K1" by (rule extends_link [OF inv1 dir1 pl1 K' l1 st' inv'])
  moreover have "nodes st1 q = nodes st q" if "q \<in> live st K" for q using that pl by (auto simp: st1(4))
  ultimately show "extends st K st' (K(d := K d @ [p]))" using st1(5) by (simp add: extends_def L K1_def)
  show "tree_inv st' (K(d := K d @ [p]))" using inv' by (simp add: K1_def)
  show "bumped st st' b" using st1(1) by (simp add: bumped_def st')
  show "nodes st' p = Some n" using lp by (simp add: st' st1(4))
qed

lemma getLastChild_fresh:
  assumes "tree_inv st K" and "d \<in> live st K" "is_dir st d" and "p \<notin> live st K" and "nodes st1 = (nodes st)(p \<mapsto> n)"
  shows "ramfs_getLastChild st1 d = Some (last (K d))"
proof -
  obtain nd where nd: "nodes st d = Some nd" "entry_ok st K d nd" using live_node [OF assms(1,2)] .
  have "chain (nodes st1) c (K d) = chain (nodes st) c (K d)" for c
    using assms(4) liveI [of _ K d] by (intro chain_cong) (auto simp: assms(5))
  moreover have "d \<noteq> p" using assms(2,4) by auto
  ultimately show ?thesis
    using nd assms(3) ramfs_getLastChild_loop_last [of st1 "children nd" "K d"]
    by (simp add: ramfs_getLastChild_def deref_def assms(5) entry_ok_def is_dir_def)
qed

text \<open>
  The common end of the operations that create a file: \<open>st1\<close> has the new node \<open>n\<close> at the place of the
  old heap pointer, and the node is linked behind the last entry of the directory.
\<close>

lemma link_new_file:
  assumes par: "parent_ok st K path s d" and nm: "valid_name v f"
    and absent: "pick st (str_view f) (K d) = 0" and p: "p = CurrentPointer (heap st)" and K': "K' = K(d := K d @ [p])"
    and st1: "bumped st st1 b" "200 \<le> b" "b \<le> 200 * k" "has_room st k" "nodes st1 = (nodes st)(p \<mapsto> n)" "fs_root st1 = fs_root st"
    and n: "ftype n = FTYPE_REGULAR" "find_cb n = None" "children n = 0" "next_node n = 0" "is_cstr (name n) f"
  obtains l nl st' where "ramfs_getLastChild st1 d = Some l" "nodes st1 l = Some nl" "l \<noteq> p"
    "st' = st1\<lparr>nodes := (nodes st1)(l \<mapsto> nl\<lparr>next_node := p\<rparr>)\<rparr>"
    "tree_inv st' K'" "extends st K st' K'" "p \<noteq> 0" "nodes st' p = Some n"
    "vfs_walk find_dispatch st' (fs_root st') (tokens slash s @ [f]) = Some p" "bumped st st' b"
proof -
  note P = parent_okD [OF par]
  have rm: "room st b" using st1(3,4) by (simp add: room_def has_room_def)
  obtain nl where last: "nodes st (last (K d)) = Some nl" "last (K d) \<in> live st K"
    using ramfs_getLastChild_dir [OF P(1,3,4)] by metis
  define st' where "st' = st1\<lparr>nodes := (nodes st1)(last (K d) \<mapsto> nl\<lparr>next_node := p\<rparr>)\<rparr>"
  note L = link_file [OF P(1,3,4) p st1(1,2) rm st1(5,6) n(1-4) last(1) st'_def, folded K']
  have lp: "last (K d) \<noteq> p" using L(4) last(2) by auto
  then have l1: "nodes st1 (last (K d)) = Some nl" using last(1) by (simp add: st1(5))
  note last1 = getLastChild_fresh [OF P(1,3,4) L(4) st1(5)]
  have p0: "p \<noteq> 0" using tree_invD(1) [OF P(1)] by (auto simp: p heap_ok_def heap_inv_def)
  have "name_match st' (str_view f) p"
    using L(5) n(5) nm name_match_named [of st' p n f "str_view f" f] str_view_cstr_at by (auto simp: valid_name_def)
  then have "vfs_walk find_dispatch st' (fs_root st') (tokens slash s @ [f]) = Some p"
    using walk_new_entry [OF par L(1,2) _ absent _ p0] by (simp add: K')
  then show thesis using that [OF last1 l1 lp st'_def L(1,2) p0 L(5)] L(3) by blast
qed

lemma ramfs_newRegFile_new:
  assumes par: "parent_ok st K path s d" and nm: "valid_name fileName f"
    and absent: "pick st (str_view f) (K d) = 0" and room: "has_room st 1"
    and p: "p = CurrentPointer (heap st)" and K': "K' = K(d := K d @ [p])"
  obtains st' where "ramfs_newRegFile stk st fileName path = Some (p, VFS_T_OK, st')"
    "tree_inv st' K'" "extends st K st' K'" "p \<noteq> 0"
    "nodes st' p = Some (reg_file_node fileName (last_ino st))"
    "vfs_walk find_dispatch st' (fs_root st') (tokens slash s @ [f]) = Some p" "bumped st st' 200"
proof -
  note P = parent_okD [OF par]
  note h = tree_invD(1) [OF P(1)]
  obtain st1 where st1: "ramfs_allocNode st = (p, st1)" "grown st zero_node st1" "last_ino st1 = last_ino st"
    using ramfs_allocNode_ok [OF h room] unfolding p .
  define n where "n = reg_file_node fileName (last_ino st)"
  define st4 where "st4 = st1\<lparr>mem := memset (mem st1) p 0 sizeof_ramfs_file_header,
    nodes := (nodes st1)(p \<mapsto> zero_node), last_ino := last_ino st + 1, nodes := (nodes st)(p \<mapsto> n)\<rparr>"
  have g4: "grown st n st4" using st1(2) memset_node_untouched [OF h room] by (simp add: grown_def st4_def p)
  then have n4: "nodes st4 = (nodes st)(p \<mapsto> n)" "fs_root st4 = fs_root st" by (simp_all add: grown_def p)
  have nn: "is_cstr (name n) f"
    using nm strncpy_to_cstr [of fileName f MAX_FNAME] by (simp add: n_def reg_file_node_def valid_name_def MAX_FNAME_def)
  obtain l nl st' where A: "ramfs_getLastChild st4 d = Some l" "nodes st4 l = Some nl" "l \<noteq> p"
    "st' = st4\<lparr>nodes := (nodes st4)(l \<mapsto> nl\<lparr>next_node := p\<rparr>)\<rparr>"
    "tree_inv st' K'" "extends st K st' K'" "p \<noteq> 0" "nodes st' p = Some n"
    "vfs_walk find_dispatch st' (fs_root st') (tokens slash s @ [f]) = Some p" "bumped st st' 200"
    using link_new_file [OF par nm absent p K' bumped_grown [OF h room g4] _ _ room n4 _ _ _ _ nn]
    by (simp add: n_def reg_file_node_def zero_node_def) metis
  have "nodes st1 = (nodes st)(p \<mapsto> zero_node)" using st1(2) by (simp add: grown_def p)
  then have res: "ramfs_newRegFile stk st fileName path = Some (p, VFS_T_OK, st')"
    using valid_name_check [OF nm] P(2,6,7) absent pick_str_view [of fileName f] nm st1(1,3) A(1-4,7)
    by (simp add: ramfs_newRegFile_def valid_name_def fs_new_ino_id_def assign_def deref_def st4_def
        n_def reg_file_node_def zero_node_def Let_def)
  show thesis using that [OF res A(5-7) _ A(9,10)] A(8) by (simp add: n_def)
qed

lemma ramfs_newRegFile_ok:
  assumes par: "parent_ok st K path s d" and nm: "valid_name fileName f"
    and absent: "pick st (str_view f) (K d) = 0" and room: "has_room st 1"
    and p: "p = CurrentPointer (heap st)" and K': "K' = K(d := K d @ [p])"
  obtains st' where "ramfs_newRegFile stk st fileName path = Some (p, VFS_T_OK, st')"
    "tree_inv st' K'" "extends st K st' K'" "p \<noteq> 0"
    "nodes st' p = Some (reg_file_node fileName (last_ino st))"
    "vfs_walk find_dispatch st' (fs_root st') (tokens slash s @ [f]) = Some p"
  using ramfs_newRegFile_new [OF assms] by blast

section \<open>Creating a directory\<close>

definition dir_node :: "bytes \<Rightarrow> u32 \<Rightarrow> ramfs_file_header" where
  "dir_node dirName new_ino = zero_node\<lparr>find_cb := Some Cb_ramfs_find,
     readdir_cb := Some Cb_ramfs_readdir, ino := new_ino, name := strncpy_to (\<lambda>_. 0) dirName MAX_FNAME,
     ftype := FTYPE_DIRECTORY\<rparr>"

definition link_node :: "bytes \<Rightarrow> u32 \<Rightarrow> u32 \<Rightarrow> ramfs_file_header" where
  "link_node nm new_ino dest = zero_node\<lparr>ino := new_ino, name := strncpy_to (\<lambda>_. 0) nm MAX_FNAME,
     ftype := FTYPE_SYMLINK, node_ptr := dest\<rparr>"

lemma ramfs_mkDir_exists:
  assumes "parent_ok st K path s d" and "valid_name dirName f" and "pick st (str_view f) (K d) \<noteq> 0"
  shows "ramfs_mkDir stk st dirName path = Some (0, RFS_FILE_ALREADY_EXISTS, st)"
  using parent_okD [OF assms(1)] valid_name_check [OF assms(2)] assms(2,3) pick_str_view [of dirName f]
  by (simp add: ramfs_mkDir_def valid_name_def)

lemma has_room_mono: "has_room st (Suc k) \<Longrightarrow> has_room st k" "has_room st (Suc k) \<Longrightarrow> has_room st (Suc 0)"
  by (simp_all add: has_room_def)

text \<open>Allocating a symbolic link: the two steps that precede the linking.\<close>

lemma alloc_link_heap:
  assumes "heap_ok st" and "has_room st 1" and p: "p = CurrentPointer (heap st)"
  obtains st1 st2 where "ramfs_allocNode st = (p, st1)"
    "fs_get_simlink nm dest p st1 = Some st2" "grown st (link_node nm (last_ino st) dest) st2"
    "last_ino st2 = last_ino st + 1" "p \<noteq> 0"
proof -
  obtain st1 where st1: "ramfs_allocNode st = (p, st1)" "grown st zero_node st1" "last_ino st1 = last_ino st"
    using ramfs_allocNode_ok [OF assms(1,2)] unfolding p .
  define st2 where "st2 = st1\<lparr>last_ino := last_ino st + 1, nodes := (nodes st1)(p \<mapsto> link_node nm (last_ino st) dest)\<rparr>"
  have "fs_get_simlink nm dest p st1 = Some st2"
    using st1(2,3) by (simp add: fs_get_simlink_def fs_new_ino_id_def grown_def p st2_def Let_def
        link_node_def zero_node_def)
  moreover have "grown st (link_node nm (last_ino st) dest) st2" using st1(2) by (simp add: grown_def st2_def p)
  moreover have "p \<noteq> 0" using assms(1) by (auto simp: p heap_ok_def heap_inv_def)
  ultimately show thesis using that st1 by (simp add: st2_def)
qed

lemma alloc_link:
  assumes inv: "tree_inv st K" and room: "has_room st 1" and p: "p = CurrentPointer (heap st)"
  obtains st1 st2 where "ramfs_allocNode st = (p, st1)"
    "fs_get_simlink nm dest p st1 = Some st2" "grown st (link_node nm (last_ino st) dest) st2"
    "last_ino st2 = last_ino st + 1" "p \<noteq> 0" "p \<notin> live st2 K" "tree_inv st2 K" "placed st2 p"
proof -
  obtain st1 st2 where A: "ramfs_allocNode st = (p, st1)"
    "fs_get_simlink nm dest p st1 = Some st2" "grown st (link_node nm (last_ino st) dest) st2"
    "last_ino st2 = last_ino st + 1" "p \<noteq> 0"
    using alloc_link_heap [OF tree_invD(1) [OF inv] room p] .
  then show thesis using that fresh_inv [OF inv room A(3), folded p] by blast
qed

lemma placed_grown:
  assumes "heap_ok st" and "has_room st 1" and "grown st n st'" and "placed st x"
  shows "placed st' x"
  using assms(3,4) next_pointer(1) [OF assms(1,2)] by (auto simp: placed_def grown_def)

text \<open>The three nodes of a new directory, before it is linked into its parent.\<close>

definition dir_triple ::
  "ramfs \<Rightarrow> bytes \<Rightarrow> u32 \<Rightarrow> u32 \<Rightarrow> u32 \<Rightarrow> u32 \<Rightarrow> (u32 \<Rightarrow> ramfs_file_header option)" where
  "dir_triple st dirName d p q r = (nodes st)
     (p \<mapsto> (dir_node dirName (last_ino st))\<lparr>children := q\<rparr>,
      q \<mapsto> (link_node (cstr ''.'') (last_ino st + 1) p)\<lparr>next_node := r\<rparr>,
      r \<mapsto> link_node (cstr ''..'') (last_ino st + 2) d)"

lemma dir_triple_live_ok:
  assumes inv: "tree_inv st K" and d: "d \<in> live st K" "is_dir st d"
    and dist: "p \<noteq> q" "p \<noteq> r" "q \<noteq> r" "{p, q, r} \<inter> live st K = {}" "p \<noteq> 0" "q \<noteq> 0" "r \<noteq> 0"
    and ns: "nodes st' = dir_triple st dirName d p q r" and root: "root_obj st' = root_obj st"
    and pl: "placed st' p" "placed st' q" "placed st' r"
    and K': "K' = K(d := K d @ [p], p := [q, r])"
    and x: "x \<in> {p, q, r}"
  shows "live_ok st' K' x" and "x \<noteq> p \<Longrightarrow> K' x = []"
proof -
  have dn: "d \<notin> {p, q, r}" using d dist(4) by auto
  have ks: "K' p = [q, r]" "K' q = []" "K' r = []"
    using dist dn tree_invD(5) [OF inv] by (auto simp: K')
  have liv: "p \<in> live st' K'" "d \<in> live st' K'"
  proof -
    show "p \<in> live st' K'" using dn by (intro liveI [of _ K' d]) (auto simp: K')
    show "d \<in> live st' K'"
    proof (cases "d = root_obj st")
      case False
      then obtain t where "d \<in> set (K t)" using d(1) by (auto simp: live_def)
      moreover from this have "t \<noteq> p" using tree_invD(5) [OF inv, of p] dist(4) by auto
      ultimately show ?thesis by (intro liveI [of _ K' t]) (auto simp: K')
    qed (simp add: live_def root)
  qed
  have "is_dir st' p" "is_dir st' d"
    using dist dn d(2) by (auto simp: is_dir_def ns dir_triple_def dir_node_def zero_node_def)
  moreover have "chain (nodes st') q [q, r]"
    using dist by (simp add: ns dir_triple_def link_node_def zero_node_def)
  ultimately have "live_ok st' K' p" "live_ok st' K' q" "live_ok st' K' r"
    using dist dn liv pl ks
    by (simp_all add: live_ok_def ns dir_triple_def entry_ok_def dir_node_def link_node_def zero_node_def ftype_defs)
  then show "live_ok st' K' x" using x by auto
  show "x \<noteq> p \<Longrightarrow> K' x = []" using x ks by auto
qed

text \<open>\<open>ramfs_mkDir\<close> from the point where the node of the directory is filled in.\<close>

definition mkDir_tail :: "u32 \<Rightarrow> u32 \<Rightarrow> ramfs \<Rightarrow> (u32 \<times> int \<times> ramfs) option" where
  "mkDir_tail parentDir newDir st4 =
     do { let (currentDirSimlink, st5) = ramfs_allocNode st4;
          if currentDirSimlink = 0 then Some (0, VFS_T_NOK, free_mem currentDirSimlink (free_mem newDir st5))
          else do {
            st6 \<leftarrow> fs_get_simlink (cstr ''.'') newDir currentDirSimlink st5;
            let (parentDirSimlink, st7) = ramfs_allocNode st6;
            if parentDirSimlink = 0 then Some (0, VFS_T_NOK, free_mem currentDirSimlink st7)
            else do {
              st8 \<leftarrow> fs_get_simlink (cstr ''..'') parentDir parentDirSimlink st7;
              d \<leftarrow> deref st8 newDir;
              st11 \<leftarrow> (if children d = 0 then do {
                st9 \<leftarrow> assign newDir (\<lambda>n. n\<lparr>children := currentDirSimlink\<rparr>) st8;
                st10 \<leftarrow> assign currentDirSimlink (\<lambda>n. n\<lparr>next_node := parentDirSimlink\<rparr>) st9;
                assign parentDirSimlink (\<lambda>n. n\<lparr>next_node := 0\<rparr>) st10 } else Some st8);
              lst \<leftarrow> ramfs_getLastChild st11 parentDir;
              st12 \<leftarrow> assign lst (\<lambda>n. n\<lparr>next_node := newDir\<rparr>) st11;
              Some (newDir, VFS_T_OK, st12) } } }"

lemma ramfs_mkDir_start:
  assumes par: "parent_ok st K path s d" and nm: "valid_name dirName f"
    and absent: "pick st (str_view f) (K d) = 0" and room: "has_room st 1"
    and p: "p = CurrentPointer (heap st)"
  obtains st4 where "ramfs_mkDir stk st dirName path = mkDir_tail d p st4"
    "grown st (dir_node dirName (last_ino st)) st4" "last_ino st4 = last_ino st + 1"
    "tree_inv st4 K" "placed st4 p" "p \<notin> live st4 K" "p \<noteq> 0" "\<And>k. has_room st (Suc k) \<Longrightarrow> has_room st4 k"
proof -
  note P = parent_okD [OF par]
  obtain st1 where st1: "ramfs_allocNode st = (p, st1)" "grown st zero_node st1" "last_ino st1 = last_ino st"
    using ramfs_allocNode_ok [OF tree_invD(1) [OF P(1)] room] unfolding p .
  define nd where "nd = dir_node dirName (last_ino st)"
  define st4 where "st4 = st1\<lparr>mem := memset (mem st1) p 0 sizeof_ramfs_file_header,
    nodes := (nodes st1)(p \<mapsto> zero_node), last_ino := last_ino st + 1, nodes := (nodes st)(p \<mapsto> nd)\<rparr>"
  have g4: "grown st nd st4"
    using st1(2) memset_node_untouched [OF tree_invD(1) [OF P(1)] room] by (simp add: grown_def st4_def p)
  note F4 = fresh_inv [OF P(1) room g4, folded p]
  have p0: "p \<noteq> 0" using placed_nonzero [OF tree_invD(1) [OF F4(1)] F4(2)] .
  have ns1: "nodes st1 = (nodes st)(p \<mapsto> zero_node)" using st1(2) by (simp add: grown_def p)
  have st4: "st1\<lparr>mem := memset (mem st1) p 0 sizeof_ramfs_file_header, last_ino := last_ino st + 1,
      nodes := (nodes st)(p \<mapsto> nd)\<rparr> = st4"
    by (simp add: st4_def)
  have nd: "zero_node\<lparr>open_cb := None, close_cb := None, read_cb := None, write_cb := None,
      find_cb := Some Cb_ramfs_find, readdir_cb := Some Cb_ramfs_readdir, flength := 0,
      ino := last_ino st, name := strncpy_to (name zero_node) dirName MAX_FNAME, owner_group := 0,
      owner_id := 0, perm := 0, ftype := FTYPE_DIRECTORY, node_ptr := 0, impl_def := 0\<rparr> = nd"
    by (simp add: nd_def dir_node_def zero_node_def)
  have "ramfs_mkDir stk st dirName path = mkDir_tail d p st4"
    using valid_name_check [OF nm] P(2,6,7) absent pick_str_view [of dirName f] nm p0 st1(1,3)
    by (simp add: ramfs_mkDir_def mkDir_tail_def valid_name_def fs_new_ino_id_def assign_def [of p _ "_\<lparr>last_ino := _\<rparr>"]
        ns1 deref_def [of "_\<lparr>last_ino := _\<rparr>"] st4 nd Let_def)
  then show thesis using that g4 F4 p0 by (simp add: nd_def st4_def)
qed

text \<open>The three allocations of \<open>ramfs_mkDir\<close> and the links between the new nodes.\<close>

lemma ramfs_mkDir_nodes:
  assumes par: "parent_ok st K path s d" and nm: "valid_name dirName f"
    and absent: "pick st (str_view f) (K d) = 0" and room: "has_room st 3"
    and p: "p = CurrentPointer (heap st)"
  obtains st11 q r where
    "ramfs_mkDir stk st dirName path = do { lst \<leftarrow> ramfs_getLastChild st11 d;
       st12 \<leftarrow> assign lst (\<lambda>n. n\<lparr>next_node := p\<rparr>) st11; Some (p, VFS_T_OK, st12) }"
    "nodes st11 = dir_triple st dirName d p q r" "tree_inv st11 K"
    "root_obj st11 = root_obj st" "fs_root st11 = fs_root st"
    "p \<noteq> q" "p \<noteq> r" "q \<noteq> r" "{p, q, r} \<inter> live st K = {}" "p \<noteq> 0" "q \<noteq> 0" "r \<noteq> 0"
    "placed st11 p" "placed st11 q" "placed st11 r" "p < q" "q < r" "bumped st st11 600"
proof -
  note P = parent_okD [OF par]
  have room1: "has_room st 1" using room by (simp add: has_room_def)
  define nd where "nd = dir_node dirName (last_ino st)"
  obtain st4 where S: "ramfs_mkDir stk st dirName path = mkDir_tail d p st4" "last_ino st4 = last_ino st + 1"
    and g4: "grown st nd st4" and F4: "tree_inv st4 K" "placed st4 p" "p \<notin> live st4 K"
    and p0: "p \<noteq> 0" and roomk: "\<And>k. has_room st (Suc k) \<Longrightarrow> has_room st4 k"
    using ramfs_mkDir_start [OF par nm absent room1 p] unfolding nd_def by metis
  have room4: "has_room st4 1" "has_room st4 2" using roomk [of 2] room by (simp_all add: has_room_def)
  define q where "q = CurrentPointer (heap st4)"
  obtain st5 st6 where st6: "ramfs_allocNode st4 = (q, st5)"
    "fs_get_simlink (cstr ''.'') p q st5 = Some st6"
    "grown st4 (link_node (cstr ''.'') (last_ino st4) p) st6" "last_ino st6 = last_ino st4 + 1"
    "q \<noteq> 0" "q \<notin> live st6 K" "tree_inv st6 K" "placed st6 q"
    using alloc_link [OF F4(1) room4(1) q_def] .
  have room6: "has_room st6 1" using fresh_inv(4) [OF F4(1) room4(1) st6(3), of 1] room4(2) by (simp add: has_room_def)
  define r where "r = CurrentPointer (heap st6)"
  obtain st7 st8 where st8: "ramfs_allocNode st6 = (r, st7)"
    "fs_get_simlink (cstr ''..'') d r st7 = Some st8"
    "grown st6 (link_node (cstr ''..'') (last_ino st6) d) st8" "last_ino st8 = last_ino st6 + 1"
    "r \<noteq> 0" "r \<notin> live st8 K" "tree_inv st8 K" "placed st8 r"
    using alloc_link [OF st6(7) room6 r_def] .
  note h4 = tree_invD(1) [OF F4(1)] and h6 = tree_invD(1) [OF st6(7)]
  have pl6: "placed st6 p" by (rule placed_grown [OF h4 room4(1) st6(3) F4(2)])
  have pl8: "placed st8 p" "placed st8 q"
    using placed_grown [OF h6 room6 st8(3)] pl6 st6(8) by blast+
  have dist: "p \<noteq> q" "p \<noteq> r" "q \<noteq> r"
    using fresh_not_placed [OF h4 room4(1)] fresh_not_placed [OF h6 room6] F4(2) pl6 st6(8)
    by (auto simp: q_def r_def)
  have lt: "p < q" "q < r"
    using g4 st6(3) next_pointer(1) [OF tree_invD(1) [OF P(1)] room1] next_pointer(1) [OF h4 room4(1)]
    by (simp_all add: p q_def r_def grown_def word_less_nat_alt)
  have root: "root_obj st4 = root_obj st" "root_obj st6 = root_obj st" "root_obj st8 = root_obj st"
    "fs_root st8 = fs_root st"
    using g4 st6(3) st8(3) by (simp_all add: grown_def)
  have nl: "{p, q, r} \<inter> live st K = {}" using F4(3) st6(6) st8(6) root by (auto simp: live_def)
  have ns8: "nodes st8 = (nodes st)(p \<mapsto> nd, q \<mapsto> link_node (cstr ''.'') (last_ino st + 1) p,
      r \<mapsto> link_node (cstr ''..'') (last_ino st + 2) d)"
    using g4 st6(3,4) st8(3) by (simp add: grown_def p q_def r_def S(2) add.assoc)
  define st11 where "st11 = st8\<lparr>nodes := (nodes st8)(p \<mapsto> nd\<lparr>children := q\<rparr>,
      q \<mapsto> (link_node (cstr ''.'') (last_ino st + 1) p)\<lparr>next_node := r\<rparr>,
      r \<mapsto> (link_node (cstr ''..'') (last_ino st + 2) d)\<lparr>next_node := 0\<rparr>)\<rparr>"
  have "nodes st11 = dir_triple st dirName d p q r"
    using dist by (auto simp: st11_def ns8 dir_triple_def nd_def link_node_def zero_node_def fun_eq_iff)
  moreover have "tree_inv st11 K"
    using nl st8(7) tree_invD(1) [OF st8(7)] root
    by (intro tree_inv_cong [OF st8(7)]) (auto simp: st11_def live_def heap_ok_def)
  moreover have "placed st11 x = placed st8 x" for x by (simp add: placed_def st11_def)
  moreover have "ramfs_mkDir stk st dirName path = do { lst \<leftarrow> ramfs_getLastChild st11 d;
       st12 \<leftarrow> assign lst (\<lambda>n. n\<lparr>next_node := p\<rparr>) st11; Some (p, VFS_T_OK, st12) }"
  proof -
    have links: "deref st8 p = Some nd" "children nd = 0"
      "nodes st8 q = Some (link_node (cstr ''.'') (last_ino st + 1) p)"
      "nodes st8 r = Some (link_node (cstr ''..'') (last_ino st + 2) d)"
      using dist by (simp_all add: ns8 deref_def nd_def dir_node_def zero_node_def)
    show ?thesis
      using st6(1,2,5) st8(1,2,5) links dist
      by (simp add: S(1) mkDir_tail_def assign_def [of p] assign_def [of q] assign_def [of r] deref_def
          Let_def st11_def)
  qed
  moreover have "bumped st st11 600"
    using bumped_grown [OF tree_invD(1) [OF P(1)] room1 g4] bumped_grown [OF h4 room4(1) st6(3)] bumped_grown [OF h6 room6 st8(3)]
      bumped_trans [of st st4 200 st6 200] bumped_trans [of st st6 400 st8 200] by (simp add: bumped_def st11_def)
  ultimately show thesis
    using that [of st11 q r] dist nl p0 st6(5) st8(5) pl8 st8(8) root lt by (simp add: st11_def)
qed

lemma live_ok_Int: "A \<inter> live st K = {} \<Longrightarrow> root_obj st' = root_obj st \<Longrightarrow> A \<inter> live st' K = {}"
  by (simp add: live_def)

text \<open>The name of a node.\<close>

definition named :: "ramfs \<Rightarrow> u32 \<Rightarrow> u8 list \<Rightarrow> bool" where
  "named st p f \<longleftrightarrow> (\<exists>n. nodes st p = Some n \<and> is_cstr (name n) f) \<and> length f < 128"

lemma dot_names: "is_cstr (strncpy_to (\<lambda>_. 0) (cstr ''.'') MAX_FNAME) [0x2E]" "is_cstr (strncpy_to (\<lambda>_. 0) (cstr ''..'') MAX_FNAME) [0x2E, 0x2E]"
  using strncpy_to_cstr [of "cstr ''.''" "[0x2E]" MAX_FNAME] strncpy_to_cstr [of "cstr ''..''" "[0x2E, 0x2E]" MAX_FNAME]
  by (simp_all add: MAX_FNAME_def cstr_def)

lemma named_match: "named st p f \<Longrightarrow> name_match st (str_view g) p \<longleftrightarrow> f = g" if "is_cstr (str_view g) g"
  using name_match_named that by (auto simp: named_def)

text \<open>A new directory, linked behind the last entry of its parent.\<close>

lemma link_dir:
  assumes inv: "tree_inv st K" and d: "d \<in> live st K" "is_dir st d" and p: "p = CurrentPointer (heap st)"
    and st1: "bumped st st1 600" "room st 600" "nodes st1 = dir_triple st nm d p q r" "fs_root st1 = fs_root st"
    and ps: "p < q" "q < r" "{p, q, r} \<inter> live st K = {}" "placed st1 p" "placed st1 q" "placed st1 r"
    and l: "nodes st (last (K d)) = Some nl"
    and st': "st' = st1\<lparr>nodes := (nodes st1)(last (K d) \<mapsto> nl\<lparr>next_node := p\<rparr>)\<rparr>"
  shows "tree_inv st' (K(d := K d @ [p], p := [q, r]))" and "extends st K st' (K(d := K d @ [p], p := [q, r]))"
    and "bumped st st' 600" and "is_dir st' p"
    and "is_cstr nm f \<Longrightarrow> length f < 128 \<Longrightarrow> named st' p f" and "named st' q [0x2E]" "named st' r [0x2E, 0x2E]"
    and "target st' q = p" and "target st' r = d" and "p \<noteq> 0"
proof -
  define K' where "K' = K(d := K d @ [p], p := [q, r])"
  have rm: "has_room st 1" by (rule room_has_room [OF st1(2)]) simp
  have ro: "root_obj st1 = root_obj st" and cp: "unat (CurrentPointer (heap st1)) = unat p + 600" "HeapMem (heap st1) = HeapMem (heap st)"
    using st1(1) by (simp_all add: bumped_def p)
  note h1 = heap_ok_bumped [OF st1(1) tree_invD(1) [OF inv] st1(2)]
  have dist: "p \<noteq> q" "p \<noteq> r" "q \<noteq> r" using ps(1,2) by auto
  have nz: "p \<noteq> 0" "q \<noteq> 0" "r \<noteq> 0" using placed_nonzero [OF h1] ps(4-6) by auto
  note L = live_cong [OF ro, of K]
  have dn: "d \<notin> {p, q, r}" using d(1) ps(3) by auto
  have inv1: "tree_inv st1 K"
    using ps(3) cp h1 by (intro tree_inv_cong [OF inv _ ro st1(4)]) (auto simp: st1(3) dir_triple_def p word_le_nat_alt)
  have d1: "d \<in> live st1 K" "is_dir st1 d" using d dn by (auto simp: L is_dir_def st1(3) dir_triple_def)
  have last: "last (K d) \<in> live st K" using ramfs_getLastChild_dir [OF inv d] by blast
  then have ln: "last (K d) \<notin> {p, q, r}" using ps(3) by auto
  then have l1: "nodes st1 (last (K d)) = Some nl" using l by (auto simp: st1(3) dir_triple_def)
  note ok = dir_triple_live_ok [OF inv d dist ps(3) nz st1(3) ro ps(4-6) K'_def]
  have "sorted_wrt (<) [p, q, r]" "root_obj st \<notin> set [q, r]" using ps(1-3) by (auto simp: live_def)
  then have "ordered st K'" unfolding K'_def by (intro fresh_ordered [OF inv rm p d(1)])
  then have ord: "ordered st1 K'" by (simp add: ordered_def ro)
  have inv': "tree_inv st' K'"
    using dist ps(3) ok
    by (intro tree_inv_link [OF inv1 d1 _ _ K'_def ord _ _ _ _ l1 st', of "(dir_node nm (last_ino st))\<lparr>children := q\<rparr>"])
       (auto simp: L st1(3) dir_triple_def dir_node_def zero_node_def)
  have "extends st1 K st' K'"
    by (rule extends_link [OF inv1 d1 _ K'_def l1 st' inv']) (use ps(3) in \<open>auto simp: L\<close>)
  moreover have "nodes st1 x = nodes st x" if "x \<in> live st K" for x
    using that ps(3) by (auto simp: st1(3) dir_triple_def)
  ultimately show "extends st K st' (K(d := K d @ [p], p := [q, r]))" using st1(4) by (simp add: extends_def L K'_def)
  show "tree_inv st' (K(d := K d @ [p], p := [q, r]))" using inv' by (simp add: K'_def)
  show "bumped st st' 600" using st1(1) by (simp add: bumped_def st')
  have ns': "nodes st' p = Some ((dir_node nm (last_ino st))\<lparr>children := q\<rparr>)" using ln dist by (auto simp: st' st1(3) dir_triple_def)
  then show "is_dir st' p" by (simp add: is_dir_def dir_node_def)
  show "named st' p f" if "is_cstr nm f" "length f < 128"
    using ns' that strncpy_to_cstr [of nm f MAX_FNAME] by (auto simp: named_def dir_node_def MAX_FNAME_def)
  show "named st' q [0x2E]" "named st' r [0x2E, 0x2E]" "target st' q = p" "target st' r = d" "p \<noteq> 0"
    using ln dist dot_names nz(1)
    by (auto simp: named_def st' st1(3) dir_triple_def link_node_def target_def simp del: cstr_at.simps)
qed

lemma ramfs_mkDir_new:
  assumes par: "parent_ok st K path s d" and nm: "valid_name dirName f"
    and absent: "pick st (str_view f) (K d) = 0" and room: "has_room st 3"
    and p: "p = CurrentPointer (heap st)"
  obtains st' q r where "ramfs_mkDir stk st dirName path = Some (p, VFS_T_OK, st')"
    "tree_inv st' (K(d := K d @ [p], p := [q, r]))" "extends st K st' (K(d := K d @ [p], p := [q, r]))"
    "p \<noteq> 0" "is_dir st' p" "target st' q = p" "target st' r = d"
    "vfs_walk find_dispatch st' (fs_root st') (tokens slash s @ [f]) = Some p"
    "bumped st st' 600" "named st' p f" "named st' q [0x2E]" "named st' r [0x2E, 0x2E]"
proof -
  note P = parent_okD [OF par]
  obtain st11 q r where M:
    "ramfs_mkDir stk st dirName path = do { lst \<leftarrow> ramfs_getLastChild st11 d;
       st12 \<leftarrow> assign lst (\<lambda>n. n\<lparr>next_node := p\<rparr>) st11; Some (p, VFS_T_OK, st12) }"
    "nodes st11 = dir_triple st dirName d p q r" "tree_inv st11 K"
    "root_obj st11 = root_obj st" "fs_root st11 = fs_root st"
    "p \<noteq> q" "p \<noteq> r" "q \<noteq> r" "{p, q, r} \<inter> live st K = {}" "p \<noteq> 0" "q \<noteq> 0" "r \<noteq> 0"
    "placed st11 p" "placed st11 q" "placed st11 r" "p < q" "q < r" "bumped st st11 600"
    using ramfs_mkDir_nodes [OF par nm absent room p] by blast
  define K' where "K' = K(d := K d @ [p], p := [q, r])"
  note L = live_cong [OF M(4), of K]
  have dn: "d \<notin> {p, q, r}" using P(3) M(9) by auto
  have d11: "d \<in> live st11 K" "is_dir st11 d"
    using P(3,4) dn by (auto simp: L is_dir_def M(2) dir_triple_def)
  obtain nl where last: "ramfs_getLastChild st11 d = Some (last (K d))" "nodes st11 (last (K d)) = Some nl"
    "last (K d) \<in> live st11 K"
    using ramfs_getLastChild_dir [OF M(3) d11] .
  have "last (K d) \<notin> {p, q, r}" using last(3) M(9) by (auto simp: L)
  then have l: "nodes st (last (K d)) = Some nl" using last(2) by (auto simp: M(2) dir_triple_def)
  define st' where "st' = st11\<lparr>nodes := (nodes st11)(last (K d) \<mapsto> nl\<lparr>next_node := p\<rparr>)\<rparr>"
  have res: "ramfs_mkDir stk st dirName path = Some (p, VFS_T_OK, st')"
    using last(1,2) by (simp add: M(1) assign_def deref_def st'_def)
  have rm: "room st 600" using room by (simp add: room_def has_room_def)
  note D = link_dir [OF P(1,3,4) p M(18) rm M(2,5) M(16,17,9) M(13-15) l st'_def, folded K'_def]
  have nmp: "named st' p f" using D(5) nm by (simp add: valid_name_def)
  then have "name_match st' (str_view f) p" using named_match [of f st' p f] nm str_view_cstr_at by (auto simp: valid_name_def)
  moreover have "K' d = K d @ [p]" using dn by (simp add: K'_def)
  ultimately have "vfs_walk find_dispatch st' (fs_root st') (tokens slash s @ [f]) = Some p"
    using walk_new_entry [OF par D(1,2) _ absent _ M(10)] by simp
  then show thesis using that [OF res D(1,2) [unfolded K'_def] M(10) D(4,8,9)] D(3,6,7) nmp by blast
qed

lemma ramfs_mkDir_ok:
  assumes par: "parent_ok st K path s d" and nm: "valid_name dirName f"
    and absent: "pick st (str_view f) (K d) = 0" and room: "has_room st 3"
    and p: "p = CurrentPointer (heap st)"
  obtains st' q r where "ramfs_mkDir stk st dirName path = Some (p, VFS_T_OK, st')"
    "tree_inv st' (K(d := K d @ [p], p := [q, r]))" "extends st K st' (K(d := K d @ [p], p := [q, r]))"
    "p \<noteq> 0" "is_dir st' p" "target st' q = p" "target st' r = d"
    "vfs_walk find_dispatch st' (fs_root st') (tokens slash s @ [f]) = Some p"
  using ramfs_mkDir_new [OF assms] by blast

text \<open>Without room for the three nodes the new directory is not linked, and nothing else changes.\<close>

lemma free_mem_id [simp]: "free_mem a st = st"
  by (simp add: free_mem_def kfree_def)

lemma tree_inv_mem:
  assumes "tree_inv st K"
  shows "tree_inv (st\<lparr>mem := m\<rparr>) K"
  using tree_invD(1) [OF assms] by (intro tree_inv_cong [OF assms]) (simp_all add: heap_ok_def)

lemma ramfs_mkDir_no_room:
  assumes par: "parent_ok st K path s d" and nm: "valid_name dirName f"
    and absent: "pick st (str_view f) (K d) = 0" and room: "\<not> has_room st 3"
  obtains st' where "ramfs_mkDir stk st dirName path = Some (0, VFS_T_NOK, st')"
    "tree_inv st' K" "\<And>x. x \<in> live st K \<Longrightarrow> nodes st' x = nodes st x" "fs_root st' = fs_root st"
    "root_obj st' = root_obj st"
proof -
  note P = parent_okD [OF par]
  note base = valid_name_check [OF nm] P(2,6,7) absent pick_str_view [of dirName f] nm
  show thesis
  proof (cases "has_room st 1")
    case False
    obtain m where "ramfs_allocNode st = (0, st\<lparr>mem := m\<rparr>)"
      using ramfs_allocNode_fail [OF tree_invD(1) [OF P(1)] False] .
    then have "ramfs_mkDir stk st dirName path = Some (0, VFS_T_NOK, st\<lparr>mem := m\<rparr>)"
      using base by (simp add: ramfs_mkDir_def valid_name_def)
    then show thesis using that tree_inv_mem [OF P(1)] by simp
  next
    case room1: True
    define p where "p = CurrentPointer (heap st)"
    obtain st4 where S: "ramfs_mkDir stk st dirName path = mkDir_tail d p st4" "tree_inv st4 K"
      and g4: "grown st (dir_node dirName (last_ino st)) st4"
      using ramfs_mkDir_start [OF par nm absent room1 p_def] by metis
    have pl: "p \<notin> live st K" using fresh_not_live [OF P(1) room1] by (simp add: p_def)
    then have ns4: "nodes st4 x = nodes st x" if "x \<in> live st K" for x
      using that g4 by (auto simp: grown_def p_def)
    have root4: "fs_root st4 = fs_root st" "root_obj st4 = root_obj st" using g4 by (simp_all add: grown_def)
    show thesis
    proof (cases "has_room st4 1")
      case False
      obtain m where "ramfs_allocNode st4 = (0, st4\<lparr>mem := m\<rparr>)"
        using ramfs_allocNode_fail [OF tree_invD(1) [OF S(2)] False] .
      then show thesis
        using that [of "st4\<lparr>mem := m\<rparr>"] tree_inv_mem [OF S(2)]
          ns4 root4 by (simp add: S(1) mkDir_tail_def)
    next
      case room4: True
      define q where "q = CurrentPointer (heap st4)"
      obtain st5 st6 where st6: "ramfs_allocNode st4 = (q, st5)"
        "fs_get_simlink (cstr ''.'') p q st5 = Some st6" "tree_inv st6 K" "q \<noteq> 0"
        and g6: "grown st4 (link_node (cstr ''.'') (last_ino st4) p) st6"
        using alloc_link [OF S(2) room4 q_def, of "cstr ''.''" p] by metis
      have "\<not> has_room st6 1"
        using room g4 g6 next_pointer(1) [OF tree_invD(1) [OF P(1)] room1]
          next_pointer(1) [OF tree_invD(1) [OF S(2)] room4] by (simp add: has_room_def grown_def)
      then obtain m where a: "ramfs_allocNode st6 = (0, st6\<lparr>mem := m\<rparr>)"
        using ramfs_allocNode_fail [OF tree_invD(1) [OF st6(3)]] by blast
      have ns6: "nodes st6 x = nodes st x" if "x \<in> live st K" for x
        using that ns4 g6 fresh_not_live [OF S(2) room4] live_cong [OF root4(2), of K] by (auto simp: grown_def)
      have "fs_root st6 = fs_root st" "root_obj st6 = root_obj st" using g6 root4 by (simp_all add: grown_def)
      then show thesis
        using that [of "st6\<lparr>mem := m\<rparr>"] tree_inv_mem [OF st6(3)]
          ns6 a st6 by (simp add: S(1) mkDir_tail_def)
    qed
  qed
qed

end
