(* ===== verification/Coresys_Ramfs_Files.thy ===== *)
theory Coresys_Ramfs_Files
  imports Coresys_Ramfs_Ops
begin

text \<open>
  The remaining operations of the RAM file system: mounting, reading directories, the contents of
  files, and unlinking a file.
\<close>

section \<open>Mounting\<close>

lemma heap_ok_cong:
  "heap_ok st \<Longrightarrow> heap st' = heap st \<Longrightarrow> root_obj st' = root_obj st \<Longrightarrow> heap_ok st'"
  by (simp add: heap_ok_def)

text \<open>The root directory alone, with its two links.\<close>

lemma tree_inv_root:
  assumes h: "heap_ok st" and root: "R = root_obj st" "fs_root st = R"
    and ns: "nodes st R = Some n" "ftype n = FTYPE_DIRECTORY" "find_cb n = Some Cb_ramfs_find"
      "readdir_cb n = Some Cb_ramfs_readdir" "children n = q"
    and q: "nodes st q = Some nq" "ftype nq = FTYPE_SYMLINK" "find_cb nq = None" "children nq = 0" "node_ptr nq = R" "next_node nq = r"
    and r: "nodes st r = Some nr" "ftype nr = FTYPE_SYMLINK" "find_cb nr = None" "children nr = 0" "node_ptr nr = R" "next_node nr = 0"
    and pl: "placed st q" "placed st r" and dist: "q < r" "q \<noteq> R" "r \<noteq> R"
  shows "tree_inv st (\<lambda>p. if p = R then [q, r] else [])"
proof -
  define K where "K = (\<lambda>p. if p = R then [q, r] else [])"
  have L: "live st K = {R, q, r}" by (auto simp: live_def K_def root(1) split: if_splits)
  have nz: "q \<noteq> 0" "r \<noteq> 0" using pl placed_nonzero [OF h] by auto
  have dir: "is_dir st R" using ns by (simp add: is_dir_def)
  have "chain (nodes st) q [q, r]" using q r nz by simp
  then have "live_ok st K x" if "x \<in> live st K" for x
    using that ns q r pl dir dist root(1) unfolding L
    by (auto simp: live_ok_def entry_ok_def placed_def live_def K_def ftype_defs)
  moreover have "ordered st K" using dist root(1) by (auto simp: ordered_def K_def)
  ultimately have "tree_inv st K"
    unfolding tree_inv_def using h root dir by (auto simp: L K_def)
  then show ?thesis by (simp add: K_def)
qed

lemma ramfs_init_new:
  assumes h: "heap_ok st" and room: "has_room st 2" and n: "nodes st (root_obj st) = Some n" "children n = 0"
    and q: "q = CurrentPointer (heap st)" and r: "r = CurrentPointer (heap st) + 200"
  obtains st' where "ramfs_init st = Some (VFS_T_OK, st')"
    "tree_inv st' (\<lambda>p. if p = root_obj st then [q, r] else [])"
    "root_obj st' = root_obj st" "bumped st st' 400" "named st' q [0x2E]" "named st' r [0x2E, 0x2E]"
proof -
  define R where "R = root_obj st"
  define rn where "rn = n\<lparr>open_cb := None, close_cb := None, read_cb := None,
    write_cb := None, find_cb := Some Cb_ramfs_find, readdir_cb := Some Cb_ramfs_readdir,
    flength := 0, ino := last_ino st, name := (name n)(0 := 0), owner_group := 0, owner_id := 0,
    perm := 0, ftype := FTYPE_DIRECTORY, node_ptr := 0, impl_def := 0\<rparr>"
  define st2 where "st2 = st\<lparr>last_ino := last_ino st + 1, nodes := (nodes st)(R \<mapsto> rn)\<rparr>"
  have h2: "heap_ok st2" "has_room st2 1" "has_room st2 2"
    using heap_ok_cong [OF h, of st2] room by (simp_all add: st2_def has_room_def)
  obtain st3 st4 where A: "ramfs_allocNode st2 = (q, st3)"
    "fs_get_simlink (cstr ''.'') R q st3 = Some st4" "grown st2 (link_node (cstr ''.'') (last_ino st2) R) st4"
    "last_ino st4 = last_ino st2 + 1" "q \<noteq> 0"
    using alloc_link_heap [OF h2(1,2), of q "cstr ''.''" R] by (auto simp: q st2_def)
  have q2: "CurrentPointer (heap st2) = q" "CurrentPointer (heap st4) = r"
    using A(3) by (simp_all add: grown_def q r st2_def)
  have g4: "heap st4 = (heap st2)\<lparr>CurrentPointer := CurrentPointer (heap st2) + 200\<rparr>"
    "root_obj st4 = root_obj st2"
    using A(3) by (simp_all add: grown_def)
  note h4 = bump_heap_ok [OF h2(1,2) g4]
  have room4: "has_room st4 1" using h4(3) [of 1] h2(3) by (simp add: has_room_def)
  obtain st5 st6 where B: "ramfs_allocNode st4 = (r, st5)"
    "fs_get_simlink (cstr ''..'') R r st5 = Some st6" "grown st4 (link_node (cstr ''..'') (last_ino st4) R) st6"
    "r \<noteq> 0"
    using alloc_link_heap [OF h4(1) room4 q2(2) [symmetric], of "cstr ''..''" R] by metis
  have qR: "q \<noteq> R" "r \<noteq> R" "q < r"
    using fresh_not_placed [OF h2(1,2)] fresh_not_placed [OF h4(1) room4] next_pointer(1) [OF h2(1,2)] q2 g4(2)
    by (auto simp: R_def placed_def st2_def word_less_nat_alt r q)
  define nq where "nq = link_node (cstr ''.'') (last_ino st2) R"
  define nr where "nr = link_node (cstr ''..'') (last_ino st4) R"
  have ns6: "nodes st6 = (nodes st)(R \<mapsto> rn, q \<mapsto> nq, r \<mapsto> nr)"
    using A(3) B(3) q2 by (simp add: grown_def nq_def nr_def st2_def)
  define st9 where "st9 = st6\<lparr>nodes := (nodes st6)(R \<mapsto> rn\<lparr>children := q\<rparr>, q \<mapsto> nq\<lparr>next_node := r\<rparr>, r \<mapsto> nr\<lparr>next_node := 0\<rparr>)\<rparr>"
  have same: "root_obj st6 = R" "children rn = 0" using A(3) B(3) n(2) by (simp_all add: grown_def st2_def R_def rn_def)
  have "ramfs_init st = Some (VFS_T_OK, st9\<lparr>fs_root := R\<rparr>)"
  proof -
    have "assign R (\<lambda>n. n\<lparr>open_cb := None, close_cb := None, read_cb := None,
            write_cb := None, find_cb := Some Cb_ramfs_find, readdir_cb := Some Cb_ramfs_readdir,
            flength := 0, ino := last_ino st, name := (name n)(0 := 0), owner_group := 0, owner_id := 0,
            perm := 0, ftype := FTYPE_DIRECTORY, node_ptr := 0, impl_def := 0\<rparr>) (st\<lparr>last_ino := last_ino st + 1\<rparr>) = Some st2"
      using n by (simp add: assign_def deref_def R_def st2_def rn_def)
    then show ?thesis
      using A(1,2,5) B(1,2,4) qR same
      by (simp add: ramfs_init_def fs_new_ino_id_def Let_def R_def [symmetric] deref_def ns6 assign_def [of R _ st6]
          assign_def [of q] assign_def [of r] fs_set_root_def st9_def)
  qed
  moreover have "heap_ok (st9\<lparr>fs_root := R\<rparr>)" "placed (st9\<lparr>fs_root := R\<rparr>) q" "placed (st9\<lparr>fs_root := R\<rparr>) r"
  proof -
    have g6: "heap st6 = (heap st4)\<lparr>CurrentPointer := CurrentPointer (heap st4) + 200\<rparr>"
      "root_obj st6 = root_obj st4"
      using B(3) by (simp_all add: grown_def)
    note h6 = bump_heap_ok [OF h4(1) room4 g6]
    have eq: "placed (st9\<lparr>fs_root := R\<rparr>) x = placed st6 x" for x by (simp add: placed_def st9_def)
    show "heap_ok (st9\<lparr>fs_root := R\<rparr>)" using heap_ok_cong [OF h6(1), of "st9\<lparr>fs_root := R\<rparr>"] by (simp add: st9_def)
    show "placed (st9\<lparr>fs_root := R\<rparr>) r" using h6(2) q2 by (simp add: eq)
    show "placed (st9\<lparr>fs_root := R\<rparr>) q"
      using placed_grown [OF h4(1) room4 B(3) h4(2)] q2 by (simp add: eq)
  qed
  then have "tree_inv (st9\<lparr>fs_root := R\<rparr>) (\<lambda>p. if p = R then [q, r] else [])"
    by (intro tree_inv_root [of _ R "rn\<lparr>children := q\<rparr>" q "nq\<lparr>next_node := r\<rparr>" r "nr\<lparr>next_node := 0\<rparr>"])
       (use qR same in \<open>auto simp: st9_def ns6 rn_def nq_def nr_def link_node_def zero_node_def\<close>)
  moreover have "bumped st2 st6 (200 + 200)"
    by (rule bumped_trans [OF bumped_grown [OF h2(1,2) A(3)] bumped_grown [OF h4(1) room4 B(3)]])
  then have "bumped st (st9\<lparr>fs_root := R\<rparr>) 400" by (simp add: bumped_def st9_def st2_def untouched_def)
  moreover have "named (st9\<lparr>fs_root := R\<rparr>) q [0x2E]" "named (st9\<lparr>fs_root := R\<rparr>) r [0x2E, 0x2E]"
    using qR dot_names by (auto simp: named_def st9_def nq_def nr_def link_node_def)
  ultimately show thesis using that same by (simp add: R_def st9_def)
qed

lemma ramfs_init_ok:
  assumes "heap_ok st" and "has_room st 2" and "nodes st (root_obj st) = Some n" "children n = 0"
    and "q = CurrentPointer (heap st)" and "r = CurrentPointer (heap st) + 200"
  obtains st' where "ramfs_init st = Some (VFS_T_OK, st')"
    "tree_inv st' (\<lambda>p. if p = root_obj st then [q, r] else [])" "root_obj st' = root_obj st"
  using ramfs_init_new [OF assms] by metis

section \<open>Reading a directory\<close>

definition dirent_of :: "ramfs_file_header \<Rightarrow> dirent \<Rightarrow> dirent" where
  "dirent_of n entry = (let nm = strncpy_to (d_name entry) (name_view n) MAX_FNAME
     in \<lparr>d_ino = ino n, d_reclen = ucast (sizeof_dirent - MAX_FNAME + strlen nm),
         d_type = ucast (ftype n), d_name = nm\<rparr>)"

lemma kids_length:
  assumes "tree_inv st K"
  shows "length (K p) < 2 ^ 32"
proof -
  have d: "distinct (K p)" "0 \<notin> set (K p)"
    using tree_invD(9) [OF assms] kids_nonzero [OF assms] strict_sorted_iff by (auto simp: ordered_def)
  then have "set (K p) \<subseteq> UNIV - {0}" by auto
  then have "card (set (K p)) \<le> card (UNIV - {0 :: u32})" by (rule card_mono [rotated]) simp
  then show ?thesis using distinct_card [OF d(1)] by (simp add: card_Diff_singleton card_word)
qed

lemma ramfs_readdir_nth:
  assumes inv: "tree_inv st K" and d: "d \<in> live st K" "is_dir st d"
  shows "ramfs_readdir st d index entry =
    (if unat index < length (K d)
     then case nodes st (K d ! unat index) of None \<Rightarrow> None
          | Some n \<Rightarrow> Some (VFS_T_OK, Some (dirent_of n entry), dirent_of n entry)
     else Some (VFS_T_OK, None, entry))"
proof -
  obtain n where n: "nodes st d = Some n" "entry_ok st K d n" "d \<noteq> 0" using live_node [OF inv d(1)] by metis
  then have c: "ftype n = FTYPE_DIRECTORY" "readdir_cb n \<noteq> None" "K d \<noteq> []" "chain (nodes st) (children n) (K d)"
    using d(2) by (auto simp: is_dir_def entry_ok_def)
  then have c0: "children n \<noteq> 0" by (cases "K d") auto
  note l = ramfs_readdir_loop_nth [OF c(4) kids_length [OF inv], of index 0]
  have nz: "K d ! unat index \<noteq> 0" if "unat index < length (K d)"
    using that kids_nonzero [OF inv, of d] nth_mem by metis
  show ?thesis
    using n c c0 l nz by (auto simp: ramfs_readdir_def deref_def dirent_of_def Let_def split: option.split)
qed

section \<open>The contents of files\<close>

definition regular_at :: "ramfs \<Rightarrow> u32 \<Rightarrow> ramfs_file_header \<Rightarrow> bool" where
  "regular_at st node n \<longleftrightarrow> nodes st node = Some n \<and> node \<noteq> 0 \<and> ftype n = FTYPE_REGULAR \<and>
     read_cb n = Some Cb_ramfs_read \<and> write_cb n = Some Cb_ramfs_write"

text \<open>
  A write of \<open>nbyte\<close> bytes at \<open>off\<close> from \<open>buf\<close> is in range when it starts inside the file and its
  end does not wrap; the buffer must not overlap the part of the file that is written, nor the
  block that a growing file moves to.
\<close>

definition write_ok :: "ramfs \<Rightarrow> ramfs_file_header \<Rightarrow> u32 \<Rightarrow> u32 \<Rightarrow> u32 \<Rightarrow> bool" where
  "write_ok st n buf nbyte off \<longleftrightarrow> buf \<noteq> 0 \<and> off \<le> flength n \<and> unat nbyte + unat off < 2 ^ 32 \<and>
     (if unat nbyte + unat off \<le> unat (flength n) then disjoint (filePtr n + off) nbyte buf nbyte
      else heap_inv (heap st) \<and> request_ok (heap st) (nbyte + off) \<and>
        unat (CurrentPointer (heap st)) + unat (round_up (nbyte + off))
          \<le> unat (HeapMem (heap st)) + unat (HeapMemSize (heap st)) \<and>
        disjoint (CurrentPointer (heap st)) (round_up (nbyte + off) + 4) buf nbyte)"

lemma disjoint_sub:
  assumes "disjoint p k q n" and "unat off + unat nb \<le> unat k"
  shows "disjoint (p + off) nb q n"
proof -
  have "in_region a p k" if "in_region a (p + off) nb" for a
  proof -
    have "a - p = (a - (p + off)) + off" by simp
    moreover have "unat (a - (p + off)) < unat nb" using that by (simp add: in_region_def word_less_nat_alt)
    ultimately have "unat (a - p) < unat k"
      using assms(2) unat_lt2p [of k] unat_plus_if' [of "a - (p + off)" off] by (auto split: if_splits)
    then show ?thesis by (simp add: in_region_def word_less_nat_alt)
  qed
  then show ?thesis using assms(1) by (auto simp: disjoint_def)
qed

lemma ramfs_write_ok:
  assumes reg: "regular_at st node n" and ok: "write_ok st n buf nbyte off"
  obtains st' n' where "ramfs_write st node buf nbyte off = Some (sint nbyte, st')" "regular_at st' node n'"
    "flength n' = max (flength n) (nbyte + off)"
    "\<And>i. i < nbyte \<Longrightarrow> mem st' (filePtr n' + off + i) = mem st (buf + i)"
    "\<And>a. \<lbrakk>unat nbyte + unat off \<le> unat (flength n); \<not> in_region a (filePtr n + off) nbyte\<rbrakk> \<Longrightarrow> mem st' a = mem st a"
proof -
  have sum: "unat (nbyte + off) = unat nbyte + unat off" using ok by (intro unat_add_no_wrap) (simp add: write_ok_def)
  note R = reg [unfolded regular_at_def]
  have basic: "node \<noteq> 0" "buf \<noteq> 0" "\<not> off > flength n" using R ok by (auto simp: write_ok_def)
  show thesis
  proof (cases "nbyte + off > flength n")
    case False
    then have dis: "disjoint (filePtr n + off) nbyte buf nbyte"
      using ok sum by (simp add: write_ok_def word_less_nat_alt)
    define st' where "st' = st\<lparr>mem := memcpy (mem st) (filePtr n + off) buf nbyte\<rparr>"
    have "ramfs_write st node buf nbyte off = Some (sint nbyte, st')"
      using basic R False by (simp add: ramfs_write_def deref_def st'_def)
    moreover have "regular_at st' node n" using R by (simp add: regular_at_def st'_def)
    moreover have "flength n = max (flength n) (nbyte + off)" using False by (simp add: max_def)
    ultimately show thesis using that [of st' n] by (simp add: st'_def memcpy_apply [OF dis] memcpy_frame)
  next
    case True
    define h where "h = heap st"
    have W: "heap_inv h" "request_ok h (nbyte + off)"
      "unat (CurrentPointer h) + unat (round_up (nbyte + off)) \<le> unat (HeapMem h) + unat (HeapMemSize h)"
      "disjoint (CurrentPointer h) (round_up (nbyte + off) + 4) buf nbyte"
      using ok sum True by (simp_all add: write_ok_def word_less_nat_alt h_def)
    obtain p m h' where k: "krealloc (heap_magic st) (mem st) h (filePtr n) (nbyte + off) = (p, m, h')"
      by (metis surj_pair)
    have pos: "nbyte + off > 0" using True by (metis word_gt_0 word_not_simps(1))
    note K = krealloc_frame [OF W(1,2) pos W(3) k]
    have p0: "p \<noteq> 0" using K(1) W(1) by (auto simp: heap_inv_def)
    define n' where "n' = n\<lparr>filePtr := p, flength := nbyte + off\<rparr>"
    define st' where "st' = st\<lparr>mem := memcpy m (p + off) buf nbyte, heap := h', nodes := (nodes st)(node \<mapsto> n')\<rparr>"
    have w: "ramfs_write st node buf nbyte off = Some (sint nbyte,
        st\<lparr>mem := m, heap := h', nodes := (nodes st)(node \<mapsto> n'), mem := memcpy m (p + off) buf nbyte\<rparr>)"
      using basic R True k p0 by (simp add: ramfs_write_def deref_def h_def Let_def assign_def n'_def)
    have eq: "st\<lparr>mem := m, heap := h', nodes := (nodes st)(node \<mapsto> n'), mem := memcpy m (p + off) buf nbyte\<rparr> = st'"
      by (rule ramfs.equality) (simp_all add: st'_def)
    have up: "unat (nbyte + off) \<le> unat (round_up (nbyte + off))"
      using W(2) by (intro round_up_bounds) (simp add: request_ok_def)
    have four: "unat (round_up (nbyte + off) + 4) = unat (round_up (nbyte + off)) + 4"
    proof -
      have "unat (round_up (nbyte + off)) \<le> unat (nbyte + off) + 3"
        using W(2) by (intro round_up_bounds) (simp add: request_ok_def)
      moreover have "0 < unat (CurrentPointer h)" using W(1) by (auto simp: heap_inv_def unat_gt_0)
      ultimately have "unat (round_up (nbyte + off)) + 4 < 2 ^ 32" using W(2) unfolding request_ok_def by linarith
      then show ?thesis by (simp add: unat_word_ariths)
    qed
    have dis: "disjoint (p + off) nbyte buf nbyte"
      using W(4) sum up four K(1) by (intro disjoint_sub [where k = "round_up (nbyte + off) + 4"]) simp_all
    have src: "m (buf + i) = mem st (buf + i)" if "i < nbyte" for i
      using K(3) [of "buf + i"] disjointD [of buf nbyte "CurrentPointer h" "round_up (nbyte + off) + 4" "buf + i"]
        W(4) disjoint_sym that by (metis in_region_self)
    have "mem st' (filePtr n' + off + i) = mem st (buf + i)" if "i < nbyte" for i
      using src [OF that] that by (simp add: st'_def n'_def memcpy_apply [OF dis])
    moreover have "regular_at st' node n'" using R by (simp add: regular_at_def st'_def n'_def)
    moreover have "flength n' = max (flength n) (nbyte + off)" using True by (auto simp: n'_def max_def)
    moreover have "\<not> unat nbyte + unat off \<le> unat (flength n)" using True sum by (simp add: word_less_nat_alt)
    ultimately show thesis using that [of st' n'] w eq by metis
  qed
qed

lemma ramfs_read_ok:
  assumes reg: "regular_at st node n" and buf: "buf \<noteq> 0" and range: "unat nbyte + unat off \<le> unat (flength n)"
    and dis: "disjoint buf nbyte (filePtr n + off) nbyte"
  obtains st' where "ramfs_read st node buf nbyte off = Some (sint nbyte, st')"
    "\<And>i. i < nbyte \<Longrightarrow> mem st' (buf + i) = mem st (filePtr n + off + i)" "nodes st' = nodes st"
proof -
  have sum: "unat (nbyte + off) = unat nbyte + unat off"
    using range unat_lt2p [of "flength n"] by (intro unat_add_no_wrap) simp
  have "\<not> nbyte + off > flength n" "\<not> off > flength n" using sum range by (simp_all add: word_less_nat_alt)
  then have "ramfs_read st node buf nbyte off =
      Some (sint nbyte, st\<lparr>mem := memcpy (mem st) buf (filePtr n + off) nbyte\<rparr>)"
    using reg buf by (simp add: ramfs_read_def regular_at_def deref_def)
  then show thesis using that by (simp add: memcpy_apply [OF dis])
qed

text \<open>Reading past the end of a file returns what is left of it.\<close>

lemma ramfs_read_short:
  assumes reg: "regular_at st node n" and buf: "buf \<noteq> 0" and off: "off \<le> flength n"
    and nb: "unat nbyte + unat off < 2 ^ 32" "unat (flength n) < unat nbyte + unat off"
  obtains st' where "ramfs_read st node buf nbyte off = Some (sint (flength n - off), st')" "nodes st' = nodes st"
proof -
  have "unat (nbyte + off) = unat nbyte + unat off" using nb(1) by (intro unat_add_no_wrap) simp
  then have "nbyte + off > flength n" using nb(2) by (simp add: word_less_nat_alt)
  then have "ramfs_read st node buf nbyte off = Some (sint (flength n - off),
      st\<lparr>mem := memcpy (mem st) buf (filePtr n + off) (flength n - off)\<rparr>)"
    using reg buf off by (simp add: ramfs_read_def regular_at_def deref_def Let_def linorder_not_less [symmetric])
  then show thesis using that by simp
qed

lemma fs_io_regular:
  assumes "regular_at st node n"
  shows "fs_write io_dispatch st node buf nbyte off = ramfs_write st node buf nbyte off"
    and "fs_read io_dispatch st node buf nbyte off = ramfs_read st node buf nbyte off"
  using assms by (simp_all add: fs_write_def fs_read_def io_dispatch_def regular_at_def ftype_defs
      vfs_nodeFromSimlink.simps [of st node])

section \<open>Unlinking a file\<close>

lemma ramfs_unlink_loop_prev:
  "chain (nodes st) c (us @ x # vs) \<Longrightarrow> x \<notin> set us \<Longrightarrow>
   ramfs_unlink_loop st x prev c = Some (last (prev # us), x)"
proof (induction us arbitrary: prev c)
  case Nil
  then show ?case by (simp add: ramfs_unlink_loop.simps [of st x prev])
next
  case (Cons a us)
  then obtain n where n: "nodes st a = Some n" "chain (nodes st) (next_node n) (us @ x # vs)" "c = a" "a \<noteq> 0" "a \<noteq> x"
    by (auto split: option.splits)
  then show ?case using Cons.IH [OF n(2)] Cons.prems(2)
    by (simp add: ramfs_unlink_loop.simps [of st x prev] deref_def)
qed

text \<open>
  The recursive release of a node and its followers always returns. (It releases the nodes that
  follow the deleted one too; \<open>kfree\<close> keeps every block, so the nodes survive.)
\<close>

lemma chain_next:
  assumes "chain ns p (us @ x # vs)" and "ns x = Some n"
  shows "next_node n = (case vs of [] \<Rightarrow> 0 | y # _ \<Rightarrow> y)" and "chain ns (next_node n) vs"
  using chain_suffix [OF assms(1)] assms(2) by (auto split: list.splits option.splits)

lemma ramfs_inter_deleteNode_returns:
  assumes inv: "tree_inv st0 K"
  shows "x \<in> set (K p) \<Longrightarrow> (\<And>y. x \<le> y \<Longrightarrow> y \<noteq> root_obj st0 \<Longrightarrow> nodes st y = nodes st0 y) \<Longrightarrow>
    ramfs_inter_deleteNode st x = Some (VFS_T_OK, st)"
proof (induction "2 ^ 32 - unat x" arbitrary: x p rule: less_induct)
  case less
  have live: "x \<in> live st0 K" using less.prems(1) by (rule liveI)
  obtain n where n: "nodes st0 x = Some n" "entry_ok st0 K x n" using live_node [OF inv live] .
  have ord: "x \<noteq> root_obj st0" "sorted_wrt (<) (K p)" "\<And>y. y \<in> set (K x) \<Longrightarrow> x < y"
    using tree_invD(9) [OF inv] less.prems(1) by (auto simp: ordered_def)
  have step: "ramfs_inter_deleteNode st y = Some (VFS_T_OK, st)" if "x < y" "y \<in> set (K q)" for y q
    using that less.prems(2) unat_lt2p [of y]
    by (intro less.hyps [of y q]) (auto simp: word_less_nat_alt word_le_nat_alt)
  have nx: "nodes st x = Some n" using less.prems(2) [of x] n(1) ord(1) by simp
  have kid: "ramfs_inter_deleteNode st (children n) = Some (VFS_T_OK, st)" if "children n \<noteq> 0"
  proof -
    have "chain (nodes st0) (children n) (K x)" "K x \<noteq> []" using n(2) that by (auto simp: entry_ok_def split: if_splits)
    then have "children n \<in> set (K x)" by (cases "K x") auto
    then show ?thesis using step ord(3) by blast
  qed
  have sib: "ramfs_inter_deleteNode st (next_node n) = Some (VFS_T_OK, st)" if nz: "next_node n \<noteq> 0"
  proof -
    obtain us vs where K: "K p = us @ x # vs" using less.prems(1) by (meson split_list)
    have "p \<in> live st0 K" using less.prems(1) tree_invD(5) [OF inv, of p] by force
    then obtain np where "nodes st0 p = Some np" "entry_ok st0 K p np" using live_node [OF inv] by metis
    then have "chain (nodes st0) (children np) (us @ x # vs)"
      using K by (auto simp: entry_ok_def split: if_splits)
    then obtain y ys where "vs = y # ys" "next_node n = y"
      using chain_next(1) [of "nodes st0" _ us x vs n] n(1) nz by (cases vs) auto
    then have "x < next_node n" "next_node n \<in> set (K p)" using ord(2) K by (auto simp: sorted_wrt_append)
    then show ?thesis by (rule step)
  qed
  show ?case
    using nx kid sib by (simp add: ramfs_inter_deleteNode.simps [of st x] deref_def ramfs_deallocNode_def
        split: if_splits)
qed

lemma chain_unlink:
  assumes "chain ns p (us @ x # vs)" and "us \<noteq> []" and "ns x = Some nx" and "ns (last us) = Some nl"
  shows "chain (ns(last us \<mapsto> nl\<lparr>next_node := next_node nx\<rparr>)) p (us @ vs)"
  using assms
proof (induction us arbitrary: p)
  case (Cons a us)
  have dist: "distinct (a # us @ x # vs)" using chain_distinct Cons.prems(1) by fastforce
  show ?case
  proof (cases "us = []")
    case True
    have "chain (ns(a \<mapsto> nl\<lparr>next_node := next_node nx\<rparr>)) (next_node nx) vs = chain ns (next_node nx) vs"
      using dist by (intro chain_cong) auto
    with Cons.prems True chain_next(2) [OF Cons.prems(1,3)] show ?thesis by (auto simp del: fun_upd_apply) simp
  next
    case False
    then have "a \<noteq> last us" using dist by auto
    with Cons False show ?thesis by (auto split: option.splits)
  qed
qed simp

definition unlinked :: "ramfs \<Rightarrow> u32 \<Rightarrow> u32 list \<Rightarrow> ramfs_file_header \<Rightarrow> ramfs" where
  "unlinked st d us nx = st\<lparr>nodes :=
     (if us = [] then (nodes st)(d \<mapsto> (the (nodes st d))\<lparr>children := next_node nx\<rparr>)
      else (nodes st)(last us \<mapsto> (the (nodes st (last us)))\<lparr>next_node := next_node nx\<rparr>))\<rparr>"

lemma tree_inv_unlink:
  assumes inv: "tree_inv st K" and d: "d \<in> live st K" "is_dir st d"
    and K: "K d = us @ x # vs" "us @ vs \<noteq> []" and x: "\<not> is_dir st x" "nodes st x = Some nx"
    and st': "st' = unlinked st d us nx"
  shows "tree_inv st' (K(d := us @ vs))"
proof -
  define K' where "K' = K(d := us @ vs)"
  note D = tree_invD [OF inv]
  have sorted: "sorted_wrt (<) (us @ x # vs)" and xr: "x \<noteq> root_obj st"
    using D(9) [unfolded ordered_def, rule_format, of d] K(1) by auto
  then have x_notin: "x \<notin> set us" "x \<notin> set vs" by (auto simp: sorted_wrt_append)
  have x_once: "x \<in> set (K p) \<longleftrightarrow> p = d" for p using D(6) [of p d] K(1) by auto
  have L: "live st' K' = live st K - {x}"
  proof -
    have "(\<Union>p. set (K' p)) = (\<Union>p. set (K p)) - {x}"
    proof (rule set_eqI)
      fix y
      have "y \<in> set (K' p) \<longleftrightarrow> y \<in> set (K p) \<and> y \<noteq> x" for p
        using x_once [of p] x_notin K(1) by (cases "p = d") (auto simp: K'_def)
      then show "y \<in> (\<Union>p. set (K' p)) \<longleftrightarrow> y \<in> (\<Union>p. set (K p)) - {x}" by auto
    qed
    then show ?thesis using xr by (auto simp: live_def st' unlinked_def)
  qed
  have us_live: "last us \<in> set (K d)" "last us \<in> live st K" if "us \<noteq> []"
    using that K(1) liveI [of "last us" K d] by simp_all
  obtain nd where nd: "nodes st d = Some nd" "entry_ok st K d nd" using live_node [OF inv d(1)] .
  then have chain_d: "chain (nodes st) (children nd) (us @ x # vs)" "ftype nd = FTYPE_DIRECTORY"
    using d(2) K by (auto simp: is_dir_def entry_ok_def)
  have eqs: "map_option next_node (nodes st' y) = map_option next_node (nodes st y)" if "us = [] \<or> y \<noteq> last us" for y
    using that nd(1) by (cases "us = []") (simp_all add: st' unlinked_def)
  have "live_ok st' K' p" if p: "p \<in> live st' K'" for p
  proof -
    have pl: "p \<in> live st K" "p \<noteq> x" using p L by auto
    obtain n where n: "nodes st p = Some n" "entry_ok st K p n" "placed st p"
      using live_node [OF inv pl(1)] by metis
    obtain n' where n': "nodes st' p = Some n'" "ftype n' = ftype n" "find_cb n' = find_cb n"
      "readdir_cb n' = readdir_cb n" "node_ptr n' = node_ptr n"
      "us \<noteq> [] \<or> p \<noteq> d \<Longrightarrow> children n' = children n" "us = [] \<Longrightarrow> p = d \<Longrightarrow> children n' = next_node nx"
      using n(1) by (cases "us = []"; cases "p = d"; cases "p = last us") (auto simp: st' unlinked_def)
    have dir: "is_dir st' y = is_dir st y" if yl: "y \<in> live st K" for y
    proof -
      obtain ny where "nodes st y = Some ny" using live_node [OF inv yl] .
      then show ?thesis by (cases "us = []") (auto simp: is_dir_def st' unlinked_def)
    qed
    have "entry_ok st' K' p n'"
    proof (cases "p = d")
      case True
      have "chain (nodes st') (children n') (us @ vs)"
      proof (cases "us = []")
        case True
        have "chain (nodes st) (next_node nx) vs" using chain_next(2) [OF chain_d(1) x(2)] .
        then show ?thesis using chain_cong [of vs "nodes st'" "nodes st"] eqs True n'(7) \<open>p = d\<close> by simp
      next
        case False
        obtain nl where "nodes st (last us) = Some nl" using live_node [OF inv us_live(2) [OF False]] .
        then show ?thesis
          using chain_unlink [OF chain_d(1) False x(2)] False n'(6) n(1) nd(1) \<open>p = d\<close>
          by (simp add: st' unlinked_def)
      qed
      then show ?thesis using n' n(2) nd chain_d(2) n(1) True K by (simp add: entry_ok_def K'_def)
    next
      case False
      have "chain (nodes st') q (K p) = chain (nodes st) q (K p)" for q
      proof (rule chain_cong)
        fix y assume "y \<in> set (K p)"
        then have "us = [] \<or> y \<noteq> last us" using us_live(1) D(6) [of p d] False by auto
        then show "map_option next_node (nodes st' y) = map_option next_node (nodes st y)" by (rule eqs)
      qed
      moreover have "is_dir st (node_ptr n) \<Longrightarrow> node_ptr n \<noteq> x" using x(1) by auto
      moreover have "K' p = K p" "children n' = children n" using False n'(6) by (simp_all add: K'_def)
      ultimately show ?thesis
        using n(2) n'(2-5) dir by (cases "ftype n = FTYPE_DIRECTORY") (simp_all add: entry_ok_def L)
    qed
    then show ?thesis using n(3) n'(1) by (simp add: live_ok_def placed_def st' unlinked_def)
  qed
  moreover have "K' p = []" if "p \<notin> live st' K'" for p
  proof (cases "p = x")
    case True
    obtain n where "nodes st x = Some n" "entry_ok st K x n" using live_node [OF inv, of x] x_once liveI by metis
    then have "K x = []" using x(1) by (auto simp: entry_ok_def is_dir_def)
    moreover have "x \<noteq> d" using x(1) d(2) by auto
    ultimately show ?thesis using True by (simp add: K'_def)
  next
    case False
    then show ?thesis using that D(5) [of p] d(1) L x d(2) by (auto simp: K'_def)
  qed
  moreover have "set (K' p) \<inter> set (K' q) = {}" if "p \<noteq> q" for p q
    using that D(6) [of p q] K(1) by (auto simp: K'_def)
  moreover have "ordered st' K'"
  proof -
    have "sorted_wrt (<) (us @ vs)" "\<forall>y\<in>set (us @ vs). y \<noteq> root_obj st \<and> (d \<noteq> root_obj st \<longrightarrow> d < y)"
      using D(9) [unfolded ordered_def, rule_format, of d] K(1) by (auto simp: sorted_wrt_append)
    then show ?thesis using D(9) by (simp add: ordered_def K'_def st' unlinked_def)
  qed
  moreover have "heap_ok st'" "fs_root st' = root_obj st'" "is_dir st' (root_obj st')"
  proof -
    obtain nr where "nodes st (root_obj st) = Some nr" using live_node [OF inv root_live] .
    then show "is_dir st' (root_obj st')" using D(3) by (cases "us = []") (auto simp: is_dir_def st' unlinked_def)
  qed (use D(1,2) in \<open>simp_all add: heap_ok_def st' unlinked_def\<close>)
  ultimately show ?thesis by (simp add: tree_inv_def K'_def)
qed

lemma ramfs_deleteNode_ok:
  assumes inv: "tree_inv st K" and path: "is_cstr path s" "length s < 128" "hd s = slash"
    and split: "strip_slash s = dp @ slash # f" and f: "slash \<notin> set f" "f \<noteq> []"
    and d: "vfs_walk find_dispatch st (fs_root st) (tokens slash dp) = Some d" "d \<noteq> 0" "is_dir st d"
    and x: "x = pick st (str_view f) (K d)" "x \<noteq> 0" "nodes st x = Some nx"
    and K: "K d = us @ x # vs"
  shows "ramfs_deleteNode stk pp0 st path = Some (VFS_T_OK, unlinked st d us nx)"
proof -
  have ne: "s \<noteq> []" using split by (auto simp: strip_slash_def)
  obtain pp where pp: "fs_getParentPath stk stk path pp0 = Some (VFS_T_OK, pp)"
    "is_cstr pp (if dp = [] then [slash] else dp)"
    using fs_getParentPath_split [OF path(1,2) split f] by metis
  define ds where "ds = (if dp = [] then [slash] else dp)"
  obtain t where "s = dp @ slash # f @ t" using strip_slash_prefix [of s] by (metis split append_assoc append_Cons)
  then have len: "length dp < length s" "dp \<noteq> [] \<Longrightarrow> hd dp = hd s" by auto
  have abs: "abs_path pp ds" "tokens slash ds = tokens slash dp"
    using pp(2) len path(2,3) ne by (auto simp: abs_path_def ds_def neq_Nil_conv)
  have par: "parent_ok st K pp ds d" using inv abs d by (simp add: parent_ok_def)
  note P = parent_okD [OF par]
  have tok: "tokens slash s = tokens slash dp @ [f]"
    using tokens_strip_slash [of s] by (simp add: split tokens_append tokens_single f del: tokens_strip_slash)
  have node: "ramfs_get_node stk st path = Some x"
    using ramfs_get_node_walk [OF inv path(1) _ ne path(3), of stk] path(2) d(1,2) P(6) x tree_invD(8) [OF inv]
    by (simp add: tok vfs_walk_append)
  obtain nd where nd: "nodes st d = Some nd" "entry_ok st K d nd" using live_node [OF inv P(3)] .
  then have ch: "chain (nodes st) (children nd) (us @ x # vs)" using d(3) K by (auto simp: is_dir_def entry_ok_def)
  have srt: "sorted_wrt (<) (us @ x # vs)" using tree_invD(9) [OF inv, unfolded ordered_def, rule_format, of d] K by auto
  have del: "ramfs_inter_deleteNode (unlinked st d us nx) x = Some (VFS_T_OK, unlinked st d us nx)"
  proof (rule ramfs_inter_deleteNode_returns [OF inv, of x d])
    fix y assume y: "x \<le> y" "y \<noteq> root_obj st"
    have "d < x \<or> d = root_obj st" using tree_invD(9) [OF inv, unfolded ordered_def, rule_format, of d] K by auto
    then have "y \<noteq> d" using y by auto
    moreover have "y \<noteq> last us" if "us \<noteq> []"
    proof -
      have "last us < x" using srt last_in_set [OF that] by (simp add: sorted_wrt_append)
      then show ?thesis using y(1) by auto
    qed
    ultimately show "nodes (unlinked st d us nx) y = nodes st y" by (simp add: unlinked_def)
  qed (simp add: K)
  show ?thesis
  proof (cases us)
    case Nil
    then have "children nd = x" using ch by (auto split: option.splits)
    then show ?thesis
      using pp(1) P(2,7) node nd(1) x del Nil
      by (simp add: ramfs_deleteNode_def VFS_T_OK_def deref_def assign_def unlinked_def)
  next
    case (Cons a us')
    then obtain na where na: "children nd = a" "nodes st a = Some na" "a \<noteq> x" "a \<noteq> 0"
      "chain (nodes st) (next_node na) (us' @ x # vs)"
      using ch srt by (auto split: option.splits)
    have "x \<notin> set us'" using srt Cons by (auto simp: sorted_wrt_append)
    then have loop: "ramfs_unlink_loop st x a (next_node na) = Some (last us, x)"
      using ramfs_unlink_loop_prev [OF na(5), of a] Cons by simp
    obtain nl where "nodes st (last us) = Some nl"
      using chain_mem [OF ch, of "last us"] Cons by fastforce
    then show ?thesis
      using pp(1) P(2,7) node nd(1) x del Cons na loop
      by (simp add: ramfs_deleteNode_def VFS_T_OK_def deref_def assign_def unlinked_def)
  qed
qed

end
