(* ===== verification/Props_Fs.thy ===== *)
theory Props_Fs
  imports Coresys_Ramfs_Files
begin

text \<open>
  The properties of the file system layers (vfs.c, ramfs.c), each with an application to a
  concrete file system: the one that \<open>ramfs_init\<close> builds in an empty heap of 64 KiB.
\<close>

section \<open>A mounted file system\<close>

definition demo_boot :: ramfs where
  "demo_boot = \<lparr>nodes = (\<lambda>_. None)(0x200 \<mapsto> zero_node), fs_root = 0, last_ino = 0, root_obj = 0x200,
     initrd_base = 0, nullNodeFile = 0, mem = (\<lambda>a. ucast a), heap = InitKernelHeap 0x1000 0x10000,
     heap_magic = 0x12345678\<rparr>"

definition demo_fs :: ramfs where
  "demo_fs = snd (the (ramfs_init demo_boot))"

definition demo_kids :: "u32 \<Rightarrow> u32 list" where
  "demo_kids = (\<lambda>p. if p = 0x200 then [0x1000, 0x10C8] else [])"

definition demo_stk :: bytes where
  "demo_stk = (\<lambda>_. 0)"

lemma demo_heap: "heap demo_boot = \<lparr>HeapMem = 0x1000, HeapMemSize = 0x10000, CurrentPointer = 0x1000\<rparr>"
  by code_simp

lemma demo_boot_ok:
  "heap_ok demo_boot" "has_room demo_boot 2" "nodes demo_boot (root_obj demo_boot) = Some zero_node"
  "children zero_node = 0" "root_obj demo_boot = 0x200"
  unfolding heap_ok_def has_room_def heap_inv_def demo_heap
  by (simp_all add: demo_boot_def zero_node_def)

lemma demo_inv: "tree_inv demo_fs demo_kids"
proof -
  obtain st where "ramfs_init demo_boot = Some (VFS_T_OK, st)"
    "tree_inv st (\<lambda>p. if p = root_obj demo_boot then [0x1000, 0x1000 + 200] else [])"
    by (rule ramfs_init_ok [OF demo_boot_ok(1-4), where q = "0x1000" and r = "0x1000 + 200"]) (simp_all add: demo_heap)
  then show ?thesis by (simp add: demo_fs_def demo_kids_def demo_boot_ok(5) cong: if_cong)
qed

lemma demo_root: "fs_root demo_fs = 0x200" "root_obj demo_fs = 0x200" "is_dir demo_fs 0x200"
  by code_simp+

lemma demo_parent: "parent_ok demo_fs demo_kids (cstr ''/'') [slash] 0x200"
  using demo_inv demo_root tokens_delim [of slash "[]"]
  by (simp add: parent_ok_def abs_path_def cstr_def slash_def)

lemma demo_name: "valid_name (cstr ''a'') [97]"
  by (simp add: valid_name_def cstr_def slash_def)

lemma demo_absent: "pick demo_fs (str_view [97]) (demo_kids 0x200) = 0"
  by code_simp

lemma demo_present: "pick demo_fs (str_view [0x2E]) (demo_kids 0x200) = 0x1000"
  by code_simp

lemma demo_fs_heap: "heap demo_fs = \<lparr>HeapMem = 0x1000, HeapMemSize = 0x10000, CurrentPointer = 0x1190\<rparr>"
  by code_simp

lemma demo_room: "has_room demo_fs 3" "has_room demo_fs 1"
  by (simp_all add: has_room_def demo_fs_heap)

section \<open>Creating files and directories\<close>

lemma walk_extends_root:
  assumes "tree_inv st K" and "tree_inv st' K'" and "extends st K st' K'"
    and "vfs_walk find_dispatch st (fs_root st) ts = Some r" and "r \<noteq> 0"
  shows "vfs_walk find_dispatch st' (fs_root st') ts = Some r"
  using walk_extends [OF assms(1-3) tree_invD(7) [OF assms(1)] assms(4,5)] assms(3)
  by (simp add: extends_def)

text \<open>
  C1. Creating a regular file. In a well-formed file system, when the parent path leads to a
  directory that has no entry of that name and the heap has room, \<open>ramfs_newRegFile\<close> succeeds: the
  state stays well formed, the directory gains exactly the new entry at its end, the new node is
  an empty regular file with a fresh inode number, the path of the file resolves to it, and every
  path that resolved before still resolves to the same node.
\<close>

theorem newRegFile_creates:
  assumes "parent_ok st K path s d" and "valid_name fileName f"
    and "pick st (str_view f) (K d) = 0" and "has_room st 1"
  shows "\<exists>p st'. ramfs_newRegFile stk st fileName path = Some (p, VFS_T_OK, st') \<and> p \<noteq> 0 \<and>
    tree_inv st' (K(d := K d @ [p])) \<and> nodes st' p = Some (reg_file_node fileName (last_ino st)) \<and>
    vfs_walk find_dispatch st' (fs_root st') (tokens slash s @ [f]) = Some p \<and>
    (\<forall>ts r. vfs_walk find_dispatch st (fs_root st) ts = Some r \<and> r \<noteq> 0 \<longrightarrow>
       vfs_walk find_dispatch st' (fs_root st') ts = Some r)"
proof -
  obtain st' where A: "ramfs_newRegFile stk st fileName path = Some (CurrentPointer (heap st), VFS_T_OK, st')"
    "tree_inv st' (K(d := K d @ [CurrentPointer (heap st)]))"
    "extends st K st' (K(d := K d @ [CurrentPointer (heap st)]))" "CurrentPointer (heap st) \<noteq> 0"
    "nodes st' (CurrentPointer (heap st)) = Some (reg_file_node fileName (last_ino st))"
    "vfs_walk find_dispatch st' (fs_root st') (tokens slash s @ [f]) = Some (CurrentPointer (heap st))"
    by (rule ramfs_newRegFile_ok [OF assms refl refl])
  then show ?thesis using walk_extends_root [OF parent_okD(1) [OF assms(1)] A(2,3)] by blast
qed

theorem newRegFile_creates_witness:
  "\<exists>p st'. ramfs_newRegFile demo_stk demo_fs (cstr ''a'') (cstr ''/'') = Some (p, VFS_T_OK, st') \<and>
     vfs_walk find_dispatch st' (fs_root st') [[97]] = Some p"
  using newRegFile_creates [OF demo_parent demo_name demo_absent demo_room(2), of demo_stk]
    tokens_delim [of slash "[]"] by auto

text \<open>
  C2. Creating a directory. Under the same conditions and with room for three nodes,
  \<open>ramfs_mkDir\<close> succeeds: the state stays well formed, the parent gains the new directory at its
  end, the new directory has exactly two entries, a link to itself and a link to its parent, the
  path of the directory resolves to it, and every path that resolved before still does.
\<close>

theorem mkDir_creates:
  assumes "parent_ok st K path s d" and "valid_name dirName f"
    and "pick st (str_view f) (K d) = 0" and "has_room st 3"
  shows "\<exists>p q r st'. ramfs_mkDir stk st dirName path = Some (p, VFS_T_OK, st') \<and> p \<noteq> 0 \<and> is_dir st' p \<and>
    tree_inv st' (K(d := K d @ [p], p := [q, r])) \<and> target st' q = p \<and> target st' r = d \<and>
    vfs_walk find_dispatch st' (fs_root st') (tokens slash s @ [f]) = Some p \<and>
    (\<forall>ts x. vfs_walk find_dispatch st (fs_root st) ts = Some x \<and> x \<noteq> 0 \<longrightarrow>
       vfs_walk find_dispatch st' (fs_root st') ts = Some x)"
proof -
  obtain st' q r where A: "ramfs_mkDir stk st dirName path = Some (CurrentPointer (heap st), VFS_T_OK, st')"
    "tree_inv st' (K(d := K d @ [CurrentPointer (heap st)], CurrentPointer (heap st) := [q, r]))"
    "extends st K st' (K(d := K d @ [CurrentPointer (heap st)], CurrentPointer (heap st) := [q, r]))"
    "CurrentPointer (heap st) \<noteq> 0" "is_dir st' (CurrentPointer (heap st))"
    "target st' q = CurrentPointer (heap st)" "target st' r = d"
    "vfs_walk find_dispatch st' (fs_root st') (tokens slash s @ [f]) = Some (CurrentPointer (heap st))"
    by (rule ramfs_mkDir_ok [OF assms refl])
  then show ?thesis using walk_extends_root [OF parent_okD(1) [OF assms(1)] A(2,3)] by blast
qed

theorem mkDir_creates_witness:
  "\<exists>p st'. ramfs_mkDir demo_stk demo_fs (cstr ''a'') (cstr ''/'') = Some (p, VFS_T_OK, st') \<and>
     is_dir st' p \<and> vfs_walk find_dispatch st' (fs_root st') [[97]] = Some p"
  using mkDir_creates [OF demo_parent demo_name demo_absent demo_room(1), of demo_stk]
    tokens_delim [of slash "[]"] by auto

text \<open>
  C3. A name that is taken is refused: both creating operations report
  \<open>RFS_FILE_ALREADY_EXISTS\<close>, return NULL and leave the whole state as it was.
\<close>

theorem create_existing_refused:
  assumes "parent_ok st K path s d" and "valid_name v f" and "pick st (str_view f) (K d) \<noteq> 0"
  shows "ramfs_newRegFile stk st v path = Some (0, RFS_FILE_ALREADY_EXISTS, st) \<and>
    ramfs_mkDir stk st v path = Some (0, RFS_FILE_ALREADY_EXISTS, st)"
  using ramfs_newRegFile_exists [OF assms] ramfs_mkDir_exists [OF assms] by simp

definition demo_fs_a :: ramfs where
  "demo_fs_a = snd (snd (the (ramfs_newRegFile demo_stk demo_fs (cstr ''a'') (cstr ''/''))))"

definition demo_kids_a :: "u32 \<Rightarrow> u32 list" where
  "demo_kids_a = demo_kids(0x200 := demo_kids 0x200 @ [0x1190])"

lemma demo_a:
  "tree_inv demo_fs_a demo_kids_a" "nodes demo_fs_a 0x1190 = Some (reg_file_node (cstr ''a'') (last_ino demo_fs))"
proof -
  have p: "0x1190 = CurrentPointer (heap demo_fs)" by (simp add: demo_fs_heap)
  obtain st' where "ramfs_newRegFile demo_stk demo_fs (cstr ''a'') (cstr ''/'') = Some (0x1190, VFS_T_OK, st')"
    "tree_inv st' demo_kids_a" "nodes st' 0x1190 = Some (reg_file_node (cstr ''a'') (last_ino demo_fs))"
    by (rule ramfs_newRegFile_ok [OF demo_parent demo_name demo_absent demo_room(2) p demo_kids_a_def])
  then show "tree_inv demo_fs_a demo_kids_a"
    "nodes demo_fs_a 0x1190 = Some (reg_file_node (cstr ''a'') (last_ino demo_fs))"
    by (simp_all add: demo_fs_a_def)
qed

lemma demo_a_root: "fs_root demo_fs_a = 0x200" "root_obj demo_fs_a = 0x200" "is_dir demo_fs_a 0x200"
  by code_simp+

lemma demo_a_parent: "parent_ok demo_fs_a demo_kids_a (cstr ''/'') [slash] 0x200"
  using demo_a(1) demo_a_root tokens_delim [of slash "[]"]
  by (simp add: parent_ok_def abs_path_def cstr_def slash_def)

lemma demo_a_present: "pick demo_fs_a (str_view [97]) (demo_kids_a 0x200) = 0x1190"
  by code_simp

theorem create_existing_refused_witness:
  "ramfs_newRegFile demo_stk demo_fs_a (cstr ''a'') (cstr ''/'') = Some (0, RFS_FILE_ALREADY_EXISTS, demo_fs_a)"
  using create_existing_refused [OF demo_a_parent demo_name, of demo_stk] demo_a_present by simp





section \<open>Path resolution and mounting\<close>

text \<open>
  C5. Path resolution. In a well-formed file system, \<open>fs_get_node\<close> on an absolute path of fewer
  than \<open>MAX_PATH\<close> characters always returns; its result is that of looking up the components of
  the path one after the other from the root, and is NULL or a node of the file system.
\<close>

theorem path_resolution:
  assumes "tree_inv st K" and "abs_path path s"
  shows "\<exists>r. fs_get_node find_dispatch stk st 0 path = Some r \<and>
    vfs_walk find_dispatch st (fs_root st) (tokens slash s) = Some r \<and> (r = 0 \<or> r \<in> live st K)"
  using ramfs_get_node_walk [OF assms(1), of path s stk] assms(2)
    vfs_walk_live [OF assms(1) tree_invD(7) [OF assms(1)], of "tokens slash s"]
  by (auto simp: abs_path_def ramfs_get_node_def)

theorem path_resolution_witness:
  "\<exists>r. fs_get_node find_dispatch demo_stk demo_fs 0 (cstr ''/.'') = Some r \<and> r \<in> {0} \<union> live demo_fs demo_kids"
proof -
  have "abs_path (cstr ''/.'') [slash, 0x2E]" by (simp add: abs_path_def cstr_def slash_def)
  from path_resolution [OF demo_inv this, of demo_stk] show ?thesis by auto
qed

text \<open>
  Mounting. On a heap with room for two nodes and a root structure without entries,
  \<open>ramfs_init\<close> succeeds and builds a well-formed file system whose root holds exactly its two
  links.
\<close>

lemma mount_root:
  assumes "heap_ok st" and "has_room st 2" and "nodes st (root_obj st) = Some n" and "children n = 0"
  shows "\<exists>st' q r. ramfs_init st = Some (VFS_T_OK, st') \<and>
    tree_inv st' (\<lambda>p. if p = root_obj st then [q, r] else [])"
  using ramfs_init_ok [OF assms refl refl] by metis

lemma mount_root_witness:
  "\<exists>st' q r. ramfs_init demo_boot = Some (VFS_T_OK, st') \<and>
     tree_inv st' (\<lambda>p. if p = root_obj demo_boot then [q, r] else [])"
  by (rule mount_root [OF demo_boot_ok(1-4)])

section \<open>Contents, directories and deletion\<close>

text \<open>
  C8. Write and read. A write through \<open>fs_write\<close> that starts inside a regular file and does not
  wrap around succeeds, in place or by moving the file to a larger block; the length becomes the
  maximum of the old length and the end of the write, and reading the range back through
  \<open>fs_read\<close>, into any buffer that does not overlap it, delivers the bytes that were written.
\<close>

theorem write_read_roundtrip:
  assumes "regular_at st node n" and "write_ok st n buf nbyte off"
  shows "\<exists>st' n'. fs_write io_dispatch st node buf nbyte off = Some (sint nbyte, st') \<and>
    regular_at st' node n' \<and> flength n' = max (flength n) (nbyte + off) \<and>
    (\<forall>dst. dst \<noteq> 0 \<and> disjoint dst nbyte (filePtr n' + off) nbyte \<longrightarrow>
       (\<exists>st''. fs_read io_dispatch st' node dst nbyte off = Some (sint nbyte, st'') \<and>
          (\<forall>i<nbyte. mem st'' (dst + i) = mem st (buf + i))))"
proof -
  obtain st' n' where W: "ramfs_write st node buf nbyte off = Some (sint nbyte, st')" "regular_at st' node n'"
    "flength n' = max (flength n) (nbyte + off)"
    "\<And>i. i < nbyte \<Longrightarrow> mem st' (filePtr n' + off + i) = mem st (buf + i)"
    using ramfs_write_ok [OF assms] by metis
  have "unat (nbyte + off) = unat nbyte + unat off"
    using assms(2) by (intro unat_add_no_wrap) (simp add: write_ok_def)
  moreover have "unat (nbyte + off) \<le> unat (flength n')" unfolding W(3) by (simp add: word_le_nat_alt [symmetric])
  ultimately have range: "unat nbyte + unat off \<le> unat (flength n')" by simp
  have "\<exists>st''. fs_read io_dispatch st' node dst nbyte off = Some (sint nbyte, st'') \<and>
          (\<forall>i<nbyte. mem st'' (dst + i) = mem st (buf + i))"
    if dst: "dst \<noteq> 0 \<and> disjoint dst nbyte (filePtr n' + off) nbyte" for dst
  proof -
    obtain st'' where "ramfs_read st' node dst nbyte off = Some (sint nbyte, st'')"
      "\<And>i. i < nbyte \<Longrightarrow> mem st'' (dst + i) = mem st' (filePtr n' + off + i)"
      using ramfs_read_ok [OF W(2) _ range, of dst] dst by metis
    then show ?thesis using W(4) fs_io_regular(2) [OF W(2)] by auto
  qed
  then show ?thesis using W(1-3) fs_io_regular(1) [OF assms(1)] by auto
qed

lemma demo_a_heap: "heap demo_fs_a = \<lparr>HeapMem = 0x1000, HeapMemSize = 0x10000, CurrentPointer = 0x1258\<rparr>"
  by code_simp

lemma demo_a_regular: "regular_at demo_fs_a 0x1190 (reg_file_node (cstr ''a'') (last_ino demo_fs))"
  using demo_a(2) by (simp add: regular_at_def reg_file_node_def)

lemma demo_a_write: "write_ok demo_fs_a (reg_file_node (cstr ''a'') (last_ino demo_fs)) 0x100 5 0"
proof -
  have "round_up 5 = 8" by code_simp
  then have "disjoint 0x1258 (round_up 5 + 4) 0x100 5"
    unfolding disjoint_sym [of "0x1258"] by (intro disjointI) (simp_all add: fits_def)
  then show ?thesis
    by (simp add: write_ok_def demo_a_heap heap_inv_def request_ok_def reg_file_node_def zero_node_def \<open>round_up 5 = 8\<close>)
qed

theorem write_read_roundtrip_witness:
  "\<exists>st' n'. fs_write io_dispatch demo_fs_a 0x1190 0x100 5 0 = Some (5, st') \<and> regular_at st' 0x1190 n' \<and> flength n' = 5"
  using write_read_roundtrip [OF demo_a_regular demo_a_write]
  by (auto simp: reg_file_node_def zero_node_def)

text \<open>
  C9. Reading a directory. \<open>ramfs_readdir\<close> on a directory of a well-formed file system returns
  for every index: the entry with that position in the directory (its inode, type, name and
  record length), or success without an entry when the index is past the last one.
\<close>

theorem readdir_enumerates:
  assumes "tree_inv st K" and "d \<in> live st K" and "is_dir st d"
  shows "if unat index < length (K d)
    then \<exists>n. nodes st (K d ! unat index) = Some n \<and>
      ramfs_readdir st d index entry = Some (VFS_T_OK, Some (dirent_of n entry), dirent_of n entry)
    else ramfs_readdir st d index entry = Some (VFS_T_OK, None, entry)"
proof (cases "unat index < length (K d)")
  case True
  then have "K d ! unat index \<in> live st K" by (intro liveI [of _ K d]) simp
  then obtain n where "nodes st (K d ! unat index) = Some n" using live_node [OF assms(1)] by metis
  then show ?thesis using True ramfs_readdir_nth [OF assms, of index entry] by simp
qed (use ramfs_readdir_nth [OF assms, of index entry] in simp)

definition demo_entry :: dirent where
  "demo_entry = \<lparr>d_ino = 0, d_reclen = 0, d_type = 0, d_name = (\<lambda>_. 0)\<rparr>"

theorem readdir_enumerates_witness:
  "ramfs_readdir demo_fs_a 0x200 3 demo_entry = Some (VFS_T_OK, None, demo_entry) \<and>
   (\<exists>n. nodes demo_fs_a 0x1190 = Some n \<and>
      ramfs_readdir demo_fs_a 0x200 2 demo_entry = Some (VFS_T_OK, Some (dirent_of n demo_entry), dirent_of n demo_entry))"
  using readdir_enumerates [OF demo_a(1) parent_okD(3) [OF demo_a_parent] demo_a_root(3), of 2 demo_entry]
    readdir_enumerates [OF demo_a(1) parent_okD(3) [OF demo_a_parent] demo_a_root(3), of 3 demo_entry]
  by (simp add: demo_kids_a_def demo_kids_def)

text \<open>
  C10. Deleting a file. When the parent of an absolute path (shorter than \<open>MAX_FNAME\<close>) is a
  directory \<open>d\<close> and its last component names an entry \<open>x\<close> of it that is not a directory,
  \<open>ramfs_deleteNode\<close> returns (its recursive release ends) with success, the entries of \<open>d\<close> lose
  exactly \<open>x\<close>, and the file system stays well formed.
\<close>

theorem deleteNode_unlinks:
  assumes "tree_inv st K" and "is_cstr path s" and "length s < 128" and "hd s = slash"
    and "strip_slash s = dp @ slash # f" and "slash \<notin> set f" and "f \<noteq> []"
    and "vfs_walk find_dispatch st (fs_root st) (tokens slash dp) = Some d" and "d \<noteq> 0" and "is_dir st d"
    and "x = pick st (str_view f) (K d)" and "x \<noteq> 0" and "\<not> is_dir st x"
    and "K d = us @ x # vs" and "us @ vs \<noteq> []"
  shows "\<exists>st'. ramfs_deleteNode stk pp0 st path = Some (VFS_T_OK, st') \<and> tree_inv st' (K(d := us @ vs))"
proof -
  have dl: "d \<in> live st K"
    using vfs_walk_live [OF assms(1) tree_invD(7) [OF assms(1)], of "tokens slash dp"] assms(8,9) by simp
  have "x \<in> live st K" using assms(14) by (intro liveI [of _ K d]) simp
  then obtain nx where nx: "nodes st x = Some nx" using live_node [OF assms(1)] by metis
  then show ?thesis
    using ramfs_deleteNode_ok [OF assms(1-12) nx assms(14), of stk pp0]
      tree_inv_unlink [OF assms(1) dl assms(10,14,15,13) nx refl] by blast
qed

theorem deleteNode_unlinks_witness:
  "\<exists>st'. ramfs_deleteNode demo_stk demo_stk demo_fs_a (cstr ''/a'') = Some (VFS_T_OK, st') \<and>
     tree_inv st' (demo_kids_a(0x200 := [0x1000, 0x10C8]))"
proof -
  have "strip_slash [slash, 97] = [] @ slash # [97]" "is_cstr (cstr ''/a'') [slash, 97]" "slash \<notin> set [97]"
    by (simp_all add: strip_slash_def slash_def cstr_def)
  moreover have "\<not> is_dir demo_fs_a 0x1190" by code_simp
  moreover have "demo_kids_a 0x200 = [0x1000, 0x10C8] @ 0x1190 # []" by (simp add: demo_kids_a_def demo_kids_def)
  ultimately show ?thesis
    using deleteNode_unlinks [OF demo_a(1), of "cstr ''/a''" "[slash, 97]" "[]" "[97]" "0x200" "0x1190"
        "[0x1000, 0x10C8]" "[]" demo_stk demo_stk] demo_a_root demo_a_present by simp
qed

section \<open>Path utilities\<close>

text \<open>
  Parent paths. For a path of fewer than \<open>MAX_FNAME\<close> characters that is, apart from one
  trailing slash, a prefix, a slash and a last component, \<open>fs_getParentPath\<close> succeeds and
  delivers the prefix, or the root path when the prefix is empty.
\<close>

lemma getParentPath_prefix:
  assumes "is_cstr path s" and "length s < 128" and "strip_slash s = d @ slash # f"
    and "slash \<notin> set f" and "f \<noteq> []"
  shows "\<exists>pp. fs_getParentPath stk stk' path parentPath = Some (VFS_T_OK, pp) \<and>
    is_cstr pp (if d = [] then [slash] else d)"
  by (rule fs_getParentPath_split [OF assms])

lemma getParentPath_prefix_witness:
  "\<exists>pp. fs_getParentPath demo_stk demo_stk (cstr ''/a/b/'') demo_stk = Some (VFS_T_OK, pp) \<and>
     is_cstr pp [slash, 97]"
  using getParentPath_prefix [of "cstr ''/a/b/''" "[slash, 97, slash, 98, slash]" "[slash, 97]" "[98]" demo_stk demo_stk demo_stk]
  by (simp add: cstr_def slash_def strip_slash_def)

text \<open>
  File names. A name of at most \<open>MAX_FNAME\<close> characters passes \<open>fs_checkFileName\<close> exactly
  when it is not one of the two reserved names and contains no slash.
\<close>

lemma checkFileName_accepts:
  assumes "is_cstr fileName s" and "length s \<le> 128"
  shows "fst (fs_checkFileName fileName) = VFS_T_OK \<longleftrightarrow> s \<noteq> [0x2E] \<and> s \<noteq> [0x2E, 0x2E] \<and> slash \<notin> set s"
  by (rule fs_checkFileName_iff [OF assms])

lemma checkFileName_accepts_witness: "fst (fs_checkFileName (cstr ''...'')) = VFS_T_OK"
  using checkFileName_accepts [of "cstr ''...''" "[0x2E, 0x2E, 0x2E]"] by (simp add: cstr_def slash_def)

end
