(* ===== verification/Coresys_Timer.thy ===== *)
theory Coresys_Timer
  imports Prelude
begin

text \<open>
  The software timers of timer.c over the kernel data of kernel.h: the tick handler, the timer
  services, and the execution of services against ticks. The services are modelled twice: as a
  whole (one function per service) and, for SetTimer, access by access, because the tick interrupt
  can fall between two accesses.
\<close>

section \<open>State and services\<close>

record timer_block =
  Started :: bool
  Expired :: bool
  CountDown :: u32

record os_data =
  timestamp :: u64
  SysTickPeriod_ms :: u64
  SysTime_ms :: u64
  TimeSliceTimer :: timer_block
  TimerBlocks :: "timer_block list"

definition OS_TIMERS_N :: u16 where "OS_TIMERS_N = 20"
definition OS_TIME_SLICE :: u32 where "OS_TIME_SLICE = 20"
definition SYS_TICK_MAX_HZ :: u32 where "SYS_TICK_MAX_HZ = 1000"
definition SYS_TICK_FREQ_HZ :: u32 where "SYS_TICK_FREQ_HZ = 1000"
definition SYS_TICK_INCREMENT_MS :: u32 where
  "SYS_TICK_INCREMENT_MS = SYS_TICK_MAX_HZ div SYS_TICK_FREQ_HZ"

definition set_block :: "nat \<Rightarrow> timer_block \<Rightarrow> os_data \<Rightarrow> os_data" where
  "set_block i b os = os\<lparr>TimerBlocks := (TimerBlocks os)[i := b]\<rparr>"

definition InitKernelTimers :: "os_data \<Rightarrow> os_data" where
  "InitKernelTimers os =
     (let os1 = os\<lparr>TimeSliceTimer := (TimeSliceTimer os)\<lparr>CountDown := OS_TIME_SLICE\<rparr>\<rparr>;
          os2 = for_upto 0 OS_TIMERS_N
            (\<lambda>i os. set_block (unat i) ((TimerBlocks os ! unat i)\<lparr>CountDown := 0\<rparr>) os) os1
      in os2\<lparr>SysTime_ms := 0\<rparr>)"

text \<open>One timer at a tick: the body of the loop of the handler.\<close>

definition tick_block :: "timer_block \<Rightarrow> timer_block" where
  "tick_block b =
     (if CountDown b > 0 \<and> Started b
      then if SYS_TICK_INCREMENT_MS \<ge> CountDown b then b\<lparr>CountDown := 0\<rparr>
           else b\<lparr>CountDown := CountDown b - SYS_TICK_INCREMENT_MS\<rparr>
      else b)"

definition tick_slice :: "timer_block \<Rightarrow> timer_block" where
  "tick_slice b =
     (if SYS_TICK_INCREMENT_MS \<ge> CountDown b then b\<lparr>CountDown := OS_TIME_SLICE\<rparr>
      else b\<lparr>CountDown := CountDown b - SYS_TICK_INCREMENT_MS\<rparr>)"

definition SysTickFun :: "u64 \<Rightarrow> os_data \<Rightarrow> os_data" where
  "SysTickFun counter os =
     (let os1 = os\<lparr>SysTime_ms := counter\<rparr>;
          os2 = (if SysTime_ms os1 mod 1000 = 0 then os1\<lparr>timestamp := timestamp os1 + 1\<rparr> else os1);
          os3 = os2\<lparr>TimeSliceTimer := tick_slice (TimeSliceTimer os2)\<rparr>
      in for_upto 0 OS_TIMERS_N (\<lambda>i os. set_block (unat i) (tick_block (TimerBlocks os ! unat i)) os) os3)"

text \<open>The services index the array without a check: an index past its end is no behaviour.\<close>

definition SetTimer :: "u16 \<Rightarrow> u64 \<Rightarrow> os_data \<Rightarrow> (bool \<times> os_data) option" where
  "SetTimer index countDown os =
     (let i = unat index in
      if i < length (TimerBlocks os) then
        let b = TimerBlocks os ! i in
        if \<not> Started b \<or> CountDown b = 0
        then Some (True, set_block i (b\<lparr>CountDown := ucast countDown, Started := False\<rparr>) os)
        else Some (False, os)
      else None)"

definition StartTimer :: "u16 \<Rightarrow> os_data \<Rightarrow> (bool \<times> os_data) option" where
  "StartTimer index os =
     (let i = unat index in
      if i < length (TimerBlocks os) then
        let b = TimerBlocks os ! i in
        if \<not> Started b \<and> CountDown b > 0
        then Some (True, set_block i (b\<lparr>Started := True\<rparr>) os)
        else Some (False, os)
      else None)"

definition SetTimerStart :: "u16 \<Rightarrow> u64 \<Rightarrow> os_data \<Rightarrow> (bool \<times> os_data) option" where
  "SetTimerStart index countDown os =
     (case SetTimer index countDown os of
        None \<Rightarrow> None
      | Some (r, os') \<Rightarrow> if r then StartTimer index os' else Some (False, os'))"

definition TimerExpired :: "u16 \<Rightarrow> os_data \<Rightarrow> bool option" where
  "TimerExpired index os =
     (if unat index < length (TimerBlocks os) then Some (CountDown (TimerBlocks os ! unat index) = 0) else None)"

definition GetTimerCount :: "u16 \<Rightarrow> os_data \<Rightarrow> u32 option" where
  "GetTimerCount index os =
     (if unat index < length (TimerBlocks os) then Some (CountDown (TimerBlocks os ! unat index)) else None)"

section \<open>The tick handler\<close>

definition timers_inv :: "os_data \<Rightarrow> bool" where
  "timers_inv os \<longleftrightarrow> length (TimerBlocks os) = unat OS_TIMERS_N \<and>
     0 < CountDown (TimeSliceTimer os) \<and> CountDown (TimeSliceTimer os) \<le> OS_TIME_SLICE"

lemmas timer_consts = OS_TIMERS_N_def OS_TIME_SLICE_def SYS_TICK_MAX_HZ_def SYS_TICK_FREQ_HZ_def
  SYS_TICK_INCREMENT_MS_def

lemma tick_increment [simp]: "SYS_TICK_INCREMENT_MS = 1"
  by (simp add: timer_consts)

text \<open>A loop that rewrites every slot of an array is a map over it.\<close>

lemma fold_update_map:
  "n \<le> length xs \<Longrightarrow>
   fold (\<lambda>k xs. xs[k := f (xs ! k)]) [0..<n] xs = map f (take n xs) @ drop n xs"
proof (induction n)
  case (Suc n)
  then have n: "n < length xs" by simp
  then have d: "drop n xs = xs ! n # drop (Suc n) xs" by (simp add: Cons_nth_drop_Suc)
  show ?case
    using Suc.IH n d by (simp add: list_update_append nth_append take_Suc_conv_app_nth)
qed simp

lemma blocks_loop:
  assumes "length (TimerBlocks os) = unat OS_TIMERS_N"
  shows "for_upto 0 OS_TIMERS_N (\<lambda>i os. set_block (unat i) (f (TimerBlocks os ! unat i)) os) os =
    os\<lparr>TimerBlocks := map f (TimerBlocks os)\<rparr>"
proof -
  have "fold (\<lambda>k os. set_block (unat (of_nat k :: u16)) (f (TimerBlocks os ! unat (of_nat k :: u16))) os) [0..<n] os =
    os\<lparr>TimerBlocks := fold (\<lambda>k xs. xs[k := f (xs ! k)]) [0..<n] (TimerBlocks os)\<rparr>" if "n \<le> 20" for n
    using that by (induction n) (simp_all add: set_block_def unat_of_nat take_bit_nat_eq_self)
  from this [of 20] show ?thesis
    using assms fold_update_map [of 20 "TimerBlocks os" f]
    by (simp add: loop_simps OS_TIMERS_N_def)
qed

lemma SysTickFun_effect:
  assumes "timers_inv os"
  shows "TimerBlocks (SysTickFun c os) = map tick_block (TimerBlocks os)"
    and "TimeSliceTimer (SysTickFun c os) = tick_slice (TimeSliceTimer os)"
    and "timestamp (SysTickFun c os) = timestamp os + (if c mod 1000 = 0 then 1 else 0)"
    and "SysTime_ms (SysTickFun c os) = c"
  using assms by (simp_all add: SysTickFun_def timers_inv_def blocks_loop Let_def)

lemma slice_tick:
  "0 < CountDown b \<Longrightarrow> CountDown b \<le> OS_TIME_SLICE \<Longrightarrow>
   0 < CountDown (tick_slice b) \<and> CountDown (tick_slice b) \<le> OS_TIME_SLICE"
proof -
  assume a: "0 < CountDown b" "CountDown b \<le> OS_TIME_SLICE"
  then have "unat (CountDown b - 1) = unat (CountDown b) - 1" by (intro unat_minus_one) auto
  with a show ?thesis by (auto simp: tick_slice_def OS_TIME_SLICE_def word_less_nat_alt word_le_nat_alt)
qed

lemma SysTickFun_inv: "timers_inv os \<Longrightarrow> timers_inv (SysTickFun c os)"
  using slice_tick [of "TimeSliceTimer os"] by (simp add: SysTickFun_effect timers_inv_def [of "SysTickFun c os"])
    (simp add: timers_inv_def)

lemma InitKernelTimers_inv:
  "length (TimerBlocks os) = unat OS_TIMERS_N \<Longrightarrow>
   timers_inv (InitKernelTimers os) \<and> (\<forall>b\<in>set (TimerBlocks (InitKernelTimers os)). CountDown b = 0)"
  using blocks_loop [of "os\<lparr>TimeSliceTimer := (TimeSliceTimer os)\<lparr>CountDown := OS_TIME_SLICE\<rparr>\<rparr>" "\<lambda>b. b\<lparr>CountDown := 0\<rparr>"]
  by (simp add: InitKernelTimers_def timers_inv_def Let_def timer_consts)

section \<open>Services against ticks\<close>

text \<open>What happens to the kernel data: ticks of the interrupt and service calls, in any order.\<close>

datatype timer_op = Tick u64 | Set u16 u64 | Start u16 | SetStart u16 u64

fun timer_exec :: "timer_op \<Rightarrow> os_data \<Rightarrow> os_data option" where
  "timer_exec (Tick c) os = Some (SysTickFun c os)"
| "timer_exec (Set i n) os = map_option snd (SetTimer i n os)"
| "timer_exec (Start i) os = map_option snd (StartTimer i os)"
| "timer_exec (SetStart i n) os = map_option snd (SetTimerStart i n os)"

inductive timer_steps :: "os_data \<Rightarrow> timer_op list \<Rightarrow> os_data \<Rightarrow> bool" where
  steps_Nil: "timer_steps os [] os"
| steps_Cons: "timer_exec ev os = Some os' \<Longrightarrow> timer_steps os' evs os'' \<Longrightarrow> timer_steps os (ev # evs) os''"

inductive_cases timer_steps_NilE: "timer_steps os [] os'"
inductive_cases timer_steps_ConsE: "timer_steps os (ev # evs) os'"

code_pred (modes: i \<Rightarrow> i \<Rightarrow> o \<Rightarrow> bool) timer_steps .

fun is_tick :: "timer_op \<Rightarrow> bool" where
  "is_tick (Tick c) = True"
| "is_tick _ = False"

abbreviation ticks :: "timer_op list \<Rightarrow> nat" where
  "ticks evs \<equiv> length (filter is_tick evs)"

lemma set_block_sel [simp]:
  "TimerBlocks (set_block i b os) = (TimerBlocks os)[i := b]"
  "TimeSliceTimer (set_block i b os) = TimeSliceTimer os"
  "timestamp (set_block i b os) = timestamp os" "SysTime_ms (set_block i b os) = SysTime_ms os"
  by (simp_all add: set_block_def)

lemmas timer_services = SetTimer_def StartTimer_def SetTimerStart_def Let_def

lemma timers_inv_set_block [simp]: "timers_inv (set_block i b os) = timers_inv os"
  by (simp add: timers_inv_def)

lemma timer_exec_inv: "timer_exec ev os = Some os' \<Longrightarrow> timers_inv os \<Longrightarrow> timers_inv os'"
  by (cases ev) (auto simp: timer_services SysTickFun_inv timers_inv_set_block split: if_splits option.splits)

lemma timer_steps_inv: "timer_steps os evs os' \<Longrightarrow> timers_inv os \<Longrightarrow> timers_inv os'"
  by (induction rule: timer_steps.induct) (auto dest: timer_exec_inv)

definition running :: "nat \<Rightarrow> nat \<Rightarrow> os_data \<Rightarrow> bool" where
  "running i n os \<longleftrightarrow> i < length (TimerBlocks os) \<and> Started (TimerBlocks os ! i) \<and>
     unat (CountDown (TimerBlocks os ! i)) = n"

text \<open>No service call disturbs a running timer; a tick takes one from it.\<close>

lemma running_exec:
  assumes "timer_exec ev os = Some os'" and "timers_inv os" and "running i (Suc n) os"
  shows "running i (if is_tick ev then n else Suc n) os'"
proof (cases ev)
  case (Tick c)
  have "CountDown (TimerBlocks os ! i) \<noteq> 0" using assms(3) by (auto simp: running_def)
  then have "tick_block (TimerBlocks os ! i) = (TimerBlocks os ! i)\<lparr>CountDown := CountDown (TimerBlocks os ! i) - 1\<rparr>"
    using assms(3) by (auto simp: tick_block_def running_def word_le_nat_alt word_unat_eq_iff unat_minus_one word_less_nat_alt
        intro: timer_block.equality)
  then show ?thesis
    using assms Tick \<open>CountDown _ \<noteq> 0\<close> by (auto simp: running_def SysTickFun_effect unat_minus_one)
qed (use assms in \<open>auto simp: running_def timer_services nth_list_update split: if_splits option.splits\<close>)

text \<open>An expired timer stays expired until a service call succeeds on it.\<close>

lemma expired_tick: "timers_inv os \<Longrightarrow> running i 0 os \<Longrightarrow> running i 0 (SysTickFun c os)"
  by (auto simp: running_def SysTickFun_effect tick_block_def unat_eq_0)

lemma running_steps:
  "timer_steps os evs os' \<Longrightarrow> timers_inv os \<Longrightarrow> running i n os \<Longrightarrow> ticks evs < n \<Longrightarrow>
   running i (n - ticks evs) os'"
proof (induction arbitrary: n rule: timer_steps.induct)
  case (steps_Cons ev os os' evs os'')
  then obtain m where n: "n = Suc m" by (cases n) auto
  have "running i (if is_tick ev then m else Suc m) os'"
    using steps_Cons running_exec n by blast
  then show ?case
    using steps_Cons.IH [of "if is_tick ev then m else Suc m"] steps_Cons timer_exec_inv n by (auto split: if_splits)
qed simp

lemma timer_steps_snoc:
  "timer_steps os (evs @ [ev]) os'' \<Longrightarrow> \<exists>os'. timer_steps os evs os' \<and> timer_exec ev os' = Some os''"
  by (induction evs arbitrary: os) (force elim!: timer_steps_ConsE timer_steps_NilE intro: timer_steps.intros)+

lemma slice_steps:
  "timer_steps os evs os' \<Longrightarrow> timers_inv os \<Longrightarrow>
   unat (CountDown (TimeSliceTimer os')) = 20 - (20 - unat (CountDown (TimeSliceTimer os)) + ticks evs) mod 20"
proof (induction rule: timer_steps.induct)
  case (steps_Nil os)
  then show ?case by (auto simp: timers_inv_def OS_TIME_SLICE_def word_le_nat_alt word_less_nat_alt)
next
  case (steps_Cons ev os os' evs os'')
  define c where "c = unat (CountDown (TimeSliceTimer os))"
  have c: "0 < c" "c \<le> 20"
    using steps_Cons by (auto simp: c_def timers_inv_def OS_TIME_SLICE_def word_le_nat_alt word_less_nat_alt)
  have IH: "unat (CountDown (TimeSliceTimer os'')) = 20 - (20 - unat (CountDown (TimeSliceTimer os')) + ticks evs) mod 20"
    using steps_Cons timer_exec_inv by blast
  show ?case
  proof (cases ev)
    case (Tick k)
    then have "unat (CountDown (TimeSliceTimer os')) = (if c = 1 then 20 else c - 1)"
      using steps_Cons c unat_minus_one [of "CountDown (TimeSliceTimer os)"]
      by (auto simp: SysTickFun_effect tick_slice_def c_def OS_TIME_SLICE_def word_le_nat_alt word_unat_eq_iff)
    moreover have "20 - (c - 1) + ticks evs = 20 - c + Suc (ticks evs)" if "c \<noteq> 1" using c that by linarith
    ultimately show ?thesis using IH c Tick by (auto simp: c_def [symmetric] simp del: diff_diff_left)
  qed (use IH steps_Cons in \<open>auto simp: timer_services split: if_splits option.splits\<close>)
qed

section \<open>SetTimer access by access\<close>

datatype set_pc = Check_Started | Check_CountDown | Write_CountDown | Write_Started | Returned bool

text \<open>
  The accesses of SetTimer in program order, with the short circuit of its condition, and the tick
  interrupt between any two of them.
\<close>

inductive set_step :: "nat \<Rightarrow> u32 \<Rightarrow> set_pc \<times> os_data \<Rightarrow> set_pc \<times> os_data \<Rightarrow> bool" for i n where
  read_Started: "set_step i n (Check_Started, os)
     (if Started (TimerBlocks os ! i) then Check_CountDown else Write_CountDown, os)"
| read_CountDown: "set_step i n (Check_CountDown, os)
     (if CountDown (TimerBlocks os ! i) = 0 then Write_CountDown else Returned False, os)"
| write_CountDown: "set_step i n (Write_CountDown, os)
     (Write_Started, set_block i ((TimerBlocks os ! i)\<lparr>CountDown := n\<rparr>) os)"
| write_Started: "set_step i n (Write_Started, os)
     (Returned True, set_block i ((TimerBlocks os ! i)\<lparr>Started := False\<rparr>) os)"
| interrupt: "set_step i n (pc, os) (pc, SysTickFun c os)"

lemma tick_block_stopped: "\<not> Started b \<Longrightarrow> tick_block b = b"
  by (simp add: tick_block_def)

lemma tick_block_le: "CountDown (tick_block b) \<le> CountDown b"
proof (cases "CountDown b > 0 \<and> Started b \<and> \<not> 1 \<ge> CountDown b")
  case True
  then have "unat (CountDown b - 1) = unat (CountDown b) - 1" by (intro unat_minus_one) auto
  then show ?thesis using True by (simp add: tick_block_def word_le_nat_alt)
qed (auto simp: tick_block_def)

text \<open>What holds at each access of a call on timer \<open>i\<close> that \<open>stopped\<close> says was stopped at entry.\<close>

fun set_ok :: "nat \<Rightarrow> u32 \<Rightarrow> bool \<Rightarrow> set_pc \<times> os_data \<Rightarrow> bool" where
  "set_ok i n stopped (pc, os) \<longleftrightarrow> timers_inv os \<and> i < length (TimerBlocks os) \<and>
     (let b = TimerBlocks os ! i in
      (stopped \<longrightarrow> \<not> Started b \<and> pc \<noteq> Check_CountDown \<and> pc \<noteq> Returned False) \<and>
      (pc = Write_CountDown \<longrightarrow> \<not> Started b \<or> CountDown b = 0) \<and>
      (pc = Write_Started \<longrightarrow> CountDown b \<le> n \<and> (stopped \<longrightarrow> CountDown b = n)) \<and>
      (pc = Returned True \<longrightarrow> \<not> Started b \<and> CountDown b \<le> n \<and> (stopped \<longrightarrow> CountDown b = n)))"

lemma set_ok_tick:
  assumes "set_ok i n st (pc, os)"
  shows "set_ok i n st (pc, SysTickFun c os)"
proof -
  have t: "Started (tick_block b) = Started b" for b by (simp add: tick_block_def)
  have le: "CountDown b \<le> n \<Longrightarrow> CountDown (tick_block b) \<le> n" for b
    using tick_block_le order_trans by blast
  show ?thesis
    using assms by (auto simp: Let_def SysTickFun_inv SysTickFun_effect t le tick_block_stopped)
      (auto simp: tick_block_def)
qed

lemma set_ok_step: "set_step i n x y \<Longrightarrow> set_ok i n st x \<Longrightarrow> set_ok i n st y"
proof (induction rule: set_step.induct)
  case (interrupt pc os c)
  then show ?case by (rule set_ok_tick)
qed (auto simp: Let_def)

lemma set_ok_steps: "(set_step i n)\<^sup>*\<^sup>* x y \<Longrightarrow> set_ok i n st x \<Longrightarrow> set_ok i n st y"
  by (induction rule: rtranclp_induct) (auto intro: set_ok_step)

end
