(* ===== verification/Coresys_Spinlock.thy ===== *)
theory Coresys_Spinlock
  imports Prelude
begin

text \<open>
  The spin lock of spinlock.c with the acquire loop of atomic.S. The routines that touch the lock
  word once are functions; several processors that run acquire and release on one lock word are a
  step relation in which every access to the word is a step of its own.
\<close>

definition SPINLOCK_BIT_LOCK :: u32 where "SPINLOCK_BIT_LOCK = 1"

definition spinlock_init :: "u32 \<Rightarrow> u32" where
  "spinlock_init p = NOT SPINLOCK_BIT_LOCK AND p"

definition spinlock_is_acquired :: "u32 \<Rightarrow> bool" where
  "spinlock_is_acquired p = (p AND SPINLOCK_BIT_LOCK = SPINLOCK_BIT_LOCK)"

definition spinlock_release :: "u32 \<Rightarrow> u32" where
  "spinlock_release p = NOT SPINLOCK_BIT_LOCK AND p"

text \<open>The locked bit-test-and-set: the old bit 0 as carry flag and the word with the bit set.\<close>

definition lock_btsl_0 :: "u32 \<Rightarrow> bool \<times> u32" where
  "lock_btsl_0 p = (bit p 0, p OR 1)"

section \<open>Processors on one lock\<close>

text \<open>
  Where a processor is: outside, at the locked instruction of acquire, in its pause loop, in the
  critical section, or in release after it has read the word \<open>v\<close> and before it writes it back.
\<close>

datatype cpu_pc = Outside | Acquire | Spin_Pause | Critical | Releasing u32

record lock_sys =
  lock_word :: u32
  cpu :: "nat \<Rightarrow> cpu_pc"

definition go :: "nat \<Rightarrow> cpu_pc \<Rightarrow> lock_sys \<Rightarrow> lock_sys" where
  "go c pc s = s\<lparr>cpu := (cpu s)(c := pc)\<rparr>"

definition acquire_step :: "nat \<Rightarrow> lock_sys \<Rightarrow> lock_sys" where
  "acquire_step c s = (case lock_btsl_0 (lock_word s) of
     (carry, w) \<Rightarrow> go c (if carry then Spin_Pause else Critical) (s\<lparr>lock_word := w\<rparr>))"

definition pause_step :: "nat \<Rightarrow> lock_sys \<Rightarrow> lock_sys" where
  "pause_step c s = go c (if lock_word s AND 1 \<noteq> 0 then Spin_Pause else Acquire) s"

inductive lock_step :: "lock_sys \<Rightarrow> lock_sys \<Rightarrow> bool" where
  enter: "cpu s c = Outside \<Longrightarrow> lock_step s (go c Acquire s)"
| try_lock: "cpu s c = Acquire \<Longrightarrow> lock_step s (acquire_step c s)"
| pausing: "cpu s c = Spin_Pause \<Longrightarrow> lock_step s (pause_step c s)"
| read_word: "cpu s c = Critical \<Longrightarrow> lock_step s (go c (Releasing (lock_word s)) s)"
| write_word: "cpu s c = Releasing v \<Longrightarrow> lock_step s (go c Outside (s\<lparr>lock_word := spinlock_release v\<rparr>))"

inductive_cases lock_stepE: "lock_step s t"

definition lock_start :: "u32 \<Rightarrow> lock_sys" where
  "lock_start w = \<lparr>lock_word = spinlock_init w, cpu = (\<lambda>_. Outside)\<rparr>"

fun holds_lock :: "cpu_pc \<Rightarrow> bool" where
  "holds_lock Critical = True"
| "holds_lock (Releasing v) = True"
| "holds_lock _ = False"

section \<open>Mutual exclusion\<close>

lemma spinlock_is_acquired_bit [simp]: "spinlock_is_acquired p = bit p 0"
  by (simp add: spinlock_is_acquired_def SPINLOCK_BIT_LOCK_def and_one_eq odd_iff_mod_2_eq_one bit_0)

lemma release_clears [simp]: "bit (spinlock_release p) 0 = False"
  by (simp add: spinlock_release_def SPINLOCK_BIT_LOCK_def bit_and_iff bit_not_iff)

text \<open>All bits above the lock bit are those the word had at the start.\<close>

definition lock_inv :: "u32 \<Rightarrow> lock_sys \<Rightarrow> bool" where
  "lock_inv w s \<longleftrightarrow>
     (\<forall>c d. holds_lock (cpu s c) \<and> holds_lock (cpu s d) \<longrightarrow> c = d) \<and>
     (bit (lock_word s) 0 \<longleftrightarrow> (\<exists>c. holds_lock (cpu s c))) \<and>
     (\<forall>c v. cpu s c = Releasing v \<longrightarrow> v = lock_word s) \<and>
     NOT 1 AND lock_word s = NOT 1 AND w"


lemma lock_inv_start: "lock_inv w (lock_start w)"
  by (simp add: lock_inv_def lock_start_def spinlock_init_def SPINLOCK_BIT_LOCK_def bit_and_iff bit_not_iff)

lemma holder_go: "holds_lock (cpu (go c pc s) d) = (if d = c then holds_lock pc else holds_lock (cpu s d))"
  by (simp add: go_def)

lemma lock_word_go [simp]: "lock_word (go c pc s) = lock_word s"
  by (simp add: go_def)

lemma upper_bits: "NOT 1 AND (p OR 1) = NOT 1 AND p" "NOT 1 AND (NOT 1 AND p) = NOT 1 AND p" for p :: u32
  by (rule bit_eqI, auto simp: bit_and_iff bit_or_iff bit_not_iff bit_1_iff)+

lemmas upper_bits_simps [simp] = upper_bits upper_bits [simplified]

lemma lock_inv_acquire: "cpu s c = Acquire \<Longrightarrow> lock_inv w s \<Longrightarrow> lock_inv w (acquire_step c s)"
proof (cases "bit (lock_word s) 0")
  case True
  assume a: "cpu s c = Acquire" "lock_inv w s"
  from True have "lock_word s OR 1 = lock_word s" by (auto intro!: bit_eqI simp: bit_or_iff bit_1_iff)
  then have "acquire_step c s = go c Spin_Pause s"
    using True by (simp add: acquire_step_def lock_btsl_0_def)
  with a show ?thesis unfolding lock_inv_def
    by (simp add: go_def) (metis holds_lock.simps(4))
next
  case False
  assume a: "cpu s c = Acquire" "lock_inv w s"
  then have none: "\<not> holds_lock (cpu s d)" for d using False by (auto simp: lock_inv_def)
  then have "cpu s d \<noteq> Releasing v" for d v using holds_lock.simps(2) by metis
  with a none show ?thesis using False unfolding lock_inv_def
    by (simp add: acquire_step_def lock_btsl_0_def go_def bit_or_iff)
qed

lemma lock_inv_release:
  assumes "cpu s c = Releasing v" and "lock_inv w s"
  shows "lock_inv w (go c Outside (s\<lparr>lock_word := spinlock_release v\<rparr>))"
proof -
  have hc: "holds_lock (cpu s c)" using assms(1) by simp
  have others: "\<not> holds_lock (cpu s d)" if "d \<noteq> c" for d
    using assms(2) hc that unfolding lock_inv_def by blast
  then have nr: "cpu s d \<noteq> Releasing v'" if "d \<noteq> c" for d v'
    using that holds_lock.simps(2) by metis
  have "v = lock_word s" "NOT 1 AND lock_word s = NOT 1 AND w" using assms by (auto simp: lock_inv_def)
  with others nr show ?thesis
    by (simp add: lock_inv_def go_def) (auto simp: spinlock_release_def SPINLOCK_BIT_LOCK_def)
qed

lemma lock_inv_step: "lock_step s t \<Longrightarrow> lock_inv w s \<Longrightarrow> lock_inv w t"
proof (induction rule: lock_step.induct)
  case (try_lock s c)
  then show ?case by (rule lock_inv_acquire)
next
  case (write_word s c v)
  then show ?case by (rule lock_inv_release)
next
  case (enter s c)
  then show ?case unfolding lock_inv_def by (simp add: go_def) (metis holds_lock.simps(3))
next
  case (pausing s c)
  then show ?case unfolding lock_inv_def by (simp add: pause_step_def go_def) (metis holds_lock.simps(5))
next
  case (read_word s c)
  then show ?case unfolding lock_inv_def by (simp add: go_def) (metis holds_lock.simps(1))
qed

lemma lock_inv_reach: "lock_step\<^sup>*\<^sup>* (lock_start w) s \<Longrightarrow> lock_inv w s"
  by (induction rule: rtranclp_induct) (auto simp: lock_inv_start intro: lock_inv_step)

text \<open>A waiting processor gets a free lock in at most two steps of its own.\<close>

lemma lock_progress:
  assumes "lock_inv w s" and "\<forall>c. \<not> holds_lock (cpu s c)" and "cpu s c = Acquire \<or> cpu s c = Spin_Pause"
  shows "\<exists>t. lock_step\<^sup>*\<^sup>* s t \<and> cpu t c = Critical"
proof -
  have free: "\<not> bit (lock_word s) 0" using assms(1,2) by (simp add: lock_inv_def)
  have get: "\<exists>t. lock_step\<^sup>*\<^sup>* u t \<and> cpu t c = Critical" if "cpu u c = Acquire" "\<not> bit (lock_word u) 0" for u
  proof (intro exI conjI)
    show "lock_step\<^sup>*\<^sup>* u (acquire_step c u)" using lock_step.try_lock [OF that(1)] by blast
    show "cpu (acquire_step c u) c = Critical" using that(2) by (simp add: acquire_step_def lock_btsl_0_def go_def)
  qed
  from assms(3) show ?thesis
  proof
    assume "cpu s c = Spin_Pause"
    then have st: "lock_step s (pause_step c s)" by (rule lock_step.pausing)
    have "lock_word s AND 1 = 0" using free by (simp add: and_one_eq bit_0 even_iff_mod_2_eq_zero)
    then have "cpu (pause_step c s) c = Acquire" "lock_word (pause_step c s) = lock_word s"
      by (simp_all add: pause_step_def go_def)
    with get [of "pause_step c s"] free st show ?thesis by (metis converse_rtranclp_into_rtranclp)
  qed (use get free in blast)
qed

end
