(* ===== verification/IA32_Io.thy ===== *)
theory IA32_Io
  imports Prelude
begin

text \<open>
  Port and memory-mapped input/output of the IA32 platform (io.h, mmio.h). The devices are not
  part of the program: a machine is a function \<open>hw\<close> that answers a read from the history of all
  accesses before it. The routines extend the history; a driver is a function from the machine
  and the history to its result and the new history.
\<close>

datatype io_event =
    In8 u16 u8 | In16 u16 u16 | In32 u16 u32
  | Out8 u8 u16 | Out16 u16 u16 | Out32 u32 u16
  | MmioR8 u32 u8 | MmioR16 u32 u16 | MmioR32 u32 u32 | MmioR64 u32 u64
  | MmioW8 u32 u8 | MmioW16 u32 u16 | MmioW32 u32 u32 | MmioW64 u32 u64
  | RdMsr u32 u32 u32 | WrMsr u32 u32 u32

datatype io_req = Port8 u16 | Port16 u16 | Port32 u16 | Mem8 u32 | Mem16 u32 | Mem32 u32 | Mem64 u32 | Msr u32

type_synonym trace = "io_event list"
type_synonym machine = "trace \<Rightarrow> io_req \<Rightarrow> u64"

definition inb :: "machine \<Rightarrow> u16 \<Rightarrow> trace \<Rightarrow> u8 \<times> trace" where
  "inb hw port tr = (let v = ucast (hw tr (Port8 port)) in (v, tr @ [In8 port v]))"

definition inw :: "machine \<Rightarrow> u16 \<Rightarrow> trace \<Rightarrow> u16 \<times> trace" where
  "inw hw port tr = (let v = ucast (hw tr (Port16 port)) in (v, tr @ [In16 port v]))"

definition inl :: "machine \<Rightarrow> u16 \<Rightarrow> trace \<Rightarrow> u32 \<times> trace" where
  "inl hw port tr = (let v = ucast (hw tr (Port32 port)) in (v, tr @ [In32 port v]))"

definition outb :: "u8 \<Rightarrow> u16 \<Rightarrow> trace \<Rightarrow> trace" where
  "outb v port tr = tr @ [Out8 v port]"

definition outw :: "u16 \<Rightarrow> u16 \<Rightarrow> trace \<Rightarrow> trace" where
  "outw v port tr = tr @ [Out16 v port]"

definition outl :: "u32 \<Rightarrow> u16 \<Rightarrow> trace \<Rightarrow> trace" where
  "outl v port tr = tr @ [Out32 v port]"

definition io_wait :: "trace \<Rightarrow> trace" where
  "io_wait tr = outb 0 0x80 tr"

definition MMIO_read8 :: "machine \<Rightarrow> u32 \<Rightarrow> trace \<Rightarrow> u8 \<times> trace" where
  "MMIO_read8 hw addr tr = (let v = ucast (hw tr (Mem8 addr)) in (v, tr @ [MmioR8 addr v]))"

definition MMIO_read16 :: "machine \<Rightarrow> u32 \<Rightarrow> trace \<Rightarrow> u16 \<times> trace" where
  "MMIO_read16 hw addr tr = (let v = ucast (hw tr (Mem16 addr)) in (v, tr @ [MmioR16 addr v]))"

definition MMIO_read32 :: "machine \<Rightarrow> u32 \<Rightarrow> trace \<Rightarrow> u32 \<times> trace" where
  "MMIO_read32 hw addr tr = (let v = ucast (hw tr (Mem32 addr)) in (v, tr @ [MmioR32 addr v]))"

definition MMIO_read64 :: "machine \<Rightarrow> u32 \<Rightarrow> trace \<Rightarrow> u64 \<times> trace" where
  "MMIO_read64 hw addr tr = (let v = hw tr (Mem64 addr) in (v, tr @ [MmioR64 addr v]))"

definition MMIO_write8 :: "u32 \<Rightarrow> u8 \<Rightarrow> trace \<Rightarrow> trace" where
  "MMIO_write8 addr v tr = tr @ [MmioW8 addr v]"

definition MMIO_write16 :: "u32 \<Rightarrow> u16 \<Rightarrow> trace \<Rightarrow> trace" where
  "MMIO_write16 addr v tr = tr @ [MmioW16 addr v]"

text \<open>The header declares the value and the access of the 32-bit write with 16 bits.\<close>

definition MMIO_write32 :: "u32 \<Rightarrow> u16 \<Rightarrow> trace \<Rightarrow> trace" where
  "MMIO_write32 addr v tr = tr @ [MmioW16 addr v]"

definition MMIO_write64 :: "u32 \<Rightarrow> u64 \<Rightarrow> trace \<Rightarrow> trace" where
  "MMIO_write64 addr v tr = tr @ [MmioW64 addr v]"

text \<open>The BCD macro of utils.h, on the promoted byte.\<close>

definition BCD2DEC :: "u8 \<Rightarrow> u8" where
  "BCD2DEC bcd = drop_bit 4 (bcd AND 0xF0) * 10 + (bcd AND 0x0F)"

text \<open>The bytes written to a port, in order.\<close>

fun written8 :: "u16 \<Rightarrow> trace \<Rightarrow> u8 list" where
  "written8 p [] = []"
| "written8 p (e # tr) = (case e of Out8 v q \<Rightarrow> (if q = p then v # written8 p tr else written8 p tr)
     | _ \<Rightarrow> written8 p tr)"

lemma written8_append [simp]: "written8 p (tr @ us) = written8 p tr @ written8 p us"
  by (induction tr) (auto split: io_event.splits)

lemmas io_defs = inb_def inw_def inl_def outb_def outw_def outl_def io_wait_def Let_def
lemmas mmio_defs = MMIO_read8_def MMIO_read16_def MMIO_read32_def MMIO_read64_def MMIO_write8_def
  MMIO_write16_def MMIO_write32_def MMIO_write64_def Let_def

end
