(* ===== verification/Libk_Queue.thy ===== *)
theory Libk_Queue
  imports Libk_Mem
begin

text \<open>
  The ring buffers of the kernel: the element queues of queue.c and queue.h (routines and
  byte-wise macros) and the key buffer of keyboard.c. All three meet the contract of a bounded
  FIFO, stated as a locale with the facts their clients rest on.
\<close>

section \<open>The bounded FIFO contract\<close>

text \<open>
  \<open>push\<close> reports whether the element was taken, \<open>pop\<close> returns nothing on an empty queue;
  \<open>elem s x\<close> says which elements the queue can hold.
\<close>

primrec push_list :: "('s \<Rightarrow> 'e \<Rightarrow> bool \<times> 's) \<Rightarrow> 's \<Rightarrow> 'e list \<Rightarrow> 's" where
  "push_list push s [] = s"
| "push_list push s (x # xs) = push_list push (snd (push s x)) xs"

primrec pop_n :: "('s \<Rightarrow> ('e \<times> 's) option) \<Rightarrow> nat \<Rightarrow> 's \<Rightarrow> ('e list \<times> 's) option" where
  "pop_n pop 0 s = Some ([], s)"
| "pop_n pop (Suc n) s = (case pop s of None \<Rightarrow> None
     | Some (x, s') \<Rightarrow> (case pop_n pop n s' of None \<Rightarrow> None | Some (xs, s'') \<Rightarrow> Some (x # xs, s'')))"

locale bounded_fifo =
  fixes push :: "'s \<Rightarrow> 'e \<Rightarrow> bool \<times> 's"
    and pop :: "'s \<Rightarrow> ('e \<times> 's) option"
    and contents :: "'s \<Rightarrow> 'e list"
    and cap :: "'s \<Rightarrow> nat"
    and inv :: "'s \<Rightarrow> bool"
    and elem :: "'s \<Rightarrow> 'e \<Rightarrow> bool"
  assumes push_full: "inv s \<Longrightarrow> elem s x \<Longrightarrow> length (contents s) = cap s \<Longrightarrow>
        \<exists>s'. push s x = (False, s') \<and> inv s' \<and> contents s' = contents s \<and> cap s' = cap s \<and> elem s' = elem s"
    and push_ok: "inv s \<Longrightarrow> elem s x \<Longrightarrow> length (contents s) < cap s \<Longrightarrow>
        \<exists>s'. push s x = (True, s') \<and> inv s' \<and> contents s' = contents s @ [x] \<and> cap s' = cap s \<and> elem s' = elem s"
    and pop_empty: "inv s \<Longrightarrow> contents s = [] \<Longrightarrow> pop s = None"
    and pop_ok: "inv s \<Longrightarrow> contents s = x # xs \<Longrightarrow>
        \<exists>s'. pop s = Some (x, s') \<and> inv s' \<and> contents s' = xs \<and> cap s' = cap s \<and> elem s' = elem s"
begin

lemma push_list_contents:
  "inv s \<Longrightarrow> (\<And>x. x \<in> set xs \<Longrightarrow> elem s x) \<Longrightarrow> length (contents s) + length xs \<le> cap s \<Longrightarrow>
   inv (push_list push s xs) \<and> contents (push_list push s xs) = contents s @ xs \<and>
   cap (push_list push s xs) = cap s \<and> elem (push_list push s xs) = elem s"
proof (induction xs arbitrary: s)
  case (Cons x xs)
  then obtain s' where s': "push s x = (True, s')" "inv s'" "contents s' = contents s @ [x]"
    "cap s' = cap s" "elem s' = elem s"
    using push_ok [of s x] by fastforce
  with Cons.IH [of s'] Cons.prems show ?case by simp
qed simp

lemma pop_n_contents:
  "inv s \<Longrightarrow> contents s = xs @ ys \<Longrightarrow>
   \<exists>s'. pop_n pop (length xs) s = Some (xs, s') \<and> inv s' \<and> contents s' = ys \<and> cap s' = cap s"
proof (induction xs arbitrary: s)
  case (Cons x xs)
  then obtain s' where s': "pop s = Some (x, s')" "inv s'" "contents s' = xs @ ys" "cap s' = cap s"
    using pop_ok [of s x "xs @ ys"] by auto
  with Cons.IH [of s'] show ?case by auto
qed simp

text \<open>What goes in comes out, in the same order, behind what was there.\<close>

lemma fifo_order:
  assumes "inv s" and "\<And>x. x \<in> set xs \<Longrightarrow> elem s x" and "length (contents s) + length xs \<le> cap s"
  shows "\<exists>s'. pop_n pop (length (contents s) + length xs) (push_list push s xs) = Some (contents s @ xs, s') \<and>
    inv s' \<and> contents s' = []"
proof -
  have P: "inv (push_list push s xs)" "contents (push_list push s xs) = (contents s @ xs) @ []"
    using push_list_contents [OF assms] by simp_all
  show ?thesis using pop_n_contents [OF P] by auto
qed

end

section \<open>Rings\<close>

text \<open>The \<open>n\<close> elements from position \<open>t\<close> on in a ring of \<open>L\<close> slots.\<close>

definition ring :: "(nat \<Rightarrow> 'e) \<Rightarrow> nat \<Rightarrow> nat \<Rightarrow> nat \<Rightarrow> 'e list" where
  "ring f t n L = map (\<lambda>i. f ((t + i) mod L)) [0..<n]"

lemma length_ring [simp]: "length (ring f t n L) = n"
  by (simp add: ring_def)

lemma ring_0 [simp]: "ring f t 0 L = []"
  by (simp add: ring_def)

lemma ring_push:
  assumes "n < L" and "\<And>j. j < L \<Longrightarrow> g j = (if j = (t + n) mod L then x else f j)"
  shows "ring g t (Suc n) L = ring f t n L @ [x]"
proof -
  have L: "0 < L" using assms(1) by simp
  have "g ((t + i) mod L) = f ((t + i) mod L)" if "i < n" for i
  proof -
    have "(t + i) mod L \<noteq> (t + n) mod L"
    proof
      assume "(t + i) mod L = (t + n) mod L"
      then have "L dvd (t + n) - (t + i)" using that by (metis mod_eq_dvd_iff_nat add_le_cancel_left less_imp_le)
      then show False using that assms(1) by (auto dest: dvd_imp_le)
    qed
    then show ?thesis using assms(2) [of "(t + i) mod L"] L by simp
  qed
  moreover have "g ((t + n) mod L) = x" using assms(2) [of "(t + n) mod L"] L by simp
  ultimately show ?thesis by (simp add: ring_def)
qed

lemma ring_pop:
  assumes "t < L"
  shows "ring f t (Suc n) L = f t # ring f ((t + 1) mod L) n L"
proof -
  have "map (\<lambda>i. f ((t + i) mod L)) [0..<Suc n] = f (t mod L) # map (\<lambda>i. f ((t + Suc i) mod L)) [0..<n]"
    by (simp add: upt_conv_Cons map_Suc_upt [symmetric] del: upt_Suc)
  moreover have "(t + Suc i) mod L = ((t + 1) mod L + i) mod L" for i
    by (simp add: mod_add_left_eq)
  ultimately show ?thesis using assms by (simp add: ring_def)
qed

lemma ring_cong: "(\<And>j. j < L \<Longrightarrow> f j = g j) \<Longrightarrow> 0 < L \<Longrightarrow> ring f t n L = ring g t n L"
  by (simp add: ring_def)

section \<open>Element queues\<close>

record queue_t =
  address :: u32
  q_length :: u32
  head :: u32
  tail :: u32
  elem_size :: u32
  elem_num :: u32

definition QUEUE_INC_MOD :: "u32 \<Rightarrow> u32 \<Rightarrow> u32" where
  "QUEUE_INC_MOD num n = (if num + 1 \<ge> n then 0 else num + 1)"

definition queue_init :: "u32 \<Rightarrow> u32 \<Rightarrow> u32 \<Rightarrow> queue_t" where
  "queue_init buf_address queue_length es =
     \<lparr>address = buf_address, q_length = queue_length, head = 0, tail = 0, elem_size = es, elem_num = 0\<rparr>"

definition queue_is_full :: "queue_t \<Rightarrow> bool" where
  "queue_is_full q \<longleftrightarrow> elem_num q = q_length q"

definition queue_is_empty :: "queue_t \<Rightarrow> bool" where
  "queue_is_empty q \<longleftrightarrow> elem_num q = 0"

definition queue_insert :: "bytes \<Rightarrow> queue_t \<Rightarrow> u32 \<Rightarrow> bool \<times> bytes \<times> queue_t" where
  "queue_insert m q in_elem =
     (if elem_num q = q_length q then (False, m, q)
      else let head_next = QUEUE_INC_MOD (head q) (q_length q)
           in (True, memcpy m (address q + head q * elem_size q) in_elem (elem_size q),
               q\<lparr>head := head_next, elem_num := elem_num q + 1\<rparr>))"

definition queue_remove :: "bytes \<Rightarrow> queue_t \<Rightarrow> u32 \<Rightarrow> bool \<times> bytes \<times> queue_t" where
  "queue_remove m q out_elem =
     (if elem_num q > 0
      then (True, memcpy m out_elem (address q + tail q * elem_size q) (elem_size q),
            q\<lparr>tail := QUEUE_INC_MOD (tail q) (q_length q), elem_num := elem_num q - 1\<rparr>)
      else (False, m, q))"

definition queue_get_head :: "bytes \<Rightarrow> queue_t \<Rightarrow> u32 \<Rightarrow> bool \<times> bytes" where
  "queue_get_head m q out_head =
     (if \<not> queue_is_empty q then (True, memcpy m out_head (address q + head q * elem_size q) (elem_size q))
      else (False, m))"

definition queue_get_tail :: "bytes \<Rightarrow> queue_t \<Rightarrow> u32 \<Rightarrow> bool \<times> bytes" where
  "queue_get_tail m q out_tail =
     (if \<not> queue_is_empty q then (True, memcpy m out_tail (address q + tail q * elem_size q) (elem_size q))
      else (False, m))"

text \<open>The macros for queues of bytes; the second argument of \<open>queue_byte_remove\<close> is the variable
  it assigns.\<close>

definition queue_byte_insert :: "bytes \<Rightarrow> queue_t \<Rightarrow> u8 \<Rightarrow> bytes \<times> queue_t" where
  "queue_byte_insert m q in_elem =
     (if elem_num q \<noteq> q_length q
      then (m(address q + head q := in_elem),
            q\<lparr>head := QUEUE_INC_MOD (head q) (q_length q), elem_num := elem_num q + 1\<rparr>)
      else (m, q))"

definition queue_byte_remove :: "bytes \<Rightarrow> queue_t \<Rightarrow> u8 \<Rightarrow> u8 \<times> queue_t" where
  "queue_byte_remove m q out_elem =
     (if elem_num q > 0
      then (m (address q + tail q),
            q\<lparr>tail := QUEUE_INC_MOD (tail q) (q_length q), elem_num := elem_num q - 1\<rparr>)
      else (out_elem, q))"

text \<open>The indices of a queue are those of a ring, and its buffer lies in the address space.\<close>

definition queue_inv :: "queue_t \<Rightarrow> bool" where
  "queue_inv q \<longleftrightarrow> q_length q > 0 \<and> tail q < q_length q \<and> elem_num q \<le> q_length q \<and>
     unat (head q) = (unat (tail q) + unat (elem_num q)) mod unat (q_length q) \<and>
     unat (q_length q) * unat (elem_size q) \<le> 2 ^ 32"

lemma unat_QUEUE_INC_MOD:
  assumes "k < n"
  shows "unat (QUEUE_INC_MOD k n) = (unat k + 1) mod unat n"
proof -
  have u: "unat (k + 1) = Suc (unat k)" using assms by (rule unat_Suc_less)
  have "unat k < unat n" using assms by (simp add: word_less_nat_alt)
  then show ?thesis by (cases "Suc (unat k) = unat n") (auto simp: QUEUE_INC_MOD_def word_le_nat_alt u)
qed

lemma queue_init_inv:
  "n > 0 \<Longrightarrow> unat n * unat es \<le> 2 ^ 32 \<Longrightarrow> queue_inv (queue_init a n es)"
  by (simp add: queue_inv_def queue_init_def)

lemma head_less: "queue_inv q \<Longrightarrow> head q < q_length q"
  by (auto simp: queue_inv_def word_less_nat_alt)

lemma queue_inv_push:
  assumes "queue_inv q" and "elem_num q \<noteq> q_length q"
  shows "queue_inv (q\<lparr>head := QUEUE_INC_MOD (head q) (q_length q), elem_num := elem_num q + 1\<rparr>)"
    and "unat (elem_num q + 1) = Suc (unat (elem_num q))" and "unat (elem_num q) < unat (q_length q)"
proof -
  have lt: "elem_num q < q_length q" using assms by (auto simp: queue_inv_def order_less_le)
  then show u: "unat (elem_num q + 1) = Suc (unat (elem_num q))" by (rule unat_Suc_less)
  show lt': "unat (elem_num q) < unat (q_length q)" using lt by (simp add: word_less_nat_alt)
  show "queue_inv (q\<lparr>head := QUEUE_INC_MOD (head q) (q_length q), elem_num := elem_num q + 1\<rparr>)"
    using assms(1) u lt' unat_QUEUE_INC_MOD [OF head_less [OF assms(1)]]
    by (simp add: queue_inv_def word_le_nat_alt mod_Suc_eq)
qed

lemma queue_inv_pop:
  assumes "queue_inv q" and "elem_num q > 0"
  shows "queue_inv (q\<lparr>tail := QUEUE_INC_MOD (tail q) (q_length q), elem_num := elem_num q - 1\<rparr>)"
    and "unat (elem_num q) = Suc (unat (elem_num q - 1))"
proof -
  show u: "unat (elem_num q) = Suc (unat (elem_num q - 1))"
    using assms(2) by (simp add: unat_minus_one word_gt_0 unat_gt_0)
  have t: "tail q < q_length q" using assms(1) by (simp add: queue_inv_def)
  have "(Suc (unat (tail q)) mod unat (q_length q) + unat (elem_num q - 1)) mod unat (q_length q)
      = (unat (tail q) + unat (elem_num q)) mod unat (q_length q)"
    by (simp add: mod_add_left_eq u)
  moreover have "unat (q_length q) > 0" using t by (simp add: word_less_nat_alt)
  ultimately show "queue_inv (q\<lparr>tail := QUEUE_INC_MOD (tail q) (q_length q), elem_num := elem_num q - 1\<rparr>)"
    using assms(1) u unat_QUEUE_INC_MOD [OF t]
    by (simp add: queue_inv_def word_le_nat_alt word_less_nat_alt)
qed

section \<open>The byte macros are a bounded FIFO\<close>

definition byte_contents :: "bytes \<times> queue_t \<Rightarrow> u8 list" where
  "byte_contents = (\<lambda>(m, q). ring (\<lambda>j. m (address q + of_nat j)) (unat (tail q)) (unat (elem_num q)) (unat (q_length q)))"

definition byte_push :: "bytes \<times> queue_t \<Rightarrow> u8 \<Rightarrow> bool \<times> bytes \<times> queue_t" where
  "byte_push = (\<lambda>(m, q) c. (\<not> queue_is_full q, queue_byte_insert m q c))"

definition byte_pop :: "bytes \<times> queue_t \<Rightarrow> (u8 \<times> bytes \<times> queue_t) option" where
  "byte_pop = (\<lambda>(m, q). if queue_is_empty q then None
     else (case queue_byte_remove m q 0 of (c, q') \<Rightarrow> Some (c, m, q')))"

definition q_cap :: "bytes \<times> queue_t \<Rightarrow> nat" where
  "q_cap = (\<lambda>(m, q). unat (q_length q))"

lemma slot_index_eq:
  fixes k n :: u32
  assumes "k < n" and "j < unat n"
  shows "(of_nat j = k) = (j = unat k)"
  using of_nat_unat_less [OF assms(2)] by (auto simp: word_unat_eq_iff)

interpretation byte_queue: bounded_fifo byte_push byte_pop byte_contents q_cap "\<lambda>(m, q). queue_inv q" "\<lambda>_ _. True"
proof (unfold_locales, goal_cases)
  case (1 s x)
  then show ?case
    by (cases s) (auto simp: byte_push_def byte_contents_def q_cap_def queue_is_full_def queue_byte_insert_def word_unat_eq_iff)
next
  case (2 s x)
  obtain m q where s: "s = (m, q)" by (cases s)
  with 2 have ne: "elem_num q \<noteq> q_length q" and inv: "queue_inv q" by (auto simp: byte_contents_def q_cap_def)
  note Q = queue_inv_push [OF inv ne]
  have "ring (\<lambda>j. (m(address q + head q := x)) (address q + of_nat j)) (unat (tail q)) (Suc (unat (elem_num q)))
      (unat (q_length q)) = byte_contents s @ [x]"
    unfolding byte_contents_def s prod.case
    using inv slot_index_eq [OF head_less [OF inv]] Q(3)
    by (intro ring_push) (auto simp: queue_inv_def)
  then show ?case
    using Q ne inv
    by (simp add: s byte_push_def queue_is_full_def queue_byte_insert_def byte_contents_def q_cap_def cong: if_cong)
next
  case (3 s)
  then show ?case
    by (cases s) (auto simp: byte_pop_def byte_contents_def queue_is_empty_def ring_def unat_eq_0)
next
  case (4 s x xs)
  obtain m q where s: "s = (m, q)" by (cases s)
  with 4 have pos: "elem_num q > 0" and inv: "queue_inv q" by (auto simp: byte_contents_def ring_def word_gt_0)
  note Q = queue_inv_pop [OF inv pos]
  have t: "tail q < q_length q" using inv by (simp add: queue_inv_def)
  have "byte_contents s = m (address q + tail q) #
      ring (\<lambda>j. m (address q + of_nat j)) ((unat (tail q) + 1) mod unat (q_length q)) (unat (elem_num q - 1)) (unat (q_length q))"
    unfolding byte_contents_def s prod.case Q(2)
    using t by (subst ring_pop) (simp_all add: word_less_nat_alt)
  then show ?case
    using 4(2) Q pos inv t unat_QUEUE_INC_MOD [OF t]
    by (simp add: s byte_pop_def queue_is_empty_def queue_byte_remove_def byte_contents_def q_cap_def word_gt_0)
qed

section \<open>The routines of queue.c are a bounded FIFO of elements\<close>

text \<open>
  An element is the list of its bytes. The client keeps the element to insert at \<open>src\<close> and gets
  the removed one at \<open>dst\<close>, both outside the buffer of the queue.
\<close>

definition peek :: "bytes \<Rightarrow> u32 \<Rightarrow> u32 \<Rightarrow> u8 list" where
  "peek m p n = map (\<lambda>k. m (p + of_nat k)) [0..<unat n]"

definition poke :: "bytes \<Rightarrow> u32 \<Rightarrow> u8 list \<Rightarrow> bytes" where
  "poke m p xs = (\<lambda>a. if unat (a - p) < length xs then xs ! unat (a - p) else m a)"

definition slot :: "bytes \<Rightarrow> queue_t \<Rightarrow> nat \<Rightarrow> u8 list" where
  "slot m q j = peek m (address q + of_nat j * elem_size q) (elem_size q)"

definition elem_contents :: "bytes \<times> queue_t \<Rightarrow> u8 list list" where
  "elem_contents = (\<lambda>(m, q). ring (slot m q) (unat (tail q)) (unat (elem_num q)) (unat (q_length q)))"

definition elem_push :: "u32 \<Rightarrow> bytes \<times> queue_t \<Rightarrow> u8 list \<Rightarrow> bool \<times> bytes \<times> queue_t" where
  "elem_push src = (\<lambda>(m, q) x. queue_insert (poke m src x) q src)"

definition elem_pop :: "u32 \<Rightarrow> bytes \<times> queue_t \<Rightarrow> (u8 list \<times> bytes \<times> queue_t) option" where
  "elem_pop dst = (\<lambda>(m, q). case queue_remove m q dst of
     (ok, m', q') \<Rightarrow> if ok then Some (peek m' dst (elem_size q), m', q') else None)"

definition outside :: "u32 \<Rightarrow> queue_t \<Rightarrow> bool" where
  "outside p q \<longleftrightarrow> (\<forall>a. in_region a p (elem_size q) \<longrightarrow>
     unat (q_length q) * unat (elem_size q) \<le> unat (a - address q))"

lemma outside_offsets:
  "outside p q \<longleftrightarrow> (\<forall>k<unat (elem_size q). unat (q_length q) * unat (elem_size q) \<le> unat (p + of_nat k - address q))"
proof -
  have "outside p q \<longleftrightarrow> (\<forall>i<elem_size q. unat (q_length q) * unat (elem_size q) \<le> unat (p + i - address q))"
    unfolding outside_def by (metis add_diff_cancel_left' diff_add_cancel add.commute in_region_def)
  then show ?thesis by (simp only: all_less_of_nat)
qed

definition elem_inv :: "u32 \<Rightarrow> u32 \<Rightarrow> bytes \<times> queue_t \<Rightarrow> bool" where
  "elem_inv src dst = (\<lambda>(m, q). queue_inv q \<and> outside src q \<and> outside dst q)"

lemma slot_region:
  assumes "queue_inv q" and "j < unat (q_length q)"
  shows "in_region a (address q + of_nat j * elem_size q) (elem_size q) \<longleftrightarrow>
    j * unat (elem_size q) \<le> unat (a - address q) \<and> unat (a - address q) < Suc j * unat (elem_size q)"
    and "in_region a (address q + of_nat j * elem_size q) (elem_size q) \<Longrightarrow>
      unat (a - address q) < unat (q_length q) * unat (elem_size q)"
proof -
  define e where "e = unat (elem_size q)"
  define b where "b = of_nat j * elem_size q"
  have le: "Suc j * e \<le> unat (q_length q) * e" using assms(2) by (intro mult_right_mono) simp_all
  also have "\<dots> \<le> 2 ^ 32" using assms(1) by (simp add: queue_inv_def e_def)
  finally have sj: "Suc j * e \<le> 2 ^ 32" .
  have b: "unat b = j * e" if "e > 0"
  proof -
    have "j * e < 2 ^ 32" using sj that by simp
    then show ?thesis using assms(2) of_nat_unat_less [OF assms(2)]
      by (simp add: b_def e_def unat_mult_no_wrap)
  qed
  have eq: "a - (address q + b) = (a - address q) - b" by simp
  show iff: "in_region a (address q + of_nat j * elem_size q) (elem_size q) \<longleftrightarrow>
    j * unat (elem_size q) \<le> unat (a - address q) \<and> unat (a - address q) < Suc j * unat (elem_size q)"
  proof (cases "e = 0")
    case True
    then show ?thesis by (simp add: in_region_def e_def word_less_nat_alt)
  next
    case False
    then have "unat ((a - address q) - b) < e \<longleftrightarrow> j * e \<le> unat (a - address q) \<and> unat (a - address q) < Suc j * e"
      using b sj unat_lt2p [of "a - address q"] unat_sub_if' [of "a - address q" b]
      by (cases "b \<le> a - address q") (auto simp: word_le_nat_alt split: if_splits)
    then show ?thesis unfolding in_region_def word_less_nat_alt e_def [symmetric] b_def [symmetric] eq .
  qed
  show "in_region a (address q + of_nat j * elem_size q) (elem_size q) \<Longrightarrow>
      unat (a - address q) < unat (q_length q) * unat (elem_size q)"
    using iff le by (simp add: e_def)
qed

lemma peek_cong:
  assumes "\<And>a. in_region a p n \<Longrightarrow> m a = m' a"
  shows "peek m p n = peek m' p n"
  unfolding peek_def
proof (rule map_cong [OF refl])
  fix k assume "k \<in> set [0..<unat n]"
  then have "of_nat k < n" using of_nat_unat_less [of k n] by (simp add: word_less_nat_alt)
  then show "m (p + of_nat k) = m' (p + of_nat k)" by (intro assms) simp
qed

lemma peek_copy:
  assumes "\<And>i. i < n \<Longrightarrow> m' (p + i) = m (r + i)"
  shows "peek m' p n = peek m r n"
  unfolding peek_def
proof (rule map_cong [OF refl])
  fix k assume "k \<in> set [0..<unat n]"
  then have "of_nat k < n" using of_nat_unat_less [of k n] by (simp add: word_less_nat_alt)
  then show "m' (p + of_nat k) = m (r + of_nat k)" by (rule assms)
qed

lemma peek_poke: "length xs = unat n \<Longrightarrow> peek (poke m p xs) p n = xs"
  by (rule nth_equalityI) (simp_all add: peek_def poke_def of_nat_unat_less)

lemma outside_slot:
  assumes "queue_inv q" and "outside p q" and "j < unat (q_length q)"
  shows "disjoint (address q + of_nat j * elem_size q) (elem_size q) p (elem_size q)"
  using slot_region(2) [OF assms(1,3)] assms(2) by (fastforce simp: disjoint_def outside_def)

lemma slot_poke:
  assumes "queue_inv q" and "outside p q" and "j < unat (q_length q)" and "length xs = unat (elem_size q)"
  shows "slot (poke m p xs) q j = slot m q j"
  unfolding slot_def
proof (rule peek_cong)
  fix a assume "in_region a (address q + of_nat j * elem_size q) (elem_size q)"
  then have "\<not> in_region a p (elem_size q)" using outside_slot [OF assms(1-3)] disjointD by blast
  then show "poke m p xs a = m a" using assms(4) by (simp add: poke_def in_region_def word_less_nat_alt)
qed

lemma slot_distinct:
  assumes "queue_inv q" and "i < unat (q_length q)" and "j < unat (q_length q)" and "i \<noteq> j"
    and "in_region a (address q + of_nat i * elem_size q) (elem_size q)"
  shows "\<not> in_region a (address q + of_nat j * elem_size q) (elem_size q)"
proof
  define e where "e = unat (elem_size q)"
  assume "in_region a (address q + of_nat j * elem_size q) (elem_size q)"
  then have "i * e < Suc j * e" "j * e < Suc i * e"
    using assms(5) slot_region(1) [OF assms(1,2)] slot_region(1) [OF assms(1,3)] by (auto simp: e_def)
  then have "i < Suc j" "j < Suc i" by (metis mult_less_cancel2)+
  then show False using assms(4) by simp
qed

text \<open>Copying an element into a slot changes that slot only.\<close>

lemma slot_memcpy:
  assumes "queue_inv q" and "outside src q" and "h < unat (q_length q)" and "j < unat (q_length q)"
  shows "slot (memcpy m (address q + of_nat h * elem_size q) src (elem_size q)) q j =
    (if j = h then peek m src (elem_size q) else slot m q j)"
proof (cases "j = h")
  case True
  then show ?thesis unfolding slot_def
    using memcpy_apply [OF outside_slot [OF assms(1-3)]] by (auto intro!: peek_copy)
next
  case False
  then show ?thesis unfolding slot_def
    using memcpy_frame slot_distinct [OF assms(1,4,3)] by (auto intro!: peek_cong)
qed

interpretation elem_queue: bounded_fifo "elem_push src" "elem_pop dst" elem_contents q_cap "elem_inv src dst"
  "\<lambda>(m, q) x. length x = unat (elem_size q)"
  for src dst
proof (unfold_locales, goal_cases)
  case (1 s x)
  obtain m q where s: "s = (m, q)" by (cases s)
  with 1 have "elem_num q = q_length q" by (simp add: elem_contents_def q_cap_def word_unat_eq_iff)
  moreover have "elem_contents (poke m src x, q) = elem_contents (m, q)"
    using 1 s by (auto simp: elem_contents_def elem_inv_def slot_poke queue_inv_def word_gt_0 unat_gt_0 intro!: ring_cong)
  ultimately show ?case using 1 s by (simp add: elem_push_def queue_insert_def elem_inv_def q_cap_def)
next
  case (2 s x)
  obtain m q where s: "s = (m, q)" by (cases s)
  with 2 have ne: "elem_num q \<noteq> q_length q" and inv: "queue_inv q" and out: "outside src q" "outside dst q"
    and len: "length x = unat (elem_size q)"
    by (auto simp: elem_contents_def q_cap_def elem_inv_def)
  note Q = queue_inv_push [OF inv ne]
  have h: "unat (head q) < unat (q_length q)" using head_less [OF inv] by (simp add: word_less_nat_alt)
  define m' where "m' = memcpy (poke m src x) (address q + head q * elem_size q) src (elem_size q)"
  define q' where "q' = q\<lparr>head := QUEUE_INC_MOD (head q) (q_length q), elem_num := elem_num q + 1\<rparr>"
  have slots: "slot m' q j = (if j = unat (head q) then x else slot m q j)" if "j < unat (q_length q)" for j
    using slot_memcpy [OF inv out(1) h that, of "poke m src x"] peek_poke [OF len] slot_poke [OF inv out(1) that len]
    by (simp add: m'_def)
  have "slot m' q' = slot m' q" by (simp add: slot_def fun_eq_iff q'_def)
  then have "elem_contents (m', q') = elem_contents s @ [x]"
    unfolding elem_contents_def s prod.case
    using inv Q(2,3) slots by (simp add: q'_def queue_inv_def) (rule ring_push, auto)
  moreover have "elem_push src s x = (True, m', q')"
    using ne by (simp add: s elem_push_def queue_insert_def Let_def m'_def q'_def)
  ultimately show ?case using Q(1) out by (simp add: s elem_inv_def q_cap_def q'_def outside_def fun_eq_iff)
next
  case (3 s)
  then show ?case
    by (cases s) (auto simp: elem_pop_def elem_contents_def queue_remove_def ring_def unat_eq_0)
next
  case (4 s x xs)
  obtain m q where s: "s = (m, q)" by (cases s)
  with 4 have pos: "elem_num q > 0" and inv: "queue_inv q" and out: "outside src q" "outside dst q"
    by (auto simp: elem_contents_def ring_def word_gt_0 elem_inv_def)
  note Q = queue_inv_pop [OF inv pos]
  have t: "tail q < q_length q" "unat (tail q) < unat (q_length q)" using inv by (simp_all add: queue_inv_def word_less_nat_alt)
  define m' where "m' = memcpy m dst (address q + tail q * elem_size q) (elem_size q)"
  define q' where "q' = q\<lparr>tail := QUEUE_INC_MOD (tail q) (q_length q), elem_num := elem_num q - 1\<rparr>"
  have out_t: "disjoint dst (elem_size q) (address q + tail q * elem_size q) (elem_size q)"
    using outside_slot [OF inv out(2) t(2)] by (simp add: disjoint_sym)
  have got: "peek m' dst (elem_size q) = slot m q (unat (tail q))"
    unfolding slot_def m'_def using memcpy_apply [OF out_t] by (auto intro!: peek_copy)
  have keep: "slot m' q' j = slot m q j" if "j < unat (q_length q)" for j
    using outside_slot [OF inv out(2) that] memcpy_frame disjointD
    by (auto simp: slot_def m'_def q'_def intro!: peek_cong) 
  have "elem_contents s = slot m q (unat (tail q)) # elem_contents (m', q')"
    unfolding elem_contents_def s prod.case Q(2)
    using t unat_QUEUE_INC_MOD [OF t(1)] keep by (subst ring_pop) (auto simp: q'_def intro!: ring_cong)
  moreover have "elem_pop dst s = Some (peek m' dst (elem_size q), m', q')"
    using pos by (simp add: s elem_pop_def queue_remove_def m'_def q'_def)
  ultimately show ?case using 4(2) Q(1) out got by (simp add: s elem_inv_def q_cap_def q'_def outside_def fun_eq_iff)
qed

end
