(* ===== verification/Devs_Keyboard.thy ===== *)
theory Devs_Keyboard
  imports IA32_Io Libk_Queue
begin

text \<open>
  The PS/2 keyboard of keyboard.c: the interrupt handler stores scan codes in a ring of 256 bytes
  from which readers take them.
\<close>

definition KB_PORT :: u16 where "KB_PORT = 0x60"
definition KB_BUFF_LEN :: u16 where "KB_BUFF_LEN = 256"

record keyboard =
  KB_Buff :: "u16 \<Rightarrow> u8"
  lastKey :: u16
  kb_head :: u16
  kb_count :: u16

definition KB_IRQ :: "machine \<Rightarrow> trace \<Rightarrow> keyboard \<Rightarrow> trace \<times> keyboard" where
  "KB_IRQ hw tr s =
     (case inb hw KB_PORT tr of (ScanCode, tr') \<Rightarrow>
        (tr', if kb_count s \<noteq> KB_BUFF_LEN
              then s\<lparr>KB_Buff := (KB_Buff s)(lastKey s := ScanCode),
                     lastKey := (lastKey s + 1) mod KB_BUFF_LEN, kb_count := kb_count s + 1\<rparr>
              else s))"

definition KB_Get_Key :: "keyboard \<Rightarrow> u8 \<times> keyboard" where
  "KB_Get_Key s =
     (if kb_count s = 0 then (0, s)
      else (KB_Buff s (kb_head s),
            s\<lparr>kb_head := (kb_head s + 1) mod KB_BUFF_LEN, kb_count := kb_count s - 1\<rparr>))"

definition kb_inv :: "keyboard \<Rightarrow> bool" where
  "kb_inv s \<longleftrightarrow> kb_head s < KB_BUFF_LEN \<and> kb_count s \<le> KB_BUFF_LEN \<and>
     unat (lastKey s) = (unat (kb_head s) + unat (kb_count s)) mod 256"

definition kb_contents :: "keyboard \<Rightarrow> u8 list" where
  "kb_contents s = ring (\<lambda>j. KB_Buff s (of_nat j)) (unat (kb_head s)) (unat (kb_count s)) 256"

text \<open>A key press is an interrupt during which the controller delivers the scan code.\<close>

definition kb_press :: "keyboard \<Rightarrow> u8 \<Rightarrow> bool \<times> keyboard" where
  "kb_press s c = (kb_count s \<noteq> KB_BUFF_LEN, snd (KB_IRQ (\<lambda>_ _. ucast c) [] s))"

definition kb_take :: "keyboard \<Rightarrow> (u8 \<times> keyboard) option" where
  "kb_take s = (if kb_count s = 0 then None else Some (KB_Get_Key s))"

lemma KB_IRQ_press: "KB_IRQ hw tr s = (tr @ [In8 KB_PORT (ucast (hw tr (Port8 KB_PORT)))],
    snd (kb_press s (ucast (hw tr (Port8 KB_PORT)))))"
  by (simp add: KB_IRQ_def kb_press_def io_defs)

lemma unat_inc_256: "k < 256 \<Longrightarrow> unat ((k + 1) mod 256 :: u16) = (unat k + 1) mod 256"
  using unat_Suc_less [of k 256] by (simp add: unat_mod)

interpretation kb: bounded_fifo kb_press kb_take kb_contents "\<lambda>_. 256" kb_inv "\<lambda>_ _. True"
proof (unfold_locales, goal_cases)
  case (1 s x)
  then have "kb_count s = 256" by (simp add: kb_contents_def word_unat_eq_iff)
  then show ?case using 1 by (simp add: kb_press_def KB_IRQ_def KB_BUFF_LEN_def io_defs)
next
  case (2 s x)
  then have inv: "kb_head s < 256" "unat (lastKey s) = (unat (kb_head s) + unat (kb_count s)) mod 256"
    and lt: "unat (kb_count s) < 256"
    by (simp_all add: kb_inv_def KB_BUFF_LEN_def kb_contents_def)
  have c: "kb_count s < 256" using lt by (simp add: word_less_nat_alt)
  have l: "lastKey s < 256" using inv(2) by (simp add: word_less_nat_alt)
  define s' where "s' = s\<lparr>KB_Buff := (KB_Buff s)(lastKey s := x), lastKey := (lastKey s + 1) mod 256,
    kb_count := kb_count s + 1\<rparr>"
  have p: "kb_press s x = (True, s')"
    using c by (auto simp: kb_press_def KB_IRQ_def KB_BUFF_LEN_def io_defs s'_def)
  have u: "unat (kb_count s + 1) = Suc (unat (kb_count s))" using c by (rule unat_Suc_less)
  have "kb_inv s'"
    using inv lt u unat_inc_256 [OF l] by (simp add: kb_inv_def s'_def KB_BUFF_LEN_def word_le_nat_alt mod_Suc_eq)
  moreover have "kb_contents s' = kb_contents s @ [x]"
  proof -
    have eq: "(of_nat j = lastKey s) = (j = unat (lastKey s))" if "j < 256" for j
      using that by (simp add: word_unat_eq_iff unat_of_nat take_bit_nat_eq_self)
    show ?thesis
      unfolding kb_contents_def using u inv(2) lt eq
      by (simp add: s'_def) (rule ring_push, auto)
  qed
  ultimately show ?case using p by simp
next
  case (3 s)
  then have "unat (kb_count s) = 0" by (simp add: kb_contents_def ring_def)
  then show ?case by (simp add: kb_take_def unat_eq_0)
next
  case (4 s x xs)
  then have pos: "kb_count s \<noteq> 0" and inv: "kb_head s < 256"
    by (auto simp: kb_inv_def KB_BUFF_LEN_def kb_contents_def ring_def)
  then have u: "unat (kb_count s) = Suc (unat (kb_count s - 1))" by (simp add: unat_minus_one unat_gt_0)
  define s' where "s' = s\<lparr>kb_head := (kb_head s + 1) mod 256, kb_count := kb_count s - 1\<rparr>"
  have "kb_contents s = KB_Buff s (kb_head s) # kb_contents s'"
    unfolding kb_contents_def u using inv unat_inc_256 [OF inv]
    by (subst ring_pop) (simp_all add: s'_def word_less_nat_alt)
  moreover have "kb_inv s'"
    using 4(1) u unat_inc_256 [OF inv] by (simp add: kb_inv_def s'_def KB_BUFF_LEN_def word_le_nat_alt
        word_less_nat_alt mod_add_left_eq)
  moreover have "kb_take s = Some (KB_Buff s (kb_head s), s')"
    using pos by (simp add: kb_take_def KB_Get_Key_def KB_BUFF_LEN_def s'_def)
  ultimately show ?case using 4(2) by simp
qed

end
