(* ===== verification/Props_Kernel.thy ===== *)
theory Props_Kernel
  imports Coresys_Timer Coresys_Spinlock Devs_Keyboard Libk_Heap
begin

text \<open>
  The properties of the kernel services that do not touch the file system: heap, queues,
  keyboard buffer, software timers and spin locks, each applied to a concrete state.
\<close>

section \<open>Heap\<close>





section \<open>Queues\<close>





text \<open>
  C21. The keyboard buffer keeps key presses in order: when at most 256 scan codes are pending,
  KB_Get_Key delivers the pending ones and then the new ones, none lost and none twice.
\<close>

theorem keyboard_fifo:
  assumes "kb_inv s" and "length (kb_contents s) + length codes \<le> 256"
  shows "\<exists>s'. pop_n kb_take (length (kb_contents s) + length codes) (push_list kb_press s codes) =
      Some (kb_contents s @ codes, s') \<and> kb_inv s' \<and> kb_contents s' = []"
  using kb.fifo_order [of s codes] assms by simp

definition demo_keyboard :: keyboard where
  "demo_keyboard = \<lparr>KB_Buff = (\<lambda>_. 0), lastKey = 255, kb_head = 255, kb_count = 0\<rparr>"

theorem keyboard_fifo_witness:
  "\<exists>s'. pop_n kb_take 3 (push_list kb_press demo_keyboard [0x1E, 0x30, 0x2E]) = Some ([0x1E, 0x30, 0x2E], s') \<and>
     kb_inv s' \<and> kb_contents s' = []"
proof -
  have "kb_inv demo_keyboard" "kb_contents demo_keyboard = []"
    by (simp_all add: kb_inv_def demo_keyboard_def KB_BUFF_LEN_def kb_contents_def)
  then show ?thesis using keyboard_fifo [of demo_keyboard "[0x1E, 0x30, 0x2E]"] by (simp add: numeral_3_eq_3)
qed

text \<open>
  When the buffer is full, the interrupt handler reads the scan code from the controller and
  drops it: the pending codes stay as they are.
\<close>

lemma keyboard_full_drops:
  assumes "kb_inv s" and "length (kb_contents s) = 256"
  shows "KB_IRQ hw tr s = (tr @ [In8 KB_PORT (ucast (hw tr (Port8 KB_PORT)))], s)"
proof -
  have "kb_count s = KB_BUFF_LEN" using assms(2) by (simp add: kb_contents_def word_unat_eq_iff KB_BUFF_LEN_def)
  then show ?thesis by (simp add: KB_IRQ_def io_defs)
qed

definition full_keyboard :: keyboard where
  "full_keyboard = \<lparr>KB_Buff = (\<lambda>_. 7), lastKey = 5, kb_head = 5, kb_count = 256\<rparr>"

lemma keyboard_full_drops_witness:
  "KB_IRQ (\<lambda>_ _. 0x1E) [] full_keyboard = ([In8 KB_PORT 0x1E], full_keyboard)"
proof -
  have c: "kb_count full_keyboard = 256" by (simp add: full_keyboard_def)
  have "kb_inv full_keyboard" by (simp add: kb_inv_def full_keyboard_def KB_BUFF_LEN_def)
  moreover have "length (kb_contents full_keyboard) = 256" by (simp add: kb_contents_def c)
  ultimately show ?thesis using keyboard_full_drops [of full_keyboard "\<lambda>_ _. 0x1E" "[]"] by simp
qed

section \<open>Timers\<close>

text \<open>
  C18. A running timer with \<open>n\<close> on its counter counts exactly the ticks: whatever service calls
  and ticks happen, in whatever order, it is not expired while fewer than \<open>n\<close> ticks have passed and
  shows the rest; the \<open>n\<close>-th tick expires it. In particular SetTimer, StartTimer and SetTimerStart
  calls on it while it runs have no effect.
\<close>

theorem timer_countdown:
  assumes "timers_inv os" and "running (unat i) n os" and "timer_steps os evs os'"
  shows "(ticks evs < n \<longrightarrow> TimerExpired i os' = Some False \<and> GetTimerCount i os' = Some (of_nat (n - ticks evs))) \<and>
    (Suc (ticks evs) = n \<longrightarrow> TimerExpired i (SysTickFun c os') = Some True)"
proof -
  have R: "running (unat i) (n - ticks evs) os'" if "ticks evs < n" using running_steps [OF assms(3,1,2) that] .
  have inv: "timers_inv os'" using timer_steps_inv [OF assms(3,1)] .
  have "CountDown (TimerBlocks os' ! unat i) = of_nat (n - ticks evs)" if "ticks evs < n"
    using R [OF that] by (metis of_nat_unat running_def ucast_id)
  moreover have "TimerExpired i (SysTickFun c os') = Some True" if "Suc (ticks evs) = n"
  proof -
    have "running (unat i) (Suc 0) os'" using R that by force
    then have "running (unat i) 0 (SysTickFun c os')" using running_exec [of "Tick c" os'] inv by force
    then show ?thesis by (auto simp: running_def TimerExpired_def unat_eq_0)
  qed
  ultimately show ?thesis using R by (auto simp: running_def TimerExpired_def GetTimerCount_def)
qed

definition demo_os :: os_data where
  "demo_os = \<lparr>timestamp = 0, SysTickPeriod_ms = 0, SysTime_ms = 0,
     TimeSliceTimer = \<lparr>Started = False, Expired = False, CountDown = 20\<rparr>,
     TimerBlocks = \<lparr>Started = True, Expired = False, CountDown = 2\<rparr> #
       replicate 19 \<lparr>Started = False, Expired = False, CountDown = 0\<rparr>\<rparr>"

theorem timer_countdown_witness:
  "\<exists>os'. timer_steps demo_os [Set 0 9, Tick 1, Start 3] os' \<and>
     TimerExpired 0 os' = Some False \<and> GetTimerCount 0 os' = Some 1 \<and> TimerExpired 0 (SysTickFun 2 os') = Some True"
proof -
  have inv: "timers_inv demo_os" "running (unat (0 :: u16)) 2 demo_os"
    by (simp_all add: timers_inv_def demo_os_def running_def timer_consts)
  define os' where "os' = SysTickFun 1 demo_os"
  have l: "length (TimerBlocks os') = 20" using inv(1) by (simp add: os'_def SysTickFun_effect) (simp add: demo_os_def)
  have e3: "TimerBlocks os' ! 3 = \<lparr>Started = False, Expired = False, CountDown = 0\<rparr>"
    using inv(1) by (simp add: os'_def SysTickFun_effect) (simp add: demo_os_def tick_block_def)
  have "timer_steps demo_os [Set 0 9, Tick 1, Start 3] os'"
  proof -
    have "SetTimer 0 9 demo_os = Some (False, demo_os)" by (simp add: SetTimer_def demo_os_def)
    moreover have "StartTimer 3 os' = Some (False, os')" using l e3 by (simp add: StartTimer_def)
    ultimately have "timer_steps os' [Start 3] os'" by (auto intro: steps_Cons steps_Nil)
    then have "timer_steps demo_os [Tick 1, Start 3] os'" by (rule steps_Cons [rotated]) (simp add: os'_def)
    with \<open>SetTimer 0 9 demo_os = _\<close> show ?thesis by (auto intro: steps_Cons)
  qed
  then show ?thesis using timer_countdown [OF inv, of "[Set 0 9, Tick 1, Start 3]" os' 2] by auto
qed

text \<open>
  The time slice is periodic: from a fresh slice, and whatever services and ticks follow, the
  slice counter has come back to its full value exactly when the number of ticks is a multiple of
  20, and it never reads 0.
\<close>

lemma time_slice_period:
  assumes "timers_inv os" and "CountDown (TimeSliceTimer os) = OS_TIME_SLICE" and "timer_steps os evs os'"
  shows "(CountDown (TimeSliceTimer os') = OS_TIME_SLICE \<longleftrightarrow> ticks evs mod 20 = 0) \<and> CountDown (TimeSliceTimer os') \<noteq> 0"
proof -
  have "unat (CountDown (TimeSliceTimer os')) = 20 - ticks evs mod 20"
    using slice_steps [OF assms(3,1)] assms(2) by (simp add: OS_TIME_SLICE_def)
  moreover have "ticks evs mod 20 < 20" by simp
  ultimately show ?thesis by (auto simp: OS_TIME_SLICE_def word_unat_eq_iff unat_eq_0)
qed

lemma time_slice_period_witness:
  "\<exists>os'. timer_steps demo_os [Tick 1, SetStart 3 7] os' \<and> CountDown (TimeSliceTimer os') \<noteq> OS_TIME_SLICE"
proof -
  have inv: "timers_inv demo_os" "CountDown (TimeSliceTimer demo_os) = OS_TIME_SLICE"
    by (simp_all add: timers_inv_def demo_os_def timer_consts)
  have "timer_exec (SetStart 3 7) (SysTickFun 1 demo_os) \<noteq> None"
    using SysTickFun_inv [OF inv(1), of 1]
    by (auto simp: timer_services timers_inv_def timer_consts split: option.splits)
  then obtain r where "timer_exec (SetStart 3 7) (SysTickFun 1 demo_os) = Some r" by blast
  then have "timer_steps demo_os [Tick 1, SetStart 3 7] r" by (auto intro!: timer_steps.intros)
  then show ?thesis using time_slice_period [OF inv] by fastforce
qed

text \<open>
  C19. SetTimer access by access, with ticks in between: a call on a stopped timer returns TRUE and
  leaves exactly the requested count; on any timer a call that returns TRUE leaves the timer
  stopped with at most the requested count. It can be less: the tick handler decrements the new
  count of an expired timer that is still marked as started.
\<close>

theorem set_timer_interrupted:
  assumes "timers_inv os" and "i < length (TimerBlocks os)" and "stopped \<longrightarrow> \<not> Started (TimerBlocks os ! i)"
    and "(set_step i n)\<^sup>*\<^sup>* (Check_Started, os) (Returned r, os')"
  shows "(stopped \<longrightarrow> r \<and> CountDown (TimerBlocks os' ! i) = n) \<and>
    (r \<longrightarrow> \<not> Started (TimerBlocks os' ! i) \<and> CountDown (TimerBlocks os' ! i) \<le> n)"
proof -
  have "set_ok i n stopped (Check_Started, os)" using assms by (simp add: Let_def)
  from set_ok_steps [OF assms(4) this] show ?thesis by (cases r) (auto simp: Let_def)
qed

theorem set_timer_interrupted_witness:
  "\<exists>os'. (set_step 3 7)\<^sup>*\<^sup>* (Check_Started, demo_os) (Returned True, os') \<and> CountDown (TimerBlocks os' ! 3) = 7"
proof -
  have inv: "timers_inv demo_os" "3 < length (TimerBlocks demo_os)" "True \<longrightarrow> \<not> Started (TimerBlocks demo_os ! 3)"
    by (simp_all add: timers_inv_def demo_os_def timer_consts)
  define o1 where "o1 = set_block 3 ((TimerBlocks demo_os ! 3)\<lparr>CountDown := 7\<rparr>) demo_os"
  define o2 where "o2 = set_block 3 ((TimerBlocks o1 ! 3)\<lparr>Started := False\<rparr>) o1"
  have "set_step 3 7 (Check_Started, demo_os) (Write_CountDown, demo_os)"
    using read_Started [of 3 7 demo_os] inv(3) by simp
  moreover have "set_step 3 7 (Write_CountDown, demo_os) (Write_Started, o1)" unfolding o1_def by (rule write_CountDown)
  moreover have "set_step 3 7 (Write_Started, o1) (Returned True, o2)" unfolding o2_def by (rule write_Started)
  ultimately have "(set_step 3 7)\<^sup>*\<^sup>* (Check_Started, demo_os) (Returned True, o2)"
    by (meson converse_rtranclp_into_rtranclp rtranclp.rtrancl_refl)
  with set_timer_interrupted [OF inv this] show ?thesis by auto
qed

section \<open>Spin lock\<close>

text \<open>
  C16. Any number of processors on one lock: in every reachable state at most one of them is
  between the end of acquire and the end of release, the lock bit is set exactly while one is, and
  the upper bits of the word are untouched.
\<close>

theorem spinlock_mutual_exclusion:
  assumes "lock_step\<^sup>*\<^sup>* (lock_start w) s"
  shows "(holds_lock (cpu s c) \<and> holds_lock (cpu s d) \<longrightarrow> c = d) \<and>
    (spinlock_is_acquired (lock_word s) \<longleftrightarrow> (\<exists>c. holds_lock (cpu s c))) \<and> NOT 1 AND lock_word s = NOT 1 AND w"
  using lock_inv_reach [OF assms] unfolding lock_inv_def spinlock_is_acquired_bit by blast

theorem spinlock_mutual_exclusion_witness:
  "\<exists>s. lock_step\<^sup>*\<^sup>* (lock_start 8) s \<and> holds_lock (cpu s 1) \<and> \<not> holds_lock (cpu s 2)"
proof -
  define s1 where "s1 = go 1 Acquire (lock_start 8)"
  define s2 where "s2 = acquire_step 1 s1"
  have "lock_step (lock_start 8) s1" unfolding s1_def by (rule enter) (simp add: lock_start_def)
  moreover have "lock_step s1 s2" unfolding s2_def by (rule try_lock) (simp add: s1_def go_def)
  ultimately have r: "lock_step\<^sup>*\<^sup>* (lock_start 8) s2" by (meson converse_rtranclp_into_rtranclp rtranclp.rtrancl_refl)
  have "holds_lock (cpu s2 1)"
    by (simp add: s2_def s1_def acquire_step_def lock_btsl_0_def go_def lock_start_def spinlock_init_def
        SPINLOCK_BIT_LOCK_def)
  with r spinlock_mutual_exclusion [OF r, of 1 2] show ?thesis by auto
qed

text \<open>
  C17. A processor that waits for a lock nobody holds can enter its critical section by steps of
  its own, from every reachable state: the pause loop sees the cleared bit and the locked
  instruction takes it.
\<close>

theorem spinlock_free_lock_taken:
  assumes "lock_step\<^sup>*\<^sup>* (lock_start w) s" and "\<forall>c. \<not> holds_lock (cpu s c)"
    and "cpu s c = Acquire \<or> cpu s c = Spin_Pause"
  shows "\<exists>t. lock_step\<^sup>*\<^sup>* s t \<and> cpu t c = Critical"
  by (rule lock_progress [OF lock_inv_reach [OF assms(1)] assms(2,3)])

theorem spinlock_free_lock_taken_witness:
  "\<exists>t. lock_step\<^sup>*\<^sup>* (go 1 Acquire (lock_start 8)) t \<and> cpu t 1 = Critical"
proof -
  have "lock_step\<^sup>*\<^sup>* (lock_start 8) (go 1 Acquire (lock_start 8))"
    by (intro r_into_rtranclp enter) (simp add: lock_start_def)
  then show ?thesis by (rule spinlock_free_lock_taken) (simp_all add: lock_start_def go_def)
qed

end
