(* ===== verification/Libk_Time.thy ===== *)
theory Libk_Time
  imports Prelude
begin

text \<open>
  The calendar of time.c: broken-down time from a Unix time stamp, day of the week and day of the
  year. Intermediate values have the widths of the source; a time stamp is a 64-bit signed integer
  in the source and an \<open>int\<close> here, since no step of the conversion leaves that range.
\<close>

record tm =
  tm_sec :: int
  tm_min :: int
  tm_hour :: int
  tm_mday :: int
  tm_mon :: int
  tm_year :: int
  tm_wday :: int
  tm_yday :: int
  tm_isdst :: int

definition days_per_month :: "bool \<Rightarrow> u8 list" where
  "days_per_month is_leap =
     (if is_leap then [31, 29, 31, 30, 31, 30, 31, 31, 30, 31, 30, 31]
      else [31, 28, 31, 30, 31, 30, 31, 31, 30, 31, 30, 31])"

definition is_leap_year :: "u16 \<Rightarrow> bool" where
  "is_leap_year y = (if y mod 400 = 0 then True else y mod 4 = 0 \<and> \<not> y mod 100 = 0)"

text \<open>
  The sum over the months before \<open>m\<close>; the comparison \<open>i < m - 1\<close> is one of C ints. A month past
  twelve reads past the table.
\<close>

definition GetDayOfYear :: "u16 \<Rightarrow> u8 \<Rightarrow> u8 \<Rightarrow> u16 option" where
  "GetDayOfYear y m d =
     (if uint m - 1 \<le> 12
      then Some (fold (\<lambda>i ydays. ydays + ucast (days_per_month (is_leap_year y) ! i))
                   [0..<nat (uint m - 1)] 0 + ucast d)
      else None)"

definition GetDayOfWeek :: "u16 \<Rightarrow> u8 \<Rightarrow> u8 \<Rightarrow> u8" where
  "GetDayOfWeek y m d =
     (let (m', y') = (if m \<le> 2 then (m + 12, y - 1) else (m, y));
          j = (ucast (y' div 100) :: u32);
          k = (ucast (y' mod 100) :: u32);
          h = ucast d + 26 * (ucast m' + 1) div 10 + k + k div 4 + 5 * j + j div 4
      in ucast ((h + 5) mod 7 + 1))"

definition ts_to_date :: "int \<Rightarrow> tm \<Rightarrow> tm option" where
  "ts_to_date timestamp timeptr =
     (if timestamp < 1 then None
      else
        let sec = timestamp mod 60; times = timestamp div 60;
            min = times mod 60; times = times div 60;
            hour = times mod 24; times = times div 24;
            a = (of_int ((4 * times + 102032) div 146097 + 15) :: u32);
            b = (of_int (times + 2442113 + uint a - uint (a div 4)) :: u32);
            c = (20 * b - 2442) div 7305;
            d = b - 365 * c - c div 4;
            e = d * 1000 div 30601;
            f = d - e * 30 - e * 601 div 1000;
            (c, e) = (if e \<le> 13 then (c - 4716, e - 1) else (c - 4715, e - 13))
        in (case GetDayOfYear (ucast c) (ucast e) (ucast f) of
              None \<Rightarrow> None
            | Some ydays \<Rightarrow> Some (timeptr\<lparr>tm_sec := sec, tm_min := min, tm_hour := hour,
                tm_mday := sint f, tm_mon := sint e, tm_year := sint (c - 1900),
                tm_wday := uint (GetDayOfWeek (ucast c) (ucast e) (ucast f)), tm_yday := uint ydays\<rparr>)))"

section \<open>The calendar in natural numbers\<close>

definition leap :: "nat \<Rightarrow> bool" where
  "leap y \<longleftrightarrow> 4 dvd y \<and> (\<not> 100 dvd y \<or> 400 dvd y)"

definition month_days :: "nat \<Rightarrow> nat \<Rightarrow> nat" where
  "month_days y m = (if m = 2 then if leap y then 29 else 28
     else if m = 4 \<or> m = 6 \<or> m = 9 \<or> m = 11 then 30 else 31)"

definition valid_date :: "nat \<Rightarrow> nat \<Rightarrow> nat \<Rightarrow> bool" where
  "valid_date y m d \<longleftrightarrow> 1 \<le> m \<and> m \<le> 12 \<and> 1 \<le> d \<and> d \<le> month_days y m"

text \<open>Days before the first of January of a year, counted from year 1, and days since the epoch.\<close>

fun days_before_year :: "nat \<Rightarrow> nat" where
  "days_before_year 0 = 0"
| "days_before_year (Suc y) = days_before_year y + (if leap y then 366 else 365)"

definition days_before_month :: "nat \<Rightarrow> nat \<Rightarrow> nat" where
  "days_before_month y m = sum_list (map (month_days y) [1..<m])"

definition epoch_days :: "nat \<Rightarrow> nat \<Rightarrow> nat \<Rightarrow> nat" where
  "epoch_days y m d = days_before_year y - days_before_year 1970 + days_before_month y m + d - 1"

text \<open>The shifted calendar of the source: January and February belong to the year before.\<close>

definition year_base :: "nat \<Rightarrow> nat" where
  "year_base Y = 365 * Y + Y div 4 - Y div 100 + Y div 400"

definition shift_year :: "nat \<Rightarrow> nat \<Rightarrow> nat" where
  "shift_year y m = (if m \<le> 2 then y - 1 else y)"

definition shift_month :: "nat \<Rightarrow> nat" where
  "shift_month m = (if m \<le> 2 then m + 12 else m)"

lemma div_Suc_step: "0 < k \<Longrightarrow> Suc n div k = n div k + (if k dvd Suc n then 1 else 0)" for n k :: nat
  by (simp add: div_Suc dvd_eq_mod_eq_0)

lemma year_base_Suc: "year_base (Suc Y) = year_base Y + (if leap (Suc Y) then 366 else 365)"
proof -
  define A B C where "A = Y div 4" and "B = Y div 100" and "C = Y div 400"
  have le: "B \<le> A" unfolding A_def B_def by (simp add: div_le_mono2)
  have s4: "Suc Y div 4 = A + (if 4 dvd Suc Y then 1 else 0)"
    and s100: "Suc Y div 100 = B + (if 100 dvd Suc Y then 1 else 0)"
    and s400: "Suc Y div 400 = C + (if 400 dvd Suc Y then 1 else 0)"
    unfolding A_def B_def C_def by (rule div_Suc_step, simp)+
  have d4: "4 dvd Suc Y" if "100 dvd Suc Y" using that dvd_trans [of 4 100 "Suc Y"] by simp
  have d100: "100 dvd Suc Y" if "400 dvd Suc Y" using that dvd_trans [of 100 400 "Suc Y"] by simp
  have "365 * Suc Y + Suc Y div 4 - Suc Y div 100 + Suc Y div 400 =
    365 * Y + A - B + C + (if leap (Suc Y) then 366 else 365)"
    unfolding s4 s100 s400 leap_def
    using le d4 d100
    by (cases "4 dvd Suc Y"; cases "100 dvd Suc Y"; cases "400 dvd Suc Y") simp_all
  then show ?thesis unfolding year_base_def A_def B_def C_def .
qed

lemma year_base_mono: "m \<le> n \<Longrightarrow> year_base m \<le> year_base n"
  by (rule lift_Suc_mono_le [of year_base]) (simp_all add: year_base_Suc)

lemma days_before_year_base: "days_before_year (Suc Y) = year_base Y + 366"
  by (induction Y) (simp_all add: year_base_Suc, simp_all add: year_base_def leap_def)

lemma month_cases: "1 \<le> m \<Longrightarrow> m \<le> 12 \<Longrightarrow>
  m = 1 \<or> m = 2 \<or> m = 3 \<or> m = 4 \<or> m = 5 \<or> m = 6 \<or> m = 7 \<or> m = 8 \<or> m = 9 \<or> m = 10 \<or> m = 11 \<or> m = (12 :: nat)"
  by presburger

lemma days_before_month_shift:
  assumes "1 \<le> m" "m \<le> 12"
  shows "days_before_month y m + 398 =
    30 * shift_month m + 3 * (shift_month m + 1) div 5 + (if m \<le> 2 then 0 else if leap y then 366 else 365)"
  using month_cases [OF assms]
  by (elim disjE) (simp_all add: days_before_month_def month_days_def shift_month_def upt_conv_Cons)

lemma epoch_days_shift:
  assumes "1970 \<le> y" and "1 \<le> m" "m \<le> 12" and "1 \<le> d"
  shows "epoch_days y m d + 719561 =
    year_base (shift_year y m) + 30 * shift_month m + 3 * (shift_month m + 1) div 5 + d"
proof -
  obtain Y where Y: "y = Suc Y" "1969 \<le> Y" using assms(1) by (cases y) auto
  have mono: "year_base 1969 \<le> year_base Y" using Y(2) by (rule year_base_mono)
  have base: "days_before_year 1970 = 719528"
    using days_before_year_base [of 1969] by (simp add: year_base_def)
  have "days_before_year y = year_base Y + 366" using Y days_before_year_base by simp
  moreover have "year_base y = year_base Y + (if leap y then 366 else 365)" using Y year_base_Suc by simp
  moreover have "year_base 1969 = 719162" by (simp add: year_base_def)
  ultimately show ?thesis
    using days_before_month_shift [OF assms(2,3), of y] mono assms(4) Y(1)
    unfolding epoch_days_def base shift_year_def by (auto split: if_splits)
qed

section \<open>Inverting the day count\<close>

lemma shift_month_range: "1 \<le> m \<Longrightarrow> m \<le> 12 \<Longrightarrow> 3 \<le> shift_month m \<and> shift_month m \<le> 14"
  by (auto simp: shift_month_def)

lemma shift_month_cases: "3 \<le> M \<Longrightarrow> M \<le> 14 \<Longrightarrow>
  M = 3 \<or> M = 4 \<or> M = 5 \<or> M = 6 \<or> M = 7 \<or> M = 8 \<or> M = 9 \<or> M = 10 \<or> M = 11 \<or> M = 12 \<or> M = 13 \<or> M = (14 :: nat)"
  by presburger

text \<open>The day within the shifted year, offset by the 30 days of the month the source starts from.\<close>

definition year_day :: "nat \<Rightarrow> nat \<Rightarrow> nat" where
  "year_day M d = 30 * (M + 1) + 3 * (M + 1) div 5 + d"

lemma year_day_month:
  assumes "valid_date y m d"
  shows "year_day (shift_month m) d * 1000 div 30601 = shift_month m + 1"
    and "(shift_month m + 1) * 30 + (shift_month m + 1) * 601 div 1000 + d = year_day (shift_month m) d"
proof -
  have m: "1 \<le> m" "m \<le> 12" and d: "1 \<le> d" "d \<le> month_days y m" using assms by (auto simp: valid_date_def)
  have d31: "d \<le> 31" and d30: "m \<in> {4, 6, 9, 11} \<Longrightarrow> d \<le> 30" and d29: "m = 2 \<Longrightarrow> d \<le> 29"
    using d(2) by (auto simp: month_days_def split: if_splits)
  have "30601 * (shift_month m + 1) \<le> year_day (shift_month m) d * 1000"
    using month_cases [OF m] d(1) by (elim disjE) (simp_all add: year_day_def shift_month_def)
  moreover have "year_day (shift_month m) d * 1000 < 30601 * Suc (shift_month m + 1)"
    using month_cases [OF m] d31 d30 d29 by (elim disjE) (simp_all add: year_day_def shift_month_def)
  ultimately show "year_day (shift_month m) d * 1000 div 30601 = shift_month m + 1"
    by (intro div_nat_eqI) (simp_all add: mult.commute)
  show "(shift_month m + 1) * 30 + (shift_month m + 1) * 601 div 1000 + d = year_day (shift_month m) d"
    using month_cases [OF m] by (elim disjE) (simp_all add: year_day_def shift_month_def)
qed

lemma year_day_range:
  assumes "valid_date y m d" and "0 < y"
  shows "123 \<le> year_day (shift_month m) d"
    and "year_day (shift_month m) d \<le> (if leap (Suc (shift_year y m)) then 488 else 487)"
proof -
  have m: "1 \<le> m" "m \<le> 12" and d: "1 \<le> d" "d \<le> month_days y m" using assms by (auto simp: valid_date_def)
  show "123 \<le> year_day (shift_month m) d"
    using month_cases [OF m] d(1) by (elim disjE) (simp_all add: year_day_def shift_month_def)
  show "year_day (shift_month m) d \<le> (if leap (Suc (shift_year y m)) then 488 else 487)"
    using month_cases [OF m] d assms(2)
    by (elim disjE) (auto simp: year_day_def shift_month_def shift_year_def month_days_def split: if_splits)
qed

lemma leap_pred: "leap (Suc Y) \<Longrightarrow> Y mod 4 = 3"
proof -
  assume "leap (Suc Y)"
  then have "4 dvd Suc Y" unfolding leap_def by blast
  then show ?thesis by presburger
qed

lemma div_const: "n * k \<le> a \<Longrightarrow> a < Suc n * k \<Longrightarrow> a div k = n" for a k n :: nat
  by (rule div_nat_eqI) (simp_all add: mult.commute)

text \<open>The century correction of the source is right from 1970 to 2105.\<close>

definition century_a :: "nat \<Rightarrow> nat" where
  "century_a T = (4 * T + 102032) div 146097 + 15"

lemma century_correction:
  assumes "valid_date y m d" and "1970 \<le> y" "y \<le> 2105"
  defines "Y \<equiv> shift_year y m" and "T \<equiv> epoch_days y m d"
  shows "T + 2442113 + century_a T - century_a T div 4 =
      365 * (Y + 4716) + (Y + 4716) div 4 + year_day (shift_month m) d"
    and "century_a T \<le> 17" and "T \<le> 49672"
proof -
  define q where "q = 30 * shift_month m + 3 * (shift_month m + 1) div 5 + d"
  have qyd: "year_day (shift_month m) d = q + 30" by (simp add: q_def year_day_def)
  have q: "93 \<le> q" "q \<le> 458"
    using year_day_range [OF assms(1)] assms(2) unfolding qyd by (auto split: if_splits)
  have T: "T + 719561 = year_base Y + q"
    using epoch_days_shift [of y m d] assms(1,2) by (simp add: T_def Y_def q_def valid_date_def add.assoc)
  have Y: "1969 \<le> Y" "Y \<le> 2105" using assms(2,3) by (auto simp: Y_def shift_year_def)
  have yb: "year_base 1969 = 719162" "year_base 1999 = 730119" "year_base 2000 = 730485" "year_base 2099 = 766644"
    "year_base 2100 = 767009" "year_base 2105 = 768835" by (simp_all add: year_base_def)
  have Y4: "(Y + 4716) div 4 = Y div 4 + 1179" by simp
  consider (A) "Y \<le> 1999" | (B) "2000 \<le> Y" "Y \<le> 2099" | (C) "2100 \<le> Y" by linarith
  then have "century_a T = (if Y \<le> 2099 then if Y \<le> 1999 then 15 else 16 else 17) \<and>
      Y div 100 = (if Y \<le> 2099 then if Y \<le> 1999 then 19 else 20 else 21) \<and> Y div 400 = (if Y \<le> 1999 then 4 else 5)"
  proof cases
    case A
    then have "year_base Y \<le> 730119" using year_base_mono [of Y 1999] yb by simp
    then have "(4 * T + 102032) div 146097 = 0" using T q by (intro div_const) simp_all
    moreover have "Y div 100 = 19" "Y div 400 = 4" using A Y by (intro div_const; simp)+
    ultimately show ?thesis using A by (simp add: century_a_def)
  next
    case B
    have "\<not> leap 2100" by (simp add: leap_def)
    then have "q \<le> 457" if "Y = 2099"
      using year_day_range(2) [OF assms(1)] assms(2) that unfolding qyd Y_def [symmetric] by simp
    moreover have "year_base Y \<le> 766279" if "Y \<noteq> 2099" using year_base_mono [of Y 2098] that B by (simp add: year_base_def)
    moreover have "730485 \<le> year_base Y" "year_base Y \<le> 766644"
      using B year_base_mono [of 2000 Y] year_base_mono [of Y 2099] yb by simp_all
    ultimately have "year_base Y + q \<le> 767101" "730578 \<le> year_base Y + q" using q by (cases "Y = 2099"; simp)+
    then have "(4 * T + 102032) div 146097 = 1" using T q by (intro div_const) simp_all
    moreover have "Y div 100 = 20" "Y div 400 = 5" using B by (intro div_const; simp)+
    ultimately show ?thesis using B by (simp add: century_a_def)
  next
    case C
    then have "767009 \<le> year_base Y" "year_base Y \<le> 768835"
      using year_base_mono [of 2100 Y] year_base_mono [of Y 2105] yb Y by simp_all
    then have "(4 * T + 102032) div 146097 = 2" using T q by (intro div_const) simp_all
    moreover have "Y div 100 = 21" "Y div 400 = 5" using C Y by (intro div_const; simp)+
    ultimately show ?thesis using C by (simp add: century_a_def)
  qed
  then show "T + 2442113 + century_a T - century_a T div 4 =
      365 * (Y + 4716) + (Y + 4716) div 4 + year_day (shift_month m) d" and "century_a T \<le> 17"
    using T q Y unfolding qyd Y4 year_base_def by (simp_all split: if_splits)
  show "T \<le> 49672"
  proof (cases "Y = 2105")
    case True
    then have "\<not> m \<le> 2" using assms(3) by (auto simp: Y_def shift_year_def)
    then have "q \<le> 398"
      using month_cases [of m] assms(1) by (auto simp: q_def shift_month_def valid_date_def month_days_def)
    then show ?thesis using T True yb by simp
  next
    case False
    then show ?thesis using T q Y year_base_mono [of Y 2104] by (simp add: year_base_def)
  qed
qed

section \<open>The conversions\<close>

lemma GetDayOfYear_correct:
  assumes "1 \<le> m" "m \<le> 12" and "d \<le> 31" and "y < 65536"
  shows "GetDayOfYear (of_nat y) (of_nat m) (of_nat d) = Some (of_nat (days_before_month y m + d))"
proof -
  have md: "(of_nat y :: u16) mod of_nat k = 0 \<longleftrightarrow> k dvd y" if "k < 65536" for k
    using that assms(4) le_less_trans [OF mod_less_eq_dividend, of y 65536 k]
    by (simp add: of_nat_mod_word word_unat_eq_iff unat_of_nat take_bit_nat_eq_self dvd_eq_mod_eq_0)
  have "is_leap_year (of_nat y) = leap y"
    using md [of 400] md [of 4] md [of 100] dvd_trans [of 4 400 y] by (auto simp: is_leap_year_def leap_def)
  then show ?thesis
    using month_cases [OF assms(1,2)] assms(3)
    by (elim disjE) (simp_all add: GetDayOfYear_def days_per_month_def days_before_month_def month_days_def
        upt_conv_Cons ucast_of_nat)
qed

lemma zeller:
  assumes "3 \<le> M" "M \<le> 14" and "T + 719561 = year_base Y + 30 * M + 3 * (M + 1) div 5 + d"
  shows "(d + 26 * (M + 1) div 10 + Y mod 100 + Y mod 100 div 4 + 5 * (Y div 100) + Y div 100 div 4 + 5) mod 7 = (T + 3) mod 7"
proof -
  define j k where "j = Y div 100" and "k = Y mod 100"
  define p q where "p = j div 4" and "q = k div 4"
  have Y: "Y = 100 * j + k" by (simp add: j_def k_def)
  have y4: "Y div 4 = 25 * j + q" using arg_cong [OF Y, of "\<lambda>x. x div 4"] by (simp add: q_def)
  have y400: "Y div 400 = p" using div_mult2_eq [of Y 100 4] by (simp add: p_def j_def)
  have y365: "365 * Y = 365 * (100 * j + k)" by (rule arg_cong [OF Y])
  have yb: "year_base Y = 365 * (100 * j + k) + (25 * j + q) - j + p"
    unfolding year_base_def y365 y4 y400 j_def [symmetric] by (rule refl)
  have "T + 719561 = 36524 * j + 365 * k + q + p + 30 * M + 3 * (M + 1) div 5 + d"
    using assms(3) yb by simp
  moreover define u where "u = (30 * M + 3 * (M + 1) div 5 - 26 * (M + 1) div 10 - 5) div 7"
  moreover have "30 * M + 3 * (M + 1) div 5 = 26 * (M + 1) div 10 + 5 + 7 * u"
    using shift_month_cases [OF assms(1,2)] unfolding u_def by (elim disjE) simp_all
  ultimately have "T + 3 + 7 * 102794 =
    d + 26 * (M + 1) div 10 + k + q + 5 * j + p + 5 + 7 * (5217 * j + 52 * k + u)" by simp
  then have "(T + 3) mod 7 = (d + 26 * (M + 1) div 10 + k + q + 5 * j + p + 5) mod 7"
    by (metis mod_mult_self2)
  then show ?thesis by (simp only: j_def k_def p_def q_def)
qed

lemma GetDayOfWeek_correct:
  assumes "valid_date y m d" and "1970 \<le> y" "y \<le> 2105"
  shows "GetDayOfWeek (of_nat y) (of_nat m) (of_nat d) = of_nat ((epoch_days y m d + 3) mod 7 + 1)"
proof -
  define Y M where "Y = shift_year y m" and "M = shift_month m"
  have v: "1 \<le> m" "m \<le> 12" "1 \<le> d" "d \<le> 31"
    using assms(1) by (auto simp: valid_date_def month_days_def split: if_splits)
  have M: "3 \<le> M" "M \<le> 14" using v by (auto simp: M_def shift_month_def)
  have Y: "Y < 2200" using assms(3) unfolding Y_def shift_year_def by (split if_split) linarith
  have le: "((of_nat m :: u8) \<le> 2) = (m \<le> 2)" using v of_nat_le_word [of m 2, where ?'a = 8] by simp
  have y1: "(of_nat y :: u16) - 1 = of_nat (y - 1)" using assms(2) by (simp add: of_nat_diff)
  have sh: "(if (of_nat m :: u8) \<le> 2 then (of_nat m + 12, of_nat y - 1) else (of_nat m, of_nat y)) = (of_nat M :: u8, of_nat Y :: u16)"
    by (simp add: le y1 M_def Y_def shift_month_def shift_year_def)
  have j: "ucast ((of_nat Y :: u16) div 100) = (of_nat (Y div 100) :: u32)"
    and k: "ucast ((of_nat Y :: u16) mod 100) = (of_nat (Y mod 100) :: u32)"
    using Y of_nat_div_word [of Y 100, where ?'a = 16] of_nat_mod_word [of Y 100, where ?'a = 16]
      le_less_trans [OF div_le_dividend, of Y 65536 100] by (simp_all add: ucast_of_nat le_less_trans [OF mod_le_divisor, of 100 65536])
  have q4: "(of_nat (Y mod 100) :: u32) div 4 = of_nat (Y mod 100 div 4)" "(of_nat (Y div 100) :: u32) div 4 = of_nat (Y div 100 div 4)"
    using Y of_nat_div_word [of "Y mod 100" 4, where ?'a = 32] of_nat_div_word [of "Y div 100" 4, where ?'a = 32] by simp_all
  have z: "26 * ((ucast (of_nat M :: u8) :: u32) + 1) div 10 = of_nat (26 * (M + 1) div 10)"
    using shift_month_cases [OF M] by (elim disjE) simp_all
  define h where "h = d + 26 * (M + 1) div 10 + Y mod 100 + Y mod 100 div 4 + 5 * (Y div 100) + Y div 100 div 4 + 5"
  have hb: "h < 1000" unfolding h_def using M Y v(4) by (simp add: less_mult_imp_div_less)
  have "h mod 7 = (epoch_days y m d + 3) mod 7"
    unfolding h_def using M epoch_days_shift [OF assms(2) v(1,2,3)]
    by (intro zeller) (simp_all add: Y_def M_def)
  moreover have "GetDayOfWeek (of_nat y) (of_nat m) (of_nat d) = ucast ((of_nat h :: u32) mod 7 + 1)"
    unfolding GetDayOfWeek_def sh Let_def prod.case j k q4 z h_def using v by (simp add: ucast_of_nat add_ac)
  moreover have "(of_nat h :: u32) mod 7 + 1 = of_nat (h mod 7 + 1)"
    using of_nat_mod_word [of h 7, where ?'a = 32] hb by simp
  moreover have "h mod 7 < 7" by simp
  ultimately show ?thesis by (simp add: ucast_of_nat del: of_nat_Suc of_nat_add)
qed

text \<open>The time stamp of a date and a time of day.\<close>

definition epoch_seconds :: "nat \<Rightarrow> nat \<Rightarrow> nat \<Rightarrow> nat \<Rightarrow> nat \<Rightarrow> nat \<Rightarrow> nat" where
  "epoch_seconds y m d hh mi ss = 86400 * epoch_days y m d + 3600 * hh + 60 * mi + ss"

lemma div_mod_pair: "a < k \<Longrightarrow> (a + k * b) mod k = a" "a < k \<Longrightarrow> (a + k * b) div k = b" for a b k :: nat
  by simp_all

lemma epoch_seconds_split:
  fixes y m d hh mi ss :: nat
  assumes "hh < 24" "mi < 60" "ss < 60"
  defines "ts \<equiv> int (epoch_seconds y m d hh mi ss)"
  shows "ts mod 60 = int ss" "ts div 60 mod 60 = int mi" "ts div 60 div 60 mod 24 = int hh"
    "ts div 60 div 60 div 24 = int (epoch_days y m d)"
proof -
  define N where "N = epoch_seconds y m d hh mi ss"
  have N: "N = ss + 60 * (mi + 60 * (hh + 24 * epoch_days y m d))" by (simp add: N_def epoch_seconds_def)
  have "N mod 60 = ss" "N div 60 = mi + 60 * (hh + 24 * epoch_days y m d)"
    unfolding N using assms(3) by (rule div_mod_pair)+
  moreover from this have "N div 60 mod 60 = mi" "N div 60 div 60 = hh + 24 * epoch_days y m d"
    using assms(2) by (simp_all only: div_mod_pair)
  moreover from this have "N div 60 div 60 mod 24 = hh" "N div 60 div 60 div 24 = epoch_days y m d"
    using assms(1) by (simp_all only: div_mod_pair)
  ultimately show "ts mod 60 = int ss" "ts div 60 mod 60 = int mi" "ts div 60 div 60 mod 24 = int hh"
    "ts div 60 div 60 div 24 = int (epoch_days y m d)"
    unfolding ts_def N_def [symmetric] by (metis zdiv_int zmod_int of_nat_numeral)+
qed

lemma date_words:
  fixes y m d :: nat
  assumes "valid_date y m d" and "1970 \<le> y" "y \<le> 2105"
  defines "T \<equiv> epoch_days y m d" and "Y \<equiv> shift_year y m" and "M \<equiv> shift_month m"
  defines "a \<equiv> (of_int ((4 * int T + 102032) div 146097 + 15) :: u32)"
  defines "b \<equiv> (of_int (int T + 2442113 + uint a - uint (a div 4)) :: u32)"
  defines "c \<equiv> (20 * b - 2442) div 7305"
  defines "r \<equiv> b - 365 * c - c div 4"
  shows "c = of_nat (Y + 4716)" and "r = of_nat (year_day M d)"
    and "r * 1000 div 30601 = of_nat (M + 1)" and "r - of_nat (M + 1) * 30 - of_nat (M + 1) * 601 div 1000 = of_nat d"
proof -
  have Y: "Y \<le> 2105" using assms(3) unfolding Y_def shift_year_def by (split if_split) linarith
  have M: "3 \<le> M" "M \<le> 14" using assms(1) by (auto simp: M_def shift_month_def valid_date_def)
  have yd: "123 \<le> year_day M d" "year_day M d \<le> (if leap (Suc Y) then 488 else 487)"
    using year_day_range [OF assms(1)] assms(2) by (simp_all add: M_def Y_def)
  note cc = century_correction [OF assms(1-3), folded T_def Y_def M_def]
  have a: "a = of_nat (century_a T)"
  proof -
    have "(4 * int T + 102032) div 146097 + 15 = int (century_a T)" by (simp add: century_a_def zdiv_int)
    then show ?thesis unfolding a_def by (metis of_int_of_nat_eq)
  qed
  define B where "B = 365 * (Y + 4716) + (Y + 4716) div 4 + year_day M d"
  have "uint a - uint (a div 4) = int (century_a T) - int (century_a T div 4)"
    using cc(2) of_nat_div_word [of "century_a T" 4, where ?'a = 32]
    by (simp add: a uint_of_nat_small del: of_nat_numeral) (simp add: uint_of_nat_small)
  moreover have "century_a T div 4 \<le> T + 2442113 + century_a T" using div_le_dividend [of "century_a T" 4] by linarith
  ultimately have "int T + 2442113 + uint a - uint (a div 4) = int B"
    using cc(1) unfolding B_def by linarith
  then have b: "b = of_nat B" unfolding b_def by (metis of_int_of_nat_eq)
  have B20: "20 * B - 2442 < 7305 * (Y + 4716 + 1)" "7305 * (Y + 4716) \<le> 20 * B - 2442" "2442 \<le> 20 * B" "B < 3000000"
  proof -
    define k s where "k = (Y + 4716) div 4" and "s = (Y + 4716) mod 4"
    have Y': "Y + 4716 = 4 * k + s" "s < 4" by (simp_all add: k_def s_def)
    have "s = Y mod 4" unfolding s_def by presburger
    then have u: "20 * year_day M d \<le> 9745 + 5 * s" using yd(2) leap_pred [of Y] by (auto split: if_splits)
    have B: "B = 365 * (4 * k + s) + k + year_day M d" unfolding B_def Y'(1) using Y'(2) by simp
    have "4 * k + s \<le> 6821" using Y Y' by simp
    with u yd(1) Y'(2) show "20 * B - 2442 < 7305 * (Y + 4716 + 1)" "7305 * (Y + 4716) \<le> 20 * B - 2442" "2442 \<le> 20 * B" "B < 3000000"
      unfolding B Y'(1) by simp_all
  qed
  have "20 * b - 2442 = of_nat (20 * B - 2442)" using B20(3) by (simp add: b of_nat_diff)
  then show c: "c = of_nat (Y + 4716)"
    using of_nat_div_word [of "20 * B - 2442" 7305, where ?'a = 32] B20 div_nat_eqI [of 7305 "Y + 4716" "20 * B - 2442"]
    unfolding c_def by simp
  have "c div 4 = of_nat ((Y + 4716) div 4)" using of_nat_div_word [of "Y + 4716" 4, where ?'a = 32] Y by (simp add: c)
  then show r: "r = of_nat (year_day M d)" by (simp add: r_def c b B_def)
  show "r * 1000 div 30601 = of_nat (M + 1)"
    using of_nat_div_word [of "year_day M d * 1000" 30601, where ?'a = 32] yd(2) year_day_month(1) [OF assms(1), folded M_def]
    by (simp add: r split: if_splits)
  have "of_nat (M + 1) * 601 div 1000 = (of_nat ((M + 1) * 601 div 1000) :: u32)"
    using shift_month_cases [OF M] by (elim disjE) simp_all
  then show "r - of_nat (M + 1) * 30 - of_nat (M + 1) * 601 div 1000 = of_nat d"
    using arg_cong [OF year_day_month(2) [OF assms(1), folded M_def], of "of_nat :: nat \<Rightarrow> u32"] by (simp add: r algebra_simps)
qed

lemma ts_to_date_epoch:
  assumes v: "valid_date y m d" and y: "1970 \<le> y" "y \<le> 2105" and t: "hh < 24" "mi < 60" "ss < 60"
    and pos: "0 < epoch_seconds y m d hh mi ss"
  shows "ts_to_date (int (epoch_seconds y m d hh mi ss)) tp =
    Some (tp\<lparr>tm_sec := int ss, tm_min := int mi, tm_hour := int hh, tm_mday := int d, tm_mon := int m,
      tm_year := int y - 1900, tm_wday := int ((epoch_days y m d + 3) mod 7 + 1),
      tm_yday := int (days_before_month y m + d)\<rparr>)"
proof -
  define Y M where "Y = shift_year y m" and "M = shift_month m"
  have v': "1 \<le> m" "m \<le> 12" "1 \<le> d" "d \<le> 31"
    using v by (auto simp: valid_date_def month_days_def split: if_splits)
  note dw = date_words [OF v y, folded Y_def M_def]
  note c = dw(1)
  note r = dw(2) [unfolded c]
  note e = dw(3) [unfolded c r]
  note f = dw(4) [unfolded c r]
  note ts = epoch_seconds_split [OF t, of y m d]
  have le: "((of_nat (M + 1) :: u32) \<le> 13) = (M + 1 \<le> 13)"
    using v' of_nat_le_word [of "M + 1" 13, where ?'a = 32] by (simp add: M_def shift_month_def)
  have ce: "(if (of_nat (M + 1) :: u32) \<le> 13 then (of_nat (Y + 4716) - 4716 :: u32, of_nat (M + 1) - 1 :: u32)
      else (of_nat (Y + 4716) - 4715, of_nat (M + 1) - 13)) = (of_nat y, of_nat m)"
    using v' y unfolding le by (auto simp: M_def Y_def shift_month_def shift_year_def of_nat_diff)
  have dbm: "days_before_month y m < 400" using days_before_month_shift [OF v'(1,2), of y] v'
    by (auto simp: shift_month_def split: if_splits)
  have uc: "ucast (of_nat y :: u32) = (of_nat y :: u16)" "ucast (of_nat m :: u32) = (of_nat m :: u8)"
    "ucast (of_nat d :: u32) = (of_nat d :: u8)"
    using y v' by (simp_all add: ucast_of_nat)
  have s: "sint (of_nat d :: u32) = int d" "sint (of_nat m :: u32) = int m" "sint (of_nat y - 1900 :: u32) = int y - 1900"
    using v' y sint_of_nat_small [of "y - 1900", where ?'a = 32] by (simp_all add: sint_of_nat_small of_nat_diff)
  have w: "uint (of_nat ((epoch_days y m d + 3) mod 7 + 1) :: u8) = int ((epoch_days y m d + 3) mod 7 + 1)"
    by (rule uint_of_nat_small) (simp add: less_Suc_eq_le order.trans [OF mod_le_divisor])
  have yd: "uint (of_nat (days_before_month y m + d) :: u16) = int (days_before_month y m + d)"
    using dbm v' by (intro uint_of_nat_small) simp
  have "\<not> int (epoch_seconds y m d hh mi ss) < 1" using pos by simp
  then show ?thesis
    unfolding ts_to_date_def Let_def ts c r e f ce prod.case uc s
      GetDayOfYear_correct [OF v'(1,2,4) le_less_trans [OF y(2), of 65536, simplified]]
      GetDayOfWeek_correct [OF v y] w yd option.case
    by (simp only: if_False)
qed

end
