(* ===== verification/IA32_Rtc.thy ===== *)
theory IA32_Rtc
  imports IA32_Io Libk_Time
begin

text \<open>
  The real-time clock of rtc.c: register access through the CMOS ports, the read-twice protocol of
  RTC_GetTimestamp and the conversion of a CMOS date to Unix time. The wait loops may never end, so
  the protocol is a partial function in which not returning is \<open>None\<close>.
\<close>

definition RTC_CTRL_PORT :: u16 where "RTC_CTRL_PORT = 0x70"
definition RTC_DATA_PORT :: u16 where "RTC_DATA_PORT = 0x71"
definition RTC_REG_STATUS_B :: u8 where "RTC_REG_STATUS_B = 0x0B"
definition RTC_REG_SECONDS :: u8 where "RTC_REG_SECONDS = 0x00"
definition RTC_REG_MINUTES :: u8 where "RTC_REG_MINUTES = 0x02"
definition RTC_REG_HOURS :: u8 where "RTC_REG_HOURS = 0x04"
definition RTC_REG_WEEK_DAY :: u8 where "RTC_REG_WEEK_DAY = 0x06"
definition RTC_REG_DAY :: u8 where "RTC_REG_DAY = 0x07"
definition RTC_REG_MONTH :: u8 where "RTC_REG_MONTH = 0x08"
definition RTC_REG_YEAR :: u8 where "RTC_REG_YEAR = 0x09"
definition RTC_REG_CENTURY :: u8 where "RTC_REG_CENTURY = 0x32"
definition RTC_SET_24H :: u8 where "RTC_SET_24H = 0x02"

lemmas rtc_regs = RTC_CTRL_PORT_def RTC_DATA_PORT_def RTC_REG_STATUS_B_def RTC_REG_SECONDS_def RTC_REG_MINUTES_def
  RTC_REG_HOURS_def RTC_REG_WEEK_DAY_def RTC_REG_DAY_def RTC_REG_MONTH_def RTC_REG_YEAR_def RTC_REG_CENTURY_def

record rtc_date =
  sec :: u8
  mins :: u8
  hours :: u8
  day :: u8
  weekd :: u8
  month :: u8
  year :: u8
  century :: u8

definition readCMOS_reg :: "machine \<Rightarrow> u8 \<Rightarrow> trace \<Rightarrow> u8 \<times> trace" where
  "readCMOS_reg hw reg tr = inb hw RTC_DATA_PORT (outb reg RTC_CTRL_PORT tr)"

definition writeCMOS_reg :: "u8 \<Rightarrow> u8 \<Rightarrow> trace \<Rightarrow> trace" where
  "writeCMOS_reg reg v tr = outb v RTC_DATA_PORT (outb reg RTC_CTRL_PORT tr)"

definition RTC_read_date_time :: "machine \<Rightarrow> trace \<Rightarrow> rtc_date \<times> trace" where
  "RTC_read_date_time hw tr =
     (let (s, tr) = readCMOS_reg hw RTC_REG_SECONDS tr;
          (mi, tr) = readCMOS_reg hw RTC_REG_MINUTES tr;
          (h, tr) = readCMOS_reg hw RTC_REG_HOURS tr;
          (w, tr) = readCMOS_reg hw RTC_REG_WEEK_DAY tr;
          (d, tr) = readCMOS_reg hw RTC_REG_DAY tr;
          (mo, tr) = readCMOS_reg hw RTC_REG_MONTH tr;
          (y, tr) = readCMOS_reg hw RTC_REG_YEAR tr;
          (c, tr) = readCMOS_reg hw RTC_REG_CENTURY tr
      in (\<lparr>sec = BCD2DEC s, mins = BCD2DEC mi, hours = BCD2DEC (h AND 0x7F), day = BCD2DEC d,
           weekd = BCD2DEC w, month = BCD2DEC mo, year = BCD2DEC y, century = BCD2DEC c\<rparr>, tr))"

definition RTC_Init :: "machine \<Rightarrow> trace \<Rightarrow> trace" where
  "RTC_Init hw tr =
     (let (v, tr) = readCMOS_reg hw RTC_REG_STATUS_B tr in
      writeCMOS_reg RTC_REG_STATUS_B (v OR RTC_SET_24H) tr)"

definition RTC_DateToTimestamp :: "rtc_date \<Rightarrow> int" where
  "RTC_DateToTimestamp date =
     (let y = (ucast (year date) + ucast (century date) * 100 :: u16);
          m = month date;
          d = day date;
          (m, y) = (if m \<le> 2 then (m + 12, y - 1) else (m, y));
          t = 365 * ucast y + ucast y div 4 - ucast y div 100 + ucast y div (400 :: u32);
          t = t + (30 * ucast m + 3 * (ucast m + 1) div 5 + ucast d);
          t = t - 719561;
          t = t * 86400;
          t = t + (3600 * ucast (hours date) + 60 * ucast (mins date) + ucast (sec date))
      in uint t)"

text \<open>\<open>do up_in_progress = ...; while (up_in_progress == 0)\<close>\<close>

partial_function (option) wait_update :: "machine \<Rightarrow> trace \<Rightarrow> trace option" where
  "wait_update hw tr =
     (case readCMOS_reg hw 0x0A tr of
        (v, tr') \<Rightarrow> if v AND push_bit 7 1 = 0 then wait_update hw tr' else Some tr')"

definition rtc_read_once :: "machine \<Rightarrow> trace \<Rightarrow> (rtc_date \<times> trace) option" where
  "rtc_read_once hw tr = map_option (RTC_read_date_time hw) (wait_update hw tr)"

text \<open>The body of the outer loop: two dates, each after a wait.\<close>

definition rtc_read_twice :: "machine \<Rightarrow> trace \<Rightarrow> (rtc_date \<times> rtc_date \<times> trace) option" where
  "rtc_read_twice hw tr =
     (case rtc_read_once hw tr of
        None \<Rightarrow> None
      | Some (d1, tr1) \<Rightarrow> (case rtc_read_once hw tr1 of
          None \<Rightarrow> None
        | Some (d2, tr2) \<Rightarrow> Some (d1, d2, tr2)))"

fun rtc_tries :: "nat \<Rightarrow> machine \<Rightarrow> trace \<Rightarrow> (rtc_date option \<times> trace) option" where
  "rtc_tries 0 hw tr = Some (None, tr)"
| "rtc_tries (Suc tries) hw tr =
     (case rtc_read_twice hw tr of
        None \<Rightarrow> None
      | Some (d1, d2, tr') \<Rightarrow> if d1 = d2 then Some (Some d2, tr') else rtc_tries tries hw tr')"

definition RTC_GetTimestamp :: "machine \<Rightarrow> trace \<Rightarrow> (bool \<times> int \<times> trace) option" where
  "RTC_GetTimestamp hw tr =
     (case rtc_tries 3 hw tr of
        None \<Rightarrow> None
      | Some (None, tr') \<Rightarrow> Some (False, 0, tr')
      | Some (Some d, tr') \<Rightarrow> Some (True, RTC_DateToTimestamp d, tr'))"

section \<open>A date from the clock\<close>

definition bcd :: "nat \<Rightarrow> u8" where
  "bcd n = of_nat (16 * (n div 10) + n mod 10)"

lemma BCD2DEC_bcd_all: "list_all (\<lambda>n. BCD2DEC (bcd n) = of_nat n) [0..<100]"
  by code_simp

lemma BCD2DEC_bcd: "n < 100 \<Longrightarrow> BCD2DEC (bcd n) = of_nat n"
  using BCD2DEC_bcd_all by (simp add: list_all_iff)

lemma bcd_mask: "n < 80 \<Longrightarrow> bcd n AND 0x7F = bcd n"
proof -
  have "list_all (\<lambda>n. bcd n AND 0x7F = bcd n) [0..<80]" by code_simp
  then show "n < 80 \<Longrightarrow> ?thesis" by (simp add: list_all_iff)
qed

text \<open>The CMOS date of a calendar date; the weekday register is not used by the conversion.\<close>

definition cmos_date :: "nat \<Rightarrow> nat \<Rightarrow> nat \<Rightarrow> nat \<Rightarrow> nat \<Rightarrow> nat \<Rightarrow> u8 \<Rightarrow> rtc_date" where
  "cmos_date y m d hh mi ss w =
     \<lparr>sec = of_nat ss, mins = of_nat mi, hours = of_nat hh, day = of_nat d, weekd = w, month = of_nat m,
      year = of_nat (y mod 100), century = of_nat (y div 100)\<rparr>"

text \<open>The conversion is exact while the number of seconds fits 32 bits.\<close>

lemma DateToTimestamp_correct:
  assumes "valid_date y m d" and "1970 \<le> y" "y \<le> 2105" and "hh < 24" "mi < 60" "ss < 60"
  shows "RTC_DateToTimestamp (cmos_date y m d hh mi ss w) = int (epoch_seconds y m d hh mi ss)"
proof -
  define Y M where "Y = shift_year y m" and "M = shift_month m"
  have v: "1 \<le> m" "m \<le> 12" "1 \<le> d" "d \<le> 31"
    using assms(1) by (auto simp: valid_date_def month_days_def split: if_splits)
  have M: "3 \<le> M" "M \<le> 14" using v by (auto simp: M_def shift_month_def)
  have Y: "1969 \<le> Y" "Y < 2200" using assms(2,3) unfolding Y_def shift_year_def by (split if_split, linarith)+
  have ty: "ucast (of_nat (y mod 100) :: u8) + ucast (of_nat (y div 100) :: u8) * 100 = (of_nat y :: u16)"
  proof -
    have "y mod 100 < 256" "y div 100 < 256" using assms(3) by (simp_all add: less_mult_imp_div_less order.strict_trans [OF mod_less_divisor])
    then have "ucast (of_nat (y mod 100) :: u8) + ucast (of_nat (y div 100) :: u8) * 100 =
        (of_nat (y mod 100) + of_nat (y div 100) * of_nat 100 :: u16)"
      by (simp add: ucast_of_nat)
    also have "\<dots> = of_nat (y mod 100 + y div 100 * 100)" by (simp only: of_nat_add of_nat_mult)
    finally show ?thesis by (simp only: mod_div_mult_eq)
  qed
  have le: "((of_nat m :: u8) \<le> 2) = (m \<le> 2)" using v of_nat_le_word [of m 2, where ?'a = 8] by simp
  have y1: "(of_nat y :: u16) - 1 = of_nat (y - 1)" using assms(2) by (simp add: of_nat_diff)
  have sh: "(if (of_nat m :: u8) \<le> 2 then (of_nat m + 12, of_nat y - 1) else (of_nat m, of_nat y)) = (of_nat M :: u8, of_nat Y :: u16)"
    by (simp add: le y1 M_def Y_def shift_month_def shift_year_def)
  have yu: "ucast (of_nat Y :: u16) = (of_nat Y :: u32)" and mu: "ucast (of_nat M :: u8) = (of_nat M :: u32)"
    using Y M by (simp_all add: ucast_of_nat)
  have dv: "(of_nat Y :: u32) div 4 = of_nat (Y div 4)" "(of_nat Y :: u32) div 100 = of_nat (Y div 100)"
    "(of_nat Y :: u32) div 400 = of_nat (Y div 400)"
    using Y of_nat_div_word [of Y 4, where ?'a = 32] of_nat_div_word [of Y 100, where ?'a = 32]
      of_nat_div_word [of Y 400, where ?'a = 32] by simp_all
  have md: "3 * ((of_nat M :: u32) + 1) div 5 = of_nat (3 * (M + 1) div 5)"
    using shift_month_cases [OF M] by (elim disjE) simp_all
  have yb: "365 * of_nat Y + of_nat (Y div 4) - of_nat (Y div 100) + of_nat (Y div 400) = (of_nat (year_base Y) :: u32)"
    using div_le_mono2 [of 4 100 Y] by (simp add: year_base_def of_nat_diff)
  have T: "of_nat (year_base Y) + (30 * of_nat M + of_nat (3 * (M + 1) div 5) + of_nat d) - 719561 = (of_nat (epoch_days y m d) :: u32)"
    using arg_cong [OF epoch_days_shift [OF assms(2) v(1,2,3), folded Y_def M_def], of "of_nat :: nat \<Rightarrow> u32"]
    by (simp add: algebra_simps)
  have bound: "epoch_seconds y m d hh mi ss < 2 ^ 32"
    using century_correction(3) [OF assms(1-3)] assms(4-6) by (simp add: epoch_seconds_def)
  have "of_nat (epoch_days y m d) * 86400 + (3600 * of_nat hh + 60 * of_nat mi + of_nat ss) =
    (of_nat (epoch_seconds y m d hh mi ss) :: u32)"
    by (simp add: epoch_seconds_def)
  moreover have "ucast (of_nat d :: u8) = (of_nat d :: u32)" "ucast (of_nat hh :: u8) = (of_nat hh :: u32)"
    "ucast (of_nat mi :: u8) = (of_nat mi :: u32)" "ucast (of_nat ss :: u8) = (of_nat ss :: u32)"
    using v assms by (simp_all add: ucast_of_nat)
  ultimately show ?thesis
    unfolding RTC_DateToTimestamp_def cmos_date_def rtc_date.simps Let_def ty sh prod.case yu mu dv md yb
    using bound T by (simp add: uint_of_nat_small)
qed

section \<open>The clock as a device\<close>

text \<open>The register the data port shows: the last one selected at the control port.\<close>

definition cmos_index :: "trace \<Rightarrow> u8" where
  "cmos_index tr = last (0 # written8 RTC_CTRL_PORT tr)"

text \<open>A clock whose registers hold \<open>regs\<close> during the whole access.\<close>

definition cmos_holds :: "(u8 \<Rightarrow> u8) \<Rightarrow> machine \<Rightarrow> bool" where
  "cmos_holds regs hw \<longleftrightarrow> (\<forall>tr. ucast (hw tr (Port8 RTC_DATA_PORT)) = regs (cmos_index tr))"

lemma readCMOS_holds:
  "cmos_holds regs hw \<Longrightarrow>
   readCMOS_reg hw r tr = (regs r, tr @ [Out8 r RTC_CTRL_PORT, In8 RTC_DATA_PORT (regs r)])"
  by (simp add: readCMOS_reg_def io_defs cmos_holds_def cmos_index_def)

lemma RTC_read_holds:
  assumes "cmos_holds regs hw"
  shows "fst (RTC_read_date_time hw tr) =
    \<lparr>sec = BCD2DEC (regs 0x00), mins = BCD2DEC (regs 0x02), hours = BCD2DEC (regs 0x04 AND 0x7F), day = BCD2DEC (regs 0x07),
     weekd = BCD2DEC (regs 0x06), month = BCD2DEC (regs 0x08), year = BCD2DEC (regs 0x09), century = BCD2DEC (regs 0x32)\<rparr>"
  unfolding RTC_read_date_time_def by (simp add: readCMOS_holds [OF assms] rtc_regs)

lemma wait_update_returns:
  "cmos_holds regs hw \<Longrightarrow> regs 0x0A AND push_bit 7 1 \<noteq> 0 \<Longrightarrow> \<exists>tr'. wait_update hw tr = Some tr'"
  by (subst wait_update.simps) (simp add: readCMOS_holds)

lemma wait_update_diverges:
  assumes "cmos_holds regs hw" and "regs 0x0A AND push_bit 7 1 = 0"
  shows "wait_update hw tr = None"
proof -
  have "h \<noteq> hw" if "wait_update h tr' = Some y" for h tr' y
    using that by (rule wait_update.raw_induct [where P = "\<lambda>h _ _. h \<noteq> hw", rotated])
      (use assms in \<open>auto simp: readCMOS_holds split: prod.splits if_splits\<close>)
  then show ?thesis by (cases "wait_update hw tr") auto
qed

text \<open>The registers that show a date, with the update flag \<open>uip\<close> in register A.\<close>

definition shows_date :: "(u8 \<Rightarrow> u8) \<Rightarrow> nat \<Rightarrow> nat \<Rightarrow> nat \<Rightarrow> nat \<Rightarrow> nat \<Rightarrow> nat \<Rightarrow> bool" where
  "shows_date regs y m d hh mi ss \<longleftrightarrow> regs 0x00 = bcd ss \<and> regs 0x02 = bcd mi \<and> regs 0x04 = bcd hh \<and>
     regs 0x07 = bcd d \<and> regs 0x08 = bcd m \<and> regs 0x09 = bcd (y mod 100) \<and> regs 0x32 = bcd (y div 100)"

lemma read_shows_date:
  assumes "cmos_holds regs hw" and "shows_date regs y m d hh mi ss"
    and "valid_date y m d" "y \<le> 2105" and "hh < 24" "mi < 60" "ss < 60"
  shows "fst (RTC_read_date_time hw tr) = cmos_date y m d hh mi ss (BCD2DEC (regs 0x06))"
proof -
  have "m < 100" "d < 100" "y div 100 < 100"
    using assms(3,4) by (auto simp: valid_date_def month_days_def less_mult_imp_div_less split: if_splits)
  then show ?thesis
    using assms by (simp add: RTC_read_holds shows_date_def cmos_date_def BCD2DEC_bcd bcd_mask)
qed

lemma rtc_read_once_shows:
  assumes "cmos_holds regs hw" and "regs 0x0A AND push_bit 7 1 \<noteq> 0"
  shows "\<exists>tr'. rtc_read_once hw tr = Some (fst (RTC_read_date_time hw []), tr')"
proof -
  obtain t where t: "wait_update hw tr = Some t" using wait_update_returns [OF assms] by blast
  have "fst (RTC_read_date_time hw t) = fst (RTC_read_date_time hw [])" by (simp add: RTC_read_holds [OF assms(1)])
  then show ?thesis using t by (cases "RTC_read_date_time hw t") (auto simp: rtc_read_once_def)
qed

lemma RTC_GetTimestamp_shows:
  assumes "cmos_holds regs hw" and "regs 0x0A AND push_bit 7 1 \<noteq> 0" and "shows_date regs y m d hh mi ss"
    and "valid_date y m d" and "1970 \<le> y" "y \<le> 2105" and "hh < 24" "mi < 60" "ss < 60"
  shows "\<exists>tr'. RTC_GetTimestamp hw tr = Some (True, int (epoch_seconds y m d hh mi ss), tr')"
proof -
  define D where "D = fst (RTC_read_date_time hw [])"
  obtain t1 t2 where "rtc_read_once hw tr = Some (D, t1)" "rtc_read_once hw t1 = Some (D, t2)"
    using rtc_read_once_shows [OF assms(1,2)] unfolding D_def by blast
  then have "rtc_tries 3 hw tr = Some (Some D, t2)" by (simp add: rtc_read_twice_def numeral_3_eq_3)
  moreover have "RTC_DateToTimestamp D = int (epoch_seconds y m d hh mi ss)"
    unfolding D_def using assms by (simp add: read_shows_date DateToTimestamp_correct)
  ultimately show ?thesis by (simp add: RTC_GetTimestamp_def)
qed

lemma RTC_GetTimestamp_diverges:
  "cmos_holds regs hw \<Longrightarrow> regs 0x0A AND push_bit 7 1 = 0 \<Longrightarrow> RTC_GetTimestamp hw tr = None"
  by (simp add: RTC_GetTimestamp_def rtc_read_twice_def rtc_read_once_def wait_update_diverges numeral_3_eq_3)

end
