(* ===== verification/IA32_Paging.thy ===== *)
theory IA32_Paging
  imports Prelude
begin

text \<open>
  Two-level paging of paging.c and memdefs.h. The page directory is the array of the source; the
  page tables are 32-bit words in memory, reached through the addresses the directory holds. What
  the hardware makes of both is the function \<open>translate\<close>, against which the mapping services are
  proved.
\<close>

section \<open>Definitions of memdefs.h and paging.c\<close>

definition PAGE_TAB_ENTRIES :: u32 where "PAGE_TAB_ENTRIES = 0x400"
definition PAGE_SIZE :: u32 where "PAGE_SIZE = 0x1000"
definition GET_PAG_TAB_INDEX :: "u32 \<Rightarrow> u32" where "GET_PAG_TAB_INDEX a = (a div PAGE_SIZE) mod PAGE_TAB_ENTRIES"
definition GET_PAG_DIR_INDEX :: "u32 \<Rightarrow> u32" where "GET_PAG_DIR_INDEX a = (a div PAGE_SIZE) div PAGE_TAB_ENTRIES"
definition PAGE_ALIGN_CEIL :: "u32 \<Rightarrow> u32" where "PAGE_ALIGN_CEIL v = ((v + (PAGE_SIZE - 1)) div PAGE_SIZE) * PAGE_SIZE"
definition PAGE_ALIGN_FLOOR :: "u32 \<Rightarrow> u32" where "PAGE_ALIGN_FLOOR v = (v div PAGE_SIZE) * PAGE_SIZE"
definition PAGE_ADDRESS :: "u32 \<Rightarrow> u32" where "PAGE_ADDRESS a = 0xfffff000 AND a"
definition PAGE_DIR_LEN :: u32 where "PAGE_DIR_LEN = 1024"
definition PAGE_TAB_LEN :: u32 where "PAGE_TAB_LEN = 1024"
definition KER_MEM_START_ADDR :: u32 where "KER_MEM_START_ADDR = 0"
definition KER_MEM_MAX_SIZE :: u32 where "KER_MEM_MAX_SIZE = 0x40000000"
definition KER_PAGES_NUM :: u32 where "KER_PAGES_NUM = KER_MEM_MAX_SIZE div PAGE_SIZE"
definition KER_TABS :: u32 where "KER_TABS = KER_PAGES_NUM div PAGE_TAB_ENTRIES"
definition KER_MMAP_IO_ADDR_START :: u32 where "KER_MMAP_IO_ADDR_START = PAGE_ALIGN_FLOOR 0xFE000000"
definition KER_MMAP_IO_ADDR_END :: u32 where "KER_MMAP_IO_ADDR_END = PAGE_ALIGN_FLOOR 0xFFFFFFFF"
definition KER_MMAP_IO_N_PAGES :: u32 where
  "KER_MMAP_IO_N_PAGES = PAGE_ALIGN_FLOOR (KER_MMAP_IO_ADDR_END - KER_MMAP_IO_ADDR_START) div PAGE_SIZE"

definition PAG_IS_PRESENT :: u32 where "PAG_IS_PRESENT = 0x00000001"
definition PAG_CACHE_DISABLE :: u32 where "PAG_CACHE_DISABLE = 0x00000010"
definition PAG_IS_RW :: u32 where "PAG_IS_RW = 0x00000002"
definition PAG_IS_NOT_SUPERV :: u32 where "PAG_IS_NOT_SUPERV = 0x00000004"

text \<open>The directory by index and the words of the page tables by address.\<close>

record paging =
  page_directory :: "u32 \<Rightarrow> u32"
  tables :: "u32 \<Rightarrow> u32"
  kernel_first_free_vir_page :: u32

definition set_dir :: "u32 \<Rightarrow> u32 \<Rightarrow> paging \<Rightarrow> paging" where
  "set_dir i v st = st\<lparr>page_directory := (page_directory st)(i := v)\<rparr>"

text \<open>\<open>pPageTable[i] = v\<close>\<close>

definition set_entry :: "u32 \<Rightarrow> u32 \<Rightarrow> u32 \<Rightarrow> paging \<Rightarrow> paging" where
  "set_entry p i v st = st\<lparr>tables := (tables st)(p + 4 * i := v)\<rparr>"

text \<open>
  The loop counts the area down in whole pages and stops at zero only: an area that is not a
  multiple of the page size passes zero and goes on.
\<close>

partial_function (option) page_mapping_loop :: "u32 \<Rightarrow> u32 \<Rightarrow> u32 \<Rightarrow> u32 \<Rightarrow> paging \<Rightarrow> paging option" where
  "page_mapping_loop p phy area flags st =
     (if area > 0 then page_mapping_loop (p + 4) (phy + PAGE_SIZE) (area - PAGE_SIZE) flags
        (set_entry p 0 (phy OR flags) st)
      else Some st)"

declare page_mapping_loop.simps [code]

definition page_mapping :: "u32 \<Rightarrow> u32 \<Rightarrow> u32 \<Rightarrow> u32 \<Rightarrow> paging \<Rightarrow> paging option" where
  "page_mapping p phy area flags st = page_mapping_loop p (PAGE_ADDRESS phy) area flags st"

definition is_mapped :: "u32 \<Rightarrow> u32 \<Rightarrow> paging \<Rightarrow> bool" where
  "is_mapped logi sz st =
     (let sizePag = PAGE_ALIGN_CEIL sz div PAGE_SIZE in
      case for_ret 0 sizePag (\<lambda>k _.
        let pageAddr = PAGE_ALIGN_FLOOR logi + k * PAGE_SIZE;
            i = GET_PAG_DIR_INDEX pageAddr in
        if page_directory st i AND PAG_IS_PRESENT = PAG_IS_PRESENT then
          let pageTable = PAGE_ADDRESS (page_directory st i);
              i = GET_PAG_TAB_INDEX pageAddr in
          if tables st (pageTable + 4 * i) AND PAG_IS_PRESENT \<noteq> PAG_IS_PRESENT then Inl () else Inr ()
        else Inl ()) ()
      of Inl _ \<Rightarrow> False | Inr _ \<Rightarrow> True)"

text \<open>
  The presence check of mem_map, a do-while loop over directory entries: the value of \<open>k\<close> after it,
  or nothing when it reads past the directory.
\<close>

function dir_check :: "u32 \<Rightarrow> u32 \<Rightarrow> (u32 \<Rightarrow> u32) \<Rightarrow> u32 option" where
  "dir_check k lim pd =
     (if k \<ge> PAGE_DIR_LEN then None
      else if pd k AND PAG_IS_PRESENT \<noteq> PAG_IS_PRESENT then Some (k + 1)
      else if k + 1 < lim then dir_check (k + 1) lim pd
      else Some (k + 1))"
  by pat_completeness auto
termination
proof (relation "measure (\<lambda>(k, _, _). 1024 - unat k)", goal_cases)
  case (2 k lim pd)
  then have "k < 1024" by (simp add: PAGE_DIR_LEN_def)
  then show ?case using unat_Suc_less [of k 1024] by (simp add: word_less_nat_alt)
qed simp

declare dir_check.simps [simp del]

definition map_flags :: "bool \<Rightarrow> bool \<Rightarrow> u32" where
  "map_flags isWritable isCacheble =
     (let flags = PAG_IS_PRESENT;
          flags = (if isWritable then flags OR PAG_IS_RW else flags)
      in if \<not> isCacheble then flags OR PAG_CACHE_DISABLE else flags)"

text \<open>The result pointer (0 for NULL), the mapped size and the new tables.\<close>

definition mem_map :: "u32 \<Rightarrow> u32 \<Rightarrow> u32 \<Rightarrow> bool \<Rightarrow> bool \<Rightarrow> paging \<Rightarrow> (u32 \<times> u32 \<times> paging) option" where
  "mem_map phy logi memsize isWritable isCacheble st =
     (let start = PAGE_ALIGN_FLOOR logi;
          pagesNum = PAGE_ALIGN_CEIL memsize div PAGE_SIZE;
          pageTabs = pagesNum div PAGE_TAB_ENTRIES;
          flags = map_flags isWritable isCacheble;
          index = GET_PAG_DIR_INDEX start
      in case dir_check index (index + pageTabs) (page_directory st) of
           None \<Rightarrow> None
         | Some k \<Rightarrow>
             if k \<ge> index + pageTabs then
               Some (start, pagesNum * PAGE_SIZE,
                 for_upto 0 pagesNum (\<lambda>k st.
                   let va = start + k * PAGE_SIZE;
                       pPageTable = PAGE_ADDRESS (page_directory st (GET_PAG_DIR_INDEX va))
                   in set_entry pPageTable (GET_PAG_TAB_INDEX va)
                        ((PAGE_ALIGN_FLOOR phy + k * PAGE_SIZE) OR flags) st) st)
             else Some (0, 0, st))"

definition mem_unmap :: "u32 \<Rightarrow> u32 \<Rightarrow> paging \<Rightarrow> paging" where
  "mem_unmap logi memsize st =
     (let start = PAGE_ALIGN_FLOOR logi;
          pagesNum = PAGE_ALIGN_CEIL memsize div PAGE_SIZE
      in for_upto 0 pagesNum (\<lambda>k st.
           let va = start + k * PAGE_SIZE;
               pPageTable = PAGE_ADDRESS (page_directory st (GET_PAG_DIR_INDEX va))
           in if pPageTable \<noteq> 0 then set_entry pPageTable (GET_PAG_TAB_INDEX va) 0 st else st) st)"

definition set_page_table :: "u32 \<Rightarrow> u32 \<Rightarrow> bool \<Rightarrow> bool \<Rightarrow> bool \<Rightarrow> paging \<Rightarrow> paging" where
  "set_page_table pPageTable logi isWritable isCacheble isUserTable st =
     (let flags = map_flags isWritable isCacheble;
          flags = (if isUserTable then flags OR PAG_IS_NOT_SUPERV else flags)
      in set_dir (GET_PAG_DIR_INDEX logi) (pPageTable OR flags) st)"

definition unset_page_table :: "u32 \<Rightarrow> paging \<Rightarrow> paging" where
  "unset_page_table logi st = set_dir (GET_PAG_DIR_INDEX logi) 0 st"

definition change_page_table_attributes ::
    "u32 \<Rightarrow> bool \<Rightarrow> bool \<Rightarrow> bool \<Rightarrow> bool \<Rightarrow> paging \<Rightarrow> paging" where
  "change_page_table_attributes logi isPresent isWritable isCacheble isUserland st =
     (let index = GET_PAG_DIR_INDEX logi;
          v = page_directory st index AND 0xFFFFF000;
          v = (if isPresent then v OR PAG_IS_PRESENT else v);
          v = (if isWritable then v OR PAG_IS_RW else v);
          v = (if \<not> isCacheble then v OR PAG_CACHE_DISABLE else v);
          v = (if isUserland then v OR PAG_IS_NOT_SUPERV else v)
      in set_dir index v st)"

text \<open>
  InitPaging, with the addresses of the two table arrays and the symbols of the linker script as
  parameters. The clearing loops run to a quarter of each array, as their bounds say.
\<close>

record ker_layout =
  kernel_page_tables :: u32
  mmap_io_page_tables :: u32
  ker_ro_area_start :: u32
  ker_ro_area_size :: u32
  ker_ro_area_end :: u32
  ker_data_size :: u32

definition clear_tables :: "ker_layout \<Rightarrow> paging \<Rightarrow> paging" where
  "clear_tables L st =
     (let st = for_upto 0 (PAGE_DIR_LEN div 4) (\<lambda>i. set_dir i 0) st;
          st = for_upto 0 (KER_PAGES_NUM div 4) (\<lambda>i. set_entry (kernel_page_tables L) i 0) st
      in for_upto 0 (KER_MMAP_IO_N_PAGES div 4) (\<lambda>i. set_entry (mmap_io_page_tables L) i 0) st)"

definition link_tables :: "ker_layout \<Rightarrow> paging \<Rightarrow> paging" where
  "link_tables L st =
     (let st = for_upto 0 KER_TABS (\<lambda>i. set_dir i
            ((kernel_page_tables L + 4 * (i * PAGE_TAB_LEN)) OR PAG_IS_PRESENT OR PAG_IS_RW)) st;
          i0 = GET_PAG_DIR_INDEX KER_MMAP_IO_ADDR_START
      in for_upto i0 (i0 + KER_MMAP_IO_N_PAGES div PAGE_TAB_ENTRIES) (\<lambda>i. set_dir i
            ((mmap_io_page_tables L + 4 * ((i - i0) * PAGE_TAB_LEN)) OR PAG_IS_PRESENT OR PAG_IS_RW)) st)"

definition InitPaging :: "ker_layout \<Rightarrow> paging \<Rightarrow> paging option" where
  "InitPaging L st =
     (case page_mapping (kernel_page_tables L) KER_MEM_START_ADDR (ker_ro_area_start L)
             (PAG_IS_PRESENT OR PAG_IS_RW) (clear_tables L st) of
        None \<Rightarrow> None
      | Some st1 \<Rightarrow>
          (case page_mapping (kernel_page_tables L + 4 * (ker_ro_area_start L div PAGE_SIZE)) (ker_ro_area_start L)
                  (PAGE_ALIGN_FLOOR (ker_ro_area_size L)) PAG_IS_PRESENT st1 of
             None \<Rightarrow> None
           | Some st2 \<Rightarrow>
               (case page_mapping (kernel_page_tables L + 4 * (ker_ro_area_end L div PAGE_SIZE)) (ker_ro_area_end L)
                       (PAGE_ALIGN_FLOOR (ker_data_size L)) (PAG_IS_PRESENT OR PAG_IS_RW) st2 of
                  None \<Rightarrow> None
                | Some st3 \<Rightarrow> Some (link_tables L (st3\<lparr>kernel_first_free_vir_page :=
                    ker_ro_area_end L div PAGE_SIZE + PAGE_ALIGN_FLOOR (ker_data_size L) div PAGE_SIZE\<rparr>)))))"

section \<open>Address arithmetic\<close>

lemmas page_consts = PAGE_TAB_ENTRIES_def PAGE_SIZE_def PAGE_DIR_LEN_def PAGE_TAB_LEN_def
lemmas page_flags = PAG_IS_PRESENT_def PAG_CACHE_DISABLE_def PAG_IS_RW_def PAG_IS_NOT_SUPERV_def

lemma div_page: "a div PAGE_SIZE = drop_bit 12 a"
  by (simp add: PAGE_SIZE_def drop_bit_eq_div)

lemma mult_page: "a * PAGE_SIZE = push_bit 12 a"
  by (simp add: PAGE_SIZE_def push_bit_eq_mult)

lemma frame_mask: "(0xFFFFF000 :: u32) = push_bit 12 (mask 20)"
  by (simp add: mask_eq_exp_minus_1)

lemma bit_frame_mask: "bit (push_bit 12 (mask 20) :: u32) n \<longleftrightarrow> 12 \<le> n \<and> n < 32"
  by (auto simp: bit_push_bit_iff bit_mask_iff simp del: push_bit_numeral)

lemma PAGE_ADDRESS_floor: "PAGE_ADDRESS a = PAGE_ALIGN_FLOOR a"
  unfolding PAGE_ADDRESS_def PAGE_ALIGN_FLOOR_def div_page mult_page frame_mask
  by (rule bit_eqI, subst bit_and_iff, subst bit_frame_mask) (auto simp: bit_push_bit_iff bit_drop_bit_eq)

lemma unat_PAGE_ALIGN_FLOOR: "unat (PAGE_ALIGN_FLOOR a) = 4096 * (unat a div 4096)"
proof -
  have "unat a div 4096 * 4096 < 2 ^ 32" using div_times_less_eq_dividend [of "unat a" 4096] unat_lt2p [of a] by simp
  then show ?thesis
    unfolding PAGE_ALIGN_FLOOR_def PAGE_SIZE_def by (subst unat_mult_no_wrap) (simp_all add: unat_div)
qed

lemma unat_TAB: "unat (GET_PAG_TAB_INDEX a) = unat a div 4096 mod 1024"
  by (simp add: GET_PAG_TAB_INDEX_def page_consts unat_mod unat_div)

lemma unat_DIR: "unat (GET_PAG_DIR_INDEX a) = unat a div 4096 div 1024"
  by (simp add: GET_PAG_DIR_INDEX_def page_consts unat_div)

text \<open>The address of the table entry of a page.\<close>

definition pte_slot :: "(u32 \<Rightarrow> u32) \<Rightarrow> u32 \<Rightarrow> u32" where
  "pte_slot pd va = PAGE_ADDRESS (pd (GET_PAG_DIR_INDEX va)) + 4 * GET_PAG_TAB_INDEX va"

lemma unat_slot:
  "unat (pte_slot pd va) = 4096 * (unat (pd (GET_PAG_DIR_INDEX va)) div 4096) + 4 * (unat va div 4096 mod 1024)"
proof -
  define e where "e = pd (GET_PAG_DIR_INDEX va)"
  have t: "unat (4 * GET_PAG_TAB_INDEX va) = 4 * (unat va div 4096 mod 1024)"
    by (subst unat_mult_no_wrap) (simp_all add: unat_TAB)
  have m: "unat va div 4096 mod 1024 < 1024" by simp
  have d: "unat e div 4096 < 2 ^ 20" using unat_lt2p [of e] by (simp add: less_mult_imp_div_less)
  have "4096 * (unat e div 4096) + 4 * (unat va div 4096 mod 1024) < 2 ^ 32"
    using m d by simp
  then show ?thesis
    unfolding pte_slot_def e_def [symmetric] PAGE_ADDRESS_floor
    by (subst unat_add_no_wrap) (simp_all add: t unat_PAGE_ALIGN_FLOOR)
qed

text \<open>Different directory entries lead to different tables.\<close>

definition tables_distinct :: "(u32 \<Rightarrow> u32) \<Rightarrow> bool" where
  "tables_distinct pd \<longleftrightarrow> (\<forall>i<PAGE_DIR_LEN. \<forall>j<PAGE_DIR_LEN. pd i AND PAG_IS_PRESENT = PAG_IS_PRESENT \<longrightarrow>
     pd j AND PAG_IS_PRESENT = PAG_IS_PRESENT \<longrightarrow> PAGE_ADDRESS (pd i) = PAGE_ADDRESS (pd j) \<longrightarrow> i = j)"

definition dir_present :: "(u32 \<Rightarrow> u32) \<Rightarrow> u32 \<Rightarrow> bool" where
  "dir_present pd va \<longleftrightarrow> pd (GET_PAG_DIR_INDEX va) AND PAG_IS_PRESENT = PAG_IS_PRESENT"

lemma DIR_less: "GET_PAG_DIR_INDEX va < PAGE_DIR_LEN"
proof -
  have "unat va div 4096 div 1024 < 1024" using unat_lt2p [of va] by (simp add: less_mult_imp_div_less)
  then show ?thesis by (simp add: word_less_nat_alt unat_DIR PAGE_DIR_LEN_def)
qed

lemma slot_inj:
  assumes "tables_distinct pd" and "dir_present pd va" "dir_present pd wa" and "pte_slot pd va = pte_slot pd wa"
  shows "unat va div 4096 = unat wa div 4096"
proof -
  define e f where "e = unat (pd (GET_PAG_DIR_INDEX va)) div 4096" and "f = unat (pd (GET_PAG_DIR_INDEX wa)) div 4096"
  have *: "4096 * e + 4 * (unat va div 4096 mod 1024) = 4096 * f + 4 * (unat wa div 4096 mod 1024)"
    using assms(4) unat_slot [of pd va] unat_slot [of pd wa] by (simp add: e_def f_def)
  then have "unat va div 4096 mod 1024 < 1024 \<Longrightarrow> unat wa div 4096 mod 1024 < 1024 \<Longrightarrow> e = f" by linarith
  moreover have "unat va div 4096 mod 1024 < 1024" "unat wa div 4096 mod 1024 < 1024" by simp_all
  ultimately have ef: "e = f" by blast
  with * have tab: "unat va div 4096 mod 1024 = unat wa div 4096 mod 1024" by simp
  from ef have "PAGE_ADDRESS (pd (GET_PAG_DIR_INDEX va)) = PAGE_ADDRESS (pd (GET_PAG_DIR_INDEX wa))"
    by (simp add: word_unat_eq_iff PAGE_ADDRESS_floor unat_PAGE_ALIGN_FLOOR e_def f_def)
  then have "GET_PAG_DIR_INDEX va = GET_PAG_DIR_INDEX wa"
    using assms(1-3) DIR_less unfolding tables_distinct_def dir_present_def by blast
  then have "unat va div 4096 div 1024 = unat wa div 4096 div 1024" by (simp flip: unat_DIR)
  with tab show ?thesis by (metis div_mult_mod_eq)
qed

section \<open>Mapping and unmapping\<close>

definition translate :: "paging \<Rightarrow> u32 \<Rightarrow> u32 option" where
  "translate st va =
     (if dir_present (page_directory st) va \<and>
         tables st (pte_slot (page_directory st) va) AND PAG_IS_PRESENT = PAG_IS_PRESENT
      then Some (PAGE_ADDRESS (tables st (pte_slot (page_directory st) va)) + va mod PAGE_SIZE) else None)"

text \<open>The pages of an area, as page numbers.\<close>

definition area_pages :: "u32 \<Rightarrow> u32 \<Rightarrow> nat set" where
  "area_pages logi memsize = {unat logi div 4096 ..< unat logi div 4096 + unat (PAGE_ALIGN_CEIL memsize div PAGE_SIZE)}"

text \<open>The area does not run past the address space, and its directory entries are in place.\<close>

definition mappable :: "paging \<Rightarrow> u32 \<Rightarrow> u32 \<Rightarrow> bool" where
  "mappable st logi memsize \<longleftrightarrow> tables_distinct (page_directory st) \<and>
     unat logi div 4096 + unat (PAGE_ALIGN_CEIL memsize div PAGE_SIZE) \<le> 2 ^ 20 \<and>
     (\<forall>va. unat va div 4096 \<in> area_pages logi memsize \<longrightarrow> dir_present (page_directory st) va)"

lemma unat_page_addr:
  assumes "unat logi div 4096 + n \<le> 2 ^ 20" and "k < n"
  shows "unat (PAGE_ALIGN_FLOOR logi + of_nat k * PAGE_SIZE) = 4096 * (unat logi div 4096 + k)"
proof -
  have k: "k < 2 ^ 20" using assms by linarith
  then have uk: "unat (of_nat k :: u32) = k" by (simp add: unat_of_nat take_bit_nat_eq_self)
  have "unat (of_nat k * PAGE_SIZE) = 4096 * k"
    unfolding PAGE_SIZE_def using k by (subst unat_mult_no_wrap) (simp_all add: uk)
  then show ?thesis
    using assms by (subst unat_add_no_wrap) (simp_all add: unat_PAGE_ALIGN_FLOOR)
qed

lemma same_page: "unat va div 4096 = unat wa div 4096 \<Longrightarrow> pte_slot pd va = pte_slot pd wa \<and> dir_present pd va = dir_present pd wa"
proof -
  assume "unat va div 4096 = unat wa div 4096"
  then have "GET_PAG_DIR_INDEX va = GET_PAG_DIR_INDEX wa" "GET_PAG_TAB_INDEX va = GET_PAG_TAB_INDEX wa"
    by (simp_all add: word_unat_eq_iff unat_DIR unat_TAB)
  then show ?thesis by (simp add: pte_slot_def dir_present_def)
qed

lemma dir_check_passes:
  "k < 1024 \<Longrightarrow> (\<And>j. k \<le> j \<Longrightarrow> j < lim \<Longrightarrow> j < 1024 \<and> pd j AND PAG_IS_PRESENT = PAG_IS_PRESENT) \<Longrightarrow>
   \<exists>r. dir_check k lim pd = Some r \<and> lim \<le> r"
proof (induction k lim pd rule: dir_check.induct)
  case (1 k lim pd)
  have k1: "unat (k + 1) = Suc (unat k)" using 1(2) by (rule unat_Suc_less)
  show ?case
  proof (cases "pd k AND PAG_IS_PRESENT = PAG_IS_PRESENT \<and> k + 1 < lim")
    case True
    have "j < 1024 \<and> pd j AND PAG_IS_PRESENT = PAG_IS_PRESENT" if "k + 1 \<le> j" "j < lim" for j
      using 1(3) [of j] that k1 by (simp add: word_le_nat_alt)
    moreover have "\<not> PAGE_DIR_LEN \<le> k" using 1(2) by (simp add: PAGE_DIR_LEN_def not_le)
    moreover have "k + 1 < 1024" using 1(3) [of "k + 1"] True k1 by (simp add: word_le_nat_alt)
    ultimately have "\<exists>r. dir_check (k + 1) lim pd = Some r \<and> lim \<le> r" using 1(1) True by blast
    then show ?thesis using True 1(2) by (subst dir_check.simps) (simp add: PAGE_DIR_LEN_def)
  next
    case False
    have "lim \<le> k" if "pd k AND PAG_IS_PRESENT \<noteq> PAG_IS_PRESENT" using 1(3) [of k] that by (simp add: linorder_not_less [symmetric]) blast
    then have "lim \<le> k + 1"
      using False k1 by (fastforce simp: word_le_nat_alt word_less_nat_alt)
    then show ?thesis using False 1(2) by (subst dir_check.simps) (auto simp: PAGE_DIR_LEN_def)
  qed
qed

lemma entries_loop:
  assumes "\<And>i st. page_directory st = pd \<Longrightarrow> body i st = st\<lparr>tables := (tables st)(s i := v i)\<rparr>"
    and "page_directory st = pd"
  shows "for_upto 0 n body st =
    st\<lparr>tables := fold (\<lambda>k m. m(s (of_nat k) := v (of_nat k))) [0..<unat n] (tables st)\<rparr>"
proof -
  have "fold (\<lambda>k. body (of_nat k)) [0..<l] st =
    st\<lparr>tables := fold (\<lambda>k m. m(s (of_nat k) := v (of_nat k))) [0..<l] (tables st)\<rparr>" for l
    by (induction l) (simp_all add: assms fun_upd_def)
  then show ?thesis by (simp add: loop_simps)
qed

lemma page_slots_inj:
  assumes "mappable st logi memsize"
  shows "inj_on (\<lambda>k. pte_slot (page_directory st) (PAGE_ALIGN_FLOOR logi + of_nat k * PAGE_SIZE))
    {..<unat (PAGE_ALIGN_CEIL memsize div PAGE_SIZE)}"
proof (rule inj_onI, goal_cases)
  case (1 j k)
  have u: "unat (PAGE_ALIGN_FLOOR logi + of_nat i * PAGE_SIZE) div 4096 = unat logi div 4096 + i"
    if "i < unat (PAGE_ALIGN_CEIL memsize div PAGE_SIZE)" for i
    using unat_page_addr [OF _ that] assms by (simp add: mappable_def)
  then have "dir_present (page_directory st) (PAGE_ALIGN_FLOOR logi + of_nat i * PAGE_SIZE)"
    if "i < unat (PAGE_ALIGN_CEIL memsize div PAGE_SIZE)" for i
    using assms that by (simp add: mappable_def area_pages_def)
  with 1 have "unat (PAGE_ALIGN_FLOOR logi + of_nat j * PAGE_SIZE) div 4096 = unat (PAGE_ALIGN_FLOOR logi + of_nat k * PAGE_SIZE) div 4096"
    using assms by (intro slot_inj [of "page_directory st"]) (auto simp: mappable_def)
  with u 1 show ?case by simp
qed

text \<open>A loop that writes one entry for every page of an area.\<close>

lemma area_entries:
  fixes v :: "nat \<Rightarrow> u32"
  assumes "mappable st logi memsize"
  defines "n \<equiv> unat (PAGE_ALIGN_CEIL memsize div PAGE_SIZE)"
    and "s \<equiv> \<lambda>k. pte_slot (page_directory st) (PAGE_ALIGN_FLOOR logi + of_nat k * PAGE_SIZE)"
  defines "t \<equiv> fold (\<lambda>k m. m(s k := v k)) [0..<n] (tables st)"
  shows "unat va div 4096 \<in> area_pages logi memsize \<Longrightarrow>
      t (pte_slot (page_directory st) va) = v (unat va div 4096 - unat logi div 4096)"
    and "unat va div 4096 \<notin> area_pages logi memsize \<Longrightarrow> dir_present (page_directory st) va \<Longrightarrow>
      t (pte_slot (page_directory st) va) = tables st (pte_slot (page_directory st) va)"
proof -
  have u: "unat (PAGE_ALIGN_FLOOR logi + of_nat i * PAGE_SIZE) div 4096 = unat logi div 4096 + i" if "i < n" for i
    using unat_page_addr [OF _ that] assms(1) by (simp add: mappable_def n_def)
  show "t (pte_slot (page_directory st) va) = v (unat va div 4096 - unat logi div 4096)"
    if "unat va div 4096 \<in> area_pages logi memsize"
  proof -
    define k where "k = unat va div 4096 - unat logi div 4096"
    have k: "k < n" "unat va div 4096 = unat logi div 4096 + k"
      using that by (auto simp: area_pages_def k_def n_def)
    then have "pte_slot (page_directory st) va = s k"
      using same_page [of va "PAGE_ALIGN_FLOOR logi + of_nat k * PAGE_SIZE"] u by (simp add: s_def)
    then show ?thesis
      using fold_upd_at [of s n k v "tables st"] page_slots_inj [OF assms(1)] k(1)
      by (simp add: t_def s_def n_def k_def)
  qed
  show "t (pte_slot (page_directory st) va) = tables st (pte_slot (page_directory st) va)"
    if out: "unat va div 4096 \<notin> area_pages logi memsize" and pr: "dir_present (page_directory st) va"
    unfolding t_def
  proof (rule fold_upd_other)
    fix k assume k: "k < n"
    have "dir_present (page_directory st) (PAGE_ALIGN_FLOOR logi + of_nat k * PAGE_SIZE)"
      using assms(1) u [OF k] k by (simp add: mappable_def area_pages_def n_def)
    then have "unat va div 4096 = unat logi div 4096 + k" if "pte_slot (page_directory st) va = s k"
      using slot_inj [of "page_directory st" va, OF _ pr] that u [OF k] assms(1) by (simp add: s_def mappable_def)
    then show "pte_slot (page_directory st) va \<noteq> s k"
      using out k unfolding area_pages_def n_def by auto
  qed
qed

lemma entry_frame:
  assumes "take_bit 12 f = f"
  shows "PAGE_ADDRESS (push_bit 12 q OR f) = push_bit 12 q"
proof -
  have "\<not> bit f n" if "12 \<le> n" for n using assms that by (metis bit_take_bit_iff not_le)
  then show ?thesis
    unfolding PAGE_ADDRESS_def frame_mask
    by (intro bit_eqI, subst bit_and_iff, subst bit_frame_mask) (auto simp: bit_or_iff bit_push_bit_iff)
qed

lemma map_flags_cases: "map_flags w c \<in> {1, 3, 0x11, 0x13}"
  by (cases w; cases c) (simp_all add: map_flags_def page_flags Let_def)

lemma map_flags_low: "take_bit 12 (map_flags w c) = map_flags w c"
  using map_flags_cases [of w c] by auto

lemma entry_present: "(push_bit 12 q OR map_flags w c) AND PAG_IS_PRESENT = PAG_IS_PRESENT"
proof -
  have "bit (map_flags w c) 0" using map_flags_cases [of w c] by auto
  then show ?thesis
    by (intro bit_eqI) (auto simp: PAG_IS_PRESENT_def bit_and_iff bit_or_iff bit_1_iff bit_push_bit_iff)
qed

lemma frame_sum: "PAGE_ALIGN_FLOOR phy + k * PAGE_SIZE = push_bit 12 (phy div PAGE_SIZE + k)"
  by (simp add: PAGE_ALIGN_FLOOR_def PAGE_SIZE_def push_bit_eq_mult algebra_simps)

lemma page_offset: "va mod PAGE_SIZE = va - PAGE_ALIGN_FLOOR va"
  by (simp add: PAGE_ALIGN_FLOOR_def minus_div_mult_eq_mod)

lemma mem_map_ok:
  assumes "mappable st logi memsize"
  shows "\<exists>st'. mem_map phy logi memsize w c st = Some (PAGE_ALIGN_FLOOR logi, PAGE_ALIGN_CEIL memsize, st') \<and>
    page_directory st' = page_directory st \<and>
    (\<forall>va. translate st' va = (if unat va div 4096 \<in> area_pages logi memsize
       then Some (PAGE_ALIGN_FLOOR phy + (va - PAGE_ALIGN_FLOOR logi)) else translate st va))"
proof -
  define pn where "pn = PAGE_ALIGN_CEIL memsize div PAGE_SIZE"
  define P where "P = unat logi div 4096"
  define pd where "pd = page_directory st"
  define s where "s = (\<lambda>k. pte_slot pd (PAGE_ALIGN_FLOOR logi + of_nat k * PAGE_SIZE))"
  define v where "v = (\<lambda>k::nat. (PAGE_ALIGN_FLOOR phy + of_nat k * PAGE_SIZE) OR map_flags w c)"
  define st' where "st' = st\<lparr>tables := fold (\<lambda>k m. m(s k := v k)) [0..<unat pn] (tables st)\<rparr>"
  have bnd: "P + unat pn \<le> 2 ^ 20" using assms by (simp add: mappable_def P_def pn_def)
  have idx: "GET_PAG_DIR_INDEX (PAGE_ALIGN_FLOOR logi) < 1024" using DIR_less by (simp add: PAGE_DIR_LEN_def)
  have uidx: "unat (GET_PAG_DIR_INDEX (PAGE_ALIGN_FLOOR logi)) = P div 1024"
    by (simp add: unat_DIR unat_PAGE_ALIGN_FLOOR P_def)
  have utabs: "unat (pn div PAGE_TAB_ENTRIES) = unat pn div 1024" by (simp add: unat_div PAGE_TAB_ENTRIES_def)
  have ulim: "unat (GET_PAG_DIR_INDEX (PAGE_ALIGN_FLOOR logi) + pn div PAGE_TAB_ENTRIES) = P div 1024 + unat pn div 1024"
    using bnd by (subst unat_add_no_wrap) (simp_all add: uidx utabs)
  obtain r where r: "dir_check (GET_PAG_DIR_INDEX (PAGE_ALIGN_FLOOR logi))
      (GET_PAG_DIR_INDEX (PAGE_ALIGN_FLOOR logi) + pn div PAGE_TAB_ENTRIES) pd = Some r"
    "GET_PAG_DIR_INDEX (PAGE_ALIGN_FLOOR logi) + pn div PAGE_TAB_ENTRIES \<le> r"
  proof (atomize_elim, rule dir_check_passes [OF idx])
    fix j assume j: "GET_PAG_DIR_INDEX (PAGE_ALIGN_FLOOR logi) \<le> j" "j < GET_PAG_DIR_INDEX (PAGE_ALIGN_FLOOR logi) + pn div PAGE_TAB_ENTRIES"
    define t where "t = unat j - P div 1024"
    have t: "unat j = P div 1024 + t" "t < unat pn div 1024"
      using j by (auto simp: word_le_nat_alt word_less_nat_alt ulim uidx t_def)
    then have t1024: "1024 * t < unat pn" by linarith
    define va :: u32 where "va = PAGE_ALIGN_FLOOR logi + of_nat (1024 * t) * PAGE_SIZE"
    have uva: "unat va div 4096 = P + 1024 * t"
      using unat_page_addr [OF _ t1024, of logi] bnd by (simp add: va_def P_def)
    then have "GET_PAG_DIR_INDEX va = j" by (simp add: word_unat_eq_iff unat_DIR t)
    moreover have "dir_present pd va" using assms uva t1024 by (simp add: mappable_def area_pages_def pd_def P_def pn_def)
    ultimately show "j < 1024 \<and> pd j AND PAG_IS_PRESENT = PAG_IS_PRESENT"
      using DIR_less [of va] by (simp add: dir_present_def PAGE_DIR_LEN_def)
  qed
  have "for_upto 0 pn (\<lambda>k st. set_entry (PAGE_ADDRESS (page_directory st (GET_PAG_DIR_INDEX (PAGE_ALIGN_FLOOR logi + k * PAGE_SIZE))))
      (GET_PAG_TAB_INDEX (PAGE_ALIGN_FLOOR logi + k * PAGE_SIZE))
      ((PAGE_ALIGN_FLOOR phy + k * PAGE_SIZE) OR map_flags w c) st) st = st'"
    unfolding st'_def s_def v_def by (rule entries_loop [of pd]) (simp_all add: set_entry_def pte_slot_def pd_def)
  then have mm: "mem_map phy logi memsize w c st = Some (PAGE_ALIGN_FLOOR logi, pn * PAGE_SIZE, st')"
    unfolding mem_map_def Let_def pn_def [symmetric] pd_def [symmetric] r(1) option.case using r(2) by simp
  have sz: "pn * PAGE_SIZE = PAGE_ALIGN_CEIL memsize"
    unfolding pn_def PAGE_ALIGN_CEIL_def div_page mult_page by (rule bit_eqI) (auto simp: bit_push_bit_iff bit_drop_bit_eq)
  have tr: "translate st' va = (if unat va div 4096 \<in> area_pages logi memsize
       then Some (PAGE_ALIGN_FLOOR phy + (va - PAGE_ALIGN_FLOOR logi)) else translate st va)" for va
  proof (cases "unat va div 4096 \<in> area_pages logi memsize")
    case True
    define k where "k = unat va div 4096 - P"
    have k: "k < unat pn" "unat va div 4096 = P + k" using True by (auto simp: k_def area_pages_def P_def pn_def)
    have e: "tables st' (pte_slot pd va) = v k"
      using area_entries(1) [OF assms True, of v] by (simp add: st'_def s_def pd_def pn_def k_def P_def)
    have fl: "PAGE_ALIGN_FLOOR va = PAGE_ALIGN_FLOOR logi + of_nat k * PAGE_SIZE"
      using unat_page_addr [OF _ k(1), of logi] bnd k(2) by (simp add: word_unat_eq_iff unat_PAGE_ALIGN_FLOOR P_def)
    have "dir_present pd va" using assms True by (simp add: mappable_def pd_def)
    moreover have "PAGE_ADDRESS (v k) = PAGE_ALIGN_FLOOR phy + of_nat k * PAGE_SIZE" "v k AND PAG_IS_PRESENT = PAG_IS_PRESENT"
      by (simp_all add: v_def frame_sum entry_frame map_flags_low entry_present)
    ultimately show ?thesis
      using True e by (simp add: translate_def st'_def pd_def page_offset fl)
  next
    case False
    then show ?thesis
      using area_entries(2) [OF assms False, of v] by (auto simp: translate_def st'_def s_def pd_def pn_def)
  qed
  show ?thesis using mm sz tr by (auto simp: st'_def)
qed

lemma translate_page: "unat va div 4096 = unat wa div 4096 \<Longrightarrow> (translate st va = None) = (translate st wa = None)"
  using same_page [of va wa "page_directory st"] by (auto simp: translate_def)

lemma mem_unmap_ok:
  assumes "mappable st logi memsize"
    and "\<And>va. unat va div 4096 \<in> area_pages logi memsize \<Longrightarrow> PAGE_ADDRESS (page_directory st (GET_PAG_DIR_INDEX va)) \<noteq> 0"
  shows "page_directory (mem_unmap logi memsize st) = page_directory st"
    and "translate (mem_unmap logi memsize st) va =
      (if unat va div 4096 \<in> area_pages logi memsize then None else translate st va)"
proof -
  define pn where "pn = PAGE_ALIGN_CEIL memsize div PAGE_SIZE"
  define pd where "pd = page_directory st"
  define s where "s = (\<lambda>k. pte_slot pd (PAGE_ALIGN_FLOOR logi + of_nat k * PAGE_SIZE))"
  define st' where "st' = st\<lparr>tables := fold (\<lambda>k m. m(s k := 0)) [0..<unat pn] (tables st)\<rparr>"
  define B where "B = (\<lambda>k st. let a = PAGE_ALIGN_FLOOR logi + k * PAGE_SIZE; p = PAGE_ADDRESS (page_directory st (GET_PAG_DIR_INDEX a))
    in if p \<noteq> 0 then set_entry p (GET_PAG_TAB_INDEX a) 0 st else st)"
  have step: "fold (\<lambda>k. B (of_nat k)) [0..<l] st = st\<lparr>tables := fold (\<lambda>k m. m(s k := 0)) [0..<l] (tables st)\<rparr>"
    if "l \<le> unat pn" for l
    using that
  proof (induction l)
    case (Suc l)
    define va where "va = PAGE_ALIGN_FLOOR logi + of_nat l * PAGE_SIZE"
    have "unat va div 4096 = unat logi div 4096 + l"
      using unat_page_addr [of logi "unat pn" l] assms(1) Suc.prems by (simp add: va_def mappable_def pn_def)
    then have nz: "PAGE_ADDRESS (pd (GET_PAG_DIR_INDEX va)) \<noteq> 0"
      unfolding pd_def using Suc.prems by (intro assms(2)) (simp add: area_pages_def pn_def)
    define F where "F = (\<lambda>n. fold (\<lambda>k m. m(s k := 0)) [0..<n] (tables st))"
    have F: "F (Suc l) = (F l)(s l := 0)" by (simp add: F_def)
    have IH: "fold (\<lambda>k. B (of_nat k)) [0..<l] st = st\<lparr>tables := F l\<rparr>"
      unfolding F_def using Suc.prems by (intro Suc.IH) simp
    have "fold (\<lambda>k. B (of_nat k)) [0..<Suc l] st = B (of_nat l) (st\<lparr>tables := F l\<rparr>)"
      unfolding IH [symmetric] by simp
    also have "\<dots> = st\<lparr>tables := (F l)(s l := 0)\<rparr>"
      using nz by (simp add: B_def Let_def va_def set_entry_def s_def pte_slot_def pd_def)
    also have "\<dots> = st\<lparr>tables := F (Suc l)\<rparr>" by (simp only: F)
    finally show ?case unfolding F_def .
  qed simp
  have eq: "mem_unmap logi memsize st = st'"
    unfolding mem_unmap_def Let_def pn_def [symmetric] using step [of "unat pn"]
    by (simp add: loop_simps B_def Let_def st'_def cong: if_cong)
  then show "page_directory (mem_unmap logi memsize st) = page_directory st" by (simp add: st'_def)
  show "translate (mem_unmap logi memsize st) va =
      (if unat va div 4096 \<in> area_pages logi memsize then None else translate st va)"
    using area_entries [OF assms(1), of va "\<lambda>_. 0"] unfolding eq
    by (cases "unat va div 4096 \<in> area_pages logi memsize"; cases "dir_present (page_directory st) va")
      (simp_all add: translate_def st'_def s_def pd_def pn_def PAG_IS_PRESENT_def)
qed

text \<open>The check of is_mapped is the check of the hardware on every page of the area.\<close>

lemma is_mapped_iff:
  assumes "unat logi div 4096 + unat (PAGE_ALIGN_CEIL sz div PAGE_SIZE) \<le> 2 ^ 20"
  shows "is_mapped logi sz st \<longleftrightarrow> (\<forall>va. unat va div 4096 \<in> area_pages logi sz \<longrightarrow> translate st va \<noteq> None)"
proof -
  define pn where "pn = PAGE_ALIGN_CEIL sz div PAGE_SIZE"
  define A where "A = (\<lambda>k. PAGE_ALIGN_FLOOR logi + k * PAGE_SIZE)"
  have im: "is_mapped logi sz st \<longleftrightarrow> (\<forall>k\<in>{0..<unat pn}. translate st (A (of_nat k)) \<noteq> None)"
    unfolding is_mapped_def Let_def pn_def [symmetric]
    by (subst for_ret_search [where P = "\<lambda>k. translate st (A k) = None" and f = "\<lambda>_. ()"])
      (auto simp: translate_def A_def dir_present_def pte_slot_def)
  have u: "unat (A (of_nat k)) div 4096 = unat logi div 4096 + k" if "k < unat pn" for k
    using unat_page_addr [OF _ that, of logi] assms by (simp add: A_def pn_def)
  show ?thesis
  proof
    assume *: "is_mapped logi sz st"
    show "\<forall>va. unat va div 4096 \<in> area_pages logi sz \<longrightarrow> translate st va \<noteq> None"
    proof (intro allI impI)
      fix va :: u32 assume va: "unat va div 4096 \<in> area_pages logi sz"
      define k where "k = unat va div 4096 - unat logi div 4096"
      have k: "k < unat pn" "unat va div 4096 = unat logi div 4096 + k" using va by (auto simp: area_pages_def pn_def k_def)
      then have "translate st (A (of_nat k)) \<noteq> None" using * im by auto
      then show "translate st va \<noteq> None" using translate_page [of va "A (of_nat k)" st] u k by simp
    qed
  next
    assume "\<forall>va. unat va div 4096 \<in> area_pages logi sz \<longrightarrow> translate st va \<noteq> None"
    then show "is_mapped logi sz st" unfolding im using u by (auto simp: area_pages_def pn_def)
  qed
qed

section \<open>The kernel's own mapping\<close>

lemma page_mapping_loop_fold:
  "n < 2 ^ 20 \<Longrightarrow> page_mapping_loop p phy (of_nat (4096 * n)) flags st =
   Some (st\<lparr>tables := fold (\<lambda>k m. m(p + 4 * of_nat k := (phy + of_nat k * PAGE_SIZE) OR flags)) [0..<n] (tables st)\<rparr>)"
proof (induction n arbitrary: p phy st)
  case 0
  then show ?case by (subst page_mapping_loop.simps) simp
next
  case (Suc n)
  have pos: "(of_nat (4096 * Suc n) :: u32) > 0"
  proof -
    define N where "N = 4096 * Suc n"
    have "0 < N" "N < 2 ^ 32" using Suc.prems by (simp_all add: N_def)
    then have "unat (of_nat N :: u32) = N" by (simp add: unat_of_nat take_bit_nat_eq_self)
    then show ?thesis unfolding N_def [symmetric] using \<open>0 < N\<close> by (simp add: word_less_nat_alt)
  qed
  have less: "(of_nat (4096 * Suc n) :: u32) - PAGE_SIZE = of_nat (4096 * n)" by (simp add: PAGE_SIZE_def)
  define f where "f = (\<lambda>k. p + 4 * of_nat k :: u32)"
  define g where "g = (\<lambda>k. (phy + of_nat k * PAGE_SIZE) OR flags)"
  have sh: "(\<lambda>k m. m(p + 4 + 4 * of_nat k := (phy + PAGE_SIZE + of_nat k * PAGE_SIZE) OR flags)) = (\<lambda>k m. m(f (Suc k) := g (Suc k)))"
    by (simp add: f_def g_def algebra_simps)
  have "[0..<Suc n] = 0 # map Suc [0..<n]" by (simp add: map_Suc_upt upt_conv_Cons del: upt_Suc)
  then have cons: "fold (\<lambda>k m. m(f k := g k)) [0..<Suc n] t =
      fold (\<lambda>k m. m(f (Suc k) := g (Suc k))) [0..<n] (t(f 0 := g 0))" for t
    by (simp add: fold_map comp_def del: upt_Suc)
  have "page_mapping_loop p phy (of_nat (4096 * Suc n)) flags st =
      page_mapping_loop (p + 4) (phy + PAGE_SIZE) (of_nat (4096 * n)) flags (set_entry p 0 (phy OR flags) st)"
    using pos less by (subst page_mapping_loop.simps) (simp del: of_nat_Suc of_nat_mult mult_Suc_right)
  also have "\<dots> = Some (st\<lparr>tables := fold (\<lambda>k m. m(f (Suc k) := g (Suc k))) [0..<n] ((tables st)(f 0 := g 0))\<rparr>)"
    using Suc.prems by (subst Suc.IH) (simp_all only: sh, simp_all add: set_entry_def f_def g_def)
  also have "\<dots> = Some (st\<lparr>tables := fold (\<lambda>k m. m(f k := g k)) [0..<Suc n] (tables st)\<rparr>)" by (simp only: cons)
  finally show ?case unfolding f_def g_def .
qed

lemma page_mapping_ok:
  assumes "PAGE_ALIGN_FLOOR area = area"
  shows "page_mapping p phy area flags st =
   Some (st\<lparr>tables := fold (\<lambda>k m. m(p + 4 * of_nat k := (PAGE_ALIGN_FLOOR phy + of_nat k * PAGE_SIZE) OR flags))
      [0..<unat area div 4096] (tables st)\<rparr>)"
proof -
  have "unat area = 4096 * (unat area div 4096)" using assms unat_PAGE_ALIGN_FLOOR [of area] by simp
  then have a: "of_nat (4096 * (unat area div 4096)) = area" by (metis of_nat_unat ucast_id)
  have "unat area div 4096 < 2 ^ 20" using unat_lt2p [of area] by (simp add: less_mult_imp_div_less)
  from page_mapping_loop_fold [OF this, of p "PAGE_ADDRESS phy" flags st] show ?thesis
    unfolding a page_mapping_def PAGE_ADDRESS_floor .
qed

text \<open>An area with a rest never comes to zero.\<close>

lemma page_mapping_diverges:
  assumes "area mod PAGE_SIZE \<noteq> 0"
  shows "page_mapping p phy area flags st = None"
proof -
  have step: "(a - PAGE_SIZE) mod PAGE_SIZE = a mod PAGE_SIZE" for a :: u32
  proof -
    have "(x + PAGE_SIZE) mod PAGE_SIZE = x mod PAGE_SIZE" for x :: u32
      by (simp add: PAGE_SIZE_def word_unat_eq_iff unat_mod unat_word_ariths mod_mod_cancel)
    from this [of "a - PAGE_SIZE"] show ?thesis by simp
  qed
  have "a mod PAGE_SIZE = 0" if "page_mapping_loop q b a fl u = Some y" for q b a fl u y
    using that
  proof (rule page_mapping_loop.raw_induct [where P = "\<lambda>_ _ a _ _ _. a mod PAGE_SIZE = 0", rotated], goal_cases)
    case (1 f q b a fl u y)
    then show ?case using step [of a] by (cases "a = 0") (auto simp: word_gt_0)
  qed
  then show ?thesis using assms unfolding page_mapping_def by (metis option.exhaust)
qed

text \<open>What the linker script gives: aligned, adjacent areas below the first gigabyte, aligned tables.\<close>

definition layout_ok :: "ker_layout \<Rightarrow> bool" where
  "layout_ok L \<longleftrightarrow> PAGE_ALIGN_FLOOR (kernel_page_tables L) = kernel_page_tables L \<and>
     unat (kernel_page_tables L) + 4 * unat KER_PAGES_NUM \<le> 2 ^ 32 \<and>
     PAGE_ALIGN_FLOOR (ker_ro_area_start L) = ker_ro_area_start L \<and>
     PAGE_ALIGN_FLOOR (ker_ro_area_size L) = ker_ro_area_size L \<and>
     PAGE_ALIGN_FLOOR (ker_data_size L) = ker_data_size L \<and>
     ker_ro_area_end L = ker_ro_area_start L + ker_ro_area_size L \<and>
     unat (ker_ro_area_start L) + unat (ker_ro_area_size L) + unat (ker_data_size L) \<le> unat KER_MEM_MAX_SIZE"

definition kernel_end :: "ker_layout \<Rightarrow> nat" where
  "kernel_end L = unat (ker_ro_area_start L) + unat (ker_ro_area_size L) + unat (ker_data_size L)"

lemma page_mapping_entries:
  assumes "PAGE_ALIGN_FLOOR area = area" and "PAGE_ALIGN_FLOOR phy = phy"
    and "unat phy + unat area \<le> 0x40000000" and "unat T + 4 * 0x40000 \<le> 2 ^ 32"
  shows "\<exists>st'. page_mapping (T + 4 * (phy div PAGE_SIZE)) phy area flags st = Some st' \<and>
    page_directory st' = page_directory st \<and> kernel_first_free_vir_page st' = kernel_first_free_vir_page st \<and>
    (\<forall>j<0x40000. tables st' (T + 4 * of_nat j) =
       (if unat phy div 4096 \<le> j \<and> j < unat phy div 4096 + unat area div 4096
        then (of_nat j * PAGE_SIZE) OR flags else tables st (T + 4 * of_nat j)))"
proof -
  define P n where "P = unat phy div 4096" and "n = unat area div 4096"
  have P: "unat phy = 4096 * P" using assms(2) unat_PAGE_ALIGN_FLOOR [of phy] by (simp add: P_def)
  have A: "unat area = 4096 * n" using assms(1) unat_PAGE_ALIGN_FLOOR [of area] by (simp add: n_def)
  have Pn: "P + n \<le> 0x40000" using assms(3) P A by simp
  have "unat (phy div PAGE_SIZE) = P" by (simp add: unat_div PAGE_SIZE_def P_def)
  then have pP: "phy div PAGE_SIZE = of_nat P" by (metis of_nat_unat ucast_id)
  have phy: "phy = of_nat P * PAGE_SIZE"
  proof -
    have "of_nat (unat phy) = (of_nat (4096 * P) :: u32)" by (simp only: P)
    then show ?thesis by (simp add: PAGE_SIZE_def mult.commute)
  qed
  define s where "s = (\<lambda>k. T + 4 * of_nat P + 4 * of_nat k :: u32)"
  define v where "v = (\<lambda>k. (phy + of_nat k * PAGE_SIZE) OR flags)"
  have us: "unat (T + 4 * of_nat j :: u32) = unat T + 4 * j" if "j < 0x40000" for j
  proof -
    have "unat (4 * of_nat j :: u32) = 4 * j"
      using that by (subst unat_mult_no_wrap) (simp_all add: unat_of_nat take_bit_nat_eq_self)
    then show ?thesis using that assms(4) by (subst unat_add_no_wrap) simp_all
  qed
  have sT: "s k = T + 4 * of_nat (P + k)" for k by (simp add: s_def algebra_simps)
  have inj: "inj_on s {..<n}"
  proof (rule inj_onI)
    fix j k assume "j \<in> {..<n}" "k \<in> {..<n}" "s j = s k"
    then have "unat (T + 4 * of_nat (P + j) :: u32) = unat (T + 4 * of_nat (P + k) :: u32)" by (simp only: sT)
    then show "j = k" using us [of "P + j"] us [of "P + k"] Pn \<open>j \<in> _\<close> \<open>k \<in> _\<close> by simp
  qed
  define st' where "st' = st\<lparr>tables := fold (\<lambda>k m. m(s k := v k)) [0..<n] (tables st)\<rparr>"
  have "page_mapping (T + 4 * (phy div PAGE_SIZE)) phy area flags st = Some st'"
    using page_mapping_ok [OF assms(1), of "T + 4 * of_nat P" phy flags st]
    by (simp only: pP st'_def s_def v_def n_def assms(2))
  moreover have "tables st' (T + 4 * of_nat j) =
       (if P \<le> j \<and> j < P + n then (of_nat j * PAGE_SIZE) OR flags else tables st (T + 4 * of_nat j))" if j: "j < 0x40000" for j
  proof (cases "P \<le> j \<and> j < P + n")
    case True
    then obtain k where k: "j = P + k" "k < n" by (metis add_less_cancel_left le_Suc_ex)
    have "v k = (of_nat j * PAGE_SIZE) OR flags" unfolding v_def k(1) by (simp add: phy algebra_simps)
    then show ?thesis using fold_upd_at [OF inj k(2), of v "tables st"] True by (simp add: st'_def sT k(1))
  next
    case False
    have "T + 4 * of_nat j \<noteq> s k" if "k < n" for k
    proof
      assume "T + 4 * of_nat j = s k"
      then have "unat (T + 4 * of_nat j) = unat (T + 4 * of_nat (P + k))" by (simp only: sT)
      moreover have "P + k < 0x40000" using that Pn by linarith
      ultimately have "j = P + k" using us [OF j] us [of "P + k"] by simp
      then show False using False that by simp
    qed
    then show ?thesis using fold_upd_other [of n "T + 4 * of_nat j" s v "tables st"] False unfolding st'_def by auto
  qed
  ultimately show ?thesis by (auto simp: st'_def P_def n_def)
qed

lemma set_dir_loop:
  "for_upto i n (\<lambda>i. set_dir i (f i)) st =
   st\<lparr>page_directory := \<lambda>j. if i \<le> j \<and> j < n then f j else page_directory st j\<rparr>"
proof (induction "unat n - unat i" arbitrary: i st)
  case 0
  then have "\<not> i < n" by (simp add: word_less_nat_alt)
  then have "(\<lambda>j. if i \<le> j \<and> j < n then f j else page_directory st j) = page_directory st"
    by (auto simp: fun_eq_iff word_le_nat_alt word_less_nat_alt)
  then show ?case using \<open>\<not> i < n\<close> by (subst for_upto.simps) simp
next
  case (Suc d)
  then have lt: "i < n" by (simp add: word_less_nat_alt)
  then have u: "unat (i + 1) = Suc (unat i)" by (rule unat_Suc_less)
  have "i \<le> j \<longleftrightarrow> j = i \<or> i + 1 \<le> j" for j
    using u by (auto simp: word_le_nat_alt word_unat_eq_iff)
  then show ?case
    using lt Suc(1) [of "i + 1" "set_dir i (f i) st"] Suc(2) u
    by (subst for_upto.simps) (auto simp: set_dir_def fun_eq_iff)
qed

lemma link_tables_effect:
  assumes "i < 256"
  shows "page_directory (link_tables L st) i = (kernel_page_tables L + 4096 * i) OR 3"
    and "tables (link_tables L st) = tables st"
proof -
  have "KER_TABS = 256" by (simp add: KER_TABS_def KER_PAGES_NUM_def KER_MEM_MAX_SIZE_def page_consts)
  moreover have "GET_PAG_DIR_INDEX KER_MMAP_IO_ADDR_START = 1016"
    by (simp add: GET_PAG_DIR_INDEX_def KER_MMAP_IO_ADDR_START_def PAGE_ALIGN_FLOOR_def page_consts)
  moreover have "\<not> 1016 \<le> i" using assms by (simp add: word_le_nat_alt word_less_nat_alt)
  ultimately show "page_directory (link_tables L st) i = (kernel_page_tables L + 4096 * i) OR 3"
    and "tables (link_tables L st) = tables st"
    using assms by (simp_all add: link_tables_def Let_def set_dir_loop page_flags PAGE_TAB_LEN_def or.assoc algebra_simps)
qed

lemma kernel_slot:
  assumes "PAGE_ALIGN_FLOOR T = T" and "\<And>i. i < 256 \<Longrightarrow> pd i = (T + 4096 * i) OR 3" and "unat va < 0x40000000"
  shows "pte_slot pd va = T + 4 * of_nat (unat va div 4096)" and "dir_present pd va"
    and "pd (GET_PAG_DIR_INDEX va) AND PAG_IS_RW = PAG_IS_RW"
proof -
  define d where "d = GET_PAG_DIR_INDEX va"
  have ud: "unat d = unat va div 4096 div 1024" by (simp add: d_def unat_DIR)
  have "unat va div 4096 div 1024 < 256" using assms(3) by (simp add: less_mult_imp_div_less)
  then have d: "d < 256" by (simp add: word_less_nat_alt ud)
  have pd: "pd d = push_bit 12 (T div PAGE_SIZE + d) OR 3"
    using assms(2) [OF d] frame_sum [of T d] assms(1) by (simp add: PAGE_SIZE_def mult.commute)
  have "PAGE_ADDRESS (pd d) = T + d * PAGE_SIZE"
    unfolding pd using frame_sum [of T d] assms(1) by (subst entry_frame) simp_all
  moreover have "unat va div 4096 = 1024 * unat d + unat (GET_PAG_TAB_INDEX va)" by (simp add: ud unat_TAB)
  then have "of_nat (unat va div 4096) = 1024 * d + GET_PAG_TAB_INDEX va" by simp
  ultimately show "pte_slot pd va = T + 4 * of_nat (unat va div 4096)"
    by (simp add: pte_slot_def d_def [symmetric] PAGE_SIZE_def algebra_simps)
  have "bit (pd d) 0" "bit (pd d) 1" by (simp_all add: pd bit_or_iff bit_push_bit_iff)
  then show "dir_present pd va" "pd (GET_PAG_DIR_INDEX va) AND PAG_IS_RW = PAG_IS_RW"
    unfolding dir_present_def d_def [symmetric] page_flags
    by (auto intro!: bit_eqI simp: bit_and_iff bit_1_iff bit_2_iff)
qed

lemma rw_bit: "x AND 2 = 2 \<longleftrightarrow> bit x 1" for x :: u32
proof
  assume "x AND 2 = 2"
  then have "bit (x AND 2) 1 = bit (2 :: u32) 1" by simp
  then show "bit x 1" by (simp add: bit_and_iff)
next
  assume "bit x 1"
  then show "x AND 2 = 2" by (auto intro!: bit_eqI simp: bit_and_iff bit_2_iff)
qed

lemma page_sum: "x = 4096 * (x div 4096) \<Longrightarrow> (x + y) div 4096 = x div 4096 + y div 4096" for x y :: nat
proof -
  assume "x = 4096 * (x div 4096)"
  then obtain q where "x = 4096 * q" by blast
  then show ?thesis by simp
qed

lemma aligned_sum: "x = 4096 * (x div 4096) \<Longrightarrow> y = 4096 * (y div 4096) \<Longrightarrow> 4096 * ((x + y) div 4096) = x + y" for x y :: nat
  using page_sum [of x y] by (simp add: add_mult_distrib2)

lemma page_of: "x = 4096 * (x div 4096) \<Longrightarrow> (x \<le> v) = (x div 4096 \<le> v div 4096)"
  "x = 4096 * (x div 4096) \<Longrightarrow> (v < x) = (v div 4096 < x div 4096)" for x v :: nat
proof -
  assume "x = 4096 * (x div 4096)"
  then obtain q where q: "x = 4096 * q" by blast
  show "(x \<le> v) = (x div 4096 \<le> v div 4096)" "(v < x) = (v div 4096 < x div 4096)"
    unfolding q by (simp_all add: less_eq_div_iff_mult_less_eq div_less_iff_less_mult mult.commute)
qed

text \<open>The hardware lets a write through when both levels have the write bit.\<close>

definition writable :: "paging \<Rightarrow> u32 \<Rightarrow> bool" where
  "writable st va \<longleftrightarrow> translate st va \<noteq> None \<and>
     page_directory st (GET_PAG_DIR_INDEX va) AND PAG_IS_RW = PAG_IS_RW \<and>
     tables st (pte_slot (page_directory st) va) AND PAG_IS_RW = PAG_IS_RW"

lemma InitPaging_ok:
  assumes "layout_ok L"
  shows "\<exists>st'. InitPaging L st = Some st' \<and>
    (\<forall>va. unat va < kernel_end L \<longrightarrow> translate st' va = Some va \<and>
       (writable st' va \<longleftrightarrow> \<not> (ker_ro_area_start L \<le> va \<and> va < ker_ro_area_end L)))"
proof -
  define T where "T = kernel_page_tables L"
  define a b c where "a = ker_ro_area_start L" and "b = ker_ro_area_size L" and "c = ker_data_size L"
  have al: "PAGE_ALIGN_FLOOR T = T" "PAGE_ALIGN_FLOOR a = a" "PAGE_ALIGN_FLOOR b = b" "PAGE_ALIGN_FLOOR c = c"
    and Tb: "unat T + 4 * 0x40000 \<le> 2 ^ 32" and sum: "unat a + unat b + unat c \<le> 0x40000000"
    and re: "ker_ro_area_end L = a + b"
    using assms by (simp_all add: layout_ok_def T_def a_def b_def c_def KER_PAGES_NUM_def KER_MEM_MAX_SIZE_def PAGE_SIZE_def)
  have uab: "unat (a + b) = unat a + unat b" using sum by (intro unat_add_no_wrap) simp
  have abal: "PAGE_ALIGN_FLOOR (a + b) = a + b"
  proof -
    have "unat a = 4096 * (unat a div 4096)" "unat b = 4096 * (unat b div 4096)"
      using al(2,3) unat_PAGE_ALIGN_FLOOR by metis+
    then have "4096 * ((unat a + unat b) div 4096) = unat a + unat b" by (metis aligned_sum)
    then show ?thesis unfolding word_unat_eq_iff unat_PAGE_ALIGN_FLOOR uab .
  qed
  obtain st1 where st1: "page_mapping T 0 a 3 (clear_tables L st) = Some st1"
    "\<forall>j<0x40000. tables st1 (T + 4 * of_nat j) = (if j < unat a div 4096 then (of_nat j * PAGE_SIZE) OR 3
       else tables (clear_tables L st) (T + 4 * of_nat j))"
    using page_mapping_entries [of a 0 T 3 "clear_tables L st"] al Tb sum by (auto simp: PAGE_ALIGN_FLOOR_def)
  obtain st2 where st2: "page_mapping (T + 4 * (a div PAGE_SIZE)) a b 1 st1 = Some st2"
    "\<forall>j<0x40000. tables st2 (T + 4 * of_nat j) = (if unat a div 4096 \<le> j \<and> j < unat a div 4096 + unat b div 4096
       then (of_nat j * PAGE_SIZE) OR 1 else tables st1 (T + 4 * of_nat j))"
    using page_mapping_entries [of b a T 1 st1] al Tb sum by auto
  obtain st3 where st3: "page_mapping (T + 4 * ((a + b) div PAGE_SIZE)) (a + b) c 3 st2 = Some st3"
    "\<forall>j<0x40000. tables st3 (T + 4 * of_nat j) = (if unat (a + b) div 4096 \<le> j \<and> j < unat (a + b) div 4096 + unat c div 4096
       then (of_nat j * PAGE_SIZE) OR 3 else tables st2 (T + 4 * of_nat j))"
    using page_mapping_entries [of c "a + b" T 3 st2] al abal Tb sum uab by auto
  define st' where "st' = link_tables L (st3\<lparr>kernel_first_free_vir_page := (a + b) div PAGE_SIZE + c div PAGE_SIZE\<rparr>)"
  have init: "InitPaging L st = Some st'"
    using st1(1) st2(1) st3(1)
    by (simp add: InitPaging_def T_def [symmetric] a_def [symmetric] b_def [symmetric] c_def [symmetric] re al
        KER_MEM_START_ADDR_def page_flags st'_def)
  have pd: "page_directory st' i = (T + 4096 * i) OR 3" if "i < 256" for i
    using link_tables_effect(1) [OF that, of L] by (simp add: st'_def T_def)
  have tb: "tables st' = tables st3" using link_tables_effect(2) [of 0 L] by (simp add: st'_def)
  have main: "translate st' va = Some va \<and> (writable st' va \<longleftrightarrow> \<not> (a \<le> va \<and> va < a + b))" if va: "unat va < kernel_end L" for va
  proof -
    have v: "unat va < 0x40000000" using va sum by (simp add: kernel_end_def a_def b_def c_def)
    note ks = kernel_slot [OF al(1) pd v]
    define j where "j = unat va div 4096"
    have j: "j < 0x40000" using v by (simp add: j_def less_mult_imp_div_less)
    define fl :: u32 where "fl = (if unat a \<le> unat va \<and> unat va < unat a + unat b then 1 else 3)"
    have aa: "unat a = 4096 * (unat a div 4096)" "unat b = 4096 * (unat b div 4096)" "unat c = 4096 * (unat c div 4096)"
      using al(2-4) unat_PAGE_ALIGN_FLOOR by metis+
    have ab: "unat (a + b) div 4096 = unat a div 4096 + unat b div 4096" unfolding uab by (rule page_sum [OF aa(1)])
    have s2: "unat a + unat b = 4096 * ((unat a + unat b) div 4096)" using aligned_sum [OF aa(1,2)] by simp
    then have s3: "unat a + unat b + unat c = 4096 * ((unat a + unat b + unat c) div 4096)"
      using aligned_sum [OF s2 aa(3)] by simp
    have mem: "(unat a \<le> unat va) = (unat a div 4096 \<le> j)" "(unat va < unat a + unat b) = (j < unat a div 4096 + unat b div 4096)"
      "j < unat a div 4096 + unat b div 4096 + unat c div 4096"
      using page_of(1) [OF aa(1), of "unat va"] page_of(2) [OF s2, of "unat va"] page_of(2) [OF s3, of "unat va"] va
        page_sum [OF aa(1), of "unat b"] page_sum [OF s2, of "unat c"]
      by (simp_all only: j_def kernel_end_def a_def [symmetric] b_def [symmetric] c_def [symmetric])
    have e: "tables st' (pte_slot (page_directory st') va) = (of_nat j * PAGE_SIZE) OR fl"
    proof -
      have k: "pte_slot (page_directory st') va = T + 4 * of_nat j" using ks(1) by (simp add: j_def)
      have "tables st3 (T + 4 * of_nat j) = (if j < unat a div 4096 + unat b div 4096 then
          if unat a div 4096 \<le> j then (of_nat j * PAGE_SIZE) OR 1 else (of_nat j * PAGE_SIZE) OR 3
          else (of_nat j * PAGE_SIZE) OR 3)"
        using st1(2) [rule_format, OF j] st2(2) [rule_format, OF j] st3(2) [rule_format, OF j] mem(3) unfolding ab by auto
      then show ?thesis unfolding tb k fl_def using mem(1,2) by auto
    qed
    have fr: "of_nat j * PAGE_SIZE = push_bit 12 (of_nat j :: u32)" by (simp only: mult_page)
    have "PAGE_ADDRESS ((of_nat j * PAGE_SIZE) OR fl) = of_nat j * PAGE_SIZE" unfolding fr by (rule entry_frame) (simp add: fl_def)
    moreover have "of_nat j * PAGE_SIZE + va mod PAGE_SIZE = va"
    proof -
      have "unat (va div PAGE_SIZE) = j" by (simp add: unat_div PAGE_SIZE_def j_def)
      then have "of_nat j = va div PAGE_SIZE" by (metis of_nat_unat ucast_id)
      then show ?thesis by (simp only: div_mult_mod_eq)
    qed
    moreover have "((of_nat j * PAGE_SIZE) OR fl) AND 1 = 1"
      unfolding fr by (intro bit_eqI) (auto simp: fl_def bit_and_iff bit_or_iff bit_1_iff bit_push_bit_iff)
    ultimately have tr: "translate st' va = Some va" using ks(2) e by (simp add: translate_def PAG_IS_PRESENT_def)
    moreover have "((of_nat j * PAGE_SIZE) OR fl) AND 2 = 2 \<longleftrightarrow> fl = 3"
      unfolding fr rw_bit by (auto simp: fl_def bit_or_iff bit_push_bit_iff)
    ultimately show ?thesis
      using ks(3) e by (auto simp: writable_def PAG_IS_RW_def fl_def word_le_nat_alt word_less_nat_alt uab)
  qed
  show ?thesis using init main unfolding re a_def by blast
qed

end
