(* ===== verification/Libk_Conv.thy ===== *)
theory Libk_Conv
  imports Libk_String
begin

text \<open>
  Numbers and their decimal and hexadecimal texts: itoa.c and atoi.c. The two unsigned conversions
  of the source differ in the width of the number only and share the loop here, at the two widths.
  Base 0 divides by zero and base 1 never ends; both are the absence of a result.
\<close>

section \<open>Definitions\<close>

definition ASCII_0 :: u8 where "ASCII_0 = 0x30"
definition ASCII_9 :: u8 where "ASCII_9 = 0x39"
definition ASCII_A :: u8 where "ASCII_A = 0x41"
definition ASCII_MINUS :: u8 where "ASCII_MINUS = 0x2D"
definition BASE_MAX :: u32 where "BASE_MAX = 32"

definition reverse_buffer :: "bytes \<Rightarrow> u32 \<Rightarrow> bytes" where
  "reverse_buffer buf len =
     for_upto 0 (len div 2) (\<lambda>i buf.
       let temp = buf i; buf = buf(i := buf (len - i - 1)) in buf(len - i - 1 := temp)) buf"

partial_function (option) itoa_loop :: "'a::len word \<Rightarrow> 'a word \<Rightarrow> u8 \<Rightarrow> bytes \<Rightarrow> (u8 \<times> bytes) option" where
  "itoa_loop base n count buf =
     (let rem = (ucast (n mod base) :: u32); n' = n div base in
      if rem \<le> 9 then
        let buf' = buf(ucast count := ucast rem + ASCII_0) in
        if n' \<noteq> 0 then itoa_loop base n' (count + 1) buf' else Some (count + 1, buf')
      else if rem < BASE_MAX then
        let buf' = buf(ucast count := ucast rem - 10 + ASCII_A) in
        if n' \<noteq> 0 then itoa_loop base n' (count + 1) buf' else Some (count + 1, buf')
      else Some (count, buf))"

declare itoa_loop.simps [code]

definition ulitoa :: "u32 \<Rightarrow> bytes \<Rightarrow> u32 \<Rightarrow> bytes option" where
  "ulitoa inp buf base =
     (if base = 0 then None
      else map_option (\<lambda>(count, buf). reverse_buffer buf (ucast count)) (itoa_loop base inp 0 buf))"

definition ullitoa :: "u64 \<Rightarrow> bytes \<Rightarrow> u32 \<Rightarrow> bytes option" where
  "ullitoa inp buf base =
     (if base = 0 then None
      else map_option (\<lambda>(count, buf). reverse_buffer buf (ucast count)) (itoa_loop (scast base) inp 0 buf))"

text \<open>The callee gets a pointer past the sign: its buffer starts one byte later.\<close>

definition at_offset :: "u32 \<Rightarrow> (bytes \<Rightarrow> bytes option) \<Rightarrow> bytes \<Rightarrow> bytes option" where
  "at_offset p f buf = map_option (\<lambda>b i. b (i - p)) (f (view buf p))"

definition litoa :: "u32 \<Rightarrow> bytes \<Rightarrow> u32 \<Rightarrow> bytes option" where
  "litoa inp buf base =
     (if inp <s 0 then at_offset 1 (\<lambda>b. ulitoa (inp * (-1)) b base) (buf(0 := ASCII_MINUS))
      else at_offset 0 (\<lambda>b. ulitoa inp b base) buf)"

definition llitoa :: "u64 \<Rightarrow> bytes \<Rightarrow> u32 \<Rightarrow> bytes option" where
  "llitoa inp buf base =
     (if inp <s 0 then at_offset 1 (\<lambda>b. ullitoa (inp * (-1)) b base) (buf(0 := ASCII_MINUS))
      else at_offset 0 (\<lambda>b. ullitoa inp b base) buf)"

definition uitoa :: "u32 \<Rightarrow> bytes \<Rightarrow> u32 \<Rightarrow> bytes option" where
  "uitoa inp buf base = ulitoa inp buf base"

definition itoa :: "u32 \<Rightarrow> bytes \<Rightarrow> u32 \<Rightarrow> bytes option" where
  "itoa inp buf base =
     (if inp <s 0 then at_offset 1 (\<lambda>b. uitoa (inp * (-1)) b base) (buf(0 := ASCII_MINUS))
      else at_offset 0 (\<lambda>b. uitoa inp b base) buf)"

definition dec_pow :: "u32 list" where
  "dec_pow = [1, 10, 100, 1000, 10000, 100000, 1000000, 10000000, 100000000, 1000000000]"

definition is_digit :: "u8 \<Rightarrow> bool" where
  "is_digit c \<longleftrightarrow> ASCII_0 \<le> c \<and> c \<le> ASCII_9"

text \<open>The digit count, at most up to 11 characters.\<close>

function count_digits :: "bytes \<Rightarrow> u8 \<Rightarrow> u8" where
  "count_digits s digits =
     (if s (ucast digits) \<noteq> 0 \<and> digits < 11
      then if is_digit (s (ucast digits)) then count_digits s (digits + 1) else digits
      else digits)"
  by pat_completeness auto
termination
  by (relation "measure (\<lambda>(_, d). 11 - unat d)") (auto simp: loop_measure [of _ "11 :: u8", simplified])

declare count_digits.simps [simp del]

text \<open>The sum of digit values times powers; a power past the table is no behaviour.\<close>

definition sum_digits :: "bytes \<Rightarrow> u8 \<Rightarrow> u32 option" where
  "sum_digits s digits =
     (if unat digits \<le> length dec_pow
      then Some (fold (\<lambda>i acc. acc + (scast (s (ucast digits - of_nat i - 1)) - ucast ASCII_0) * dec_pow ! i)
                   [0..<unat digits] 0)
      else None)"

definition atou :: "bytes \<Rightarrow> u32 option" where
  "atou s = sum_digits s (count_digits s 0)"

definition atoi :: "bytes \<Rightarrow> u32 option" where
  "atoi s =
     (let minus = (s 0 = ASCII_MINUS);
          mulFactor = (if minus then -1 else 0);
          digits = count_digits s (if minus then 1 else 0)
      in map_option (\<lambda>r. r * mulFactor) (sum_digits s digits))"

section \<open>Digits\<close>

definition digit_char :: "nat \<Rightarrow> u8" where
  "digit_char d = (if d \<le> 9 then of_nat d + ASCII_0 else of_nat d - 10 + ASCII_A)"

text \<open>The digits of a number, the least significant first.\<close>

function digits_rev :: "nat \<Rightarrow> nat \<Rightarrow> u8 list" where
  "digits_rev b n = digit_char (n mod b) # (if n div b = 0 \<or> b < 2 then [] else digits_rev b (n div b))"
  by pat_completeness auto
termination
  by (relation "measure snd") (auto simp: div_greater_zero_iff intro!: div_less_dividend)

declare digits_rev.simps [simp del]

lemma digits_rev_length: "2 \<le> b \<Longrightarrow> length (digits_rev b n) = Suc k \<Longrightarrow> k = 0 \<or> b ^ k \<le> n"
proof (induction b n arbitrary: k rule: digits_rev.induct)
  case (1 b n)
  show ?case
  proof (cases "n div b = 0")
    case False
    then obtain j where k: "k = Suc j" "length (digits_rev b (n div b)) = Suc j"
      using 1(2,3) by (cases k) (simp_all add: digits_rev.simps [of b n], simp add: digits_rev.simps)
    then have "j = 0 \<or> b ^ j \<le> n div b" using 1(1) [of j] 1(2) False by simp
    then have "b ^ j \<le> n div b" using False by (cases "j = 0") auto
    then have "b ^ j * b \<le> n" using 1(2) by (simp add: less_eq_div_iff_mult_less_eq)
    then show ?thesis by (simp add: k mult.commute)
  qed (use 1(3) in \<open>simp add: digits_rev.simps [of b n]\<close>)
qed

lemma digits_rev_nth: "2 \<le> b \<Longrightarrow> i < length (digits_rev b n) \<Longrightarrow> digits_rev b n ! i = digit_char (n div b ^ i mod b)"
proof (induction b n arbitrary: i rule: digits_rev.induct)
  case (1 b n)
  then show ?case
    by (cases i) (auto simp: digits_rev.simps [of b n] div_mult2_eq split: if_splits)
qed

lemma digits_rev_div: "2 \<le> b \<Longrightarrow> n div b ^ length (digits_rev b n) = 0"
proof (induction b n rule: digits_rev.induct)
  case (1 b n)
  then show ?case by (auto simp: digits_rev.simps [of b n] div_mult2_eq)
qed

lemma digits_rev_ne: "0 < length (digits_rev b n)"
  by (subst digits_rev.simps) simp

lemma digits_rev_bound:
  assumes "2 \<le> b" and "n < 2 ^ w" and "0 < w"
  shows "length (digits_rev b n) \<le> w"
proof -
  obtain k where k: "length (digits_rev b n) = Suc k" using digits_rev_ne [of b n] by (metis gr0_conv_Suc)
  show ?thesis
  proof (cases "k = 0")
    case False
    then have "b ^ k \<le> n" using digits_rev_length [OF assms(1) k] by simp
    then have "2 ^ k < (2 ^ w :: nat)" using power_mono [of 2 b k] assms by linarith
    then show ?thesis using k by (simp add: power_strict_increasing_iff)
  qed (use k assms in simp)
qed

section \<open>Conversion to text\<close>

lemma itoa_digit:
  fixes n base :: "'a::len word"
  assumes "unat base \<le> 32" and "base \<noteq> 0"
  defines "rem \<equiv> (ucast (n mod base) :: u32)"
  shows "rem \<le> 9 \<longleftrightarrow> unat n mod unat base \<le> 9" and "rem < BASE_MAX"
    and "(if rem \<le> 9 then ucast rem + ASCII_0 else ucast rem - 10 + ASCII_A) = digit_char (unat n mod unat base)"
proof -
  have lt: "unat n mod unat base < 32" using assms(1,2) by (metis unat_eq_0 mod_less_divisor neq0_conv order_less_le_trans)
  have r: "rem = of_nat (unat n mod unat base)"
    unfolding rem_def by (simp flip: unat_mod)
  show 9: "rem \<le> 9 \<longleftrightarrow> unat n mod unat base \<le> 9"
    using of_nat_le_word [of "unat n mod unat base" 9, where ?'a = 32] lt by (simp add: r)
  show "rem < BASE_MAX" using lt by (simp add: r BASE_MAX_def word_less_nat_alt unat_of_nat take_bit_nat_eq_self)
  have "(ucast rem :: u8) = of_nat (unat n mod unat base)" unfolding r using lt by (intro ucast_of_nat) simp
  then show "(if rem \<le> 9 then ucast rem + ASCII_0 else ucast rem - 10 + ASCII_A) = digit_char (unat n mod unat base)"
    unfolding 9 digit_char_def by simp
qed

lemma itoa_loop_digits:
  fixes n base :: "'a::len word"
  assumes "2 \<le> unat base" "unat base \<le> 32"
  shows "unat count + length (digits_rev (unat base) (unat n)) < 256 \<Longrightarrow>
    itoa_loop base n count buf = Some (count + of_nat (length (digits_rev (unat base) (unat n))),
      \<lambda>i. if unat count \<le> unat i \<and> unat i < unat count + length (digits_rev (unat base) (unat n))
          then digits_rev (unat base) (unat n) ! (unat i - unat count) else buf i)"
proof (induction "unat n" arbitrary: n count buf rule: less_induct)
  case less
  define b where "b = unat base"
  have b0: "base \<noteq> 0" using assms(1) by auto
  define buf' where "buf' = buf(ucast count := digit_char (unat n mod b))"
  have step: "itoa_loop base n count buf =
      (if n div base \<noteq> 0 then itoa_loop base (n div base) (count + 1) buf' else Some (count + 1, buf'))"
    using itoa_digit [OF assms(2) b0, of n] unfolding buf'_def b_def
    by (subst itoa_loop.simps) (auto simp: Let_def split: if_splits)
  have at: "buf' i = (if unat i = unat count then digit_char (unat n mod b) else buf i)" for i
    unfolding buf'_def by (auto simp: word_unat_eq_iff)
  have ds: "digits_rev b (unat n) = digit_char (unat n mod b) #
      (if unat (n div base) = 0 then [] else digits_rev b (unat (n div base)))"
    using assms(1) by (subst digits_rev.simps) (simp add: b_def unat_div)
  show ?case
  proof (cases "n div base = 0")
    case True
    then have "digits_rev b (unat n) = [digit_char (unat n mod b)]" using ds by simp
    then show ?thesis using step True unfolding b_def [symmetric] by (auto simp: at fun_eq_iff)
  next
    case False
    then have ds': "digits_rev b (unat n) = digit_char (unat n mod b) # digits_rev b (unat (n div base))"
      using ds by (simp add: unat_eq_0)
    have lt: "unat (n div base) < unat n"
      using assms(1) False by (metis div_less_dividend less_le_trans one_less_numeral_iff semiring_norm(76) unat_div unat_eq_0
          bot_nat_0.not_eq_extremum div_0)
    have c1: "unat (count + 1) = Suc (unat count)" using less.prems by (subst unat_add_no_wrap) (simp_all add: ds' b_def [symmetric])
    have "unat (count + 1) + length (digits_rev (unat base) (unat (n div base))) < 256"
      using less.prems ds' c1 by (simp add: b_def)
    from less.hyps [OF lt this, of buf'] show ?thesis
      using step False c1 unfolding b_def [symmetric] ds' by (auto simp: at fun_eq_iff nth_Cons' Suc_le_eq)
  qed
qed

lemma reverse_buffer_at:
  "reverse_buffer buf len i = (if i < len then buf (len - i - 1) else buf i)"
proof -
  define B where "B = (\<lambda>(i :: u32) (buf :: bytes). (buf(i := buf (len - i - 1)))(len - i - 1 := buf i))"
  define N where "N = unat len"
  have mirror: "unat (len - j - 1) = N - 1 - unat j" if "unat j < N" for j
  proof -
    have "j < len" using that by (simp add: N_def word_less_nat_alt)
    then have "unat (len - j) = N - unat j" by (simp add: N_def unat_sub_if_size word_less_nat_alt word_le_nat_alt)
    then show ?thesis using that by (subst unat_minus_one) (auto simp: word_unat_eq_iff)
  qed
  have inv: "fold (\<lambda>k. B (of_nat k)) [0..<m] buf j =
      (if unat j < m \<or> N - m \<le> unat j \<and> unat j < N then buf (len - j - 1) else buf j)" if "m \<le> N div 2" for m j
    using that
  proof (induction m arbitrary: j)
    case (Suc m)
    define F where "F = fold (\<lambda>k. B (of_nat k)) [0..<m] buf"
    have F: "F j = (if unat j < m \<or> N - m \<le> unat j \<and> unat j < N then buf (len - j - 1) else buf j)" for j
      unfolding F_def using Suc.prems by (intro Suc.IH) simp
    have m: "m < N - 1 - m" "N \<noteq> 0" using Suc.prems by linarith+
    have um: "unat (of_nat m :: u32) = m" using m of_nat_unat_less [of m len] by (simp add: N_def)
    have ur: "unat (len - of_nat m - 1) = N - 1 - m" using mirror [of "of_nat m"] m by (simp add: um)
    have bk: "len - (len - of_nat m - 1) - 1 = (of_nat m :: u32)" by simp
    have sm: "fold (\<lambda>k. B (of_nat k)) [0..<Suc m] buf j = B (of_nat m) F j" by (simp add: F_def)
    have ne: "of_nat m \<noteq> len - of_nat m - 1" using m um ur by (auto simp: word_unat_eq_iff)
    have Fr: "F (len - of_nat m - 1) = buf (len - of_nat m - 1)" using m unfolding F ur by (simp split: if_splits) linarith
    have Fm: "F (of_nat m) = buf (of_nat m)" using m unfolding F um by (simp split: if_splits) linarith
    consider "unat j = m" | "unat j = N - 1 - m" | "unat j \<noteq> m" "unat j \<noteq> N - 1 - m" by blast
    then show ?case
    proof cases
      case 1
      then have j: "j = of_nat m" by (simp add: word_unat_eq_iff um)
      then show ?thesis unfolding sm using ne Fr by (simp add: B_def j um)
    next
      case 2
      then have j: "j = len - of_nat m - 1" by (simp add: word_unat_eq_iff ur)
      have "N - Suc m \<le> unat j \<and> unat j < N" using 2 m by linarith
      then show ?thesis unfolding sm using Fm bk by (simp add: B_def j)
    next
      case 3
      then have "j \<noteq> of_nat m" "j \<noteq> len - of_nat m - 1" by (auto simp: word_unat_eq_iff um ur)
      then show ?thesis unfolding sm using F [of j] 3 m by (simp add: B_def) linarith
    qed
  qed auto
  have mid: "len - i - 1 = i" if "unat i = N - 1 - unat i" "unat i < N" using mirror [OF that(2)] that by (simp add: word_unat_eq_iff)
  have "reverse_buffer buf len i = fold (\<lambda>k. B (of_nat k)) [0..<N div 2] buf i"
    by (simp add: reverse_buffer_def loop_simps B_def Let_def unat_div N_def)
  also have "\<dots> = (if unat i < N div 2 \<or> N - N div 2 \<le> unat i \<and> unat i < N then buf (len - i - 1) else buf i)"
    by (rule inv) simp
  also have "\<dots> = (if i < len then buf (len - i - 1) else buf i)"
  proof (cases "unat i < N \<and> \<not> (unat i < N div 2 \<or> N - N div 2 \<le> unat i)")
    case True
    then have "unat i = N - 1 - unat i" by linarith
    then have "len - i - 1 = i" using mid True by blast
    then show ?thesis by (simp only: if_cancel)
  next
    case False
    then show ?thesis unfolding word_less_nat_alt N_def [symmetric] using div_le_dividend [of N 2] by auto
  qed
  finally show ?thesis .
qed

text \<open>The text of a number, the most significant digit first.\<close>

definition number_text :: "nat \<Rightarrow> nat \<Rightarrow> u8 list" where
  "number_text b n = rev (digits_rev b n)"

lemma itoa_text:
  fixes n base :: "'a::len word"
  assumes "2 \<le> unat base" "unat base \<le> 32" and "LENGTH('a) < 256"
  shows "\<exists>buf'. map_option (\<lambda>(count, buf). reverse_buffer buf (ucast count)) (itoa_loop base n 0 buf) = Some buf' \<and>
    (\<forall>i. buf' i = (if unat i < length (number_text (unat base) (unat n)) then number_text (unat base) (unat n) ! unat i else buf i))"
proof -
  define ds where "ds = digits_rev (unat base) (unat n)"
  have len: "length ds < 256" using digits_rev_bound [OF assms(1) unat_lt2p [of n]] assms(3) by (simp add: ds_def)
  define c :: u32 where "c = of_nat (length ds)"
  have uc: "ucast (of_nat (length ds) :: u8) = c" unfolding c_def using len by (intro ucast_of_nat) simp
  have un: "unat c = length ds" unfolding c_def using len by (simp add: unat_of_nat take_bit_nat_eq_self)
  define buf1 where "buf1 = (\<lambda>i. if unat i < length ds then ds ! unat i else buf i)"
  have "itoa_loop base n 0 buf = Some (of_nat (length ds), buf1)"
    using itoa_loop_digits [OF assms(1,2), of 0 n buf] len by (simp add: ds_def buf1_def cong: if_cong)
  moreover have "reverse_buffer buf1 c i = (if unat i < length (rev ds) then rev ds ! unat i else buf i)" for i
  proof (cases "i < c")
    case True
    then have i: "unat i < length ds" by (simp add: word_less_nat_alt un)
    have "unat (c - i) = length ds - unat i" using True by (simp add: un unat_sub_if_size word_less_nat_alt word_le_nat_alt)
    then have "unat (c - i - 1) = length ds - Suc (unat i)" using i by (subst unat_minus_one) (auto simp: word_unat_eq_iff)
    moreover have "length ds - Suc (unat i) < length ds" using i by simp
    ultimately show ?thesis using True i by (simp add: reverse_buffer_at buf1_def rev_nth)
  next
    case False
    then show ?thesis by (simp add: reverse_buffer_at buf1_def word_less_nat_alt un)
  qed
  ultimately show ?thesis by (simp add: number_text_def ds_def [symmetric] uc)
qed

lemma ulitoa_text:
  assumes "2 \<le> unat base" "unat base \<le> 32"
  shows "\<exists>buf'. ulitoa n buf base = Some buf' \<and>
    (\<forall>i. buf' i = (if unat i < length (number_text (unat base) (unat n)) then number_text (unat base) (unat n) ! unat i else buf i))"
  using itoa_text [OF assms, of n buf] assms(1) by (auto simp: ulitoa_def)

section \<open>Reading a number back\<close>

lemma count_digits_text:
  "(\<And>j. unat k \<le> j \<Longrightarrow> j < n \<Longrightarrow> is_digit (s (of_nat j))) \<Longrightarrow> \<not> is_digit (s (of_nat n)) \<Longrightarrow>
   unat k \<le> n \<Longrightarrow> n \<le> 11 \<Longrightarrow> count_digits s k = of_nat n"
proof (induction s k rule: count_digits.induct)
  case (1 s k)
  have uk: "ucast k = (of_nat (unat k) :: u32)" by simp
  show ?case
  proof (cases "unat k = n")
    case True
    then have "\<not> is_digit (s (ucast k))" using 1(3) uk by simp
    then show ?thesis using True by (subst count_digits.simps) (auto simp: True [symmetric])
  next
    case False
    then have lt: "unat k < n" using 1(4) by simp
    then have k11: "k < 11" using 1(5) by (simp add: word_less_nat_alt)
    have d: "is_digit (s (ucast k))" unfolding uk using lt by (intro 1(2)) simp_all
    then have nz: "s (ucast k) \<noteq> 0" by (auto simp: is_digit_def ASCII_0_def)
    have "unat (k + 1) = Suc (unat k)" using k11 by (rule unat_Suc_less)
    then have "count_digits s (k + 1) = of_nat n" using 1(2,3,5) d nz k11 lt by (intro 1(1)) simp_all
    then show ?thesis using d nz k11 by (subst count_digits.simps) simp
  qed
qed

lemma is_digit_char: "d < 10 \<Longrightarrow> is_digit (digit_char d)"
  by (simp add: is_digit_def digit_char_def ASCII_0_def ASCII_9_def word_le_nat_alt unat_word_ariths unat_of_nat
      take_bit_nat_eq_self)

lemma digit_value: "d < 10 \<Longrightarrow> scast (digit_char d) - ucast ASCII_0 = (of_nat d :: u32)"
proof -
  have "list_all (\<lambda>d. scast (digit_char d) - ucast ASCII_0 = (of_nat d :: u32)) [0..<10]" by code_simp
  then show "d < 10 \<Longrightarrow> ?thesis" by (simp add: list_all_iff)
qed

lemma dec_pow_nth: "i < 10 \<Longrightarrow> dec_pow ! i = 10 ^ i"
proof -
  have "list_all (\<lambda>i. dec_pow ! i = 10 ^ i) [0..<10]" by code_simp
  then show "i < 10 \<Longrightarrow> ?thesis" by (simp add: list_all_iff)
qed

lemma digit_sum: "(\<Sum>i<k. n div 10 ^ i mod 10 * 10 ^ i) + 10 ^ k * (n div 10 ^ k) = n" for n :: nat
proof (induction k)
  case (Suc k)
  have "n div 10 ^ k mod 10 * 10 ^ k + 10 ^ Suc k * (n div 10 ^ Suc k) = 10 ^ k * (n div 10 ^ k)"
  proof -
    define q where "q = n div 10 ^ k"
    have "n div 10 ^ Suc k = q div 10" unfolding q_def power_Suc2 by (rule div_mult2_eq)
    moreover have "q = q mod 10 + 10 * (q div 10)" by simp
    then have "10 ^ k * q = q mod 10 * 10 ^ k + 10 ^ k * 10 * (q div 10)" by (metis distrib_left mult.assoc mult.commute)
    ultimately show ?thesis unfolding q_def [symmetric] by simp
  qed
  with Suc show ?case by simp
qed simp

lemma number_text_length: "n < 2 ^ 32 \<Longrightarrow> length (number_text 10 n) \<le> 10"
proof -
  assume n: "n < 2 ^ 32"
  obtain k where k: "length (digits_rev 10 n) = Suc k" using digits_rev_ne [of 10 n] by (metis gr0_conv_Suc)
  have "k \<le> 9"
  proof (rule ccontr)
    assume "\<not> k \<le> 9"
    then have "(10 :: nat) ^ 10 \<le> 10 ^ k" by (intro power_increasing) simp_all
    moreover have "10 ^ k \<le> n" using digits_rev_length [OF _ k] \<open>\<not> k \<le> 9\<close> by simp
    ultimately show False using n by simp
  qed
  then show ?thesis by (simp add: number_text_def k)
qed

lemma atou_text:
  assumes "n < 2 ^ 32" and "\<And>i. i < length (number_text 10 n) \<Longrightarrow> s (of_nat i) = number_text 10 n ! i"
    and "\<not> is_digit (s (of_nat (length (number_text 10 n))))"
  shows "atou s = Some (of_nat n)"
proof -
  define L where "L = length (number_text 10 n)"
  have L: "L \<le> 10" using number_text_length [OF assms(1)] by (simp add: L_def)
  have nth: "number_text 10 n ! i = digit_char (n div 10 ^ (L - Suc i) mod 10)" if "i < L" for i
    using that by (simp add: number_text_def L_def rev_nth digits_rev_nth)
  have "is_digit (s (of_nat j))" if "j < L" for j
    using that assms(2) by (simp add: L_def [symmetric] nth is_digit_char)
  then have cd: "count_digits s 0 = of_nat L"
    using assms(3) L by (intro count_digits_text) (simp_all add: L_def)
  have uL: "unat (of_nat L :: u8) = L" using L by (simp add: unat_of_nat take_bit_nat_eq_self)
  have dterm: "(scast (s (ucast (of_nat L :: u8) - of_nat i - 1)) - ucast ASCII_0) * dec_pow ! i = (of_nat (n div 10 ^ i mod 10 * 10 ^ i) :: u32)"
    if "i < L" for i
  proof -
    have ix: "ucast (of_nat L :: u8) - of_nat i - 1 = (of_nat (L - Suc i) :: u32)"
      using that L by (simp add: ucast_of_nat of_nat_diff)
    have "s (of_nat (L - Suc i)) = number_text 10 n ! (L - Suc i)" using that by (intro assms(2)) (simp add: L_def)
    then have sv: "s (of_nat (L - Suc i)) = digit_char (n div 10 ^ i mod 10)" using nth [of "L - Suc i"] that by simp
    show ?thesis unfolding ix sv using that L by (simp add: digit_value dec_pow_nth)
  qed
  have sums: "fold (\<lambda>i acc. acc + (scast (s (ucast (of_nat L :: u8) - of_nat i - 1)) - ucast ASCII_0) * dec_pow ! i) [0..<l] 0 =
      (of_nat (\<Sum>i<l. n div 10 ^ i mod 10 * 10 ^ i) :: u32)" if "l \<le> L" for l
    using that
  proof (induction l)
    case (Suc l)
    then show ?case using dterm [of l] by simp
  qed simp
  have total: "(\<Sum>i<L. n div 10 ^ i mod 10 * 10 ^ i) = n"
    using digit_sum [of n L] digits_rev_div [of 10 n] by (simp add: L_def number_text_def)
  have "length dec_pow = 10" by (simp add: dec_pow_def)
  then show ?thesis
    unfolding atou_def cd sum_digits_def uL sums [OF order_refl] total using L by simp
qed

end
