(* ===== verification/Props_Arch.thy ===== *)
theory Props_Arch
  imports IA32_Rtc IA32_Paging Libk_Conv
begin

text \<open>
  The properties of the calendar, the real-time clock driver, the number conversions and the
  paging code, each applied to a concrete state.
\<close>

section \<open>Calendar and real-time clock\<close>








text \<open>
  C29. Date to Unix time and back: for every valid date and time after the epoch up to 2105, ts_to_date applied to
  what RTC_DateToTimestamp computes gives the date and the time back, with the week day (Monday is
  1) and the day of the year.
\<close>

theorem date_roundtrip:
  assumes "valid_date y m d" and "1970 \<le> y" "y \<le> 2105" and "hh < 24" "mi < 60" "ss < 60"
    and "0 < epoch_seconds y m d hh mi ss"
  shows "ts_to_date (RTC_DateToTimestamp (cmos_date y m d hh mi ss w)) tp =
    Some (tp\<lparr>tm_sec := int ss, tm_min := int mi, tm_hour := int hh, tm_mday := int d, tm_mon := int m,
      tm_year := int y - 1900, tm_wday := int ((epoch_days y m d + 3) mod 7 + 1),
      tm_yday := int (days_before_month y m + d)\<rparr>)"
  using ts_to_date_epoch [OF assms] DateToTimestamp_correct [OF assms(1-6)] by simp

theorem date_roundtrip_witness:
  "\<forall>tp. map_option tm_mday (ts_to_date (RTC_DateToTimestamp (cmos_date 2024 2 29 12 34 56 4)) tp) = Some 29"
proof
  fix tp
  have "0 < epoch_seconds 2024 2 29 12 34 56" by (simp add: epoch_seconds_def)
  from date_roundtrip [of 2024 2 29 12 34 56 4 tp, OF _ _ _ _ _ _ this]
  show "map_option tm_mday (ts_to_date (RTC_DateToTimestamp (cmos_date 2024 2 29 12 34 56 4)) tp) = Some 29"
    by (simp add: valid_date_def month_days_def leap_def)
qed

section \<open>Number conversions\<close>

text \<open>
  Printing and reading numbers: ulitoa in base 10 returns for every unsigned 32-bit number,
  and atou reads the same number back from its buffer, provided the byte behind the text is no
  digit (ulitoa writes no terminator).
\<close>

lemma number_roundtrip:
  assumes "\<And>i. \<not> is_digit (buf i)"
  shows "\<exists>buf'. ulitoa n buf 10 = Some buf' \<and> atou buf' = Some n"
proof -
  obtain buf' where b: "ulitoa n buf 10 = Some buf'"
    "\<And>i. buf' i = (if unat i < length (number_text 10 (unat n)) then number_text 10 (unat n) ! unat i else buf i)"
    using ulitoa_text [of 10 n buf] by auto
  have lt: "unat n < 2 ^ 32" using unat_lt2p [of n] by simp
  have "unat (of_nat i :: u32) = i" if "i \<le> length (number_text 10 (unat n))" for i
    using number_text_length [OF lt] that by (simp add: unat_of_nat take_bit_nat_eq_self)
  then have "atou buf' = Some (of_nat (unat n))" using assms by (intro atou_text lt) (simp_all add: b(2))
  with b(1) show ?thesis by simp
qed

section \<open>Paging\<close>


text \<open>One page table, at 0x5000, for the addresses from 4 MB to 8 MB.\<close>

definition demo_paging :: paging where
  "demo_paging = \<lparr>page_directory = (\<lambda>i. if i = 1 then 0x5003 else 0), tables = (\<lambda>_. 0), kernel_first_free_vir_page = 0\<rparr>"

lemma demo_area: "area_pages 0x400000 0x1800 = {0x400, 0x401}"
proof -
  have n: "unat (PAGE_ALIGN_CEIL 0x1800 div PAGE_SIZE) = 2" "unat (0x400000 :: u32) div 4096 = 0x400"
    by (simp_all add: PAGE_ALIGN_CEIL_def PAGE_ALIGN_FLOOR_def page_consts)
  show ?thesis unfolding area_pages_def n by (auto simp: atLeastLessThan_iff)
qed

lemma demo_dir: "unat va div 4096 \<in> {0x400, 0x401} \<Longrightarrow> GET_PAG_DIR_INDEX va = 1"
  by (auto simp: word_unat_eq_iff unat_DIR)

lemma demo_mappable: "mappable demo_paging 0x400000 0x1800"
proof -
  have "tables_distinct (page_directory demo_paging)"
    by (simp add: tables_distinct_def demo_paging_def PAG_IS_PRESENT_def)
  moreover have "unat (0x400000 :: u32) div 4096 + unat (PAGE_ALIGN_CEIL 0x1800 div PAGE_SIZE) \<le> 2 ^ 20"
    by (simp add: PAGE_ALIGN_CEIL_def PAGE_ALIGN_FLOOR_def page_consts)
  moreover have "dir_present (page_directory demo_paging) va" if "unat va div 4096 \<in> area_pages 0x400000 0x1800" for va
    using demo_dir [of va] that unfolding demo_area by (simp add: dir_present_def demo_paging_def PAG_IS_PRESENT_def)
  ultimately show ?thesis by (simp add: mappable_def)
qed


text \<open>
  C23. mem_unmap after mem_map: when the pages were not mapped before, unmapping the same area brings every
  translation back to what it was, whatever the attributes.
\<close>

theorem mem_map_unmap:
  assumes "mappable st logi memsize"
    and "\<And>va. unat va div 4096 \<in> area_pages logi memsize \<Longrightarrow>
      PAGE_ADDRESS (page_directory st (GET_PAG_DIR_INDEX va)) \<noteq> 0 \<and> translate st va = None"
    and "mem_map phy logi memsize w c st = Some (a, s, st')"
  shows "translate (mem_unmap logi memsize st') = translate st"
proof
  fix va
  have pd: "page_directory st' = page_directory st"
    and tr: "\<And>va. translate st' va = (if unat va div 4096 \<in> area_pages logi memsize
       then Some (PAGE_ALIGN_FLOOR phy + (va - PAGE_ALIGN_FLOOR logi)) else translate st va)"
    using mem_map_ok [OF assms(1), of phy w c] assms(3) by auto
  have "mappable st' logi memsize" using assms(1) by (simp add: mappable_def pd)
  then have "translate (mem_unmap logi memsize st') va =
      (if unat va div 4096 \<in> area_pages logi memsize then None else translate st' va)"
    by (rule mem_unmap_ok(2)) (use assms(2) pd in auto)
  then show "translate (mem_unmap logi memsize st') va = translate st va" using assms(2) tr by auto
qed

theorem mem_map_unmap_witness:
  "\<exists>a s st'. mem_map 0xFEE00000 0x400000 0x1800 True False demo_paging = Some (a, s, st') \<and>
     translate (mem_unmap 0x400000 0x1800 st') = translate demo_paging"
proof -
  have h: "PAGE_ADDRESS (page_directory demo_paging (GET_PAG_DIR_INDEX va)) \<noteq> 0 \<and> translate demo_paging va = None"
    if "unat va div 4096 \<in> area_pages 0x400000 0x1800" for va
    using demo_dir [of va] that unfolding demo_area
    by (simp add: demo_paging_def translate_def PAGE_ADDRESS_def PAG_IS_PRESENT_def)
  obtain a s st' where "mem_map 0xFEE00000 0x400000 0x1800 True False demo_paging = Some (a, s, st')"
    using mem_map_ok [OF demo_mappable] by blast
  with mem_map_unmap [OF demo_mappable h this] show ?thesis by auto
qed

text \<open>
  is_mapped answers the question it is asked: it is TRUE exactly when every address of the
  area's pages has a translation.
\<close>

lemma is_mapped_exact:
  assumes "unat logi div 4096 + unat (PAGE_ALIGN_CEIL sz div PAGE_SIZE) \<le> 2 ^ 20"
  shows "is_mapped logi sz st \<longleftrightarrow> (\<forall>va. unat va div 4096 \<in> area_pages logi sz \<longrightarrow> translate st va \<noteq> None)"
  by (rule is_mapped_iff [OF assms])

text \<open>
  C25. The boot page tables: InitPaging returns, maps every address of the kernel to itself, and
  leaves exactly the read-only area without write permission.
\<close>

theorem init_paging_identity:
  assumes "layout_ok L"
  shows "\<exists>st'. InitPaging L st = Some st' \<and>
    (\<forall>va. unat va < kernel_end L \<longrightarrow> translate st' va = Some va \<and>
       (writable st' va \<longleftrightarrow> \<not> (ker_ro_area_start L \<le> va \<and> va < ker_ro_area_end L)))"
  by (rule InitPaging_ok [OF assms])

definition demo_layout :: ker_layout where
  "demo_layout = \<lparr>kernel_page_tables = 0x300000, mmap_io_page_tables = 0x500000, ker_ro_area_start = 0x100000,
     ker_ro_area_size = 0x20000, ker_ro_area_end = 0x120000, ker_data_size = 0x40000\<rparr>"

theorem init_paging_identity_witness:
  "\<exists>st'. InitPaging demo_layout demo_paging = Some st' \<and> translate st' 0x110000 = Some 0x110000 \<and>
     \<not> writable st' 0x110000 \<and> writable st' 0x130000"
proof -
  have L: "layout_ok demo_layout"
    by (simp add: layout_ok_def demo_layout_def PAGE_ALIGN_FLOOR_def KER_PAGES_NUM_def KER_MEM_MAX_SIZE_def page_consts)
  have "unat (0x110000 :: u32) < kernel_end demo_layout" "unat (0x130000 :: u32) < kernel_end demo_layout"
    "ker_ro_area_start demo_layout = 0x100000" "ker_ro_area_end demo_layout = 0x120000"
    by (simp_all add: kernel_end_def demo_layout_def)
  with init_paging_identity [OF L, of demo_paging] show ?thesis by fastforce
qed

text \<open>
  C26. The loop of page_mapping ends exactly for sizes that are multiples of the page size: any
  other size makes the unsigned counter step over 0 and around for ever.
\<close>

theorem page_mapping_returns_iff_aligned:
  "(\<exists>st'. page_mapping p phy area flags st = Some st') \<longleftrightarrow> area mod PAGE_SIZE = 0"
proof (cases "area mod PAGE_SIZE = 0")
  case True
  then have "PAGE_ALIGN_FLOOR area = area" using page_offset [of area] by simp
  with True show ?thesis using page_mapping_ok by blast
qed (simp add: page_mapping_diverges)

end
