(* ===== verification/Libk_Printf.thy ===== *)
theory Libk_Printf
  imports Libk_Conv
begin

text \<open>
  Formatted output of printf.c, with putchar.c, puts.c, getc.c and stdio_init.c. A format is the list of its characters before the
  terminator; reading past the terminator, an argument of the wrong type, a missing argument and
  the out-of-range power of atou are no behaviour (\<open>None\<close>). A copy function gets the offset from
  the start of the output, the bytes at the source pointer and their number; its first result says
  whether it returned its destination.
\<close>

section \<open>Output and arguments\<close>

type_synonym 's copy_fun = "u32 \<Rightarrow> bytes \<Rightarrow> u32 \<Rightarrow> 's \<Rightarrow> bool \<times> 's"

text \<open>\<open>print_fun_t\<close> and \<open>read_fun_t\<close> of stdio_init.h: a device driver with a state of its own.\<close>

type_synonym 's print_fun = "bytes \<Rightarrow> u32 \<Rightarrow> 's \<Rightarrow> int \<times> 's"
type_synonym 's read_fun = "u32 \<Rightarrow> 's \<Rightarrow> u8 list \<times> int \<times> 's"

text \<open>An argument as it lies in the argument area: four bytes, eight bytes, or a string.\<close>

datatype va_arg = Va_Word u32 | Va_LLong u64 | Va_Str bytes

definition copy_to_stdout :: "'s print_fun \<Rightarrow> 's copy_fun" where
  "copy_to_stdout libk_stdout_fun off src len st =
     (case libk_stdout_fun src len st of (r, st') \<Rightarrow> (\<not> r < 0, st'))"

text \<open>memcpy with the destination \<open>buff_out + off\<close> and a source outside of the buffer.\<close>

definition copy_to_buffer :: "u32 \<Rightarrow> bytes copy_fun" where
  "copy_to_buffer buff_out off src len m = (True, for_upto 0 len (\<lambda>i m. m(buff_out + off + i := src i)) m)"

definition UINT_MAX :: u32 where "UINT_MAX = 0xFFFFFFFF"
definition INT_MAX :: u32 where "INT_MAX = 0x7FFFFFFF"
definition MAX_STR_NUM :: u32 where "MAX_STR_NUM = 41"

text \<open>A source of one character, for the copies from a local variable.\<close>

definition char_src :: "u8 \<Rightarrow> bytes" where
  "char_src c = (\<lambda>_. c)"

section \<open>Numbers\<close>

text \<open>The padding loops: the return value is 1 when the output is full, -1 when the copy failed.\<close>

fun pad :: "'s copy_fun \<Rightarrow> u32 \<Rightarrow> u8 \<Rightarrow> nat \<Rightarrow> u32 \<Rightarrow> 's \<Rightarrow> int \<times> u32 \<times> 's" where
  "pad cpy max_write c 0 written st = (0, written, st)"
| "pad cpy max_write c (Suc k) written st =
     (if written + 2 > max_write then (1, written, st)
      else case cpy written (char_src c) 1 st of
        (ok, st') \<Rightarrow> if ok then pad cpy max_write c k (written + 1) st' else (-1, written, st'))"

definition print_sign :: "'s copy_fun \<Rightarrow> u32 \<Rightarrow> bytes \<Rightarrow> u32 \<Rightarrow> 's \<Rightarrow> int \<times> u32 \<times> 's" where
  "print_sign cpy max_write str_num written st =
     (if written + 2 > max_write then (1, written, st)
      else case cpy written str_num 1 st of
        (ok, st') \<Rightarrow> if ok then (0, written + 1, st') else (-1, written, st'))"

text \<open>The end of print_number: the digits, cut when the output is full.\<close>

definition print_digits :: "'s copy_fun \<Rightarrow> u32 \<Rightarrow> bytes \<Rightarrow> int \<Rightarrow> u32 \<Rightarrow> u32 \<Rightarrow> 's \<Rightarrow> int \<times> u32 \<times> 's" where
  "print_digits cpy max_write str_num len maxrem written st =
     (if maxrem < of_int len then (-1, written, st)
      else
        let full = written + of_int len + 1 > max_write;
            len = (if full then sint (max_write - written - 1) else len)
        in case cpy written str_num (of_int len) st of
             (ok, st') \<Rightarrow> if ok then (if full then 1 else 0, written + of_int len, st') else (-1, written, st'))"

definition print_precision :: "'s copy_fun \<Rightarrow> u32 \<Rightarrow> bytes \<Rightarrow> int \<Rightarrow> int \<Rightarrow> u32 \<Rightarrow> u32 \<Rightarrow> 's \<Rightarrow> int \<times> u32 \<times> 's" where
  "print_precision cpy max_write str_num len intPrecision maxrem written st =
     (if intPrecision > len \<or> (str_num 0 = ASCII_MINUS \<and> intPrecision + 1 > len) then
        let minus = (str_num 0 = ASCII_MINUS) in
        case (if minus then print_sign cpy max_write str_num written st else (0, written, st)) of
          (r, written, st) \<Rightarrow>
            if r \<noteq> 0 then (r, written, st)
            else
              let str_num = (if minus then view str_num 1 else str_num);
                  len = (if minus then len - 1 else len)
              in case pad cpy max_write ASCII_0 (nat (intPrecision - len)) written st of
                   (r, written, st) \<Rightarrow>
                     if r < 0 then (r, written, st)
                     else print_digits cpy max_write str_num len maxrem written st
      else print_digits cpy max_write str_num len maxrem written st)"

definition print_number :: "'s copy_fun \<Rightarrow> bytes \<Rightarrow> u32 \<Rightarrow> u32 \<Rightarrow> u32 \<Rightarrow> u32 \<Rightarrow> u32 \<Rightarrow> u32 \<Rightarrow> 's \<Rightarrow> int \<times> u32 \<times> 's" where
  "print_number cpy str_num precision width zero_pad max_write maxrem written st =
     (let len = sint (strnlen str_num MAX_STR_NUM);
          intWidth = (if sint width > 0 then sint width else 0);
          intPrecision = (if sint precision > 0 then sint precision else 0);
          zero_pad = (if len \<ge> intWidth then 0 else zero_pad)
      in case pad cpy max_write ASCII_0 (unat zero_pad) written st of
           (r, written, st) \<Rightarrow>
             if r \<noteq> 0 then (r, written, st)
             else
               let intWidth = intWidth - uint zero_pad;
                   intWidth = (if intPrecision > 0
                     then intWidth - intPrecision - (if str_num 0 = ASCII_MINUS then 1 else 0)
                     else intWidth - len)
               in case pad cpy max_write 0x20 (nat intWidth) written st of
                    (r, written, st) \<Rightarrow>
                      if r \<noteq> 0 then (r, written, st)
                      else print_precision cpy max_write str_num len intPrecision maxrem written st)"

section \<open>Formats\<close>

definition peek :: "u8 list \<Rightarrow> u8" where
  "peek fmt = (case fmt of [] \<Rightarrow> 0 | c # _ \<Rightarrow> c)"

text \<open>The bytes at the format pointer.\<close>

definition fmt_view :: "u8 list \<Rightarrow> bytes" where
  "fmt_view fmt i = (if unat i < length fmt then fmt ! unat i else 0)"

abbreviation PERCENT :: u8 where "PERCENT \<equiv> 0x25"

text \<open>The fields between the percent sign and the conversion: zeros, width and precision.\<close>

definition parse_width :: "u8 list \<Rightarrow> (u32 \<times> u32 \<times> u8 list) option" where
  "parse_width fmt =
     (if is_digit (peek fmt) then
        let zero_pad = of_nat (length (takeWhile (\<lambda>c. c = ASCII_0) fmt));
            fmt = dropWhile (\<lambda>c. c = ASCII_0) fmt
        in map_option (\<lambda>width. (zero_pad, width, dropWhile is_digit fmt)) (atou (fmt_view fmt))
      else Some (0, 0, fmt))"

definition parse_precision :: "u8 list \<Rightarrow> (u32 \<times> u8 list) option" where
  "parse_precision fmt =
     (if peek fmt = 0x2E then
        map_option (\<lambda>precision. (precision, dropWhile is_digit (tl fmt))) (atou (fmt_view (tl fmt)))
      else Some (0, fmt))"

text \<open>
  The text of the next number. The letters are \<open>d\<close> or \<open>i\<close>, \<open>u\<close>, \<open>x\<close> or \<open>X\<close>; after \<open>l\<close> and
  \<open>ll\<close> any other letter converts nothing and takes no argument.
\<close>

definition is_signed_conv :: "u8 \<Rightarrow> bool" where "is_signed_conv c \<longleftrightarrow> c = 0x64 \<or> c = 0x69"
definition is_hex_conv :: "u8 \<Rightarrow> bool" where "is_hex_conv c \<longleftrightarrow> c = 0x78 \<or> c = 0x58"

abbreviation CONV_u :: u8 where "CONV_u \<equiv> 0x75"
abbreviation CONV_c :: u8 where "CONV_c \<equiv> 0x63"
abbreviation CONV_s :: u8 where "CONV_s \<equiv> 0x73"
abbreviation CONV_l :: u8 where "CONV_l \<equiv> 0x6C"

definition word_text :: "u8 \<Rightarrow> va_arg list \<Rightarrow> (bytes \<times> va_arg list) option" where
  "word_text c args =
     (if is_signed_conv c \<or> c = CONV_u \<or> is_hex_conv c then
        (case args of
           Va_Word num # args' \<Rightarrow>
             map_option (\<lambda>b. (b, args'))
               (if is_signed_conv c then litoa num (\<lambda>_. 0) 10
                else if c = CONV_u then ulitoa num (\<lambda>_. 0) 10 else ulitoa num (\<lambda>_. 0) 16)
         | _ \<Rightarrow> None)
      else Some (\<lambda>_. 0, args))"

text \<open>The signed conversion of a long long calls the conversion of a long: the number is cut to 32 bits.\<close>

definition llong_text :: "u8 \<Rightarrow> va_arg list \<Rightarrow> (bytes \<times> va_arg list) option" where
  "llong_text c args =
     (if is_signed_conv c \<or> c = CONV_u \<or> is_hex_conv c then
        (case args of
           Va_LLong num # args' \<Rightarrow>
             map_option (\<lambda>b. (b, args'))
               (if is_signed_conv c then litoa (ucast num) (\<lambda>_. 0) 10
                else if c = CONV_u then ullitoa num (\<lambda>_. 0) 10 else ullitoa num (\<lambda>_. 0) 16)
         | _ \<Rightarrow> None)
      else Some (\<lambda>_. 0, args))"

section \<open>One round of the loop\<close>

text \<open>
  The result of a round: what is left of the format and the arguments, and the exit flag (negative
  for an error), the number of bytes written and the output.
\<close>

type_synonym 's round = "(u8 list \<times> va_arg list \<times> int \<times> u32 \<times> 's) option"

text \<open>Copy \<open>len\<close> bytes, or what fits: the common end of the literal, string and default branches.\<close>

definition copy_text :: "'s copy_fun \<Rightarrow> u32 \<Rightarrow> bytes \<Rightarrow> u32 \<Rightarrow> u32 \<Rightarrow> bool \<Rightarrow> u32 \<Rightarrow> 's \<Rightarrow> u32 \<times> int \<times> u32 \<times> 's" where
  "copy_text cpy n src len maxrem exit_now written st =
     (if maxrem < len then (len, -1, written, st)
      else
        let full = written + len + 1 > n;
            len = (if full then n - written - 1 else len)
        in case cpy written src len st of
             (ok, st') \<Rightarrow> if ok then (len, if full \<or> exit_now then 1 else 0, written + len, st')
                          else (len, -1, written, st'))"

definition literal_len :: "u8 list \<Rightarrow> nat" where
  "literal_len fmt = Suc (length (takeWhile (\<lambda>c. c \<noteq> 0 \<and> c \<noteq> PERCENT) (tl fmt)))"

definition step_literal :: "'s copy_fun \<Rightarrow> u32 \<Rightarrow> u8 list \<Rightarrow> va_arg list \<Rightarrow> u32 \<Rightarrow> u32 \<Rightarrow> 's \<Rightarrow> 's round" where
  "step_literal cpy n fmt args maxrem written st =
     (let fmt = (if peek fmt = PERCENT then tl fmt else fmt) in
      case copy_text cpy n (fmt_view fmt) (of_nat (literal_len fmt)) maxrem False written st of
        (amount, r, written, st) \<Rightarrow> Some (drop (unat amount) fmt, args, r, written, st))"

definition step_char :: "'s copy_fun \<Rightarrow> u32 \<Rightarrow> u8 list \<Rightarrow> va_arg list \<Rightarrow> u32 \<Rightarrow> u32 \<Rightarrow> 's \<Rightarrow> 's round" where
  "step_char cpy n fmt args maxrem written st =
     (case args of
        Va_Word c # args' \<Rightarrow>
          if maxrem = 0 then Some (fmt, args', -1, written, st)
          else if written + 1 + 1 > n then Some (fmt, args', 1, written, st)
          else (case cpy written (char_src (ucast c)) 1 st of
                  (ok, st') \<Rightarrow> if ok then Some (fmt, args', 0, written + 1, st') else Some (fmt, args', -1, written, st'))
      | _ \<Rightarrow> None)"

definition step_string :: "'s copy_fun \<Rightarrow> u32 \<Rightarrow> u8 list \<Rightarrow> va_arg list \<Rightarrow> u32 \<Rightarrow> u32 \<Rightarrow> u32 \<Rightarrow> 's \<Rightarrow> 's round" where
  "step_string cpy n fmt args width maxrem written st =
     (case args of
        Va_Str str # args' \<Rightarrow>
          let len = strlen str;
              width = (if len < width then width - len else width)
          in case pad cpy n 0x20 (unat width) written st of
               (r, written, st) \<Rightarrow>
                 if r < 0 then Some (fmt, args', r, written, st)
                 else (case copy_text cpy n str len maxrem (r \<noteq> 0) written st of
                         (_, r, written, st) \<Rightarrow> Some (fmt, args', r, written, st))
      | _ \<Rightarrow> None)"

definition step_number :: "'s copy_fun \<Rightarrow> u32 \<Rightarrow> u8 list \<Rightarrow> (bytes \<times> va_arg list) option \<Rightarrow> u32 \<Rightarrow> u32 \<Rightarrow> u32 \<Rightarrow> u32 \<Rightarrow>
    u32 \<Rightarrow> 's \<Rightarrow> 's round" where
  "step_number cpy n fmt txt precision width zero_pad maxrem written st =
     (if fmt = [] then None
      else case txt of None \<Rightarrow> None
        | Some (str_num, args) \<Rightarrow>
            (case print_number cpy str_num precision width zero_pad n maxrem written st of
               (r, written, st) \<Rightarrow> Some (tl fmt, args, r, written, st)))"

definition step_default :: "'s copy_fun \<Rightarrow> u32 \<Rightarrow> u8 list \<Rightarrow> va_arg list \<Rightarrow> u32 \<Rightarrow> u32 \<Rightarrow> 's \<Rightarrow> 's round" where
  "step_default cpy n fmt args maxrem written st =
     (case copy_text cpy n (fmt_view fmt) (strlen (fmt_view fmt)) maxrem False written st of
        (len, r, written, st) \<Rightarrow> Some (drop (unat len) fmt, args, r, written, st))"

definition printf_step :: "'s copy_fun \<Rightarrow> u32 \<Rightarrow> u8 list \<Rightarrow> va_arg list \<Rightarrow> u32 \<Rightarrow> 's \<Rightarrow> 's round" where
  "printf_step cpy n format args written st =
     (let maxrem = UINT_MAX - written in
      if peek format \<noteq> PERCENT \<or> peek (tl format) = PERCENT then step_literal cpy n format args maxrem written st
      else case parse_width (tl format) of None \<Rightarrow> None
        | Some (zero_pad, width, fmt) \<Rightarrow>
            (case parse_precision fmt of None \<Rightarrow> None
             | Some (precision, fmt) \<Rightarrow>
                 let c = peek fmt in
                 if c = CONV_c then step_char cpy n (tl fmt) args maxrem written st
                 else if c = CONV_s then step_string cpy n (tl fmt) args width maxrem written st
                 else if c = CONV_l \<and> peek (tl fmt) \<noteq> CONV_l then
                   step_number cpy n (tl fmt) (word_text (peek (tl fmt)) args) precision width zero_pad maxrem written st
                 else if c = CONV_l \<and> peek (tl fmt) = CONV_l then
                   step_number cpy n (tl (tl fmt)) (llong_text (peek (tl (tl fmt))) args)
                     precision width zero_pad maxrem written st
                 else if is_signed_conv c \<or> c = CONV_u \<or> is_hex_conv c then
                   step_number cpy n fmt (word_text c args) precision width zero_pad maxrem written st
                 else step_default cpy n format args maxrem written st))"

text \<open>Every round that lets the loop go on consumes a character of the format.\<close>

lemma peek_nonzero: "peek fmt \<noteq> 0 \<Longrightarrow> fmt \<noteq> []"
  by (auto simp: peek_def)

lemma copy_text_continues:
  "copy_text cpy n src len maxrem e w st = (amount, 0, w', st') \<Longrightarrow> amount = len"
  by (auto simp: copy_text_def Let_def split: if_splits prod.splits)

lemma fmt_view_0: "fmt_view fmt 0 = peek fmt"
  by (cases fmt) (simp_all add: fmt_view_def peek_def)

lemma strnlen_pos:
  assumes "s 0 \<noteq> 0" and "0 < n"
  shows "0 < strnlen s n"
proof -
  have ge: "i \<le> strnlen_loop s n i" if "i \<le> n" for i n using that
  proof (induction s n i rule: strnlen_loop.induct)
    case (1 str maxlen len)
    show ?case
    proof (cases "str len \<noteq> 0 \<and> len < maxlen")
      case True
      then have "unat (len + 1) = Suc (unat len)" using unat_Suc_less by blast
      then have "len \<le> len + 1" "len + 1 \<le> maxlen" using True by (simp_all add: word_le_nat_alt word_less_nat_alt)
      then show ?thesis using True 1(1) by (subst strnlen_loop.simps) auto
    qed (subst strnlen_loop.simps, auto)
  qed
  have "1 \<le> n" using assms(2) by (simp add: word_less_nat_alt word_le_nat_alt)
  then have "1 \<le> strnlen_loop s n 1" by (rule ge)
  moreover have "strnlen s n = strnlen_loop s n 1"
    unfolding strnlen_def using assms by (subst strnlen_loop.simps) simp
  ultimately show ?thesis by (simp add: word_less_nat_alt word_le_nat_alt)
qed

lemma strlen_pos: "s 0 \<noteq> 0 \<Longrightarrow> 0 < strlen s"
  unfolding strlen_def by (rule strnlen_pos) (simp_all add: SIZE_MAX_def)

lemma strnlen_le: "strnlen s n \<le> n"
proof -
  have "strnlen_loop s n i \<le> n" if "i \<le> n" for i using that
  proof (induction s n i rule: strnlen_loop.induct)
    case (1 str maxlen len)
    show ?case
    proof (cases "str len \<noteq> 0 \<and> len < maxlen")
      case True
      then have "unat (len + 1) = Suc (unat len)" using unat_Suc_less by blast
      then have "len + 1 \<le> maxlen" using True by (simp add: word_le_nat_alt word_less_nat_alt)
      then show ?thesis using True 1(1) by (subst strnlen_loop.simps) auto
    qed (subst strnlen_loop.simps, use 1(2) in auto)
  qed
  then show ?thesis by (simp add: strnlen_def)
qed

lemma parse_width_shorter: "parse_width fmt = Some (z, w, fmt') \<Longrightarrow> length fmt' \<le> length fmt"
  by (auto simp: parse_width_def Let_def length_dropWhile_le dest!: sym [of "_ = _"] split: if_splits
      intro: order_trans [OF length_dropWhile_le])

lemma parse_precision_shorter: "parse_precision fmt = Some (p, fmt') \<Longrightarrow> length fmt' \<le> length fmt"
  by (auto simp: parse_precision_def split: if_splits intro: order_trans [OF length_dropWhile_le])

lemma step_number_shorter:
  "step_number cpy n fmt txt p w z mr wr st = Some (fmt', r) \<Longrightarrow> length fmt' < length fmt"
  by (auto simp: step_number_def split: if_splits option.splits prod.splits)

lemma drop_shorter: "fmt \<noteq> [] \<Longrightarrow> 0 < k \<Longrightarrow> length (drop k fmt) < length fmt"
  by (cases fmt) auto

lemma literal_len_le: "fmt \<noteq> [] \<Longrightarrow> literal_len fmt \<le> length fmt"
  using length_takeWhile_le [of "\<lambda>c. c \<noteq> 0 \<and> c \<noteq> PERCENT" "tl fmt"] by (cases fmt) (simp_all add: literal_len_def)

lemma step_literal_shorter:
  assumes "step_literal cpy n fmt args mr w st = Some (fmt', args', 0, w', st')"
    and "fmt \<noteq> []" and "length fmt < 2 ^ 32" and "peek fmt = PERCENT \<longrightarrow> tl fmt \<noteq> []"
  shows "length fmt' < length fmt"
proof -
  define f where "f = (if peek fmt = PERCENT then tl fmt else fmt)"
  have f: "f \<noteq> []" "length f \<le> length fmt" using assms(2,4) by (auto simp: f_def)
  then have l: "literal_len f < 2 ^ 32" using literal_len_le [OF f(1)] assms(3) by linarith
  have "fmt' = drop (unat (of_nat (literal_len f) :: u32)) f"
    using assms(1) copy_text_continues [of cpy n "fmt_view f" "of_nat (literal_len f)" mr False w st _ w' st']
    by (auto simp: step_literal_def f_def [symmetric] split: prod.splits)
  then have "fmt' = drop (literal_len f) f" using l by (simp add: unat_of_nat take_bit_nat_eq_self)
  moreover have "length (drop (literal_len f) f) < length f" using f(1) by (rule drop_shorter) (simp add: literal_len_def)
  ultimately show ?thesis using f(2) by simp
qed

lemma step_default_shorter:
  assumes "step_default cpy n fmt args mr w st = Some (fmt', args', 0, w', st')" and "peek fmt \<noteq> 0"
  shows "length fmt' < length fmt"
proof -
  have "fmt' = drop (unat (strlen (fmt_view fmt))) fmt"
    using assms(1) copy_text_continues [of cpy n "fmt_view fmt" "strlen (fmt_view fmt)" mr False w st _ w' st']
    by (auto simp: step_default_def split: prod.splits)
  moreover have "0 < strlen (fmt_view fmt)" using assms(2) by (intro strlen_pos) (simp add: fmt_view_0)
  ultimately show ?thesis
    using drop_shorter [OF peek_nonzero [OF assms(2)], of "unat (strlen (fmt_view fmt))"] by (simp add: word_less_nat_alt)
qed

lemma step_char_rest: "step_char cpy n fmt args mr w st = Some (fmt', r) \<Longrightarrow> fmt' = fmt"
  by (auto simp: step_char_def split: list.splits va_arg.splits if_splits prod.splits)

lemma step_string_rest: "step_string cpy n fmt args wd mr w st = Some (fmt', r) \<Longrightarrow> fmt' = fmt"
  by (auto simp: step_string_def Let_def split: list.splits va_arg.splits if_splits prod.splits)

lemma printf_step_shorter:
  assumes "printf_step cpy n fmt args w st = Some (fmt', args', 0, w', st')" and "peek fmt \<noteq> 0" and "length fmt < 2 ^ 32"
  shows "length fmt' < length fmt"
proof (cases "peek fmt \<noteq> PERCENT \<or> peek (tl fmt) = PERCENT")
  case True
  then have "peek fmt = PERCENT \<longrightarrow> tl fmt \<noteq> []" by (auto simp: peek_def)
  then show ?thesis
    using step_literal_shorter [OF _ peek_nonzero [OF assms(2)] assms(3)] assms(1) True
    by (simp add: printf_step_def Let_def)
next
  case False
  have ne: "fmt \<noteq> []" using assms(2) by (rule peek_nonzero)
  obtain z wd f1 p f2 where ps: "parse_width (tl fmt) = Some (z, wd, f1)" "parse_precision f1 = Some (p, f2)"
    using assms(1) False by (auto simp: printf_step_def Let_def split: option.splits)
  have "length f2 \<le> length (tl fmt)" using parse_width_shorter [OF ps(1)] parse_precision_shorter [OF ps(2)] by simp
  then have l: "length f2 < length fmt" using ne by (cases fmt) auto
  then have l': "length (tl f2) < length fmt" "length (tl (tl f2)) < length fmt" by auto
  show ?thesis
    using assms(1) False l l' step_default_shorter [OF _ assms(2)]
    by (auto simp: printf_step_def ps Let_def dest!: step_char_rest step_string_rest step_number_shorter split: if_splits)
qed

section \<open>The whole\<close>

text \<open>
  The loop over the format. The result is the return value 0 or -1, the number of bytes written
  and the output. A format is shorter than the address space.
\<close>

function gen_printf_loop :: "'s copy_fun \<Rightarrow> u32 \<Rightarrow> u8 list \<Rightarrow> va_arg list \<Rightarrow> u32 \<Rightarrow> 's \<Rightarrow> (int \<times> u32 \<times> 's) option" where
  "gen_printf_loop cpy n format args written st =
     (if peek format = 0 then Some (0, written, st)
      else if 2 ^ 32 \<le> length format then None
      else case printf_step cpy n format args written st of
        None \<Rightarrow> None
      | Some (format', args', exit_flag, written', st') \<Rightarrow>
          if exit_flag < 0 then Some (-1, written', st')
          else if exit_flag = 0 then gen_printf_loop cpy n format' args' written' st'
          else Some (0, written', st'))"
  by pat_completeness auto
termination
  by (relation "measure (\<lambda>(_, _, format, _). length format)") (auto dest: printf_step_shorter)

declare gen_printf_loop.simps [simp del]

text \<open>\<open>nul\<close> stores the terminator; it is absent when there is no output buffer.\<close>

definition gen_printf :: "(u32 \<Rightarrow> 's \<Rightarrow> 's) option \<Rightarrow> 's copy_fun \<Rightarrow> u32 \<Rightarrow> u8 list \<Rightarrow> va_arg list \<Rightarrow> 's \<Rightarrow> (int \<times> 's) option" where
  "gen_printf nul cpy n format args st =
     (case gen_printf_loop cpy n format args 0 st of
        None \<Rightarrow> None
      | Some (r, written, st') \<Rightarrow>
          if r < 0 then Some (-1, st')
          else (case nul of
                  None \<Rightarrow> Some (sint written, st')
                | Some f \<Rightarrow> Some (sint (written + 1), f written st')))"

definition store_nul :: "u32 \<Rightarrow> u32 \<Rightarrow> bytes \<Rightarrow> bytes" where
  "store_nul buff_out written m = m(buff_out + written := 0)"

definition vprintf :: "'s print_fun \<Rightarrow> u8 list \<Rightarrow> va_arg list \<Rightarrow> 's \<Rightarrow> (int \<times> 's) option" where
  "vprintf libk_stdout_fun format ap st = gen_printf None (copy_to_stdout libk_stdout_fun) INT_MAX format ap st"

text \<open>A NULL buffer makes memcpy write to address 0 and leaves the terminator out.\<close>

definition buffer_nul :: "u32 \<Rightarrow> (u32 \<Rightarrow> bytes \<Rightarrow> bytes) option" where
  "buffer_nul str = (if str = 0 then None else Some (store_nul str))"

definition vsnprintf :: "u32 \<Rightarrow> u32 \<Rightarrow> u8 list \<Rightarrow> va_arg list \<Rightarrow> bytes \<Rightarrow> (int \<times> bytes) option" where
  "vsnprintf str sz format ap m = gen_printf (buffer_nul str) (copy_to_buffer str) sz format ap m"

definition vsprintf :: "u32 \<Rightarrow> u8 list \<Rightarrow> va_arg list \<Rightarrow> bytes \<Rightarrow> (int \<times> bytes) option" where
  "vsprintf str format ap m = gen_printf (buffer_nul str) (copy_to_buffer str) INT_MAX format ap m"

definition printf :: "'s print_fun \<Rightarrow> u8 list \<Rightarrow> va_arg list \<Rightarrow> 's \<Rightarrow> (int \<times> 's) option" where
  "printf libk_stdout_fun format args st = gen_printf None (copy_to_stdout libk_stdout_fun) INT_MAX format args st"

definition sprintf :: "u32 \<Rightarrow> u8 list \<Rightarrow> va_arg list \<Rightarrow> bytes \<Rightarrow> (int \<times> bytes) option" where
  "sprintf str format args m =
     (if str \<noteq> 0 then gen_printf (buffer_nul str) (copy_to_buffer str) INT_MAX format args m else Some (-1, m))"

definition snprintf :: "u32 \<Rightarrow> u32 \<Rightarrow> u8 list \<Rightarrow> va_arg list \<Rightarrow> bytes \<Rightarrow> (int \<times> bytes) option" where
  "snprintf str sz format args m =
     (if str \<noteq> 0 then gen_printf (buffer_nul str) (copy_to_buffer str) sz format args m else Some (-1, m))"

definition putchar :: "'s print_fun \<Rightarrow> u32 \<Rightarrow> 's \<Rightarrow> u32 \<times> 's" where
  "putchar libk_stdout_fun ic st = (ic, snd (libk_stdout_fun (char_src (ucast ic)) 1 st))"

definition puts :: "'s print_fun \<Rightarrow> bytes \<Rightarrow> 's \<Rightarrow> (int \<times> 's) option" where
  "puts libk_stdout_fun string st = printf libk_stdout_fun [PERCENT, CONV_s, 0x0A] [Va_Str string] st"

text \<open>The reader leaves the character variable as it was when it delivers no byte.\<close>

definition getchar :: "'s read_fun \<Rightarrow> 's \<Rightarrow> u32 \<times> 's" where
  "getchar libk_stdin_fun st =
     (case libk_stdin_fun 1 st of
        (xs, r, st') \<Rightarrow> (if r \<noteq> -1 then ucast (peek xs) else 0, st'))"

partial_function (option) gets_loop :: "'s read_fun \<Rightarrow> bytes \<Rightarrow> u32 \<Rightarrow> 's \<Rightarrow> (bytes \<times> 's) option" where
  "gets_loop libk_stdin_fun s count st =
     (case getchar libk_stdin_fun st of
        (c, st') \<Rightarrow>
          let inp = (ucast c :: u8); s' = s(count := inp) in
          if inp \<noteq> 0 \<and> inp \<noteq> 0x0A then gets_loop libk_stdin_fun s' (count + 1) st' else Some (s', st'))"

definition gets :: "'s read_fun \<Rightarrow> bytes \<Rightarrow> 's \<Rightarrow> (bytes \<times> 's) option" where
  "gets libk_stdin_fun s st = gets_loop libk_stdin_fun s 0 st"

end
