(* ===== verification/Libk_Printf_Out.thy ===== *)
theory Libk_Printf_Out
  imports Libk_Printf
begin

text \<open>
  What gen_printf sends to its copy function: every output that takes what it is given gets the
  same text, and a text never reaches the size limit. The contract of such an output is a locale;
  the buffer of the sprintf family and a standard output device are its instances.
\<close>

section \<open>Outputs\<close>

definition src_bytes :: "bytes \<Rightarrow> u32 \<Rightarrow> u8 list" where
  "src_bytes src len = map (\<lambda>i. src (of_nat i)) [0..<unat len]"

text \<open>The abstract output: the text itself.\<close>

definition collect :: "u8 list copy_fun" where
  "collect off src len xs = (True, xs @ src_bytes src len)"

definition same_out :: "u32 \<Rightarrow> (u32 \<Rightarrow> 's \<Rightarrow> u8 list \<Rightarrow> bool) \<Rightarrow> int \<times> u32 \<times> 's \<Rightarrow> int \<times> u32 \<times> u8 list \<Rightarrow> bool" where
  "same_out n R a b \<longleftrightarrow> (case (a, b) of ((r, w, st), (r', w', xs)) \<Rightarrow> r = r' \<and> w = w' \<and> unat w < unat n \<and> R w st xs)"

definition same_round :: "u32 \<Rightarrow> (u32 \<Rightarrow> 's \<Rightarrow> u8 list \<Rightarrow> bool) \<Rightarrow> 's round \<Rightarrow> u8 list round \<Rightarrow> bool" where
  "same_round n R = rel_option (\<lambda>(f, a, out) (f', a', out'). f = f' \<and> a = a' \<and> same_out n R out out')"

lemma same_outI: "unat w < unat n \<Longrightarrow> R w st xs \<Longrightarrow> same_out n R (r, w, st) (r, w, xs)"
  by (simp add: same_out_def)

lemma same_outE:
  assumes "same_out n R a b"
  obtains r w st xs where "a = (r, w, st)" "b = (r, w, xs)" "unat w < unat n" "R w st xs"
  using assms by (cases a; cases b) (auto simp: same_out_def)

definition args_ok :: "va_arg list \<Rightarrow> bool" where
  "args_ok args \<longleftrightarrow> (\<forall>s. Va_Str s \<in> set args \<longrightarrow> unat (strlen s) < 2 ^ 31)"

lemma strnlen_loop_stop: "s k = 0 \<Longrightarrow> i \<le> k \<Longrightarrow> strnlen_loop s n i \<le> k"
proof (induction s n i rule: strnlen_loop.induct)
  case (1 str maxlen len)
  show ?case
  proof (cases "str len \<noteq> 0 \<and> len < maxlen")
    case True
    then have "len < k" using 1(2,3) by (metis order_le_imp_less_or_eq)
    then have "len + 1 \<le> k" using unat_Suc_less [of len k] by (simp add: word_le_nat_alt word_less_nat_alt)
    then show ?thesis using True 1(1,2) by (subst strnlen_loop.simps) auto
  qed (subst strnlen_loop.simps, use 1(3) in auto)
qed

lemma strlen_fmt: "length fmt < 2 ^ 32 \<Longrightarrow> unat (strlen (fmt_view fmt)) \<le> length fmt"
proof -
  assume "length fmt < 2 ^ 32"
  then have u: "unat (of_nat (length fmt) :: u32) = length fmt" by (simp add: unat_of_nat take_bit_nat_eq_self)
  then have "strlen (fmt_view fmt) \<le> of_nat (length fmt)"
    unfolding strlen_def strnlen_def by (intro strnlen_loop_stop) (simp_all add: fmt_view_def)
  then show ?thesis by (simp add: word_le_nat_alt u)
qed

text \<open>A round takes arguments from the front.\<close>

lemma texts_args:
  "word_text c args = Some (b, args') \<Longrightarrow> set args' \<subseteq> set args"
  "llong_text c args = Some (b, args') \<Longrightarrow> set args' \<subseteq> set args"
  by (auto simp: word_text_def llong_text_def split: if_splits list.splits va_arg.splits)

lemma step_args:
  "step_literal cpy n f args mr w st = Some (f', args', r) \<Longrightarrow> args' = args"
  "step_default cpy n f args mr w st = Some (f', args', r) \<Longrightarrow> args' = args"
  "step_char cpy n f args mr w st = Some (f', args', r) \<Longrightarrow> set args' \<subseteq> set args"
  "step_string cpy n f args wd mr w st = Some (f', args', r) \<Longrightarrow> set args' \<subseteq> set args"
  "step_number cpy n f ct p wd z mr w st = Some (f', args', r) \<Longrightarrow> \<exists>b. ct = Some (b, args')"
  by (auto simp: step_literal_def step_default_def step_char_def step_string_def step_number_def Let_def
      split: list.splits va_arg.splits if_splits prod.splits option.splits)

lemma printf_step_args: "printf_step cpy n f args w st = Some (f', args', r) \<Longrightarrow> set args' \<subseteq> set args"
  by (auto simp: printf_step_def Let_def split: if_splits option.splits
      dest!: step_args texts_args) blast+

lemma args_ok_subset: "args_ok args \<Longrightarrow> set args' \<subseteq> set args \<Longrightarrow> args_ok args'"
  by (auto simp: args_ok_def)

locale text_sink =
  fixes cpy :: "'s copy_fun" and n :: u32 and R :: "u32 \<Rightarrow> 's \<Rightarrow> u8 list \<Rightarrow> bool"
  assumes copies: "R w st xs \<Longrightarrow> unat w + unat len < unat n \<Longrightarrow>
    \<exists>st'. cpy w src len st = (True, st') \<and> R (w + len) st' (xs @ src_bytes src len)"
begin

lemma copy_same:
  assumes "R w st xs" and "unat w + unat len < unat n"
  obtains st' where "cpy w src len st = (True, st')" "collect w src len xs = (True, xs @ src_bytes src len)"
    "R (w + len) st' (xs @ src_bytes src len)" "unat (w + len) < unat n"
proof -
  have "unat (w + len) = unat w + unat len" using assms(2) unat_lt2p [of n] by (intro unat_add_no_wrap) simp
  with copies [OF assms, of src] that assms(2) show ?thesis by (auto simp: collect_def)
qed

lemma one_more:
  assumes "unat n \<le> 2 ^ 31" and "unat w < unat n" and "\<not> w + 2 > n"
  shows "unat w + unat (1 :: u32) < unat n"
proof -
  have "unat (w + 2) = unat w + 2" using assms by (subst unat_add_no_wrap) simp_all
  then show ?thesis using assms(3) by (simp add: word_less_nat_alt not_less)
qed

lemma pad_same:
  assumes "unat n \<le> 2 ^ 31" and "R w st xs" and "unat w < unat n"
  shows "same_out n R (pad cpy n c k w st) (pad collect n c k w xs)"
  using assms
proof (induction k arbitrary: w st xs)
  case (Suc k)
  show ?case
  proof (cases "w + 2 > n")
    case False
    obtain st' where c: "cpy w (char_src c) 1 st = (True, st')"
        "collect w (char_src c) 1 xs = (True, xs @ src_bytes (char_src c) 1)"
      and R: "R (w + 1) st' (xs @ src_bytes (char_src c) 1)" "unat (w + 1) < unat n"
      by (rule copy_same [OF Suc.prems(2) one_more [OF Suc.prems(1,3) False]])
    from False have "pad cpy n c (Suc k) w st = pad cpy n c k (w + 1) st'"
      "pad collect n c (Suc k) w xs = pad collect n c k (w + 1) (xs @ src_bytes (char_src c) 1)"
      by (simp_all add: c)
    then show ?thesis using Suc.IH [OF Suc.prems(1) R] by (simp only:)
  qed (use Suc in \<open>simp add: same_outI\<close>)
qed (simp add: same_outI)

lemma emit_same:
  assumes "R w st xs" and "unat w + unat len < unat n"
  shows "same_out n R (case cpy w src len st of (ok, st') \<Rightarrow> if ok then (r, w + len, st') else (-1, w, st'))
    (case collect w src len xs of (ok, xs') \<Rightarrow> if ok then (r, w + len, xs') else (-1, w, xs'))"
proof -
  obtain st' where c: "cpy w src len st = (True, st')" "collect w src len xs = (True, xs @ src_bytes src len)"
    and R: "R (w + len) st' (xs @ src_bytes src len)" "unat (w + len) < unat n"
    by (rule copy_same [OF assms])
  show ?thesis unfolding c using R by (simp add: same_outI)
qed

lemma print_sign_same:
  assumes "unat n \<le> 2 ^ 31" and "R w st xs" and "unat w < unat n"
  shows "same_out n R (print_sign cpy n s w st) (print_sign collect n s w xs)"
proof (cases "w + 2 > n")
  case False
  show ?thesis unfolding print_sign_def if_not_P [OF False] by (rule emit_same [OF assms(2) one_more [OF assms(1,3) False]])
qed (use assms in \<open>simp add: print_sign_def same_outI\<close>)

text \<open>Cutting the length to what fits.\<close>

lemma cut_fits:
  assumes "unat n \<le> 2 ^ 31" and "unat w < unat n" and "unat len < 2 ^ 31"
  shows "unat w + unat (if w + len + 1 > n then n - w - 1 else len) < unat n"
proof (cases "w + len + 1 > n")
  case True
  have "unat (n - w) = unat n - unat w" using assms(2) by (simp add: unat_sub_if_size)
  moreover from this have "n - w \<noteq> 0" using assms(2) by (metis unat_0 zero_less_diff less_irrefl)
  ultimately have "unat (n - w - 1) = unat n - unat w - 1" using unat_minus_one [of "n - w"] by simp
  then show ?thesis using assms True by simp
next
  case False
  have "unat (w + len) = unat w + unat len" using assms by (intro unat_add_no_wrap) simp
  then have "unat (w + len + 1) = unat w + unat len + 1" using assms by (subst unat_add_no_wrap) simp_all
  then show ?thesis using False by (simp add: word_less_nat_alt)
qed

lemma print_digits_same:
  assumes "unat n \<le> 2 ^ 31" and "R w st xs" and "unat w < unat n" and "0 \<le> len" "len \<le> 41"
  shows "same_out n R (print_digits cpy n s len mr w st) (print_digits collect n s len mr w xs)"
proof -
  define l where "l = (if w + of_int len + 1 > n then n - w - 1 else of_int len)"
  have "unat (of_int len :: u32) = nat len"
    using assms(4,5) by (simp add: unat_eq_nat_uint uint_word_of_int take_bit_int_eq_self)
  then have lt: "unat w + unat l < unat n"
    unfolding l_def using assms by (intro cut_fits) auto
  have l: "of_int (if w + of_int len + 1 > n then sint (n - w - 1) else len) = l" by (simp add: l_def)
  show ?thesis
  proof (cases "mr < of_int len")
    case False
    show ?thesis unfolding print_digits_def Let_def l if_not_P [OF False] by (rule emit_same [OF assms(2) lt])
  qed (use assms in \<open>simp add: print_digits_def same_outI\<close>)
qed

lemma print_precision_same:
  assumes n: "unat n \<le> 2 ^ 31" and "R w st xs" and "unat w < unat n" and "0 \<le> len" "len \<le> 41"
    and minus: "s 0 = ASCII_MINUS \<Longrightarrow> 1 \<le> len"
  shows "same_out n R (print_precision cpy n s len p mr w st) (print_precision collect n s len p mr w xs)"
proof (cases "p > len \<or> (s 0 = ASCII_MINUS \<and> p + 1 > len)")
  case True
  define m where "m = (s 0 = ASCII_MINUS)"
  define l where "l = (if m then len - 1 else len)"
  have l: "0 \<le> l" "l \<le> 41" using assms(4,5) minus by (auto simp: l_def m_def)
  have "same_out n R (if m then print_sign cpy n s w st else (0, w, st)) (if m then print_sign collect n s w xs else (0, w, xs))"
    using print_sign_same [OF n assms(2,3)] assms(2,3) by (simp add: same_outI)
  then obtain r w1 st1 xs1 where s1: "(if m then print_sign cpy n s w st else (0, w, st)) = (r, w1, st1)"
      "(if m then print_sign collect n s w xs else (0, w, xs)) = (r, w1, xs1)" and R1: "unat w1 < unat n" "R w1 st1 xs1"
    by (rule same_outE)
  obtain r2 w2 st2 xs2 where s2: "pad cpy n ASCII_0 (nat (p - l)) w1 st1 = (r2, w2, st2)"
      "pad collect n ASCII_0 (nat (p - l)) w1 xs1 = (r2, w2, xs2)" and R2: "unat w2 < unat n" "R w2 st2 xs2"
    by (rule same_outE [OF pad_same [OF n R1(2,1)]])
  show ?thesis
    unfolding print_precision_def Let_def m_def [symmetric] l_def [symmetric] s1 prod.case s2
    using True [folded m_def] R1 R2 print_digits_same [OF n R2(2,1) l] by (simp add: same_outI)
next
  case False
  show ?thesis unfolding print_precision_def if_not_P [OF False] by (rule print_digits_same [OF assms(1-5)])
qed

lemma number_len: "0 \<le> sint (strnlen s MAX_STR_NUM)" "sint (strnlen s MAX_STR_NUM) \<le> 41"
  "s 0 = ASCII_MINUS \<Longrightarrow> 1 \<le> sint (strnlen s MAX_STR_NUM)"
proof -
  define l where "l = unat (strnlen s MAX_STR_NUM)"
  have "l \<le> 41" using strnlen_le [of s MAX_STR_NUM] by (simp add: l_def MAX_STR_NUM_def word_le_nat_alt)
  moreover have "strnlen s MAX_STR_NUM = of_nat l" by (simp add: l_def)
  ultimately have si: "sint (strnlen s MAX_STR_NUM) = int l" using sint_of_nat_small [of l, where ?'a = 32] by simp
  then show "0 \<le> sint (strnlen s MAX_STR_NUM)" "sint (strnlen s MAX_STR_NUM) \<le> 41" using \<open>l \<le> 41\<close> by simp_all
  assume "s 0 = ASCII_MINUS"
  then have "0 < strnlen s MAX_STR_NUM" by (intro strnlen_pos) (simp_all add: ASCII_MINUS_def MAX_STR_NUM_def)
  then have "0 < l" by (simp add: l_def word_less_nat_alt)
  then show "1 \<le> sint (strnlen s MAX_STR_NUM)" unfolding si by simp
qed

lemma print_number_same:
  assumes n: "unat n \<le> 2 ^ 31" and "R w st xs" and "unat w < unat n"
  shows "same_out n R (print_number cpy s p wd z n mr w st) (print_number collect s p wd z n mr w xs)"
proof -
  define len where "len = sint (strnlen s MAX_STR_NUM)"
  define z' where "z' = (if len \<ge> (if sint wd > 0 then sint wd else 0) then 0 else z)"
  obtain r w1 st1 xs1 where s1: "pad cpy n ASCII_0 (unat z') w st = (r, w1, st1)"
      "pad collect n ASCII_0 (unat z') w xs = (r, w1, xs1)" and R1: "unat w1 < unat n" "R w1 st1 xs1"
    by (rule same_outE [OF pad_same [OF assms]])
  define k where "k = nat (if (if sint p > 0 then sint p else 0) > 0
    then (if sint wd > 0 then sint wd else 0) - uint z' - (if sint p > 0 then sint p else 0) - (if s 0 = ASCII_MINUS then 1 else 0)
    else (if sint wd > 0 then sint wd else 0) - uint z' - len)"
  obtain r2 w2 st2 xs2 where s2: "pad cpy n 0x20 k w1 st1 = (r2, w2, st2)"
      "pad collect n 0x20 k w1 xs1 = (r2, w2, xs2)" and R2: "unat w2 < unat n" "R w2 st2 xs2"
    by (rule same_outE [OF pad_same [OF n R1(2,1)]])
  show ?thesis
    unfolding print_number_def Let_def len_def [symmetric] z'_def [symmetric] s1 prod.case k_def [symmetric] s2
    using R1 R2 print_precision_same [OF n R2(2,1) number_len [of s, folded len_def]] by (simp add: same_outI)
qed

lemma copy_text_same:
  assumes "unat n \<le> 2 ^ 31" and "R w st xs" and "unat w < unat n" and "unat len < 2 ^ 31"
  obtains k r w' st' xs' where "copy_text cpy n src len mr e w st = (k, r, w', st')"
    "copy_text collect n src len mr e w xs = (k, r, w', xs')" "unat w' < unat n" "R w' st' xs'"
proof (cases "mr < len")
  case True
  then show ?thesis using that [of len "-1" w st xs] assms by (simp add: copy_text_def)
next
  case False
  define l where "l = (if w + len + 1 > n then n - w - 1 else len)"
  have lt: "unat w + unat l < unat n" unfolding l_def by (rule cut_fits [OF assms(1,3,4)])
  obtain st' where c: "cpy w src l st = (True, st')" "collect w src l xs = (True, xs @ src_bytes src l)"
    and R: "R (w + l) st' (xs @ src_bytes src l)" "unat (w + l) < unat n"
    by (rule copy_same [OF assms(2) lt])
  show ?thesis
    by (rule that [OF _ _ R(2,1)]; unfold copy_text_def Let_def if_not_P [OF False] l_def [symmetric] c) simp_all
qed

lemma step_literal_same:
  assumes "unat n \<le> 2 ^ 31" and "R w st xs" and "unat w < unat n" and "length fmt < 2 ^ 31" "fmt \<noteq> []"
    and "peek fmt = PERCENT \<longrightarrow> tl fmt \<noteq> []"
  shows "same_round n R (step_literal cpy n fmt args mr w st) (step_literal collect n fmt args mr w xs)"
proof -
  define f where "f = (if peek fmt = PERCENT then tl fmt else fmt)"
  have f: "f \<noteq> []" "length f \<le> length fmt" using assms(5,6) by (auto simp: f_def)
  have "unat (of_nat (literal_len f) :: u32) < 2 ^ 31"
    using literal_len_le [OF f(1)] f(2) assms(4) by (simp add: unat_of_nat take_bit_nat_eq_self)
  then obtain k r w' st' xs' where "copy_text cpy n (fmt_view f) (of_nat (literal_len f)) mr False w st = (k, r, w', st')"
    "copy_text collect n (fmt_view f) (of_nat (literal_len f)) mr False w xs = (k, r, w', xs')" "unat w' < unat n" "R w' st' xs'"
    by (rule copy_text_same [OF assms(1-3)])
  then show ?thesis unfolding step_literal_def Let_def f_def [symmetric] by (simp add: same_round_def same_outI)
qed

lemma step_default_same:
  assumes "unat n \<le> 2 ^ 31" and "R w st xs" and "unat w < unat n" and "unat (strlen (fmt_view fmt)) < 2 ^ 31"
  shows "same_round n R (step_default cpy n fmt args mr w st) (step_default collect n fmt args mr w xs)"
proof -
  obtain k r w' st' xs' where "copy_text cpy n (fmt_view fmt) (strlen (fmt_view fmt)) mr False w st = (k, r, w', st')"
    "copy_text collect n (fmt_view fmt) (strlen (fmt_view fmt)) mr False w xs = (k, r, w', xs')" "unat w' < unat n" "R w' st' xs'"
    by (rule copy_text_same [OF assms])
  then show ?thesis unfolding step_default_def by (simp add: same_round_def same_outI)
qed

lemma step_char_same:
  assumes "unat n \<le> 2 ^ 31" and "R w st xs" and "unat w < unat n"
  shows "same_round n R (step_char cpy n fmt args mr w st) (step_char collect n fmt args mr w xs)"
proof -
  have "same_round n R (step_char cpy n fmt (Va_Word c # args') mr w st) (step_char collect n fmt (Va_Word c # args') mr w xs)" for c args'
  proof (cases "mr = 0 \<or> w + 2 > n")
    case False
    then obtain st' where "cpy w (char_src (ucast c)) 1 st = (True, st')"
        "collect w (char_src (ucast c)) 1 xs = (True, xs @ src_bytes (char_src (ucast c)) 1)"
        "R (w + 1) st' (xs @ src_bytes (char_src (ucast c)) 1)" "unat (w + 1) < unat n"
      using copy_same [OF assms(2) one_more [OF assms(1,3)], of "char_src (ucast c)"] by blast
    with False show ?thesis by (simp add: step_char_def same_round_def same_outI add.assoc)
  qed (use assms in \<open>auto simp: step_char_def same_round_def same_outI add.assoc\<close>)
  then show ?thesis
    by (cases args) (auto simp: step_char_def same_round_def split: va_arg.split)
qed

lemma step_string_same:
  assumes "unat n \<le> 2 ^ 31" and "R w st xs" and "unat w < unat n" and "args_ok args"
  shows "same_round n R (step_string cpy n fmt args wd mr w st) (step_string collect n fmt args wd mr w xs)"
proof (cases "\<exists>str args'. args = Va_Str str # args'")
  case True
  then obtain str args' where a: "args = Va_Str str # args'" by blast
  then have len: "unat (strlen str) < 2 ^ 31" using assms(4) by (simp add: args_ok_def)
  define k where "k = unat (if strlen str < wd then wd - strlen str else wd)"
  obtain r w1 st1 xs1 where s1: "pad cpy n 0x20 k w st = (r, w1, st1)"
      "pad collect n 0x20 k w xs = (r, w1, xs1)" and R1: "unat w1 < unat n" "R w1 st1 xs1"
    by (rule same_outE [OF pad_same [OF assms(1-3)]])
  obtain k' r' w2 st2 xs2 where "copy_text cpy n str (strlen str) mr (r \<noteq> 0) w1 st1 = (k', r', w2, st2)"
    "copy_text collect n str (strlen str) mr (r \<noteq> 0) w1 xs1 = (k', r', w2, xs2)" "unat w2 < unat n" "R w2 st2 xs2"
    by (rule copy_text_same [OF assms(1) R1(2,1) len])
  then show ?thesis
    unfolding step_string_def a list.case va_arg.case Let_def k_def [symmetric] s1 prod.case
    using R1 by (simp add: same_round_def same_outI)
qed (auto simp: step_string_def same_round_def split: list.splits va_arg.splits)

lemma step_number_same:
  assumes "unat n \<le> 2 ^ 31" and "R w st xs" and "unat w < unat n"
  shows "same_round n R (step_number cpy n fmt ct p wd z mr w st) (step_number collect n fmt ct p wd z mr w xs)"
proof -
  have "same_out n R (print_number cpy s p wd z n mr w st) (print_number collect s p wd z n mr w xs)" for s
    by (rule print_number_same [OF assms])
  then show ?thesis by (auto simp: step_number_def same_round_def split: option.splits prod.splits)
qed

lemma printf_step_same:
  assumes "unat n \<le> 2 ^ 31" and "R w st xs" and "unat w < unat n" and "args_ok args"
    and "length fmt < 2 ^ 31" and "peek fmt \<noteq> 0" and "unat (strlen (fmt_view fmt)) < 2 ^ 31"
  shows "same_round n R (printf_step cpy n fmt args w st) (printf_step collect n fmt args w xs)"
proof (cases "peek fmt \<noteq> PERCENT \<or> peek (tl fmt) = PERCENT")
  case True
  then have "peek fmt = PERCENT \<longrightarrow> tl fmt \<noteq> []" by (auto simp: peek_def)
  then show ?thesis
    using True step_literal_same [OF assms(1-3,5) peek_nonzero [OF assms(6)]] by (simp add: printf_step_def Let_def)
next
  case False
  note same = step_char_same [OF assms(1-3)] step_string_same [OF assms(1-4)] step_number_same [OF assms(1-3)]
    step_default_same [OF assms(1-3,7)]
  show ?thesis
    unfolding printf_step_def Let_def if_not_P [OF False]
    by (auto split: option.split simp: same) (auto simp: same_round_def)
qed

lemma loop_same:
  assumes "unat n \<le> 2 ^ 31"
  shows "R w st xs \<Longrightarrow> unat w < unat n \<Longrightarrow> args_ok args \<Longrightarrow> length fmt < 2 ^ 31 \<Longrightarrow>
    rel_option (same_out n R) (gen_printf_loop cpy n fmt args w st) (gen_printf_loop collect n fmt args w xs)"
proof (induction fmt arbitrary: args w st xs rule: length_induct)
  case (1 fmt)
  show ?case
  proof (cases "peek fmt = 0")
    case True
    then show ?thesis
      using 1(2,3) by (subst (1 2) gen_printf_loop.simps) (simp add: same_outI)
  next
    case False
    have len: "\<not> 2 ^ 32 \<le> length fmt" "unat (strlen (fmt_view fmt)) < 2 ^ 31"
      using 1(5) strlen_fmt [of fmt] by auto
    note loop = gen_printf_loop.simps [of _ n fmt args w, unfolded if_not_P [OF False] if_not_P [OF len(1)]]
    have same: "same_round n R (printf_step cpy n fmt args w st) (printf_step collect n fmt args w xs)"
      by (rule printf_step_same [OF assms 1(2-5) False len(2)])
    show ?thesis
    proof (cases "printf_step cpy n fmt args w st")
      case None
      with same show ?thesis by (simp add: loop same_round_def)
    next
      case (Some o1)
      obtain f1 a1 r1 w1 st1 where o1: "o1 = (f1, a1, r1, w1, st1)" by (cases o1)
      obtain xs1 where s2: "printf_step collect n fmt args w xs = Some (f1, a1, r1, w1, xs1)"
        and R1: "unat w1 < unat n" "R w1 st1 xs1"
        using same Some o1 by (auto simp: same_round_def same_out_def option_rel_Some1)
      have a1: "args_ok a1" using args_ok_subset [OF 1(4)] printf_step_args [OF Some [unfolded o1]] .
      have "rel_option (same_out n R) (gen_printf_loop cpy n f1 a1 w1 st1) (gen_printf_loop collect n f1 a1 w1 xs1)"
        if "r1 = 0"
      proof -
        have "length f1 < length fmt" using printf_step_shorter [OF _ False, of cpy n args w st f1 a1 w1 st1] Some o1 that 1(5) by simp
        then show ?thesis using 1(1) R1 a1 1(5) by auto
      qed
      then show ?thesis using R1 by (simp add: loop Some o1 s2 same_outI)
    qed
  qed
qed

end

section \<open>The buffer of the sprintf family\<close>

text \<open>The buffer at \<open>str\<close> holds the text; every other byte is that of \<open>m0\<close>.\<close>

definition holds_text :: "u32 \<Rightarrow> bytes \<Rightarrow> u32 \<Rightarrow> bytes \<Rightarrow> u8 list \<Rightarrow> bool" where
  "holds_text str m0 w m xs \<longleftrightarrow> length xs = unat w \<and>
     (\<forall>a. m a = (if unat (a - str) < length xs then xs ! unat (a - str) else m0 a))"

lemma src_bytes_nth: "i < unat len \<Longrightarrow> src_bytes src len ! i = src (of_nat i)"
  by (simp add: src_bytes_def)

interpretation buffer: text_sink "copy_to_buffer str" n "holds_text str m0" for str n m0
proof (unfold_locales, goal_cases)
  case (1 w m xs len src)
  have w: "unat (w + len) = unat w + unat len" using 1(2) unat_lt2p [of n] by (intro unat_add_no_wrap) simp
  define m' where "m' = snd (copy_to_buffer str w src len m)"
  have "m' = fold (\<lambda>k m. m(str + w + of_nat k := src (of_nat k))) [0..<unat len] m"
    by (simp add: m'_def copy_to_buffer_def loop_simps)
  then have m': "m' a = (if unat (a - (str + w)) < unat len then src (of_nat (unat (a - (str + w)))) else m a)" for a
    using fold_write [of "unat len" "str + w" "\<lambda>k. src (of_nat k)" m a] unat_lt2p [of len] by simp
  have "m' a = (if unat (a - str) < length (xs @ src_bytes src len) then (xs @ src_bytes src len) ! unat (a - str) else m0 a)" for a
  proof -
    define x where "x = a - str"
    define k where "k = unat x"
    have xs: "length xs = unat w" "m a = (if k < length xs then xs ! k else m0 a)"
      using 1(1) by (auto simp: holds_text_def k_def x_def)
    have d: "a - (str + w) = x - w" by (simp add: x_def)
    show ?thesis
    proof (cases "k < unat w")
      case True
      then have "\<not> unat (a - (str + w)) < unat len"
        unfolding d using 1(2) unat_lt2p [of n] by (simp add: unat_sub_if_size word_size k_def [symmetric])
      then show ?thesis using True xs by (simp add: m' nth_append x_def [symmetric] k_def [symmetric])
    next
      case False
      then have "unat (a - (str + w)) = k - unat w" unfolding d by (simp add: unat_sub_if_size k_def [symmetric])
      then show ?thesis using False xs 
        by (auto simp: m' nth_append src_bytes_nth x_def [symmetric] k_def [symmetric]) (auto simp: src_bytes_def)
    qed
  qed
  moreover have "length (xs @ src_bytes src len) = unat (w + len)" using 1(1) w by (simp add: holds_text_def src_bytes_def)
  ultimately have "holds_text str m0 (w + len) m' (xs @ src_bytes src len)" by (simp add: holds_text_def)
  then show ?case by (auto simp: m'_def copy_to_buffer_def)
qed

text \<open>The text a call formats, and the return value 0 or -1.\<close>

definition printf_text :: "u32 \<Rightarrow> u8 list \<Rightarrow> va_arg list \<Rightarrow> (int \<times> u8 list) option" where
  "printf_text n fmt args = map_option (\<lambda>(r, w, xs). (r, xs)) (gen_printf_loop collect n fmt args 0 [])"

lemma gen_printf_buffer:
  assumes "0 < n" and "unat n \<le> 2 ^ 31" and "args_ok args" and "length fmt < 2 ^ 31" and "str \<noteq> 0"
    and "printf_text n fmt args = Some (r, xs)"
  shows "\<exists>m'. gen_printf (buffer_nul str) (copy_to_buffer str) n fmt args m =
      Some (if r < 0 then -1 else sint (of_nat (length xs) + 1 :: u32), m') \<and> length xs < unat n \<and>
    (\<forall>i<length xs. m' (str + of_nat i) = xs ! i) \<and> (\<not> r < 0 \<longrightarrow> m' (str + of_nat (length xs)) = 0) \<and>
    (\<forall>a. unat n \<le> unat (a - str) \<longrightarrow> m' a = m a)"
proof -
  have "rel_option (same_out n (holds_text str m)) (gen_printf_loop (copy_to_buffer str) n fmt args 0 m)
      (gen_printf_loop collect n fmt args 0 [])"
    by (rule buffer.loop_same [OF assms(2) _ _ assms(3,4)]) (use assms(1) in \<open>simp_all add: holds_text_def word_less_nat_alt\<close>)
  then obtain w m1 where loop: "gen_printf_loop (copy_to_buffer str) n fmt args 0 m = Some (r, w, m1)"
    and w: "unat w < unat n" "holds_text str m w m1 xs"
    using assms(6) by (auto simp: printf_text_def same_out_def option_rel_Some2)
  define m' where "m' = (if r < 0 then m1 else m1(str + w := 0))"
  have len: "length xs = unat w" and m1: "\<And>a. m1 a = (if unat (a - str) < length xs then xs ! unat (a - str) else m a)"
    using w(2) by (auto simp: holds_text_def)
  have wl: "w = of_nat (length xs)" by (simp add: len)
  have xs: "m' (str + of_nat i) = xs ! i" if "i < length xs" for i
  proof -
    have u: "unat (of_nat i :: u32) = i" using that len by (simp add: of_nat_unat_less)
    then have "str + of_nat i \<noteq> str + w" using that len by auto
    then show ?thesis using that by (simp add: m'_def m1 u)
  qed
  have out: "m' a = m a" if "unat n \<le> unat (a - str)" for a
  proof -
    have "a \<noteq> str + w" using that w(1) by auto
    then show ?thesis using that w(1) len by (simp add: m'_def m1)
  qed
  have "gen_printf (buffer_nul str) (copy_to_buffer str) n fmt args m =
      Some (if r < 0 then -1 else sint (of_nat (length xs) + 1 :: u32), m')"
    using assms(5) by (simp add: gen_printf_def loop buffer_nul_def store_nul_def m'_def wl [symmetric])
  moreover have "\<not> r < 0 \<longrightarrow> m' (str + of_nat (length xs)) = 0" by (simp add: m'_def wl)
  ultimately show ?thesis using xs out len w(1) by auto
qed

section \<open>Standard output\<close>

text \<open>
  A device driver that, in the states \<open>live\<close>, sends all it is given; \<open>sent\<close> is what it has sent.
\<close>

locale stdout_device =
  fixes libk_stdout_fun :: "'s print_fun" and live :: "'s \<Rightarrow> bool" and sent :: "'s \<Rightarrow> u8 list"
  assumes sends: "live st \<Longrightarrow> libk_stdout_fun src len st = (r, st') \<Longrightarrow>
    0 \<le> r \<and> live st' \<and> sent st' = sent st @ src_bytes src len"
begin

lemma stdout_sink:
  "text_sink (copy_to_stdout libk_stdout_fun) n (\<lambda>w st xs. live st \<and> sent st = sent0 @ xs \<and> length xs = unat w)"
proof (unfold_locales, goal_cases)
  case (1 w st xs len src)
  obtain r st' where c: "libk_stdout_fun src len st = (r, st')" by (cases "libk_stdout_fun src len st")
  have "unat (w + len) = unat w + unat len" using 1(2) unat_lt2p [of n] by (intro unat_add_no_wrap) simp
  then show ?case using sends [OF _ c] 1(1) by (simp add: copy_to_stdout_def c src_bytes_def)
qed

lemma printf_sends:
  assumes "live st" and "args_ok args" and "length fmt < 2 ^ 31" and "printf_text INT_MAX fmt args = Some (r, xs)"
  shows "\<exists>st'. printf libk_stdout_fun fmt args st = Some (if r < 0 then -1 else int (length xs), st') \<and>
    live st' \<and> sent st' = sent st @ xs"
proof -
  have "rel_option (same_out INT_MAX (\<lambda>w st' xs. live st' \<and> sent st' = sent st @ xs \<and> length xs = unat w))
      (gen_printf_loop (copy_to_stdout libk_stdout_fun) INT_MAX fmt args 0 st) (gen_printf_loop collect INT_MAX fmt args 0 [])"
    by (rule text_sink.loop_same [OF stdout_sink _ _ _ assms(2,3)]) (simp_all add: INT_MAX_def assms(1))
  then obtain w st' where "gen_printf_loop (copy_to_stdout libk_stdout_fun) INT_MAX fmt args 0 st = Some (r, w, st')"
    and w: "unat w < unat INT_MAX" "live st'" "sent st' = sent st @ xs" "length xs = unat w"
    using assms(4) by (auto simp: printf_text_def same_out_def option_rel_Some2)
  moreover have "sint w = int (unat w)"
    using w(1) sint_of_nat_small [of "unat w", where ?'a = 32] by (simp add: INT_MAX_def)
  ultimately show ?thesis by (simp add: printf_def gen_printf_def)
qed

end

section \<open>Texts\<close>

text \<open>A number without width and precision is its text.\<close>

lemma src_bytes_eq: "length xs = unat len \<Longrightarrow> (\<And>i. i < length xs \<Longrightarrow> s (of_nat i) = xs ! i) \<Longrightarrow> src_bytes s len = xs"
  by (rule nth_equalityI) (simp_all add: src_bytes_def)

lemma print_plain_digits:
  assumes "is_cstr s ct" and "length ct \<le> 41" and "unat w + length ct < unat n" "unat n \<le> 2 ^ 31" and "length ct \<le> unat maxrem"
  shows "sint (strnlen s MAX_STR_NUM) = int (length ct)"
    and "print_precision collect n s (int (length ct)) 0 maxrem w xs = (0, w + of_nat (length ct), xs @ ct)"
proof -
  define l where "l = length ct"
  have len: "strnlen s MAX_STR_NUM = of_nat l"
    using strnlen_cstr [OF assms(1), of MAX_STR_NUM] assms(2)
    by (simp add: word_unat_eq_iff MAX_STR_NUM_def unat_of_nat take_bit_nat_eq_self l_def)
  have "sint (of_nat l :: u32) = int l" using assms(2) by (intro sint_of_nat_small) (simp add: l_def)
  then show "sint (strnlen s MAX_STR_NUM) = int (length ct)" by (simp add: len l_def)
  have ul: "unat (of_nat l :: u32) = l" using assms(2) by (simp add: unat_of_nat take_bit_nat_eq_self l_def)
  have minus: "\<not> (s 0 = ASCII_MINUS \<and> 1 > int l)" using assms(1) by (cases ct) (auto simp: l_def ASCII_MINUS_def)
  have room: "\<not> maxrem < of_nat l" using assms(5) by (simp add: word_less_nat_alt ul l_def [symmetric])
  have "unat (w + of_nat l) = unat w + l" using assms(3,4) by (subst unat_add_no_wrap) (simp_all add: ul l_def [symmetric])
  then have "unat (w + of_nat l + 1) = unat w + l + 1" using assms(3,4) by (subst unat_add_no_wrap) (simp_all add: l_def [symmetric])
  then have fit: "\<not> w + of_nat l + 1 > n" using assms(3) by (simp add: word_less_nat_alt l_def [symmetric])
  have "src_bytes s (of_nat l) = ct"
    using assms(1) by (intro src_bytes_eq) (simp_all add: ul, simp_all add: l_def cstr_at_iff_nth)
  then have "print_digits collect n s (int l) maxrem w xs = (0, w + of_nat l, xs @ ct)"
    using room fit by (simp add: print_digits_def collect_def)
  then show "print_precision collect n s (int (length ct)) 0 maxrem w xs = (0, w + of_nat (length ct), xs @ ct)"
    using minus by (auto simp: print_precision_def l_def)
qed

lemma rest_room: "unat w + k < unat n \<Longrightarrow> unat n \<le> 2 ^ 31 \<Longrightarrow> k \<le> unat (UINT_MAX - w)"
  by (simp add: unat_sub_if_size UINT_MAX_def)

lemma print_plain_number:
  assumes "is_cstr s ct" and "length ct \<le> 41" and "unat w + length ct < unat n" "unat n \<le> 2 ^ 31"
  shows "print_number collect s 0 0 0 n (UINT_MAX - w) w xs = (0, w + of_nat (length ct), xs @ ct)"
  using print_plain_digits [OF assms rest_room [OF assms(3,4)]] by (simp add: print_number_def Let_def)

text \<open>A number of at most two digits with a leading zero: the conversion \<open>%02u\<close>.\<close>

lemma print_padded_number:
  assumes "is_cstr s ct" and "0 < length ct" "length ct \<le> 41" and "unat w + max 2 (length ct) < unat n" "unat n \<le> 2 ^ 31"
  shows "print_number collect s 0 2 1 n (UINT_MAX - w) w xs =
    (0, w + of_nat (max 2 (length ct)), xs @ (if length ct < 2 then [ASCII_0] else []) @ ct)"
proof (cases "length ct < 2")
  case True
  then have l: "length ct = 1" using assms(2) by linarith
  have w1: "unat (w + 1) = unat w + 1" "unat (w + 2) = unat w + 2" using assms(4,5) l by (auto simp: unat_word_ariths)
  have k: "length ct \<le> unat (UINT_MAX - w)" using rest_room [of w 1 n] assms(4,5) l by simp
  have "unat (w + 1) + length ct < unat n" using assms(4) l w1 by simp
  note D = print_plain_digits [OF assms(1,3) this assms(5) k]
  have "\<not> w + 2 > n" using assms(4) l w1 by (simp add: word_less_nat_alt)
  then have "pad collect n ASCII_0 1 w xs = (0, w + 1, xs @ [ASCII_0])"
    by (simp add: collect_def src_bytes_def char_src_def numeral_eq_Suc)
  then show ?thesis using D l by (simp add: print_number_def Let_def add.assoc)
next
  case False
  have k: "length ct \<le> unat (UINT_MAX - w)" using rest_room [of w "length ct" n] assms(4,5) by simp
  have "unat w + length ct < unat n" using assms(4) by simp
  note D = print_plain_digits [OF assms(1,3) this assms(5) k]
  then show ?thesis using D False by (simp add: print_number_def Let_def)
qed

end
