(* ===== verification/Devs_Serial.thy ===== *)
theory Devs_Serial
  imports IA32_Io Libk_String
begin

text \<open>
  The UART driver of serial.c. A loop that polls the line status register may wait for ever:
  \<open>None\<close> is a call that does not return. A routine that works byte after byte is a loop over the
  history of the accesses.
\<close>

section \<open>Registers and configuration\<close>

definition COM1 :: u16 where "COM1 = 0x3F8"
definition SERIAL_DATA_REG :: u16 where "SERIAL_DATA_REG = 0"
definition SERIAL_INT_EN_REG :: u16 where "SERIAL_INT_EN_REG = 1"
definition SERIAL_BAUD_HIGH_REG :: u16 where "SERIAL_BAUD_HIGH_REG = 1"
definition SERIAL_BAUD_LOW_REG :: u16 where "SERIAL_BAUD_LOW_REG = 0"
definition SERIAL_INT_ID_FIFO_CTL_REG :: u16 where "SERIAL_INT_ID_FIFO_CTL_REG = 2"
definition SERIAL_LINE_CTL_REG :: u16 where "SERIAL_LINE_CTL_REG = 3"
definition SERIAL_MODEM_CTL_REG :: u16 where "SERIAL_MODEM_CTL_REG = 4"
definition SERIAL_LINE_STATUS_REG :: u16 where "SERIAL_LINE_STATUS_REG = 5"
definition SERIAL_LCR_DLAB_BIT :: u8 where "SERIAL_LCR_DLAB_BIT = 0x80"
definition SERIAL_LCR_NO_PARITY :: u8 where "SERIAL_LCR_NO_PARITY = 0x00"
definition SERIAL_LCR_ODD_PARITY :: u8 where "SERIAL_LCR_ODD_PARITY = 0x08"
definition SERIAL_LCR_EVEN_PARITY :: u8 where "SERIAL_LCR_EVEN_PARITY = 0x18"
definition SERIAL_LCR_ONE_STOP_BIT :: u8 where "SERIAL_LCR_ONE_STOP_BIT = 0x00"
definition SERIAL_LCR_TWO_STOP_BITS :: u8 where "SERIAL_LCR_TWO_STOP_BITS = 0x04"
definition SERIAL_LCR_WORD8_BITS :: u8 where "SERIAL_LCR_WORD8_BITS = 0x03"
definition SERIAL_MODEM_DTR_BIT :: u8 where "SERIAL_MODEM_DTR_BIT = 0x01"
definition SERIAL_MODEM_RTS_BIT :: u8 where "SERIAL_MODEM_RTS_BIT = 0x02"
definition SERIAL_MODEM_AUX_OUT_2 :: u8 where "SERIAL_MODEM_AUX_OUT_2 = 0x08"
definition SERIAL_MODEM_LOOPBACK_MODE :: u8 where "SERIAL_MODEM_LOOPBACK_MODE = 0x10"
definition SERIAL_LSR_DR :: u8 where "SERIAL_LSR_DR = 0x01"
definition SERIAL_LSR_THRE :: u8 where "SERIAL_LSR_THRE = 0x20"
definition SERIAL_SET_BAUD_38400 :: u16 where "SERIAL_SET_BAUD_38400 = 0x0003"
definition SERIAL_PARITY_ODD :: u8 where "SERIAL_PARITY_ODD = 2"
definition SERIAL_PARITY_EVEN :: u8 where "SERIAL_PARITY_EVEN = 1"
definition SERIAL_NO_PARITY :: u8 where "SERIAL_NO_PARITY = 0"
definition SERIAL_FLOW_CTL_DSR_DTR :: u8 where "SERIAL_FLOW_CTL_DSR_DTR = 2"
definition SERIAL_FLOW_CTL_RTS_CTS :: u8 where "SERIAL_FLOW_CTL_RTS_CTS = 3"

lemmas serial_regs = SERIAL_DATA_REG_def SERIAL_INT_EN_REG_def SERIAL_BAUD_HIGH_REG_def SERIAL_BAUD_LOW_REG_def
  SERIAL_INT_ID_FIFO_CTL_REG_def SERIAL_LINE_CTL_REG_def SERIAL_MODEM_CTL_REG_def SERIAL_LINE_STATUS_REG_def

record serial_conf =
  serial_port :: u16
  irq_en :: bool
  baud_rate_div :: u16
  fifo_mode_en :: bool
  stop_bits :: u8
  parity :: u8
  flow_control :: u8

definition line_control :: "serial_conf \<Rightarrow> u8" where
  "line_control c =
     (let out_val = (if parity c = SERIAL_PARITY_EVEN then SERIAL_LCR_EVEN_PARITY
          else if parity c = SERIAL_PARITY_ODD then SERIAL_LCR_ODD_PARITY else SERIAL_LCR_NO_PARITY);
          out_val = out_val OR SERIAL_LCR_WORD8_BITS
      in if stop_bits c = 2 then out_val OR SERIAL_LCR_TWO_STOP_BITS else out_val OR SERIAL_LCR_ONE_STOP_BIT)"

definition modem_control :: "serial_conf \<Rightarrow> u8" where
  "modem_control c =
     (if flow_control c = SERIAL_FLOW_CTL_RTS_CTS then SERIAL_MODEM_RTS_BIT
      else if flow_control c = SERIAL_FLOW_CTL_DSR_DTR then SERIAL_MODEM_DTR_BIT else 0)"

text \<open>The end of serial_init: the interrupt set-up and the read that clears the line status.\<close>

definition serial_init_irq :: "machine \<Rightarrow> serial_conf \<Rightarrow> trace \<Rightarrow> trace" where
  "serial_init_irq hw c tr =
     (let p = serial_port c; out_val = modem_control c in
      if \<not> irq_en c then outb 0x00 (p + SERIAL_INT_EN_REG) (outb out_val (p + SERIAL_MODEM_CTL_REG) tr)
      else
        let tr = outb (SERIAL_MODEM_AUX_OUT_2 OR out_val) (p + SERIAL_MODEM_CTL_REG) tr;
            (onmask, tr) = inb hw 0x21 tr;
            tr = outb (onmask OR NOT 0x10) 0x21 tr;
            tr = outb 0x01 (p + SERIAL_INT_EN_REG) tr
        in outb 0x80 (p + SERIAL_MODEM_CTL_REG) tr)"

definition serial_init :: "machine \<Rightarrow> serial_conf \<Rightarrow> trace \<Rightarrow> bool \<times> trace" where
  "serial_init hw c tr =
     (let p = serial_port c;
          tr = outb SERIAL_LCR_DLAB_BIT (p + SERIAL_LINE_CTL_REG) tr;
          tr = outb (ucast (baud_rate_div c AND 0x0F)) (p + SERIAL_BAUD_LOW_REG) tr;
          tr = outb (ucast (drop_bit 8 (baud_rate_div c))) (p + SERIAL_BAUD_HIGH_REG) tr;
          tr = outb 0 (p + SERIAL_LINE_CTL_REG) tr;
          tr = outb (line_control c) (p + SERIAL_LINE_CTL_REG) tr;
          tr = outb (if fifo_mode_en c then 0xC7 else 0x00) (p + SERIAL_INT_ID_FIFO_CTL_REG) tr;
          tr = outb (SERIAL_MODEM_LOOPBACK_MODE OR SERIAL_MODEM_RTS_BIT) (p + SERIAL_MODEM_CTL_REG) tr;
          tr = outb 0xAE (p + SERIAL_DATA_REG) tr;
          (v, tr) = inb hw (p + SERIAL_DATA_REG) tr
      in if v \<noteq> 0xAE then (False, tr)
         else (True, snd (inb hw (p + SERIAL_DATA_REG) (serial_init_irq hw c tr))))"

section \<open>Bytes\<close>

definition serial_received :: "machine \<Rightarrow> u16 \<Rightarrow> trace \<Rightarrow> u8 \<times> trace" where
  "serial_received hw p tr = (case inb hw (p + SERIAL_LINE_STATUS_REG) tr of (v, tr') \<Rightarrow> (v AND SERIAL_LSR_DR, tr'))"

definition is_transmit_empty :: "machine \<Rightarrow> u16 \<Rightarrow> trace \<Rightarrow> u8 \<times> trace" where
  "is_transmit_empty hw p tr = (case inb hw (p + SERIAL_LINE_STATUS_REG) tr of (v, tr') \<Rightarrow> (v AND SERIAL_LSR_THRE, tr'))"

partial_function (option) wait_received :: "machine \<Rightarrow> u16 \<Rightarrow> trace \<Rightarrow> trace option" where
  "wait_received hw p tr = (case serial_received hw p tr of (v, tr') \<Rightarrow> if v = 0 then wait_received hw p tr' else Some tr')"

partial_function (option) wait_transmit :: "machine \<Rightarrow> u16 \<Rightarrow> trace \<Rightarrow> trace option" where
  "wait_transmit hw p tr = (case is_transmit_empty hw p tr of (v, tr') \<Rightarrow> if v = 0 then wait_transmit hw p tr' else Some tr')"

definition serial_read :: "machine \<Rightarrow> u16 \<Rightarrow> trace \<Rightarrow> (u8 \<times> trace) option" where
  "serial_read hw p tr = map_option (inb hw (p + SERIAL_DATA_REG)) (wait_received hw p tr)"

definition serial_write :: "machine \<Rightarrow> u16 \<Rightarrow> u8 \<Rightarrow> trace \<Rightarrow> trace option" where
  "serial_write hw p charout tr = map_option (outb charout (p + SERIAL_DATA_REG)) (wait_transmit hw p tr)"

section \<open>Strings and buffers\<close>

definition serial_write_buffer :: "machine \<Rightarrow> u16 \<Rightarrow> bytes \<Rightarrow> u32 \<Rightarrow> trace \<Rightarrow> trace option" where
  "serial_write_buffer hw p buf len tr =
     for_upto 0 len (\<lambda>count r. Option.bind r (serial_write hw p (buf count))) (Some tr)"

definition serial_write_string :: "machine \<Rightarrow> u16 \<Rightarrow> bytes \<Rightarrow> trace \<Rightarrow> trace option" where
  "serial_write_string hw p str tr =
     for_upto 0 (strlen str) (\<lambda>count r. Option.bind r (serial_write hw p (str count))) (Some tr)"

partial_function (option) serial_read_line_loop :: "machine \<Rightarrow> u16 \<Rightarrow> bytes \<Rightarrow> u32 \<Rightarrow> trace \<Rightarrow> (bytes \<times> trace) option" where
  "serial_read_line_loop hw p str count tr =
     (case serial_read hw p tr of
        None \<Rightarrow> None
      | Some (c, tr') \<Rightarrow>
          if c \<noteq> 0x0D then serial_read_line_loop hw p (str(count := c)) (count + 1) tr'
          else Some (str(count := 0), tr'))"

definition serial_read_line :: "machine \<Rightarrow> u16 \<Rightarrow> bytes \<Rightarrow> trace \<Rightarrow> (bytes \<times> trace) option" where
  "serial_read_line hw p str tr = serial_read_line_loop hw p str 0 tr"

definition serial_read_buffer :: "machine \<Rightarrow> u16 \<Rightarrow> bytes \<Rightarrow> u32 \<Rightarrow> trace \<Rightarrow> (bytes \<times> trace) option" where
  "serial_read_buffer hw p buf len tr =
     for_upto 0 len (\<lambda>count r. Option.bind r (\<lambda>(buf, tr).
       map_option (\<lambda>(c, tr). (buf(count := c), tr)) (serial_read hw p tr))) (Some (buf, tr))"

text \<open>The callbacks: \<open>node\<close> is the port in the node's implementation field, \<open>None\<close> for a NULL node.\<close>

definition serial_fs_write :: "machine \<Rightarrow> u64 option \<Rightarrow> bytes \<Rightarrow> u32 \<Rightarrow> trace \<Rightarrow> (int \<times> trace) option" where
  "serial_fs_write hw node buf nbyte tr =
     (case node of
        None \<Rightarrow> Some (-1, tr)
      | Some impl_def \<Rightarrow> map_option (\<lambda>tr. (0, tr)) (serial_write_buffer hw (ucast impl_def) buf nbyte tr))"

definition serial_fs_read :: "machine \<Rightarrow> u64 option \<Rightarrow> bytes \<Rightarrow> u32 \<Rightarrow> trace \<Rightarrow> (int \<times> bytes \<times> trace) option" where
  "serial_fs_read hw node buf nbyte tr =
     (case node of
        None \<Rightarrow> Some (-1, buf, tr)
      | Some impl_def \<Rightarrow>
          map_option (\<lambda>(buf, tr). (0, buf, tr))
            (for_upto 0 nbyte (\<lambda>i r. Option.bind r (\<lambda>(buf, tr).
               Option.bind (serial_read hw (ucast impl_def) tr) (\<lambda>(inp, tr).
                 map_option (\<lambda>tr. (buf(i := inp), tr)) (serial_write hw (ucast impl_def) inp tr)))) (Some (buf, tr))))"

section \<open>A transmitter that drains\<close>

text \<open>
  What the driver relies on: whatever happened, after enough reads of the line status the holding
  register shows empty. \<open>poll\<close> is the history after a number of such reads.
\<close>

fun poll :: "machine \<Rightarrow> u16 \<Rightarrow> nat \<Rightarrow> trace \<Rightarrow> trace" where
  "poll hw p 0 tr = tr"
| "poll hw p (Suc k) tr = poll hw p k (snd (is_transmit_empty hw p tr))"

definition drains :: "machine \<Rightarrow> u16 \<Rightarrow> bool" where
  "drains hw p \<longleftrightarrow> (\<forall>tr. \<exists>k. fst (is_transmit_empty hw p (poll hw p k tr)) \<noteq> 0)"

lemma status_read: "is_transmit_empty hw p tr = (fst (is_transmit_empty hw p tr), snd (is_transmit_empty hw p tr))"
  by simp

lemma status_silent: "written8 q (snd (is_transmit_empty hw p tr)) = written8 q tr"
  by (simp add: is_transmit_empty_def io_defs)

lemma wait_transmit_after:
  "fst (is_transmit_empty hw p (poll hw p k tr)) \<noteq> 0 \<Longrightarrow>
   \<exists>tr'. wait_transmit hw p tr = Some tr' \<and> written8 q tr' = written8 q tr"
proof (induction k arbitrary: tr)
  case 0
  then show ?case by (subst wait_transmit.simps) (simp add: case_prod_beta status_silent)
next
  case (Suc k)
  then obtain tr' where "wait_transmit hw p (snd (is_transmit_empty hw p tr)) = Some tr'"
    "written8 q tr' = written8 q (snd (is_transmit_empty hw p tr))" by auto
  then show ?case by (subst wait_transmit.simps) (auto simp: case_prod_beta status_silent)
qed

lemma serial_write_ok:
  assumes "drains hw p"
  shows "\<exists>tr'. serial_write hw p c tr = Some tr' \<and>
    written8 q tr' = written8 q tr @ (if q = p + SERIAL_DATA_REG then [c] else [])"
proof -
  obtain k where "fst (is_transmit_empty hw p (poll hw p k tr)) \<noteq> 0" using assms by (auto simp: drains_def)
  from wait_transmit_after [OF this, of q] show ?thesis by (auto simp: serial_write_def io_defs)
qed

text \<open>A buffer goes out byte by byte, in order, and no other port of the UART is written.\<close>

lemma serial_write_buffer_ok:
  assumes "drains hw p"
  shows "\<exists>tr'. serial_write_buffer hw p buf len tr = Some tr' \<and>
    written8 q tr' = written8 q tr @ (if q = p + SERIAL_DATA_REG then map (\<lambda>i. buf (of_nat i)) [0..<unat len] else [])"
proof -
  have "\<exists>tr'. fold (\<lambda>k r. Option.bind r (serial_write hw p (buf (of_nat k)))) [0..<n] (Some tr) = Some tr' \<and>
    written8 q tr' = written8 q tr @ (if q = p + SERIAL_DATA_REG then map (\<lambda>i. buf (of_nat i)) [0..<n] else [])" for n
  proof (induction n)
    case (Suc n)
    then obtain t where "fold (\<lambda>k r. Option.bind r (serial_write hw p (buf (of_nat k)))) [0..<n] (Some tr) = Some t"
      "written8 q t = written8 q tr @ (if q = p + SERIAL_DATA_REG then map (\<lambda>i. buf (of_nat i)) [0..<n] else [])" by blast
    with serial_write_ok [OF assms, of "buf (of_nat n)" t q] show ?case by auto
  qed simp
  then show ?thesis by (simp add: serial_write_buffer_def loop_simps)
qed

text \<open>The second access of serial_init programs the low byte of the divisor without its bits 4 to 7.\<close>

lemma serial_init_divisor:
  "snd (serial_init hw c []) ! 1 = Out8 (ucast (baud_rate_div c AND 0x0F)) (serial_port c + SERIAL_BAUD_LOW_REG)"
  by (auto simp: serial_init_def io_defs serial_init_irq_def split: if_splits)

end
