(* ===== verification/Coresys_Stdio.thy ===== *)
theory Coresys_Stdio
  imports Libk_Printf_Out Devs_Serial Coresys_Vfs
begin

text \<open>
  The standard streams of kernel.c: the node \<open>stdio\<close> whose callbacks are the serial driver, the two
  functions that libk's stdio calls, and the messages of the kernel. The state of the output is the history
  of the accesses; \<open>None\<close> is a driver call that has not returned.
\<close>

section \<open>The streams\<close>

text \<open>The node is no link and the callbacks that take part are those of the serial driver.\<close>

definition stdout_fun :: "machine \<Rightarrow> fs_node \<Rightarrow> trace option print_fun" where
  "stdout_fun hw stdio dataIn len st =
     (case st of
        None \<Rightarrow> (0, None)
      | Some tr \<Rightarrow>
          (if write_cb stdio = Some Cb_serial_fs_write then
             case serial_fs_write hw (Some (impl_def stdio)) dataIn len tr of
               None \<Rightarrow> (0, None) | Some (r, tr') \<Rightarrow> (r, Some tr')
           else (VFS_T_NOK, Some tr)))"

definition stdin_fun :: "machine \<Rightarrow> fs_node \<Rightarrow> trace option read_fun" where
  "stdin_fun hw stdio len st =
     (case st of
        None \<Rightarrow> ([], 0, None)
      | Some tr \<Rightarrow>
          (if read_cb stdio = Some Cb_serial_fs_read then
             case serial_fs_read hw (Some (impl_def stdio)) (\<lambda>_. 0) len tr of
               None \<Rightarrow> ([], 0, None)
             | Some (r, buf, tr') \<Rightarrow> (map (\<lambda>i. buf (of_nat i)) [0..<unat len], r, Some tr')
           else ([], VFS_T_NOK, Some tr)))"

definition serial0 :: serial_conf where
  "serial0 = \<lparr>serial_port = COM1, irq_en = True, baud_rate_div = SERIAL_SET_BAUD_38400, fifo_mode_en = True,
     stop_bits = 1, parity = SERIAL_NO_PARITY, flow_control = SERIAL_FLOW_CTL_RTS_CTS\<rparr>"

text \<open>The result of serial_init is not looked at.\<close>

definition InitStdio :: "machine \<Rightarrow> fs_node \<Rightarrow> trace \<Rightarrow> fs_node \<times> trace" where
  "InitStdio hw stdio tr =
     (let (_, tr) = serial_init hw serial0 tr in
      (stdio\<lparr>read_cb := Some Cb_serial_fs_read, write_cb := Some Cb_serial_fs_write, flength := 0,
             impl_def := ucast COM1\<rparr>, tr))"

text \<open>Format strings of the source.\<close>

definition fmt :: "string \<Rightarrow> u8 list" where
  "fmt s = map of_char s"

definition kernel_wellcome_msg :: "'s print_fun \<Rightarrow> 's \<Rightarrow> 's option" where
  "kernel_wellcome_msg out st =
     Option.bind (printf out (fmt ''Wellcome to %s!'' @ [0x0A]) [Va_Str (cstr ''TalOS'')] st) (\<lambda>(_, st).
     map_option snd (printf out (fmt ''Version: %s'' @ [0x0A]) [Va_Str (cstr ''0.0.1'')] st))"

definition test_int :: "'s print_fun \<Rightarrow> u32 \<Rightarrow> u32 \<Rightarrow> u32 \<Rightarrow> u32 \<Rightarrow> 's \<Rightarrow> 's option" where
  "test_int out iid EIP CS EFLAGS st =
     map_option snd (printf out (fmt ''id 0x%x eip 0x%x cs 0x%x eflags 0x%x'' @ [0x0A])
       [Va_Word iid, Va_Word EIP, Va_Word CS, Va_Word EFLAGS] st)"

section \<open>The serial port as standard output\<close>

definition sent_on :: "fs_node \<Rightarrow> trace option \<Rightarrow> u8 list" where
  "sent_on stdio st = (case st of None \<Rightarrow> [] | Some tr \<Rightarrow> written8 (ucast (impl_def stdio) + SERIAL_DATA_REG) tr)"

lemma stdout_fun_sends:
  assumes "drains hw (ucast (impl_def stdio))" and "write_cb stdio = Some Cb_serial_fs_write"
    and "st \<noteq> None" and "stdout_fun hw stdio src len st = (r, st')"
  shows "0 \<le> r \<and> st' \<noteq> None \<and> sent_on stdio st' = sent_on stdio st @ src_bytes src len"
proof -
  obtain tr where st: "st = Some tr" using assms(3) by blast
  obtain tr' where "serial_write_buffer hw (ucast (impl_def stdio)) src len tr = Some tr'"
    and tr': "written8 (ucast (impl_def stdio) + SERIAL_DATA_REG) tr' =
      written8 (ucast (impl_def stdio) + SERIAL_DATA_REG) tr @ src_bytes src len"
    using serial_write_buffer_ok [OF assms(1), of src len tr "ucast (impl_def stdio) + SERIAL_DATA_REG"]
    by (auto simp: src_bytes_def)
  then have "r = 0 \<and> st' = Some tr'" using assms(2,4) by (simp add: stdout_fun_def serial_fs_write_def st)
  then show ?thesis by (simp add: sent_on_def st tr')
qed

text \<open>A console: a serial port that drains, behind the node of the standard streams.\<close>

locale console =
  fixes hw :: machine and stdio :: fs_node
  assumes drains_port: "drains hw (ucast (impl_def stdio))"
    and serial_output: "write_cb stdio = Some Cb_serial_fs_write"

sublocale console \<subseteq> out: stdout_device "stdout_fun hw stdio" "\<lambda>st. st \<noteq> None" "sent_on stdio"
  by unfold_locales (rule stdout_fun_sends [OF drains_port serial_output])

context console
begin

lemma console_printf:
  assumes "args_ok args" and "length format < 2 ^ 31" and "printf_text INT_MAX format args = Some (r, xs)"
  shows "\<exists>tr'. printf (stdout_fun hw stdio) format args (Some tr) = Some (if r < 0 then -1 else int (length xs), Some tr') \<and>
    sent_on stdio (Some tr') = sent_on stdio (Some tr) @ xs"
  using out.printf_sends [OF _ assms, of "Some tr"] by auto

end

text \<open>A UART whose holding register is always empty.\<close>

definition idle_uart :: machine where
  "idle_uart tr q = 0x60"

definition blank_node :: fs_node where
  "blank_node = \<lparr>name = (\<lambda>_. 0), ino = 0, owner_id = 0, owner_group = 0, perm = 0, ftype = 0, flength = 0, impl_def = 0,
     open_cb = None, close_cb = None, read_cb = None, write_cb = None, readdir_cb = None, find_cb = None, node_ptr = 0\<rparr>"

definition stdio_node :: fs_node where
  "stdio_node = fst (InitStdio idle_uart blank_node [])"

lemma idle_uart_drains: "drains idle_uart p"
  by (auto simp: drains_def is_transmit_empty_def io_defs idle_uart_def SERIAL_LSR_THRE_def)

interpretation com1: console idle_uart stdio_node
  by unfold_locales (simp_all add: idle_uart_drains stdio_node_def InitStdio_def case_prod_beta)

end
