(* ===== verification/Libk_Printf_Ref.thy ===== *)
theory Libk_Printf_Ref
  imports Libk_Printf_Out
begin

text \<open>
  A reference for the formats the kernel uses: a format is a sequence of literal texts and plain
  conversions, its text the concatenation of theirs. gen_printf agrees with it as long as the text
  fits the output.
\<close>

section \<open>Pieces of a format\<close>

text \<open>
  \<open>Percent ys\<close> is an escaped percent sign with the literal text that follows it, which the code
  copies in one round.
\<close>

datatype piece = Lit "u8 list" | Percent "u8 list" | Unsigned u32 | Hex u32 | Signed u32 | Str bytes "u8 list" | Char u8 | Padded u32

definition plain :: "u8 list \<Rightarrow> bool" where
  "plain xs \<longleftrightarrow> (\<forall>c \<in> set xs. c \<noteq> 0 \<and> c \<noteq> PERCENT)"

definition signed_text :: "u32 \<Rightarrow> u8 list" where
  "signed_text v = (if sint v < 0 then ASCII_MINUS # number_text 10 (nat (- sint v)) else number_text 10 (nat (sint v)))"

text \<open>At least two digits, with a leading zero.\<close>

definition padded_text :: "u32 \<Rightarrow> u8 list" where
  "padded_text v = (if length (number_text 10 (unat v)) < 2 then [ASCII_0] else []) @ number_text 10 (unat v)"

fun piece_fmt :: "piece \<Rightarrow> u8 list" where
  "piece_fmt (Lit xs) = xs"
| "piece_fmt (Percent ys) = PERCENT # PERCENT # ys"
| "piece_fmt (Unsigned v) = [PERCENT, CONV_u]"
| "piece_fmt (Hex v) = [PERCENT, 0x78]"
| "piece_fmt (Signed v) = [PERCENT, 0x64]"
| "piece_fmt (Str v s) = [PERCENT, CONV_s]"
| "piece_fmt (Char c) = [PERCENT, CONV_c]"
| "piece_fmt (Padded v) = [PERCENT, 0x30, 0x32, CONV_u]"

fun piece_args :: "piece \<Rightarrow> va_arg list" where
  "piece_args (Unsigned v) = [Va_Word v]"
| "piece_args (Hex v) = [Va_Word v]"
| "piece_args (Signed v) = [Va_Word v]"
| "piece_args (Str v s) = [Va_Str v]"
| "piece_args (Char c) = [Va_Word (ucast c)]"
| "piece_args (Padded v) = [Va_Word v]"
| "piece_args _ = []"

fun piece_text :: "piece \<Rightarrow> u8 list" where
  "piece_text (Lit xs) = xs"
| "piece_text (Percent ys) = PERCENT # ys"
| "piece_text (Unsigned v) = number_text 10 (unat v)"
| "piece_text (Hex v) = number_text 16 (unat v)"
| "piece_text (Signed v) = signed_text v"
| "piece_text (Str v s) = s"
| "piece_text (Char c) = [c]"
| "piece_text (Padded v) = padded_text v"

fun piece_ok :: "piece \<Rightarrow> bool" where
  "piece_ok (Lit xs) \<longleftrightarrow> xs \<noteq> [] \<and> plain xs"
| "piece_ok (Percent ys) \<longleftrightarrow> plain ys"
| "piece_ok (Str v s) \<longleftrightarrow> is_cstr v s"
| "piece_ok _ \<longleftrightarrow> True"

text \<open>A literal text follows only a conversion.\<close>

fun pieces_ok :: "piece list \<Rightarrow> bool" where
  "pieces_ok [] \<longleftrightarrow> True"
| "pieces_ok (p # ps) \<longleftrightarrow> piece_ok p \<and> pieces_ok ps \<and>
     (case (p, ps) of (Lit _, Lit _ # _) \<Rightarrow> False | (Percent _, Lit _ # _) \<Rightarrow> False | _ \<Rightarrow> True)"

definition format_of :: "piece list \<Rightarrow> u8 list" where "format_of ps = concat (map piece_fmt ps)"
definition args_of :: "piece list \<Rightarrow> va_arg list" where "args_of ps = concat (map piece_args ps)"
definition text_of :: "piece list \<Rightarrow> u8 list" where "text_of ps = concat (map piece_text ps)"

section \<open>Texts of numbers\<close>

lemma digit_char_ne_0: "d < 32 \<Longrightarrow> digit_char d \<noteq> 0"
proof -
  have "list_all (\<lambda>d. digit_char d \<noteq> 0) [0..<32]" by code_simp
  then show "d < 32 \<Longrightarrow> ?thesis" by (simp add: list_all_iff)
qed

lemma number_text_ne_0: "2 \<le> b \<Longrightarrow> b \<le> 32 \<Longrightarrow> 0 \<notin> set (number_text b n)"
proof
  assume b: "2 \<le> b" "b \<le> 32" and "0 \<in> set (number_text b n)"
  then obtain i where "i < length (digits_rev b n)" "digits_rev b n ! i = 0"
    by (auto simp: number_text_def in_set_conv_nth)
  then have "digit_char (n div b ^ i mod b) = 0" using digits_rev_nth [OF b(1)] by simp
  moreover have "n div b ^ i mod b < 32" using b by (meson dual_order.strict_trans1 less_le_trans mod_less_divisor zero_less_numeral)
  ultimately show False using digit_char_ne_0 by blast
qed

lemma number_text_le_32: "2 \<le> b \<Longrightarrow> n < 2 ^ 32 \<Longrightarrow> length (number_text b n) \<le> 32"
  using digits_rev_bound [of b n 32] by (simp add: number_text_def)

lemma view_cstr: "0 \<notin> set t \<Longrightarrow> length t < 2 ^ 32 \<Longrightarrow> is_cstr (fmt_view t) t"
  by (auto simp: cstr_at_iff_nth fmt_view_def unat_of_nat take_bit_nat_eq_self in_set_conv_nth)

lemma ulitoa_view:
  assumes "2 \<le> unat b" "unat b \<le> 32"
  shows "ulitoa v (\<lambda>_. 0) b = Some (fmt_view (number_text (unat b) (unat v)))"
  using ulitoa_text [OF assms, of v "\<lambda>_. 0"] by (auto simp: fmt_view_def fun_eq_iff)

lemma sint_cases:
  fixes v :: u32
  shows "sint v = (if 2 ^ 31 \<le> unat v then int (unat v) - 2 ^ 32 else int (unat v))"
proof -
  have "sint v = signed_take_bit 31 (uint v)" by (simp add: sint_uint)
  also have "\<dots> = (if 2 ^ 31 \<le> uint v then uint v - 2 ^ 32 else uint v)"
  proof -
    have u: "0 \<le> uint v" "uint v < 2 ^ 32" using uint_lt2p [of v] by simp_all
    then have "signed_take_bit 31 (uint v) = (uint v + 2 ^ 31) mod 2 ^ 32 - 2 ^ 31"
      by (simp add: signed_take_bit_eq_take_bit_shift take_bit_eq_mod)
    moreover have "(uint v + 2 ^ 31) mod 2 ^ 32 = uint v - 2 ^ 31" if "2 ^ 31 \<le> uint v"
    proof -
      have "(uint v + 2 ^ 31) mod 2 ^ 32 = (uint v - 2 ^ 31 + 2 ^ 32) mod 2 ^ 32" by (simp add: add.commute)
      then show ?thesis using that u by (simp only: mod_add_self2) (simp add: mod_pos_pos_trivial)
    qed
    ultimately show ?thesis using u by auto
  qed
  moreover have "uint v = int (unat v)" by simp
  ultimately show ?thesis by (simp del: of_nat_unat)
qed

lemma signed_text_unat:
  "signed_text v = (if v <s 0 then ASCII_MINUS # number_text 10 (unat (- v)) else number_text 10 (unat v))"
proof -
  have "unat (- v) = nat (- sint v)" if "sint v < 0"
  proof -
    have "2 ^ 31 \<le> unat v" using that by (simp add: sint_cases split: if_splits)
    moreover have "unat (0 - v) = 2 ^ 32 - unat v" using calculation by (simp only: unat_sub_if_size) (simp add: word_size)
    ultimately show ?thesis using unat_lt2p [of v] by (simp add: sint_cases del: of_nat_unat)
  qed
  moreover have "unat v = nat (sint v)" if "\<not> sint v < 0"
    using that unat_lt2p [of v] by (simp add: sint_cases del: of_nat_unat split: if_splits)
  ultimately show ?thesis by (simp add: signed_text_def word_sless_alt)
qed

lemma litoa_view: "litoa v (\<lambda>_. 0) 10 = Some (fmt_view (signed_text v))"
proof (cases "v <s 0")
  case True
  define t where "t = number_text 10 (unat (- v))"
  have len: "length t \<le> 32" using number_text_le_32 [of 10 "unat (- v)"] unat_lt2p [of "- v"] by (simp add: t_def)
  obtain b where b: "ulitoa (- v) (view ((\<lambda>_. 0)(0 := ASCII_MINUS)) 1) 10 = Some b"
    and bi: "\<And>i. b i = (if unat i < length t then t ! unat i else if 1 + i = 0 then ASCII_MINUS else 0)"
    using ulitoa_text [of 10 "- v" "view ((\<lambda>_. 0)(0 := ASCII_MINUS)) 1"] by (auto simp: t_def view_def)
  have "b (i - 1) = fmt_view (ASCII_MINUS # t) i" for i
  proof (cases "i = 0")
    case True
    have "unat (- 1 :: u32) = 2 ^ 32 - 1" by (simp add: unsigned_minus_1_eq_mask mask_eq_exp_minus_1)
    with True show ?thesis using len by (simp add: bi fmt_view_def)
  next
    case False
    then have "unat (i - 1) = unat i - 1" "0 < unat i" by (simp_all add: unat_minus_one unat_gt_0)
    then show ?thesis using False by (auto simp: bi fmt_view_def nth_Cons')
  qed
  then show ?thesis using True b by (simp add: litoa_def at_offset_def signed_text_unat t_def)
next
  case False
  then show ?thesis by (simp add: litoa_def at_offset_def ulitoa_view signed_text_unat)
qed

section \<open>One round per piece\<close>

text \<open>\<open>text_fits w t n\<close>: the text fits the output, with room for the terminator.\<close>

definition text_fits :: "u32 \<Rightarrow> u8 list \<Rightarrow> u32 \<Rightarrow> bool" where
  "text_fits w t n \<longleftrightarrow> unat w + length t < unat n \<and> unat n \<le> 2 ^ 31"

lemma text_fits_word:
  assumes "text_fits w t n"
  shows "unat (of_nat (length t) :: u32) = length t" and "unat (w + of_nat (length t)) = unat w + length t"
    and "\<not> w + of_nat (length t) + 1 > n" and "\<not> UINT_MAX - w < of_nat (length t)"
proof -
  show u: "unat (of_nat (length t) :: u32) = length t" using assms by (simp add: text_fits_def unat_of_nat take_bit_nat_eq_self)
  show s: "unat (w + of_nat (length t)) = unat w + length t"
    using assms by (subst unat_add_no_wrap) (simp_all add: u text_fits_def)
  have "unat (w + of_nat (length t) + 1) = unat w + length t + 1"
    using assms by (subst unat_add_no_wrap) (simp_all add: s text_fits_def)
  then show "\<not> w + of_nat (length t) + 1 > n" using assms by (simp add: word_less_nat_alt text_fits_def)
  have "unat (UINT_MAX - w) = 2 ^ 32 - 1 - unat w" using assms by (simp add: unat_sub_if_size UINT_MAX_def text_fits_def)
  then show "\<not> UINT_MAX - w < of_nat (length t)" using assms unfolding text_fits_def word_less_nat_alt u by simp linarith
qed

lemma view_bytes: "length t < 2 ^ 32 \<Longrightarrow> src_bytes (fmt_view (t @ rest)) (of_nat (length t)) = t"
  by (rule src_bytes_eq) (simp_all add: unat_of_nat take_bit_nat_eq_self fmt_view_def nth_append)

lemma copy_src_fits:
  assumes "text_fits w t n" and "src_bytes src (of_nat (length t)) = t"
  shows "copy_text collect n src (of_nat (length t)) (UINT_MAX - w) False w xs =
    (of_nat (length t), 0, w + of_nat (length t), xs @ t)"
  using text_fits_word [OF assms(1)] assms by (simp add: copy_text_def collect_def Let_def)

lemma copy_text_fits:
  assumes "text_fits w t n"
  shows "copy_text collect n (fmt_view (t @ rest)) (of_nat (length t)) (UINT_MAX - w) False w xs =
    (of_nat (length t), 0, w + of_nat (length t), xs @ t)"
  using view_bytes [of t rest] assms by (intro copy_src_fits) (simp_all add: text_fits_def)

text \<open>What follows a literal text starts with a percent sign, or nothing follows.\<close>

definition stops :: "u8 list \<Rightarrow> bool" where
  "stops rest \<longleftrightarrow> peek rest = 0 \<or> peek rest = PERCENT"

lemma takeWhile_plain: "plain ys \<Longrightarrow> stops rest \<Longrightarrow> takeWhile (\<lambda>c. c \<noteq> 0 \<and> c \<noteq> PERCENT) (ys @ rest) = ys"
  by (induction ys) (auto simp: plain_def stops_def peek_def split: list.splits)

lemma literal_round:
  assumes "text_fits w (c # ys) n" and "plain ys" and "stops rest"
  shows "copy_text collect n (fmt_view (c # ys @ rest)) (of_nat (literal_len (c # ys @ rest))) (UINT_MAX - w) False w xs =
    (of_nat (Suc (length ys)), 0, w + of_nat (Suc (length ys)), xs @ c # ys)"
  using copy_text_fits [OF assms(1), of rest xs] by (simp add: literal_len_def takeWhile_plain [OF assms(2,3)])

lemma conversion_fields:
  assumes "c = CONV_u \<or> c = 0x78 \<or> c = 0x64 \<or> c = CONV_s \<or> c = CONV_c"
  shows "parse_width (c # rest) = Some (0, 0, c # rest)" "parse_precision (c # rest) = Some (0, c # rest)"
  using assms by (auto simp: parse_width_def parse_precision_def peek_def is_digit_def ASCII_0_def ASCII_9_def)

lemma number_round:
  assumes "text_fits w t n" and "0 \<notin> set t" and "length t \<le> 41" and "word_text c args = Some (fmt_view t, args')"
    and "c = CONV_u \<or> c = 0x78 \<or> c = 0x64"
  shows "printf_step collect n (PERCENT # c # rest) args w xs = Some (rest, args', 0, w + of_nat (length t), xs @ t)"
proof -
  have "print_number collect (fmt_view t) 0 0 0 n (UINT_MAX - w) w xs = (0, w + of_nat (length t), xs @ t)"
    using assms(1-3) by (intro print_plain_number view_cstr) (simp_all add: text_fits_def)
  then have "step_number collect n (c # rest) (word_text c args) 0 0 0 (UINT_MAX - w) w xs =
      Some (rest, args', 0, w + of_nat (length t), xs @ t)" by (simp add: step_number_def assms(4))
  then show ?thesis using assms(5) conversion_fields [of c rest]
    by (auto simp: printf_step_def peek_def is_signed_conv_def is_hex_conv_def)
qed


lemma padded_fields: "parse_width (0x30 # 0x32 # CONV_u # rest) = Some (1, 2, CONV_u # rest)"
proof -
  have "number_text 10 2 = [0x32]" by code_simp
  then have "atou (fmt_view (0x32 # CONV_u # rest)) = Some 2"
    using atou_text [of 2 "fmt_view (0x32 # CONV_u # rest)"] by (simp add: fmt_view_def is_digit_def ASCII_0_def ASCII_9_def)
  then show ?thesis by (simp add: parse_width_def peek_def is_digit_def ASCII_0_def ASCII_9_def)
qed

lemma padded_round:
  assumes "text_fits w (padded_text v) n"
  shows "printf_step collect n ([PERCENT, 0x30, 0x32, CONV_u] @ rest) (Va_Word v # args) w xs =
    Some (rest, args, 0, w + of_nat (length (padded_text v)), xs @ padded_text v)"
proof -
  define t where "t = number_text 10 (unat v)"
  have t: "0 \<notin> set t" "length t \<le> 41" "0 < length t"
    using number_text_ne_0 [of 10 "unat v"] number_text_le_32 [of 10 "unat v"] unat_lt2p [of v] digits_rev_ne [of 10 "unat v"]
    by (simp_all add: t_def number_text_def)
  have l: "length (padded_text v) = max 2 (length t)" using t(3) unfolding padded_text_def t_def [symmetric] by (cases "length t < 2") (simp_all del: length_greater_0_conv)
  have "print_number collect (fmt_view t) 0 2 1 n (UINT_MAX - w) w xs = (0, w + of_nat (length (padded_text v)), xs @ padded_text v)"
    using print_padded_number [OF view_cstr [OF t(1)] t(3,2), of w n xs] assms t(2) unfolding text_fits_def l
    by (simp add: padded_text_def t_def)
  then show ?thesis
    using padded_fields [of rest]
    by (simp add: printf_step_def step_number_def peek_def parse_precision_def is_signed_conv_def is_hex_conv_def word_text_def ulitoa_view
        t_def)
qed

lemma number_texts:
  "0 \<notin> set (number_text 10 (unat v)) \<and> length (number_text 10 (unat v)) \<le> 41" (is ?a)
  "0 \<notin> set (number_text 16 (unat v)) \<and> length (number_text 16 (unat v)) \<le> 41" (is ?b)
  "0 \<notin> set (signed_text v) \<and> length (signed_text v) \<le> 41" (is ?c)
  for v :: u32
proof -
  have n: "0 \<notin> set (number_text b (unat u)) \<and> length (number_text b (unat u)) \<le> 32"
    if "b = 10 \<or> b = 16" for b and u :: u32
    using that number_text_ne_0 [of b "unat u"] number_text_le_32 [of b "unat u"] unat_lt2p [of u] by auto
  from n [of 10 v] show ?a by simp
  from n [of 16 v] show ?b by simp
  from n [of 10 v] n [of 10 "- v"] show ?c by (simp add: signed_text_unat ASCII_MINUS_def)
qed

lemma char_bytes: "src_bytes (char_src c) 1 = [c]"
  by (simp add: src_bytes_def char_src_def)

lemma piece_round:
  assumes "piece_ok p" and "text_fits w (piece_text p) n" and "(\<exists>xs. p = Lit xs \<or> p = Percent xs) \<longrightarrow> stops rest"
  shows "printf_step collect n (piece_fmt p @ rest) (piece_args p @ args) w xs =
    Some (rest, args, 0, w + of_nat (length (piece_text p)), xs @ piece_text p)"
proof (cases p)
  case (Lit ys)
  then obtain c zs where ys: "ys = c # zs" "c \<noteq> 0" "c \<noteq> PERCENT" "plain zs"
    using assms(1) by (cases ys) (auto simp: plain_def)
  then show ?thesis using literal_round [of w c zs n rest xs] assms Lit text_fits_word(1) [OF assms(2)]
    by (simp add: printf_step_def step_literal_def peek_def)
next
  case (Percent ys)
  then show ?thesis using literal_round [of w PERCENT ys n rest xs] assms text_fits_word(1) [OF assms(2)]
    by (simp add: printf_step_def step_literal_def peek_def)
next
  case (Unsigned v)
  then show ?thesis using assms(2) number_texts(1) [of v]
    by (auto intro!: number_round simp: word_text_def is_signed_conv_def ulitoa_view)
next
  case (Hex v)
  then show ?thesis using assms(2) number_texts(2) [of v]
    by (auto intro!: number_round simp: word_text_def is_signed_conv_def is_hex_conv_def ulitoa_view)
next
  case (Signed v)
  then show ?thesis using assms(2) number_texts(3) [of v]
    by (auto intro!: number_round simp: word_text_def is_signed_conv_def litoa_view)
next
  case (Str v t)
  then have fit: "text_fits w t n" and t: "is_cstr v t" using assms by simp_all
  note u = text_fits_word(1) [OF fit]
  have "length t < 2 ^ 32 - 1" using fit by (simp add: text_fits_def)
  then have len: "strlen v = of_nat (length t)" using strlen_cstr [OF t] u by (simp add: word_unat_eq_iff)
  have "src_bytes v (of_nat (length t)) = t" using t u by (intro src_bytes_eq) (simp_all add: cstr_at_iff_nth)
  then show ?thesis using copy_src_fits [OF fit, of v xs] conversion_fields [of CONV_s rest]
    by (simp add: Str printf_step_def step_string_def peek_def len)
next
  case (Char c)
  then have fit: "text_fits w [c] n" using assms by simp
  then have "UINT_MAX - w \<noteq> 0" using text_fits_word(4) [OF fit] by auto
  moreover have "\<not> w + 1 + 1 > n" using text_fits_word(3) [OF fit] by simp
  moreover have "ucast (ucast c :: u32) = c" by (simp add: ucast_ucast_same)
  ultimately show ?thesis using conversion_fields [of CONV_c rest]
    by (simp add: Char printf_step_def step_char_def peek_def collect_def char_bytes)
next
  case (Padded v)
  then show ?thesis using padded_round [of w v n rest args xs] assms(2) by simp
qed

text \<open>The text has no terminator inside, when the characters that are printed are none.\<close>

lemma piece_text_ne_0: "piece_ok p \<Longrightarrow> (\<forall>c. p = Char c \<longrightarrow> c \<noteq> 0) \<Longrightarrow> 0 \<notin> set (piece_text p)"
  using number_texts cstr_at_nonzero by (cases p) (auto simp: plain_def padded_text_def ASCII_0_def)

text \<open>The loop over a sequence of pieces.\<close>

lemma pieces_stop: "pieces_ok (p # ps) \<Longrightarrow> \<exists>xs. p = Lit xs \<or> p = Percent xs \<Longrightarrow> stops (format_of ps)"
  by (cases ps) (auto simp: format_of_def stops_def peek_def split: piece.splits)

lemma format_nonempty: "piece_ok p \<Longrightarrow> peek (piece_fmt p @ rest) \<noteq> 0"
  by (cases p) (auto simp: peek_def plain_def append_eq_Cons_conv split: list.splits)

theorem printf_reference:
  assumes "pieces_ok ps" and "length (format_of ps) < 2 ^ 32" and "text_fits w (text_of ps) n"
  shows "gen_printf_loop collect n (format_of ps) (args_of ps) w xs = Some (0, w + of_nat (length (text_of ps)), xs @ text_of ps)"
  using assms
proof (induction ps arbitrary: w xs)
  case Nil
  then show ?case by (simp add: format_of_def text_of_def gen_printf_loop.simps [of _ _ "[]"] peek_def)
next
  case (Cons p ps)
  have f: "format_of (p # ps) = piece_fmt p @ format_of ps" "args_of (p # ps) = piece_args p @ args_of ps"
    "text_of (p # ps) = piece_text p @ text_of ps" by (simp_all add: format_of_def args_of_def text_of_def)
  have fit: "text_fits w (piece_text p) n" using Cons.prems(3) by (simp add: f text_fits_def)
  have step: "printf_step collect n (format_of (p # ps)) (args_of (p # ps)) w xs =
      Some (format_of ps, args_of ps, 0, w + of_nat (length (piece_text p)), xs @ piece_text p)"
    unfolding f using Cons.prems(1) pieces_stop [OF Cons.prems(1)] by (intro piece_round fit) auto
  have rest: "gen_printf_loop collect n (format_of ps) (args_of ps) (w + of_nat (length (piece_text p))) (xs @ piece_text p) =
      Some (0, w + of_nat (length (piece_text p)) + of_nat (length (text_of ps)), (xs @ piece_text p) @ text_of ps)"
    using Cons.prems text_fits_word(2) [OF fit] by (intro Cons.IH) (simp_all add: f text_fits_def)
  have "peek (format_of (p # ps)) \<noteq> 0" unfolding f using Cons.prems(1) by (intro format_nonempty) simp
  then show ?case using step rest Cons.prems(2) by (subst gen_printf_loop.simps) (simp add: f add.assoc)
qed

corollary printf_text_reference:
  assumes "pieces_ok ps" and "length (format_of ps) < 2 ^ 32" and "length (text_of ps) < unat n" "unat n \<le> 2 ^ 31"
  shows "printf_text n (format_of ps) (args_of ps) = Some (0, text_of ps)"
  using printf_reference [OF assms(1,2), of 0 n "[]"] assms(3,4) by (simp add: printf_text_def text_fits_def)

end
