(* ===== verification/Devs_Vga.thy ===== *)
theory Devs_Vga
  imports IA32_Io Libk_String
begin

text \<open>
  The text screen of vga.c. The screen memory is the array behind \<open>vga_buffer\<close>, indexed from its
  first cell; the abstract screen is the linear position of the cursor and the cells.
\<close>

section \<open>The driver\<close>

definition VGA_WIDTH :: u32 where "VGA_WIDTH = 80"
definition VGA_HEIGHT :: u32 where "VGA_HEIGHT = 25"
definition VGA_COLOR_BLACK :: u32 where "VGA_COLOR_BLACK = 0"
definition VGA_COLOR_LIGHT_GREY :: u32 where "VGA_COLOR_LIGHT_GREY = 7"
definition VGA_MEMORY :: u32 where "VGA_MEMORY = 0xB8000"

record vga =
  vga_row :: u32
  vga_column :: u32
  vga_color :: u8
  vga_base :: u32
  vga_buffer :: "u32 \<Rightarrow> u16"

definition vga_entry_color :: "u32 \<Rightarrow> u32 \<Rightarrow> u8" where
  "vga_entry_color fg bg = ucast (fg OR push_bit 4 bg)"

definition vga_entry :: "u8 \<Rightarrow> u8 \<Rightarrow> u16" where
  "vga_entry uc color = ucast uc OR push_bit 8 (ucast color)"

definition vga_set_base_address :: "u32 \<Rightarrow> vga \<Rightarrow> vga" where
  "vga_set_base_address addr s = s\<lparr>vga_base := addr\<rparr>"

definition vga_setcolor :: "u8 \<Rightarrow> vga \<Rightarrow> vga" where
  "vga_setcolor color s = s\<lparr>vga_color := color\<rparr>"

definition vga_putentryat :: "u8 \<Rightarrow> u8 \<Rightarrow> u32 \<Rightarrow> u32 \<Rightarrow> vga \<Rightarrow> vga" where
  "vga_putentryat c color x y s =
     (let index = y * VGA_WIDTH + x in s\<lparr>vga_buffer := (vga_buffer s)(index := vga_entry c color)\<rparr>)"

definition next_row :: "vga \<Rightarrow> vga" where
  "next_row s = (let row = vga_row s + 1 in s\<lparr>vga_row := if row = VGA_HEIGHT then 0 else row\<rparr>)"

definition vga_putchar :: "u8 \<Rightarrow> vga \<Rightarrow> vga" where
  "vga_putchar c s =
     (if c = 0x0D then s\<lparr>vga_column := 0\<rparr>
      else if c = 0x0A then next_row (s\<lparr>vga_column := 0\<rparr>)
      else
        let s = vga_putentryat c (vga_color s) (vga_column s) (vga_row s) s;
            column = vga_column s + 1
        in if column = VGA_WIDTH then next_row (s\<lparr>vga_column := 0\<rparr>) else s\<lparr>vga_column := column\<rparr>)"

definition vga_write :: "bytes \<Rightarrow> u32 \<Rightarrow> vga \<Rightarrow> vga" where
  "vga_write data sz s = for_upto 0 sz (\<lambda>i. vga_putchar (data i)) s"

definition vga_writestring :: "bytes \<Rightarrow> vga \<Rightarrow> vga" where
  "vga_writestring data s = vga_write data (strlen data) s"

definition vga_flush :: "vga \<Rightarrow> vga" where
  "vga_flush s =
     (let s = for_upto 0 VGA_HEIGHT (\<lambda>y. for_upto 0 VGA_WIDTH (\<lambda>x. vga_putentryat 0x20 (vga_color s) x y)) s
      in s\<lparr>vga_column := 0, vga_row := 0\<rparr>)"

definition vga_initialize :: "vga \<Rightarrow> vga" where
  "vga_initialize s =
     vga_flush (s\<lparr>vga_row := 0, vga_column := 0,
       vga_color := vga_entry_color VGA_COLOR_LIGHT_GREY VGA_COLOR_BLACK, vga_base := VGA_MEMORY\<rparr>)"

definition vga_cursor_off :: "trace \<Rightarrow> trace" where
  "vga_cursor_off tr = outb 0x20 0x3D5 (outb 0x0A 0x3D4 tr)"

definition vga_cursor_on :: "machine \<Rightarrow> u32 \<Rightarrow> u32 \<Rightarrow> trace \<Rightarrow> trace" where
  "vga_cursor_on hw cursor_start cursor_end tr =
     (let tr = outb 0x0A 0x3D4 tr;
          (v, tr) = inb hw 0x3D5 tr;
          tr = outb (ucast (ucast (v AND 0xC0) OR cursor_start)) 0x3D5 tr;
          tr = outb 0x0B 0x3D4 tr;
          (v, tr) = inb hw 0x3D5 tr
      in outb (ucast (ucast (v AND 0xE0) OR cursor_end)) 0x3D5 tr)"

definition vga_update_cursor :: "u32 \<Rightarrow> u32 \<Rightarrow> trace \<Rightarrow> trace" where
  "vga_update_cursor x y tr =
     (let pos = y * VGA_WIDTH + x;
          tr = outb 0x0F 0x3D4 tr;
          tr = outb (ucast (pos AND 0xFF)) 0x3D5 tr;
          tr = outb 0x0E 0x3D4 tr
      in outb (ucast (drop_bit 8 pos AND 0xFF)) 0x3D5 tr)"

definition vga_fs_write :: "bool \<Rightarrow> bytes \<Rightarrow> u32 \<Rightarrow> vga \<Rightarrow> int \<times> vga" where
  "vga_fs_write node_not_null buf nbyte s =
     (if node_not_null then (0, vga_write buf nbyte s) else (-1, s))"

section \<open>The abstract screen\<close>

definition vga_inv :: "vga \<Rightarrow> bool" where
  "vga_inv s \<longleftrightarrow> unat (vga_row s) < 25 \<and> unat (vga_column s) < 80"

definition vga_pos :: "vga \<Rightarrow> nat" where
  "vga_pos s = 80 * unat (vga_row s) + unat (vga_column s)"

text \<open>What a character does to the cursor position and the cells of the linear screen.\<close>

definition term_put :: "u8 \<Rightarrow> u8 \<Rightarrow> nat \<times> u16 list \<Rightarrow> nat \<times> u16 list" where
  "term_put color c t =
     (case t of (p, cells) \<Rightarrow>
        if c = 0x0D then (80 * (p div 80), cells)
        else if c = 0x0A then (80 * Suc (p div 80) mod 2000, cells)
        else (Suc p mod 2000, cells[p := vga_entry c color]))"

definition vga_cells :: "vga \<Rightarrow> u16 list" where
  "vga_cells s = map (\<lambda>k. vga_buffer s (of_nat k)) [0..<2000]"

definition same_outside :: "vga \<Rightarrow> vga \<Rightarrow> bool" where
  "same_outside s t \<longleftrightarrow> vga_base t = vga_base s \<and> vga_color t = vga_color s \<and>
     (\<forall>a. 2000 \<le> unat a \<longrightarrow> vga_buffer t a = vga_buffer s a)"

lemma next_row_ok:
  assumes "unat (vga_row s) < 25"
  shows "unat (vga_row (next_row s)) = Suc (unat (vga_row s)) mod 25"
proof -
  have "unat (vga_row s + 1) = Suc (unat (vga_row s))" using assms by (simp add: unat_word_ariths)
  moreover from this have "vga_row s + 1 = 25 \<longleftrightarrow> Suc (unat (vga_row s)) = 25" by (simp add: word_unat_eq_iff)
  ultimately show ?thesis using assms by (auto simp: next_row_def VGA_HEIGHT_def mod_Suc)
qed

lemma next_row_sel [simp]: "vga_column (next_row s) = vga_column s" "vga_color (next_row s) = vga_color s"
  "vga_buffer (next_row s) = vga_buffer s" "vga_base (next_row s) = vga_base s"
  by (simp_all add: next_row_def Let_def)

lemma cell_index:
  assumes "vga_inv s"
  shows "vga_row s * VGA_WIDTH + vga_column s = of_nat (vga_pos s)" "vga_pos s < 2000"
proof -
  show "vga_row s * VGA_WIDTH + vga_column s = of_nat (vga_pos s)"
    by (simp add: vga_pos_def VGA_WIDTH_def mult.commute)
  show "vga_pos s < 2000" using assms by (simp add: vga_inv_def vga_pos_def)
qed

lemma cells_upd:
  assumes "p < 2000"
  shows "map (\<lambda>k. (f(of_nat p := x)) (of_nat k :: u32)) [0..<2000] = (map (\<lambda>k. f (of_nat k)) [0..<2000])[p := x]"
proof (rule nth_equalityI)
  fix k assume "k < length (map (\<lambda>k. (f(of_nat p := x)) (of_nat k :: u32)) [0..<2000])"
  then have k: "k < 2000" by simp
  have "(of_nat k :: u32) = of_nat p \<longleftrightarrow> k = p"
    using k assms by (auto simp: word_unat_eq_iff unat_of_nat take_bit_nat_eq_self)
  then show "map (\<lambda>k. (f(of_nat p := x)) (of_nat k :: u32)) [0..<2000] ! k = (map (\<lambda>k. f (of_nat k)) [0..<2000])[p := x] ! k"
    using k by (simp add: nth_list_update)
qed simp

lemma row_pos: "c < 80 \<Longrightarrow> (80 * r + c) div 80 = r" "r < 25 \<Longrightarrow> 80 * (Suc r mod 25) = 80 * Suc r mod 2000" for r c :: nat
  using mult_mod_right [of 80 "Suc r" 25] by simp_all

lemma putchar_refines:
  assumes "vga_inv s"
  shows "vga_inv (vga_putchar c s) \<and> same_outside s (vga_putchar c s) \<and>
    (vga_pos (vga_putchar c s), vga_cells (vga_putchar c s)) = term_put (vga_color s) c (vga_pos s, vga_cells s)"
proof -
  define r k where "r = unat (vga_row s)" and "k = unat (vga_column s)"
  have rk: "r < 25" "k < 80" using assms by (simp_all add: vga_inv_def r_def k_def)
  have nr: "unat (vga_row (next_row t)) = Suc r mod 25" if "vga_row t = vga_row s" for t
    using next_row_ok [of t] that rk(1) by (simp add: r_def)
  have row: "80 * (Suc r mod 25) = 80 * Suc r mod 2000" "(80 * r + k) div 80 = r"
    using row_pos(2) [OF rk(1)] row_pos(1) [OF rk(2)] by simp_all
  consider "c = 0x0D" | "c = 0x0A" | "c \<noteq> 0x0D" "c \<noteq> 0x0A" by blast
  then show ?thesis
  proof cases
    case 1
    then show ?thesis using rk row(2)
      by (simp add: vga_putchar_def vga_inv_def same_outside_def term_put_def vga_pos_def vga_cells_def
          r_def [symmetric] k_def [symmetric])
  next
    case 2
    then show ?thesis using nr rk row
      by (simp add: vga_putchar_def vga_inv_def same_outside_def term_put_def vga_pos_def vga_cells_def
          r_def [symmetric] k_def [symmetric])
  next
    case 3
    define p where "p = 80 * r + k"
    have p: "p < 2000" "vga_pos s = p" "vga_row s * VGA_WIDTH + vga_column s = of_nat p"
      using cell_index [OF assms] rk by (simp_all add: p_def vga_pos_def r_def k_def)
    define t where "t = s\<lparr>vga_buffer := (vga_buffer s)(of_nat p := vga_entry c (vga_color s))\<rparr>"
    have pe: "vga_putentryat c (vga_color s) (vga_column s) (vga_row s) s = t"
      by (simp add: vga_putentryat_def p(3) t_def)
    have cells: "vga_cells t = (vga_cells s)[p := vga_entry c (vga_color s)]"
      unfolding vga_cells_def t_def using cells_upd [OF p(1)] by simp
    have out: "same_outside s t" using p(1)
      by (auto simp: same_outside_def t_def unat_of_nat take_bit_nat_eq_self)
    have k1: "unat (vga_column s + 1) = Suc k" using rk(2) by (simp add: k_def unat_word_ariths)
    then have w: "vga_column s + 1 = VGA_WIDTH \<longleftrightarrow> Suc k = 80" by (simp add: VGA_WIDTH_def word_unat_eq_iff)
    have sel: "vga_row t = vga_row s" "vga_column t = vga_column s" by (simp_all add: t_def)
    have put: "vga_putchar c s = (if Suc k = 80 then next_row (t\<lparr>vga_column := 0\<rparr>) else t\<lparr>vga_column := vga_column s + 1\<rparr>)"
      using 3 by (simp add: vga_putchar_def pe w sel)
    have pos: "vga_pos (vga_putchar c s) = Suc p mod 2000"
    proof (cases "Suc k = 80")
      case True
      then have "Suc p = 80 * Suc r" by (simp add: p_def)
      then show ?thesis using True nr [of "t\<lparr>vga_column := 0\<rparr>"] row(1) by (simp add: put vga_pos_def sel)
    next
      case False
      then have "Suc p < 2000" using rk by (simp add: p_def)
      then show ?thesis using False k1 by (simp add: put vga_pos_def sel r_def [symmetric] p_def)
    qed
    have "vga_inv (vga_putchar c s)"
      using rk k1 nr [of "t\<lparr>vga_column := 0\<rparr>"] by (auto simp: put vga_inv_def sel r_def [symmetric])
    moreover have "vga_cells (vga_putchar c s) = vga_cells t" "same_outside s (vga_putchar c s)"
      using out by (auto simp: put vga_cells_def same_outside_def)
    ultimately show ?thesis using 3 pos cells by (simp add: term_put_def p(2))
  qed
qed

lemma same_outside_trans: "same_outside s t \<Longrightarrow> same_outside t u \<Longrightarrow> same_outside s u"
  by (simp add: same_outside_def)

lemma vga_write_refines:
  assumes "vga_inv s"
  shows "vga_inv (vga_write data sz s) \<and> same_outside s (vga_write data sz s) \<and>
    (vga_pos (vga_write data sz s), vga_cells (vga_write data sz s)) =
      fold (term_put (vga_color s)) (map (\<lambda>i. data (of_nat i)) [0..<unat sz]) (vga_pos s, vga_cells s)"
proof -
  have "vga_inv t \<and> same_outside s t \<and>
      (vga_pos t, vga_cells t) = fold (term_put (vga_color s)) (map (\<lambda>i. data (of_nat i)) [0..<n]) (vga_pos s, vga_cells s)"
    if "t = fold (\<lambda>k. vga_putchar (data (of_nat k))) [0..<n] s" for n t
    using that
  proof (induction n arbitrary: t)
    case 0
    then show ?case using assms by (simp add: same_outside_def)
  next
    case (Suc n)
    define u where "u = fold (\<lambda>k. vga_putchar (data (of_nat k))) [0..<n] s"
    have u: "vga_inv u" "same_outside s u" "(vga_pos u, vga_cells u) =
        fold (term_put (vga_color s)) (map (\<lambda>i. data (of_nat i)) [0..<n]) (vga_pos s, vga_cells s)"
      using Suc.IH [OF u_def] by auto
    have t: "t = vga_putchar (data (of_nat n)) u" using Suc.prems by (simp add: u_def)
    have "vga_color u = vga_color s" using u(2) by (simp add: same_outside_def)
    with putchar_refines [OF u(1), of "data (of_nat n)"] u same_outside_trans show ?case by (auto simp: t)
  qed
  then show ?thesis by (simp add: vga_write_def loop_simps)
qed

end
