(* ===== verification/Props_Dev.thy ===== *)
theory Props_Dev
  imports Coresys_Stdio Libk_Printf_Ref Devs_Vga
begin

text \<open>
  The properties of formatted output, of the serial console and of the screen, each applied to a
  concrete state.
\<close>

section \<open>Formatted output\<close>





text \<open>
  C31. Formatting agrees with the reference: for every sequence of literal texts and plain
  conversions (\<open>%u\<close>, \<open>%x\<close>, \<open>%d\<close>, \<open>%s\<close>, \<open>%c\<close>, \<open>%%\<close>) whose text fits the buffer, snprintf stores the
  concatenation of the texts and a terminator and returns its length with the terminator.
\<close>

theorem snprintf_reference:
  assumes "pieces_ok ps" and "length (format_of ps) < 2 ^ 31" and "args_ok (args_of ps)"
    and "length (text_of ps) < unat n" and "unat n < 2 ^ 31" and "str \<noteq> 0"
  shows "\<exists>m'. snprintf str n (format_of ps) (args_of ps) m = Some (int (length (text_of ps)) + 1, m') \<and>
    (\<forall>i<length (text_of ps). m' (str + of_nat i) = text_of ps ! i) \<and> m' (str + of_nat (length (text_of ps))) = 0"
proof -
  have "0 < n" using assms(4) by (simp add: word_less_nat_alt)
  moreover have "printf_text n (format_of ps) (args_of ps) = Some (0, text_of ps)"
    using assms by (intro printf_text_reference) auto
  ultimately obtain m' where m': "gen_printf (buffer_nul str) (copy_to_buffer str) n (format_of ps) (args_of ps) m =
      Some (sint (of_nat (length (text_of ps)) + 1 :: u32), m')"
    "\<forall>i<length (text_of ps). m' (str + of_nat i) = text_of ps ! i" "m' (str + of_nat (length (text_of ps))) = 0"
    using gen_printf_buffer [of n "args_of ps" "format_of ps" str 0 "text_of ps" m] assms by auto
  have "sint (of_nat (Suc (length (text_of ps))) :: u32) = int (Suc (length (text_of ps)))"
    using assms(4,5) by (intro sint_of_nat_small) simp
  with m' assms(6) show ?thesis by (intro exI [of _ m']) (simp add: snprintf_def add.commute)
qed

text \<open>\<open>"n=%d"\<close> with the number -5.\<close>

definition demo_pieces :: "piece list" where
  "demo_pieces = [Lit [0x6E, 0x3D], Signed (-5)]"

lemma demo_text: "text_of demo_pieces = [0x6E, 0x3D, 0x2D, 0x35]"
  by (simp add: text_of_def demo_pieces_def signed_text_def number_text_def digits_rev.simps [of 10 5] digit_char_def
      ASCII_MINUS_def ASCII_0_def)

theorem snprintf_reference_witness:
  "\<exists>m'. snprintf 0x1000 16 [0x6E, 0x3D, 0x25, 0x64] [Va_Word (-5)] (\<lambda>_. 0) = Some (5, m') \<and> m' 0x1002 = 0x2D \<and> m' 0x1003 = 0x35"
proof -
  have "pieces_ok demo_pieces" "args_ok (args_of demo_pieces)"
    by (simp_all add: demo_pieces_def plain_def args_of_def args_ok_def)
  moreover have f: "format_of demo_pieces = [0x6E, 0x3D, 0x25, 0x64]" "args_of demo_pieces = [Va_Word (-5)]"
    by (simp_all add: demo_pieces_def format_of_def args_of_def)
  ultimately obtain m' where "snprintf 0x1000 16 (format_of demo_pieces) (args_of demo_pieces) (\<lambda>_. 0) =
      Some (int (length (text_of demo_pieces)) + 1, m')"
    "\<forall>i<length (text_of demo_pieces). m' (0x1000 + of_nat i) = text_of demo_pieces ! i"
    using snprintf_reference [of demo_pieces 16 "0x1000" "\<lambda>_. 0"] by (auto simp: demo_text)
  then show ?thesis by (intro exI [of _ m']) (simp add: f demo_text All_less_Suc numeral_eq_Suc)
qed

section \<open>The serial console\<close>

text \<open>
  C32. The kernel's printf on the serial console: with the standard streams on a serial port whose
  transmitter drains, printf of literal texts and plain conversions returns, the length of the text
  is its result, and the bytes sent to the port are exactly the text, after what was sent before.
\<close>

theorem printf_console:
  assumes "drains hw (ucast (impl_def stdio))" and "write_cb stdio = Some Cb_serial_fs_write"
    and "pieces_ok ps" and "length (format_of ps) < 2 ^ 31" and "args_ok (args_of ps)" and "length (text_of ps) < 2 ^ 31 - 1"
  shows "\<exists>tr'. printf (stdout_fun hw stdio) (format_of ps) (args_of ps) (Some tr) = Some (int (length (text_of ps)), Some tr') \<and>
    written8 (ucast (impl_def stdio) + SERIAL_DATA_REG) tr' =
      written8 (ucast (impl_def stdio) + SERIAL_DATA_REG) tr @ text_of ps"
proof -
  have "console hw stdio" using assms(1,2) by unfold_locales
  moreover have "printf_text INT_MAX (format_of ps) (args_of ps) = Some (0, text_of ps)"
    using assms(3,4,6) by (intro printf_text_reference) (simp_all add: INT_MAX_def)
  ultimately show ?thesis using console.console_printf [OF _ assms(5,4), of hw stdio 0 "text_of ps" tr] by (auto simp: sent_on_def)
qed

theorem printf_console_witness:
  "\<exists>tr'. printf (stdout_fun idle_uart stdio_node) [0x6E, 0x3D, 0x25, 0x64] [Va_Word (-5)] (Some []) = Some (4, Some tr') \<and>
    written8 COM1 tr' = [0x6E, 0x3D, 0x2D, 0x35]"
proof -
  have ok: "pieces_ok demo_pieces" "args_ok (args_of demo_pieces)"
    by (simp_all add: demo_pieces_def plain_def args_of_def args_ok_def)
  have f: "format_of demo_pieces = [0x6E, 0x3D, 0x25, 0x64]" "args_of demo_pieces = [Va_Word (-5)]"
    by (simp_all add: demo_pieces_def format_of_def args_of_def)
  have port: "ucast (impl_def stdio_node) + SERIAL_DATA_REG = COM1"
    by (simp add: stdio_node_def InitStdio_def case_prod_beta SERIAL_DATA_REG_def)
  from printf_console [OF com1.drains_port com1.serial_output ok(1) _ ok(2), of "[]"]
  show ?thesis by (simp add: f demo_text port)
qed

section \<open>The screen\<close>

text \<open>
  C33. The screen driver implements a linear screen of 2000 cells: with the cursor inside the
  screen, writing any number of bytes moves the cursor and changes the cells as the abstract screen
  does, character by character, keeps the cursor inside and writes no cell outside the screen.
\<close>

theorem vga_linear_screen:
  assumes "vga_inv s"
  shows "vga_inv (vga_write data sz s) \<and> same_outside s (vga_write data sz s) \<and>
    (vga_pos (vga_write data sz s), vga_cells (vga_write data sz s)) =
      fold (term_put (vga_color s)) (map (\<lambda>i. data (of_nat i)) [0..<unat sz]) (vga_pos s, vga_cells s)"
  by (rule vga_write_refines [OF assms])

text \<open>The last cell of the screen: the cursor wraps to the first one.\<close>

definition demo_screen :: vga where
  "demo_screen = \<lparr>vga_row = 24, vga_column = 79, vga_color = 7, vga_base = VGA_MEMORY, vga_buffer = (\<lambda>_. 0)\<rparr>"

theorem vga_linear_screen_witness:
  "vga_pos (vga_write (\<lambda>_. 0x41) 1 demo_screen) = 0 \<and> vga_cells (vga_write (\<lambda>_. 0x41) 1 demo_screen) ! 1999 = 0x741"
proof -
  have inv: "vga_inv demo_screen" by (simp add: vga_inv_def demo_screen_def)
  have "(vga_pos (vga_write (\<lambda>_. 0x41) 1 demo_screen), vga_cells (vga_write (\<lambda>_. 0x41) 1 demo_screen)) =
      (0, (vga_cells demo_screen)[1999 := vga_entry 0x41 7])"
    using vga_linear_screen [OF inv, of "\<lambda>_. 0x41" 1]
    by (simp add: term_put_def) (simp add: vga_pos_def demo_screen_def)
  then show ?thesis by (simp add: vga_cells_def vga_entry_def)
qed

end
