(* ===== verification/IA32_Pic.thy ===== *)
theory IA32_Pic
  imports IA32_Io
begin

text \<open>
  The legacy interrupt controllers (pic.c) and the interval timer (pit.c): the accesses the drivers
  make, and the mask of a pair of controllers that answer a read of the mask register with what
  was last written there.
\<close>

section \<open>Interrupt controllers\<close>

definition PIC1_COMMAND :: u16 where "PIC1_COMMAND = 0x20"
definition PIC1_DATA :: u16 where "PIC1_DATA = 0x21"
definition PIC2_COMMAND :: u16 where "PIC2_COMMAND = 0xA0"
definition PIC2_DATA :: u16 where "PIC2_DATA = 0xA1"
definition PIC_READ_IRR :: u8 where "PIC_READ_IRR = 0x0A"
definition PIC_READ_ISR :: u8 where "PIC_READ_ISR = 0x0B"
definition PIC_EOI :: u8 where "PIC_EOI = 0x20"
definition ICW1_ICW4 :: u8 where "ICW1_ICW4 = 0x01"
definition ICW1_INIT :: u8 where "ICW1_INIT = 0x10"
definition ICW4_8086 :: u8 where "ICW4_8086 = 0x01"
definition HW_INT_START :: u32 where "HW_INT_START = 0x20"

lemmas pic_ports = PIC1_COMMAND_def PIC1_DATA_def PIC2_COMMAND_def PIC2_DATA_def

definition PIC_disable :: "trace \<Rightarrow> trace" where
  "PIC_disable tr =
     outb 0xFF PIC2_DATA (outb 0xFF PIC1_DATA (outb 0x20 PIC2_COMMAND (outb 0x20 PIC1_COMMAND tr)))"

definition PIC_SendEOI :: "u16 \<Rightarrow> u32 \<Rightarrow> trace \<Rightarrow> trace" where
  "PIC_SendEOI IRQ_start_offset irq tr =
     (let irq = (if IRQ_start_offset > 0 then (irq AND 0xFF) - ucast IRQ_start_offset else irq) in
      if irq \<le> 15 then
        outb PIC_EOI PIC1_COMMAND (if irq \<ge> 8 then outb PIC_EOI PIC2_COMMAND tr else tr)
      else tr)"

text \<open>The result is the new \<open>IRQ_start_offset\<close> with the accesses.\<close>

definition PIC_remap :: "machine \<Rightarrow> u16 \<Rightarrow> u16 \<Rightarrow> trace \<Rightarrow> u16 \<times> trace" where
  "PIC_remap hw offset1 offset2 tr =
     (let (a1, tr) = inb hw PIC1_DATA tr;
          (a2, tr) = inb hw PIC2_DATA tr;
          tr = io_wait (outb (ICW1_INIT OR ICW1_ICW4) PIC1_COMMAND tr);
          tr = io_wait (outb (ICW1_INIT OR ICW1_ICW4) PIC2_COMMAND tr);
          tr = io_wait (outb (ucast offset1) PIC1_DATA tr);
          tr = io_wait (outb (ucast offset2) PIC2_DATA tr);
          tr = io_wait (outb 4 PIC1_DATA tr);
          tr = io_wait (outb 2 PIC2_DATA tr);
          tr = io_wait (outb ICW4_8086 PIC1_DATA tr);
          tr = io_wait (outb ICW4_8086 PIC2_DATA tr);
          tr = outb a1 PIC1_DATA tr
      in (offset1, outb a2 PIC2_DATA tr))"

definition pic_line :: "u8 \<Rightarrow> u16 \<times> u8" where
  "pic_line IRQline = (if IRQline < 8 then (PIC1_DATA, IRQline) else (PIC2_DATA, IRQline - 8))"

definition line_bit :: "u8 \<Rightarrow> u8" where
  "line_bit line = ucast (push_bit (unat line) (1 :: u32) AND 0xFF)"

text \<open>The shift is that of an int: a line of 32 or more has no defined result, one of 8 to 31 gives no bit of the mask.\<close>

definition PIC_IRQ_set_mask :: "machine \<Rightarrow> u8 \<Rightarrow> trace \<Rightarrow> trace" where
  "PIC_IRQ_set_mask hw IRQline tr =
     (case pic_line IRQline of (port, line) \<Rightarrow>
        (case inb hw port tr of (v, tr') \<Rightarrow> outb (v OR line_bit line) port tr'))"

definition PIC_IRQ_clear_mask :: "machine \<Rightarrow> u8 \<Rightarrow> trace \<Rightarrow> trace" where
  "PIC_IRQ_clear_mask hw IRQline tr =
     (case pic_line IRQline of (port, line) \<Rightarrow>
        (case inb hw port tr of (v, tr') \<Rightarrow> outb (v AND NOT (line_bit line)) port tr'))"

definition pic_get_irq_reg :: "machine \<Rightarrow> u8 \<Rightarrow> trace \<Rightarrow> u16 \<times> trace" where
  "pic_get_irq_reg hw ocw3 tr =
     (let tr = outb ocw3 PIC1_COMMAND tr;
          tr = outb ocw3 PIC2_COMMAND tr;
          (hi, tr) = inb hw PIC2_COMMAND tr;
          (lo, tr) = inb hw PIC1_COMMAND tr
      in (push_bit 8 (ucast hi) OR ucast lo, tr))"

definition PIC_get_irr :: "machine \<Rightarrow> trace \<Rightarrow> u16 \<times> trace" where
  "PIC_get_irr hw tr = pic_get_irq_reg hw PIC_READ_IRR tr"

definition PIC_get_isr :: "machine \<Rightarrow> trace \<Rightarrow> u16 \<times> trace" where
  "PIC_get_isr hw tr = pic_get_irq_reg hw PIC_READ_ISR tr"

definition PIC_EnableIRQ :: "machine \<Rightarrow> u32 \<Rightarrow> trace \<Rightarrow> trace" where
  "PIC_EnableIRQ hw irq_n tr = PIC_IRQ_clear_mask hw (ucast irq_n - ucast HW_INT_START) tr"

definition PIC_DisableIRQ :: "machine \<Rightarrow> u32 \<Rightarrow> trace \<Rightarrow> trace" where
  "PIC_DisableIRQ hw irq_n tr = PIC_IRQ_set_mask hw (ucast irq_n - ucast HW_INT_START) tr"

section \<open>Interval timer\<close>

definition PIT_CMD_PORT :: u16 where "PIT_CMD_PORT = 0x43"
definition PIT_DATA_CH0 :: u8 where "PIT_DATA_CH0 = 0x40"
definition PIT_CLOCK :: u32 where "PIT_CLOCK = 1193181"
definition PIT_INT_TERM_COUNT :: u8 where "PIT_INT_TERM_COUNT = 0"

definition PIT_set_mode :: "u8 \<Rightarrow> u8 \<Rightarrow> trace \<Rightarrow> trace" where
  "PIT_set_mode mode ch tr =
     outb (ucast (push_bit 10 (ucast ch :: u32) AND 0xFF) OR mode) PIT_CMD_PORT tr"

definition PIT_get_count :: "machine \<Rightarrow> u8 \<Rightarrow> trace \<Rightarrow> u32 \<times> trace" where
  "PIT_get_count hw ch tr =
     (let tr = outb ch PIT_CMD_PORT tr;
          (lo, tr) = inb hw (ucast ch) tr;
          (hi, tr) = inb hw (ucast ch) tr
      in (ucast lo OR (push_bit 8 (ucast hi) AND 0xFF), tr))"

definition PIT_set_count :: "u16 \<Rightarrow> u8 \<Rightarrow> trace \<Rightarrow> trace" where
  "PIT_set_count count ch tr =
     outb (ucast (drop_bit 8 (count AND 0xFF00))) (ucast ch) (outb (ucast (count AND 0xFF)) (ucast ch) tr)"

section \<open>The mask\<close>

definition mask_reg :: "u16 \<Rightarrow> trace \<Rightarrow> u8" where
  "mask_reg p tr = last (0 # written8 p tr)"

text \<open>Controllers whose mask registers read back.\<close>

definition pic_reads_back :: "machine \<Rightarrow> bool" where
  "pic_reads_back hw \<longleftrightarrow> (\<forall>tr p. p = PIC1_DATA \<or> p = PIC2_DATA \<longrightarrow> ucast (hw tr (Port8 p)) = mask_reg p tr)"

text \<open>Whether one of the sixteen lines is masked.\<close>

definition masked :: "nat \<Rightarrow> trace \<Rightarrow> bool" where
  "masked line tr = (if line < 8 then bit (mask_reg PIC1_DATA tr) line else bit (mask_reg PIC2_DATA tr) (line - 8))"

lemma mask_reg_append [simp]: "mask_reg p (tr @ [In8 q v]) = mask_reg p tr"
  "mask_reg p (tr @ [Out8 v q]) = (if q = p then v else mask_reg p tr)"
  "mask_reg p (tr @ [In8 r u, Out8 v q]) = (if q = p then v else mask_reg p tr)"
  by (simp_all add: mask_reg_def)

lemma bit_line_bit: "unat line < 8 \<Longrightarrow> bit (line_bit line) n \<longleftrightarrow> n = unat line"
proof -
  assume l: "unat line < 8"
  then have "unat line \<in> {0, 1, 2, 3, 4, 5, 6, 7}" by auto
  then have "line_bit line = push_bit (unat line) 1" unfolding line_bit_def by (elim insertE) simp_all
  then show ?thesis using l by (simp add: bit_exp_iff) (use l in auto)
qed

lemma pic_irq_line:
  assumes "irq_n = HW_INT_START + of_nat line" and "line < 16"
  shows "\<exists>p l. pic_line (ucast irq_n - ucast HW_INT_START) = (p, l) \<and>
    (if line < 8 then p = PIC1_DATA \<and> unat l = line else p = PIC2_DATA \<and> unat l = line - 8)"
proof -
  have "unat irq_n = 32 + line" using assms by (simp add: HW_INT_START_def unat_word_ariths unat_of_nat take_bit_nat_eq_self)
  then have "unat (ucast irq_n :: u8) = 32 + line" using assms(2) by (simp add: unsigned_ucast_eq take_bit_nat_eq_self)
  then have u: "unat (ucast irq_n - ucast HW_INT_START :: u8) = line" by (simp add: unat_sub_if_size HW_INT_START_def)
  then have "unat (ucast irq_n - ucast HW_INT_START - 8 :: u8) = line - 8" if "\<not> line < 8"
    using that by (simp add: unat_sub_if_size [of "ucast irq_n - ucast HW_INT_START" 8])
  with u show ?thesis by (auto simp: pic_line_def word_less_nat_alt)
qed

lemma pic_mask_effect:
  assumes "pic_reads_back hw" and "pic_line irq = (p, l)"
  shows "mask_reg q (PIC_IRQ_clear_mask hw irq tr) = (if q = p then mask_reg p tr AND NOT (line_bit l) else mask_reg q tr)"
    and "mask_reg q (PIC_IRQ_set_mask hw irq tr) = (if q = p then mask_reg p tr OR line_bit l else mask_reg q tr)"
proof -
  have "p = PIC1_DATA \<or> p = PIC2_DATA" using assms(2) by (auto simp: pic_line_def split: if_splits)
  then have rd: "ucast (hw tr (Port8 p)) = mask_reg p tr" using assms(1) unfolding pic_reads_back_def by blast
  show "mask_reg q (PIC_IRQ_clear_mask hw irq tr) = (if q = p then mask_reg p tr AND NOT (line_bit l) else mask_reg q tr)"
    "mask_reg q (PIC_IRQ_set_mask hw irq tr) = (if q = p then mask_reg p tr OR line_bit l else mask_reg q tr)"
    by (simp_all add: PIC_IRQ_clear_mask_def PIC_IRQ_set_mask_def assms(2) inb_def outb_def Let_def rd)
qed

lemma pic_mask_ops:
  assumes "pic_reads_back hw" and "irq_n = HW_INT_START + of_nat line" and "line < 16" and "j < 16"
  shows "masked j (PIC_EnableIRQ hw irq_n tr) \<longleftrightarrow> j \<noteq> line \<and> masked j tr"
    and "masked j (PIC_DisableIRQ hw irq_n tr) \<longleftrightarrow> j = line \<or> masked j tr"
proof -
  obtain p l where pl: "pic_line (ucast irq_n - ucast HW_INT_START) = (p, l)"
    and l: "if line < 8 then p = PIC1_DATA \<and> unat l = line else p = PIC2_DATA \<and> unat l = line - 8"
    using pic_irq_line [OF assms(2,3)] by blast
  have l8: "unat l < 8" using l assms(3) by (auto split: if_splits)
  have ne: "PIC1_DATA \<noteq> PIC2_DATA" "PIC2_DATA \<noteq> PIC1_DATA" by (simp_all add: pic_ports)
  show "masked j (PIC_EnableIRQ hw irq_n tr) \<longleftrightarrow> j \<noteq> line \<and> masked j tr"
    using l ne assms(3,4)
    by (auto simp: PIC_EnableIRQ_def masked_def pic_mask_effect [OF assms(1) pl] bit_and_iff bit_not_iff bit_line_bit [OF l8] split: if_splits)
  show "masked j (PIC_DisableIRQ hw irq_n tr) \<longleftrightarrow> j = line \<or> masked j tr"
    using l ne assms(3,4)
    by (auto simp: PIC_DisableIRQ_def masked_def pic_mask_effect [OF assms(1) pl] bit_or_iff bit_line_bit [OF l8] split: if_splits)
qed

lemma PIC_remap_keeps_mask:
  assumes "pic_reads_back hw"
  shows "masked j (snd (PIC_remap hw o1 o2 tr)) = masked j tr"
  using assms by (simp add: PIC_remap_def io_defs pic_reads_back_def masked_def mask_reg_def pic_ports)

text \<open>Every line is masked after PIC_disable.\<close>

lemma PIC_disable_masks: "j < 16 \<Longrightarrow> masked j (PIC_disable tr)"
proof -
  assume "j < 16"
  have "bit (0xFF :: u8) n" if "n < 8" for n
  proof -
    have "(0xFF :: u8) = -1" by simp
    then show ?thesis using that by (simp only: bit_minus_1_iff) simp
  qed
  with \<open>j < 16\<close> show ?thesis by (auto simp: masked_def PIC_disable_def outb_def mask_reg_def pic_ports)
qed

text \<open>The second controller gets its end of interrupt exactly for the lines behind it.\<close>

lemma PIC_SendEOI_ports:
  assumes "line < 16"
  shows "written8 PIC1_COMMAND (PIC_SendEOI 0x20 (HW_INT_START + of_nat line) []) = [PIC_EOI]"
    and "written8 PIC2_COMMAND (PIC_SendEOI 0x20 (HW_INT_START + of_nat line) []) = (if 8 \<le> line then [PIC_EOI] else [])"
proof -
  have u: "unat (HW_INT_START + of_nat line :: u32) = 32 + line"
    using assms by (simp add: HW_INT_START_def unat_word_ariths unat_of_nat take_bit_nat_eq_self)
  have "(HW_INT_START + of_nat line :: u32) AND 0xFF = HW_INT_START + of_nat line"
  proof -
    have "(HW_INT_START + of_nat line :: u32) AND mask 8 = HW_INT_START + of_nat line"
      using assms by (simp only: take_bit_eq_mask [symmetric]) (simp add: word_unat_eq_iff unsigned_take_bit_eq u take_bit_nat_eq_self)
    then show ?thesis by (simp add: mask_eq_exp_minus_1)
  qed
  then have e: "((HW_INT_START + of_nat line :: u32) AND 0xFF) - ucast (0x20 :: u16) = of_nat line" by (simp add: HW_INT_START_def)
  have le: "(of_nat line :: u32) \<le> 15" "(8 \<le> (of_nat line :: u32)) = (8 \<le> line)"
    using assms by (simp_all add: word_le_nat_alt unat_of_nat take_bit_nat_eq_self)
  show "written8 PIC1_COMMAND (PIC_SendEOI 0x20 (HW_INT_START + of_nat line) []) = [PIC_EOI]"
    "written8 PIC2_COMMAND (PIC_SendEOI 0x20 (HW_INT_START + of_nat line) []) = (if 8 \<le> line then [PIC_EOI] else [])"
    unfolding PIC_SendEOI_def e Let_def using le by (simp_all add: outb_def pic_ports)
qed

text \<open>The count read back is the low byte alone.\<close>

lemma PIT_get_count_low: "fst (PIT_get_count hw ch tr) < 0x100"
proof -
  have "push_bit 8 (ucast (x :: u8) :: u32) AND 0xFF = 0" for x
  proof -
    have "push_bit 8 (ucast x :: u32) AND mask 8 = 0" by (simp only: take_bit_eq_mask [symmetric] take_bit_push_bit) simp
    then show ?thesis by (simp add: mask_eq_exp_minus_1)
  qed
  moreover have "unat (ucast (x :: u8) :: u32) < 0x100" for x using unat_lt2p [of x] by simp
  ultimately show ?thesis by (simp add: PIT_get_count_def io_defs word_less_nat_alt)
qed

end
