(* ===== verification/IA32_Systime.thy ===== *)
theory IA32_Systime
  imports IA32_Pic IA32_Rtc Coresys_Timer
begin

text \<open>
  System time of systime.c: the tick handler with its drift compensation, on top of the kernel's
  tick callback, and the readers of the 64-bit counter. A reader runs against the interrupt: its
  32-bit accesses see the counter at successive instants.
\<close>

section \<open>The tick\<close>

record systime =
  SysTickFun_set :: bool
  SysTickCounter :: u64
  SysTickIncrement :: u32
  TickAdjustReload :: u32
  TickAdjustCurrent :: u32

definition SYS_TICK_CORRECTION :: "u32 \<Rightarrow> u32" where
  "SYS_TICK_CORRECTION f = (if PIT_CLOCK mod f = 0 then 0 else ((PIT_CLOCK div f) * f) div (PIT_CLOCK mod f))"

definition SysTick :: "systime \<times> os_data \<Rightarrow> systime \<times> os_data" where
  "SysTick s =
     (case s of (t, os) \<Rightarrow>
        let t = t\<lparr>TickAdjustCurrent := TickAdjustCurrent t - 1\<rparr>;
            t = (if TickAdjustCurrent t = 0 then t\<lparr>TickAdjustCurrent := TickAdjustReload t\<rparr>
                 else t\<lparr>SysTickCounter := SysTickCounter t + ucast (SysTickIncrement t)\<rparr>)
        in (t, if SysTickFun_set t then SysTickFun (SysTickCounter t) os else os))"

text \<open>The divisions by the frequency make frequency 0 no behaviour.\<close>

definition SetSysTimerFrequency :: "u32 \<Rightarrow> systime \<Rightarrow> trace \<Rightarrow> (systime \<times> trace) option" where
  "SetSysTimerFrequency f t tr =
     (if f = 0 then None
      else
        let t = t\<lparr>TickAdjustReload := SYS_TICK_CORRECTION f\<rparr>;
            t = t\<lparr>TickAdjustCurrent := TickAdjustReload t, SysTickIncrement := 1000 div f\<rparr>;
            tr = PIT_set_mode PIT_INT_TERM_COUNT PIT_DATA_CH0 tr
        in Some (t, PIT_set_count (ucast (PIT_CLOCK div f)) PIT_DATA_CH0 tr))"

definition SetSysTickFun :: "systime \<Rightarrow> systime" where
  "SetSysTickFun t = t\<lparr>SysTickFun_set := True\<rparr>"

text \<open>The time stamp comes from the real-time clock; the failure to read it is ignored.\<close>

definition GetSysTimestamp :: "machine \<Rightarrow> trace \<Rightarrow> (int \<times> trace) option" where
  "GetSysTimestamp hw tr = map_option snd (RTC_GetTimestamp hw tr)"

section \<open>Reading the counter\<close>

text \<open>
  \<open>c k\<close> is the counter at the instant of the \<open>k\<close>-th 32-bit access. A 64-bit load is two accesses;
  their order is the choice of the compiler, \<open>low_first\<close>.
\<close>

definition load64 :: "bool \<Rightarrow> (nat \<Rightarrow> u64) \<Rightarrow> nat \<Rightarrow> u64" where
  "load64 low_first c k =
     (if low_first then push_bit 32 (drop_bit 32 (c (Suc k))) OR take_bit 32 (c k)
      else push_bit 32 (drop_bit 32 (c k)) OR take_bit 32 (c (Suc k)))"

partial_function (option) ReadTimeCounter :: "bool \<Rightarrow> (nat \<Rightarrow> u64) \<Rightarrow> nat \<Rightarrow> (u64 \<times> nat) option" where
  "ReadTimeCounter lf c k =
     (let firstRead = load64 lf c k; secondRead = load64 lf c (k + 2) in
      if drop_bit 32 firstRead \<noteq> drop_bit 32 secondRead then ReadTimeCounter lf c (k + 4)
      else Some (secondRead, k + 4))"

definition GetSysTime_ms :: "bool \<Rightarrow> (nat \<Rightarrow> u64) \<Rightarrow> nat \<Rightarrow> (u64 \<times> nat) option" where
  "GetSysTime_ms lf c k = ReadTimeCounter lf c k"

partial_function (option) Wait_ms_loop :: "bool \<Rightarrow> (nat \<Rightarrow> u64) \<Rightarrow> u64 \<Rightarrow> u64 \<Rightarrow> nat \<Rightarrow> nat option" where
  "Wait_ms_loop lf c timeStart time_ms k =
     (case GetSysTime_ms lf c k of
        None \<Rightarrow> None
      | Some (timeNow, k') \<Rightarrow> if timeNow - timeStart < time_ms then Wait_ms_loop lf c timeStart time_ms k' else Some k')"

definition Wait_ms :: "bool \<Rightarrow> (nat \<Rightarrow> u64) \<Rightarrow> u64 \<Rightarrow> nat \<Rightarrow> nat option" where
  "Wait_ms lf c time_ms k =
     (case GetSysTime_ms lf c k of None \<Rightarrow> None | Some (timeStart, k') \<Rightarrow> Wait_ms_loop lf c timeStart time_ms k')"

section \<open>Counter and time stamp after any number of ticks\<close>

fun run_ticks :: "nat \<Rightarrow> systime \<times> os_data \<Rightarrow> systime \<times> os_data" where
  "run_ticks 0 s = s"
| "run_ticks (Suc n) s = SysTick (run_ticks n s)"

text \<open>The state after \<open>SetSysTimerFrequency 1000\<close> and the registration of the callback.\<close>

definition fresh_time :: "systime \<Rightarrow> bool" where
  "fresh_time t \<longleftrightarrow> SysTickFun_set t \<and> SysTickCounter t = 0 \<and> SysTickIncrement t = 1 \<and>
     TickAdjustReload t = 6591 \<and> TickAdjustCurrent t = 6591"

definition counter_at :: "nat \<Rightarrow> nat" where
  "counter_at n = n - n div 6591"

lemma fresh_time_1000:
  "SysTickCounter t = 0 \<Longrightarrow> SetSysTimerFrequency 1000 t tr = Some (t', tr') \<Longrightarrow> fresh_time (SetSysTickFun t')"
  by (auto simp: SetSysTimerFrequency_def fresh_time_def SetSysTickFun_def SYS_TICK_CORRECTION_def PIT_CLOCK_def Let_def)

lemma counter_Suc: "counter_at (Suc n) = (if Suc n mod 6591 = 0 then counter_at n else Suc (counter_at n))"
proof -
  have "n div 6591 \<le> n" by simp
  moreover have "Suc n div 6591 = (if Suc n mod 6591 = 0 then Suc (n div 6591) else n div 6591)" by (simp add: div_Suc)
  ultimately show ?thesis by (cases "Suc n mod 6591 = 0") (simp_all add: counter_at_def Suc_diff_le)
qed

text \<open>The exact deviation of the counter from the time that \<open>n\<close> periods of the interval timer take.\<close>

lemma counter_drift: "1193181 * counter_at n + 210 * (n div 6591) = 1193000 * n + 181 * (n mod 6591)"
proof -
  define q r where "q = n div 6591" and "r = n mod 6591"
  have n: "n = 6591 * q + r" by (simp add: q_def r_def)
  have "counter_at n = n - q" by (simp add: counter_at_def q_def)
  then have "counter_at n = 6590 * q + r" using n by simp
  then show ?thesis by (simp add: q_def [symmetric] r_def [symmetric]) (simp add: n)
qed

lemma SysTick_step:
  assumes "SysTickFun_set t" "SysTickIncrement t = 1" "TickAdjustReload t = 6591"
    and "unat (TickAdjustCurrent t) = 6591 - n mod 6591" and "SysTickCounter t = of_nat (counter_at n)"
  shows "SysTick (t, os) = (t\<lparr>SysTickCounter := of_nat (counter_at (Suc n)),
      TickAdjustCurrent := of_nat (6591 - Suc n mod 6591)\<rparr>, SysTickFun (of_nat (counter_at (Suc n))) os)"
proof -
  have m: "n mod 6591 < 6591" by simp
  then have "TickAdjustCurrent t \<noteq> 0" using assms(4) by auto
  then have u: "unat (TickAdjustCurrent t - 1) = 6590 - n mod 6591" using assms(4) by (simp add: unat_minus_one)
  then have z: "TickAdjustCurrent t - 1 = 0 \<longleftrightarrow> Suc n mod 6591 = 0" using m by (auto simp: unat_eq_0 [symmetric] mod_Suc)
  have w: "TickAdjustCurrent t - 1 = of_nat (6591 - Suc n mod 6591)" if "Suc n mod 6591 \<noteq> 0"
  proof -
    have "TickAdjustCurrent t - 1 = of_nat (6590 - n mod 6591)" using u by (metis of_nat_unat ucast_id)
    moreover have "6591 - Suc n mod 6591 = 6590 - n mod 6591" using that by (simp add: mod_Suc split: if_splits)
    ultimately show ?thesis by simp
  qed
  show ?thesis
    using assms z w by (auto simp: SysTick_def Let_def counter_Suc add.commute)
qed

text \<open>
  How often the time stamp has been incremented: once per second of the counter, and once more
  whenever the compensated tick leaves the counter at a multiple of 1000.
\<close>

definition stamps_at :: "nat \<Rightarrow> nat" where
  "stamps_at n = counter_at n div 1000 + n div 659100"

lemma compensated_at_second:
  fixes m :: nat
  assumes "6591 dvd m"
  shows "659100 dvd m \<longleftrightarrow> (m - m div 6591) mod 1000 = 0"
proof -
  obtain k where m: "m = 6591 * k" using assms by blast
  have "6591 * 100 dvd 6591 * k \<longleftrightarrow> 100 dvd k" by (rule dvd_times_left_cancel_iff) simp
  then have "659100 dvd m \<longleftrightarrow> 100 dvd k" by (simp add: m)
  moreover have "(m - m div 6591) mod 1000 = 0 \<longleftrightarrow> 100 dvd k"
  proof -
    have "10 * 100 dvd 10 * (659 * k) \<longleftrightarrow> 100 dvd 659 * k" by (rule dvd_times_left_cancel_iff) simp
    moreover have "coprime (100 :: nat) 659" by (simp add: coprime_iff_gcd_eq_1 gcd_non_0_nat)
    then have "100 dvd 659 * k \<longleftrightarrow> 100 dvd k" by (rule coprime_dvd_mult_right_iff)
    ultimately show ?thesis by (simp add: m mod_eq_0_iff_dvd)
  qed
  ultimately show ?thesis by simp
qed

lemma stamps_Suc: "stamps_at (Suc n) = stamps_at n + (if counter_at (Suc n) mod 1000 = 0 then 1 else 0)"
proof (cases "6591 dvd Suc n")
  case True
  then have c: "counter_at (Suc n) = counter_at n" by (simp add: counter_Suc mod_eq_0_iff_dvd)
  have "659100 dvd Suc n \<longleftrightarrow> counter_at (Suc n) mod 1000 = 0"
    using compensated_at_second [OF True] by (simp add: counter_at_def)
  then show ?thesis by (simp add: stamps_at_def c div_Suc [of n 659100] mod_eq_0_iff_dvd)
next
  case False
  then have c: "counter_at (Suc n) = Suc (counter_at n)" by (simp add: counter_Suc mod_eq_0_iff_dvd)
  have "6591 dvd (659100 :: nat)" using dvd_triv_left [of "6591 :: nat" 100] by simp
  then have "\<not> 659100 dvd Suc n" using False dvd_trans by blast
  then show ?thesis by (simp add: stamps_at_def c div_Suc mod_eq_0_iff_dvd)
qed

lemma run_ticks_state:
  assumes "fresh_time t" and "timers_inv os" and "n < 2 ^ 64"
  shows "\<exists>os'. run_ticks n (t, os) = (t\<lparr>SysTickCounter := of_nat (counter_at n),
      TickAdjustCurrent := of_nat (6591 - n mod 6591)\<rparr>, os') \<and>
    timers_inv os' \<and> timestamp os' = timestamp os + of_nat (stamps_at n)"
  using assms(3)
proof (induction n)
  case 0
  have "t\<lparr>SysTickCounter := 0, TickAdjustCurrent := 6591\<rparr> = t" using assms(1) by (simp add: fresh_time_def)
  then show ?case using assms(2) by (simp add: counter_at_def stamps_at_def)
next
  case (Suc n)
  define t1 where "t1 = t\<lparr>SysTickCounter := of_nat (counter_at n), TickAdjustCurrent := of_nat (6591 - n mod 6591)\<rparr>"
  obtain os1 where r: "run_ticks n (t, os) = (t1, os1)" and inv: "timers_inv os1"
    and ts: "timestamp os1 = timestamp os + of_nat (stamps_at n)"
    using Suc unfolding t1_def by auto
  have "unat (TickAdjustCurrent t1) = 6591 - n mod 6591"
    unfolding t1_def by (simp add: unat_of_nat take_bit_nat_eq_self del: of_nat_diff)
  then have st: "SysTick (t1, os1) = (t1\<lparr>SysTickCounter := of_nat (counter_at (Suc n)),
      TickAdjustCurrent := of_nat (6591 - Suc n mod 6591)\<rparr>, SysTickFun (of_nat (counter_at (Suc n))) os1)"
    using assms(1) by (intro SysTick_step) (simp_all add: t1_def fresh_time_def del: of_nat_diff)
  have "counter_at (Suc n) < 2 ^ 64" using Suc.prems by (simp add: counter_at_def)
  then have "of_nat (counter_at (Suc n)) mod (1000 :: u64) = 0 \<longleftrightarrow> counter_at (Suc n) mod 1000 = 0"
    using of_nat_mod_word [of "counter_at (Suc n)" 1000, where ?'a = 64] le_less_trans [OF mod_less_eq_dividend]
    by (auto simp: word_unat_eq_iff unat_of_nat take_bit_nat_eq_self)
  then have "timestamp (SysTickFun (of_nat (counter_at (Suc n))) os1) = timestamp os + of_nat (stamps_at (Suc n))"
    by (simp add: SysTickFun_effect(3) [OF inv] ts stamps_Suc)
  moreover have "t1\<lparr>SysTickCounter := of_nat (counter_at (Suc n)), TickAdjustCurrent := of_nat (6591 - Suc n mod 6591)\<rparr> =
      t\<lparr>SysTickCounter := of_nat (counter_at (Suc n)), TickAdjustCurrent := of_nat (6591 - Suc n mod 6591)\<rparr>"
    by (simp add: t1_def)
  ultimately show ?case using SysTickFun_inv [OF inv] by (simp add: r st)
qed

section \<open>Readers\<close>

lemma load64_low_first:
  assumes "drop_bit 32 (c (Suc k)) = drop_bit 32 (c k)"
  shows "load64 True c k = c k"
  unfolding load64_def assms
  by (rule bit_eqI) (auto simp: bit_or_iff bit_push_bit_iff bit_drop_bit_eq bit_take_bit_iff)

lemma drop_load64: "drop_bit 32 (load64 True c k) = drop_bit 32 (c (Suc k))"
  by (rule bit_eqI) (auto simp: load64_def bit_drop_bit_eq bit_or_iff bit_push_bit_iff bit_take_bit_iff dest: bit_imp_le_length)

lemma drop_mono: "a \<le> b \<Longrightarrow> drop_bit 32 a \<le> drop_bit 32 b" for a b :: u64
  by (simp add: word_le_nat_alt drop_bit_eq_div unat_div div_le_mono)

lemma ReadTimeCounter_exact:
  assumes "mono c"
  shows "\<exists>v k'. ReadTimeCounter True c k = Some (v, k') \<and> k < k' \<and> (\<exists>j. k \<le> j \<and> j < k' \<and> v = c j)"
proof (induction "2 ^ 32 - unat (drop_bit 32 (c (k + 1)))" arbitrary: k rule: less_induct)
  case less
  have mono: "drop_bit 32 (c i) \<le> drop_bit 32 (c j)" if "i \<le> j" for i j
    using assms that by (auto intro!: drop_mono simp: mono_def)
  have e: "k + 3 = Suc (k + 2)" "k + 1 = Suc k" by simp_all
  show ?case
  proof (cases "drop_bit 32 (c (k + 1)) = drop_bit 32 (c (k + 3))")
    case True
    have "drop_bit 32 (c (Suc (k + 2))) = drop_bit 32 (c (k + 2))"
      using True mono [of "k + 1" "k + 2"] mono [of "k + 2" "k + 3"] by (simp add: e)
    then have "load64 True c (k + 2) = c (k + 2)" by (rule load64_low_first)
    moreover have "drop_bit 32 (load64 True c k) = drop_bit 32 (load64 True c (k + 2))"
      using True by (simp add: drop_load64 e)
    ultimately have "ReadTimeCounter True c k = Some (c (k + 2), k + 4)"
      by (subst ReadTimeCounter.simps) simp
    moreover have "\<exists>j. k \<le> j \<and> j < k + 4 \<and> c (k + 2) = c j" by (rule exI [of _ "k + 2"]) simp
    ultimately show ?thesis by (intro exI [of _ "c (k + 2)"] exI [of _ "k + 4"]) simp
  next
    case False
    have "drop_bit 32 (load64 True c k) \<noteq> drop_bit 32 (load64 True c (k + 2))"
      using False by (simp add: drop_load64 e)
    then have r: "ReadTimeCounter True c k = ReadTimeCounter True c (k + 4)"
      by (subst ReadTimeCounter.simps) simp
    have "drop_bit 32 (c (k + 1)) < drop_bit 32 (c (k + 3))" using False mono [of "k + 1" "k + 3"] by simp
    also have "\<dots> \<le> drop_bit 32 (c (k + 4 + 1))" by (rule mono) simp
    finally have "unat (drop_bit 32 (c (k + 1))) < unat (drop_bit 32 (c (k + 4 + 1)))" by (simp add: word_less_nat_alt)
    moreover have "unat (drop_bit 32 (c (k + 4 + 1))) < 2 ^ 32"
      using unat_lt2p [of "c (k + 4 + 1)"] by (simp add: drop_bit_eq_div unat_div less_mult_imp_div_less)
    ultimately have "2 ^ 32 - unat (drop_bit 32 (c (k + 4 + 1))) < 2 ^ 32 - unat (drop_bit 32 (c (k + 1)))"
      by (intro diff_less_mono2) simp_all
    from less [OF this] obtain v k' j where "ReadTimeCounter True c (k + 4) = Some (v, k')" "k + 4 < k'"
      "k + 4 \<le> j" "j < k'" "v = c j" by blast
    then show ?thesis by (intro exI [of _ v] exI [of _ k']) (auto simp: r intro!: exI [of _ j])
  qed
qed

text \<open>With the high half first, a carry between the two accesses gives a time long past.\<close>

lemma ReadTimeCounter_torn:
  "ReadTimeCounter False (\<lambda>k. if k \<le> 2 then 0xFFFFFFFF else 0x100000000) 0 = Some (0, 4)"
  by (subst ReadTimeCounter.simps) (simp add: load64_def)

end
