(* ===== verification/IA32_Acpi.thy ===== *)
theory IA32_Acpi
  imports Libk_Mem
begin

text \<open>
  The ACPI tables (acpi.c): search of the root pointer and of a table, and the parser of the
  interrupt controller table (MADT). The tables are read from the flat memory; pointers into them
  are addresses. The parser collects pointers to the entries in four arrays of fixed length: a
  store past the end of one of them is the result \<open>None\<close>, as is a parse that never ends.
\<close>

section \<open>Tables\<close>

definition label :: "string \<Rightarrow> bytes" where
  "label s i = (if unat i < length s then of_char (s ! unat i) else 0)"

definition RSDP_LABEL :: bytes where "RSDP_LABEL = label ''RSD PTR ''"
definition XSDT_LABEL :: bytes where "XSDT_LABEL = label ''XSDT''"
definition MADT_LABEL :: bytes where "MADT_LABEL = label ''APIC''"
definition ACPI_SIGN_LEN :: u32 where "ACPI_SIGN_LEN = 4"
definition RSDP_SIGN_LEN :: u32 where "RSDP_SIGN_LEN = 8"
definition MAX_CPU_NUM :: nat where "MAX_CPU_NUM = 256"
definition MAX_INT_NUM :: nat where "MAX_INT_NUM = 256"
definition MAX_NMI_NUM :: nat where "MAX_NMI_NUM = 16"
definition MAX_IOAPIC_NUM :: nat where "MAX_IOAPIC_NUM = 16"
definition MADT_ENT_LAPIC :: u8 where "MADT_ENT_LAPIC = 0"
definition MADT_ENT_IOAPIC :: u8 where "MADT_ENT_IOAPIC = 1"
definition MADT_ENT_IOAPIC_INT_OVER :: u8 where "MADT_ENT_IOAPIC_INT_OVER = 2"
definition MADT_ENT_LAPIC_NMI_SRC :: u8 where "MADT_ENT_LAPIC_NMI_SRC = 4"
definition MADT_ENT_LAPIC_ADDR_OVER :: u8 where "MADT_ENT_LAPIC_ADDR_OVER = 5"
definition MADT_PROC_ENABLED :: u32 where "MADT_PROC_ENABLED = 1"
definition MADT_ONLINE_CAPABLE :: u32 where "MADT_ONLINE_CAPABLE = 2"

text \<open>Sizes and offsets of the packed structures.\<close>

definition sizeof_acpi_header :: u32 where "sizeof_acpi_header = 36"
definition acpi_Length :: "bytes \<Rightarrow> u32 \<Rightarrow> u32" where "acpi_Length m hdr = load32 m (hdr + 4)"
definition sizeof_RSDP :: u32 where "sizeof_RSDP = 20"
definition RsdtAddress :: "bytes \<Rightarrow> u32 \<Rightarrow> u32" where "RsdtAddress m rsdp = load32 m (rsdp + 16)"
definition sizeof_MADT_LAPIC_header :: u32 where "sizeof_MADT_LAPIC_header = 8"
definition sizeof_MADT_var_record :: u32 where "sizeof_MADT_var_record = 2"
definition sizeof_MADT_IOAPIC_NMI_Src :: u32 where "sizeof_MADT_IOAPIC_NMI_Src = 7"
definition EntryType :: "bytes \<Rightarrow> u32 \<Rightarrow> u8" where "EntryType m var_rec = m var_rec"
definition EntryLength :: "bytes \<Rightarrow> u32 \<Rightarrow> u8" where "EntryLength m var_rec = m (var_rec + 1)"
definition LAPIC_Flags :: "bytes \<Rightarrow> u32 \<Rightarrow> u32" where "LAPIC_Flags m lapic = load32 m (lapic + 2)"
definition Over_LAPIC_Addr :: "bytes \<Rightarrow> u32 \<Rightarrow> u32" where "Over_LAPIC_Addr m over = load32 m (over + 2)"

section \<open>Searching\<close>

definition acpi_tab_checksum :: "bytes \<Rightarrow> u32 \<Rightarrow> u32 \<Rightarrow> bool" where
  "acpi_tab_checksum m tab_addr sz \<longleftrightarrow> for_upto tab_addr (tab_addr + sz) (\<lambda>index sum. sum + m index) 0 = (0 :: u8)"

definition acpi_get_RSDP_ptr :: "bytes \<Rightarrow> u32 \<Rightarrow> u32 \<Rightarrow> u32" where
  "acpi_get_RSDP_ptr m addrStart addrLimit =
     (case for_ret addrStart addrLimit
        (\<lambda>addr_index _. if memcmp (view m addr_index) RSDP_LABEL RSDP_SIGN_LEN = 0 \<and> acpi_tab_checksum m addr_index sizeof_RSDP
           then Inl addr_index else Inr ()) ()
      of Inl rsdp_ptr \<Rightarrow> rsdp_ptr | Inr _ \<Rightarrow> 0)"

text \<open>
  The number of tables is below 2^30, whatever the length field: the signed counter of the loop
  never overflows. The entries of an XSDT have 64 bits, of which the conversion to a pointer keeps
  the lower half.
\<close>

definition acpi_find_table :: "bytes \<Rightarrow> u32 \<Rightarrow> bytes \<Rightarrow> u32" where
  "acpi_find_table m SDTStart tableSignature =
     (let isXSDT = (memcmp (view m SDTStart) XSDT_LABEL ACPI_SIGN_LEN = 0);
          entry_size = (if isXSDT then 8 else 4);
          tabsNum = (acpi_Length m SDTStart - sizeof_acpi_header) div entry_size
      in case for_ret 0 tabsNum
           (\<lambda>i _. let retHdr = load32 m (SDTStart + sizeof_acpi_header + entry_size * i)
                  in if memcmp (view m retHdr) tableSignature ACPI_SIGN_LEN = 0 then Inl retHdr else Inr ()) ()
         of Inl retHdr \<Rightarrow> retHdr | Inr _ \<Rightarrow> 0)"

section \<open>The interrupt controller table\<close>

record MADT_info =
  LAPICs :: "u32 list"
  LAPICs_Num :: u32
  LAPIC_ptr :: u32
  IntSrcOverride :: "u32 list"
  IntSrcOverride_Num :: u32
  NMI_Source :: "u32 list"
  NMI_Num :: u32
  IOAPICs :: "u32 list"
  IOAPIC_Num :: u32

definition clear_info :: MADT_info where
  "clear_info = \<lparr>LAPICs = replicate MAX_CPU_NUM 0, LAPICs_Num = 0, LAPIC_ptr = 0,
     IntSrcOverride = replicate MAX_INT_NUM 0, IntSrcOverride_Num = 0, NMI_Source = replicate MAX_NMI_NUM 0, NMI_Num = 0,
     IOAPICs = replicate MAX_IOAPIC_NUM 0, IOAPIC_Num = 0\<rparr>"

definition set_slot :: "u32 list \<Rightarrow> u32 \<Rightarrow> u32 \<Rightarrow> u32 list option" where
  "set_slot xs i v = (if unat i < length xs then Some (xs[unat i := v]) else None)"

definition MADT_entry :: "bytes \<Rightarrow> u32 \<Rightarrow> MADT_info \<Rightarrow> MADT_info option" where
  "MADT_entry m ptr info =
     (let entry = ptr + sizeof_MADT_var_record in
      if EntryType m ptr = MADT_ENT_LAPIC then
        map_option (\<lambda>xs. let info = info\<lparr>LAPICs := xs\<rparr> in
            if LAPIC_Flags m entry AND (MADT_PROC_ENABLED OR MADT_ONLINE_CAPABLE) \<noteq> 0
            then info\<lparr>LAPICs_Num := LAPICs_Num info + 1\<rparr> else info)
          (set_slot (LAPICs info) (LAPICs_Num info) entry)
      else if EntryType m ptr = MADT_ENT_IOAPIC then
        map_option (\<lambda>xs. info\<lparr>IOAPICs := xs, IOAPIC_Num := IOAPIC_Num info + 1\<rparr>)
          (set_slot (IOAPICs info) (IOAPIC_Num info) entry)
      else if EntryType m ptr = MADT_ENT_IOAPIC_INT_OVER then
        map_option (\<lambda>xs. info\<lparr>IntSrcOverride := xs, IntSrcOverride_Num := IntSrcOverride_Num info + 1\<rparr>)
          (set_slot (IntSrcOverride info) (IntSrcOverride_Num info) entry)
      else if EntryType m ptr = MADT_ENT_LAPIC_ADDR_OVER then Some (info\<lparr>LAPIC_ptr := Over_LAPIC_Addr m entry\<rparr>)
      else if EntryType m ptr = MADT_ENT_LAPIC_NMI_SRC then
        map_option (\<lambda>xs. info\<lparr>NMI_Source := xs, NMI_Num := NMI_Num info + 1\<rparr>)
          (set_slot (NMI_Source info) (NMI_Num info) (ptr + sizeof_MADT_IOAPIC_NMI_Src))
      else Some info)"

partial_function (option) MADT_loop :: "bytes \<Rightarrow> u32 \<Rightarrow> u32 \<Rightarrow> MADT_info \<Rightarrow> MADT_info option" where
  "MADT_loop m ptr ptr_end info =
     (if ptr < ptr_end then
        (case MADT_entry m ptr info of
           None \<Rightarrow> None
         | Some info' \<Rightarrow> MADT_loop m (ptr + ucast (EntryLength m ptr)) ptr_end info')
      else Some info)"

definition acpi_get_MADT_info :: "bytes \<Rightarrow> u32 \<Rightarrow> (bool \<times> MADT_info) option" where
  "acpi_get_MADT_info m RSDP_ptr =
     (if RSDP_ptr \<noteq> 0 \<and> RsdtAddress m RSDP_ptr \<noteq> 0 then
        let MADT_header = acpi_find_table m (RsdtAddress m RSDP_ptr) MADT_LABEL in
        if MADT_header \<noteq> 0 \<and> acpi_tab_checksum m MADT_header (acpi_Length m MADT_header) then
          map_option (\<lambda>info. (True, info))
            (MADT_loop m (MADT_header + sizeof_acpi_header + sizeof_MADT_LAPIC_header)
               (MADT_header + acpi_Length m MADT_header)
               (clear_info\<lparr>LAPIC_ptr := load32 m (MADT_header + sizeof_acpi_header)\<rparr>))
        else Some (False, clear_info)
      else Some (False, clear_info))"

section \<open>Sequences of entries\<close>

text \<open>The entries from \<open>p\<close> to \<open>e\<close>: each ends where the next begins.\<close>

fun entries :: "bytes \<Rightarrow> u32 \<Rightarrow> u32 \<Rightarrow> u32 list \<Rightarrow> bool" where
  "entries m p e [] \<longleftrightarrow> p = e"
| "entries m p e (q # qs) \<longleftrightarrow> q = p \<and> p < e \<and> entries m (p + ucast (EntryLength m p)) e qs"

definition of_type :: "bytes \<Rightarrow> u8 \<Rightarrow> u32 list \<Rightarrow> u32 list" where
  "of_type m t qs = filter (\<lambda>q. EntryType m q = t) qs"

definition usable :: "bytes \<Rightarrow> u32 \<Rightarrow> bool" where
  "usable m q \<longleftrightarrow> LAPIC_Flags m (q + 2) AND 3 \<noteq> 0"

definition lapic_address :: "bytes \<Rightarrow> u32 list \<Rightarrow> u32 \<Rightarrow> u32" where
  "lapic_address m qs a = fold (\<lambda>q _. Over_LAPIC_Addr m (q + 2)) (of_type m MADT_ENT_LAPIC_ADDR_OVER qs) a"

text \<open>The first \<open>n\<close> elements of an array are the given list.\<close>

definition holds :: "u32 list \<Rightarrow> u32 \<Rightarrow> nat \<Rightarrow> u32 list \<Rightarrow> bool" where
  "holds xs n cap ys \<longleftrightarrow> length xs = cap \<and> cap < 2 ^ 32 \<and> length ys \<le> cap \<and> n = of_nat (length ys) \<and> take (length ys) xs = ys"

definition summarises :: "bytes \<Rightarrow> u32 \<Rightarrow> u32 list \<Rightarrow> MADT_info \<Rightarrow> bool" where
  "summarises m a qs info \<longleftrightarrow>
     holds (LAPICs info) (LAPICs_Num info) MAX_CPU_NUM (map (\<lambda>q. q + 2) (filter (usable m) (of_type m MADT_ENT_LAPIC qs))) \<and>
     holds (IOAPICs info) (IOAPIC_Num info) MAX_IOAPIC_NUM (map (\<lambda>q. q + 2) (of_type m MADT_ENT_IOAPIC qs)) \<and>
     holds (IntSrcOverride info) (IntSrcOverride_Num info) MAX_INT_NUM (map (\<lambda>q. q + 2) (of_type m MADT_ENT_IOAPIC_INT_OVER qs)) \<and>
     holds (NMI_Source info) (NMI_Num info) MAX_NMI_NUM (map (\<lambda>q. q + 7) (of_type m MADT_ENT_LAPIC_NMI_SRC qs)) \<and>
     LAPIC_ptr info = lapic_address m qs a"

text \<open>The arrays are long enough for the entries.\<close>

definition madt_fits :: "bytes \<Rightarrow> u32 list \<Rightarrow> bool" where
  "madt_fits m qs \<longleftrightarrow> length (of_type m MADT_ENT_LAPIC qs) \<le> MAX_CPU_NUM \<and> length (of_type m MADT_ENT_IOAPIC qs) \<le> MAX_IOAPIC_NUM \<and>
     length (of_type m MADT_ENT_IOAPIC_INT_OVER qs) \<le> MAX_INT_NUM \<and> length (of_type m MADT_ENT_LAPIC_NMI_SRC qs) \<le> MAX_NMI_NUM"

lemma holds_set_slot:
  assumes "holds xs n cap ys" and "length ys < cap"
  obtains xs' where "set_slot xs n v = Some xs'" "holds xs' (n + 1) cap (ys @ [v])" "holds xs' n cap ys"
proof -
  have n: "unat n = length ys" using assms by (simp add: holds_def unat_of_nat take_bit_nat_eq_self)
  have t: "take (length ys) xs = ys" and l: "length xs = cap" using assms(1) by (simp_all add: holds_def)
  have "take (Suc (length ys)) (xs[length ys := v]) = ys @ [v]"
    using assms(2) t l by (simp add: take_Suc_conv_app_nth)
  with that [of "xs[unat n := v]"] assms n show thesis by (simp add: holds_def set_slot_def)
qed

lemma of_type_snoc: "of_type m t (qs @ [q]) = of_type m t qs @ (if EntryType m q = t then [q] else [])"
  by (simp add: of_type_def)

lemmas madt_types = MADT_ENT_LAPIC_def MADT_ENT_IOAPIC_def MADT_ENT_IOAPIC_INT_OVER_def MADT_ENT_LAPIC_NMI_SRC_def
  MADT_ENT_LAPIC_ADDR_OVER_def
lemmas madt_sizes = sizeof_MADT_var_record_def sizeof_MADT_IOAPIC_NMI_Src_def MADT_PROC_ENABLED_def MADT_ONLINE_CAPABLE_def

lemma MADT_entry_summarises:
  assumes "summarises m a qs info" and "madt_fits m (qs @ [q])"
  shows "\<exists>info'. MADT_entry m q info = Some info' \<and> summarises m a (qs @ [q]) info'"
proof -
  note s = assms(1) [unfolded summarises_def] and f = assms(2) [unfolded madt_fits_def]
  consider (lapic) "EntryType m q = MADT_ENT_LAPIC" | (ioapic) "EntryType m q = MADT_ENT_IOAPIC"
    | (over) "EntryType m q = MADT_ENT_IOAPIC_INT_OVER" | (nmi) "EntryType m q = MADT_ENT_LAPIC_NMI_SRC"
    | (addr) "EntryType m q = MADT_ENT_LAPIC_ADDR_OVER"
    | (other) "EntryType m q \<notin> {MADT_ENT_LAPIC, MADT_ENT_IOAPIC, MADT_ENT_IOAPIC_INT_OVER, MADT_ENT_LAPIC_NMI_SRC, MADT_ENT_LAPIC_ADDR_OVER}"
    by auto
  then show ?thesis
  proof cases
    case lapic
    have "length (filter (usable m) (of_type m MADT_ENT_LAPIC qs)) < MAX_CPU_NUM"
      using conjunct1 [OF f] lapic le_less_trans [OF length_filter_le, of "of_type m MADT_ENT_LAPIC qs" MAX_CPU_NUM "usable m"]
      by (simp add: of_type_snoc)
    then obtain xs where xs: "set_slot (LAPICs info) (LAPICs_Num info) (q + 2) = Some xs"
      "holds xs (LAPICs_Num info + 1) MAX_CPU_NUM (map (\<lambda>q. q + 2) (filter (usable m) (of_type m MADT_ENT_LAPIC qs)) @ [q + 2])"
      "holds xs (LAPICs_Num info) MAX_CPU_NUM (map (\<lambda>q. q + 2) (filter (usable m) (of_type m MADT_ENT_LAPIC qs)))"
      using holds_set_slot [of "LAPICs info" "LAPICs_Num info" MAX_CPU_NUM "map (\<lambda>q. q + 2) (filter (usable m) (of_type m MADT_ENT_LAPIC qs))" "q + 2"] s by auto
    then show ?thesis
      using lapic s by (simp add: MADT_entry_def Let_def madt_sizes usable_def summarises_def of_type_snoc lapic_address_def madt_types)
  next
    case ioapic
    obtain xs where xs: "set_slot (IOAPICs info) (IOAPIC_Num info) (q + 2) = Some xs"
      "holds xs (IOAPIC_Num info + 1) MAX_IOAPIC_NUM (map (\<lambda>q. q + 2) (of_type m MADT_ENT_IOAPIC qs) @ [q + 2])"
      using holds_set_slot [of "IOAPICs info" "IOAPIC_Num info" MAX_IOAPIC_NUM "map (\<lambda>q. q + 2) (of_type m MADT_ENT_IOAPIC qs)" "q + 2"]
        s f ioapic by (auto simp: of_type_snoc)
    then show ?thesis
      using ioapic s by (simp add: MADT_entry_def madt_sizes summarises_def of_type_snoc lapic_address_def madt_types)
  next
    case over
    obtain xs where xs: "set_slot (IntSrcOverride info) (IntSrcOverride_Num info) (q + 2) = Some xs"
      "holds xs (IntSrcOverride_Num info + 1) MAX_INT_NUM (map (\<lambda>q. q + 2) (of_type m MADT_ENT_IOAPIC_INT_OVER qs) @ [q + 2])"
      using holds_set_slot [of "IntSrcOverride info" "IntSrcOverride_Num info" MAX_INT_NUM "map (\<lambda>q. q + 2) (of_type m MADT_ENT_IOAPIC_INT_OVER qs)" "q + 2"]
        s f over by (auto simp: of_type_snoc)
    then show ?thesis
      using over s by (simp add: MADT_entry_def madt_sizes summarises_def of_type_snoc lapic_address_def madt_types)
  next
    case nmi
    obtain xs where xs: "set_slot (NMI_Source info) (NMI_Num info) (q + 7) = Some xs"
      "holds xs (NMI_Num info + 1) MAX_NMI_NUM (map (\<lambda>q. q + 7) (of_type m MADT_ENT_LAPIC_NMI_SRC qs) @ [q + 7])"
      using holds_set_slot [of "NMI_Source info" "NMI_Num info" MAX_NMI_NUM "map (\<lambda>q. q + 7) (of_type m MADT_ENT_LAPIC_NMI_SRC qs)" "q + 7"]
        s f nmi by (auto simp: of_type_snoc)
    then show ?thesis
      using nmi s by (simp add: MADT_entry_def madt_sizes summarises_def of_type_snoc lapic_address_def madt_types)
  next
    case addr
    then show ?thesis
      using s by (simp add: MADT_entry_def madt_sizes summarises_def of_type_snoc lapic_address_def madt_types)
  next
    case other
    then show ?thesis
      using s by (simp add: MADT_entry_def madt_sizes summarises_def of_type_snoc lapic_address_def)
  qed
qed

lemma madt_fits_append: "madt_fits m (qs @ rs) \<Longrightarrow> madt_fits m qs"
  by (simp add: madt_fits_def of_type_def)

lemma MADT_loop_summarises:
  "entries m p e qs \<Longrightarrow> summarises m a seen info \<Longrightarrow> madt_fits m (seen @ qs) \<Longrightarrow>
   \<exists>info'. MADT_loop m p e info = Some info' \<and> summarises m a (seen @ qs) info'"
proof (induction qs arbitrary: p seen info)
  case Nil
  then show ?case by (subst MADT_loop.simps) simp
next
  case (Cons q qs)
  have "madt_fits m (seen @ [q])" using madt_fits_append [of m "seen @ [q]" qs] Cons.prems(3) by simp
  then obtain info' where i: "MADT_entry m q info = Some info'" "summarises m a (seen @ [q]) info'"
    using MADT_entry_summarises [OF Cons.prems(2)] by blast
  then obtain info'' where "MADT_loop m (p + ucast (EntryLength m p)) e info' = Some info''" "summarises m a (seen @ q # qs) info''"
    using Cons.IH [of "p + ucast (EntryLength m p)" "seen @ [q]" info'] Cons.prems by auto
  with i Cons.prems show ?case by (subst MADT_loop.simps) simp
qed

lemma clear_summarises: "summarises m a [] (clear_info\<lparr>LAPIC_ptr := a\<rparr>)"
  by (simp add: summarises_def clear_info_def holds_def of_type_def lapic_address_def MAX_CPU_NUM_def MAX_INT_NUM_def
      MAX_NMI_NUM_def MAX_IOAPIC_NUM_def)

text \<open>An entry of length 0 stops the progress of the loop.\<close>

lemma MADT_loop_stuck:
  assumes "p < e" and "EntryLength m p = 0"
  shows "MADT_loop m p e info = None"
proof -
  have "MADT_loop m p e info = Some y \<Longrightarrow> p < e \<Longrightarrow> EntryLength m p = 0 \<Longrightarrow> False" for info y
    by (rule MADT_loop.raw_induct [where P = "\<lambda>m p e info r. p < e \<longrightarrow> EntryLength m p = 0 \<longrightarrow> False", rotated, THEN mp, THEN mp])
      (auto split: if_splits option.splits)
  with assms show ?thesis by (cases "MADT_loop m p e info") auto
qed


text \<open>A table whose entries fit is parsed completely.\<close>

lemma MADT_info_summarises:
  assumes "rsdp \<noteq> 0" "RsdtAddress m rsdp \<noteq> 0" and "acpi_find_table m (RsdtAddress m rsdp) MADT_LABEL = h" "h \<noteq> 0"
    and "acpi_tab_checksum m h (acpi_Length m h)" and "entries m (h + 44) (h + acpi_Length m h) qs" and "madt_fits m qs"
  shows "\<exists>info. acpi_get_MADT_info m rsdp = Some (True, info) \<and> summarises m (load32 m (h + 36)) qs info"
  using MADT_loop_summarises [OF assms(6) clear_summarises, of "load32 m (h + 36)"] assms
  by (auto simp: acpi_get_MADT_info_def sizeof_acpi_header_def sizeof_MADT_LAPIC_header_def add.assoc)

section \<open>Searches\<close>

text \<open>The sum of the bytes of a table.\<close>

lemma fold_sum: "fold (\<lambda>k sum. sum + f (of_nat k)) [a..<a + n] s = s + (\<Sum>i<n. f (of_nat a + of_nat i))"
  for f :: "u32 \<Rightarrow> u8"
  by (induction n) (simp_all add: add.assoc)

lemma checksum_sum:
  assumes "unat p + unat n < 2 ^ 32"
  shows "acpi_tab_checksum m p n \<longleftrightarrow> (\<Sum>i<unat n. unat (m (p + of_nat i))) mod 256 = 0"
proof -
  have "unat (p + n) = unat p + unat n" using assms by (intro unat_add_no_wrap) simp
  then have "for_upto p (p + n) (\<lambda>index sum. sum + m index) 0 = (\<Sum>i<unat n. m (p + of_nat i))"
    by (simp add: for_upto_fold fold_sum)
  also have "\<dots> = of_nat (\<Sum>i<unat n. unat (m (p + of_nat i)))" by simp
  finally show ?thesis
    unfolding acpi_tab_checksum_def by (simp add: word_of_nat_eq_0_iff dvd_eq_mod_eq_0 del: of_nat_sum)
qed

text \<open>The root pointer found is the first one with label and checksum.\<close>

definition is_rsdp :: "bytes \<Rightarrow> u32 \<Rightarrow> bool" where
  "is_rsdp m a \<longleftrightarrow> (\<forall>i<8. m (a + i) = RSDP_LABEL i) \<and> acpi_tab_checksum m a sizeof_RSDP"

lemma RSDP_first:
  assumes "0 < start"
  shows "acpi_get_RSDP_ptr m start limit =
    (if \<exists>a. start \<le> a \<and> a < limit \<and> is_rsdp m a
     then of_nat (LEAST k. unat start \<le> k \<and> is_rsdp m (of_nat k)) else 0)"
proof -
  have body: "(if memcmp (view m a) RSDP_LABEL RSDP_SIGN_LEN = 0 \<and> acpi_tab_checksum m a sizeof_RSDP then Inl a else Inr ()) =
      (if is_rsdp m a then Inl a else Inr ())" for a
    by (simp add: is_rsdp_def memcmp_eq_0_iff view_def RSDP_SIGN_LEN_def)
  have ex: "(\<exists>k\<in>{unat start..<unat limit}. is_rsdp m (of_nat k)) \<longleftrightarrow> (\<exists>a. start \<le> a \<and> a < limit \<and> is_rsdp m a)"
  proof
    assume "\<exists>k\<in>{unat start..<unat limit}. is_rsdp m (of_nat k)"
    then obtain k where k: "unat start \<le> k" "k < unat limit" "is_rsdp m (of_nat k)" by auto
    then have "unat (of_nat k :: u32) = k" by (simp add: of_nat_unat_less)
    with k show "\<exists>a. start \<le> a \<and> a < limit \<and> is_rsdp m a"
      by (intro exI [of _ "of_nat k"]) (simp add: word_le_nat_alt word_less_nat_alt)
  next
    assume "\<exists>a. start \<le> a \<and> a < limit \<and> is_rsdp m a"
    then obtain a where "start \<le> a" "a < limit" "is_rsdp m a" by auto
    then show "\<exists>k\<in>{unat start..<unat limit}. is_rsdp m (of_nat k)"
      by (intro bexI [of _ "unat a"]) (simp_all add: word_le_nat_alt word_less_nat_alt)
  qed
  show ?thesis
    unfolding acpi_get_RSDP_ptr_def body ex [symmetric]
    by (subst for_ret_search [where P = "is_rsdp m" and f = "\<lambda>k. k"]) auto
qed

end
