(* ===== verification/IA32_Apic.thy ===== *)
theory IA32_Apic
  imports IA32_Io
begin

text \<open>
  The local and the I/O interrupt controllers (apic.c), the model-specific registers they use
  (cpu.c) and the inter-processor interrupts (smp.c). The address of the local controller is
  \<open>va\<close>, 0 as long as LAPIC_VirtualAddr is NULL.
\<close>

section \<open>Registers and bit fields\<close>

definition APIC_BASE_MSR :: u32 where "APIC_BASE_MSR = 0x1B"
definition APIC_BASE_MSR_BSP :: u32 where "APIC_BASE_MSR_BSP = 0x100"
definition APIC_BASE_MSR_ENABLE :: u32 where "APIC_BASE_MSR_ENABLE = 0x800"
definition APIC_ENABLE_BIT :: u32 where "APIC_ENABLE_BIT = 0x100"
definition LAPIC_EOI_REG :: u32 where "LAPIC_EOI_REG = 0x0B0"
definition LAPIC_SPURIOUS_INT_REG :: u32 where "LAPIC_SPURIOUS_INT_REG = 0x0F0"
definition LAPIC_ERR_STATUS_REG :: u32 where "LAPIC_ERR_STATUS_REG = 0x280"
definition LAPIC_ICR_LOW :: u32 where "LAPIC_ICR_LOW = 0x300"
definition LAPIC_ICR_HIGH :: u32 where "LAPIC_ICR_HIGH = 0x310"
definition LAPIC_LVT_TIMER :: u32 where "LAPIC_LVT_TIMER = 0x320"
definition LAPIC_INIT_COUNT :: u32 where "LAPIC_INIT_COUNT = 0x380"
definition LAPIC_CURR_COUNT :: u32 where "LAPIC_CURR_COUNT = 0x390"
definition LAPIC_TIMER_DIV_CONF :: u32 where "LAPIC_TIMER_DIV_CONF = 0x3E0"
definition LAPIC_TIM_DIV_1 :: u8 where "LAPIC_TIM_DIV_1 = 0x0B"
definition LAPIC_TIM_MODE_ONESHOT :: u8 where "LAPIC_TIM_MODE_ONESHOT = 0x00"
definition IOAPIC_IOWIN :: u32 where "IOAPIC_IOWIN = 0x10"
definition IOAPIC_ID_REG :: u32 where "IOAPIC_ID_REG = 0x00"
definition IOAPIC_VERSION_REG :: u32 where "IOAPIC_VERSION_REG = 0x01"
definition DELIVERY_MODE_FIXED :: u32 where "DELIVERY_MODE_FIXED = 0x00"
definition DELIVERY_MODE_INIT :: u32 where "DELIVERY_MODE_INIT = 0x05"
definition DELIVERY_MODE_STARTUP :: u32 where "DELIVERY_MODE_STARTUP = 0x06"
definition TRIG_MODE_LEVEL :: u32 where "TRIG_MODE_LEVEL = 0x01"
definition ICR_LEVEL_DEASSERT :: u32 where "ICR_LEVEL_DEASSERT = 0x00"
definition ICR_LEVEL_ASSERT :: u32 where "ICR_LEVEL_ASSERT = 0x01"
definition DEST_MODE_PHY :: u32 where "DEST_MODE_PHY = 0"
definition INT_MASKED :: u32 where "INT_MASKED = 1"

definition IOAPIC_GET_ID :: "u8 \<Rightarrow> u32" where "IOAPIC_GET_ID i = push_bit 24 (ucast (0x03 AND i))"
definition LAPIC_GET_ID :: "u32 \<Rightarrow> u32" where "LAPIC_GET_ID i = push_bit 24 i"
definition IOAPIC_ENTRY_LOWER_ADDR :: "u32 \<Rightarrow> u32" where "IOAPIC_ENTRY_LOWER_ADDR line = 0x10 + line * 2"
definition IOAPIC_ENTRY_UPPER_ADDR :: "u32 \<Rightarrow> u32" where "IOAPIC_ENTRY_UPPER_ADDR line = 0x11 + line * 2"

definition BIT_FIELD_32 :: "u32 \<Rightarrow> nat \<Rightarrow> nat \<Rightarrow> u32" where
  "BIT_FIELD_32 inp start len = drop_bit start inp AND drop_bit (32 - len) 0xFFFFFFFF"

definition IOAPIC_GET_IRQ_NUM :: "u32 \<Rightarrow> u32" where "IOAPIC_GET_IRQ_NUM v = BIT_FIELD_32 v 16 8"

text \<open>A store of 32 bits to a device.\<close>

definition dev_store32 :: "u32 \<Rightarrow> u32 \<Rightarrow> trace \<Rightarrow> trace" where
  "dev_store32 addr v tr = tr @ [MmioW32 addr v]"

section \<open>Local controller\<close>

definition CPU_GetMSR :: "machine \<Rightarrow> u32 \<Rightarrow> trace \<Rightarrow> u32 \<times> u32 \<times> trace" where
  "CPU_GetMSR hw msr tr =
     (let lo = ucast (hw tr (Msr msr)); hi = ucast (drop_bit 32 (hw tr (Msr msr))) in (lo, hi, tr @ [RdMsr msr lo hi]))"

definition CPU_SetMSR :: "u32 \<Rightarrow> u32 \<Rightarrow> u32 \<Rightarrow> trace \<Rightarrow> trace" where
  "CPU_SetMSR msr lo hi tr = tr @ [WrMsr msr lo hi]"

definition CPU_IamBSP :: "machine \<Rightarrow> trace \<Rightarrow> bool \<times> trace" where
  "CPU_IamBSP hw tr =
     (case CPU_GetMSR hw APIC_BASE_MSR tr of (eax, edx, tr') \<Rightarrow> (eax AND APIC_BASE_MSR_BSP = APIC_BASE_MSR_BSP, tr'))"

text \<open>The mask has 36 bits; with the 32-bit operand its upper nibble has no effect.\<close>

definition LAPIC_set_phy_base_addr :: "u32 \<Rightarrow> trace \<Rightarrow> trace" where
  "LAPIC_set_phy_base_addr apic tr = CPU_SetMSR APIC_BASE_MSR ((apic AND 0xFFFF0000) OR APIC_BASE_MSR_ENABLE) 0 tr"

definition LAPIC_get_phy_base_addr :: "machine \<Rightarrow> trace \<Rightarrow> u32 \<times> trace" where
  "LAPIC_get_phy_base_addr hw tr = (case CPU_GetMSR hw APIC_BASE_MSR tr of (eax, edx, tr') \<Rightarrow> (eax AND 0xFFFFF000, tr'))"

definition LAPIC_init_vir_addr :: "u32 \<Rightarrow> u32" where
  "LAPIC_init_vir_addr addr = addr"

definition LAPIC_GetAddr :: "machine \<Rightarrow> u32 \<Rightarrow> trace \<Rightarrow> u32 \<times> trace" where
  "LAPIC_GetAddr hw va tr = (if va \<noteq> 0 then (va, tr) else LAPIC_get_phy_base_addr hw tr)"

definition LAPIC_read_reg :: "machine \<Rightarrow> u32 \<Rightarrow> u32 \<Rightarrow> trace \<Rightarrow> u32 \<times> trace" where
  "LAPIC_read_reg hw va reg tr = (case LAPIC_GetAddr hw va tr of (a, tr') \<Rightarrow> MMIO_read32 hw (a + reg) tr')"

definition LAPIC_write_reg :: "machine \<Rightarrow> u32 \<Rightarrow> u32 \<Rightarrow> u32 \<Rightarrow> trace \<Rightarrow> trace" where
  "LAPIC_write_reg hw va reg v tr = (case LAPIC_GetAddr hw va tr of (a, tr') \<Rightarrow> dev_store32 (a + reg) v tr')"

definition LAPIC_enable :: "machine \<Rightarrow> u32 \<Rightarrow> u16 \<Rightarrow> trace \<Rightarrow> trace" where
  "LAPIC_enable hw va spurious_int_vect tr =
     LAPIC_write_reg hw va LAPIC_EOI_REG 0
       (LAPIC_write_reg hw va LAPIC_SPURIOUS_INT_REG (ucast (spurious_int_vect AND 0xFF) OR APIC_ENABLE_BIT) tr)"

definition LAPIC_Send_EOI :: "machine \<Rightarrow> u32 \<Rightarrow> u32 \<Rightarrow> trace \<Rightarrow> trace" where
  "LAPIC_Send_EOI hw va irq tr = LAPIC_write_reg hw va LAPIC_EOI_REG 0 tr"

definition LAPIC_send_IPI :: "machine \<Rightarrow> u32 \<Rightarrow> u8 \<Rightarrow> u8 \<Rightarrow> u8 \<Rightarrow> u8 \<Rightarrow> u8 \<Rightarrow> u8 \<Rightarrow> u8 \<Rightarrow> trace \<Rightarrow> trace" where
  "LAPIC_send_IPI hw va vector deliveryMode destMode level trigger destShort dest tr =
     (let toWriteLow = ucast vector OR push_bit 8 (ucast (deliveryMode AND 0x03)) OR push_bit 11 (ucast (destMode AND 0x01))
            OR push_bit 14 (ucast (level AND 0x01)) OR push_bit 15 (ucast (trigger AND 0x01))
            OR push_bit 18 (ucast (destShort AND 0x03));
          toWriteHigh = push_bit 24 (ucast dest);
          tr = LAPIC_write_reg hw va LAPIC_ICR_LOW toWriteLow tr
      in LAPIC_write_reg hw va LAPIC_ICR_HIGH toWriteHigh tr)"

definition LAPIC_IPI_sent :: "machine \<Rightarrow> u32 \<Rightarrow> trace \<Rightarrow> bool \<times> trace" where
  "LAPIC_IPI_sent hw va tr =
     (case LAPIC_read_reg hw va LAPIC_ICR_LOW tr of (toRead, tr') \<Rightarrow> (BIT_FIELD_32 toRead 12 1 = 0, tr'))"

definition LAPIC_TIM_SetClockDivisor :: "machine \<Rightarrow> u32 \<Rightarrow> u8 \<Rightarrow> trace \<Rightarrow> trace" where
  "LAPIC_TIM_SetClockDivisor hw va divisor tr = LAPIC_write_reg hw va LAPIC_TIMER_DIV_CONF (BIT_FIELD_32 (ucast divisor) 0 3) tr"

definition LAPIC_TIM_SetInitCount :: "machine \<Rightarrow> u32 \<Rightarrow> u32 \<Rightarrow> trace \<Rightarrow> trace" where
  "LAPIC_TIM_SetInitCount hw va count tr = LAPIC_write_reg hw va LAPIC_INIT_COUNT count tr"

definition LAPIC_TIM_GetCurrentCount :: "machine \<Rightarrow> u32 \<Rightarrow> trace \<Rightarrow> u32 \<times> trace" where
  "LAPIC_TIM_GetCurrentCount hw va tr = LAPIC_read_reg hw va LAPIC_CURR_COUNT tr"

definition LAPIC_TIM_StopTimer :: "machine \<Rightarrow> u32 \<Rightarrow> trace \<Rightarrow> trace" where
  "LAPIC_TIM_StopTimer hw va tr = LAPIC_write_reg hw va LAPIC_INIT_COUNT 0 tr"

definition LAPIC_TIM_SetMode :: "machine \<Rightarrow> u32 \<Rightarrow> u8 \<Rightarrow> trace \<Rightarrow> trace" where
  "LAPIC_TIM_SetMode hw va mode tr = LAPIC_write_reg hw va LAPIC_LVT_TIMER (BIT_FIELD_32 (ucast mode) 17 2) tr"

section \<open>Inter-processor interrupts\<close>

text \<open>The common part of the four senders: error register, destination, command.\<close>

definition send_icr :: "machine \<Rightarrow> u32 \<Rightarrow> u32 \<Rightarrow> u32 \<Rightarrow> trace \<Rightarrow> trace" where
  "send_icr hw va cpu_id command tr =
     (let tr = LAPIC_write_reg hw va LAPIC_ERR_STATUS_REG 0 tr;
          (hi, tr) = LAPIC_read_reg hw va LAPIC_ICR_HIGH tr;
          tr = LAPIC_write_reg hw va LAPIC_ICR_HIGH ((hi AND 0x00FFFFFF) OR LAPIC_GET_ID cpu_id) tr;
          (lo, tr) = LAPIC_read_reg hw va LAPIC_ICR_LOW tr
      in LAPIC_write_reg hw va LAPIC_ICR_LOW ((lo AND 0xFFF00000) OR command) tr)"

definition SendInitIPI :: "machine \<Rightarrow> u32 \<Rightarrow> u32 \<Rightarrow> trace \<Rightarrow> trace" where
  "SendInitIPI hw va cpu_id tr = send_icr hw va cpu_id
     (push_bit 8 DELIVERY_MODE_INIT OR push_bit 15 TRIG_MODE_LEVEL OR push_bit 14 ICR_LEVEL_ASSERT) tr"

definition SendInitIPIDeassert :: "machine \<Rightarrow> u32 \<Rightarrow> u32 \<Rightarrow> trace \<Rightarrow> trace" where
  "SendInitIPIDeassert hw va cpu_id tr = send_icr hw va cpu_id
     (push_bit 8 DELIVERY_MODE_INIT OR push_bit 15 TRIG_MODE_LEVEL OR push_bit 14 ICR_LEVEL_DEASSERT) tr"

definition SendStartupIPI :: "machine \<Rightarrow> u32 \<Rightarrow> u32 \<Rightarrow> u32 \<Rightarrow> trace \<Rightarrow> trace" where
  "SendStartupIPI hw va cpu_id vector tr =
     send_icr hw va cpu_id (push_bit 8 DELIVERY_MODE_STARTUP OR (vector AND 0xFF)) tr"

definition SendIPI :: "machine \<Rightarrow> u32 \<Rightarrow> u32 \<Rightarrow> u32 \<Rightarrow> trace \<Rightarrow> trace" where
  "SendIPI hw va cpu_id vector tr = send_icr hw va cpu_id (push_bit 8 DELIVERY_MODE_FIXED OR (vector AND 0xFF)) tr"

definition IPI_isPending :: "machine \<Rightarrow> u32 \<Rightarrow> trace \<Rightarrow> bool \<times> trace" where
  "IPI_isPending hw va tr = (case LAPIC_read_reg hw va LAPIC_ICR_LOW tr of (v, tr') \<Rightarrow> (v AND push_bit 12 1 \<noteq> 0, tr'))"

partial_function (option) wait_ipi :: "machine \<Rightarrow> u32 \<Rightarrow> trace \<Rightarrow> trace option" where
  "wait_ipi hw va tr = (case IPI_isPending hw va tr of (p, tr') \<Rightarrow> if p then wait_ipi hw va tr' else Some tr')"

text \<open>The start of another processor; the two delays are arguments, with a state of their own.\<close>

definition StartupAP :: "(u64 \<Rightarrow> 'k \<times> trace \<Rightarrow> ('k \<times> trace) option) \<Rightarrow> (u64 \<Rightarrow> 'k \<times> trace \<Rightarrow> ('k \<times> trace) option) \<Rightarrow>
    machine \<Rightarrow> u32 \<Rightarrow> u32 \<Rightarrow> u8 \<Rightarrow> 'k \<times> trace \<Rightarrow> ('k \<times> trace) option" where
  "StartupAP wait_ms wait_us hw va AP_Num vector s =
     (case s of (k, tr) \<Rightarrow>
        Option.bind (wait_ipi hw va (SendInitIPI hw va AP_Num tr)) (\<lambda>tr.
        Option.bind (wait_ipi hw va (SendInitIPIDeassert hw va AP_Num tr)) (\<lambda>tr.
        Option.bind (wait_ms 10 (k, tr)) (\<lambda>s.
          for_upto (0 :: u8) 2 (\<lambda>i r. Option.bind r (\<lambda>(k, tr).
            Option.bind (wait_us 200 (k, SendStartupIPI hw va AP_Num (ucast vector) tr)) (\<lambda>(k, tr).
              map_option (Pair k) (wait_ipi hw va tr)))) (Some s)))))"

section \<open>I/O controller\<close>

record ioapic_redirect_entry =
  entry_lower :: u32
  entry_upper :: u32

text \<open>Assignment to the bit field of \<open>len\<close> bits at \<open>pos\<close>.\<close>

definition set_field :: "nat \<Rightarrow> nat \<Rightarrow> u32 \<Rightarrow> u32 \<Rightarrow> u32" where
  "set_field pos len v w = (w AND NOT (push_bit pos (mask len))) OR push_bit pos (take_bit len v)"

definition get_field :: "nat \<Rightarrow> nat \<Rightarrow> u32 \<Rightarrow> u32" where
  "get_field pos len w = take_bit len (drop_bit pos w)"

definition IOAPIC_read_reg :: "machine \<Rightarrow> u32 \<Rightarrow> u32 \<Rightarrow> trace \<Rightarrow> u32 \<times> trace" where
  "IOAPIC_read_reg hw ptr reg tr = MMIO_read32 hw (ptr + IOAPIC_IOWIN) (dev_store32 ptr reg tr)"

definition IOAPIC_write_reg :: "u32 \<Rightarrow> u32 \<Rightarrow> u32 \<Rightarrow> trace \<Rightarrow> trace" where
  "IOAPIC_write_reg ptr reg v tr = dev_store32 (ptr + IOAPIC_IOWIN) v (dev_store32 ptr reg tr)"

definition IOAPIC_Entry_Read :: "machine \<Rightarrow> u32 \<Rightarrow> u32 \<Rightarrow> trace \<Rightarrow> ioapic_redirect_entry \<times> trace" where
  "IOAPIC_Entry_Read hw ptr line tr =
     (let (lo, tr) = IOAPIC_read_reg hw ptr (IOAPIC_ENTRY_LOWER_ADDR line) tr;
          (hi, tr) = IOAPIC_read_reg hw ptr (IOAPIC_ENTRY_UPPER_ADDR line) tr
      in (\<lparr>entry_lower = lo, entry_upper = hi\<rparr>, tr))"

definition IOAPIC_Entry_Write :: "u32 \<Rightarrow> u32 \<Rightarrow> ioapic_redirect_entry \<Rightarrow> trace \<Rightarrow> trace" where
  "IOAPIC_Entry_Write ptr line entry tr =
     IOAPIC_write_reg ptr (IOAPIC_ENTRY_UPPER_ADDR line) (entry_upper entry)
       (IOAPIC_write_reg ptr (IOAPIC_ENTRY_LOWER_ADDR line) (entry_lower entry) tr)"

definition IOAPIC_set_mask :: "u32 \<Rightarrow> machine \<Rightarrow> u32 \<Rightarrow> u32 \<Rightarrow> trace \<Rightarrow> trace" where
  "IOAPIC_set_mask v hw ptr irq tr =
     (case IOAPIC_Entry_Read hw ptr irq tr of (entry, tr') \<Rightarrow>
        IOAPIC_Entry_Write ptr irq (entry\<lparr>entry_lower := set_field 16 1 v (entry_lower entry)\<rparr>) tr')"

definition IOAPIC_Unmask_IRQ :: "machine \<Rightarrow> u32 \<Rightarrow> u32 \<Rightarrow> trace \<Rightarrow> trace" where
  "IOAPIC_Unmask_IRQ hw ptr irq tr = IOAPIC_set_mask 0 hw ptr irq tr"

definition IOAPIC_Mask_IRQ :: "machine \<Rightarrow> u32 \<Rightarrow> u32 \<Rightarrow> trace \<Rightarrow> trace" where
  "IOAPIC_Mask_IRQ hw ptr irq tr = IOAPIC_set_mask 1 hw ptr irq tr"

definition redirect_entry :: "u8 \<Rightarrow> u16 \<Rightarrow> u16 \<Rightarrow> u16 \<Rightarrow> u8 \<Rightarrow> u8 \<Rightarrow> ioapic_redirect_entry" where
  "redirect_entry dest IntVector trigger polarity destMode deliveryMode =
     \<lparr>entry_lower =
        set_field 0 8 (ucast (IntVector AND 0xFF)) (set_field 8 3 (ucast deliveryMode) (set_field 11 1 (ucast destMode)
          (set_field 13 1 (ucast (polarity AND 0x01)) (set_field 15 1 (ucast (trigger AND 0x01)) (set_field 16 1 INT_MASKED 0))))),
      entry_upper = set_field 24 8 (ucast (dest AND 0xFF)) 0\<rparr>"

definition IOAPIC_IRQ_Setup :: "u32 \<Rightarrow> u8 \<Rightarrow> u16 \<Rightarrow> u32 \<Rightarrow> u16 \<Rightarrow> u16 \<Rightarrow> u8 \<Rightarrow> u8 \<Rightarrow> trace \<Rightarrow> trace" where
  "IOAPIC_IRQ_Setup ptr dest IntVector line trigger polarity destMode deliveryMode tr =
     IOAPIC_Entry_Write ptr line (redirect_entry dest IntVector trigger polarity destMode deliveryMode) tr"

definition IOAPIC_IRQ_Change_Dest :: "machine \<Rightarrow> u32 \<Rightarrow> u32 \<Rightarrow> u32 \<Rightarrow> trace \<Rightarrow> trace" where
  "IOAPIC_IRQ_Change_Dest hw ptr dest line tr =
     (case IOAPIC_Entry_Read hw ptr line tr of (entry, tr') \<Rightarrow>
        IOAPIC_Entry_Write ptr line (entry\<lparr>entry_upper := set_field 24 8 (dest AND 0xFF) (entry_upper entry)\<rparr>) tr')"

definition IOAPIC_enable :: "machine \<Rightarrow> u32 \<Rightarrow> u8 \<Rightarrow> trace \<Rightarrow> trace" where
  "IOAPIC_enable hw ptr IOAPIC_Id tr =
     (let tr = IOAPIC_write_reg ptr IOAPIC_ID_REG (IOAPIC_GET_ID IOAPIC_Id) tr;
          (ver, tr) = IOAPIC_read_reg hw ptr IOAPIC_VERSION_REG tr
      in for_upto (0 :: u8) (ucast (IOAPIC_GET_IRQ_NUM ver)) (\<lambda>i. IOAPIC_Mask_IRQ hw ptr (ucast i)) tr)"

section \<open>The register file of an I/O controller\<close>

text \<open>What the accesses leave in the selector and in the registers of the controller at \<open>ptr\<close>.\<close>

fun ioapic_event :: "u32 \<Rightarrow> io_event \<Rightarrow> u32 \<times> (u32 \<Rightarrow> u32) \<Rightarrow> u32 \<times> (u32 \<Rightarrow> u32)" where
  "ioapic_event ptr (MmioW32 a v) (sel, regs) =
     (if a = ptr then (v, regs) else if a = ptr + IOAPIC_IOWIN then (sel, regs(sel := v)) else (sel, regs))"
| "ioapic_event ptr _ s = s"

definition ioapic_state :: "u32 \<Rightarrow> (u32 \<Rightarrow> u32) \<Rightarrow> trace \<Rightarrow> u32 \<times> (u32 \<Rightarrow> u32)" where
  "ioapic_state ptr regs0 tr = fold (ioapic_event ptr) tr (0, regs0)"

abbreviation ioapic_regs :: "u32 \<Rightarrow> (u32 \<Rightarrow> u32) \<Rightarrow> trace \<Rightarrow> u32 \<Rightarrow> u32" where
  "ioapic_regs ptr regs0 tr \<equiv> snd (ioapic_state ptr regs0 tr)"

text \<open>A controller that starts with \<open>regs0\<close> and answers a read of the window with the selected register.\<close>

definition ioapic_answers :: "u32 \<Rightarrow> (u32 \<Rightarrow> u32) \<Rightarrow> machine \<Rightarrow> bool" where
  "ioapic_answers ptr regs0 hw \<longleftrightarrow>
     (\<forall>tr. ucast (hw tr (Mem32 (ptr + IOAPIC_IOWIN))) = (case ioapic_state ptr regs0 tr of (sel, regs) \<Rightarrow> regs sel))"

lemma ioapic_state_append: "ioapic_state ptr regs0 (tr @ es) = fold (ioapic_event ptr) es (ioapic_state ptr regs0 tr)"
  by (simp add: ioapic_state_def)

lemma window_distinct: "ptr + IOAPIC_IOWIN \<noteq> ptr"
  by (simp add: IOAPIC_IOWIN_def)

lemma ioapic_read:
  assumes "ioapic_answers ptr regs0 hw"
  shows "fst (IOAPIC_read_reg hw ptr r tr) = ioapic_regs ptr regs0 tr r"
    and "ioapic_regs ptr regs0 (snd (IOAPIC_read_reg hw ptr r tr)) = ioapic_regs ptr regs0 tr"
proof -
  have st: "ioapic_state ptr regs0 (dev_store32 ptr r tr) = (r, ioapic_regs ptr regs0 tr)"
    by (cases "ioapic_state ptr regs0 tr") (simp add: dev_store32_def ioapic_state_append)
  with assms show "fst (IOAPIC_read_reg hw ptr r tr) = ioapic_regs ptr regs0 tr r"
    by (simp add: IOAPIC_read_reg_def MMIO_read32_def Let_def ioapic_answers_def)
  show "ioapic_regs ptr regs0 (snd (IOAPIC_read_reg hw ptr r tr)) = ioapic_regs ptr regs0 tr"
    using st by (simp add: IOAPIC_read_reg_def MMIO_read32_def Let_def ioapic_state_append)
qed

lemma ioapic_write: "ioapic_regs ptr regs0 (IOAPIC_write_reg ptr r v tr) = (ioapic_regs ptr regs0 tr)(r := v)"
  using window_distinct [of ptr]
  by (cases "ioapic_state ptr regs0 tr") (simp add: IOAPIC_write_reg_def dev_store32_def ioapic_state_append)

lemma entry_addrs: "IOAPIC_ENTRY_LOWER_ADDR line \<noteq> IOAPIC_ENTRY_UPPER_ADDR line"
  by (simp add: IOAPIC_ENTRY_LOWER_ADDR_def IOAPIC_ENTRY_UPPER_ADDR_def)

text \<open>A table entry as the controller holds it, and the change of one entry.\<close>

definition entry_of :: "(u32 \<Rightarrow> u32) \<Rightarrow> u32 \<Rightarrow> ioapic_redirect_entry" where
  "entry_of regs line = \<lparr>entry_lower = regs (IOAPIC_ENTRY_LOWER_ADDR line), entry_upper = regs (IOAPIC_ENTRY_UPPER_ADDR line)\<rparr>"

definition put_entry :: "u32 \<Rightarrow> ioapic_redirect_entry \<Rightarrow> (u32 \<Rightarrow> u32) \<Rightarrow> u32 \<Rightarrow> u32" where
  "put_entry line e regs = regs(IOAPIC_ENTRY_LOWER_ADDR line := entry_lower e, IOAPIC_ENTRY_UPPER_ADDR line := entry_upper e)"

lemma entry_of_put [simp]: "entry_of (put_entry line e regs) line = e"
  using entry_addrs [of line] by (simp add: entry_of_def put_entry_def)

lemma put_put [simp]: "put_entry line e (put_entry line d regs) = put_entry line e regs"
  using entry_addrs [of line] by (auto simp: put_entry_def)

lemma ioapic_entry_write: "ioapic_regs ptr regs0 (IOAPIC_Entry_Write ptr line e tr) = put_entry line e (ioapic_regs ptr regs0 tr)"
  by (simp add: IOAPIC_Entry_Write_def ioapic_write put_entry_def)

lemma ioapic_entry_read:
  assumes "ioapic_answers ptr regs0 hw"
  shows "fst (IOAPIC_Entry_Read hw ptr line tr) = entry_of (ioapic_regs ptr regs0 tr) line"
    and "ioapic_regs ptr regs0 (snd (IOAPIC_Entry_Read hw ptr line tr)) = ioapic_regs ptr regs0 tr"
  by (simp_all add: IOAPIC_Entry_Read_def case_prod_beta Let_def ioapic_read [OF assms] entry_of_def)

lemma ioapic_set_mask:
  assumes "ioapic_answers ptr regs0 hw"
  shows "ioapic_regs ptr regs0 (IOAPIC_set_mask v hw ptr line tr) =
    put_entry line (let e = entry_of (ioapic_regs ptr regs0 tr) line in e\<lparr>entry_lower := set_field 16 1 v (entry_lower e)\<rparr>)
      (ioapic_regs ptr regs0 tr)"
  by (simp add: IOAPIC_set_mask_def case_prod_beta ioapic_entry_write ioapic_entry_read [OF assms] Let_def)

section \<open>Fields\<close>

lemma bit_set_field: "pos + len \<le> 32 \<Longrightarrow> bit (set_field pos len v w) n \<longleftrightarrow>
    (if pos \<le> n \<and> n < pos + len then bit v (n - pos) else bit w n)" if "n < 32"
  using that by (auto simp: set_field_def bit_or_iff bit_and_iff bit_not_iff bit_push_bit_iff bit_mask_iff bit_take_bit_iff)

lemma get_set_field:
  assumes "pos + len \<le> 32"
  shows "get_field pos len (set_field pos len v w) = take_bit len v"
    and "pos' + len' \<le> pos \<or> pos + len \<le> pos' \<Longrightarrow> pos' + len' \<le> 32 \<Longrightarrow> get_field pos' len' (set_field pos len v w) = get_field pos' len' w"
proof -
  show "get_field pos len (set_field pos len v w) = take_bit len v"
  proof (rule bit_eqI)
    fix n assume "possible_bit TYPE(u32) n"
    show "bit (get_field pos len (set_field pos len v w)) n = bit (take_bit len v) n"
      using assms by (cases "n < len") (simp_all add: get_field_def bit_take_bit_iff bit_drop_bit_eq bit_set_field)
  qed
  assume d: "pos' + len' \<le> pos \<or> pos + len \<le> pos'" "pos' + len' \<le> 32"
  show "get_field pos' len' (set_field pos len v w) = get_field pos' len' w"
  proof (rule bit_eqI)
    fix n assume "possible_bit TYPE(u32) n"
    show "bit (get_field pos' len' (set_field pos len v w)) n = bit (get_field pos' len' w) n"
      using assms d by (cases "n < len'") (auto simp: get_field_def bit_take_bit_iff bit_drop_bit_eq bit_set_field)
  qed
qed

text \<open>The fields of the entry that IOAPIC_IRQ_Setup writes.\<close>

lemma low_mask: "x AND 0xFF = take_bit 8 x" "x AND 1 = take_bit 1 x" "y AND 0xFF = take_bit 8 y" for x :: u16 and y :: u8
proof -
  have "(0xFF :: u16) = mask 8" "(1 :: u16) = mask 1" "(0xFF :: u8) = mask 8" by (simp_all add: mask_eq_exp_minus_1)
  then show "x AND 0xFF = take_bit 8 x" "x AND 1 = take_bit 1 x" "y AND 0xFF = take_bit 8 y" by (simp_all only: take_bit_eq_mask)
qed

lemma redirect_fields:
  "get_field 0 8 (entry_lower (redirect_entry d v t p dm del)) = take_bit 8 (ucast v)"
  "get_field 8 3 (entry_lower (redirect_entry d v t p dm del)) = take_bit 3 (ucast del)"
  "get_field 13 1 (entry_lower (redirect_entry d v t p dm del)) = take_bit 1 (ucast p)"
  "get_field 15 1 (entry_lower (redirect_entry d v t p dm del)) = take_bit 1 (ucast t)"
  "get_field 24 8 (entry_upper (redirect_entry d v t p dm del)) = take_bit 8 (ucast d)"
proof -
  have u: "take_bit k (ucast (take_bit k x) :: u32) = take_bit k (ucast x)" for k and x :: u16
    by (rule bit_eqI) (auto simp: bit_take_bit_iff bit_ucast_iff)
  have w: "take_bit k (ucast (take_bit k x) :: u32) = take_bit k (ucast x)" for k and x :: u8
    by (rule bit_eqI) (auto simp: bit_take_bit_iff bit_ucast_iff)
  show "get_field 0 8 (entry_lower (redirect_entry d v t p dm del)) = take_bit 8 (ucast v)"
    "get_field 8 3 (entry_lower (redirect_entry d v t p dm del)) = take_bit 3 (ucast del)"
    "get_field 13 1 (entry_lower (redirect_entry d v t p dm del)) = take_bit 1 (ucast p)"
    "get_field 15 1 (entry_lower (redirect_entry d v t p dm del)) = take_bit 1 (ucast t)"
    "get_field 24 8 (entry_upper (redirect_entry d v t p dm del)) = take_bit 8 (ucast d)"
    unfolding redirect_entry_def low_mask ioapic_redirect_entry.simps by (simp_all only: get_set_field u w) (simp_all add: get_set_field u w u [of 1, simplified])
qed

end
