(* ===== verification/IA32_Sysconf.thy ===== *)
theory IA32_Sysconf
  imports IA32_Acpi IA32_Apic IA32_Pic
begin

text \<open>
  The system configuration (ReadSystemConfig of sysinit.c, cpu.c) and the interrupt services that
  use it (interrupts.c). The processor identification instruction is an argument, a function from
  the leaf to the registers eax, ebx, ecx and edx.
\<close>

section \<open>Processor identification\<close>

type_synonym cpuid = "u32 \<Rightarrow> u32 \<times> u32 \<times> u32 \<times> u32"

definition CPUID_GETVENDORSTRING :: u32 where "CPUID_GETVENDORSTRING = 0"
definition CPUID_GETFEATURES :: u32 where "CPUID_GETFEATURES = 1"
definition CPUID_FLAG_MSR :: u32 where "CPUID_FLAG_MSR = 0x20"
definition CPU_VENDOR_STR_LEN :: u32 where "CPU_VENDOR_STR_LEN = 13"

record IA32_cpu_info =
  VendorId :: bytes
  dw0 :: u32
  dw1 :: u32
  ModelId :: u16
  FamilyId :: u16
  SteppingId :: u8

definition CPU_GetCoreID :: "cpuid \<Rightarrow> u32" where
  "CPU_GetCoreID cpuid = (case cpuid CPUID_GETFEATURES of (eax, ebx, ecx, edx) \<Rightarrow> drop_bit 24 ebx)"

definition CPU_GetInfo :: "cpuid \<Rightarrow> IA32_cpu_info" where
  "CPU_GetInfo cpuid =
     (case cpuid CPUID_GETVENDORSTRING of (eax, ebx, ecx, edx) \<Rightarrow>
        let vendor = store32 (store32 (store32 (\<lambda>_. 0) 0 ebx) 4 edx) 8 ecx;
            vendor = vendor(CPU_VENDOR_STR_LEN - 1 := 0)
        in case cpuid CPUID_GETFEATURES of (eax, ebx, ecx, edx) \<Rightarrow>
          \<lparr>VendorId = vendor, dw0 = ecx, dw1 = edx,
           ModelId = (if BIT_FIELD_32 eax 8 4 = 15 \<or> BIT_FIELD_32 eax 8 4 = 6
             then ucast (BIT_FIELD_32 eax 4 4 + push_bit 4 (BIT_FIELD_32 eax 16 4)) else ucast (BIT_FIELD_32 eax 4 4)),
           FamilyId = (if BIT_FIELD_32 eax 8 4 = 15
             then ucast (BIT_FIELD_32 eax 8 4 + BIT_FIELD_32 eax 20 8) else ucast (BIT_FIELD_32 eax 8 4)),
           SteppingId = ucast (BIT_FIELD_32 eax 0 4)\<rparr>)"

text \<open>
  The second register of the answer, ebx, is the one the flag is taken from. Without leaf 1 the
  variable stays uninitialised.
\<close>

definition CPU_CheckMSR :: "cpuid \<Rightarrow> u32 option" where
  "CPU_CheckMSR cpuid =
     (if fst (cpuid 0) < 1 then None else case cpuid 1 of (eax, ebx, ecx, edx) \<Rightarrow> Some (ebx AND CPUID_FLAG_MSR))"

section \<open>Configuration\<close>

definition MAX_SUPP_PROC_NUM :: nat where "MAX_SUPP_PROC_NUM = 16"
definition MAX_SUPP_IOAPIC_NUM :: nat where "MAX_SUPP_IOAPIC_NUM = 16"
definition INT_NUM :: nat where "INT_NUM = 256"
definition INT_INFO_IS_NMI :: u16 where "INT_INFO_IS_NMI = 1"
definition SPURIOUS_INT_VECTOR :: u32 where "SPURIOUS_INT_VECTOR = 0xFF"
definition BIOS_START_ADDR :: u32 where "BIOS_START_ADDR = 0xE0000"
definition BIOS_END_ADDR :: u32 where "BIOS_END_ADDR = 0xFFFFF"

record CPU_SysConf_Info =
  CoreID :: u8
  LAPIC_Id :: u32

record IOAPIC_SysConf_Info =
  IOAPIC_ID :: u8
  IOAPIC_Addr :: u32
  GlobalSysInterBase :: u32

record Int_SysConf_Info =
  IntVector :: u16
  GlobalSysInt :: u32
  Polarity :: u16
  TriggerMode :: u16
  isNMI :: u16

record SysConf_Info =
  CPU_Info :: IA32_cpu_info
  CPUs :: "CPU_SysConf_Info list"
  InterruptSource :: "Int_SysConf_Info list"
  SysIOAPICs :: "IOAPIC_SysConf_Info list"
  LAPIC_Ptr :: u32
  LAPIC_tim_freqHz :: u32
  CPU_Num :: u8
  SysIOAPIC_Num :: u8
  ACPI_Init :: bool

text \<open>Fields of the table entries.\<close>

definition load16 :: "bytes \<Rightarrow> u32 \<Rightarrow> u16" where
  "load16 m p = ucast (m p) OR push_bit 8 (ucast (m (p + 1)))"

definition Over_IRQSource :: "bytes \<Rightarrow> u32 \<Rightarrow> u8" where "Over_IRQSource m e = m (e + 1)"
definition Over_GlobalSysInt :: "bytes \<Rightarrow> u32 \<Rightarrow> u32" where "Over_GlobalSysInt m e = load32 m (e + 2)"
definition Over_Flags :: "bytes \<Rightarrow> u32 \<Rightarrow> u16" where "Over_Flags m e = load16 m (e + 6)"
definition NMI_Flags :: "bytes \<Rightarrow> u32 \<Rightarrow> u8" where "NMI_Flags m e = m (e + 2)"
definition NMI_GlobalSysInt :: "bytes \<Rightarrow> u32 \<Rightarrow> u32" where "NMI_GlobalSysInt m e = load32 m (e + 3)"

text \<open>
  The loops of ReadSystemConfig. The arrays of the configuration have the lengths of the
  declarations; TriggerMode and Polarity are fields of two bits.
\<close>

definition read_cpus :: "bytes \<Rightarrow> MADT_info \<Rightarrow> SysConf_Info \<Rightarrow> SysConf_Info" where
  "read_cpus m info sc =
     (let n = min (unat (LAPICs_Num info)) MAX_SUPP_PROC_NUM in
      sc\<lparr>CPUs := fold (\<lambda>i cpus. cpus[i := \<lparr>CoreID = m (LAPICs info ! i), LAPIC_Id = ucast (m (LAPICs info ! i + 1))\<rparr>]) [0..<n] (CPUs sc),
         CPU_Num := of_nat n\<rparr>)"

definition read_ioapics :: "bytes \<Rightarrow> MADT_info \<Rightarrow> SysConf_Info \<Rightarrow> SysConf_Info" where
  "read_ioapics m info sc =
     (let n = min (unat (IOAPIC_Num info)) MAX_SUPP_IOAPIC_NUM in
      sc\<lparr>SysIOAPICs := fold (\<lambda>i xs. let e = IOAPICs info ! i in
           xs[i := \<lparr>IOAPIC_ID = m e, IOAPIC_Addr = load32 m (e + 2), GlobalSysInterBase = load32 m (e + 6)\<rparr>]) [0..<n] (SysIOAPICs sc),
         SysIOAPIC_Num := of_nat n\<rparr>)"

definition default_sources :: "Int_SysConf_Info list \<Rightarrow> Int_SysConf_Info list" where
  "default_sources xs =
     fold (\<lambda>i xs. xs[i := (xs ! i)\<lparr>IntVector := ucast HW_INT_START + of_nat i, GlobalSysInt := of_nat i, Polarity := 0,
       TriggerMode := 0, isNMI := 0\<rparr>]) [0..<INT_NUM] xs"

definition override_source :: "bytes \<Rightarrow> u32 \<Rightarrow> Int_SysConf_Info list \<Rightarrow> Int_SysConf_Info list" where
  "override_source m e xs =
     (let k = Over_IRQSource m e in
      xs[unat k := (xs ! unat k)\<lparr>IntVector := ucast k + ucast HW_INT_START, GlobalSysInt := Over_GlobalSysInt m e,
        TriggerMode := take_bit 2 (drop_bit 2 (Over_Flags m e)), Polarity := Over_Flags m e AND 0x03\<rparr>])"

definition nmi_source :: "bytes \<Rightarrow> u32 \<Rightarrow> Int_SysConf_Info list \<Rightarrow> Int_SysConf_Info list" where
  "nmi_source m e xs =
     (case for_ret 0 (of_nat INT_NUM :: u16)
        (\<lambda>k _. if NMI_GlobalSysInt m e = GlobalSysInt (xs ! unat k)
           then Inl (xs[unat k := (xs ! unat k)\<lparr>isNMI := INT_INFO_IS_NMI,
             TriggerMode := take_bit 2 (drop_bit 2 (ucast (NMI_Flags m e))), Polarity := ucast (NMI_Flags m e) AND 0x03\<rparr>])
           else Inr ()) ()
      of Inl ys \<Rightarrow> ys | Inr _ \<Rightarrow> xs)"

definition read_sources :: "bytes \<Rightarrow> MADT_info \<Rightarrow> Int_SysConf_Info list \<Rightarrow> Int_SysConf_Info list" where
  "read_sources m info xs =
     (let xs = default_sources xs;
          xs = fold (\<lambda>i. override_source m (IntSrcOverride info ! i)) [0..<min (unat (IntSrcOverride_Num info)) INT_NUM] xs
      in fold (\<lambda>i. nmi_source m (NMI_Source info ! i)) [0..<min (unat (NMI_Num info)) MAX_NMI_NUM] xs)"

definition ReadSystemConfig :: "cpuid \<Rightarrow> bytes \<Rightarrow> SysConf_Info \<Rightarrow> (int \<times> SysConf_Info) option" where
  "ReadSystemConfig cpuid m sc =
     (let sc = sc\<lparr>CPU_Info := CPU_GetInfo cpuid\<rparr>;
          rsdp = acpi_get_RSDP_ptr m BIOS_START_ADDR BIOS_END_ADDR
      in if rsdp \<noteq> 0 then
           (case acpi_get_MADT_info m rsdp of
              None \<Rightarrow> None
            | Some (ok, info) \<Rightarrow>
                if ok then
                  let sc = sc\<lparr>LAPIC_Ptr := LAPIC_ptr info\<rparr>;
                      sc = read_ioapics m info (read_cpus m info sc)
                  in Some (0, sc\<lparr>InterruptSource := read_sources m info (InterruptSource sc)\<rparr>)
                else Some (0, sc))
         else Some (0, sc))"

definition InitSystemConfig :: "cpuid \<Rightarrow> bytes \<Rightarrow> SysConf_Info \<Rightarrow> SysConf_Info option" where
  "InitSystemConfig cpuid m sc =
     map_option (\<lambda>(r, sc). sc\<lparr>ACPI_Init := r \<noteq> -1\<rparr>) (ReadSystemConfig cpuid m sc)"

section \<open>Interrupt services\<close>

definition IRQ :: "u32 \<Rightarrow> u32" where "IRQ i = i - HW_INT_START"

text \<open>The table of handlers has 256 places; a store past its end is \<open>None\<close>.\<close>

definition ISR_store :: "u16 \<Rightarrow> u32 \<Rightarrow> u32 list \<Rightarrow> (u8 \<times> u32 list) option" where
  "ISR_store num isrAddress isr_table =
     (if unat num > INT_NUM then Some (1, isr_table)
      else if unat num < length isr_table then Some (0, isr_table[unat num := isrAddress]) else None)"

definition ISR_Install :: "u16 \<Rightarrow> u32 \<Rightarrow> u32 list \<Rightarrow> (u8 \<times> u32 list) option" where
  "ISR_Install num isrAddress isr_table = ISR_store num isrAddress isr_table"

definition ISR_Uninstall :: "u16 \<Rightarrow> u32 list \<Rightarrow> (u8 \<times> u32 list) option" where
  "ISR_Uninstall num isr_table = ISR_store num 0 isr_table"

definition GetNumberOfIntr :: nat where "GetNumberOfIntr = INT_NUM"

text \<open>\<open>ioapic\<close> is the address of the controller, \<open>IOAPIC_Addr\<close>.\<close>

definition EnableIRQ :: "machine \<Rightarrow> SysConf_Info \<Rightarrow> u32 \<Rightarrow> u8 \<Rightarrow> u32 \<Rightarrow> trace \<Rightarrow> trace option" where
  "EnableIRQ hw sc ioapic dest_cpu irq_n tr =
     (if irq_n \<ge> HW_INT_START \<and> irq_n \<noteq> SPURIOUS_INT_VECTOR then
        if ACPI_Init sc then
          (if unat (IRQ irq_n) < length (InterruptSource sc) then
             let src = InterruptSource sc ! unat (IRQ irq_n) in
             Some (IOAPIC_Unmask_IRQ hw ioapic (GlobalSysInt src)
               (IOAPIC_IRQ_Setup ioapic dest_cpu (IntVector src) (GlobalSysInt src) (TriggerMode src) (Polarity src)
                  (ucast DEST_MODE_PHY) (ucast DELIVERY_MODE_FIXED) tr))
           else None)
        else Some (PIC_EnableIRQ hw irq_n tr)
      else Some tr)"

definition DisableIRQ :: "machine \<Rightarrow> SysConf_Info \<Rightarrow> u32 \<Rightarrow> u32 \<Rightarrow> trace \<Rightarrow> trace" where
  "DisableIRQ hw sc ioapic irq_n tr =
     (if irq_n \<ge> HW_INT_START \<and> irq_n \<noteq> SPURIOUS_INT_VECTOR then
        if ACPI_Init sc then IOAPIC_Mask_IRQ hw ioapic irq_n tr else PIC_DisableIRQ hw irq_n tr
      else tr)"


section \<open>Routing\<close>

text \<open>The line an ISA interrupt is wired to: the last override, or the line of the same number.\<close>

definition routing :: "bytes \<Rightarrow> u32 list \<Rightarrow> nat \<Rightarrow> u32" where
  "routing m es k = fold (\<lambda>e r. if unat (Over_IRQSource m e) = k then Over_GlobalSysInt m e else r) es (of_nat k)"

definition routed :: "bytes \<Rightarrow> u32 list \<Rightarrow> Int_SysConf_Info list \<Rightarrow> bool" where
  "routed m es xs \<longleftrightarrow> length xs = INT_NUM \<and>
     (\<forall>k<INT_NUM. IntVector (xs ! k) = ucast HW_INT_START + of_nat k \<and> GlobalSysInt (xs ! k) = routing m es k)"

lemma fold_update_nth:
  "length (fold (\<lambda>i xs. xs[i := f i (xs ! i)]) [0..<n] xs) = length xs"
  "k < length xs \<Longrightarrow> fold (\<lambda>i xs. xs[i := f i (xs ! i)]) [0..<n] xs ! k = (if k < n then f k (xs ! k) else xs ! k)"
proof -
  show len: "length (fold (\<lambda>i xs. xs[i := f i (xs ! i)]) [0..<n] xs) = length xs" for n by (induction n) simp_all
  show "k < length xs \<Longrightarrow> fold (\<lambda>i xs. xs[i := f i (xs ! i)]) [0..<n] xs ! k = (if k < n then f k (xs ! k) else xs ! k)"
    by (induction n) (auto simp: len nth_list_update less_Suc_eq)
qed

lemma default_routed: "length xs = INT_NUM \<Longrightarrow> routed m [] (default_sources xs)"
  using fold_update_nth [where f = "\<lambda>i (r :: Int_SysConf_Info). r\<lparr>IntVector := ucast HW_INT_START + of_nat i,
    GlobalSysInt := of_nat i, Polarity := 0, TriggerMode := 0, isNMI := 0\<rparr>" and n = INT_NUM and xs = xs]
  by (simp add: routed_def default_sources_def routing_def)

lemma override_routed:
  assumes "routed m es xs"
  shows "routed m (es @ [e]) (override_source m e xs)"
proof -
  have "unat (Over_IRQSource m e) < INT_NUM" using unat_lt2p [of "Over_IRQSource m e"] by (simp add: INT_NUM_def)
  with assms show ?thesis
    by (auto simp: routed_def override_source_def Let_def nth_list_update routing_def add.commute)
qed

lemma overrides_routed: "routed m es xs \<Longrightarrow> routed m (es @ fs) (fold (override_source m) fs xs)"
proof (induction fs arbitrary: es xs)
  case (Cons f fs)
  then show ?case using Cons.IH [OF override_routed [OF Cons.prems, of f]] by simp
qed simp

lemma nmi_routed:
  assumes "routed m es xs"
  shows "routed m es (nmi_source m e xs)"
proof -
  define P where "P k \<longleftrightarrow> NMI_GlobalSysInt m e = GlobalSysInt (xs ! unat k)" for k :: u16
  define F where "F k = xs[unat k := (xs ! unat k)\<lparr>isNMI := INT_INFO_IS_NMI,
    TriggerMode := take_bit 2 (drop_bit 2 (ucast (NMI_Flags m e))), Polarity := ucast (NMI_Flags m e) AND 0x03\<rparr>]" for k :: u16
  have "routed m es (F k)" for k
    using assms by (cases "unat k < length xs") (auto simp: routed_def F_def nth_list_update)
  moreover have "nmi_source m e xs = xs \<or> (\<exists>k. nmi_source m e xs = F k)"
    unfolding nmi_source_def P_def [symmetric] F_def [symmetric]
    by (simp only: for_ret_search [where P = P and f = F and body = "\<lambda>k _. if P k then Inl (F k) else Inr ()", OF refl]) auto
  ultimately show ?thesis using assms by auto
qed

lemma nmis_routed: "routed m es xs \<Longrightarrow> routed m es (fold (\<lambda>i. nmi_source m (f i)) is xs)"
  by (induction "is" arbitrary: xs) (simp_all add: nmi_routed)

lemma fold_holds: "holds xs n cap ys \<Longrightarrow> cap \<le> K \<Longrightarrow> fold (\<lambda>i. f (xs ! i)) [0..<min (unat n) K] s = fold f ys s"
proof -
  assume h: "holds xs n cap ys" and K: "cap \<le> K"
  then have "unat n = length ys" by (simp add: holds_def unat_of_nat take_bit_nat_eq_self)
  moreover have "map (nth xs) [0..<length ys] = ys"
  proof (rule nth_equalityI)
    fix i assume "i < length (map (nth xs) [0..<length ys])"
    then have "i < length ys" by simp
    then have "xs ! i = take (length ys) xs ! i" by simp
    also have "\<dots> = ys ! i" using h by (simp add: holds_def)
    finally show "map (nth xs) [0..<length ys] ! i = ys ! i" using \<open>i < length ys\<close> by simp
  qed simp
  ultimately have "fold f (map (nth xs) [0..<min (unat n) K]) s = fold f ys s" using h K by (simp add: holds_def min_def)
  then show ?thesis by (simp add: fold_map o_def)
qed

lemma read_sources_routed:
  assumes "length xs = INT_NUM" and "holds (IntSrcOverride info) (IntSrcOverride_Num info) MAX_INT_NUM es"
  shows "routed m es (read_sources m info xs)"
proof -
  have "fold (\<lambda>i. override_source m (IntSrcOverride info ! i)) [0..<min (unat (IntSrcOverride_Num info)) INT_NUM] ys =
      fold (override_source m) es ys" for ys
    using assms(2) by (rule fold_holds) (simp add: MAX_INT_NUM_def INT_NUM_def)
  then show ?thesis
    using overrides_routed [OF default_routed [OF assms(1)], of m es] by (simp add: read_sources_def Let_def nmis_routed)
qed

text \<open>Good tables: root pointer \<open>rsdp\<close>, interrupt controller table \<open>h\<close> and its entries \<open>qs\<close>.\<close>

definition acpi_tables :: "bytes \<Rightarrow> u32 \<Rightarrow> u32 \<Rightarrow> u32 list \<Rightarrow> bool" where
  "acpi_tables m rsdp h qs \<longleftrightarrow> acpi_get_RSDP_ptr m BIOS_START_ADDR BIOS_END_ADDR = rsdp \<and> rsdp \<noteq> 0 \<and>
     RsdtAddress m rsdp \<noteq> 0 \<and> acpi_find_table m (RsdtAddress m rsdp) MADT_LABEL = h \<and> h \<noteq> 0 \<and>
     acpi_tab_checksum m h (acpi_Length m h) \<and> entries m (h + 44) (h + acpi_Length m h) qs \<and> madt_fits m qs"

text \<open>What ReadSystemConfig leaves in the configuration.\<close>

lemma read_sysconf:
  assumes "acpi_get_RSDP_ptr m BIOS_START_ADDR BIOS_END_ADDR = rsdp" "rsdp \<noteq> 0"
    and "acpi_get_MADT_info m rsdp = Some (True, info)" and "summarises m a qs info"
    and "length (InterruptSource sc) = INT_NUM" and "length (CPUs sc) = MAX_SUPP_PROC_NUM"
  shows "\<exists>sc'. ReadSystemConfig cpuid m sc = Some (0, sc') \<and>
    routed m (map (\<lambda>q. q + 2) (of_type m MADT_ENT_IOAPIC_INT_OVER qs)) (InterruptSource sc') \<and>
    LAPIC_Ptr sc' = lapic_address m qs a \<and>
    unat (CPU_Num sc') = min (length (filter (usable m) (of_type m MADT_ENT_LAPIC qs))) 16 \<and>
    (\<forall>i<unat (CPU_Num sc'). LAPIC_Id (CPUs sc' ! i) = ucast (m (filter (usable m) (of_type m MADT_ENT_LAPIC qs) ! i + 3)))"
proof -
  define us where "us = filter (usable m) (of_type m MADT_ENT_LAPIC qs)"
  have h: "holds (LAPICs info) (LAPICs_Num info) MAX_CPU_NUM (map (\<lambda>q. q + 2) us)"
    "holds (IntSrcOverride info) (IntSrcOverride_Num info) MAX_INT_NUM (map (\<lambda>q. q + 2) (of_type m MADT_ENT_IOAPIC_INT_OVER qs))"
    "LAPIC_ptr info = lapic_address m qs a" using assms(4) by (simp_all add: summarises_def us_def)
  have n: "unat (LAPICs_Num info) = length us" using h(1) by (simp add: holds_def unat_of_nat take_bit_nat_eq_self)
  have us: "LAPICs info ! i = us ! i + 2" if "i < length us" for i
    using h(1) that by (auto simp: holds_def dest: arg_cong [of _ _ "\<lambda>xs. xs ! i"])
  have k: "unat (of_nat (min (length us) 16) :: u8) = min (length us) 16" by (simp add: unat_of_nat take_bit_nat_eq_self)
  have cpu: "fold (\<lambda>i cpus. cpus[i := \<lparr>CoreID = f i, LAPIC_Id = g i\<rparr>]) [0..<n] xs ! j = \<lparr>CoreID = f j, LAPIC_Id = g j\<rparr>"
    if "j < n" "j < length xs" for f g n j and xs :: "CPU_SysConf_Info list"
    using fold_update_nth(2) [of j xs "\<lambda>i _. \<lparr>CoreID = f i, LAPIC_Id = g i\<rparr>" n] that by simp
  define sc1 where "sc1 = read_ioapics m info (read_cpus m info (sc\<lparr>CPU_Info := CPU_GetInfo cpuid, LAPIC_Ptr := LAPIC_ptr info\<rparr>))"
  have "ReadSystemConfig cpuid m sc = Some (0, sc1\<lparr>InterruptSource := read_sources m info (InterruptSource sc)\<rparr>)"
    using assms(1-3) by (simp add: ReadSystemConfig_def sc1_def Let_def read_ioapics_def read_cpus_def)
  moreover have "routed m (map (\<lambda>q. q + 2) (of_type m MADT_ENT_IOAPIC_INT_OVER qs)) (read_sources m info (InterruptSource sc))"
    by (rule read_sources_routed [OF assms(5) h(2)])
  moreover have "LAPIC_Ptr sc1 = lapic_address m qs a" "unat (CPU_Num sc1) = min (length us) 16"
    by (simp_all add: sc1_def read_ioapics_def read_cpus_def Let_def h(3) n k MAX_SUPP_PROC_NUM_def)
  moreover have "LAPIC_Id (CPUs sc1 ! i) = ucast (m (us ! i + 3))" if "i < min (length us) 16" for i
    using that assms(6) us [of i] by (simp add: sc1_def read_ioapics_def read_cpus_def Let_def n MAX_SUPP_PROC_NUM_def cpu add.commute)
  ultimately show ?thesis unfolding us_def [symmetric] by simp
qed


section \<open>Enabling an interrupt\<close>

text \<open>The entry EnableIRQ leaves: unmasked, with the vector and the destination.\<close>

definition enabled_entry :: "u8 \<Rightarrow> nat \<Rightarrow> ioapic_redirect_entry \<Rightarrow> bool" where
  "enabled_entry dest k e \<longleftrightarrow> get_field 16 1 (entry_lower e) = 0 \<and> get_field 0 8 (entry_lower e) = of_nat (32 + k) \<and>
     get_field 8 3 (entry_lower e) = DELIVERY_MODE_FIXED \<and> get_field 24 8 (entry_upper e) = ucast dest"

lemma enable_irq_acpi:
  assumes "ioapic_answers ptr regs0 hw" and "ACPI_Init sc" and "routed m es (InterruptSource sc)" and "k < 223"
  shows "\<exists>tr'. EnableIRQ hw sc ptr dest (HW_INT_START + of_nat k) tr = Some tr' \<and>
    enabled_entry dest k (entry_of (ioapic_regs ptr regs0 tr') (routing m es k)) \<and>
    (\<forall>r. r \<noteq> IOAPIC_ENTRY_LOWER_ADDR (routing m es k) \<longrightarrow> r \<noteq> IOAPIC_ENTRY_UPPER_ADDR (routing m es k) \<longrightarrow>
      ioapic_regs ptr regs0 tr' r = ioapic_regs ptr regs0 tr r)"
proof -
  define line where "line = routing m es k"
  define src where "src = InterruptSource sc ! k"
  have src: "length (InterruptSource sc) = 256" "IntVector src = 32 + of_nat k" "GlobalSysInt src = line"
    using assms(3,4) by (simp_all add: routed_def INT_NUM_def src_def line_def HW_INT_START_def)
  have k: "unat (of_nat k :: u32) = k" using assms(4) by (simp add: unat_of_nat take_bit_nat_eq_self)
  have irq: "IRQ (HW_INT_START + of_nat k) = of_nat k" by (simp add: IRQ_def)
  have u: "unat (HW_INT_START + of_nat k) = 32 + k"
    using assms(4) by (simp add: HW_INT_START_def unat_word_ariths k)
  then have g: "HW_INT_START + of_nat k \<ge> HW_INT_START" "HW_INT_START + of_nat k \<noteq> SPURIOUS_INT_VECTOR"
    using assms(4) by (auto simp: word_le_nat_alt HW_INT_START_def SPURIOUS_INT_VECTOR_def)
  define e where "e = redirect_entry dest (IntVector src) (TriggerMode src) (Polarity src) (ucast DEST_MODE_PHY) (ucast DELIVERY_MODE_FIXED)"
  define tr' where "tr' = IOAPIC_Unmask_IRQ hw ptr line (IOAPIC_IRQ_Setup ptr dest (IntVector src) line (TriggerMode src) (Polarity src)
      (ucast DEST_MODE_PHY) (ucast DELIVERY_MODE_FIXED) tr)"
  have en: "EnableIRQ hw sc ptr dest (HW_INT_START + of_nat k) tr = Some tr'"
    using assms(2,4) g src by (simp add: EnableIRQ_def irq k src_def [symmetric] tr'_def Let_def)
  have regs: "ioapic_regs ptr regs0 tr' = put_entry line (e\<lparr>entry_lower := set_field 16 1 0 (entry_lower e)\<rparr>) (ioapic_regs ptr regs0 tr)"
    by (simp add: tr'_def IOAPIC_Unmask_IRQ_def ioapic_set_mask [OF assms(1)] IOAPIC_IRQ_Setup_def ioapic_entry_write e_def Let_def)
  have "enabled_entry dest k (e\<lparr>entry_lower := set_field 16 1 0 (entry_lower e)\<rparr>)"
  proof -
    have "take_bit 8 (ucast (32 + of_nat k :: u16)) = (of_nat (32 + k) :: u32)"
      using assms(4) by (simp add: word_unat_eq_iff unsigned_take_bit_eq unat_word_ariths unat_of_nat take_bit_nat_eq_self)
    moreover have "take_bit 8 (ucast dest :: u32) = ucast dest"
      by (rule bit_eqI) (auto simp: bit_take_bit_iff bit_ucast_iff dest: bit_imp_le_length)
    ultimately show ?thesis
      by (simp add: enabled_entry_def get_set_field e_def redirect_fields src(2) DELIVERY_MODE_FIXED_def)
  qed
  then have "enabled_entry dest k (entry_of (ioapic_regs ptr regs0 tr') line)" by (simp add: regs)
  moreover have "\<forall>r. r \<noteq> IOAPIC_ENTRY_LOWER_ADDR line \<longrightarrow> r \<noteq> IOAPIC_ENTRY_UPPER_ADDR line \<longrightarrow>
      ioapic_regs ptr regs0 tr' r = ioapic_regs ptr regs0 tr r" by (simp add: regs put_entry_def)
  ultimately show ?thesis using en unfolding line_def by blast
qed

end
