(* ===== verification/IA32_Microtime.thy ===== *)
theory IA32_Microtime
  imports IA32_Systime IA32_Sysconf
begin

text \<open>
  The rest of systime.c: the start of the periodic tick, the calibration of the local timer against
  the tick, and the delays in microseconds that rest on it. As in \<open>IA32_Systime\<close>, \<open>c k\<close> is the
  tick counter at the instant of the \<open>k\<close>-th access; the state of a delay is the instant and the
  history of the device accesses.
\<close>

section \<open>Operations\<close>

record microtime =
  HWTimerEnabled :: bool
  APIC_Ticks_us :: u32

definition TICKS_PER_MS :: u64 where "TICKS_PER_MS = 32"
definition UINT32_MAX :: u32 where "UINT32_MAX = 0xFFFFFFFF"
definition ISA_IRQ0_PIT :: u32 where "ISA_IRQ0_PIT = 0"

text \<open>\<open>tick_isr\<close> is the address of SysTick.\<close>

definition InitSysTime :: "machine \<Rightarrow> SysConf_Info \<Rightarrow> u32 \<Rightarrow> u32 \<Rightarrow> systime \<Rightarrow> u32 list \<Rightarrow> trace \<Rightarrow>
    (systime \<times> u32 list \<times> trace) option" where
  "InitSysTime hw sc ioapic tick_isr t isr_table tr =
     (let t = t\<lparr>SysTickFun_set := False\<rparr>; n = unat (ISA_IRQ0_PIT + HW_INT_START) in
      if n < length isr_table then
        map_option (\<lambda>tr. (t, isr_table[n := tick_isr], tr)) (EnableIRQ hw sc ioapic 0 (ISA_IRQ0_PIT + HW_INT_START) tr)
      else None)"

partial_function (option) apic_clock_wait :: "bool \<Rightarrow> (nat \<Rightarrow> u64) \<Rightarrow> u64 \<Rightarrow> nat \<Rightarrow> nat option" where
  "apic_clock_wait lf c CurrentTime_ms k =
     (if load64 lf c k - CurrentTime_ms < TICKS_PER_MS then apic_clock_wait lf c CurrentTime_ms (k + 2) else Some (k + 2))"

definition get_apic_timer_clock :: "machine \<Rightarrow> u32 \<Rightarrow> SysConf_Info \<Rightarrow> bool \<Rightarrow> (nat \<Rightarrow> u64) \<Rightarrow> nat \<times> trace \<Rightarrow>
    (u32 \<times> nat \<times> trace) option" where
  "get_apic_timer_clock hw va sc lf c s =
     (case s of (k, tr) \<Rightarrow>
        if ACPI_Init sc \<and> LAPIC_Ptr sc \<noteq> 0 then
          let tr = LAPIC_TIM_SetClockDivisor hw va LAPIC_TIM_DIV_1 tr;
              tr = LAPIC_TIM_SetMode hw va LAPIC_TIM_MODE_ONESHOT tr;
              tr = LAPIC_TIM_SetInitCount hw va UINT32_MAX tr;
              CurrentTime_ms = load64 lf c k
          in Option.bind (apic_clock_wait lf c CurrentTime_ms (k + 2)) (\<lambda>k.
             case LAPIC_TIM_GetCurrentCount hw va tr of (n, tr) \<Rightarrow>
               Some (((UINT32_MAX - n) * 1000) div ucast TICKS_PER_MS, k, tr))
        else Some (0, k, tr))"

definition InitMicroTimer :: "machine \<Rightarrow> u32 \<Rightarrow> bool \<Rightarrow> (nat \<Rightarrow> u64) \<Rightarrow> SysConf_Info \<times> microtime \<Rightarrow> nat \<times> trace \<Rightarrow>
    ((SysConf_Info \<times> microtime) \<times> nat \<times> trace) option" where
  "InitMicroTimer hw va lf c x s =
     (case x of (sc, mt) \<Rightarrow>
        map_option (\<lambda>(f, s). let sc = sc\<lparr>LAPIC_tim_freqHz := f\<rparr> in
            ((sc, if f \<noteq> 0 then mt\<lparr>HWTimerEnabled := True, APIC_Ticks_us := LAPIC_tim_freqHz sc div 1000000\<rparr> else mt), s))
          (get_apic_timer_clock hw va sc lf c s))"

partial_function (option) wait_count :: "machine \<Rightarrow> u32 \<Rightarrow> trace \<Rightarrow> trace option" where
  "wait_count hw va tr = (case LAPIC_TIM_GetCurrentCount hw va tr of (n, tr') \<Rightarrow> if n > 0 then wait_count hw va tr' else Some tr')"

definition Wait_us :: "machine \<Rightarrow> u32 \<Rightarrow> microtime \<Rightarrow> bool \<Rightarrow> (nat \<Rightarrow> u64) \<Rightarrow> u64 \<Rightarrow> nat \<times> trace \<Rightarrow> (nat \<times> trace) option" where
  "Wait_us hw va mt lf c time_us s =
     (case s of (k, tr) \<Rightarrow>
        if HWTimerEnabled mt then
          let tr = LAPIC_TIM_SetClockDivisor hw va LAPIC_TIM_DIV_1 tr;
              tr = LAPIC_TIM_SetMode hw va LAPIC_TIM_MODE_ONESHOT tr;
              tr = LAPIC_TIM_SetInitCount hw va (ucast (ucast (APIC_Ticks_us mt) * time_us)) tr
          in map_option (\<lambda>tr. (k, LAPIC_TIM_StopTimer hw va tr)) (wait_count hw va tr)
        else
          let us_to_ms = (if time_us mod 1000 = 0 then 1 else time_us div 1000)
          in map_option (\<lambda>k. (k, tr)) (Wait_ms lf c us_to_ms k))"

section \<open>Polling loops\<close>

text \<open>A loop that reads a device until it is no longer busy, one read per round.\<close>

locale polling =
  fixes busy :: "'s \<Rightarrow> bool \<times> 's" and wait_loop :: "'s \<Rightarrow> 's option"
  assumes loop_step: "wait_loop s = (case busy s of (p, s') \<Rightarrow> if p then wait_loop s' else Some s')"
begin

definition polls :: "nat \<Rightarrow> 's \<Rightarrow> 's" where
  "polls m s = ((\<lambda>s. snd (busy s)) ^^ m) s"

lemma polls_0: "polls 0 s = s"
  by (simp add: polls_def)

lemma polls_Suc: "polls (Suc m) s = polls m (snd (busy s))"
  by (simp add: polls_def funpow_Suc_right del: funpow.simps)

text \<open>The loop ends with the first read that finds the device idle.\<close>

lemma wait_ends:
  "\<not> fst (busy (polls m s)) \<Longrightarrow>
   \<exists>n\<le>m. wait_loop s = Some (polls (Suc n) s) \<and> \<not> fst (busy (polls n s)) \<and> (\<forall>j<n. fst (busy (polls j s)))"
proof (induction m arbitrary: s)
  case 0
  then show ?case by (subst loop_step) (auto simp: polls_0 polls_Suc split: prod.splits)
next
  case (Suc m)
  show ?case
  proof (cases "fst (busy s)")
    case True
    have "\<not> fst (busy (polls m (snd (busy s))))" using Suc.prems by (simp add: polls_Suc)
    then obtain n where "n \<le> m" "wait_loop (snd (busy s)) = Some (polls (Suc n) (snd (busy s)))"
      "\<not> fst (busy (polls n (snd (busy s))))" "\<forall>j<n. fst (busy (polls j (snd (busy s))))" using Suc.IH by blast
    moreover have "wait_loop s = wait_loop (snd (busy s))" using True by (subst loop_step) (auto split: prod.splits)
    ultimately show ?thesis using True by (intro exI [of _ "Suc n"]) (auto simp: polls_Suc polls_0 less_Suc_eq_0_disj)
  next
    case False
    then have "wait_loop s = Some (polls (Suc 0) s)" by (subst loop_step) (auto simp: polls_0 polls_Suc split: prod.splits)
    then show ?thesis using False by (intro exI [of _ 0]) (simp add: polls_0)
  qed
qed

end

definition count_running :: "machine \<Rightarrow> u32 \<Rightarrow> trace \<Rightarrow> bool \<times> trace" where
  "count_running hw va tr = apfst (\<lambda>n. n > 0) (LAPIC_TIM_GetCurrentCount hw va tr)"

definition clock_running :: "bool \<Rightarrow> (nat \<Rightarrow> u64) \<Rightarrow> u64 \<Rightarrow> nat \<Rightarrow> bool \<times> nat" where
  "clock_running lf c t k = (load64 lf c k - t < TICKS_PER_MS, k + 2)"

interpretation ipi: polling "IPI_isPending hw va" "wait_ipi hw va" for hw va
  by unfold_locales (rule wait_ipi.simps)

interpretation count: polling "count_running hw va" "wait_count hw va" for hw va
  by unfold_locales (subst wait_count.simps, simp add: count_running_def split: prod.splits)

interpretation calib: polling "clock_running lf c t" "apic_clock_wait lf c t" for lf c t
  by unfold_locales (subst apic_clock_wait.simps, simp add: clock_running_def)

section \<open>Calibration\<close>

text \<open>Below 2 to the 32, a load of the counter yields its value at one of its two accesses.\<close>

lemma load64_below:
  assumes "\<And>i. c i < 0x100000000"
  shows "load64 lf c k = c k \<or> load64 lf c k = c (Suc k)"
proof -
  have "drop_bit 32 (c i) = 0" for i
    using assms [of i] by (simp add: drop_bit_eq_div word_less_nat_alt unat_eq_zero [symmetric] unat_div div_less)
  moreover have "take_bit 32 (c i) = c i" for i
    using assms [of i] by (simp add: take_bit_eq_mod word_unat_eq_iff unat_mod word_less_nat_alt)
  ultimately show ?thesis by (simp add: load64_def)
qed

lemma apic_clock_wait_ok:
  assumes c: "\<And>i. c i < 0x100000000" and m: "mono c" and t: "t \<le> c k" and far: "unat t + 32 \<le> unat (c K)"
  shows "\<exists>k'. apic_clock_wait lf c t k = Some k' \<and> unat t + 32 \<le> unat (c k')"
proof -
  have mn: "unat (c a) \<le> unat (c b)" if "a \<le> b" for a b using m that by (simp add: mono_def word_le_nat_alt)
  have p: "calib.polls lf c t n k = k + 2 * n" for n
    by (induction n arbitrary: k) (simp_all add: calib.polls_0 calib.polls_Suc clock_running_def)
  have run: "fst (clock_running lf c t j) \<longleftrightarrow> unat (load64 lf c j) < unat t + 32" and below: "unat (load64 lf c j) \<le> unat (c (j + 2))"
    and above: "unat (c j) \<le> unat (load64 lf c j)" if "k \<le> j" for j
  proof -
    have "load64 lf c j = c j \<or> load64 lf c j = c (Suc j)" by (rule load64_below [OF c])
    then show "unat (load64 lf c j) \<le> unat (c (j + 2))" and a: "unat (c j) \<le> unat (load64 lf c j)"
      using mn [of j "j + 2"] mn [of "Suc j" "j + 2"] mn [of j "Suc j"] by auto
    have "unat t \<le> unat (load64 lf c j)" using t a mn [OF that] by (simp add: word_le_nat_alt)
    then show "fst (clock_running lf c t j) \<longleftrightarrow> unat (load64 lf c j) < unat t + 32"
      by (simp add: clock_running_def TICKS_PER_MS_def word_less_nat_alt unat_sub_if_size) arith
  qed
  have "\<not> fst (clock_running lf c t (calib.polls lf c t K k))"
    using run [of "k + 2 * K"] above [of "k + 2 * K"] mn [of K "k + 2 * K"] far by (simp add: p)
  then obtain n where n: "apic_clock_wait lf c t k = Some (k + 2 * Suc n)" "\<not> fst (clock_running lf c t (k + 2 * n))"
    using calib.wait_ends [of lf c t K k] by (auto simp: p)
  then have "unat t + 32 \<le> unat (c (k + 2 * n + 2))" using run [of "k + 2 * n"] below [of "k + 2 * n"] by simp
  then show ?thesis using n(1) by (auto simp: algebra_simps)
qed

text \<open>What the calibration writes before it waits.\<close>

definition timer_programmed :: "machine \<Rightarrow> u32 \<Rightarrow> u32 \<Rightarrow> trace \<Rightarrow> trace" where
  "timer_programmed hw va n tr =
     LAPIC_TIM_SetInitCount hw va n (LAPIC_TIM_SetMode hw va LAPIC_TIM_MODE_ONESHOT (LAPIC_TIM_SetClockDivisor hw va LAPIC_TIM_DIV_1 tr))"

text \<open>
  The clock is the number of timer ticks during the wait, scaled to a second, as long as a thousand
  times that number fits in 32 bits.
\<close>

lemma get_apic_timer_clock_measures:
  assumes c: "\<And>i. c i < 0x100000000" "mono c" and far: "unat (c (Suc k)) + 32 \<le> unat (c K)"
    and sc: "ACPI_Init sc" "LAPIC_Ptr sc \<noteq> 0"
    and n: "fst (LAPIC_TIM_GetCurrentCount hw va (timer_programmed hw va UINT32_MAX tr)) = UINT32_MAX - of_nat n" and fits: "n * 1000 < 2 ^ 32"
  shows "\<exists>k' tr'. get_apic_timer_clock hw va sc lf c (k, tr) = Some (of_nat (n * 1000 div 32), k', tr') \<and> unat (c k) + 32 \<le> unat (c k')"
proof -
  define t where "t = load64 lf c k"
  have mn: "c a \<le> c b" if "a \<le> b" for a b using c(2) that by (simp add: mono_def)
  have t: "c k \<le> t" "t \<le> c (Suc k)" "t \<le> c (k + 2)"
    using load64_below [of c lf k, OF c(1)] mn [of k "Suc k"] mn [of k "k + 2"] mn [of "Suc k" "k + 2"] by (auto simp: t_def)
  then have "unat t + 32 \<le> unat (c K)" using far by (simp add: word_le_nat_alt)
  then obtain k' where k': "apic_clock_wait lf c t (k + 2) = Some k'" "unat t + 32 \<le> unat (c k')"
    using apic_clock_wait_ok [of c t "k + 2" K lf, OF c t(3)] by blast
  have "UINT32_MAX - (UINT32_MAX - of_nat n) = (of_nat n :: u32)" by simp
  moreover have "(of_nat n * 1000 :: u32) div ucast TICKS_PER_MS = of_nat (n * 1000 div 32)"
    using fits by (simp add: TICKS_PER_MS_def word_unat_eq_iff unat_div unat_word_ariths unat_of_nat take_bit_nat_eq_self)
  ultimately show ?thesis using k' sc n t(1)
    by (auto simp: get_apic_timer_clock_def t_def [symmetric] timer_programmed_def word_le_nat_alt Let_def split: prod.splits)
qed

lemma InitMicroTimer_measures:
  assumes "\<And>i. c i < 0x100000000" "mono c" and "unat (c (Suc k)) + 32 \<le> unat (c K)"
    and "ACPI_Init sc" "LAPIC_Ptr sc \<noteq> 0"
    and "fst (LAPIC_TIM_GetCurrentCount hw va (timer_programmed hw va UINT32_MAX tr)) = UINT32_MAX - of_nat n" and "n * 1000 < 2 ^ 32" "32 \<le> n * 1000"
  shows "\<exists>s'. InitMicroTimer hw va lf c (sc, mt) (k, tr) =
    Some ((sc\<lparr>LAPIC_tim_freqHz := of_nat (n * 1000 div 32)\<rparr>, mt\<lparr>HWTimerEnabled := True, APIC_Ticks_us := of_nat (n div 32000)\<rparr>), s')"
proof -
  obtain k' tr' where g: "get_apic_timer_clock hw va sc lf c (k, tr) = Some (of_nat (n * 1000 div 32), k', tr')"
    using get_apic_timer_clock_measures [OF assms(1-7), of lf] by blast
  have u: "unat (of_nat (n * 1000 div 32) :: u32) = n * 1000 div 32"
    using assms(7) by (simp add: unat_of_nat take_bit_nat_eq_self)
  then have "(of_nat (n * 1000 div 32) :: u32) \<noteq> 0" using assms(8) by (simp add: unat_eq_zero [symmetric] div_eq_0_iff)
  moreover have "(of_nat (n * 1000 div 32) :: u32) div 1000000 = of_nat (n div 32000)"
  proof -
    have "n * 1000 div 32 div 1000000 = n div 32000" using div_mult_mult2 [of 1000 n 32000] by (simp add: div_mult2_eq [symmetric])
    moreover have "n div 32000 < 2 ^ 32" using assms(7) by (simp add: div_less_iff_less_mult)
    ultimately show ?thesis using u by (simp add: word_unat_eq_iff unat_div unat_of_nat take_bit_nat_eq_self)
  qed
  ultimately show ?thesis using g by (simp add: InitMicroTimer_def)
qed

section \<open>Delays in microseconds\<close>

text \<open>A timer that runs out: after finitely many reads its count is 0.\<close>

definition expires :: "machine \<Rightarrow> u32 \<Rightarrow> bool" where
  "expires hw va \<longleftrightarrow> (\<forall>tr. \<exists>m. fst (LAPIC_TIM_GetCurrentCount hw va (count.polls hw va m tr)) = 0)"

lemma wait_count_ends:
  assumes "expires hw va"
  obtains n where "wait_count hw va tr = Some (count.polls hw va (Suc n) tr)"
    "fst (LAPIC_TIM_GetCurrentCount hw va (count.polls hw va n tr)) = 0"
    "\<And>j. j < n \<Longrightarrow> fst (LAPIC_TIM_GetCurrentCount hw va (count.polls hw va j tr)) > 0"
proof -
  obtain m where "fst (LAPIC_TIM_GetCurrentCount hw va (count.polls hw va m tr)) = 0" using assms by (auto simp: expires_def)
  then have "\<not> fst (count_running hw va (count.polls hw va m tr))" by (simp add: count_running_def)
  then show thesis using that count.wait_ends [of hw va m tr] by (auto simp: count_running_def simp flip: word_neq_0_conv)
qed

lemma Wait_us_timer:
  assumes "HWTimerEnabled mt" and "expires hw va" and fits: "unat (APIC_Ticks_us mt) * unat d < 2 ^ 32"
  shows "\<exists>n. Wait_us hw va mt lf c d (k, tr) =
      Some (k, LAPIC_TIM_StopTimer hw va (count.polls hw va (Suc n) (timer_programmed hw va (of_nat (unat (APIC_Ticks_us mt) * unat d)) tr))) \<and>
    fst (LAPIC_TIM_GetCurrentCount hw va (count.polls hw va n (timer_programmed hw va (of_nat (unat (APIC_Ticks_us mt) * unat d)) tr))) = 0"
proof -
  define N where "N = unat (APIC_Ticks_us mt) * unat d"
  have "(ucast (APIC_Ticks_us mt) * d :: u64) = of_nat N" by (simp add: N_def word_unat_eq_iff unat_word_ariths unat_of_nat unsigned_ucast_eq take_bit_eq_mod mod_mult_left_eq)
  then have e: "(ucast (ucast (APIC_Ticks_us mt) * d :: u64) :: u32) = of_nat N"
    using fits by (simp add: N_def [symmetric] word_unat_eq_iff unsigned_ucast_eq unat_of_nat take_bit_nat_eq_self)
  show ?thesis
  proof (rule wait_count_ends [OF assms(2), of "timer_programmed hw va (of_nat N) tr"])
    fix n assume "wait_count hw va (timer_programmed hw va (of_nat N) tr) = Some (count.polls hw va (Suc n) (timer_programmed hw va (of_nat N) tr))"
      "fst (LAPIC_TIM_GetCurrentCount hw va (count.polls hw va n (timer_programmed hw va (of_nat N) tr))) = 0"
    then show ?thesis using assms(1) by (auto simp: Wait_us_def e timer_programmed_def Let_def N_def [symmetric] simp del: of_nat_mult)
  qed
qed

text \<open>Without the timer a delay of whole milliseconds, however long, is a delay of one millisecond.\<close>

lemma Wait_us_whole_ms: "\<not> HWTimerEnabled mt \<Longrightarrow> d mod 1000 = 0 \<Longrightarrow> Wait_us hw va mt lf c d (k, tr) = map_option (\<lambda>k. (k, tr)) (Wait_ms lf c 1 k)"
  by (simp add: Wait_us_def)

text \<open>The mask of three bits turns the divisor 1, whose code is 1011, into the divisor 16, whose code is 0011.\<close>

lemma divisor_of_16: "LAPIC_TIM_SetClockDivisor hw va LAPIC_TIM_DIV_1 tr = LAPIC_write_reg hw va LAPIC_TIMER_DIV_CONF 3 tr"
  by (simp add: LAPIC_TIM_SetClockDivisor_def BIT_FIELD_32_def LAPIC_TIM_DIV_1_def)

end
