(* ===== verification/IA32_Delays.thy ===== *)
theory IA32_Delays
  imports IA32_Microtime
begin

text \<open>
  Delays on a counter that keeps ticking. The number of ticks so far is a natural number \<open>T k\<close> at the
  instant of the \<open>k\<close>-th access; it never decreases, grows without bound, and no two ticks fall between
  two accesses. The counter is that number modulo 2 to the 64, so the delays return at every instant,
  also when the counter wraps around.
\<close>

definition ticking :: "(nat \<Rightarrow> nat) \<Rightarrow> bool" where
  "ticking T \<longleftrightarrow> (\<forall>k. T k \<le> T (Suc k) \<and> T (Suc k) \<le> Suc (T k)) \<and> (\<forall>n. \<exists>k. n \<le> T k)"

definition counter :: "(nat \<Rightarrow> nat) \<Rightarrow> nat \<Rightarrow> u64" where
  "counter T k = of_nat (T k)"

lemma ticking_add: "ticking T \<Longrightarrow> T k \<le> T (k + n) \<and> T (k + n) \<le> T k + n"
proof (induction n)
  case (Suc n)
  then have "T (k + n) \<le> T (Suc (k + n))" "T (Suc (k + n)) \<le> Suc (T (k + n))" by (simp_all add: ticking_def)
  with Suc show ?case by simp
qed simp

lemma ticking_near: "ticking T \<Longrightarrow> a \<le> b \<Longrightarrow> T a \<le> T b \<and> T b \<le> T a + (b - a)"
  using ticking_add [of T a "b - a"] by simp

abbreviation half :: nat where "half \<equiv> 4294967296"

lemma div_near: "a \<le> b \<Longrightarrow> b \<le> a + 7 \<Longrightarrow> b div half = a div half \<or> b div half = Suc (a div half)"
proof -
  assume "a \<le> b" "b \<le> a + 7"
  then have "a div half \<le> b div half" "b div half \<le> (a + half) div half" by (auto intro!: div_le_mono)
  then show ?thesis by auto
qed

lemma high_half:
  assumes "T i \<le> T j" "T j \<le> T i + 7"
  shows "drop_bit 32 (counter T i) = drop_bit 32 (counter T j) \<longleftrightarrow> T i div half = T j div half"
proof -
  have u: "unat (drop_bit 32 (counter T i)) = T i div half mod half" for i
  proof -
    have "T i mod (half * half) div half = T i div half mod half" using mod_mult2_eq [of "T i" half half] by simp
    then show ?thesis by (simp add: counter_def drop_bit_eq_div unat_div unat_of_nat take_bit_eq_mod)
  qed
  have "q mod half \<noteq> Suc q mod half" for q :: nat by (simp add: mod_Suc)
  then show ?thesis using div_near [OF assms] by (metis u word_unat_eq_iff)
qed

lemma no_second_carry:
  assumes "a \<le> b" "b \<le> a + 2" "a div half \<noteq> b div half" and "b \<le> c" "c \<le> d" "d \<le> b + 4"
  shows "c div half = d div half"
proof -
  define q where "q = b div half"
  have "q = Suc (a div half)" using div_near [of a b] assms by (auto simp: q_def)
  then have "a < q * half" using div_mult_mod_eq [of a half] mod_less_divisor [of half a] by simp
  moreover have "q * half \<le> b" by (simp add: q_def)
  ultimately have "q * half \<le> c" "c < Suc q * half" "q * half \<le> d" "d < Suc q * half" using assms by simp_all
  then have "c div half = q" "d div half = q" by (intro div_nat_eqI; simp)+
  then show ?thesis by simp
qed

lemma ReadTimeCounter_round:
  assumes T: "ticking T"
  shows "ReadTimeCounter True (counter T) k =
    (if T (k + 1) div half = T (k + 3) div half then Some (counter T (k + 2), k + 4) else ReadTimeCounter True (counter T) (k + 4))"
proof -
  have e: "k + 1 = Suc k" "k + 3 = Suc (k + 2)" by simp_all
  have h: "drop_bit 32 (counter T (k + 1)) = drop_bit 32 (counter T (k + 3)) \<longleftrightarrow> T (k + 1) div half = T (k + 3) div half"
    using ticking_near [OF T, of "k + 1" "k + 3"] by (intro high_half) simp_all
  have t: "T (k + 1) \<le> T (k + 2)" "T (k + 2) \<le> T (k + 3)" "T (k + 3) \<le> T (k + 2) + 1"
    using ticking_near [OF T, of "k + 1" "k + 2"] ticking_near [OF T, of "k + 2" "k + 3"] by simp_all
  have mid: "T (k + 2) div half = T (k + 3) div half" if "T (k + 1) div half = T (k + 3) div half"
    using that div_le_mono [OF t(1), of half] div_le_mono [OF t(2), of half] by simp
  have "load64 True (counter T) (k + 2) = counter T (k + 2)" if "T (k + 1) div half = T (k + 3) div half"
  proof (rule load64_low_first)
    have "T (k + 3) \<le> T (k + 2) + 7" using t(3) by simp
    then have "drop_bit 32 (counter T (k + 2)) = drop_bit 32 (counter T (k + 3))" using high_half [of T "k + 2" "k + 3"] t(2) mid [OF that] by blast
    then show "drop_bit 32 (counter T (Suc (k + 2))) = drop_bit 32 (counter T (k + 2))" by (simp only: e(2))
  qed
  moreover have "drop_bit 32 (load64 True (counter T) k) = drop_bit 32 (counter T (k + 1))"
    "drop_bit 32 (load64 True (counter T) (k + 2)) = drop_bit 32 (counter T (k + 3))" by (simp_all only: drop_load64 e)
  ultimately show ?thesis unfolding ReadTimeCounter.simps [of True "counter T" k] Let_def using h by auto
qed

lemma ReadTimeCounter_ticking:
  assumes T: "ticking T"
  obtains j k' where "ReadTimeCounter True (counter T) k = Some (counter T j, k')" "k \<le> j" "j < k'" "k' \<le> k + 8"
proof (cases "T (k + 1) div half = T (k + 3) div half")
  case True
  then show thesis using that [of "k + 2" "k + 4"] ReadTimeCounter_round [OF T, of k] by simp
next
  case False
  have T5: "T (k + 1) \<le> T (k + 3)" "T (k + 3) \<le> T (k + 1) + 2" "T (k + 3) \<le> T (k + 5)" "T (k + 5) \<le> T (k + 7)" "T (k + 7) \<le> T (k + 3) + 4"
    using ticking_near [OF T, of "k + 1" "k + 3"] ticking_near [OF T, of "k + 3" "k + 5"] ticking_near [OF T, of "k + 5" "k + 7"]
      ticking_near [OF T, of "k + 3" "k + 7"] by simp_all
  have e: "k + 4 + 1 = k + 5" "k + 4 + 2 = k + 6" "k + 4 + 3 = k + 7" "k + 4 + 4 = k + 8" by simp_all
  from no_second_carry [OF T5(1,2) False T5(3-5)]
  have "ReadTimeCounter True (counter T) (k + 4) = Some (counter T (k + 6), k + 8)"
    using ReadTimeCounter_round [OF T, of "k + 4"] by (simp only: e if_True refl)
  then show thesis using that [of "k + 6" "k + 8"] ReadTimeCounter_round [OF T, of k] False by simp
qed

lemma Wait_ms_loop_ticking:
  assumes T: "ticking T" and d: "unat d + 16 < 2 ^ 64" and j: "j \<le> k" and k: "T k \<le> T j + unat d + 8"
  shows "\<exists>k'. Wait_ms_loop True (counter T) (counter T j) d k = Some k' \<and> T j + unat d \<le> T k' \<and> T k' \<le> T j + unat d + 16"
proof -
  obtain K where K: "T j + unat d \<le> T K" using T by (auto simp: ticking_def)
  have mn: "T a \<le> T b" if "a \<le> b" for a b using ticking_near [OF T that] by simp
  show ?thesis using j k
  proof (induction "Suc K - k" arbitrary: k rule: less_induct)
    case less
    obtain i k2 where rd: "ReadTimeCounter True (counter T) k = Some (counter T i, k2)" and i: "k \<le> i" "i < k2" "k2 \<le> k + 8"
      using ReadTimeCounter_ticking [OF T] .
    have Ti: "T j \<le> T i" "T i \<le> T k2" "T k2 \<le> T k + 8" "T k2 \<le> T i + 8"
      using mn [of j i] mn [of i k2] ticking_add [OF T, of k 8] mn [of k2 "k + 8"] ticking_add [OF T, of i 8] mn [of k2 "i + 8"] less.prems i by simp_all
    have "counter T i - counter T j = of_nat (T i - T j)" using Ti(1) by (simp add: counter_def of_nat_diff)
    moreover have "T i - T j < 2 ^ 64" using Ti less.prems(2) d by simp
    ultimately have lt: "counter T i - counter T j < d \<longleftrightarrow> T i < T j + unat d"
      using Ti(1) by (simp add: word_less_nat_alt unat_of_nat take_bit_nat_eq_self del: of_nat_diff) arith
    show ?case
    proof (cases "T i < T j + unat d")
      case True
      then have "i < K" using K mn [of K i] by (meson leD leI le_less_trans)
      then have "\<exists>k'. Wait_ms_loop True (counter T) (counter T j) d k2 = Some k' \<and> T j + unat d \<le> T k' \<and> T k' \<le> T j + unat d + 16"
        using True Ti less.prems i by (intro less.hyps) auto
      then show ?thesis using True lt rd by (subst Wait_ms_loop.simps) (simp add: GetSysTime_ms_def)
    next
      case False
      then show ?thesis using lt rd Ti less.prems(2) by (subst Wait_ms_loop.simps) (simp add: GetSysTime_ms_def)
    qed
  qed
qed

text \<open>The delay is at least as long as asked, and longer by at most 24 ticks.\<close>

lemma Wait_ms_ticking:
  assumes T: "ticking T" and d: "unat d + 16 < 2 ^ 64"
  obtains k' where "Wait_ms True (counter T) d k = Some k'" "T k + unat d \<le> T k'" "T k' \<le> T k + unat d + 24"
proof -
  obtain j k1 where rd: "ReadTimeCounter True (counter T) k = Some (counter T j, k1)" and j: "k \<le> j" "j < k1" "k1 \<le> k + 8"
    using ReadTimeCounter_ticking [OF T] .
  have mn: "T a \<le> T b" if "a \<le> b" for a b using ticking_near [OF T that] by simp
  have "T k \<le> T j" "T j \<le> T k + 8" "T k1 \<le> T j + 8"
    using mn [of k j] mn [of j "k + 8"] ticking_add [OF T, of k 8] ticking_add [OF T, of j 8] mn [of k1 "j + 8"] j by simp_all
  then show thesis using Wait_ms_loop_ticking [OF T d, of j k1] j rd that by (fastforce simp: Wait_ms_def GetSysTime_ms_def)
qed

section \<open>The wait of the calibration\<close>

text \<open>The counter takes every value, so the wait meets one that is far enough from any start.\<close>

lemma ticking_onto:
  assumes T: "ticking T" and "T a \<le> n"
  obtains j where "a \<le> j" "T j = n"
proof -
  obtain b where b: "n \<le> T b" using T by (auto simp: ticking_def)
  define m where "m = (LEAST m. n \<le> T (a + m))"
  have "n \<le> T (a + b)" using b ticking_near [OF T, of b "a + b"] by simp
  then have m: "n \<le> T (a + m)" unfolding m_def by (rule LeastI)
  have "T (a + m) \<le> n"
  proof (cases m)
    case (Suc l)
    then have "\<not> n \<le> T (a + l)" unfolding m_def by (intro not_less_Least) simp
    then show ?thesis using ticking_near [OF T, of "a + l" "a + m"] Suc by simp
  qed (use assms(2) in simp)
  then show thesis using that [of "a + m"] m by simp
qed

lemma load64_exact:
  assumes "ticking T" and "T j div half = T (Suc j) div half"
  shows "load64 True (counter T) j = counter T j"
proof (rule load64_low_first)
  have "T j \<le> T (Suc j)" "T (Suc j) \<le> T j + 7" using ticking_near [OF assms(1), of j "Suc j"] by simp_all
  then show "drop_bit 32 (counter T (Suc j)) = drop_bit 32 (counter T j)" using high_half [of T j "Suc j"] assms(2) by metis
qed

lemma apic_clock_wait_returns:
  assumes T: "ticking T"
  shows "\<exists>k'. apic_clock_wait True (counter T) t k = Some k'"
proof -
  define u where "u = unat t"
  obtain d where d: "d = 64 \<or> d = 128" "(u + d) mod half + 2 < half"
  proof (cases "(u + 64) mod half + 2 < half")
    case False
    define v where "v = (u + 64) mod half"
    have v: "v < half" "half \<le> v + 2" using False by (simp_all add: v_def)
    have "(u + 128) mod half = (u + 64 + 64) mod half" by (simp only: add.assoc numeral_plus_numeral arith_simps)
    also have "\<dots> = (v + 64) mod half" unfolding v_def by (rule mod_add_left_eq [symmetric])
    also have "\<dots> = v + 64 - half" using v by (subst le_mod_geq) simp_all
    finally have "(u + 128) mod half + 2 < half" using v by linarith
    then show thesis using that [of 128] by simp
  qed (use that [of 64] in simp)
  define X where "X = u + d + 2 ^ 64 * T k"
  have X: "X mod half + 2 < half" "T k \<le> X" "(of_nat X :: u64) = of_nat (u + d)"
  proof -
    have "(2 :: nat) ^ 64 * T k = half * (half * T k)" by simp
    then have "X mod half = (u + d) mod half" unfolding X_def by (simp only: mod_mult_self2)
    then show "X mod half + 2 < half" using d(2) by simp
    show "T k \<le> X" by (simp add: X_def)
    show "(of_nat X :: u64) = of_nat (u + d)" unfolding X_def word_of_nat_eq_iff take_bit_eq_mod by simp
  qed
  obtain j0 where j0: "k \<le> j0" "T j0 = X" using ticking_onto [OF T X(2)] .
  obtain m where m: "k + 2 * m = j0 \<or> k + 2 * m = Suc j0"
  proof -
    obtain l where l: "j0 = k + l" using j0(1) le_Suc_ex by blast
    show thesis using that [of "l div 2"] that [of "Suc (l div 2)"] l by (cases "even l") (auto elim!: evenE oddE)
  qed
  define j where "j = k + 2 * m"
  have Tj: "X \<le> T j" "T j \<le> Suc X" "T j \<le> T (Suc j)" "T (Suc j) \<le> X + 2"
    using ticking_near [OF T, of j0 j] ticking_near [OF T, of j "Suc j"] ticking_near [OF T, of j0 "Suc j"] m j0(2) by (auto simp: j_def)
  have q: "n div half = X div half" if "X \<le> n" "n \<le> X + 2" for n
  proof -
    define q where "q = X div half"
    have "q * half + X mod half = X" unfolding q_def by (rule div_mult_mod_eq)
    then have "half * q \<le> n" "n < half * Suc q" using X(1) that by simp_all
    then show ?thesis unfolding q_def [symmetric] by (intro div_nat_eqI)
  qed
  have "load64 True (counter T) j = counter T j" using q [of "T j"] q [of "T (Suc j)"] Tj by (intro load64_exact [OF T]) simp
  moreover have "counter T j - t = of_nat (d + (T j - X))"
  proof -
    have "(of_nat (T j) :: u64) = of_nat X + of_nat (T j - X)" using Tj(1) by (simp add: of_nat_diff)
    then show ?thesis by (simp add: counter_def X(3) u_def)
  qed
  moreover have "unat (of_nat (d + (T j - X)) :: u64) = d + (T j - X)"
  proof -
    have "d + (T j - X) < 2 ^ 64" using d(1) Tj(2) by auto
    then show ?thesis unfolding unat_of_nat by (intro mod_less) simp
  qed
  ultimately have "\<not> fst (clock_running True (counter T) t j)"
    using d(1) by (auto simp: clock_running_def TICKS_PER_MS_def word_less_nat_alt)
  moreover have "calib.polls True (counter T) t n k = k + 2 * n" for n
    by (induction n arbitrary: k) (simp_all add: calib.polls_0 calib.polls_Suc clock_running_def)
  ultimately show ?thesis using calib.wait_ends [of True "counter T" t m k] by (auto simp: j_def)
qed

lemma InitMicroTimer_returns:
  assumes "ticking T"
  obtains f k' tr' where "InitMicroTimer hw va True (counter T) (sc, mt) (k, tr) =
    Some ((sc\<lparr>LAPIC_tim_freqHz := f\<rparr>, if f \<noteq> 0 then mt\<lparr>HWTimerEnabled := True, APIC_Ticks_us := f div 1000000\<rparr> else mt), k', tr')"
proof -
  obtain f k' tr' where g: "get_apic_timer_clock hw va sc True (counter T) (k, tr) = Some (f, k', tr')"
  proof -
    obtain k' where "apic_clock_wait True (counter T) (load64 True (counter T) k) (k + 2) = Some k'" using apic_clock_wait_returns [OF assms] by blast
    then have "get_apic_timer_clock hw va sc True (counter T) (k, tr) \<noteq> None" by (simp add: get_apic_timer_clock_def Let_def split: prod.split)
    then show thesis using that by auto
  qed
  then show thesis using that [of f k' tr'] by (simp add: InitMicroTimer_def Let_def)
qed

end
