(* ===== verification/IA32_Tables.thy ===== *)
theory IA32_Tables
  imports IA32_Sysconf "HOL-Library.Monad_Syntax"
begin

text \<open>
  The descriptor tables of the processor (tables.c and the table part of sysinit.c): segment and
  gate descriptors as the packed structures of the source, the task state segment, and the
  registers that the load instructions set. A store outside of a table is \<open>None\<close>.
\<close>

section \<open>Descriptors\<close>

record gdt_entry =
  limit_low :: u16
  base_low :: u16
  base_mid :: u8
  p_dpl_s_type :: u8
  g_db_a_limit_high :: u8
  base_high :: u8

record idt_entry =
  isr_low :: u16
  kernel_cs :: u16
  reserved :: u8
  attributes :: u8
  isr_high :: u16

record tss_entry =
  prev_tss :: u32
  tss_esp0 :: u32
  tss_ss0 :: u32
  tss_esp1 :: u32
  tss_ss1 :: u32
  tss_esp2 :: u32
  tss_ss2 :: u32
  tss_cr3 :: u32
  tss_eip :: u32
  tss_eflags :: u32
  tss_eax :: u32
  tss_ecx :: u32
  tss_edx :: u32
  tss_ebx :: u32
  tss_esp :: u32
  tss_ebp :: u32
  tss_esi :: u32
  tss_edi :: u32
  tss_es :: u32
  tss_cs :: u32
  tss_ss :: u32
  tss_ds :: u32
  tss_fs :: u32
  tss_gs :: u32
  tss_ldt :: u32
  tss_trap :: u16
  tss_iomap_base :: u16

definition zero_tss :: tss_entry where
  "zero_tss = \<lparr>prev_tss = 0, tss_esp0 = 0, tss_ss0 = 0, tss_esp1 = 0, tss_ss1 = 0, tss_esp2 = 0, tss_ss2 = 0,
     tss_cr3 = 0, tss_eip = 0, tss_eflags = 0, tss_eax = 0, tss_ecx = 0, tss_edx = 0, tss_ebx = 0, tss_esp = 0, tss_ebp = 0,
     tss_esi = 0, tss_edi = 0, tss_es = 0, tss_cs = 0, tss_ss = 0, tss_ds = 0, tss_fs = 0, tss_gs = 0, tss_ldt = 0,
     tss_trap = 0, tss_iomap_base = 0\<rparr>"

record table_reg =
  reg_limit :: u16
  reg_base :: u32

definition GDT_SEG_NUM :: nat where "GDT_SEG_NUM = 6"
definition KERNEL_CODE_SEL :: u16 where "KERNEL_CODE_SEL = 8"
definition KERNEL_DATA_SEL :: u16 where "KERNEL_DATA_SEL = 16"
definition INTGATE :: u8 where "INTGATE = 0x8E"
definition BSP_INDEX :: u32 where "BSP_INDEX = 0"
definition sizeof_tss_entry :: u32 where "sizeof_tss_entry = 104"

definition put_at :: "'a list \<Rightarrow> nat \<Rightarrow> 'a \<Rightarrow> 'a list option" where
  "put_at xs i v = (if i < length xs then Some (xs[i := v]) else None)"

definition gdt_descriptor :: "u32 \<Rightarrow> u32 \<Rightarrow> u8 \<Rightarrow> u8 \<Rightarrow> gdt_entry" where
  "gdt_descriptor limit base access flags =
     \<lparr>limit_low = ucast (limit AND 0xFFFF), base_low = ucast (base AND 0xFFFF),
      base_mid = ucast (drop_bit 16 base AND 0xFF), p_dpl_s_type = access,
      g_db_a_limit_high = ucast ((drop_bit 16 limit AND 0xF) OR (push_bit 4 (ucast flags) AND 0xFF)),
      base_high = ucast (drop_bit 24 base AND 0xFF)\<rparr>"

definition Set_GDT_descriptor :: "gdt_entry list \<Rightarrow> u8 \<Rightarrow> u32 \<Rightarrow> u32 \<Rightarrow> u8 \<Rightarrow> u8 \<Rightarrow> gdt_entry list option" where
  "Set_GDT_descriptor inGdt vector limit base access flags = put_at inGdt (unat vector) (gdt_descriptor limit base access flags)"

definition idt_descriptor :: "u32 \<Rightarrow> u8 \<Rightarrow> idt_entry" where
  "idt_descriptor isr flags =
     \<lparr>isr_low = ucast (isr AND 0xFFFF), kernel_cs = 0x08, reserved = 0, attributes = flags, isr_high = ucast (drop_bit 16 isr)\<rparr>"

definition Set_IDT_descriptor :: "idt_entry list \<Rightarrow> u8 \<Rightarrow> u32 \<Rightarrow> u8 \<Rightarrow> idt_entry list option" where
  "Set_IDT_descriptor inIdt vector isr flags = put_at inIdt (unat vector) (idt_descriptor isr flags)"

section \<open>Tables of a processor\<close>

text \<open>The tables of one processor, with the addresses of its arrays, and the registers of the processor.\<close>

record Core_Tables =
  gdt :: "gdt_entry list"
  kernelTSS :: tss_entry
  sGdtr :: table_reg
  idt :: "idt_entry list"
  sIdtr :: table_reg

record table_addrs =
  gdt_addr :: u32
  tss_addr :: u32
  idt_addr :: u32

record cpu_tables =
  GDTR :: table_reg
  IDTR :: table_reg
  TR :: u16
  CS_reg :: u16
  data_regs :: u16

text \<open>\<open>data_regs\<close> are ds, ss, es, fs and gs, which always get the same selector.\<close>

definition Load_GDT :: "table_reg \<Rightarrow> cpu_tables \<Rightarrow> cpu_tables" where
  "Load_GDT r c = c\<lparr>GDTR := r, data_regs := KERNEL_DATA_SEL, CS_reg := KERNEL_CODE_SEL\<rparr>"


definition Load_IDT :: "table_reg \<Rightarrow> cpu_tables \<Rightarrow> cpu_tables" where "Load_IDT r c = c\<lparr>IDTR := r\<rparr>"
definition Load_TSS :: "cpu_tables \<Rightarrow> cpu_tables" where "Load_TSS c = c\<lparr>TR := 0x28\<rparr>"

definition Set_GDT_TSS_descriptor :: "u32 \<Rightarrow> Core_Tables \<Rightarrow> u8 \<Rightarrow> u16 \<Rightarrow> u32 \<Rightarrow> Core_Tables option" where
  "Set_GDT_TSS_descriptor inTSS t vector s0 e0 =
     do { g \<leftarrow> Set_GDT_descriptor (gdt t) vector sizeof_tss_entry inTSS 0x89 0x00;
          Some (t\<lparr>gdt := g, kernelTSS := zero_tss\<lparr>tss_ss0 := ucast s0, tss_esp0 := e0, tss_cs := ucast KERNEL_CODE_SEL,
            tss_ss := ucast KERNEL_DATA_SEL, tss_ds := ucast KERNEL_DATA_SEL, tss_es := ucast KERNEL_DATA_SEL,
            tss_fs := ucast KERNEL_DATA_SEL, tss_gs := ucast KERNEL_DATA_SEL\<rparr>\<rparr>) }"

definition Init_GDTi :: "table_addrs \<Rightarrow> Core_Tables \<times> cpu_tables \<Rightarrow> (Core_Tables \<times> cpu_tables) option" where
  "Init_GDTi a s =
     (case s of (t, c) \<Rightarrow>
        do { g \<leftarrow> Set_GDT_descriptor (gdt t) 0 0 0 0 0;
             g \<leftarrow> Set_GDT_descriptor g 1 0xFFFFFFFF 0 0x9A 0xCF;
             g \<leftarrow> Set_GDT_descriptor g 2 0xFFFFFFFF 0 0x92 0xCF;
             g \<leftarrow> Set_GDT_descriptor g 3 0xFFFFFFFF 0 0xFA 0xCF;
             g \<leftarrow> Set_GDT_descriptor g 4 0xFFFFFFFF 0 0xF2 0xCF;
             t \<leftarrow> Set_GDT_TSS_descriptor (tss_addr a) (t\<lparr>gdt := g\<rparr>) 5 KERNEL_DATA_SEL 0;
             let r = \<lparr>reg_limit = 8 * of_nat GDT_SEG_NUM - 1, reg_base = gdt_addr a\<rparr>;
             Some (t\<lparr>sGdtr := r\<rparr>, Load_TSS (Load_GDT r c)) })"

definition Init_IDTi :: "table_addrs \<Rightarrow> u32 list \<Rightarrow> Core_Tables \<times> cpu_tables \<Rightarrow> (Core_Tables \<times> cpu_tables) option" where
  "Init_IDTi a isr_addr_list s =
     (case s of (t, c) \<Rightarrow>
        do { let r = \<lparr>reg_limit = 8 * of_nat INT_NUM - 1, reg_base = idt_addr a\<rparr>;
             d \<leftarrow> fold (\<lambda>i r. r \<bind> (\<lambda>d. Set_IDT_descriptor d (of_nat i) (isr_addr_list ! i) INTGATE))
                    [0..<length isr_addr_list] (Some (idt t));
             Some (t\<lparr>sIdtr := r, idt := d\<rparr>, Load_IDT r c) })"

text \<open>InitTables of the boot processor: \<open>Default_ISR\<close> is the address of the default handler.\<close>

definition InitTables :: "table_addrs \<Rightarrow> u32 \<Rightarrow> u32 list \<Rightarrow> u32 list \<Rightarrow> Core_Tables \<times> cpu_tables \<Rightarrow>
    (u32 list \<times> Core_Tables \<times> cpu_tables) option" where
  "InitTables a Default_ISR isr_addr_list isr_table s =
     do { s \<leftarrow> Init_GDTi a s;
          isr_table \<leftarrow> fold (\<lambda>i r. r \<bind> (\<lambda>t. put_at t i Default_ISR)) [0..<INT_NUM] (Some isr_table);
          s \<leftarrow> Init_IDTi a isr_addr_list s;
          Some (isr_table, s) }"

definition Set_Kernel_TSS_StackPointer :: "u32 \<Rightarrow> u32 \<Rightarrow> Core_Tables \<times> Core_Tables list \<Rightarrow> (Core_Tables \<times> Core_Tables list) option" where
  "Set_Kernel_TSS_StackPointer coreID esp s =
     (case s of (bsp, aps) \<Rightarrow>
        if coreID = BSP_INDEX then Some (bsp\<lparr>kernelTSS := (kernelTSS bsp)\<lparr>tss_esp0 := esp\<rparr>\<rparr>, aps)
        else
          let i = unat (coreID - 1) in
          if i < length aps then Some (bsp, aps[i := (aps ! i)\<lparr>kernelTSS := (kernelTSS (aps ! i))\<lparr>tss_esp0 := esp\<rparr>\<rparr>]) else None)"

definition SetSysCallsStackAddress :: "u32 \<Rightarrow> u32 \<Rightarrow> u32 \<Rightarrow> Core_Tables \<times> Core_Tables list \<Rightarrow> (Core_Tables \<times> Core_Tables list) option" where
  "SetSysCallsStackAddress coreID address limit s = Set_Kernel_TSS_StackPointer coreID (address + limit) s"

section \<open>What the processor reads\<close>

definition seg_base :: "gdt_entry \<Rightarrow> u32" where
  "seg_base e = ucast (base_low e) OR push_bit 16 (ucast (base_mid e)) OR push_bit 24 (ucast (base_high e))"

definition seg_limit :: "gdt_entry \<Rightarrow> u32" where
  "seg_limit e = ucast (limit_low e) OR push_bit 16 (ucast (g_db_a_limit_high e AND 0x0F))"

definition seg_flags :: "gdt_entry \<Rightarrow> u8" where
  "seg_flags e = drop_bit 4 (g_db_a_limit_high e)"

definition gate_target :: "idt_entry \<Rightarrow> u32" where
  "gate_target e = ucast (isr_low e) OR push_bit 16 (ucast (isr_high e))"

lemma and_masks: "x AND 0xFFFF = take_bit 16 x" "x AND 0xFF = take_bit 8 x" "x AND 0xF = take_bit 4 x" for x :: "'a::len word"
  by (simp_all add: take_bit_eq_mask mask_eq_exp_minus_1)

lemma gdt_roundtrip:
  "seg_base (gdt_descriptor l b a f) = b" "seg_limit (gdt_descriptor l b a f) = take_bit 20 l"
  "p_dpl_s_type (gdt_descriptor l b a f) = a" "seg_flags (gdt_descriptor l b a f) = take_bit 4 f"
proof -
  show "seg_base (gdt_descriptor l b a f) = b"
  proof (rule bit_word_eqI)
    fix n assume "n < LENGTH(32)"
    then consider "n < 16" | "16 \<le> n" "n < 24" | "24 \<le> n" "n < 32" by (auto simp: not_less [symmetric])
    then show "bit (seg_base (gdt_descriptor l b a f)) n = bit b n"
      by cases (auto simp: seg_base_def gdt_descriptor_def and_masks bit_simps)
  qed
  show "seg_limit (gdt_descriptor l b a f) = take_bit 20 l"
  proof (rule bit_word_eqI)
    fix n assume "n < LENGTH(32)"
    then consider "n < 16" | "16 \<le> n" "n < 20" | "20 \<le> n" "n < 32" by (auto simp: not_less [symmetric])
    then show "bit (seg_limit (gdt_descriptor l b a f)) n = bit (take_bit 20 l) n"
      by cases (auto simp: seg_limit_def gdt_descriptor_def and_masks bit_simps)
  qed
  show "p_dpl_s_type (gdt_descriptor l b a f) = a" by (simp add: gdt_descriptor_def)
  show "seg_flags (gdt_descriptor l b a f) = take_bit 4 f"
    by (rule bit_word_eqI) (auto simp: seg_flags_def gdt_descriptor_def and_masks bit_simps)
qed

lemma idt_roundtrip:
  "gate_target (idt_descriptor isr f) = isr" "kernel_cs (idt_descriptor isr f) = KERNEL_CODE_SEL"
  "attributes (idt_descriptor isr f) = f"
proof -
  show "gate_target (idt_descriptor isr f) = isr"
  proof (rule bit_word_eqI)
    fix n assume "n < LENGTH(32)"
    then consider "n < 16" | "16 \<le> n" "n < 32" by (auto simp: not_less [symmetric])
    then show "bit (gate_target (idt_descriptor isr f)) n = bit isr n"
      by cases (auto simp: gate_target_def idt_descriptor_def and_masks bit_simps)
  qed
qed (simp_all add: idt_descriptor_def KERNEL_CODE_SEL_def)

section \<open>The loaded tables\<close>

lemma put_all:
  assumes "length ys \<le> length xs" "\<And>i t. i < length ys \<Longrightarrow> f i t = put_at t i (ys ! i)"
  shows "fold (\<lambda>i r. r \<bind> f i) [0..<length ys] (Some xs) = Some (ys @ drop (length ys) xs)"
proof -
  have "k \<le> length ys \<Longrightarrow> fold (\<lambda>i r. r \<bind> f i) [0..<k] (Some xs) = Some (take k ys @ drop k xs)" for k
  proof (induction k)
    case (Suc k)
    then have "take k ys @ drop k xs = take k ys @ xs ! k # drop (Suc k) xs"
      using assms(1) by (simp add: Cons_nth_drop_Suc)
    with Suc show ?case using assms
      by (simp add: put_at_def list_update_append take_Suc_conv_app_nth)
  qed simp
  from this [of "length ys"] show ?thesis by simp
qed

text \<open>The contents that the boot leaves in the segment table and in the task state segment.\<close>

definition boot_gdt :: "u32 \<Rightarrow> gdt_entry list" where
  "boot_gdt tss = map (\<lambda>(acc, b, l, f). gdt_descriptor l b acc f)
     [(0, 0, 0, 0), (0x9A, 0, 0xFFFFFFFF, 0xCF), (0x92, 0, 0xFFFFFFFF, 0xCF), (0xFA, 0, 0xFFFFFFFF, 0xCF),
      (0xF2, 0, 0xFFFFFFFF, 0xCF), (0x89, tss, 104, 0)]"

definition boot_tss :: tss_entry where
  "boot_tss = zero_tss\<lparr>tss_ss0 := 16, tss_cs := 8, tss_ss := 16, tss_ds := 16, tss_es := 16, tss_fs := 16, tss_gs := 16\<rparr>"

text \<open>What the processor finds: the segments with their access bytes, bases and limits, and a gate for every vector.\<close>

definition tables_loaded :: "table_addrs \<Rightarrow> u32 list \<Rightarrow> Core_Tables \<Rightarrow> cpu_tables \<Rightarrow> bool" where
  "tables_loaded a isrs t c \<longleftrightarrow>
     map (\<lambda>e. (p_dpl_s_type e, seg_base e, seg_limit e, seg_flags e)) (gdt t) =
       [(0, 0, 0, 0), (0x9A, 0, 0xFFFFF, 0xF), (0x92, 0, 0xFFFFF, 0xF), (0xFA, 0, 0xFFFFF, 0xF), (0xF2, 0, 0xFFFFF, 0xF),
        (0x89, tss_addr a, 104, 0)] \<and>
     map (\<lambda>e. (gate_target e, kernel_cs e, attributes e)) (idt t) = map (\<lambda>f. (f, KERNEL_CODE_SEL, INTGATE)) isrs \<and>
     reg_base (GDTR c) = gdt_addr a \<and> unat (reg_limit (GDTR c)) + 1 = 8 * length (gdt t) \<and>
     reg_base (IDTR c) = idt_addr a \<and> unat (reg_limit (IDTR c)) + 1 = 8 * length (idt t) \<and>
     unat (TR c) = 8 * 5 \<and> CS_reg c = KERNEL_CODE_SEL \<and> data_regs c = KERNEL_DATA_SEL \<and> kernelTSS t = boot_tss"

lemma Init_GDTi_tables:
  assumes "length (gdt t) = GDT_SEG_NUM"
  shows "Init_GDTi a (t, c) = Some (t\<lparr>gdt := boot_gdt (tss_addr a), kernelTSS := boot_tss, sGdtr := \<lparr>reg_limit = 47, reg_base = gdt_addr a\<rparr>\<rparr>,
      c\<lparr>GDTR := \<lparr>reg_limit = 47, reg_base = gdt_addr a\<rparr>, TR := 0x28, CS_reg := KERNEL_CODE_SEL, data_regs := KERNEL_DATA_SEL\<rparr>)"
proof -
  obtain e0 e1 e2 e3 e4 e5 where "gdt t = [e0, e1, e2, e3, e4, e5]"
    using assms by (auto simp: GDT_SEG_NUM_def length_Suc_conv eval_nat_numeral)
  then show ?thesis
    by (simp add: Init_GDTi_def Set_GDT_descriptor_def Set_GDT_TSS_descriptor_def put_at_def Let_def GDT_SEG_NUM_def
        Load_GDT_def Load_TSS_def KERNEL_DATA_SEL_def KERNEL_CODE_SEL_def sizeof_tss_entry_def boot_gdt_def boot_tss_def zero_tss_def)
qed

lemma Init_IDTi_tables:
  assumes "length (idt t) = INT_NUM" "length isrs = INT_NUM"
  shows "Init_IDTi a isrs (t, c) = Some (t\<lparr>sIdtr := \<lparr>reg_limit = 2047, reg_base = idt_addr a\<rparr>,
      idt := map (\<lambda>f. idt_descriptor f INTGATE) isrs\<rparr>, c\<lparr>IDTR := \<lparr>reg_limit = 2047, reg_base = idt_addr a\<rparr>\<rparr>)"
proof -
  have "fold (\<lambda>i r. r \<bind> (\<lambda>d. Set_IDT_descriptor d (of_nat i) (isrs ! i) INTGATE)) [0..<length isrs] (Some (idt t)) =
      Some (map (\<lambda>f. idt_descriptor f INTGATE) isrs)"
    using put_all [of "map (\<lambda>f. idt_descriptor f INTGATE) isrs" "idt t"
        "\<lambda>i d. Set_IDT_descriptor d (of_nat i) (isrs ! i) INTGATE"] assms
    by (simp add: Set_IDT_descriptor_def INT_NUM_def unat_of_nat)
  then show ?thesis by (simp add: Init_IDTi_def Let_def Load_IDT_def INT_NUM_def)
qed

lemma InitTables_loads:
  assumes "length (gdt t) = GDT_SEG_NUM" "length (idt t) = INT_NUM" "length isrs = INT_NUM" "length isr_table = INT_NUM"
  shows "\<exists>t' c'. InitTables a dflt isrs isr_table (t, c) = Some (replicate INT_NUM dflt, t', c') \<and> tables_loaded a isrs t' c'"
proof -
  have "fold (\<lambda>i r. r \<bind> (\<lambda>t. put_at t i dflt)) [0..<INT_NUM] (Some isr_table) = Some (replicate INT_NUM dflt)"
    using put_all [of "replicate INT_NUM dflt" isr_table "\<lambda>i t. put_at t i dflt"] assms(4) by simp
  then show ?thesis using assms(1-3)
    by (simp add: InitTables_def Init_GDTi_tables Init_IDTi_tables tables_loaded_def boot_gdt_def gdt_roundtrip
        idt_roundtrip comp_def INT_NUM_def)
qed

end
