(* ===== verification/Coresys_Ramfs_Steps.thy ===== *)
theory Coresys_Ramfs_Steps
  imports Coresys_Ramfs_Files
begin

text \<open>
  Sequences of file system operations: what one operation promises in a form that composes, with
  the room that is left and the memory that is kept. The clients of the file system (the boot
  sequence and the PCI scan) are proved over these lemmas.
\<close>

section \<open>Composing states\<close>

lemma extends_refl: "tree_inv st K \<Longrightarrow> extends st K st K"
  unfolding extends_def
proof (intro conjI ballI)
  fix q assume "tree_inv st K" "q \<in> live st K"
  then obtain n where "nodes st q = Some n" by (rule live_node)
  then have "nodes st q = Some n \<and> nodes st q = Some (n\<lparr>next_node := next_node n\<rparr>)" by simp
  then show "\<exists>n x. nodes st q = Some n \<and> nodes st q = Some (n\<lparr>next_node := x\<rparr>)" by blast
qed simp_all

lemma extends_trans:
  assumes "extends st K st1 K1" and "extends st1 K1 st2 K2"
  shows "extends st K st2 K2"
  unfolding extends_def
proof (intro conjI ballI)
  show "fs_root st2 = fs_root st" using assms by (simp add: extends_def)
  fix q assume "q \<in> live st K"
  then obtain ys n x where 1: "q \<in> live st1 K1" "K1 q = K q @ ys" "nodes st q = Some n" "nodes st1 q = Some (n\<lparr>next_node := x\<rparr>)"
    by (rule extendsE [OF assms(1)])
  obtain zs n' x' where 2: "q \<in> live st2 K2" "K2 q = K1 q @ zs" "nodes st1 q = Some n'" "nodes st2 q = Some (n'\<lparr>next_node := x'\<rparr>)"
    by (rule extendsE [OF assms(2) 1(1)])
  show "q \<in> live st2 K2" by (rule 2(1))
  show "\<exists>ys. K2 q = K q @ ys" using 1(2) 2(2) by simp
  have "n' = n\<lparr>next_node := x\<rparr>" using 1(4) 2(3) by simp
  then have "nodes st2 q = Some (n\<lparr>next_node := x'\<rparr>)" using 2(4) by simp
  with 1(3) show "\<exists>n x. nodes st q = Some n \<and> nodes st2 q = Some (n\<lparr>next_node := x\<rparr>)" by blast
qed

lemma named_extends: "extends st K st' K' \<Longrightarrow> p \<in> live st K \<Longrightarrow> named st p f \<Longrightarrow> named st' p f"
  by (erule (1) extendsE) (auto simp: named_def)

lemma is_dir_extends: "extends st K st' K' \<Longrightarrow> p \<in> live st K \<Longrightarrow> is_dir st p \<Longrightarrow> is_dir st' p"
  by (erule (1) extendsE) (auto simp: is_dir_def)

lemma parent_ok_extends:
  assumes "parent_ok st K path s d" and "tree_inv st' K'" and "extends st K st' K'"
  shows "parent_ok st' K' path s d"
proof -
  note P = parent_okD [OF assms(1)]
  have "fs_root st' = fs_root st" using assms(3) by (simp add: extends_def)
  then show ?thesis
    using walk_extends [OF P(1) assms(2,3) tree_invD(7) [OF P(1)]] is_dir_extends [OF assms(3) P(3,4)] assms(1,2)
    by (simp add: parent_ok_def)
qed

lemma pick_absent:
  assumes "\<forall>x\<in>set xs. \<exists>g. named st x g \<and> g \<noteq> f" and "valid_name v f"
  shows "pick st (str_view f) xs = 0"
proof (rule ccontr)
  assume "pick st (str_view f) xs \<noteq> 0"
  then have "pick st (str_view f) xs \<in> set xs \<and> name_match st (str_view f) (pick st (str_view f) xs)" by (rule pick_mem)
  moreover have "is_cstr (str_view f) f" using assms(2) str_view_cstr_at by (auto simp: valid_name_def)
  ultimately show False using assms(1) named_match by blast
qed

section \<open>The names in a directory\<close>

definition names_at :: "ramfs \<Rightarrow> u32 list \<Rightarrow> u8 list list \<Rightarrow> bool" where
  "names_at st = list_all2 (named st)"

lemma names_at_extends:
  assumes "extends st K st' K'" and "names_at st (K p) fs"
  shows "names_at st' (K p) fs"
  using assms(2) unfolding names_at_def
  by (rule list.rel_mono_strong) (blast intro: named_extends [OF assms(1)] liveI)

lemma names_at_absent:
  assumes "names_at st xs fs" and "f \<notin> set fs" and "valid_name v f"
  shows "pick st (str_view f) xs = 0"
proof (rule pick_absent [OF _ assms(3)])
  show "\<forall>x\<in>set xs. \<exists>g. named st x g \<and> g \<noteq> f"
    using assms(1,2) by (fastforce simp: names_at_def in_set_conv_nth list_all2_conv_all_nth)
qed

lemma names_at_snoc: "names_at st (xs @ [x]) (fs @ [f]) \<longleftrightarrow> names_at st xs fs \<and> named st x f"
  by (cases "length xs = length fs") (auto simp: names_at_def list_all2_append dest: list_all2_lengthD)

definition dir_names :: "u8 list list" where
  "dir_names = [[0x2E], [0x2E, 0x2E]]"

lemma cstr_name:
  assumes "0 \<notin> set (bytes_of s)" and "slash \<notin> set (bytes_of s)" and "2 < length s" and "length s < 128"
  shows "valid_name (cstr s) (bytes_of s)"
  using cstr_bytes [OF assms(1)] assms by (auto simp: valid_name_def bytes_of_def)

lemma pick_names:
  assumes "names_at st xs fs" and "distinct fs" and "i < length fs" and "0 \<notin> set xs" and "is_cstr (str_view (fs ! i)) (fs ! i)"
  shows "pick st (str_view (fs ! i)) xs = xs ! i"
proof -
  have len: "length xs = length fs" using assms(1) by (auto simp: names_at_def dest: list_all2_lengthD)
  have nm: "name_match st (str_view (fs ! i)) (xs ! j) \<longleftrightarrow> j = i" if "j < length xs" for j
    using named_match [OF assms(5), of st "xs ! j" "fs ! j"] assms(1,2,3) that len
    by (simp add: names_at_def list_all2_conv_all_nth nth_eq_iff_index_eq)
  have "List.find (name_match st (str_view (fs ! i))) xs = Some (xs ! i)"
    unfolding find_Some_iff using nm assms(3) len by (intro exI [of _ i]) auto
  then show ?thesis by (simp add: pick_def)
qed

lemma names_cstr: "list_all (\<lambda>s. 0 \<notin> set s \<and> length s < 2 ^ 32) fs \<Longrightarrow> i < length fs \<Longrightarrow> is_cstr (str_view (fs ! i)) (fs ! i)"
  by (intro str_view_cstr) (auto simp: list_all_length)

lemma walk_entry:
  assumes inv: "tree_inv st K" and walk: "vfs_walk find_dispatch st (fs_root st) ts = Some e" and e: "e \<in> live st K" "is_dir st e"
    and nms: "names_at st (K e) fs" "distinct fs" "i < length fs" "is_cstr (str_view (fs ! i)) (fs ! i)"
  shows "vfs_walk find_dispatch st (fs_root st) (ts @ [fs ! i]) = Some (K e ! i)"
proof -
  have "target st e = e" using e(2) by (auto simp: is_dir_def target_def FTYPE_DIRECTORY_def FTYPE_SYMLINK_def split: option.splits)
  moreover have "length (K e) = length fs" using nms(1) by (auto simp: names_at_def dest: list_all2_lengthD)
  then have "K e ! i \<noteq> 0" using kids_nonzero [OF inv, of e] nms(3) nth_mem [of i "K e"] by (metis)
  moreover have "e \<noteq> 0" using live_node [OF inv e(1)] by blast
  ultimately show ?thesis
    using walk pick_names [OF nms(1-3) kids_nonzero [OF inv] nms(4)] tree_invD(8) [OF inv] e(1)
    by (simp add: vfs_walk_append fs_find_pick [OF inv])
qed

section \<open>Operations as steps\<close>

text \<open>A step keeps the invariant, what was there, and uses \<open>b\<close> bytes of the heap.\<close>

definition fs_step :: "ramfs \<Rightarrow> (u32 \<Rightarrow> u32 list) \<Rightarrow> ramfs \<Rightarrow> (u32 \<Rightarrow> u32 list) \<Rightarrow> nat \<Rightarrow> bool" where
  "fs_step st K st' K' b \<longleftrightarrow> tree_inv st' K' \<and> extends st K st' K' \<and> bumped st st' b"

lemma fs_step_trans: "fs_step st K st1 K1 b \<Longrightarrow> fs_step st1 K1 st2 K2 c \<Longrightarrow> fs_step st K st2 K2 (b + c)"
  using extends_trans bumped_trans by (auto simp: fs_step_def)

lemma fs_step_room: "fs_step st K st' K' b \<Longrightarrow> b \<le> 200 * j \<Longrightarrow> has_room st (j + k) \<Longrightarrow> has_room st' k"
  by (auto simp: fs_step_def intro: bumped_room)

lemma fs_step_parent: "parent_ok st K path s d \<Longrightarrow> fs_step st K st' K' b \<Longrightarrow> parent_ok st' K' path s d"
  by (auto simp: fs_step_def intro: parent_ok_extends)

lemma newRegFile_step:
  assumes "parent_ok st K path s d" and "valid_name fileName f" and "pick st (str_view f) (K d) = 0" and "has_room st 1"
    and p: "p = CurrentPointer (heap st)"
  obtains st' where "ramfs_newRegFile stk st fileName path = Some (p, VFS_T_OK, st')"
    "fs_step st K st' (K(d := K d @ [p])) 200" "p \<noteq> 0" "nodes st' p = Some (reg_file_node fileName (last_ino st))"
    "named st' p f" "vfs_walk find_dispatch st' (fs_root st') (tokens slash s @ [f]) = Some p"
proof -
  obtain st' where A: "ramfs_newRegFile stk st fileName path = Some (p, VFS_T_OK, st')" "tree_inv st' (K(d := K d @ [p]))"
    "extends st K st' (K(d := K d @ [p]))" "p \<noteq> 0" "nodes st' p = Some (reg_file_node fileName (last_ino st))"
    "vfs_walk find_dispatch st' (fs_root st') (tokens slash s @ [f]) = Some p" "bumped st st' 200"
    using ramfs_newRegFile_new [OF assms(1-4) p refl] by metis
  have "is_cstr (name (reg_file_node fileName (last_ino st))) f"
    using assms(2) strncpy_to_cstr [of fileName f MAX_FNAME] by (simp add: reg_file_node_def valid_name_def MAX_FNAME_def)
  then have "named st' p f" using A(5) assms(2) by (auto simp: named_def valid_name_def)
  with A show thesis using that by (simp add: fs_step_def)
qed

lemma mkDir_step:
  assumes "parent_ok st K path s d" and "valid_name dirName f" and "pick st (str_view f) (K d) = 0" and "has_room st 3"
    and p: "p = CurrentPointer (heap st)"
  obtains st' q r where "ramfs_mkDir stk st dirName path = Some (p, VFS_T_OK, st')"
    "fs_step st K st' (K(d := K d @ [p], p := [q, r])) 600" "p \<noteq> 0" "is_dir st' p"
    "vfs_walk find_dispatch st' (fs_root st') (tokens slash s @ [f]) = Some p"
    "named st' p f" "named st' q [0x2E]" "named st' r [0x2E, 0x2E]"
  using ramfs_mkDir_new [OF assms] unfolding fs_step_def by metis

section \<open>Contents of a new file\<close>

text \<open>A buffer outside of the heap, such as a local variable.\<close>

definition off_heap :: "ramfs \<Rightarrow> u32 \<Rightarrow> nat \<Rightarrow> bool" where
  "off_heap st buf k \<longleftrightarrow> buf \<noteq> 0 \<and> unat buf + k \<le> 2 ^ 32 \<and>
     (unat buf + k \<le> unat (HeapMem (heap st)) \<or> unat (HeapMem (heap st)) + unat (HeapMemSize (heap st)) + 4 \<le> unat buf)"

lemma off_heap_untouched:
  assumes "heap_inv (heap st)" and "off_heap st buf k" and "unat i < k"
  shows "untouched st (buf + i)"
proof -
  have "unat (buf + i) = unat buf + unat i" using assms(2,3) by (intro unat_add_no_wrap) (simp add: off_heap_def)
  then show ?thesis using assms by (auto simp: off_heap_def untouched_def heap_inv_def word_less_nat_alt word_le_nat_alt)
qed

lemma off_heap_bumped: "bumped st st' b \<Longrightarrow> off_heap st buf k \<Longrightarrow> off_heap st' buf k"
  by (simp add: bumped_def off_heap_def)

lemma chain_upd: "ns p = Some n \<Longrightarrow> next_node n' = next_node n \<Longrightarrow> chain (ns(p \<mapsto> n')) q xs = chain ns q xs"
  by (induction xs arbitrary: q) (auto split: option.splits)

lemma tree_inv_upd:
  assumes inv: "tree_inv st K" and n: "nodes st p = Some n"
    and st': "nodes st' = (nodes st)(p \<mapsto> n\<lparr>filePtr := x, flength := y\<rparr>)" "root_obj st' = root_obj st" "fs_root st' = fs_root st"
    and heap: "heap_ok st'" "HeapMem (heap st') = HeapMem (heap st)" "CurrentPointer (heap st) \<le> CurrentPointer (heap st')"
  shows "tree_inv st' K"
proof -
  note L = live_cong [OF st'(2), of K]
  have dir: "is_dir st' q = is_dir st q" for q using n by (simp add: is_dir_def st'(1))
  have ch: "chain (nodes st') q xs = chain (nodes st) q xs" for q xs using chain_upd [of "nodes st" p n] n by (simp add: st'(1))
  have pl: "placed st' q" if "placed st q" for q
    using that heap(2,3) by (auto simp: placed_def st'(2) word_le_nat_alt)
  have "live_ok st' K q" if "live_ok st K q" for q
    using that n pl by (cases "q = p") (auto simp: live_ok_def st'(1) entry_ok_def dir ch [unfolded st'(1)] L split: option.splits if_splits)
  then show ?thesis using inv heap(1) by (auto simp: tree_inv_def L dir st' ordered_def)
qed

lemma write_new_file:
  assumes inv: "tree_inv st K" and reg: "regular_at st p n" "flength n = 0"
    and room: "has_room st 1" and buf: "off_heap st buf 2" and c: "c = CurrentPointer (heap st)"
  obtains st' where "ramfs_write st p buf 2 0 = Some (2, st')" "tree_inv st' K" "bumped st st' 4"
    "nodes st' = (nodes st)(p \<mapsto> n\<lparr>filePtr := c, flength := 2\<rparr>)" "fs_root st' = fs_root st"
    "mem st' c = mem st buf" "mem st' (c + 1) = mem st (buf + 1)"
proof -
  note h = tree_invD(1) [OF inv]
  have hi: "heap_inv (heap st)" and sz: "unat (HeapMem (heap st)) + unat (HeapMemSize (heap st)) + 207 \<le> 2 ^ 32"
    using h by (simp_all add: heap_ok_def)
  have ru: "round_up 2 = 4" by (simp add: round_up_def MEM_MIN_SIZE_def)
  have req: "request_ok (heap st) 2" "unat c + unat (round_up 2) \<le> unat (HeapMem (heap st)) + unat (HeapMemSize (heap st))"
    using room sz by (simp_all add: request_ok_def has_room_def ru c)
  obtain q m h' where k: "krealloc (heap_magic st) (mem st) (heap st) (filePtr n) 2 = (q, m, h')" by (metis surj_pair)
  note K = krealloc_frame [OF hi req(1) _ _ k, folded c, OF _ req(2), unfolded ru]
  have c0: "c \<noteq> 0" using hi by (auto simp: heap_inv_def c)
  define st' where "st' = st\<lparr>mem := memcpy m c buf 2, heap := h', nodes := (nodes st)(p \<mapsto> n\<lparr>filePtr := c, flength := 2\<rparr>)\<rparr>"
  have eq: "st\<lparr>mem := m, heap := h', nodes := (nodes st)(p \<mapsto> n\<lparr>filePtr := c, flength := 2\<rparr>), mem := memcpy m c buf 2\<rparr> = st'"
    by (rule ramfs.equality) (simp_all add: st'_def)
  have "ramfs_write st p buf 2 0 = Some (2, st')"
    using reg buf K(1) c0 k eq
    by (simp add: ramfs_write_def regular_at_def off_heap_def deref_def Let_def assign_def)
  moreover have far: "\<not> in_region a c 8" if "untouched st a" for a
    using untouched_block [OF that, of 8] room sz by (simp add: c has_room_def)
  have near: "\<not> in_region a c 2" if "\<not> in_region a c 8" for a
    using that by (auto simp: in_region_def word_less_nat_alt)
  have b: "bumped st st' 4"
    using K(2,3) far near room sz
    by (auto simp: bumped_def st'_def c memcpy_frame has_room_def unat_add_no_wrap)
  moreover have "tree_inv st' K"
    using reg(1) b bumped_heap_ok [OF b h room]
    by (intro tree_inv_upd [OF inv, of p n st' 2 c]) (auto simp: regular_at_def st'_def bumped_def word_le_nat_alt K(2))
  moreover have "mem st' (c + i) = mem st (buf + i)" if "i < 2" for i
  proof -
    have u: "\<not> in_region (buf + j) c 8" if "j < 2" for j
      using far off_heap_untouched [OF hi buf, of j] that by (simp add: word_less_nat_alt)
    then have "disjoint c 2 buf 2"
      using near by (auto simp: disjoint_def in_region_def) (metis add_diff_cancel_left' add_diff_inverse_nat diff_add_cancel)
    then show ?thesis using that K(3) u by (simp add: st'_def memcpy_apply in_region_def)
  qed
  from this [of 0] this [of 1] have "mem st' c = mem st buf" "mem st' (c + 1) = mem st (buf + 1)" by simp_all
  ultimately show thesis using that by (simp add: st'_def)
qed

end
