(* ===== verification/IA32_Cores.thy ===== *)
theory IA32_Cores
  imports IA32_Delays IA32_Tables IA32_Paging Coresys_Stdio Coresys_Ramfs_Steps Libk_Printf_Ref
begin

text \<open>
  The start of the other processors (sysinit.c, with the loop of tramAP.S): the state of the platform,
  what the machine does beside the boot processor, AP_init and InitAPs.
\<close>

section \<open>State of the platform\<close>

record Core_Status =
  Core_ID :: u32
  StartedState :: u32
  stackTopAddress :: u32

definition CPU_STATE_NOT_STARTED :: u32 where "CPU_STATE_NOT_STARTED = 0"
definition CPU_STATE_WAITING_START :: u32 where "CPU_STATE_WAITING_START = 1"
definition CPU_STATE_STARTED :: u32 where "CPU_STATE_STARTED = 2"
definition AP_TRAM_START :: u32 where "AP_TRAM_START = 0x8000"
definition CORE_STACK_SIZE :: u32 where "CORE_STACK_SIZE = 0x2000"
definition sizeof_Core_Tables :: u32 where "sizeof_Core_Tables = 2212"

datatype SendEOI = EOI_LAPIC | EOI_PIC

text \<open>
  The variables of sysinit.c and of the parts it starts; \<open>instant\<close> counts the reads of the tick counter and
  \<open>IF\<close> is the interrupt flag.
\<close>

record platform =
  SysConf :: SysConf_Info
  page_maps :: paging
  LAPIC_va :: u32
  IOAPIC_ptr :: u32
  SendEOI_handler :: "SendEOI option"
  PIC_start :: u16
  isr_table :: "u32 list"
  SysTime :: systime
  MicroTime :: microtime
  CPU_State :: "Core_Status list"
  CPU_Started_Num :: u8
  AP_Tables :: u32
  kernel_fs :: ramfs
  IF :: bool
  instant :: nat
  history :: trace

text \<open>
  The surroundings: the devices, the cpuid instruction of the boot processor, the node of the standard
  streams, the order of the halves of a 64-bit load, the tick counter, the other processors (what they have made
  of \<open>CPU_State\<close> by the \<open>n\<close>-th time the boot processor lets them run), and the address of the trampoline.
\<close>

record surroundings =
  devices :: machine
  cpuid_of :: cpuid
  stdio_of :: fs_node
  low_first :: bool
  ticks :: "nat \<Rightarrow> u64"
  others :: "nat \<Rightarrow> Core_Status list \<Rightarrow> Core_Status list"
  trampolineAP :: u32

section \<open>Operations\<close>

definition print :: "surroundings \<Rightarrow> u8 list \<Rightarrow> va_arg list \<Rightarrow> platform \<Rightarrow> platform option" where
  "print e f args s =
     (case printf (stdout_fun (devices e) (stdio_of e)) f args (Some (history s)) of
        Some (_, Some tr) \<Rightarrow> Some (s\<lparr>history := tr\<rparr>) | _ \<Rightarrow> None)"

definition kermsg_info :: "surroundings \<Rightarrow> u8 list \<Rightarrow> platform \<Rightarrow> platform option" where
  "kermsg_info e msg s = print e (fmt ''[INFO] '' @ msg) [] s"

definition delay_ms :: "surroundings \<Rightarrow> u64 \<Rightarrow> nat \<times> trace \<Rightarrow> (nat \<times> trace) option" where
  "delay_ms e d w = (case w of (k, tr) \<Rightarrow> map_option (\<lambda>k. (k, tr)) (Wait_ms (low_first e) (ticks e) d k))"

definition delay_us :: "surroundings \<Rightarrow> platform \<Rightarrow> u64 \<Rightarrow> nat \<times> trace \<Rightarrow> (nat \<times> trace) option" where
  "delay_us e s d w = Wait_us (devices e) (LAPIC_va s) (MicroTime s) (low_first e) (ticks e) d w"

definition sys_kmalloc :: "u32 \<Rightarrow> platform \<Rightarrow> u32 \<times> platform" where
  "sys_kmalloc n s =
     (let st = kernel_fs s; (p, m, h) = kmalloc (heap_magic st) (mem st) (heap st) n
      in (p, s\<lparr>kernel_fs := st\<lparr>mem := m, heap := h\<rparr>\<rparr>))"

definition set_core :: "nat \<Rightarrow> (Core_Status \<Rightarrow> Core_Status) \<Rightarrow> platform \<Rightarrow> platform option" where
  "set_core i f s = (if i < length (CPU_State s) then Some (s\<lparr>CPU_State := (CPU_State s)[i := f (CPU_State s ! i)]\<rparr>) else None)"

text \<open>
  One round of InitAPs for core \<open>i\<close>, up to the delay. The test behind the allocation of the stack
  looks at \<open>AP_Tables\<close>.
\<close>

definition start_core :: "surroundings \<Rightarrow> nat \<Rightarrow> platform \<Rightarrow> platform option" where
  "start_core e i s =
     do { s \<leftarrow> set_core i (\<lambda>c. c\<lparr>Core_ID := of_nat i\<rparr>) s;
          let (p, s) = sys_kmalloc CORE_STACK_SIZE s;
          s \<leftarrow> set_core i (\<lambda>c. c\<lparr>stackTopAddress := p\<rparr>) s;
          if AP_Tables s = 0 then None
          else do {
            s \<leftarrow> set_core i (\<lambda>c. c\<lparr>stackTopAddress := stackTopAddress c + CORE_STACK_SIZE - 4\<rparr>) s;
            (k, tr) \<leftarrow> StartupAP (delay_ms e) (delay_us e s) (devices e) (LAPIC_va s) (of_nat i) (ucast (drop_bit 12 AP_TRAM_START))
              (instant s, history s);
            let s = s\<lparr>instant := k, history := tr\<rparr>;
            set_core i (\<lambda>c. c\<lparr>StartedState := CPU_STATE_WAITING_START\<rparr>) s } }"

definition InitAPs_round :: "surroundings \<Rightarrow> u32 \<Rightarrow> nat \<Rightarrow> platform \<Rightarrow> platform option" where
  "InitAPs_round e BSP_ID i s =
     do { s \<leftarrow> (if of_nat i \<noteq> BSP_ID then start_core e i s else Some s);
          (k, tr) \<leftarrow> delay_ms e 10 (instant s, history s);
          Some (s\<lparr>instant := k, history := tr, CPU_State := others e i (CPU_State s)\<rparr>) }"

definition InitAPs_count :: "surroundings \<Rightarrow> nat \<Rightarrow> platform \<Rightarrow> platform option" where
  "InitAPs_count e i s =
     (let s = s\<lparr>CPU_State := others e (unat (CPU_Num (SysConf s)) + i) (CPU_State s)\<rparr> in
      if i < length (CPU_State s) then
        Some (if StartedState (CPU_State s ! i) = CPU_STATE_STARTED then s\<lparr>CPU_Started_Num := CPU_Started_Num s + 1\<rparr> else s)
      else None)"

definition InitAPs :: "surroundings \<Rightarrow> platform \<Rightarrow> platform option" where
  "InitAPs e s =
     (if ACPI_Init (SysConf s) \<and> CPU_Num (SysConf s) > 1 then
        do { let BSP_ID = CPU_GetCoreID (cpuid_of e);
             let st = kernel_fs s;
             let s = s\<lparr>kernel_fs := st\<lparr>mem := memcpy (mem st) AP_TRAM_START (trampolineAP e) PAGE_SIZE\<rparr>\<rparr>;
             let AP_TablesSize = ucast (CPU_Num (SysConf s)) * sizeof_Core_Tables;
             let (p, s) = sys_kmalloc AP_TablesSize s;
             let s = s\<lparr>AP_Tables := p\<rparr>;
             if AP_Tables s = 0 then None
             else do {
               s \<leftarrow> for_upto (0 :: u32) (ucast (CPU_Num (SysConf s))) (\<lambda>i r. r \<bind> InitAPs_round e BSP_ID (unat i)) (Some s);
               s \<leftarrow> for_upto (0 :: u32) (ucast (CPU_Num (SysConf s))) (\<lambda>i r. r \<bind> InitAPs_count e (unat i)) (Some s);
               s \<leftarrow> kermsg_info e (fmt ''Number of ready cores: '') s;
               print e (fmt ''%u'' @ [0x0A]) [Va_Word (ucast (CPU_Started_Num s))] s } }
      else Some s)"

text \<open>
  The start of another processor: the loop of the trampoline, which compares one byte, and AP_init with its own tables and registers.
  \<open>addrs i\<close> are the addresses inside \<open>AP_Tables[i]\<close>.
\<close>

definition waits :: "Core_Status \<Rightarrow> bool" where
  "waits c \<longleftrightarrow> ucast (StartedState c) = (ucast CPU_STATE_WAITING_START :: u8)"

inductive StartAP :: "Core_Status list \<Rightarrow> Core_Status list \<Rightarrow> bool" where
  started: "i < length cs \<Longrightarrow> waits (cs ! i) \<Longrightarrow>
    StartAP cs (cs[i := (cs ! i)\<lparr>StartedState := CPU_STATE_STARTED\<rparr>])"

inductive_cases StartAP_E: "StartAP cs cs'"

record AP_cpu =
  AP_regs :: cpu_tables
  AP_paging :: bool
  AP_IF :: bool

definition AP_init :: "machine \<Rightarrow> u32 \<Rightarrow> cpuid \<Rightarrow> (nat \<Rightarrow> table_addrs) \<Rightarrow> u32 list \<Rightarrow> Core_Tables list \<times> AP_cpu \<Rightarrow> trace \<Rightarrow>
    ((Core_Tables list \<times> AP_cpu) \<times> trace) option" where
  "AP_init hw va cpuid addrs isr_addr_list s tr =
     (case s of (tabs, cpu) \<Rightarrow>
        let cpu = cpu\<lparr>AP_paging := True\<rparr>;
            CoreId = unat (ucast (CPU_GetCoreID cpuid) :: u8)
        in if CoreId < length tabs then
             do { (t, r) \<leftarrow> Init_GDTi (addrs CoreId) (tabs ! CoreId, AP_regs cpu);
                  (t, r) \<leftarrow> Init_IDTi (addrs CoreId) isr_addr_list (t, r);
                  let tr = LAPIC_enable hw va (ucast SPURIOUS_INT_VECTOR) tr;
                  Some ((tabs[CoreId := t], cpu\<lparr>AP_regs := r, AP_IF := True\<rparr>), tr) }
           else None)"

section \<open>Memory\<close>

lemma sys_kmalloc_ok:
  assumes h: "heap_ok (kernel_fs s)" and rm: "room (kernel_fs s) b" and b: "unat (round_up n) = b" "unat n \<le> b"
  obtains st' where "sys_kmalloc n s = (CurrentPointer (heap (kernel_fs s)), s\<lparr>kernel_fs := st'\<rparr>)"
    "st' = (kernel_fs s)\<lparr>mem := mem st', heap := heap st'\<rparr>" "bumped (kernel_fs s) st' b" "heap_ok st'" "CurrentPointer (heap (kernel_fs s)) \<noteq> 0"
proof -
  define st where "st = kernel_fs s"
  have hi: "heap_inv (heap st)" "unat (HeapMem (heap st)) + unat (HeapMemSize (heap st)) + 207 \<le> 2 ^ 32"
    using h by (simp_all add: st_def heap_ok_def)
  have r: "unat (CurrentPointer (heap st)) + b \<le> unat (HeapMem (heap st)) + unat (HeapMemSize (heap st))" using rm by (simp add: room_def st_def)
  have req: "request_ok (heap st) n" using hi r b(2) by (simp add: request_ok_def)
  obtain p m hp where k: "kmalloc (heap_magic st) (mem st) (heap st) n = (p, m, hp)" by (metis surj_pair)
  note R = kmalloc_result [OF hi(1) req k] and N = kmalloc_next [OF req]
  have nz: "CurrentPointer (heap st) \<noteq> 0" using hi(1) by (auto simp: heap_inv_def)
  have "p \<noteq> 0" using R(2) r b(1) by simp
  then have p: "p = CurrentPointer (heap st)" "hp = (heap st)\<lparr>CurrentPointer := CurrentPointer (heap st) + round_up n\<rparr>" using R(4) by simp_all
  define st' where "st' = st\<lparr>mem := m, heap := hp\<rparr>"
  have same: "m a = mem st a" if "untouched st a" for a
    using R(1) store_guard_untouched [OF hi(1) that, of "round_up n"] r N b(1) hi(2) by simp
  have e: "round_up n = of_nat b" using b(1) by (metis of_nat_unat ucast_id)
  have bm: "bumped st st' b" using same N b(1) p by (simp add: bumped_def st'_def e [symmetric])
  have "heap_ok st'" using heap_ok_bumped [OF bm] h rm by (simp add: st_def)
  moreover have "sys_kmalloc n s = (CurrentPointer (heap st), s\<lparr>kernel_fs := st'\<rparr>)" using k p by (simp add: sys_kmalloc_def st_def [symmetric] st'_def)
  ultimately show thesis using that [of st'] bm nz by (simp add: st_def [symmetric]) (simp add: st'_def)
qed

section \<open>Delays and interrupts between processors\<close>

text \<open>A local controller that delivers: after finitely many reads no interrupt is pending.\<close>

definition delivers :: "machine \<Rightarrow> u32 \<Rightarrow> bool" where
  "delivers hw va \<longleftrightarrow> (\<forall>tr. \<exists>m. \<not> fst (IPI_isPending hw va (ipi.polls hw va m tr)))"

text \<open>Surroundings in which every wait ends.\<close>

definition responds :: "surroundings \<Rightarrow> (nat \<Rightarrow> nat) \<Rightarrow> u32 \<Rightarrow> microtime \<Rightarrow> bool" where
  "responds e T va mt \<longleftrightarrow> low_first e \<and> ticking T \<and> ticks e = counter T \<and> delivers (devices e) va \<and>
     (HWTimerEnabled mt \<longrightarrow> expires (devices e) va)"

lemma wait_ipi_returns: "delivers hw va \<Longrightarrow> \<exists>tr'. wait_ipi hw va tr = Some tr'"
  using ipi.wait_ends [of hw va _ tr] unfolding delivers_def by blast

lemma delay_ms_returns:
  assumes "responds e T va mt" and "unat d + 16 < 2 ^ 64"
  obtains k' where "delay_ms e d (k, tr) = Some (k', tr)" "T k + unat d \<le> T k'"
  using Wait_ms_ticking [of T d k] assms by (auto simp: delay_ms_def responds_def)

lemma delay_us_returns:
  assumes "responds e T (LAPIC_va s) (MicroTime s)"
  shows "\<exists>w'. delay_us e s 200 w = Some w'"
proof (cases "HWTimerEnabled (MicroTime s)")
  case True
  then show ?thesis
    using wait_count_ends [of "devices e" "LAPIC_va s"] assms
    by (auto simp: delay_us_def Wait_us_def responds_def Let_def split: prod.split) (metis option.simps(9))+
next
  case False
  have "\<exists>k'. Wait_ms True (counter T) 0 k = Some k'" for k
    using Wait_ms_ticking [of T 0 k] assms by (auto simp: responds_def)
  then show ?thesis using False assms by (auto simp: delay_us_def Wait_us_def responds_def split: prod.split)
qed

lemma StartupAP_returns:
  assumes r: "responds e T (LAPIC_va s) (MicroTime s)"
  shows "\<exists>k' tr'. StartupAP (delay_ms e) (delay_us e s) (devices e) (LAPIC_va s) n v (k, tr) = Some (k', tr')"
proof -
  define round where "round = (\<lambda>w. case w of (k, tr) \<Rightarrow>
    Option.bind (delay_us e s 200 (k, SendStartupIPI (devices e) (LAPIC_va s) n (ucast v) tr)) (\<lambda>(k, tr).
      map_option (Pair k) (wait_ipi (devices e) (LAPIC_va s) tr)))"
  have w: "\<exists>tr'. wait_ipi (devices e) (LAPIC_va s) tr = Some tr'" for tr using wait_ipi_returns r by (simp add: responds_def)
  have rd: "\<exists>w'. round w = Some w'" for w
  proof -
    obtain k2 tr2 where "delay_us e s 200 (fst w, SendStartupIPI (devices e) (LAPIC_va s) n (ucast v) (snd w)) = Some (k2, tr2)"
      using delay_us_returns [OF r] by (metis surj_pair)
    then show ?thesis using w [of tr2] by (auto simp: round_def case_prod_beta)
  qed
  obtain tr1 where t1: "wait_ipi (devices e) (LAPIC_va s) (SendInitIPI (devices e) (LAPIC_va s) n tr) = Some tr1" using w by blast
  obtain tr2 where t2: "wait_ipi (devices e) (LAPIC_va s) (SendInitIPIDeassert (devices e) (LAPIC_va s) n tr1) = Some tr2" using w by blast
  obtain k3 where t3: "delay_ms e 10 (k, tr2) = Some (k3, tr2)" using delay_ms_returns [OF r, of 10 k tr2] by auto
  have "for_upto (0 :: u8) 2 (\<lambda>i r. Option.bind r round) (Some (k3, tr2)) = Option.bind (round (k3, tr2)) round"
    by (simp add: loop_simps upt_rec)
  moreover obtain w1 where "round (k3, tr2) = Some w1" using rd by blast
  moreover obtain w2 where "round w1 = Some w2" using rd by blast
  ultimately show ?thesis using t1 t2 t3 by (cases w2) (simp add: StartupAP_def round_def [symmetric])
qed

section \<open>Starting the cores\<close>

lemma round_up_stack: "round_up CORE_STACK_SIZE = 0x2000"
  by (simp add: round_up_def CORE_STACK_SIZE_def MEM_MIN_SIZE_def)

lemma start_core_ok:
  assumes r: "responds e T (LAPIC_va s) (MicroTime s)" and i: "i < length (CPU_State s)" and ap: "AP_Tables s \<noteq> 0"
    and h: "heap_ok (kernel_fs s)" and rm: "room (kernel_fs s) 0x2000"
  obtains st' k tr where "start_core e i s = Some (s\<lparr>CPU_State := (CPU_State s)[i := \<lparr>Core_ID = of_nat i,
        StartedState = CPU_STATE_WAITING_START, stackTopAddress = CurrentPointer (heap (kernel_fs s)) + 0x1FFC\<rparr>],
      kernel_fs := st', instant := k, history := tr\<rparr>)"
    "st' = (kernel_fs s)\<lparr>mem := mem st', heap := heap st'\<rparr>" "bumped (kernel_fs s) st' 0x2000" "heap_ok st'"
proof -
  define s1 where "s1 = s\<lparr>CPU_State := (CPU_State s)[i := (CPU_State s ! i)\<lparr>Core_ID := of_nat i\<rparr>]\<rparr>"
  define p where "p = CurrentPointer (heap (kernel_fs s))"
  have k1: "kernel_fs s1 = kernel_fs s" by (simp add: s1_def)
  have ru: "unat (round_up CORE_STACK_SIZE) = 0x2000" "unat CORE_STACK_SIZE \<le> 0x2000" unfolding round_up_stack by (simp_all add: CORE_STACK_SIZE_def)
  obtain st' where st': "sys_kmalloc CORE_STACK_SIZE s1 = (p, s1\<lparr>kernel_fs := st'\<rparr>)"
    "st' = (kernel_fs s)\<lparr>mem := mem st', heap := heap st'\<rparr>" "bumped (kernel_fs s) st' 0x2000" "heap_ok st'"
    using sys_kmalloc_ok [of s1, unfolded k1, OF h rm ru] unfolding p_def .
  define s2 where "s2 = s1\<lparr>kernel_fs := st', CPU_State := (CPU_State s)[i := (CPU_State s ! i)\<lparr>Core_ID := of_nat i, stackTopAddress := p + 0x2000 - 4\<rparr>]\<rparr>"
  have "responds e T (LAPIC_va s2) (MicroTime s2)" using r by (simp add: s2_def s1_def)
  then obtain k tr where u: "StartupAP (delay_ms e) (delay_us e s2) (devices e) (LAPIC_va s2) (of_nat i) (ucast (drop_bit 12 AP_TRAM_START))
      (instant s2, history s2) = Some (k, tr)" using StartupAP_returns by blast
  have "start_core e i s = Some (s2\<lparr>instant := k, history := tr, CPU_State := (CPU_State s2)[i := (CPU_State s2 ! i)\<lparr>StartedState := CPU_STATE_WAITING_START\<rparr>]\<rparr>)"
    using i ap u st'(1) by (simp add: start_core_def set_core_def s1_def [symmetric] s2_def CORE_STACK_SIZE_def) (simp add: s1_def)
  moreover have "\<dots> = Some (s\<lparr>CPU_State := (CPU_State s)[i := \<lparr>Core_ID = of_nat i, StartedState = CPU_STATE_WAITING_START,
      stackTopAddress = p + 0x1FFC\<rparr>], kernel_fs := st', instant := k, history := tr\<rparr>)"
    using i by (cases "CPU_State s ! i") (simp add: s2_def s1_def add.commute)
  ultimately show thesis using that st'(2-4) unfolding p_def by metis
qed

text \<open>Other processors that answer: whoever waits is started by the next time the boot processor looks.\<close>

definition answers :: "surroundings \<Rightarrow> bool" where
  "answers e \<longleftrightarrow> (\<forall>n cs. StartAP\<^sup>*\<^sup>* cs (others e n cs) \<and> (\<forall>c\<in>set (others e n cs). \<not> waits c))"

definition answer :: "Core_Status \<Rightarrow> Core_Status" where
  "answer c = (if waits c then c\<lparr>StartedState := CPU_STATE_STARTED\<rparr> else c)"

lemma answer_idem: "answer (c\<lparr>StartedState := CPU_STATE_STARTED\<rparr>) = c\<lparr>StartedState := CPU_STATE_STARTED\<rparr>"
  by (simp add: answer_def CPU_STATE_STARTED_def waits_def CPU_STATE_WAITING_START_def)

lemma StartAP_answer: "StartAP\<^sup>*\<^sup>* cs cs' \<Longrightarrow> map answer cs' = map answer cs"
proof (induction rule: rtranclp_induct)
  case (step ds es)
  then have "map answer es = map answer ds"
    by (auto elim!: StartAP_E simp: map_update answer_idem intro!: list_update_same_conv [THEN iffD2] simp: answer_def)
  with step show ?case by simp
qed simp

lemma answers_map: "answers e \<Longrightarrow> others e n cs = map answer cs"
proof -
  assume a: "answers e"
  then have "map answer (others e n cs) = map answer cs" by (simp add: answers_def StartAP_answer)
  moreover have "map answer (others e n cs) = others e n cs" using a by (intro map_idI) (auto simp: answers_def answer_def)
  ultimately show ?thesis by simp
qed

definition rank :: "nat \<Rightarrow> nat \<Rightarrow> nat" where
  "rank B i = (if B < i then i - 1 else i)"

definition started_core :: "nat \<Rightarrow> u32 \<Rightarrow> nat \<Rightarrow> Core_Status" where
  "started_core B base i = \<lparr>Core_ID = of_nat i, StartedState = CPU_STATE_STARTED,
     stackTopAddress = base + of_nat (0x2000 * rank B i) + 0x1FFC\<rparr>"

definition cores_after :: "nat \<Rightarrow> u32 \<Rightarrow> Core_Status list \<Rightarrow> nat \<Rightarrow> Core_Status list" where
  "cores_after B base cs n = map (\<lambda>i. if i < n \<and> i \<noteq> B then started_core B base i else cs ! i) [0..<length cs]"

lemma cores_after_answer:
  assumes "\<forall>c\<in>set cs. \<not> waits c"
  shows "map answer (cores_after B base cs n) = cores_after B base cs n"
  using assms by (intro map_idI) (auto simp: cores_after_def answer_def started_core_def CPU_STATE_STARTED_def waits_def CPU_STATE_WAITING_START_def)

lemma cores_after_Suc:
  assumes "\<forall>c\<in>set cs. \<not> waits c" and "n < length cs" "n \<noteq> B"
  shows "map answer ((cores_after B base cs n)[n := \<lparr>Core_ID = of_nat n, StartedState = CPU_STATE_WAITING_START,
      stackTopAddress = base + of_nat (0x2000 * rank B n) + 0x1FFC\<rparr>]) = cores_after B base cs (Suc n)"
  unfolding map_update cores_after_answer [OF assms(1)]
  by (rule nth_equalityI) (use assms(2,3) in \<open>auto simp: cores_after_def nth_list_update started_core_def answer_def waits_def CPU_STATE_WAITING_START_def less_Suc_eq\<close>)

lemma cores_after_same: "cores_after B base cs (Suc B) = cores_after B base cs B" "cores_after B base cs 0 = cs"
  by (auto simp: cores_after_def less_Suc_eq map_nth)

lemma InitAPs_rounds:
  assumes r: "responds e T (LAPIC_va s) (MicroTime s)" and a: "answers e" and ap: "AP_Tables s \<noteq> 0"
    and idle: "\<forall>c\<in>set (CPU_State s). \<not> waits c" and h: "heap_ok (kernel_fs s)"
    and base: "base = CurrentPointer (heap (kernel_fs s))"
  shows "n \<le> length (CPU_State s) \<Longrightarrow> n < 2 ^ 32 \<Longrightarrow> room (kernel_fs s) (0x2000 * rank (unat B) n) \<Longrightarrow>
    \<exists>st k tr. fold (\<lambda>i r. r \<bind> InitAPs_round e B i) [0..<n] (Some s) =
        Some (s\<lparr>CPU_State := cores_after (unat B) base (CPU_State s) n, kernel_fs := st, instant := k, history := tr\<rparr>) \<and>
      st = (kernel_fs s)\<lparr>mem := mem st, heap := heap st\<rparr> \<and> bumped (kernel_fs s) st (0x2000 * rank (unat B) n) \<and> heap_ok st"
proof (induction n)
  case 0
  have "bumped (kernel_fs s) (kernel_fs s) 0" by (simp add: bumped_def)
  then show ?case using h by (intro exI [of _ "kernel_fs s"] exI [of _ "instant s"] exI [of _ "history s"]) (simp add: cores_after_same rank_def)
next
  case (Suc n)
  have rk: "rank (unat B) n \<le> rank (unat B) (Suc n)" by (simp add: rank_def)
  then have "room (kernel_fs s) (0x2000 * rank (unat B) n)" using Suc.prems(3) by (simp add: room_def)
  then obtain st k tr where IH: "fold (\<lambda>i r. r \<bind> InitAPs_round e B i) [0..<n] (Some s) =
      Some (s\<lparr>CPU_State := cores_after (unat B) base (CPU_State s) n, kernel_fs := st, instant := k, history := tr\<rparr>)"
    "st = (kernel_fs s)\<lparr>mem := mem st, heap := heap st\<rparr>" "bumped (kernel_fs s) st (0x2000 * rank (unat B) n)" "heap_ok st"
    using Suc by auto
  define s1 where "s1 = s\<lparr>CPU_State := cores_after (unat B) base (CPU_State s) n, kernel_fs := st, instant := k, history := tr\<rparr>"
  have r1: "responds e T (LAPIC_va s1) (MicroTime s1)" "AP_Tables s1 \<noteq> 0" "kernel_fs s1 = st" "CPU_State s1 = cores_after (unat B) base (CPU_State s) n"
    using r ap by (simp_all add: s1_def)
  have nB: "(of_nat n :: u32) = B \<longleftrightarrow> n = unat B" using Suc.prems(2) by (auto simp: word_unat_eq_iff unat_of_nat take_bit_nat_eq_self)
  have step: "fold (\<lambda>i r. r \<bind> InitAPs_round e B i) [0..<Suc n] (Some s) = InitAPs_round e B n s1" using IH(1) by (simp add: s1_def)
  show ?case
  proof (cases "n = unat B")
    case True
    obtain k' where "delay_ms e 10 (k, tr) = Some (k', tr)" using delay_ms_returns [OF r, of 10 k tr] by auto
    then have "InitAPs_round e B n s1 = Some (s1\<lparr>instant := k', history := tr, CPU_State := map answer (CPU_State s1)\<rparr>)"
      using nB True by (simp add: InitAPs_round_def s1_def answers_map [OF a])
    also have "\<dots> = Some (s\<lparr>CPU_State := cores_after (unat B) base (CPU_State s) (Suc n), kernel_fs := st, instant := k', history := tr\<rparr>)"
      using True cores_after_answer [OF idle, of "unat B" base n] cores_after_same(1) [of "unat B" base] by (simp add: s1_def)
    finally show ?thesis using IH(2-4) step True by (auto simp: rank_def)
  next
    case False
    then have rS: "rank (unat B) (Suc n) = Suc (rank (unat B) n)" by (auto simp: rank_def)
    have "room st 0x2000" using IH(3) Suc.prems(3) by (simp add: room_def bumped_def rS)
    moreover have "n < length (CPU_State s1)" using Suc.prems(1) by (simp add: s1_def cores_after_def)
    ultimately obtain st' k1 tr1 where S: "start_core e n s1 = Some (s1\<lparr>CPU_State := (CPU_State s1)[n := \<lparr>Core_ID = of_nat n,
        StartedState = CPU_STATE_WAITING_START, stackTopAddress = CurrentPointer (heap (kernel_fs s1)) + 0x1FFC\<rparr>],
      kernel_fs := st', instant := k1, history := tr1\<rparr>)"
      "st' = st\<lparr>mem := mem st', heap := heap st'\<rparr>" "bumped st st' 0x2000" "heap_ok st'"
      using start_core_ok [OF r1(1) _ r1(2)] IH(4) unfolding r1(3) by metis
    obtain k' where d: "delay_ms e 10 (k1, tr1) = Some (k', tr1)" using delay_ms_returns [OF r, of 10 k1 tr1] by auto
    have p: "CurrentPointer (heap (kernel_fs s1)) = base + of_nat (0x2000 * rank (unat B) n)" using IH(3) by (simp add: r1(3) bumped_def base)
    have "InitAPs_round e B n s1 = Some (s1\<lparr>CPU_State := cores_after (unat B) base (CPU_State s) (Suc n), kernel_fs := st', instant := k', history := tr1\<rparr>)"
      using nB False S(1) d cores_after_Suc [OF idle, of n "unat B" base] Suc.prems(1)
      by (simp add: InitAPs_round_def answers_map [OF a] r1(4) p del: of_nat_mult map_update)
    moreover have "st' = (kernel_fs s)\<lparr>mem := mem st', heap := heap st'\<rparr>" by (subst S(2), subst IH(2)) simp
    moreover have "bumped (kernel_fs s) st' (0x2000 * rank (unat B) (Suc n))" using bumped_trans [OF IH(3) S(3)] by (simp add: rS add.commute)
    ultimately show ?thesis using step S(4) by (auto simp: s1_def)
  qed
qed

lemma InitAPs_counts:
  assumes "answers e" and "CPU_State s = map answer (CPU_State s)"
  shows "n \<le> length (CPU_State s) \<Longrightarrow> fold (\<lambda>i r. r \<bind> InitAPs_count e i) [0..<n] (Some s) =
    Some (s\<lparr>CPU_Started_Num := CPU_Started_Num s + of_nat (length (filter (\<lambda>c. StartedState c = CPU_STATE_STARTED) (take n (CPU_State s))))\<rparr>)"
proof (induction n)
  case (Suc n)
  have "s\<lparr>CPU_State := CPU_State s\<rparr> = s" by simp
  with Suc show ?case
    by (auto simp: InitAPs_count_def answers_map [OF assms(1)] assms(2) [symmetric] take_Suc_conv_app_nth algebra_simps)
qed simp

section \<open>Messages\<close>

definition prints :: "surroundings \<Rightarrow> bool" where
  "prints e \<longleftrightarrow> drains (devices e) (ucast (impl_def (stdio_of e))) \<and> write_cb (stdio_of e) = Some Cb_serial_fs_write"

lemma print_pieces:
  assumes "prints e" and "pieces_ok ps" and "length (format_of ps) < 2 ^ 31" and "args_ok (args_of ps)" and "length (text_of ps) < 2 ^ 31 - 1"
    and "f = format_of ps" "args = args_of ps"
  shows "\<exists>tr. print e f args s = Some (s\<lparr>history := tr\<rparr>) \<and> sent_on (stdio_of e) (Some tr) = sent_on (stdio_of e) (Some (history s)) @ text_of ps"
proof -
  have "console (devices e) (stdio_of e)" using assms(1) by unfold_locales (simp_all add: prints_def)
  moreover have "printf_text INT_MAX (format_of ps) (args_of ps) = Some (0, text_of ps)"
    using assms(2,3,5) by (intro printf_text_reference) (simp_all add: INT_MAX_def)
  ultimately show ?thesis
    using console.console_printf [OF _ assms(4,3), of "devices e" "stdio_of e" 0 "text_of ps" "history s"] assms(6,7) by (auto simp: print_def)
qed

lemma print_literal:
  assumes "prints e" and "plain f" "f \<noteq> []" "length f < 2 ^ 31 - 1"
  shows "\<exists>tr. print e f [] s = Some (s\<lparr>history := tr\<rparr>)"
  using print_pieces [OF assms(1), of "[Lit f]" f "[]" s] assms by (auto simp: format_of_def args_of_def text_of_def args_ok_def)

lemma kermsg_info_returns:
  assumes "prints e" and "plain msg" "length msg < 2 ^ 30"
  shows "\<exists>tr. kermsg_info e msg s = Some (s\<lparr>history := tr\<rparr>)"
proof -
  have "plain (fmt ''[INFO] '' @ msg)" using assms(2) by (auto simp: plain_def fmt_def)
  then show ?thesis unfolding kermsg_info_def using assms(3) by (intro print_literal [OF assms(1)]) (simp_all add: fmt_def)
qed

lemma number_text_short: "length (number_text 10 (unat (n :: u32))) \<le> 32"
  using unat_lt2p [of n] by (intro number_text_le_32) simp_all

lemma signed_text_short: "length (signed_text n) \<le> 33"
proof -
  have "nat (sint n) < 2 ^ 32" "nat (- sint n) < 2 ^ 32" using sint_lt [of n] sint_ge [of n] by simp_all
  then show ?thesis using number_text_le_32 [of 10 "nat (sint n)"] number_text_le_32 [of 10 "nat (- sint n)"] by (simp add: signed_text_def)
qed

lemma print_number:
  assumes "prints e"
  shows "\<exists>tr. print e (fmt ''%u'' @ [0x0A]) [Va_Word n] s = Some (s\<lparr>history := tr\<rparr>)"
    and "\<exists>tr. print e (fmt ''%d'' @ [0x0A]) [Va_Word n] s = Some (s\<lparr>history := tr\<rparr>)"
proof -
  have u: "fmt ''%u'' @ [0x0A] = format_of [Unsigned n, Lit [0x0A]]" "fmt ''%d'' @ [0x0A] = format_of [Signed n, Lit [0x0A]]"
    by (simp_all add: fmt_def format_of_def)
  have a: "[Va_Word n] = args_of [Unsigned n, Lit [0x0A]]" "[Va_Word n] = args_of [Signed n, Lit [0x0A]]" by (simp_all add: args_of_def)
  have ok: "pieces_ok [Unsigned n, Lit [0x0A]]" "pieces_ok [Signed n, Lit [0x0A]]" "args_ok [Va_Word n]" by (simp_all add: plain_def args_ok_def)
  have t: "length (text_of [Unsigned n, Lit [0x0A]]) < 2 ^ 31 - 1" "length (text_of [Signed n, Lit [0x0A]]) < 2 ^ 31 - 1"
    using number_text_short [of n] signed_text_short [of n] by (simp_all add: text_of_def)
  have l: "length (format_of [Unsigned n, Lit [0x0A]]) < 2 ^ 31" "length (format_of [Signed n, Lit [0x0A]]) < 2 ^ 31" by (simp_all add: format_of_def)
  show "\<exists>tr. print e (fmt ''%u'' @ [0x0A]) [Va_Word n] s = Some (s\<lparr>history := tr\<rparr>)"
    using print_pieces [OF assms ok(1) l(1) _ t(1) u(1) a(1), of s] ok(3) a(1) by auto
  show "\<exists>tr. print e (fmt ''%d'' @ [0x0A]) [Va_Word n] s = Some (s\<lparr>history := tr\<rparr>)"
    using print_pieces [OF assms ok(2) l(2) _ t(2) u(2) a(2), of s] ok(3) a(2) by auto
qed

section \<open>All cores\<close>

lemma cores_loop: "for_upto (0 :: u32) (ucast (c :: u8)) (\<lambda>i r. r \<bind> f (unat i)) r = fold (\<lambda>i r. r \<bind> f i) [0..<unat c] r"
  for r :: "platform option"
proof -
  have "unat (ucast c :: u32) = unat c" "unat c < 2 ^ 32" using unat_lt2p [of c] by (simp_all add: unsigned_ucast_eq)
  then show ?thesis by (auto simp: loop_simps unat_of_nat take_bit_nat_eq_self intro!: fold_cong)
qed

lemma round_up_words: "unat w = 4 * n \<Longrightarrow> 4 * n + 4 \<le> 2 ^ 32 \<Longrightarrow> round_up w = w"
proof -
  assume w: "unat w = 4 * n" "4 * n + 4 \<le> 2 ^ 32"
  then have "unat (w + 4 - 1) = 4 * n + 3" by (simp add: unat_word_ariths unat_sub_if')
  then have "unat ((w + 4 - 1) div 4) = n" by (simp add: unat_div)
  then have "unat ((w + 4 - 1) div 4 * 4) = 4 * n" using w by (simp add: unat_word_ariths)
  then show ?thesis using w(1) by (simp add: round_up_def MEM_MIN_SIZE_def word_unat_eq_iff)
qed

lemma InitAPs_starts:
  assumes r: "responds e T (LAPIC_va s) (MicroTime s)" and a: "answers e" and pr: "prints e"
    and sc: "ACPI_Init (SysConf s)" "n = unat (CPU_Num (SysConf s))" "1 < n"
    and cs: "n \<le> length (CPU_State s)" "\<forall>c\<in>set (CPU_State s). \<not> waits c" "CPU_Started_Num s = 0"
    and B: "unat (CPU_GetCoreID (cpuid_of e)) = B" "B < n" "StartedState (CPU_State s ! B) = CPU_STATE_STARTED"
    and h: "heap_ok (kernel_fs s)" and rm: "room (kernel_fs s) (2212 * n + 0x2000 * (n - 1))"
    and base: "base = CurrentPointer (heap (kernel_fs s)) + of_nat (2212 * n)"
  obtains s' st where "InitAPs e s = Some s'"
    "s' = s\<lparr>AP_Tables := CurrentPointer (heap (kernel_fs s)), CPU_State := cores_after B base (CPU_State s) n, CPU_Started_Num := of_nat n,
      kernel_fs := kernel_fs s', instant := instant s', history := history s'\<rparr>"
    "st = (kernel_fs s)\<lparr>mem := mem st\<rparr>" "kernel_fs s' = (kernel_fs s)\<lparr>mem := mem (kernel_fs s'), heap := heap (kernel_fs s')\<rparr>"
    "bumped st (kernel_fs s') (2212 * n + 0x2000 * (n - 1))" "heap_ok (kernel_fs s')"
proof -
  define st where "st = (kernel_fs s)\<lparr>mem := memcpy (mem (kernel_fs s)) AP_TRAM_START (trampolineAP e) PAGE_SIZE\<rparr>"
  define s1 where "s1 = s\<lparr>kernel_fs := st\<rparr>"
  define N where "N = (ucast (CPU_Num (SysConf s)) * sizeof_Core_Tables :: u32)"
  define p where "p = CurrentPointer (heap (kernel_fs s))"
  have n: "n \<le> 255" using sc(2) unat_lt2p [of "CPU_Num (SysConf s)"] by simp
  have N: "unat N = 2212 * n" using n by (simp add: N_def sizeof_Core_Tables_def unat_word_ariths unsigned_ucast_eq sc(2))
  have ru: "unat (round_up N) = 2212 * n" using round_up_words [of N "553 * n"] N n by simp
  have st: "heap_ok st" "room st (2212 * n)" "heap st = heap (kernel_fs s)" "kernel_fs s1 = st"
    using h rm by (simp_all add: st_def s1_def heap_ok_def room_def)
  obtain st2 where k: "sys_kmalloc N s1 = (p, s1\<lparr>kernel_fs := st2\<rparr>)" "st2 = st\<lparr>mem := mem st2, heap := heap st2\<rparr>"
    "bumped st st2 (2212 * n)" "heap_ok st2" "p \<noteq> 0"
    using sys_kmalloc_ok [of s1 "2212 * n" N] st N ru by (auto simp: p_def)
  define s2 where "s2 = s1\<lparr>kernel_fs := st2, AP_Tables := p\<rparr>"
  have rk: "rank B n = n - 1" using B(2) by (simp add: rank_def)
  have b2: "base = CurrentPointer (heap st2)" using k(3) st(3) by (simp add: base bumped_def)
  have "room st2 (0x2000 * rank B n)" using rm k(3) st(3) by (simp add: rk room_def bumped_def)
  then obtain st3 k3 tr3 where R: "fold (\<lambda>i r. r \<bind> InitAPs_round e (CPU_GetCoreID (cpuid_of e)) i) [0..<n] (Some s2) =
      Some (s2\<lparr>CPU_State := cores_after B base (CPU_State s) n, kernel_fs := st3, instant := k3, history := tr3\<rparr>)"
    "st3 = st2\<lparr>mem := mem st3, heap := heap st3\<rparr>" "bumped st2 st3 (0x2000 * (n - 1))" "heap_ok st3"
    using InitAPs_rounds [of e T s2 base n "CPU_GetCoreID (cpuid_of e)"] r a cs k(4,5) n b2 unfolding B(1) rk by (auto simp: s2_def s1_def)
  define s3 where "s3 = s2\<lparr>CPU_State := cores_after B base (CPU_State s) n, kernel_fs := st3, instant := k3, history := tr3\<rparr>"
  have all: "filter (\<lambda>c. StartedState c = CPU_STATE_STARTED) (take n (CPU_State s3)) = take n (CPU_State s3)"
    using B(3) cs(1) by (auto simp: s3_def cores_after_def filter_id_conv in_set_conv_nth started_core_def)
  have cnt: "fold (\<lambda>i r. r \<bind> InitAPs_count e i) [0..<n] (Some s3) = Some (s3\<lparr>CPU_Started_Num := of_nat n\<rparr>)"
  proof -
    have c3: "CPU_State s3 = cores_after B base (CPU_State s) n" "CPU_Started_Num s3 = 0" using cs(3) by (simp_all add: s3_def s2_def s1_def)
    have len: "n \<le> length (CPU_State s3)" using cs(1) by (simp add: c3 cores_after_def)
    have "CPU_State s3 = map answer (CPU_State s3)" unfolding c3 by (rule cores_after_answer [OF cs(2), symmetric])
    from InitAPs_counts [OF a this len] show ?thesis using len c3(2) by (simp add: all)
  qed
  define s4 where "s4 = s3\<lparr>CPU_Started_Num := of_nat n\<rparr>"
  obtain tr4 where msg: "kermsg_info e (fmt ''Number of ready cores: '') s4 = Some (s4\<lparr>history := tr4\<rparr>)"
    using kermsg_info_returns [OF pr, of "fmt ''Number of ready cores: ''"] by (auto simp: plain_def fmt_def)
  define s5 where "s5 = s4\<lparr>history := tr4\<rparr>"
  obtain tr5 where num: "print e (fmt ''%u'' @ [0x0A]) [Va_Word (ucast (CPU_Started_Num s5))] s5 = Some (s5\<lparr>history := tr5\<rparr>)"
    using print_number(1) [OF pr] by blast
  have g: "CPU_Num (SysConf s) > 1" using sc by (simp add: word_less_nat_alt)
  have "SysConf s1 = SysConf s" "SysConf s2 = SysConf s" "SysConf s3 = SysConf s" by (simp_all add: s3_def s2_def s1_def)
  then have res: "InitAPs e s = Some (s5\<lparr>history := tr5\<rparr>)"
    using g sc(1) k(1,5) R(1) [folded s3_def] cnt [folded s4_def] msg [folded s5_def] num unfolding sc(2)
    by (simp add: InitAPs_def st_def [symmetric] s1_def [symmetric] N_def [symmetric] s2_def [symmetric] cores_loop Let_def)
  have kf: "kernel_fs (s5\<lparr>history := tr5\<rparr>) = st3" by (simp add: s5_def s4_def s3_def)
  have "st3 = (kernel_fs s)\<lparr>mem := mem st3, heap := heap st3\<rparr>" by (subst R(2), subst k(2)) (simp add: st_def)
  then show thesis using bumped_trans [OF k(3) R(3)] R(4)
    by (intro that [OF res, of st]) (simp_all add: kf, simp_all add: st_def s5_def s4_def s3_def s2_def s1_def p_def)
qed

lemma rank_less: "i < n \<Longrightarrow> i \<noteq> B \<Longrightarrow> B < n \<Longrightarrow> rank B i < n - 1"
  by (auto simp: rank_def)

lemma rank_inj: "i \<noteq> B \<Longrightarrow> j \<noteq> B \<Longrightarrow> rank B i = rank B j \<Longrightarrow> i = j"
  by (auto simp: rank_def split: if_splits)

text \<open>The stacks of two cores do not overlap.\<close>

lemma stacks_disjoint:
  assumes "unat base + 0x2000 * (n - 1) < 2 ^ 32" and "i < n" "j < n" "i \<noteq> B" "j \<noteq> B" "B < n" "i \<noteq> j"
  shows "disjoint (stackTopAddress (started_core B base i) - 0x1FFC) CORE_STACK_SIZE (stackTopAddress (started_core B base j) - 0x1FFC) CORE_STACK_SIZE"
proof -
  define f where "f k = base + of_nat (0x2000 * rank B k)" for k
  have f: "stackTopAddress (started_core B base k) - 0x1FFC = f k" for k by (simp add: started_core_def f_def)
  have u: "unat (f k) = unat base + 0x2000 * rank B k" "unat (f k) + 0x2000 \<le> 2 ^ 32" if "k < n" "k \<noteq> B" for k
  proof -
    have r: "rank B k < n - 1" by (rule rank_less) (use that assms(6) in auto)
    then have b: "unat base + 0x2000 * rank B k + 0x2000 \<le> 2 ^ 32" using assms(1) by simp
    then have "unat (of_nat (0x2000 * rank B k) :: u32) = 0x2000 * rank B k" by (simp only: unat_of_nat) (simp add: take_bit_nat_eq_self)
    then show "unat (f k) = unat base + 0x2000 * rank B k" unfolding f_def using b by (subst unat_add_no_wrap) (simp_all del: of_nat_mult)
    then show "unat (f k) + 0x2000 \<le> 2 ^ 32" using b by simp
  qed
  have half: "disjoint (f a) CORE_STACK_SIZE (f b) CORE_STACK_SIZE" if "rank B a < rank B b" "a < n" "b < n" "a \<noteq> B" "b \<noteq> B" for a b
    using u [of a] u [of b] that by (intro disjointI) (simp_all add: fits_def CORE_STACK_SIZE_def)
  show ?thesis unfolding f using half [of i j] half [of j i] rank_inj [of i B j] assms disjoint_sym by (metis linorder_neqE_nat)
qed

text \<open>A started processor: paging on, its own tables loaded, its local controller enabled, interrupts on.\<close>

lemma AP_init_loads:
  assumes "unat (ucast (CPU_GetCoreID cpuid) :: u8) = i" "i < length tabs" and "length (gdt (tabs ! i)) = GDT_SEG_NUM" "length (idt (tabs ! i)) = INT_NUM"
    and "length isrs = INT_NUM"
  shows "\<exists>t r. AP_init hw va cpuid addrs isrs (tabs, cpu) tr =
      Some ((tabs[i := t], cpu\<lparr>AP_regs := r, AP_paging := True, AP_IF := True\<rparr>), LAPIC_enable hw va 0xFF tr) \<and> tables_loaded (addrs i) isrs t r"
proof -
  obtain t1 r1 t2 r2 where g: "Init_GDTi (addrs i) (tabs ! i, AP_regs cpu) = Some (t1, r1)" "Init_IDTi (addrs i) isrs (t1, r1) = Some (t2, r2)"
    "tables_loaded (addrs i) isrs t2 r2"
    using assms(3-5) by (simp add: Init_GDTi_tables Init_IDTi_tables tables_loaded_def boot_gdt_def gdt_roundtrip idt_roundtrip comp_def INT_NUM_def)
  then show ?thesis using assms(1,2)
    by (intro exI [of _ t2] exI [of _ r2]) (simp add: AP_init_def SPURIOUS_INT_VECTOR_def)
qed

end
