(* ===== verification/IA32_Pci_Config.thy ===== *)
theory IA32_Pci_Config
  imports IA32_Io "HOL-Library.State_Monad"
begin

text \<open>
  The configuration space of the PCI bus (the first part of pci.c, and pci.h): an access writes the
  address of a register to one port and transfers its value through another. The routines are
  programs of the state monad over the history of accesses.
\<close>

section \<open>Addresses\<close>

definition PCI_CONFIG_ADDRESS :: u16 where "PCI_CONFIG_ADDRESS = 0xCF8"
definition PCI_CONFIG_DATA :: u16 where "PCI_CONFIG_DATA = 0xCFC"
definition PCI_ENABLE_BIT :: u32 where "PCI_ENABLE_BIT = 0x80000000"
definition PCI_DEV_PER_BUS :: u8 where "PCI_DEV_PER_BUS = 32"
definition PCI_FUNC_PER_DEV :: u8 where "PCI_FUNC_PER_DEV = 8"
definition PCI_HDR_IS_MULTIFUNCTION :: u8 where "PCI_HDR_IS_MULTIFUNCTION = 0x80"
definition PCI_BRIDGE_BASECLASS :: u8 where "PCI_BRIDGE_BASECLASS = 0x06"
definition PCI_TO_PCI_BRIDGE_SUBCLASS :: u8 where "PCI_TO_PCI_BRIDGE_SUBCLASS = 0x04"
definition PCI_NOT_VALID_VENDOR_ID :: u16 where "PCI_NOT_VALID_VENDOR_ID = 0xFFFF"

definition PCI_HDR_VENDORID_OFFSET :: u8 where "PCI_HDR_VENDORID_OFFSET = 0x00"
definition PCI_HDR_DEVICEID_OFFSET :: u8 where "PCI_HDR_DEVICEID_OFFSET = 0x02"
definition PCI_HDR_COMMAND_OFFSET :: u8 where "PCI_HDR_COMMAND_OFFSET = 0x04"
definition PCI_HDR_STATUS_OFFSET :: u8 where "PCI_HDR_STATUS_OFFSET = 0x06"
definition PCI_HDR_REVISION_ID_OFFSET :: u8 where "PCI_HDR_REVISION_ID_OFFSET = 0x08"
definition PCI_HDR_REG_LV_PROG_INTERF :: u8 where "PCI_HDR_REG_LV_PROG_INTERF = 0x09"
definition PCI_HDR_SUBCLASS_OFFSET :: u8 where "PCI_HDR_SUBCLASS_OFFSET = 0x0A"
definition PCI_HDR_BASECLASS_OFFSET :: u8 where "PCI_HDR_BASECLASS_OFFSET = 0x0B"
definition PCI_HDR_CACHELINE_SIZE_OFFSET :: u8 where "PCI_HDR_CACHELINE_SIZE_OFFSET = 0x0C"
definition PCI_HDR_LATENCY_TIME_OFFSET :: u8 where "PCI_HDR_LATENCY_TIME_OFFSET = 0x0D"
definition PCI_HDR_TYPE_OFFSET :: u8 where "PCI_HDR_TYPE_OFFSET = 0x0E"
definition PCI_HDR_BITS_OFFSET :: u8 where "PCI_HDR_BITS_OFFSET = 0x0F"

definition sizeof_PCI_common_header :: u8 where "sizeof_PCI_common_header = 16"
definition PCI_HDR_00_BASE_ADDR_REGS_N :: nat where "PCI_HDR_00_BASE_ADDR_REGS_N = 6"
definition PCI_HDR_00_RESERVED_SIZE :: u8 where "PCI_HDR_00_RESERVED_SIZE = 7"
definition PCI_HDR_00_BAR_OFFSET :: u8 where "PCI_HDR_00_BAR_OFFSET = sizeof_PCI_common_header"
definition PCI_HDR_00_CBUS_CIS_OFFSET :: u8 where
  "PCI_HDR_00_CBUS_CIS_OFFSET = PCI_HDR_00_BAR_OFFSET + of_nat PCI_HDR_00_BASE_ADDR_REGS_N * 4"
definition PCI_HDR_00_SUBSYS_VENDOR_OFFSET :: u8 where "PCI_HDR_00_SUBSYS_VENDOR_OFFSET = PCI_HDR_00_CBUS_CIS_OFFSET + 4"
definition PCI_HDR_00_SUBSYS_ID_OFFSET :: u8 where "PCI_HDR_00_SUBSYS_ID_OFFSET = PCI_HDR_00_SUBSYS_VENDOR_OFFSET + 2"
definition PCI_HDR_00_EXROMADDR_OFFSET :: u8 where "PCI_HDR_00_EXROMADDR_OFFSET = PCI_HDR_00_SUBSYS_ID_OFFSET + 2"
definition PCI_HDR_00_CAPABILITIES_OFFSET :: u8 where "PCI_HDR_00_CAPABILITIES_OFFSET = PCI_HDR_00_SUBSYS_ID_OFFSET + 4"
definition PCI_HDR_00_INT_LINE_OFFSET :: u8 where
  "PCI_HDR_00_INT_LINE_OFFSET = PCI_HDR_00_CAPABILITIES_OFFSET + PCI_HDR_00_RESERVED_SIZE"
definition PCI_HDR_00_INT_PIN_OFFSET :: u8 where "PCI_HDR_00_INT_PIN_OFFSET = PCI_HDR_00_INT_LINE_OFFSET + 1"
definition PCI_HDR_00_MIN_GRANT_OFFSET :: u8 where "PCI_HDR_00_MIN_GRANT_OFFSET = PCI_HDR_00_INT_PIN_OFFSET + 1"
definition PCI_HDR_00_MAX_LAT_OFFSET :: u8 where "PCI_HDR_00_MAX_LAT_OFFSET = PCI_HDR_00_MIN_GRANT_OFFSET + 1"
definition PCI_HDR_01_SEC_BUS_OFFSET :: u8 where "PCI_HDR_01_SEC_BUS_OFFSET = sizeof_PCI_common_header + 9"

lemmas pci_hdr_offsets = PCI_HDR_VENDORID_OFFSET_def PCI_HDR_DEVICEID_OFFSET_def PCI_HDR_COMMAND_OFFSET_def
  PCI_HDR_STATUS_OFFSET_def PCI_HDR_REVISION_ID_OFFSET_def PCI_HDR_REG_LV_PROG_INTERF_def PCI_HDR_SUBCLASS_OFFSET_def
  PCI_HDR_BASECLASS_OFFSET_def PCI_HDR_CACHELINE_SIZE_OFFSET_def PCI_HDR_LATENCY_TIME_OFFSET_def
  PCI_HDR_TYPE_OFFSET_def PCI_HDR_BITS_OFFSET_def PCI_HDR_00_CBUS_CIS_OFFSET_def PCI_HDR_00_SUBSYS_VENDOR_OFFSET_def
  PCI_HDR_00_SUBSYS_ID_OFFSET_def PCI_HDR_00_EXROMADDR_OFFSET_def PCI_HDR_00_CAPABILITIES_OFFSET_def
  PCI_HDR_00_INT_LINE_OFFSET_def PCI_HDR_00_INT_PIN_OFFSET_def PCI_HDR_00_MIN_GRANT_OFFSET_def
  PCI_HDR_00_MAX_LAT_OFFSET_def PCI_HDR_01_SEC_BUS_OFFSET_def PCI_HDR_00_BAR_OFFSET_def sizeof_PCI_common_header_def
  PCI_HDR_00_BASE_ADDR_REGS_N_def PCI_HDR_00_RESERVED_SIZE_def

record PCI_common_header =
  VendorID :: u16
  DeviceID :: u16
  Command :: u16
  Status :: u16
  RevisionID :: u8
  ClassCode :: "u8 list"
  CachelineSize :: u8
  LatencyTimer :: u8
  HeaderType :: u8
  BITS :: u8

record PCI_type_00_hdr =
  commhdr :: PCI_common_header
  BaseAddressRegisters :: "u32 list"
  CardbusCISPtr :: u32
  SubsystemVendorID :: u16
  SubsystemID :: u16
  ExpansionROMBaseAddr :: u32
  CapabilitiesPtr :: u8
  InterruptLine :: u8
  InterruptPin :: u8
  Min_Grant :: u8
  Max_Latency :: u8

section \<open>Access\<close>

definition pci_address :: "u8 \<Rightarrow> u8 \<Rightarrow> u8 \<Rightarrow> u8 \<Rightarrow> u32" where
  "pci_address bus dev func regNum =
     push_bit 16 (ucast bus) OR push_bit 11 (ucast dev) OR push_bit 8 (ucast func) OR ucast (regNum AND 0xFC) OR PCI_ENABLE_BIT"

definition pci_read32 :: "machine \<Rightarrow> u8 \<Rightarrow> u8 \<Rightarrow> u8 \<Rightarrow> u8 \<Rightarrow> (trace, u32) state" where
  "pci_read32 hw bus dev func regNum =
     do { State (\<lambda>tr. ((), outl (pci_address bus dev func regNum) PCI_CONFIG_ADDRESS tr));
          v \<leftarrow> State (inl hw PCI_CONFIG_DATA);
          State_Monad.return (drop_bit (unat (push_bit 3 (regNum AND 0x03))) v) }"

definition pci_write32 :: "u8 \<Rightarrow> u8 \<Rightarrow> u8 \<Rightarrow> u8 \<Rightarrow> u32 \<Rightarrow> (trace, unit) state" where
  "pci_write32 bus dev func regNum v =
     State (\<lambda>tr. ((), outl v PCI_CONFIG_DATA (outl (pci_address bus dev func regNum) PCI_CONFIG_ADDRESS tr)))"

definition pci_write16 :: "u8 \<Rightarrow> u8 \<Rightarrow> u8 \<Rightarrow> u8 \<Rightarrow> u16 \<Rightarrow> (trace, unit) state" where
  "pci_write16 bus dev func regNum v =
     State (\<lambda>tr. ((), outw v PCI_CONFIG_DATA (outl (pci_address bus dev func regNum) PCI_CONFIG_ADDRESS tr)))"

definition pci_write8 :: "u8 \<Rightarrow> u8 \<Rightarrow> u8 \<Rightarrow> u8 \<Rightarrow> u8 \<Rightarrow> (trace, unit) state" where
  "pci_write8 bus dev func regNum v =
     State (\<lambda>tr. ((), outb v PCI_CONFIG_DATA (outl (pci_address bus dev func regNum) PCI_CONFIG_ADDRESS tr)))"

definition pci_getHeaderType :: "machine \<Rightarrow> u8 \<Rightarrow> u8 \<Rightarrow> u8 \<Rightarrow> (trace, u8) state" where
  "pci_getHeaderType hw bus dev func =
     do { v \<leftarrow> pci_read32 hw bus dev func PCI_HDR_TYPE_OFFSET; State_Monad.return (ucast (ucast v :: u16)) }"

definition pci_getVendorID :: "machine \<Rightarrow> u8 \<Rightarrow> u8 \<Rightarrow> u8 \<Rightarrow> (trace, u16) state" where
  "pci_getVendorID hw bus dev func =
     do { v \<leftarrow> pci_read32 hw bus dev func PCI_HDR_VENDORID_OFFSET; State_Monad.return (ucast v) }"

definition pci_getBaseClass :: "machine \<Rightarrow> u8 \<Rightarrow> u8 \<Rightarrow> u8 \<Rightarrow> (trace, u8) state" where
  "pci_getBaseClass hw bus dev func =
     do { v \<leftarrow> pci_read32 hw bus dev func PCI_HDR_BASECLASS_OFFSET; State_Monad.return (ucast v) }"

definition pci_getSubClass :: "machine \<Rightarrow> u8 \<Rightarrow> u8 \<Rightarrow> u8 \<Rightarrow> (trace, u8) state" where
  "pci_getSubClass hw bus dev func =
     do { v \<leftarrow> pci_read32 hw bus dev func PCI_HDR_SUBCLASS_OFFSET; State_Monad.return (ucast v) }"

definition pci_hdr_01_getSecondaryBus :: "machine \<Rightarrow> u8 \<Rightarrow> u8 \<Rightarrow> u8 \<Rightarrow> (trace, u8) state" where
  "pci_hdr_01_getSecondaryBus hw bus dev func =
     do { v \<leftarrow> pci_read32 hw bus dev func PCI_HDR_01_SEC_BUS_OFFSET; State_Monad.return (ucast v) }"

definition pci_scanCommonHdr :: "machine \<Rightarrow> u8 \<Rightarrow> u8 \<Rightarrow> u8 \<Rightarrow> (trace, PCI_common_header) state" where
  "pci_scanCommonHdr hw bus dev func =
     do { vendor \<leftarrow> pci_getVendorID hw bus dev func;
          device \<leftarrow> pci_read32 hw bus dev func PCI_HDR_DEVICEID_OFFSET;
          command \<leftarrow> pci_read32 hw bus dev func PCI_HDR_COMMAND_OFFSET;
          status \<leftarrow> pci_read32 hw bus dev func PCI_HDR_STATUS_OFFSET;
          revision \<leftarrow> pci_read32 hw bus dev func PCI_HDR_REVISION_ID_OFFSET;
          c0 \<leftarrow> pci_read32 hw bus dev func PCI_HDR_REG_LV_PROG_INTERF;
          c1 \<leftarrow> pci_read32 hw bus dev func PCI_HDR_SUBCLASS_OFFSET;
          c2 \<leftarrow> pci_read32 hw bus dev func PCI_HDR_BASECLASS_OFFSET;
          cacheline \<leftarrow> pci_read32 hw bus dev func PCI_HDR_CACHELINE_SIZE_OFFSET;
          latency \<leftarrow> pci_read32 hw bus dev func PCI_HDR_LATENCY_TIME_OFFSET;
          hdrType \<leftarrow> pci_getHeaderType hw bus dev func;
          bist \<leftarrow> pci_read32 hw bus dev func PCI_HDR_BITS_OFFSET;
          State_Monad.return \<lparr>VendorID = vendor, DeviceID = ucast device, Command = ucast command, Status = ucast status,
            RevisionID = ucast revision, ClassCode = [ucast c0, ucast c1, ucast c2], CachelineSize = ucast cacheline,
            LatencyTimer = ucast latency, HeaderType = hdrType, BITS = ucast bist\<rparr> }"

fun pci_read_bars :: "machine \<Rightarrow> u8 \<Rightarrow> u8 \<Rightarrow> u8 \<Rightarrow> nat list \<Rightarrow> (trace, u32 list) state" where
  "pci_read_bars hw bus dev func [] = State_Monad.return []"
| "pci_read_bars hw bus dev func (i # is) =
     do { v \<leftarrow> pci_read32 hw bus dev func (PCI_HDR_00_BAR_OFFSET + 4 * of_nat i);
          vs \<leftarrow> pci_read_bars hw bus dev func is;
          State_Monad.return (v # vs) }"

definition pci_scanType00Hdr :: "machine \<Rightarrow> u8 \<Rightarrow> u8 \<Rightarrow> u8 \<Rightarrow> (trace, PCI_type_00_hdr) state" where
  "pci_scanType00Hdr hw bus dev func =
     do { hdr \<leftarrow> pci_scanCommonHdr hw bus dev func;
          bars \<leftarrow> pci_read_bars hw bus dev func [0..<PCI_HDR_00_BASE_ADDR_REGS_N];
          cis \<leftarrow> pci_read32 hw bus dev func PCI_HDR_00_CBUS_CIS_OFFSET;
          subvendor \<leftarrow> pci_read32 hw bus dev func PCI_HDR_00_SUBSYS_VENDOR_OFFSET;
          subid \<leftarrow> pci_read32 hw bus dev func PCI_HDR_00_SUBSYS_ID_OFFSET;
          rom \<leftarrow> pci_read32 hw bus dev func PCI_HDR_00_EXROMADDR_OFFSET;
          cap \<leftarrow> pci_read32 hw bus dev func PCI_HDR_00_CAPABILITIES_OFFSET;
          line \<leftarrow> pci_read32 hw bus dev func PCI_HDR_00_INT_LINE_OFFSET;
          pin \<leftarrow> pci_read32 hw bus dev func PCI_HDR_00_INT_PIN_OFFSET;
          grant \<leftarrow> pci_read32 hw bus dev func PCI_HDR_00_MIN_GRANT_OFFSET;
          maxlat \<leftarrow> pci_read32 hw bus dev func PCI_HDR_00_MAX_LAT_OFFSET;
          State_Monad.return \<lparr>commhdr = hdr, BaseAddressRegisters = bars, CardbusCISPtr = cis,
            SubsystemVendorID = ucast subvendor, SubsystemID = ucast subid, ExpansionROMBaseAddr = rom,
            CapabilitiesPtr = ucast cap, InterruptLine = ucast line, InterruptPin = ucast pin,
            Min_Grant = ucast grant, Max_Latency = ucast maxlat\<rparr> }"

section \<open>A configuration space\<close>

text \<open>
  The contents of the configuration space as the bytes of every function. A machine has the space
  when the data port shows the double word whose address was written last.
\<close>

type_synonym pci_space = "u8 \<Rightarrow> u8 \<Rightarrow> u8 \<Rightarrow> u8 \<Rightarrow> u8"

definition space16 :: "pci_space \<Rightarrow> u8 \<Rightarrow> u8 \<Rightarrow> u8 \<Rightarrow> u8 \<Rightarrow> u16" where
  "space16 cfg b d f r = ucast (cfg b d f r) OR push_bit 8 (ucast (cfg b d f (r + 1)))"

definition space32 :: "pci_space \<Rightarrow> u8 \<Rightarrow> u8 \<Rightarrow> u8 \<Rightarrow> u8 \<Rightarrow> u32" where
  "space32 cfg b d f r = ucast (space16 cfg b d f r) OR push_bit 16 (ucast (space16 cfg b d f (r + 2)))"

definition has_space :: "machine \<Rightarrow> pci_space \<Rightarrow> bool" where
  "has_space hw cfg \<longleftrightarrow> (\<forall>tr b d f r. d < PCI_DEV_PER_BUS \<longrightarrow> f < PCI_FUNC_PER_DEV \<longrightarrow>
     ucast (hw (tr @ [Out32 (pci_address b d f r) PCI_CONFIG_ADDRESS]) (Port32 PCI_CONFIG_DATA)) =
       space32 cfg b d f (r AND 0xFC))"

definition read_events :: "pci_space \<Rightarrow> u8 \<Rightarrow> u8 \<Rightarrow> u8 \<Rightarrow> u8 \<Rightarrow> trace" where
  "read_events cfg b d f r = [Out32 (pci_address b d f r) PCI_CONFIG_ADDRESS, In32 PCI_CONFIG_DATA (space32 cfg b d f (r AND 0xFC))]"

lemma pci_read32_space:
  assumes "has_space hw cfg" "d < PCI_DEV_PER_BUS" "f < PCI_FUNC_PER_DEV"
  shows "run_state (pci_read32 hw b d f r) tr =
    (drop_bit (8 * unat (r AND 3)) (space32 cfg b d f (r AND 0xFC)), tr @ read_events cfg b d f r)"
proof -
  have "push_bit 3 (r AND 3) = (r AND 3) * 8" by (simp add: push_bit_eq_mult)
  moreover have "r AND 3 \<le> 3" by (simp add: word_and_le1)
  then have "unat (r AND 3) \<le> 3" by (simp add: word_le_nat_alt)
  ultimately have "unat (push_bit 3 (r AND 3)) = 8 * unat (r AND 3)"
    by (simp add: unat_mult_no_wrap)
  then show ?thesis using assms by (simp add: pci_read32_def State_Monad.bind_def inl_def outl_def has_space_def read_events_def Let_def)
qed

lemma reg_split:
  fixes r :: u8
  shows "r = (r AND 0xFC) + (r AND 3)" and "r AND 3 \<in> {0, 1, 2, 3}"
proof -
  have e: "(0xFC :: u8) = NOT (mask 2)" by (simp add: mask_eq_exp_minus_1)
  have "r AND 0xFC = push_bit 2 (drop_bit 2 r)" unfolding e
  proof (rule bit_word_eqI)
    fix n assume "n < LENGTH(8)"
    then show "bit (r AND NOT (mask 2)) n = bit (push_bit 2 (drop_bit 2 r)) n"
      by (cases "n < 2") (auto simp: bit_simps le_add_diff_inverse simp del: add_2_eq_Suc add_2_eq_Suc')
  qed
  moreover have "r AND 3 = take_bit 2 r" by (simp add: take_bit_eq_mask mask_eq_exp_minus_1)
  ultimately have "(r AND 0xFC) + (r AND 3) = r" using bits_ident [of 2 r] by (simp only:)
  then show "r = (r AND 0xFC) + (r AND 3)" by (rule sym)
  have "x \<le> 3 \<Longrightarrow> x \<in> {0, 1, 2, 3}" for x :: u8
  proof -
    assume "x \<le> 3"
    then have "unat x \<in> {0, 1, 2, 3}" by (auto simp: word_le_nat_alt)
    then have "(of_nat (unat x) :: u8) \<in> of_nat ` {0, 1, 2, 3}" by (rule imageI)
    then show "x \<in> {0, 1, 2, 3}" by simp
  qed
  then show "r AND 3 \<in> {0, 1, 2, 3}" using word_and_le1 [of r 3] by blast
qed

lemma space32_bit:
  assumes "n < 32"
  shows "bit (space32 cfg b d f r) n = bit (cfg b d f (r + of_nat (n div 8))) (n mod 8)"
proof -
  consider "n < 8" | "8 \<le> n" "n < 16" | "16 \<le> n" "n < 24" | "24 \<le> n" "n < 32" using assms by linarith
  then show ?thesis
  proof cases
    case 1
    then show ?thesis by (simp add: space32_def space16_def bit_simps)
  next
    case 2
    then have "n div 8 = 1" "n mod 8 = n - 8" by presburger+
    with 2 show ?thesis by (auto simp: space32_def space16_def bit_simps dest: bit_imp_le_length)
  next
    case 3
    then have "n div 8 = 2" "n mod 8 = n - 16" by presburger+
    with 3 show ?thesis by (auto simp: space32_def space16_def bit_simps dest: bit_imp_le_length)
  next
    case 4
    then have "n div 8 = 3" "n mod 8 = n - 24" by presburger+
    with 4 show ?thesis by (auto simp: space32_def space16_def bit_simps add.assoc dest: bit_imp_le_length)
  qed
qed

lemma space_read8: "(ucast (drop_bit (8 * unat (r AND 3)) (space32 cfg b d f (r AND 0xFC))) :: u8) = cfg b d f r"
proof (rule bit_word_eqI)
  fix n assume n: "n < LENGTH(8)"
  let ?k = "unat (r AND 3)"
  have k: "?k \<le> 3" using reg_split(2) [of r] by auto
  have "bit (space32 cfg b d f (r AND 0xFC)) (8 * ?k + n) = bit (cfg b d f ((r AND 0xFC) + of_nat ?k)) n"
    using space32_bit [of "8 * ?k + n"] n k by simp
  moreover have "(r AND 0xFC) + of_nat ?k = r" using reg_split(1) [of r] by simp
  ultimately show "bit (ucast (drop_bit (8 * ?k) (space32 cfg b d f (r AND 0xFC))) :: u8) n = bit (cfg b d f r) n"
    using n by (simp add: bit_simps)
qed

lemma space_read16:
  assumes "r AND 3 \<noteq> 3"
  shows "(ucast (drop_bit (8 * unat (r AND 3)) (space32 cfg b d f (r AND 0xFC))) :: u16) = space16 cfg b d f r"
proof (rule bit_word_eqI)
  fix n assume n: "n < LENGTH(16)"
  let ?k = "unat (r AND 3)"
  have k: "?k \<le> 2" using reg_split(2) [of r] assms by auto
  have "bit (space32 cfg b d f (r AND 0xFC)) (8 * ?k + n) = bit (cfg b d f ((r AND 0xFC) + of_nat (?k + n div 8))) (n mod 8)"
    using space32_bit [of "8 * ?k + n"] n k by simp
  moreover have "(r AND 0xFC) + of_nat (?k + n div 8) = r + of_nat (n div 8)"
    using reg_split(1) [of r] by (simp add: add.assoc [symmetric])
  ultimately have low: "bit (space32 cfg b d f (r AND 0xFC)) (8 * ?k + n) = bit (cfg b d f (r + of_nat (n div 8))) (n mod 8)" by metis
  have "bit (space16 cfg b d f r) n = bit (cfg b d f (r + of_nat (n div 8))) (n mod 8)"
  proof (cases "n < 8")
    case False
    then have "n div 8 = 1" "n mod 8 = n - 8" using n by (auto simp: le_mod_geq)
    then show ?thesis using n False by (auto simp: space16_def bit_simps dest: bit_imp_le_length)
  qed (simp add: space16_def bit_simps)
  with low show "bit (ucast (drop_bit (8 * ?k) (space32 cfg b d f (r AND 0xFC))) :: u16) n = bit (space16 cfg b d f r) n"
    using n k by (simp add: bit_simps)
qed

lemma space_read32:
  assumes "r AND 3 = 0"
  shows "drop_bit (8 * unat (r AND 3)) (space32 cfg b d f (r AND 0xFC)) = space32 cfg b d f r"
  using reg_split(1) [of r] assms by simp

lemma run_bind: "run_state (State_Monad.bind m k) tr = (case run_state m tr of (v, tr') \<Rightarrow> run_state (k v) tr')"
  by (simp add: State_Monad.bind_def)

lemma space16_low: "(ucast (space16 cfg b d f r) :: u8) = cfg b d f r"
  by (rule bit_word_eqI) (simp add: space16_def bit_simps)

text \<open>The fields that the scan reads, as bytes, words and double words of the space.\<close>

lemmas space_bytes = space_read8 [of 8] space_read8 [of 9] space_read8 [of 10] space_read8 [of 11] space_read8 [of 12]
  space_read8 [of 13] space_read8 [of 15] space_read8 [of 25] space16_low
lemmas space_words = space_read16 [of 0] space_read16 [of 2] space_read16 [of 4] space_read16 [of 6] space_read16 [of 14]
  space_read16 [of 44] space_read16 [of 46]

lemma pci_fields:
  assumes "has_space hw cfg" and "d < PCI_DEV_PER_BUS" and "f < PCI_FUNC_PER_DEV"
  shows "\<exists>us. run_state (pci_getVendorID hw b d f) tr = (space16 cfg b d f 0, tr @ us)"
    and "\<exists>v us. run_state (pci_read32 hw b d f PCI_HDR_DEVICEID_OFFSET) tr = (v, tr @ us) \<and> ucast v = space16 cfg b d f 2"
    and "\<exists>us. run_state (pci_getHeaderType hw b d f) tr = (cfg b d f 0x0E, tr @ us)"
    and "\<exists>us. run_state (pci_getBaseClass hw b d f) tr = (cfg b d f 0x0B, tr @ us)"
    and "\<exists>us. run_state (pci_getSubClass hw b d f) tr = (cfg b d f 0x0A, tr @ us)"
    and "\<exists>us. run_state (pci_hdr_01_getSecondaryBus hw b d f) tr = (cfg b d f 0x19, tr @ us)"
  using pci_read32_space [OF assms] space_bytes [where cfg = cfg and b = b and d = d and f = f]
    space_words [where cfg = cfg and b = b and d = d and f = f]
  by (simp_all add: pci_getVendorID_def pci_getHeaderType_def pci_getBaseClass_def pci_getSubClass_def
      pci_hdr_01_getSecondaryBus_def run_bind pci_hdr_offsets)

lemma pci_common_header:
  assumes "has_space hw cfg" and "d < PCI_DEV_PER_BUS" and "f < PCI_FUNC_PER_DEV"
  shows "fst (run_state (pci_scanCommonHdr hw b d f) tr) =
    \<lparr>VendorID = space16 cfg b d f 0, DeviceID = space16 cfg b d f 2, Command = space16 cfg b d f 4, Status = space16 cfg b d f 6,
     RevisionID = cfg b d f 8, ClassCode = [cfg b d f 9, cfg b d f 10, cfg b d f 11], CachelineSize = cfg b d f 12,
     LatencyTimer = cfg b d f 13, HeaderType = cfg b d f 14, BITS = cfg b d f 15\<rparr>"
  using space_bytes [where cfg = cfg and b = b and d = d and f = f] space_words [where cfg = cfg and b = b and d = d and f = f]
  by (simp add: pci_scanCommonHdr_def pci_getVendorID_def pci_getHeaderType_def run_bind pci_hdr_offsets pci_read32_space [OF assms])

end
