(* ===== verification/IA32_Pci.thy ===== *)
theory IA32_Pci
  imports IA32_Pci_Config Coresys_Ramfs Libk_Printf
begin

text \<open>
  The PCI devices in the file system and the scan of the buses (the second part of pci.c). The
  state is the file system and the history of port accesses. \<open>stk\<close> is what the stack holds where
  local arrays begin, \<open>loc\<close> the address of the two local variables whose addresses are passed on.
  A text that does not fit its local array is no behaviour (\<open>None\<close>).
\<close>

type_synonym pci_sys = "ramfs \<times> trace"

definition RET_T_OK :: int where "RET_T_OK = 0"
definition RET_T_NOK :: int where "RET_T_NOK = -1"

definition PCI_FS_PATH :: string where "PCI_FS_PATH = ''/sys/device/pci''"
definition PCI_DEV_DIR_NAME_LEN :: nat where "PCI_DEV_DIR_NAME_LEN = length ''0000:00:00.00'' + 1"
definition sizeof_pci_ramfs_conf_area :: u32 where "sizeof_pci_ramfs_conf_area = 3"

text \<open>\<open>sprintf\<close> into a local array of \<open>n\<close> bytes.\<close>

definition local_sprintf :: "bytes \<Rightarrow> nat \<Rightarrow> string \<Rightarrow> va_arg list \<Rightarrow> bytes option" where
  "local_sprintf stk n format args =
     do { (r, m) \<leftarrow> sprintf 1 (bytes_of format) args stk;
          if int n < r then None else Some (view m 1) }"

definition store16 :: "bytes \<Rightarrow> u32 \<Rightarrow> u16 \<Rightarrow> bytes" where
  "store16 m p w = m(p := ucast w, p + 1 := ucast (drop_bit 8 w))"

definition fetch16 :: "bytes \<Rightarrow> u32 \<Rightarrow> u16" where
  "fetch16 m p = ucast (m p) OR push_bit 8 (ucast (m (p + 1)))"

section \<open>The configuration file of a device\<close>

text \<open>The block of the node is not cleared: the bytes behind the name stay as the memory has them.\<close>

definition conf_area_node :: "bytes \<Rightarrow> bytes \<Rightarrow> u32 \<Rightarrow> ramfs_file_header" where
  "conf_area_node block fileName new_ino =
     \<lparr>name = strncpy_to block fileName MAX_FNAME, ino = new_ino, owner_id = 0, owner_group = 0, perm = 0, ftype = FTYPE_REGULAR,
      flength = 0, impl_def = 0, open_cb = None, close_cb = None, read_cb = Some Cb_pci_vfs_confing_read,
      write_cb = Some Cb_pci_vfs_confing_write, readdir_cb = None, find_cb = None, node_ptr = 0, filePtr = 0, next_node = 0, children = 0\<rparr>"

definition pci_ramfs_addNewConfAreaFile :: "bytes \<Rightarrow> ramfs \<Rightarrow> bytes \<Rightarrow> bytes \<Rightarrow> u8 \<Rightarrow> u8 \<Rightarrow> u8 \<Rightarrow> (u32 \<times> int \<times> ramfs) option" where
  "pci_ramfs_addNewConfAreaFile stk st fileName parentPath bus device func =
     (if fst (fs_checkFileName fileName) \<noteq> RET_T_OK then Some (0, VFS_T_NOK, st)
      else do {
        parentDir \<leftarrow> ramfs_get_node stk st parentPath;
        if parentDir = 0 then Some (0, VFS_T_NOK, st)
        else do {
          existing \<leftarrow> fs_find find_dispatch st parentDir fileName;
          if existing \<noteq> 0 then Some (0, RFS_FILE_ALREADY_EXISTS, st)
          else
            let (ramfs_node, m, h) = kmalloc (heap_magic st) (mem st) (heap st) sizeof_ramfs_file_header;
                st1 = st\<lparr>mem := m, heap := h\<rparr>
            in if ramfs_node = 0 then Some (0, VFS_T_NOK, st1)
               else
                 let (new_ino, st2) = fs_new_ino_id st1;
                     st3 = st2\<lparr>nodes := (nodes st2)(ramfs_node \<mapsto> conf_area_node (view m ramfs_node) fileName new_ino)\<rparr>;
                     (area, m, h) = kmalloc (heap_magic st3) (mem st3) (heap st3) sizeof_pci_ramfs_conf_area;
                     st4 = st3\<lparr>mem := m, heap := h\<rparr>
                 in if area = 0 then Some (0, VFS_T_NOK, free_mem ramfs_node st4)
                    else do {
                      st5 \<leftarrow> assign ramfs_node (\<lambda>n. n\<lparr>filePtr := area\<rparr>) st4;
                      let st6 = st5\<lparr>mem := (mem st5)(area := bus, area + 1 := device, area + 2 := func)\<rparr>;
                      lst \<leftarrow> ramfs_getLastChild st6 parentDir;
                      st7 \<leftarrow> assign lst (\<lambda>n. n\<lparr>next_node := ramfs_node\<rparr>) st6;
                      Some (ramfs_node, VFS_T_OK, st7) } } })"

text \<open>
  The loops of the read callback. The i-th double word goes to index \<open>i * 4\<close> of an array of double
  words; the descriptor of the device is read from the memory in every round.
\<close>

definition conf_read32 :: "machine \<Rightarrow> u32 \<Rightarrow> u32 \<Rightarrow> ramfs \<Rightarrow> trace \<Rightarrow> u32 \<times> trace" where
  "conf_read32 hw device reg st tr =
     run_state (pci_read32 hw (mem st device) (mem st (device + 1)) (mem st (device + 2)) (ucast reg)) tr"

definition pci_vfs_confing_read :: "machine \<Rightarrow> pci_sys \<Rightarrow> u32 \<Rightarrow> u32 \<Rightarrow> u32 \<Rightarrow> u32 \<Rightarrow> (int \<times> pci_sys) option" where
  "pci_vfs_confing_read hw s node buf nbyte off =
     (case s of (st, tr) \<Rightarrow>
        do { n \<leftarrow> deref st node;
             let device = filePtr n;
             let readNum = nbyte div 4;
             let readRem = nbyte mod 4;
             let s1 = for_upto 0 readNum (\<lambda>i (st, tr).
                   case conf_read32 hw device (off + i * 4) st tr of
                     (v, tr) \<Rightarrow> (st\<lparr>mem := store32 (mem st) (buf + i * 4 * 4) v\<rparr>, tr)) (st, tr);
             let s2 = for_upto 0 readRem (\<lambda>k (st, tr).
                   case conf_read32 hw device (off + readNum * 4 + k) st tr of
                     (v, tr) \<Rightarrow> (st\<lparr>mem := (mem st)(buf + k := ucast v)\<rparr>, tr)) s1;
             Some (sint (readNum * 4 + readRem), s2) })"

definition pci_vfs_confing_write :: "pci_sys \<Rightarrow> u32 \<Rightarrow> u32 \<Rightarrow> u32 \<Rightarrow> u32 \<Rightarrow> (int \<times> pci_sys) option" where
  "pci_vfs_confing_write s node buf nbyte off =
     (case s of (st, tr) \<Rightarrow>
        do { n \<leftarrow> deref st node;
             let device = filePtr n;
             if nbyte \<noteq> 0 \<and> (off = ucast PCI_HDR_COMMAND_OFFSET \<or> off = ucast PCI_HDR_STATUS_OFFSET) then
               let toWrite = (if nbyte \<ge> 2 then fetch16 (mem st) buf else ucast (ucast (fetch16 (mem st) buf AND 0xFF) :: u8))
               in Some (sint nbyte, st, snd (run_state
                    (pci_write16 (mem st device) (mem st (device + 1)) (mem st (device + 2)) (ucast off) toWrite) tr))
             else Some (0, s) })"

section \<open>The files of a device\<close>

text \<open>A value file: create it, and write the two bytes at \<open>loc\<close> into it.\<close>

definition pci_value_file :: "bytes \<Rightarrow> ramfs \<Rightarrow> string \<Rightarrow> bytes \<Rightarrow> u32 \<Rightarrow> (int \<times> ramfs) option" where
  "pci_value_file stk st fileName dir loc =
     do { (fileNodePtr, _, st) \<leftarrow> ramfs_newRegFile stk st (cstr fileName) dir;
          if fileNodePtr = 0 then Some (RET_T_NOK, st)
          else do {
            (r, st) \<leftarrow> ramfs_write st fileNodePtr loc 2 0;
            Some (if r = 0 then RET_T_NOK else RET_T_OK, st) } }"

definition pci_ramfs_addFiles :: "machine \<Rightarrow> bytes \<Rightarrow> u32 \<Rightarrow> pci_sys \<Rightarrow> bytes \<Rightarrow> u8 \<Rightarrow> u8 \<Rightarrow> u8 \<Rightarrow> (int \<times> pci_sys) option" where
  "pci_ramfs_addFiles hw stk loc s pciPeriphDir bus device func =
     (case s of (st, tr) \<Rightarrow>
        case run_state (pci_getVendorID hw bus device func) tr of (vendorID, tr) \<Rightarrow>
        case run_state (pci_read32 hw bus device func PCI_HDR_DEVICEID_OFFSET) tr of (deviceID, tr) \<Rightarrow>
          do { let st = st\<lparr>mem := store16 (store16 (mem st) loc vendorID) (loc + 2) (ucast deviceID)\<rparr>;
               (r, st) \<leftarrow> pci_value_file stk st ''vendor'' pciPeriphDir loc;
               if r = RET_T_NOK then Some (RET_T_NOK, st, tr)
               else do {
                 (r, st) \<leftarrow> pci_value_file stk st ''device'' pciPeriphDir (loc + 2);
                 if r = RET_T_NOK then Some (RET_T_NOK, st, tr)
                 else do {
                   (r, st) \<leftarrow> pci_value_file stk st ''subsystem_vendor'' pciPeriphDir (loc + 2);
                   if r = RET_T_NOK then Some (RET_T_NOK, st, tr)
                   else do {
                     (fileNodePtr, _, st) \<leftarrow>
                       pci_ramfs_addNewConfAreaFile stk st (cstr ''config'') pciPeriphDir bus device func;
                     Some (if fileNodePtr = 0 then RET_T_NOK else RET_T_OK, st, tr) } } } })"

definition pci_dev_name :: "bytes \<Rightarrow> u8 \<Rightarrow> u8 \<Rightarrow> u8 \<Rightarrow> bytes option" where
  "pci_dev_name stk bus device func =
     local_sprintf stk PCI_DEV_DIR_NAME_LEN ''0000:%02u:%02u.%02u'' [Va_Word (ucast bus), Va_Word (ucast device), Va_Word (ucast func)]"

definition pci_dev_path :: "bytes \<Rightarrow> bytes \<Rightarrow> bytes option" where
  "pci_dev_path stk pciDevName =
     local_sprintf stk (length PCI_FS_PATH + 1 + PCI_DEV_DIR_NAME_LEN) ''%s/%s'' [Va_Str (cstr PCI_FS_PATH), Va_Str pciDevName]"

definition pci_ramfs_addnode :: "machine \<Rightarrow> bytes \<Rightarrow> u32 \<Rightarrow> u8 \<Rightarrow> u8 \<Rightarrow> u8 \<Rightarrow> pci_sys \<Rightarrow> (int \<times> pci_sys) option" where
  "pci_ramfs_addnode hw stk loc bus device func s =
     (case s of (st, tr) \<Rightarrow>
        do { pciDevName \<leftarrow> pci_dev_name stk bus device func;
             (dir, _, st) \<leftarrow> ramfs_mkDir stk st pciDevName (cstr PCI_FS_PATH);
             if dir = 0 then Some (RET_T_NOK, st, tr)
             else do {
               pciDevPath \<leftarrow> pci_dev_path stk pciDevName;
               (r, s) \<leftarrow> pci_ramfs_addFiles hw stk loc (st, tr) pciDevPath bus device func;
               Some (if r = RET_T_NOK then RET_T_NOK else RET_T_OK, s) } })"

section \<open>The scan\<close>

text \<open>A loop over indices that stops at the first failure.\<close>

fun scan_all :: "('i \<Rightarrow> 's \<Rightarrow> (int \<times> 's) option) \<Rightarrow> 'i list \<Rightarrow> 's \<Rightarrow> (int \<times> 's) option" where
  "scan_all f [] s = Some (RET_T_OK, s)"
| "scan_all f (i # is) s =
     do { (r, s) \<leftarrow> f i s; if r \<noteq> RET_T_OK then Some (RET_T_NOK, s) else scan_all f is s }"

text \<open>
  The functions call each other in a circle; \<open>scanBus\<close> is the recursive call. The result of the scan
  behind a bridge is ignored.
\<close>

definition pci_scanFunction :: "(u8 \<Rightarrow> pci_sys \<Rightarrow> (int \<times> pci_sys) option) \<Rightarrow> machine \<Rightarrow> bytes \<Rightarrow> u32 \<Rightarrow> u8 \<Rightarrow> u8 \<Rightarrow> u8 \<Rightarrow> pci_sys \<Rightarrow>
    (int \<times> pci_sys) option" where
  "pci_scanFunction scanBus hw stk loc bus dev func s =
     (case s of (st, tr) \<Rightarrow>
        case run_state (pci_getBaseClass hw bus dev func) tr of (baseClass, tr) \<Rightarrow>
        case run_state (pci_getSubClass hw bus dev func) tr of (subClass, tr) \<Rightarrow>
        case run_state (pci_getVendorID hw bus dev func) tr of (vendorID, tr) \<Rightarrow>
          if vendorID \<noteq> PCI_NOT_VALID_VENDOR_ID then do {
            (r, st, tr) \<leftarrow> pci_ramfs_addnode hw stk loc bus dev func (st, tr);
            if r = RET_T_NOK then Some (RET_T_NOK, st, tr)
            else if baseClass = PCI_BRIDGE_BASECLASS \<and> subClass = PCI_TO_PCI_BRIDGE_SUBCLASS then
              (case run_state (pci_hdr_01_getSecondaryBus hw bus dev func) tr of (secondaryBus, tr) \<Rightarrow>
                 do { (_, s) \<leftarrow> scanBus secondaryBus (st, tr); Some (RET_T_OK, s) })
            else Some (RET_T_OK, st, tr) }
          else Some (RET_T_OK, st, tr))"

definition pci_scanDevice :: "(u8 \<Rightarrow> pci_sys \<Rightarrow> (int \<times> pci_sys) option) \<Rightarrow> machine \<Rightarrow> bytes \<Rightarrow> u32 \<Rightarrow> u8 \<Rightarrow> u8 \<Rightarrow> pci_sys \<Rightarrow>
    (int \<times> pci_sys) option" where
  "pci_scanDevice scanBus hw stk loc bus dev s =
     (case s of (st, tr) \<Rightarrow>
        case run_state (pci_getVendorID hw bus dev 0) tr of (vendorID, tr) \<Rightarrow>
          if vendorID \<noteq> PCI_NOT_VALID_VENDOR_ID then do {
            (r, st, tr) \<leftarrow> pci_scanFunction scanBus hw stk loc bus dev 0 (st, tr);
            if r \<noteq> RET_T_OK then Some (RET_T_NOK, st, tr)
            else
              (case run_state (pci_getHeaderType hw bus dev 0) tr of (hdrType, tr) \<Rightarrow>
                 if hdrType AND PCI_HDR_IS_MULTIFUNCTION \<noteq> 0 then
                   scan_all (\<lambda>func. pci_scanFunction scanBus hw stk loc bus dev func)
                     (map of_nat [1..<unat PCI_FUNC_PER_DEV]) (st, tr)
                 else Some (RET_T_OK, st, tr)) }
          else Some (RET_T_OK, st, tr))"

text \<open>The first argument bounds the depth of the recursion.\<close>

fun pci_scanBus :: "nat \<Rightarrow> machine \<Rightarrow> bytes \<Rightarrow> u32 \<Rightarrow> u8 \<Rightarrow> pci_sys \<Rightarrow> (int \<times> pci_sys) option" where
  "pci_scanBus 0 hw stk loc bus s = None"
| "pci_scanBus (Suc k) hw stk loc bus s =
     scan_all (\<lambda>dev. pci_scanDevice (pci_scanBus k hw stk loc) hw stk loc bus dev)
       (map of_nat [0..<unat PCI_DEV_PER_BUS]) s"

text \<open>The loop over the host controllers: it ends at the first function that is absent.\<close>

fun pci_scan_hosts :: "nat \<Rightarrow> machine \<Rightarrow> bytes \<Rightarrow> u32 \<Rightarrow> u8 list \<Rightarrow> pci_sys \<Rightarrow> (int \<times> pci_sys) option" where
  "pci_scan_hosts k hw stk loc [] s = Some (RET_T_OK, s)"
| "pci_scan_hosts k hw stk loc (func # fs) s =
     (case s of (st, tr) \<Rightarrow>
        case run_state (pci_getVendorID hw 0 0 func) tr of (vendorID, tr) \<Rightarrow>
          if vendorID = PCI_NOT_VALID_VENDOR_ID then Some (RET_T_OK, st, tr)
          else do {
            (r, s) \<leftarrow> pci_scanBus k hw stk loc func (st, tr);
            if r \<noteq> RET_T_OK then Some (RET_T_NOK, s) else pci_scan_hosts k hw stk loc fs s })"

definition pci_make_dir :: "bytes \<Rightarrow> ramfs \<Rightarrow> (int \<times> ramfs) option" where
  "pci_make_dir stk st =
     do { (dir, fserr, st) \<leftarrow> ramfs_mkDir stk st (cstr ''pci'') (cstr ''/sys/device'');
          if dir = 0 then
            (if fserr \<noteq> RFS_FILE_ALREADY_EXISTS then Some (RET_T_NOK, st)
             else do {
               (r, st) \<leftarrow> ramfs_deleteNode stk stk st (cstr ''/sys/device/pci'');
               if r \<noteq> VFS_T_OK then Some (RET_T_NOK, st)
               else do {
                 (dir, _, st) \<leftarrow> ramfs_mkDir stk st (cstr ''pci'') (cstr ''/sys/device'');
                 Some (if dir = 0 then RET_T_NOK else RET_T_OK, st) } })
          else Some (RET_T_OK, st) }"

definition pci_scan :: "nat \<Rightarrow> machine \<Rightarrow> bytes \<Rightarrow> u32 \<Rightarrow> pci_sys \<Rightarrow> (int \<times> pci_sys) option" where
  "pci_scan k hw stk loc s =
     (case s of (st, tr) \<Rightarrow>
        do { (r, st) \<leftarrow> pci_make_dir stk st;
             if r \<noteq> RET_T_OK then Some (RET_T_NOK, st, tr)
             else
               (case run_state (pci_getHeaderType hw 0 0 0) tr of (headerType, tr) \<Rightarrow>
                  if headerType AND PCI_HDR_IS_MULTIFUNCTION = 0 then do {
                    (r, s) \<leftarrow> pci_scanBus k hw stk loc 0 (st, tr);
                    Some (if r \<noteq> RET_T_OK then RET_T_NOK else RET_T_OK, s) }
                  else pci_scan_hosts k hw stk loc (map of_nat [0..<unat PCI_FUNC_PER_DEV]) (st, tr)) })"

end
