(* ===== verification/IA32_Pci_Files.thy ===== *)
theory IA32_Pci_Files
  imports IA32_Pci Coresys_Ramfs_Steps
begin

text \<open>
  The files of a PCI device: what the operations of pci.c add to the file system when there is room.
\<close>

section \<open>Value files\<close>

lemma extends_upd_new:
  assumes "extends st K st1 K1" and "p \<notin> live st K" and "nodes st2 = (nodes st1)(p \<mapsto> n)"
    and "fs_root st2 = fs_root st1" and "root_obj st2 = root_obj st1"
  shows "extends st K st2 K1"
  using assms by (auto simp: extends_def live_def)

text \<open>A block of \<open>k\<close> bytes that was taken from the heap.\<close>

definition in_heap :: "ramfs \<Rightarrow> u32 \<Rightarrow> nat \<Rightarrow> bool" where
  "in_heap st p k \<longleftrightarrow> unat (HeapMem (heap st)) \<le> unat p \<and> unat p + k \<le> unat (CurrentPointer (heap st))"

lemma in_heap_bumped: "bumped st st' b \<Longrightarrow> heap_inv (heap st) \<Longrightarrow> k \<le> b \<Longrightarrow> in_heap st' (CurrentPointer (heap st)) k"
  by (auto simp: in_heap_def bumped_def heap_inv_def word_le_nat_alt)

text \<open>A file of two bytes at \<open>p\<close> with the contents \<open>a\<close>, \<open>b\<close>.\<close>

definition value_file :: "ramfs \<Rightarrow> u32 \<Rightarrow> u8 \<Rightarrow> u8 \<Rightarrow> bool" where
  "value_file st p a b \<longleftrightarrow> (\<exists>n. regular_at st p n \<and> flength n = 2 \<and> filePtr n = p + 200 \<and>
     mem st (p + 200) = a \<and> mem st (p + 201) = b \<and> in_heap st p 204)"

lemma pci_value_file_ok:
  assumes par: "parent_ok st K path s d" and nm: "valid_name (cstr fn) f" and absent: "pick st (str_view f) (K d) = 0"
    and room: "has_room st 2" and loc: "off_heap st loc 2" and p: "p = CurrentPointer (heap st)"
  obtains st' where "pci_value_file stk st fn path loc = Some (RET_T_OK, st')"
    "fs_step st K st' (K(d := K d @ [p])) 204" "named st' p f" "value_file st' p (mem st loc) (mem st (loc + 1))"
    "vfs_walk find_dispatch st' (fs_root st') (tokens slash s @ [f]) = Some p"
proof -
  have room1: "has_room st 1" using room by (simp add: has_room_def)
  note inv = parent_okD(1) [OF par]
  have hi: "heap_inv (heap st)" using tree_invD(1) [OF inv] by (simp add: heap_ok_def)
  define n where "n = reg_file_node (cstr fn) (last_ino st)"
  obtain st1 where A: "ramfs_newRegFile stk st (cstr fn) path = Some (p, VFS_T_OK, st1)"
    "fs_step st K st1 (K(d := K d @ [p])) 200" "p \<noteq> 0" "nodes st1 p = Some n" "named st1 p f"
    "vfs_walk find_dispatch st1 (fs_root st1) (tokens slash s @ [f]) = Some p"
    using newRegFile_step [OF par nm absent room1 p] unfolding n_def by metis
  note S = A(2) [unfolded fs_step_def]
  have b1: "bumped st st1 200" and inv1: "tree_inv st1 (K(d := K d @ [p]))" using S by simp_all
  have reg: "regular_at st1 p n" "flength n = 0" using A(3,4) by (simp_all add: regular_at_def n_def reg_file_node_def zero_node_def)
  have room': "has_room st1 1" using fs_step_room [OF A(2), of 1 1] room by (simp add: numeral_2_eq_2)
  have c: "CurrentPointer (heap st1) = p + 200" using b1 by (simp add: bumped_def p)
  obtain st2 where B: "ramfs_write st1 p loc 2 0 = Some (2, st2)" "tree_inv st2 (K(d := K d @ [p]))" "bumped st1 st2 4"
    "nodes st2 = (nodes st1)(p \<mapsto> n\<lparr>filePtr := p + 200, flength := 2\<rparr>)" "fs_root st2 = fs_root st1"
    "mem st2 (p + 200) = mem st1 loc" "mem st2 (p + 200 + 1) = mem st1 (loc + 1)"
    by (rule write_new_file [OF inv1 reg room' off_heap_bumped [OF b1 loc] c [symmetric]])
  have m: "mem st1 (loc + i) = mem st (loc + i)" if "unat i < 2" for i
    using b1 off_heap_untouched [OF hi loc that] by (simp add: bumped_def)
  have ext: "extends st K st2 (K(d := K d @ [p]))"
  proof (rule extends_upd_new [OF _ _ B(4,5)])
    show "extends st K st1 (K(d := K d @ [p]))" using S by simp
    show "p \<notin> live st K" using fresh_not_live [OF inv room1] by (simp add: p)
    show "root_obj st2 = root_obj st1" using B(3) by (simp add: bumped_def)
  qed
  then have step: "fs_step st K st2 (K(d := K d @ [p])) 204"
    using B(2) bumped_trans [OF b1 B(3)] by (simp add: fs_step_def)
  have "value_file st2 p (mem st loc) (mem st (loc + 1))"
    using reg B(4,6,7) m [of 0] m [of 1] in_heap_bumped [OF bumped_trans [OF b1 B(3)] hi, of 204]
    by (simp add: value_file_def regular_at_def add.assoc p)
  moreover have nmd: "named st2 p f" using A(4,5) B(4) by (auto simp: named_def)
  moreover have "vfs_walk find_dispatch st2 (fs_root st2) (tokens slash s @ [f]) = Some p"
    using walk_new_entry [OF par B(2) ext _ absent _ A(3)] named_match [OF _ nmd, of f] nm str_view_cstr_at
    by (auto simp: valid_name_def)
  moreover have "pci_value_file stk st fn path loc = Some (RET_T_OK, st2)"
    using A(1,3) B(1) by (simp add: pci_value_file_def)
  ultimately show thesis using that step by blast
qed

section \<open>Configuration files\<close>

text \<open>A configuration file at \<open>p\<close> that stands for the function \<open>f\<close> of device \<open>d\<close> on bus \<open>b\<close>.\<close>

definition conf_file :: "ramfs \<Rightarrow> u32 \<Rightarrow> u8 \<Rightarrow> u8 \<Rightarrow> u8 \<Rightarrow> bool" where
  "conf_file st p b d f \<longleftrightarrow> (\<exists>n. nodes st p = Some n \<and> p \<noteq> 0 \<and> ftype n = FTYPE_REGULAR \<and> read_cb n = Some Cb_pci_vfs_confing_read \<and>
     write_cb n = Some Cb_pci_vfs_confing_write \<and> filePtr n = p + 200 \<and> mem st (p + 200) = b \<and> mem st (p + 201) = d \<and> mem st (p + 202) = f \<and> in_heap st p 204)"

lemma two_blocks:
  assumes h: "heap_ok st" and room: "has_room st 2" and p: "p = CurrentPointer (heap st)"
  obtains m1 m2 where "kmalloc (heap_magic st) (mem st) (heap st) sizeof_ramfs_file_header = (p, m1, (heap st)\<lparr>CurrentPointer := p + 200\<rparr>)"
    "kmalloc (heap_magic st) m1 ((heap st)\<lparr>CurrentPointer := p + 200\<rparr>) sizeof_pci_ramfs_conf_area =
      (p + 200, m2, (heap st)\<lparr>CurrentPointer := p + 204\<rparr>)"
    "unat (p + 204) = unat p + 204" "p \<noteq> 0" "p + 200 \<noteq> 0" "\<forall>a. untouched st a \<longrightarrow> m2 a = mem st a"
proof -
  have hi: "heap_inv (heap st)" and sz: "unat p + 607 \<le> 2 ^ 32" "unat p + 400 \<le> unat (HeapMem (heap st)) + unat (HeapMemSize (heap st))"
    using h room by (simp_all add: heap_ok_def has_room_def p)
  have u: "unat (p + 200) = unat p + 200" "unat (p + 204) = unat p + 204" using sz(1) by (simp_all add: unat_word_ariths)
  have p0: "p \<noteq> 0" using hi by (auto simp: heap_inv_def p)
  obtain q m1 h1 where k1: "kmalloc (heap_magic st) (mem st) (heap st) sizeof_ramfs_file_header = (q, m1, h1)" by (metis surj_pair)
  note R = kmalloc_result [OF hi heap_ok_request [OF h] k1]
  have q: "q = p" "h1 = (heap st)\<lparr>CurrentPointer := p + 200\<rparr>" "m1 = store32 (mem st) (p + 200) (heap_magic st)"
    using R sz by (auto simp: p)
  define st1 where "st1 = st\<lparr>heap := h1\<rparr>"
  have h1: "heap_inv h1" "request_ok h1 3" "round_up 3 = 4"
    using kmalloc_heap_inv [OF hi heap_ok_request [OF h] k1] sz(1) u
    by (simp_all add: request_ok_def q round_up_def MEM_MIN_SIZE_def)
  obtain r m2 h2 where k2: "kmalloc (heap_magic st) m1 h1 sizeof_pci_ramfs_conf_area = (r, m2, h2)" by (metis surj_pair)
  note R2 = kmalloc_result [OF h1(1,2) k2 [unfolded sizeof_pci_ramfs_conf_area_def]]
  have r0: "r \<noteq> 0" using R2(2) sz u by (simp add: q h1(3))
  then have r: "r = p + 200" "h2 = (heap st)\<lparr>CurrentPointer := p + 204\<rparr>" "m2 = store32 m1 (p + 204) (heap_magic st)"
    using R2 by (auto simp: q h1(3) add.assoc)
  have "m2 a = mem st a" if "untouched st a" for a
    using store_guard_untouched [OF hi that, of 200] store_guard_untouched [OF hi that, of 204] sz
    by (simp add: r(3) q(3) p [symmetric])
  then show thesis using that k1 k2 u(2) p0 r0 by (simp add: q r)
qed

lemma pci_conf_file_ok:
  assumes par: "parent_ok st K path s d" and nm: "valid_name fileName f" and absent: "pick st (str_view f) (K d) = 0"
    and room: "has_room st 2" and p: "p = CurrentPointer (heap st)"
  obtains st' where "pci_ramfs_addNewConfAreaFile stk st fileName path bus dev fnc = Some (p, VFS_T_OK, st')"
    "fs_step st K st' (K(d := K d @ [p])) 204" "named st' p f" "conf_file st' p bus dev fnc"
    "vfs_walk find_dispatch st' (fs_root st') (tokens slash s @ [f]) = Some p"
proof -
  note P = parent_okD [OF par]
  note h = tree_invD(1) [OF P(1)]
  obtain m1 m2 where B: "kmalloc (heap_magic st) (mem st) (heap st) sizeof_ramfs_file_header = (p, m1, (heap st)\<lparr>CurrentPointer := p + 200\<rparr>)"
    "kmalloc (heap_magic st) m1 ((heap st)\<lparr>CurrentPointer := p + 200\<rparr>) sizeof_pci_ramfs_conf_area =
      (p + 200, m2, (heap st)\<lparr>CurrentPointer := p + 204\<rparr>)"
    "unat (p + 204) = unat p + 204" "p \<noteq> 0" "p + 200 \<noteq> 0" "\<forall>a. untouched st a \<longrightarrow> m2 a = mem st a"
    by (rule two_blocks [OF h room p])
  define n where "n = (conf_area_node (view m1 p) fileName (last_ino st))\<lparr>filePtr := p + 200\<rparr>"
  define m3 where "m3 = m2(p + 200 := bus, p + 200 + 1 := dev, p + 200 + 2 := fnc)"
  define st6 where "st6 = st\<lparr>last_ino := last_ino st + 1, heap := (heap st)\<lparr>CurrentPointer := p + 204\<rparr>,
    nodes := (nodes st)(p \<mapsto> n), mem := m3\<rparr>"
  have far: "a \<noteq> p + 200 + i" if "untouched st a" "unat i < 4" for a i
  proof -
    have "unat p + 204 \<le> 2 ^ 32" using unat_lt2p [of "p + 204"] B(3) by simp
    then have "\<not> in_region a p 204" using untouched_block [OF that(1), of 204] room by (simp add: p has_room_def)
    then show ?thesis using that(2) by (auto simp: in_region_def word_less_nat_alt unat_word_ariths)
  qed
  have b: "bumped st st6 204"
    using B(3,6) far [of _ 0] far [of _ 1] far [of _ 2] by (auto simp: bumped_def st6_def m3_def p)
  have nn: "is_cstr (name n) f"
    using nm strncpy_to_cstr [of fileName f MAX_FNAME] by (simp add: n_def conf_area_node_def valid_name_def MAX_FNAME_def)
  have n6: "nodes st6 = (nodes st)(p \<mapsto> n)" "fs_root st6 = fs_root st" by (simp_all add: st6_def)
  have nf: "ftype n = FTYPE_REGULAR" "find_cb n = None" "children n = 0" "next_node n = 0" by (simp_all add: n_def conf_area_node_def)
  obtain l nl st' where A: "ramfs_getLastChild st6 d = Some l" "nodes st6 l = Some nl" "l \<noteq> p"
    "st' = st6\<lparr>nodes := (nodes st6)(l \<mapsto> nl\<lparr>next_node := p\<rparr>)\<rparr>"
    "tree_inv st' (K(d := K d @ [p]))" "extends st K st' (K(d := K d @ [p]))" "p \<noteq> 0" "nodes st' p = Some n"
    "vfs_walk find_dispatch st' (fs_root st') (tokens slash s @ [f]) = Some p" "bumped st st' 204"
    by (rule link_new_file [OF par nm absent p refl b _ _ room n6 nf nn]) simp_all
  have res: "pci_ramfs_addNewConfAreaFile stk st fileName path bus dev fnc = Some (p, VFS_T_OK, st')"
    using valid_name_check [OF nm] P(2,6,7) absent pick_str_view [of fileName f] nm B(1,2,4,5) A(1-4)
    by (simp add: pci_ramfs_addNewConfAreaFile_def valid_name_def fs_new_ino_id_def assign_def deref_def st6_def
        n_def m3_def RET_T_OK_def)
  have "conf_file st' p bus dev fnc"
    using A(4,7,8) in_heap_bumped [OF A(10), of 204] h
    by (auto simp: conf_file_def n_def conf_area_node_def st6_def m3_def add.assoc heap_ok_def p)
  moreover have "named st' p f" using A(8) nn nm by (auto simp: named_def valid_name_def)
  ultimately show thesis using that res A(5,6,9,10) by (simp add: fs_step_def)
qed

end
