(* ===== verification/IA32_Pci_Names.thy ===== *)
theory IA32_Pci_Names
  imports IA32_Pci_Files Libk_Printf_Ref
begin

text \<open>
  The names under which pci.c enters the devices in the file system: the text that \<open>sprintf\<close> produces
  for a device, that different devices have different names, and the path of a device.
\<close>

section \<open>Names\<close>

lemma local_sprintf_pieces:
  assumes "pieces_ok ps" and "bytes_of format = format_of ps" and "args = args_of ps"
    and "args_ok args" and "length (format_of ps) < 2 ^ 31" and "length (text_of ps) < n" "n < 2 ^ 31 - 1" and "0 \<notin> set (text_of ps)"
  obtains v where "local_sprintf stk n format args = Some v" "is_cstr v (text_of ps)"
proof -
  define t where "t = text_of ps"
  have im: "unat INT_MAX = 2 ^ 31 - 1" by (simp add: INT_MAX_def)
  have "printf_text INT_MAX (format_of ps) (args_of ps) = Some (0, t)"
    unfolding t_def using assms by (intro printf_text_reference) (simp_all add: im)
  then obtain m' where m': "gen_printf (buffer_nul 1) (copy_to_buffer 1) INT_MAX (format_of ps) (args_of ps) stk =
      Some (sint (of_nat (length t) + 1 :: u32), m')" "\<forall>i<length t. m' (1 + of_nat i) = t ! i" "m' (1 + of_nat (length t)) = 0"
    using gen_printf_buffer [of INT_MAX "args_of ps" "format_of ps" 1 0 t stk] assms im
    by (auto simp: word_less_nat_alt)
  have "sint (of_nat (Suc (length t)) :: u32) = int (Suc (length t))"
    using assms(6,7) by (intro sint_of_nat_small) (simp add: t_def)
  then have "local_sprintf stk n format args = Some (view m' 1)"
    using m'(1) assms(2,3,6) by (simp add: local_sprintf_def sprintf_def t_def add.commute)
  moreover have "0 \<notin> set t" unfolding t_def by (rule assms(8))
  then have "is_cstr (view m' 1) t"
    using m'(2,3) by (auto simp: cstr_at_iff_nth in_set_conv_nth view_apply)
  ultimately show thesis using that by (simp add: t_def)
qed

lemma two_digits:
  assumes "unat v < 100"
  shows "padded_text v = [digit_char (unat v div 10), digit_char (unat v mod 10)]"
proof (cases "unat v < 10")
  case True
  then show ?thesis
    by (simp add: padded_text_def number_text_def digits_rev.simps [of 10 "unat v"] digit_char_def [of 0])
next
  case False
  then have "unat v div 10 < 10" "unat v div 10 \<noteq> 0" using assms by auto
  then show ?thesis using False
    by (simp add: padded_text_def number_text_def digits_rev.simps [of 10 "unat v"] digits_rev.simps [of 10 "unat v div 10"])
qed

definition dev_name :: "u8 \<Rightarrow> u8 \<Rightarrow> u8 \<Rightarrow> u8 list" where
  "dev_name b d f = bytes_of ''0000:'' @ padded_text (ucast b) @ bytes_of '':'' @ padded_text (ucast d) @ bytes_of ''.'' @ padded_text (ucast f)"

lemma digit_char_inj: "inj_on digit_char {..<10}"
proof -
  have "list_all (\<lambda>x. list_all (\<lambda>y. digit_char x = digit_char y \<longrightarrow> x = y) [0..<10]) [0..<10]" by code_simp
  then show ?thesis by (auto simp: list_all_iff inj_on_def)
qed

lemma digit_pair: "x < 100 \<Longrightarrow> y < 100 \<Longrightarrow> digit_char (x div 10) = digit_char (y div 10) \<Longrightarrow>
  digit_char (x mod 10) = digit_char (y mod 10) \<Longrightarrow> x = y"
  using inj_onD [OF digit_char_inj, of "x div 10" "y div 10"] inj_onD [OF digit_char_inj, of "x mod 10" "y mod 10"]
  by (simp add: less_mult_imp_div_less) (metis div_mult_mod_eq)

lemma dev_name_inj:
  assumes "dev_name b d f = dev_name b' d' f'" and "unat b < 100" "unat d < 100" "unat f < 100" "unat b' < 100" "unat d' < 100" "unat f' < 100"
  shows "b = b' \<and> d = d' \<and> f = f'"
proof -
  have w: "unat (ucast x :: u32) = unat x" for x :: u8 by (simp add: unsigned_ucast_eq)
  have "digit_char (unat b div 10) = digit_char (unat b' div 10)" "digit_char (unat b mod 10) = digit_char (unat b' mod 10)"
    "digit_char (unat d div 10) = digit_char (unat d' div 10)" "digit_char (unat d mod 10) = digit_char (unat d' mod 10)"
    "digit_char (unat f div 10) = digit_char (unat f' div 10)" "digit_char (unat f mod 10) = digit_char (unat f' mod 10)"
    using assms by (simp_all add: dev_name_def two_digits w bytes_of_def)
  then have "unat b = unat b'" "unat d = unat d'" "unat f = unat f'" using assms(2-) digit_pair by blast+
  then show ?thesis by (simp add: word_unat_eq_iff)
qed

lemma digit_chars: "x < 10 \<Longrightarrow> digit_char x \<noteq> 0 \<and> digit_char x \<noteq> slash \<and> digit_char x \<noteq> PERCENT"
proof -
  have "list_all (\<lambda>x. digit_char x \<noteq> 0 \<and> digit_char x \<noteq> slash \<and> digit_char x \<noteq> PERCENT) [0..<10]" by code_simp
  then show "x < 10 \<Longrightarrow> ?thesis" by (simp add: list_all_iff)
qed

lemma dev_name_shape:
  assumes "unat b < 100" "unat d < 100" "unat f < 100"
  shows "length (dev_name b d f) = 13" and "slash \<notin> set (dev_name b d f)" and "0 \<notin> set (dev_name b d f)"
  using assms digit_chars [of "unat b div 10"] digit_chars [of "unat b mod 10"] digit_chars [of "unat d div 10"] digit_chars [of "unat d mod 10"]
    digit_chars [of "unat f div 10"] digit_chars [of "unat f mod 10"]
  by (auto simp: dev_name_def two_digits bytes_of_def slash_def less_mult_imp_div_less)

lemma pci_dev_name_ok:
  assumes "unat b < 100" "unat d < 100" "unat f < 100"
  obtains v where "pci_dev_name stk b d f = Some v" "valid_name v (dev_name b d f)"
proof -
  define ps where "ps = [Lit (bytes_of ''0000:''), Padded (ucast b), Lit (bytes_of '':''), Padded (ucast d), Lit (bytes_of ''.''), Padded (ucast f)]"
  have t: "text_of ps = dev_name b d f" by (simp add: ps_def text_of_def dev_name_def)
  have "pieces_ok ps" by (simp add: ps_def bytes_of_def plain_def)
  moreover have "bytes_of ''0000:%02u:%02u.%02u'' = format_of ps" by (simp add: ps_def format_of_def bytes_of_def)
  moreover have "args_of ps = [Va_Word (ucast b), Va_Word (ucast d), Va_Word (ucast f)]" by (simp add: ps_def args_of_def)
  moreover have "length (format_of ps) < 2 ^ 31" by (simp add: ps_def format_of_def bytes_of_def)
  ultimately obtain v where "pci_dev_name stk b d f = Some v" "is_cstr v (text_of ps)"
    using local_sprintf_pieces [of ps "''0000:%02u:%02u.%02u''" _ PCI_DEV_DIR_NAME_LEN stk] dev_name_shape [OF assms]
    unfolding pci_dev_name_def by (auto simp: t args_ok_def PCI_DEV_DIR_NAME_LEN_def)
  moreover have "dev_name b d f \<noteq> [0x2E]" "dev_name b d f \<noteq> [0x2E, 0x2E]" using dev_name_shape(1) [OF assms] by auto
  ultimately show thesis using that dev_name_shape [OF assms] by (auto simp: valid_name_def t)
qed

definition pci_path :: "u8 list" where
  "pci_path = bytes_of PCI_FS_PATH"

lemma pci_path_cstr: "is_cstr (cstr PCI_FS_PATH) pci_path"
  unfolding pci_path_def by (rule cstr_bytes) (simp_all add: PCI_FS_PATH_def bytes_of_def)

lemma pci_dev_path_ok:
  assumes "is_cstr v nm" and "length nm = 13" and "slash \<notin> set nm"
  obtains path where "pci_dev_path stk v = Some path" "abs_path path (pci_path @ slash # nm)"
    "tokens slash (pci_path @ slash # nm) = tokens slash pci_path @ [nm]"
proof -
  define ps where "ps = [Str (cstr PCI_FS_PATH) pci_path, Lit [slash], Str v nm]"
  have t: "text_of ps = pci_path @ slash # nm" by (simp add: ps_def text_of_def)
  have z: "0 \<notin> set nm" "0 \<notin> set pci_path" using cstr_at_nonzero assms(1) pci_path_cstr by auto
  have len: "length pci_path = 15" by (simp add: pci_path_def PCI_FS_PATH_def bytes_of_def)
  have "pieces_ok ps" using assms(1) pci_path_cstr by (simp add: ps_def plain_def slash_def)
  moreover have "bytes_of ''%s/%s'' = format_of ps" by (simp add: ps_def format_of_def bytes_of_def slash_def)
  moreover have "args_of ps = [Va_Str (cstr PCI_FS_PATH), Va_Str v]" by (simp add: ps_def args_of_def)
  moreover have "args_ok [Va_Str (cstr PCI_FS_PATH), Va_Str v]"
    using strlen_cstr [OF pci_path_cstr] strlen_cstr [OF assms(1)] assms(2) len by (auto simp: args_ok_def)
  moreover have "length (format_of ps) < 2 ^ 31" by (simp add: ps_def format_of_def)
  ultimately obtain path where p: "pci_dev_path stk v = Some path" "is_cstr path (text_of ps)"
    using local_sprintf_pieces [of ps "''%s/%s''" _ "length PCI_FS_PATH + 1 + PCI_DEV_DIR_NAME_LEN" stk] assms(2) z len
    unfolding pci_dev_path_def by (auto simp: t PCI_DEV_DIR_NAME_LEN_def PCI_FS_PATH_def slash_def)
  moreover have "abs_path path (pci_path @ slash # nm)"
    using p(2) assms(2) len by (simp add: abs_path_def t) (simp add: pci_path_def PCI_FS_PATH_def bytes_of_def slash_def)
  moreover have "tokens slash (pci_path @ slash # nm) = tokens slash pci_path @ [nm]"
    using tokens_single [of slash nm] assms(2,3) by (cases nm) (auto simp: tokens_append)
  ultimately show thesis using that by blast
qed

end
