(* ===== verification/IA32_Pci_Dirs.thy ===== *)
theory IA32_Pci_Dirs
  imports IA32_Pci_Names
begin

text \<open>
  The directory of a PCI device: what \<open>pci_ramfs_addnode\<close> adds to the file system, and that later
  steps of the scan keep it.
\<close>

section \<open>Steps of the scan\<close>

text \<open>The part of the heap that was handed out keeps its contents; local variables may change.\<close>

definition used :: "ramfs \<Rightarrow> ramfs \<Rightarrow> nat \<Rightarrow> bool" where
  "used st st' b \<longleftrightarrow> heap st' = (heap st)\<lparr>CurrentPointer := CurrentPointer (heap st) + of_nat b\<rparr> \<and>
     unat (CurrentPointer (heap st) + of_nat b) = unat (CurrentPointer (heap st)) + b \<and>
     (\<forall>a. HeapMem (heap st) \<le> a \<longrightarrow> a < CurrentPointer (heap st) \<longrightarrow> mem st' a = mem st a) \<and> root_obj st' = root_obj st"

lemma used_trans: "used st st1 b \<Longrightarrow> used st1 st2 c \<Longrightarrow> used st st2 (b + c)"
  by (auto simp: used_def add.assoc [symmetric] word_less_nat_alt)

lemma bumped_used: "bumped st st' b \<Longrightarrow> used st st' b"
  by (auto simp: bumped_def used_def untouched_def)

lemma off_heap_used: "used st st' b \<Longrightarrow> off_heap st buf k \<Longrightarrow> off_heap st' buf k"
  by (simp add: used_def off_heap_def)

text \<open>A step below the directory \<open>d\<close>: the other directories keep their entries.\<close>

definition pci_step :: "u32 \<Rightarrow> ramfs \<Rightarrow> (u32 \<Rightarrow> u32 list) \<Rightarrow> ramfs \<Rightarrow> (u32 \<Rightarrow> u32 list) \<Rightarrow> nat \<Rightarrow> bool" where
  "pci_step d st K st' K' b \<longleftrightarrow> tree_inv st' K' \<and> extends st K st' K' \<and> used st st' b \<and>
     (\<forall>x\<in>live st K. x \<noteq> d \<longrightarrow> K' x = K x)"

lemma pci_step_refl: "tree_inv st K \<Longrightarrow> pci_step d st K st K 0"
  by (simp add: pci_step_def extends_refl used_def)

lemma pci_step_trans:
  assumes "pci_step d st K st1 K1 b" and "pci_step d st1 K1 st2 K2 c"
  shows "pci_step d st K st2 K2 (b + c)"
  using assms extends_trans [of st K st1 K1 st2 K2] used_trans [of st st1 b st2 c]
  by (auto simp: pci_step_def extends_def)

lemma pci_step_room: "pci_step d st K st' K' b \<Longrightarrow> b \<le> 200 * j \<Longrightarrow> has_room st (j + k) \<Longrightarrow> has_room st' k"
  by (auto simp: pci_step_def used_def has_room_def)

lemma pci_step_parent: "parent_ok st K path s e \<Longrightarrow> pci_step d st K st' K' b \<Longrightarrow> parent_ok st' K' path s e"
  by (auto simp: pci_step_def intro: parent_ok_extends)

lemma fs_step_pci: "fs_step st K st' (K(d := xs)) b \<Longrightarrow> pci_step d st K st' (K(d := xs)) b"
  by (simp add: fs_step_def pci_step_def bumped_used)

lemma pci_step_local:
  assumes inv: "tree_inv st K" and loc: "off_heap st loc 4"
    and m: "\<forall>a. (\<forall>i. unat i < 4 \<longrightarrow> a \<noteq> loc + i) \<longrightarrow> m a = mem st a"
  shows "pci_step d st K (st\<lparr>mem := m\<rparr>) K 0"
proof -
  have hi: "heap_inv (heap st)" using tree_invD(1) [OF inv] by (simp add: heap_ok_def)
  have "m a = mem st a" if "HeapMem (heap st) \<le> a" "a < CurrentPointer (heap st)" for a
  proof -
    have "a \<noteq> loc + i" if i: "unat i < 4" for i
    proof -
      have "unat (loc + i) = unat loc + unat i" using loc i by (intro unat_add_no_wrap) (simp add: off_heap_def)
      then show ?thesis using \<open>HeapMem (heap st) \<le> a\<close> \<open>a < CurrentPointer (heap st)\<close> loc i hi
        by (auto simp: off_heap_def heap_inv_def word_less_nat_alt word_le_nat_alt)
    qed
    then show ?thesis using m by blast
  qed
  then have "used st (st\<lparr>mem := m\<rparr>) 0" by (simp add: used_def)
  moreover have "extends st K (st\<lparr>mem := m\<rparr>) K" using extends_refl [OF inv] by (simp add: extends_def live_def)
  ultimately show ?thesis using tree_inv_mem [OF inv] by (simp add: pci_step_def)
qed

section \<open>Files are kept\<close>

lemma in_heap_step: "pci_step d st K st' K' b \<Longrightarrow> in_heap st p k \<Longrightarrow> in_heap st' p k"
  by (auto simp: pci_step_def used_def in_heap_def)

lemma heap_mem_step:
  assumes "pci_step d st K st' K' b" and "in_heap st p 204" and "unat i < 204"
  shows "mem st' (p + i) = mem st (p + i)"
proof -
  have "unat p + 204 \<le> unat (CurrentPointer (heap st))" using assms(2) by (simp add: in_heap_def)
  then have "unat (p + i) = unat p + unat i" using assms(3) unat_lt2p [of "CurrentPointer (heap st)"]
    by (intro unat_add_no_wrap) simp
  then show ?thesis using assms by (auto simp: pci_step_def used_def in_heap_def word_less_nat_alt word_le_nat_alt)
qed

lemma value_file_step:
  assumes s: "pci_step d st K st' K' b" and "p \<in> live st K" and v: "value_file st p x y"
  shows "value_file st' p x y"
proof -
  have "extends st K st' K'" using s by (simp add: pci_step_def)
  then obtain n k where n: "nodes st p = Some n" "nodes st' p = Some (n\<lparr>next_node := k\<rparr>)"
    using assms(2) by (blast elim: extendsE)
  then show ?thesis
    using v in_heap_step [OF s, of p 204] heap_mem_step [OF s, of p 200] heap_mem_step [OF s, of p 201]
    by (auto simp: value_file_def regular_at_def)
qed

lemma conf_file_step:
  assumes s: "pci_step d st K st' K' b" and "p \<in> live st K" and v: "conf_file st p x y z"
  shows "conf_file st' p x y z"
proof -
  have "extends st K st' K'" using s by (simp add: pci_step_def)
  then obtain n k where n: "nodes st p = Some n" "nodes st' p = Some (n\<lparr>next_node := k\<rparr>)"
    using assms(2) by (blast elim: extendsE)
  then show ?thesis
    using v in_heap_step [OF s, of p 204] heap_mem_step [OF s, of p 200] heap_mem_step [OF s, of p 201] heap_mem_step [OF s, of p 202]
    by (auto simp: conf_file_def)
qed

lemma named_step: "pci_step d st K st' K' b \<Longrightarrow> p \<in> live st K \<Longrightarrow> named st p f \<Longrightarrow> named st' p f"
  by (auto simp: pci_step_def intro: named_extends)

lemma live_step: "pci_step d st K st' K' b \<Longrightarrow> p \<in> live st K \<Longrightarrow> p \<in> live st' K'"
  by (simp add: pci_step_def extends_def)

lemma is_dir_step: "pci_step d st K st' K' b \<Longrightarrow> p \<in> live st K \<Longrightarrow> is_dir st p \<Longrightarrow> is_dir st' p"
  by (auto simp: pci_step_def intro: is_dir_extends)

section \<open>The entries of a device\<close>

lemma names_at_step: "pci_step d st K st' K' b \<Longrightarrow> names_at st (K p) fs \<Longrightarrow> names_at st' (K p) fs"
  by (auto simp: pci_step_def intro: names_at_extends)

lemma fs_step_local:
  assumes "tree_inv st K" and "fs_step st K st' K' b" and "off_heap st loc k" and "unat i < k"
  shows "mem st' (loc + i) = mem st (loc + i)"
  using assms(2) off_heap_untouched [OF _ assms(3,4)] tree_invD(1) [OF assms(1)] by (simp add: fs_step_def bumped_def heap_ok_def)

lemma off_heap_part:
  assumes "off_heap st loc k" and "unat i + j \<le> k" and "0 < j" and "loc + i \<noteq> 0"
  shows "off_heap st (loc + i) j"
proof -
  have "unat (loc + i) = unat loc + unat i" using assms by (intro unat_add_no_wrap) (simp add: off_heap_def)
  then show ?thesis using assms by (auto simp: off_heap_def)
qed

lemma add_value:
  assumes par: "parent_ok st K path s d" and nm: "valid_name (cstr fn) f" and "names_at st (K d) fs" "f \<notin> set fs"
    and room: "has_room st (2 + k)" and loc: "off_heap st loc 2"
  obtains st' K' p where "K' = K(d := K d @ [p])" "pci_value_file stk st fn path loc = Some (RET_T_OK, st')" "fs_step st K st' K' 204"
    "parent_ok st' K' path s d" "names_at st' (K' d) (fs @ [f])" "value_file st' p (mem st loc) (mem st (loc + 1))"
    "has_room st' k" "p \<in> live st' K'"
proof -
  have "has_room st 2" using room by (simp add: has_room_def)
  then obtain st' p where A: "pci_value_file stk st fn path loc = Some (RET_T_OK, st')"
    "fs_step st K st' (K(d := K d @ [p])) 204" "named st' p f" "value_file st' p (mem st loc) (mem st (loc + 1))"
    by (rule pci_value_file_ok [OF par nm names_at_absent [OF assms(3,4) nm] _ loc refl])
  moreover have "p \<in> live st' (K(d := K d @ [p]))" by (rule liveI [where p = d]) simp
  ultimately show thesis
    using that [OF refl A(1,2)] fs_step_parent [OF par A(2)] names_at_step [OF fs_step_pci [OF A(2)] assms(3)] fs_step_room [OF A(2) _ room]
    by (simp add: names_at_snoc)
qed

lemma add_conf:
  assumes par: "parent_ok st K path s d" and nm: "valid_name fn f" and "names_at st (K d) fs" "f \<notin> set fs"
    and room: "has_room st 2"
  obtains st' p where "pci_ramfs_addNewConfAreaFile stk st fn path bus dev fnc = Some (p, VFS_T_OK, st')" "p \<noteq> 0"
    "fs_step st K st' (K(d := K d @ [p])) 204" "names_at st' (K d @ [p]) (fs @ [f])" "conf_file st' p bus dev fnc"
proof -
  obtain st' p where A: "pci_ramfs_addNewConfAreaFile stk st fn path bus dev fnc = Some (p, VFS_T_OK, st')"
    "fs_step st K st' (K(d := K d @ [p])) 204" "named st' p f" "conf_file st' p bus dev fnc"
    by (rule pci_conf_file_ok [OF par nm names_at_absent [OF assms(3,4) nm] room refl])
  show thesis
    using that A names_at_step [OF fs_step_pci [OF A(2)] assms(3)] by (auto simp: names_at_snoc conf_file_def)
qed

lemma file_names: "valid_name (cstr ''vendor'') (bytes_of ''vendor'')" "valid_name (cstr ''device'') (bytes_of ''device'')"
  "valid_name (cstr ''subsystem_vendor'') (bytes_of ''subsystem_vendor'')" "valid_name (cstr ''config'') (bytes_of ''config'')"
  "valid_name (cstr ''pci'') (bytes_of ''pci'')"
  by (rule cstr_name; simp add: bytes_of_def slash_def)+

definition device_names :: "u8 list list" where
  "device_names = dir_names @ map bytes_of [''vendor'', ''device'', ''subsystem_vendor'', ''config'']"

text \<open>The contents of the directory of a device: the files and what they hold.\<close>

definition device_files :: "ramfs \<Rightarrow> u32 list \<Rightarrow> pci_space \<Rightarrow> u8 \<Rightarrow> u8 \<Rightarrow> u8 \<Rightarrow> bool" where
  "device_files st xs cfg b d f \<longleftrightarrow> names_at st xs device_names \<and>
     value_file st (xs ! 2) (cfg b d f 0) (cfg b d f 1) \<and> value_file st (xs ! 3) (cfg b d f 2) (cfg b d f 3) \<and>
     value_file st (xs ! 4) (cfg b d f 2) (cfg b d f 3) \<and> conf_file st (xs ! 5) b d f"

lemma device_files_step:
  assumes s: "pci_step e st K st' K' n" and v: "device_files st (K p) cfg b d f"
  shows "device_files st' (K p) cfg b d f"
proof -
  have "length (K p) = 6" using v by (auto simp: device_files_def names_at_def device_names_def dir_names_def dest: list_all2_lengthD)
  then have "K p ! 2 \<in> live st K" "K p ! 3 \<in> live st K" "K p ! 4 \<in> live st K" "K p ! 5 \<in> live st K" by (auto intro!: liveI nth_mem)
  then show ?thesis
    using v names_at_step [OF s] value_file_step [OF s] conf_file_step [OF s] by (auto simp: device_files_def)
qed

lemma space16_bytes: "(ucast (space16 cfg b d f r) :: u8) = cfg b d f r" "(ucast (drop_bit 8 (space16 cfg b d f r)) :: u8) = cfg b d f (r + 1)"
proof -
  show "(ucast (space16 cfg b d f r) :: u8) = cfg b d f r" by (rule space16_low)
  show "(ucast (drop_bit 8 (space16 cfg b d f r)) :: u8) = cfg b d f (r + 1)"
    by (rule bit_word_eqI) (auto simp: space16_def bit_simps dest: bit_imp_le_length)
qed

text \<open>What the two variables of \<open>pci_ramfs_addFiles\<close> hold.\<close>

lemma store_ids:
  fixes m :: bytes and v w :: u16 and loc :: u32
  defines "m' \<equiv> store16 (store16 m loc v) (loc + 2) w"
  shows "m' loc = ucast v" "m' (loc + 1) = ucast (drop_bit 8 v)" "m' (loc + 2) = ucast w" "m' (loc + 3) = ucast (drop_bit 8 w)"
    "\<forall>a. (\<forall>i. unat i < 4 \<longrightarrow> a \<noteq> loc + i) \<longrightarrow> m' a = m a"
proof -
  have "a \<noteq> loc \<and> a \<noteq> loc + 1 \<and> a \<noteq> loc + 2 \<and> a \<noteq> loc + 3" if "\<forall>i. unat i < 4 \<longrightarrow> a \<noteq> loc + i" for a
    using spec [OF that, of 0] spec [OF that, of 1] spec [OF that, of 2] spec [OF that, of 3] by simp
  then show "\<forall>a. (\<forall>i. unat i < 4 \<longrightarrow> a \<noteq> loc + i) \<longrightarrow> m' a = m a"
    by (simp add: m'_def store16_def add.assoc)
qed (simp_all add: m'_def store16_def add.assoc)

lemma fs_step_off_heap: "fs_step st K st' K' b \<Longrightarrow> off_heap st buf k \<Longrightarrow> off_heap st' buf k"
  by (auto simp: fs_step_def intro: off_heap_bumped)

text \<open>The files, once the variables are set.\<close>

lemma device_files_added:
  assumes par: "parent_ok st K path s p" and nms: "names_at st (K p) dir_names" and room: "has_room st 8"
    and loc: "off_heap st loc 2" "off_heap st (loc + 2) 2"
    and ids: "mem st loc = cfg b d f 0" "mem st (loc + 1) = cfg b d f 1" "mem st (loc + 2) = cfg b d f 2" "mem st (loc + 2 + 1) = cfg b d f 3"
  obtains st1 st2 st3 st4 x xs where "pci_value_file stk st ''vendor'' path loc = Some (RET_T_OK, st1)"
    "pci_value_file stk st1 ''device'' path (loc + 2) = Some (RET_T_OK, st2)"
    "pci_value_file stk st2 ''subsystem_vendor'' path (loc + 2) = Some (RET_T_OK, st3)"
    "pci_ramfs_addNewConfAreaFile stk st3 (cstr ''config'') path b d f = Some (x, VFS_T_OK, st4)" "x \<noteq> 0"
    "pci_step p st K st4 (K(p := xs)) 816" "device_files st4 xs cfg b d f"
proof -
  have new: "bytes_of ''vendor'' \<notin> set dir_names" "bytes_of ''device'' \<notin> set (dir_names @ [bytes_of ''vendor''])"
    "bytes_of ''subsystem_vendor'' \<notin> set ((dir_names @ [bytes_of ''vendor'']) @ [bytes_of ''device''])"
    "bytes_of ''config'' \<notin> set (((dir_names @ [bytes_of ''vendor'']) @ [bytes_of ''device'']) @ [bytes_of ''subsystem_vendor''])"
    by (simp_all add: dir_names_def bytes_of_def)
  have room6: "has_room st (2 + (2 + (2 + 2)))" using room by simp
  obtain st1 K1 x1 where A1: "K1 = K(p := K p @ [x1])" "pci_value_file stk st ''vendor'' path loc = Some (RET_T_OK, st1)" "fs_step st K st1 K1 204"
    "parent_ok st1 K1 path s p" "names_at st1 (K1 p) (dir_names @ [bytes_of ''vendor''])" "value_file st1 x1 (mem st loc) (mem st (loc + 1))"
    "has_room st1 (2 + (2 + 2))" "x1 \<in> live st1 K1"
    by (rule add_value [OF par file_names(1) nms new(1) room6 loc(1)])
  note m1 = fs_step_local [OF parent_okD(1) [OF par] A1(3) loc(2)] and o1 = fs_step_off_heap [OF A1(3) loc(2)]
  obtain st2 K2 x2 where A2: "K2 = K1(p := K1 p @ [x2])" "pci_value_file stk st1 ''device'' path (loc + 2) = Some (RET_T_OK, st2)" "fs_step st1 K1 st2 K2 204"
    "parent_ok st2 K2 path s p" "names_at st2 (K2 p) ((dir_names @ [bytes_of ''vendor'']) @ [bytes_of ''device''])"
    "value_file st2 x2 (mem st1 (loc + 2)) (mem st1 (loc + 2 + 1))" "has_room st2 (2 + 2)" "x2 \<in> live st2 K2"
    by (rule add_value [OF A1(4) file_names(2) A1(5) new(2) A1(7) o1])
  note m2 = fs_step_local [OF parent_okD(1) [OF A1(4)] A2(3) o1] and o2 = fs_step_off_heap [OF A2(3) o1]
  obtain st3 K3 x3 where A3: "K3 = K2(p := K2 p @ [x3])" "pci_value_file stk st2 ''subsystem_vendor'' path (loc + 2) = Some (RET_T_OK, st3)"
    "fs_step st2 K2 st3 K3 204" "parent_ok st3 K3 path s p"
    "names_at st3 (K3 p) (((dir_names @ [bytes_of ''vendor'']) @ [bytes_of ''device'']) @ [bytes_of ''subsystem_vendor''])"
    "value_file st3 x3 (mem st2 (loc + 2)) (mem st2 (loc + 2 + 1))" "has_room st3 2" "x3 \<in> live st3 K3"
    by (rule add_value [OF A2(4) file_names(3) A2(5) new(3) A2(7) o2])
  obtain st4 x4 where A4: "pci_ramfs_addNewConfAreaFile stk st3 (cstr ''config'') path b d f = Some (x4, VFS_T_OK, st4)" "x4 \<noteq> 0"
    "fs_step st3 K3 st4 (K3(p := K3 p @ [x4])) 204"
    "names_at st4 (K3 p @ [x4]) ((((dir_names @ [bytes_of ''vendor'']) @ [bytes_of ''device'']) @ [bytes_of ''subsystem_vendor'']) @ [bytes_of ''config''])"
    "conf_file st4 x4 b d f"
    by (rule add_conf [OF A3(4) file_names(4) A3(5) new(4) A3(7)])
  define xs where "xs = K3 p @ [x4]"
  have Keq: "K3(p := xs) = K(p := xs)" by (simp add: A1(1) A2(1) A3(1))
  have t2: "pci_step p st1 K1 st2 K2 204" and t3: "pci_step p st2 K2 st3 K3 204" and t4: "pci_step p st3 K3 st4 (K3(p := xs)) 204"
    unfolding A2(1) A3(1) xs_def by (rule fs_step_pci, insert A2(3) A3(3) A4(3), simp add: A2(1) A3(1))+
  note t34 = pci_step_trans [OF t3 t4]
  show thesis
  proof (rule that [OF A1(2) A2(2) A3(2) A4(1,2)])
    show "pci_step p st K st4 (K(p := xs)) 816"
      using fs_step_pci [of st K st4 p xs 816] fs_step_trans [OF fs_step_trans [OF fs_step_trans [OF A1(3) A2(3)] A3(3)] A4(3)] Keq
      by (simp add: xs_def)
    have "length (K p) = 2" using nms by (auto simp: names_at_def dir_names_def dest: list_all2_lengthD)
    then have ix: "xs ! 2 = x1" "xs ! 3 = x2" "xs ! 4 = x3" "xs ! 5 = x4" by (simp_all add: xs_def A1(1) A2(1) A3(1) nth_append)
    have "value_file st4 x1 (cfg b d f 0) (cfg b d f 1)" "value_file st4 x2 (cfg b d f 2) (cfg b d f 3)" "value_file st4 x3 (cfg b d f 2) (cfg b d f 3)"
      using value_file_step [OF pci_step_trans [OF t2 t34] A1(8,6)] value_file_step [OF t34 A2(8,6)] value_file_step [OF t4 A3(8,6)]
        ids m1 [of 0] m1 [of 1] m2 [of 0] m2 [of 1] by simp_all
    then show "device_files st4 xs cfg b d f"
      using A4(4,5) by (simp add: device_files_def ix device_names_def) (simp add: xs_def)
  qed
qed

lemma pci_ramfs_addFiles_ok:
  assumes par: "parent_ok st K path s p" and nms: "names_at st (K p) dir_names" and room: "has_room st 8"
    and loc: "off_heap st loc 4" "loc + 2 \<noteq> 0" and hw: "has_space hw cfg" "d < PCI_DEV_PER_BUS" "f < PCI_FUNC_PER_DEV"
  obtains st' xs us where "pci_ramfs_addFiles hw stk loc (st, tr) path b d f = Some (RET_T_OK, st', tr @ us)"
    "pci_step p st K st' (K(p := xs)) 816" "device_files st' xs cfg b d f"
proof -
  obtain us1 where v: "run_state (pci_getVendorID hw b d f) tr = (space16 cfg b d f 0, tr @ us1)" using pci_fields(1) [OF hw] by blast
  obtain w us2 where w: "run_state (pci_read32 hw b d f PCI_HDR_DEVICEID_OFFSET) (tr @ us1) = (w, (tr @ us1) @ us2)" "ucast w = space16 cfg b d f 2"
    using pci_fields(2) [OF hw] by blast
  note inv = parent_okD(1) [OF par]
  define m where "m = store16 (store16 (mem st) loc (space16 cfg b d f 0)) (loc + 2) (space16 cfg b d f 2)"
  define st0 where "st0 = st\<lparr>mem := m\<rparr>"
  note ids = store_ids [where m = "mem st" and loc = loc and v = "space16 cfg b d f 0" and w = "space16 cfg b d f 2", folded m_def, unfolded space16_bytes]
  have s0: "pci_step p st K st0 K 0" unfolding st0_def by (rule pci_step_local [OF inv loc(1) ids(5)])
  have room0: "has_room st0 8" using pci_step_room [OF s0, of 0] room by simp
  have loc0: "off_heap st0 loc 4" using loc(1) by (simp add: st0_def off_heap_def)
  have loc2: "off_heap st0 loc 2" "off_heap st0 (loc + 2) 2" using off_heap_part [OF loc0, of 0 2] off_heap_part [OF loc0, of 2 2] loc loc0
    by (simp_all add: off_heap_def)
  note par0 = pci_step_parent [OF par s0] and nms0 = names_at_step [OF s0 nms]
  have idm: "mem st0 loc = cfg b d f 0" "mem st0 (loc + 1) = cfg b d f 1" "mem st0 (loc + 2) = cfg b d f 2" "mem st0 (loc + 2 + 1) = cfg b d f 3"
    using ids by (simp_all add: st0_def add.assoc)
  obtain st1 st2 st3 st4 x xs where A: "pci_value_file stk st0 ''vendor'' path loc = Some (RET_T_OK, st1)"
    "pci_value_file stk st1 ''device'' path (loc + 2) = Some (RET_T_OK, st2)"
    "pci_value_file stk st2 ''subsystem_vendor'' path (loc + 2) = Some (RET_T_OK, st3)"
    "pci_ramfs_addNewConfAreaFile stk st3 (cstr ''config'') path b d f = Some (x, VFS_T_OK, st4)" "x \<noteq> 0"
    "pci_step p st0 K st4 (K(p := xs)) 816" "device_files st4 xs cfg b d f"
    by (rule device_files_added [of _ _ _ _ _ _ cfg b d f, OF par0 nms0 room0 loc2 idm])
  have "pci_ramfs_addFiles hw stk loc (st, tr) path b d f = Some (RET_T_OK, st4, tr @ us1 @ us2)"
    using A(1-5) v w by (simp add: pci_ramfs_addFiles_def m_def [symmetric] st0_def RET_T_OK_def RET_T_NOK_def)
  then show thesis using that pci_step_trans [OF s0 A(6)] A(7) by simp
qed

section \<open>The directory of a device\<close>

definition device_dir :: "ramfs \<Rightarrow> (u32 \<Rightarrow> u32 list) \<Rightarrow> pci_space \<Rightarrow> u32 \<Rightarrow> u8 \<times> u8 \<times> u8 \<Rightarrow> bool" where
  "device_dir st K cfg p = (\<lambda>(b, d, f). named st p (dev_name b d f) \<and> is_dir st p \<and> p \<in> live st K \<and> device_files st (K p) cfg b d f)"

lemma device_dir_step:
  assumes "pci_step e st K st' K' n" and "p \<noteq> e" and "device_dir st K cfg p bdf"
  shows "device_dir st' K' cfg p bdf"
proof -
  obtain b d f where v: "named st p (dev_name b d f)" "is_dir st p" "p \<in> live st K" "device_files st (K p) cfg b d f" "bdf = (b, d, f)"
    using assms(3) by (auto simp: device_dir_def)
  have "K' p = K p" using assms(1,2) v(3) by (simp add: pci_step_def)
  then show ?thesis
    using named_step [OF assms(1) v(3,1)] is_dir_step [OF assms(1) v(3,2)] live_step [OF assms(1) v(3)] device_files_step [OF assms(1) v(4)]
    by (simp add: device_dir_def v(5))
qed

lemma small_words: "d < PCI_DEV_PER_BUS \<Longrightarrow> unat d < 100" "f < PCI_FUNC_PER_DEV \<Longrightarrow> unat f < 100"
  by (simp_all add: PCI_DEV_PER_BUS_def PCI_FUNC_PER_DEV_def word_less_nat_alt)

lemma pci_ramfs_addnode_ok:
  assumes par: "parent_ok st K (cstr PCI_FS_PATH) pci_path e" and nms: "names_at st (K e) fs" "dev_name b d f \<notin> set fs"
    and room: "has_room st 11" and loc: "off_heap st loc 4" "loc + 2 \<noteq> 0" and b: "unat b < 100"
    and hw: "has_space hw cfg" "d < PCI_DEV_PER_BUS" "f < PCI_FUNC_PER_DEV"
  obtains st' K' p us where "pci_ramfs_addnode hw stk loc b d f (st, tr) = Some (RET_T_OK, st', tr @ us)"
    "pci_step e st K st' K' 1416" "K' e = K e @ [p]" "device_dir st' K' cfg p (b, d, f)" "p \<noteq> e" "names_at st' (K' e) (fs @ [dev_name b d f])"
proof -
  note sm = b small_words(1) [OF hw(2)] small_words(2) [OF hw(3)]
  note e = parent_okD(3) [OF par]
  define p where "p = CurrentPointer (heap st)"
  obtain v where v: "pci_dev_name stk b d f = Some v" "valid_name v (dev_name b d f)" by (rule pci_dev_name_ok [OF sm])
  have vc: "is_cstr v (dev_name b d f)" using v(2) by (simp add: valid_name_def)
  obtain path where w: "pci_dev_path stk v = Some path" "abs_path path (pci_path @ slash # dev_name b d f)"
    "tokens slash (pci_path @ slash # dev_name b d f) = tokens slash pci_path @ [dev_name b d f]"
    by (rule pci_dev_path_ok [OF vc dev_name_shape(1,2) [OF sm]])
  have room3: "has_room st (3 + 8)" "has_room st 3" "has_room st 1" using room by (simp_all add: has_room_def)
  obtain st1 q r where A: "ramfs_mkDir stk st v (cstr PCI_FS_PATH) = Some (p, VFS_T_OK, st1)"
    "fs_step st K st1 (K(e := K e @ [p], p := [q, r])) 600" "p \<noteq> 0" "is_dir st1 p"
    "vfs_walk find_dispatch st1 (fs_root st1) (tokens slash pci_path @ [dev_name b d f]) = Some p"
    "named st1 p (dev_name b d f)" "named st1 q [0x2E]" "named st1 r [0x2E, 0x2E]"
    by (rule mkDir_step [OF par v(2) names_at_absent [OF nms v(2)] room3(2) p_def])
  define K1 where "K1 = K(e := K e @ [p], p := [q, r])"
  have fresh: "p \<notin> live st K" using fresh_not_live [OF parent_okD(1) [OF par] room3(3)] by (simp add: p_def)
  then have pe: "p \<noteq> e" using e by auto
  note a = A(2) [folded K1_def]
  have s1: "pci_step e st K st1 K1 600" using a fresh by (auto simp: fs_step_def pci_step_def bumped_used K1_def)
  have par1: "parent_ok st1 K1 path (pci_path @ slash # dev_name b d f) p"
    using a w(2) A(3-5) by (simp add: parent_ok_def fs_step_def w(3))
  have dn: "names_at st1 (K1 p) dir_names" using A(7,8) by (simp add: K1_def names_at_def dir_names_def)
  obtain st2 xs us where B: "pci_ramfs_addFiles hw stk loc (st1, tr) path b d f = Some (RET_T_OK, st2, tr @ us)"
    "pci_step p st1 K1 st2 (K1(p := xs)) 816" "device_files st2 xs cfg b d f"
    by (rule pci_ramfs_addFiles_ok [OF par1 dn fs_step_room [OF a _ room3(1)] fs_step_off_heap [OF a loc(1)] loc(2) hw]) simp
  have p1: "p \<in> live st1 K1" by (rule liveI [where p = e]) (use pe in \<open>simp add: K1_def\<close>)
  show thesis
  proof (rule that)
    show "pci_ramfs_addnode hw stk loc b d f (st, tr) = Some (RET_T_OK, st2, tr @ us)"
      using v(1) A(1,3) w(1) B(1) by (simp add: pci_ramfs_addnode_def RET_T_OK_def RET_T_NOK_def)
    have "extends st K st2 (K1(p := xs))" "used st st2 (600 + 816)" "tree_inv st2 (K1(p := xs))"
      using s1 B(2) extends_trans [of st K st1 K1 st2 "K1(p := xs)"] used_trans [of st st1 600 st2 816] by (simp_all add: pci_step_def)
    then show "pci_step e st K st2 (K1(p := xs)) 1416" using fresh by (auto simp: pci_step_def K1_def)
    show "(K1(p := xs)) e = K e @ [p]" using pe by (simp add: K1_def)
    have "named st2 p (dev_name b d f)" "is_dir st2 p" "p \<in> live st2 (K1(p := xs))"
      using named_step [OF B(2) p1 A(6)] is_dir_step [OF B(2) p1 A(4)] live_step [OF B(2) p1] by simp_all
    then show "device_dir st2 (K1(p := xs)) cfg p (b, d, f)" using B(3) by (simp add: device_dir_def)
    show "p \<noteq> e" by (rule pe)
    have "names_at st1 (K1 e) (fs @ [dev_name b d f])"
      using names_at_step [OF s1 nms(1)] A(6) pe by (simp add: K1_def names_at_snoc)
    then show "names_at st2 ((K1(p := xs)) e) (fs @ [dev_name b d f])" using names_at_step [OF B(2)] pe by simp
  qed
qed

end
