(* ===== verification/IA32_Pci_Scan.thy ===== *)
theory IA32_Pci_Scan
  imports IA32_Pci_Dirs
begin

text \<open>
  The scan of the PCI buses against a specification that lists the functions of a configuration
  space: the list, what it contains, and that the scan leaves one directory for each of its members.
\<close>

section \<open>The functions of a configuration space\<close>

fun collect :: "('i \<Rightarrow> 'a list option) \<Rightarrow> 'i list \<Rightarrow> 'a list option" where
  "collect f [] = Some []"
| "collect f (i # is) = do { xs \<leftarrow> f i; ys \<leftarrow> collect f is; Some (xs @ ys) }"

definition present :: "pci_space \<Rightarrow> u8 \<Rightarrow> u8 \<Rightarrow> u8 \<Rightarrow> bool" where
  "present cfg b d f \<longleftrightarrow> space16 cfg b d f 0 \<noteq> 0xFFFF"

definition is_bridge :: "pci_space \<Rightarrow> u8 \<Rightarrow> u8 \<Rightarrow> u8 \<Rightarrow> bool" where
  "is_bridge cfg b d f \<longleftrightarrow> cfg b d f 0x0B = 6 \<and> cfg b d f 0x0A = 4"

definition multifunction :: "pci_space \<Rightarrow> u8 \<Rightarrow> u8 \<Rightarrow> bool" where
  "multifunction cfg b d \<longleftrightarrow> cfg b d 0 0x0E AND 0x80 \<noteq> 0"

definition secondary :: "pci_space \<Rightarrow> u8 \<Rightarrow> u8 \<Rightarrow> u8 \<Rightarrow> u8" where
  "secondary cfg b d f = cfg b d f 0x19"

definition function_list :: "(u8 \<Rightarrow> (u8 \<times> u8 \<times> u8) list option) \<Rightarrow> pci_space \<Rightarrow> u8 \<Rightarrow> u8 \<Rightarrow> u8 \<Rightarrow> (u8 \<times> u8 \<times> u8) list option" where
  "function_list below cfg b d f =
     (if \<not> present cfg b d f then Some []
      else if is_bridge cfg b d f then map_option (\<lambda>xs. (b, d, f) # xs) (below (secondary cfg b d f))
      else Some [(b, d, f)])"

definition device_list :: "(u8 \<Rightarrow> (u8 \<times> u8 \<times> u8) list option) \<Rightarrow> pci_space \<Rightarrow> u8 \<Rightarrow> u8 \<Rightarrow> (u8 \<times> u8 \<times> u8) list option" where
  "device_list below cfg b d =
     (if \<not> present cfg b d 0 then Some []
      else collect (function_list below cfg b d) (if multifunction cfg b d then map of_nat [0..<8] else [0]))"

fun bus_list :: "nat \<Rightarrow> pci_space \<Rightarrow> u8 \<Rightarrow> (u8 \<times> u8 \<times> u8) list option" where
  "bus_list 0 cfg b = None"
| "bus_list (Suc k) cfg b = collect (device_list (bus_list k cfg) cfg b) (map of_nat [0..<32])"

text \<open>The buses of the host controllers.\<close>

definition host_buses :: "pci_space \<Rightarrow> u8 list" where
  "host_buses cfg = (if multifunction cfg 0 0 then takeWhile (present cfg 0 0) (map of_nat [0..<8]) else [0])"

definition all_list :: "nat \<Rightarrow> pci_space \<Rightarrow> (u8 \<times> u8 \<times> u8) list option" where
  "all_list k cfg = collect (bus_list k cfg) (host_buses cfg)"

text \<open>
  The same without an order: the buses that are reached through bridges, and the functions on them.
\<close>

definition visible :: "pci_space \<Rightarrow> u8 \<Rightarrow> u8 \<Rightarrow> u8 \<Rightarrow> bool" where
  "visible cfg b d f \<longleftrightarrow> d < 32 \<and> f < 8 \<and> present cfg b d 0 \<and> present cfg b d f \<and> (f = 0 \<or> multifunction cfg b d)"

inductive bus_reached :: "pci_space \<Rightarrow> u8 \<Rightarrow> u8 \<Rightarrow> bool" for cfg where
  here: "bus_reached cfg b b"
| bridge: "visible cfg b d f \<Longrightarrow> is_bridge cfg b d f \<Longrightarrow> bus_reached cfg (secondary cfg b d f) b' \<Longrightarrow> bus_reached cfg b b'"

lemma collect_mem: "collect f is = Some zs \<Longrightarrow> z \<in> set zs \<longleftrightarrow> (\<exists>i\<in>set is. \<exists>xs. f i = Some xs \<and> z \<in> set xs)"
  by (induction "is" arbitrary: zs) (auto split: bind_splits)

lemma collect_all: "collect f is = Some zs \<Longrightarrow> i \<in> set is \<Longrightarrow> \<exists>xs. f i = Some xs"
  by (induction "is" arbitrary: zs) (auto split: bind_splits)

lemma small_set: "x \<in> of_nat ` {0..<n} \<longleftrightarrow> x < of_nat n" if "n < 256" for x :: u8
proof
  assume "x \<in> of_nat ` {0..<n}"
  then show "x < of_nat n" using that by (auto simp: word_less_nat_alt unat_of_nat take_bit_nat_eq_self)
next
  assume "x < of_nat n"
  then have "unat x < n" using that by (simp add: word_less_nat_alt unat_of_nat take_bit_nat_eq_self)
  then show "x \<in> of_nat ` {0..<n}" by (intro image_eqI [of _ _ "unat x"]) simp_all
qed

lemma device_list_mem:
  assumes "device_list below cfg b d = Some zs"
  shows "z \<in> set zs \<longleftrightarrow> (\<exists>f xs. (present cfg b d 0 \<and> f < 8 \<and> (f = 0 \<or> multifunction cfg b d)) \<and> function_list below cfg b d f = Some xs \<and> z \<in> set xs)"
proof (cases "present cfg b d 0")
  case True
  define fs where "fs = (if multifunction cfg b d then map of_nat [0..<8] else [0 :: u8])"
  have "f \<in> set fs \<longleftrightarrow> f < 8 \<and> (f = 0 \<or> multifunction cfg b d)" for f
    using small_set [of 8 f] by (auto simp: fs_def)
  then show ?thesis using assms True collect_mem [of "function_list below cfg b d" fs zs z]
    by (auto simp: device_list_def fs_def [symmetric])
qed (use assms in \<open>simp add: device_list_def\<close>)

lemma function_list_mem:
  assumes "function_list below cfg b d f = Some zs"
  shows "z \<in> set zs \<longleftrightarrow> present cfg b d f \<and> (z = (b, d, f) \<or> is_bridge cfg b d f \<and> (\<exists>xs. below (secondary cfg b d f) = Some xs \<and> z \<in> set xs))"
  using assms by (auto simp: function_list_def split: if_splits)

lemma device_list_total:
  assumes "device_list below cfg b d = Some ys" and "present cfg b d 0 \<and> f < 8 \<and> (f = 0 \<or> multifunction cfg b d)"
  shows "\<exists>zs. function_list below cfg b d f = Some zs"
  using assms collect_all [of "function_list below cfg b d" "if multifunction cfg b d then map of_nat [0..<8] else [0]" ys f] small_set [of 8 f]
  by (auto simp: device_list_def split: if_splits)

lemma bus_list_step:
  assumes "bus_list (Suc k) cfg b = Some zs"
  shows "(b', d', f') \<in> set zs \<longleftrightarrow> (b' = b \<and> visible cfg b d' f') \<or>
    (\<exists>d f xs. visible cfg b d f \<and> is_bridge cfg b d f \<and> bus_list k cfg (secondary cfg b d f) = Some xs \<and> (b', d', f') \<in> set xs)"
  (is "?L \<longleftrightarrow> ?R")
proof -
  have m: "?L \<longleftrightarrow> (\<exists>d<32. \<exists>xs. device_list (bus_list k cfg) cfg b d = Some xs \<and> (b', d', f') \<in> set xs)"
  proof -
    have "set (map of_nat [0..<32]) = {d :: u8. d < 32}" using small_set [of 32] by (simp add: set_eq_iff)
    then show ?thesis using collect_mem [OF assms [unfolded bus_list.simps], of "(b', d', f')"] by (simp only: mem_Collect_eq Bex_def)
  qed
  have "(\<exists>xs. device_list (bus_list k cfg) cfg b d = Some xs \<and> (b', d', f') \<in> set xs) \<longleftrightarrow>
      (\<exists>f. visible cfg b d f \<and> ((b', d', f') = (b, d, f) \<or>
        is_bridge cfg b d f \<and> (\<exists>xs. bus_list k cfg (secondary cfg b d f) = Some xs \<and> (b', d', f') \<in> set xs)))" if d: "d < 32" for d
  proof -
    obtain ys where ys: "device_list (bus_list k cfg) cfg b d = Some ys"
      using collect_all [OF assms [unfolded bus_list.simps], of d] small_set [of 32 d] d by auto
    have "((present cfg b d 0 \<and> f < 8 \<and> (f = 0 \<or> multifunction cfg b d)) \<and>
        (\<exists>xs. function_list (bus_list k cfg) cfg b d f = Some xs \<and> (b', d', f') \<in> set xs)) \<longleftrightarrow>
      (visible cfg b d f \<and> ((b', d', f') = (b, d, f) \<or>
        is_bridge cfg b d f \<and> (\<exists>xs. bus_list k cfg (secondary cfg b d f) = Some xs \<and> (b', d', f') \<in> set xs)))" (is "?A \<longleftrightarrow> ?B") for f
    proof (cases "present cfg b d 0 \<and> f < 8 \<and> (f = 0 \<or> multifunction cfg b d)")
      case True
      then obtain xs where xs: "function_list (bus_list k cfg) cfg b d f = Some xs" using device_list_total [OF ys, of f] by blast
      show ?thesis using function_list_mem [OF xs, of "(b', d', f')"] xs True d by (simp add: visible_def)
    qed (simp only: visible_def, blast)
    then show ?thesis using device_list_mem [OF ys, of "(b', d', f')"] ys by simp
  qed
  then have "?L \<longleftrightarrow> (\<exists>d<32. \<exists>f. visible cfg b d f \<and> ((b', d', f') = (b, d, f) \<or>
        is_bridge cfg b d f \<and> (\<exists>xs. bus_list k cfg (secondary cfg b d f) = Some xs \<and> (b', d', f') \<in> set xs)))"
    unfolding m by (intro ex_cong1 conj_cong refl) assumption
  moreover have "visible cfg b d f \<Longrightarrow> d < 32" for d f by (simp add: visible_def)
  ultimately show ?thesis by blast
qed

lemma bus_list_sound: "bus_list k cfg b = Some zs \<Longrightarrow> (b', d, f) \<in> set zs \<Longrightarrow> bus_reached cfg b b' \<and> visible cfg b' d f"
proof (induction k arbitrary: b zs)
  case (Suc k)
  then show ?case using bus_list_step [OF Suc.prems(1), of b' d f] by (auto intro: bus_reached.intros)
qed simp

lemma bus_list_complete:
  "bus_reached cfg b b' \<Longrightarrow> visible cfg b' d f \<Longrightarrow> bus_list k cfg b = Some zs \<Longrightarrow> (b', d, f) \<in> set zs"
proof (induction arbitrary: k zs rule: bus_reached.induct)
  case (here b)
  then show ?case by (cases k) (use bus_list_step in auto)
next
  case (bridge b e g b')
  then obtain j where j: "k = Suc j" by (cases k) auto
  have "\<exists>xs. bus_list j cfg (secondary cfg b e g) = Some xs"
  proof -
    have "\<exists>ys. device_list (bus_list j cfg) cfg b e = Some ys"
      using collect_all [OF bridge.prems(2) [unfolded j bus_list.simps], of e] bridge.hyps(1) small_set [of 32 e] by (simp add: visible_def)
    then obtain ys where "device_list (bus_list j cfg) cfg b e = Some ys" ..
    then have "\<exists>zs. function_list (bus_list j cfg) cfg b e g = Some zs"
      by (rule device_list_total) (use bridge.hyps(1) in \<open>simp add: visible_def\<close>)
    then show ?thesis using bridge.hyps(1,2) by (auto simp: function_list_def visible_def)
  qed
  then obtain xs where xs: "bus_list j cfg (secondary cfg b e g) = Some xs" ..
  then have "(b', d, f) \<in> set xs" by (rule bridge.IH [OF bridge.prems(1)])
  with xs bridge.hyps(1,2) show ?case unfolding bus_list_step [OF bridge.prems(2) [unfolded j]] by blast
qed

text \<open>The list has every function that can be reached, and no other.\<close>

lemma all_list_reached:
  assumes "all_list k cfg = Some F"
  shows "(b, d, f) \<in> set F \<longleftrightarrow> (\<exists>h\<in>set (host_buses cfg). bus_reached cfg h b) \<and> visible cfg b d f"
proof -
  have "(\<exists>xs. bus_list k cfg h = Some xs \<and> (b, d, f) \<in> set xs) \<longleftrightarrow> bus_reached cfg h b \<and> visible cfg b d f"
    if h: "h \<in> set (host_buses cfg)" for h
  proof -
    obtain xs where xs: "bus_list k cfg h = Some xs" using collect_all [OF assms [unfolded all_list_def] h] ..
    show ?thesis using bus_list_sound [OF xs] bus_list_complete [OF _ _ xs] xs by auto
  qed
  then show ?thesis using collect_mem [OF assms [unfolded all_list_def], of "(b, d, f)"] by blast
qed

section \<open>The directory of the bus\<close>

definition function_name :: "u8 \<times> u8 \<times> u8 \<Rightarrow> u8 list" where
  "function_name = (\<lambda>(b, d, f). dev_name b d f)"

definition in_range :: "u8 \<times> u8 \<times> u8 \<Rightarrow> bool" where
  "in_range = (\<lambda>(b, d, f). unat b < 100 \<and> d < PCI_DEV_PER_BUS \<and> f < PCI_FUNC_PER_DEV)"

definition scanned :: "pci_space \<Rightarrow> u32 \<Rightarrow> ramfs \<Rightarrow> (u32 \<Rightarrow> u32 list) \<Rightarrow> (u8 \<times> u8 \<times> u8) list \<Rightarrow> bool" where
  "scanned cfg e st K F \<longleftrightarrow> parent_ok st K (cstr PCI_FS_PATH) pci_path e \<and>
     names_at st (K e) (dir_names @ map function_name F) \<and> list_all2 (device_dir st K cfg) (drop 2 (K e)) F"

text \<open>A part of the scan adds the directories of the functions \<open>G\<close> when there is room for them.\<close>

definition adds :: "pci_space \<Rightarrow> u32 \<Rightarrow> (pci_sys \<Rightarrow> (int \<times> pci_sys) option) \<Rightarrow> (u8 \<times> u8 \<times> u8) list \<Rightarrow> bool" where
  "adds cfg loc g G \<longleftrightarrow> (\<forall>e st K tr F. scanned cfg e st K F \<longrightarrow> distinct (F @ G) \<longrightarrow> list_all in_range (F @ G) \<longrightarrow>
     has_room st (8 * length G + 3) \<longrightarrow> off_heap st loc 4 \<longrightarrow>
     (\<exists>st' K' us. g (st, tr) = Some (RET_T_OK, st', tr @ us) \<and> pci_step e st K st' K' (1416 * length G) \<and> scanned cfg e st' K' (F @ G)))"

lemma addsD:
  assumes "adds cfg loc g G" and "scanned cfg e st K F" and "distinct (F @ G)" and "list_all in_range (F @ G)"
    and "has_room st (8 * length G + 3)" and "off_heap st loc 4"
  obtains st' K' us where "g (st, tr) = Some (RET_T_OK, st', tr @ us)" "pci_step e st K st' K' (1416 * length G)"
    "scanned cfg e st' K' (F @ G)"
  using assms unfolding adds_def by meson

lemma pci_step_off_heap: "pci_step d st K st' K' b \<Longrightarrow> off_heap st loc k \<Longrightarrow> off_heap st' loc k"
  by (auto simp: pci_step_def intro: off_heap_used)

lemma adds_seq:
  assumes g: "adds cfg loc g G" and h: "adds cfg loc h H"
    and run: "\<And>st tr st' us. g (st, tr) = Some (RET_T_OK, st', tr @ us) \<Longrightarrow> \<exists>vs. gh (st, tr) = h (st', tr @ us @ vs)"
  shows "adds cfg loc gh (G @ H)"
  unfolding adds_def
proof (intro allI impI)
  fix e st K tr F
  assume sc: "scanned cfg e st K F" and d: "distinct (F @ G @ H)" and r: "list_all in_range (F @ G @ H)"
    and room: "has_room st (8 * length (G @ H) + 3)" and loc: "off_heap st loc 4"
  have room': "has_room st (8 * length G + (8 * length H + 3))" "has_room st (8 * length G + 3)" using room by (simp_all add: has_room_def)
  obtain st1 K1 us where A: "g (st, tr) = Some (RET_T_OK, st1, tr @ us)" "pci_step e st K st1 K1 (1416 * length G)" "scanned cfg e st1 K1 (F @ G)"
    by (rule addsD [OF g sc _ _ room'(2) loc]) (use d r in auto)
  obtain vs where v: "gh (st, tr) = h (st1, tr @ us @ vs)" using run [OF A(1)] by blast
  have room1: "has_room st1 (8 * length H + 3)" by (rule pci_step_room [OF A(2) _ room'(1)]) simp
  obtain st2 K2 ws where B: "h (st1, tr @ us @ vs) = Some (RET_T_OK, st2, (tr @ us @ vs) @ ws)"
    "pci_step e st1 K1 st2 K2 (1416 * length H)" "scanned cfg e st2 K2 ((F @ G) @ H)"
    by (rule addsD [OF h A(3) _ _ room1 pci_step_off_heap [OF A(2) loc], where tr = "tr @ us @ vs"]) (use d r in auto)
  have "pci_step e st K st2 K2 (1416 * length (G @ H))" using pci_step_trans [OF A(2) B(2)] by (simp add: algebra_simps)
  then show "\<exists>st' K' us. gh (st, tr) = Some (RET_T_OK, st', tr @ us) \<and> pci_step e st K st' K' (1416 * length (G @ H)) \<and> scanned cfg e st' K' (F @ G @ H)"
    using v B(1,3) by auto
qed

lemma adds_none:
  assumes "\<And>st tr. \<exists>us. g (st, tr) = Some (RET_T_OK, st, tr @ us)"
  shows "adds cfg loc g []"
  unfolding adds_def
proof (intro allI impI)
  fix e st K tr F
  assume sc: "scanned cfg e st K F"
  have "tree_inv st K" using sc parent_okD(1) by (auto simp: scanned_def)
  then have "pci_step e st K st K (1416 * length [])" using pci_step_refl by simp
  moreover obtain us where "g (st, tr) = Some (RET_T_OK, st, tr @ us)" using assms by blast
  ultimately show "\<exists>st' K' us. g (st, tr) = Some (RET_T_OK, st', tr @ us) \<and> pci_step e st K st' K' (1416 * length []) \<and> scanned cfg e st' K' (F @ [])"
    using sc by auto
qed

text \<open>Reading registers before or after does not matter.\<close>

lemma adds_reads:
  assumes "adds cfg loc g G" and "\<And>st tr. \<exists>us. h (st, tr) = g (st, tr @ us)"
  shows "adds cfg loc h G"
proof -
  have "adds cfg loc (\<lambda>(st, tr). Some (RET_T_OK, st, tr)) []" by (rule adds_none) simp
  from adds_seq [OF this assms(1), of h] show ?thesis using assms(2) by fastforce
qed

lemma adds_scan_all:
  assumes "\<And>i G. i \<in> set is \<Longrightarrow> l i = Some G \<Longrightarrow> adds cfg loc (g i) G"
  shows "collect l is = Some G \<Longrightarrow> adds cfg loc (scan_all g is) G"
  using assms
proof (induction "is" arbitrary: G)
  case Nil
  then show ?case by (auto intro: adds_none)
next
  case (Cons i "is")
  then obtain G1 G2 where G: "l i = Some G1" "collect l is = Some G2" "G = G1 @ G2" by (auto split: bind_splits)
  have "adds cfg loc (g i) G1" "adds cfg loc (scan_all g is) G2" using Cons G by auto
  then show ?case unfolding G(3) by (rule adds_seq) (auto intro: exI [of _ "[]"])
qed

lemma adds_ignore:
  assumes "adds cfg loc g G" and "\<And>s r s'. g s = Some (r, s') \<Longrightarrow> h s = Some (RET_T_OK, s')"
  shows "adds cfg loc h G"
  using assms(1) unfolding adds_def by (blast dest: assms(2))

section \<open>The scan adds what the specification lists\<close>

lemma function_name_new:
  assumes "list_all in_range (F @ [(b, d, f)])" and "distinct (F @ [(b, d, f)])"
  shows "dev_name b d f \<notin> set (dir_names @ map function_name F)"
proof -
  have r: "unat b < 100 \<and> unat d < 100 \<and> unat f < 100" if "in_range (b, d, f)" for b d f
    using that small_words by (simp add: in_range_def)
  have me: "in_range (b, d, f)" using assms(1) by simp
  have "dev_name b' d' f' \<noteq> dev_name b d f" if "(b', d', f') \<in> set F" for b' d' f'
    using dev_name_inj [of b' d' f' b d f] r [OF me] r [of b' d' f'] that assms by (auto simp: list_all_iff)
  moreover have "length (dev_name b d f) = 13" using r [OF me] dev_name_shape(1) by blast
  ultimately show ?thesis by (force simp: dir_names_def function_name_def)
qed

lemma off_heap_second: "off_heap st loc 4 \<Longrightarrow> loc + 2 \<noteq> 0"
proof -
  assume "off_heap st loc 4"
  then have "unat (loc + 2) = unat loc + unat (2 :: u32)" by (intro unat_add_no_wrap) (simp add: off_heap_def)
  then show ?thesis by auto
qed

lemma no_own_entry: "tree_inv st K \<Longrightarrow> e \<notin> set (K e)"
  using tree_invD(9) [of st K] by (auto simp: ordered_def)

lemma adds_addnode:
  assumes hw: "has_space hw cfg"
  shows "adds cfg loc (pci_ramfs_addnode hw stk loc b d f) [(b, d, f)]"
  unfolding adds_def
proof (intro allI impI)
  fix e st K tr F
  assume sc: "scanned cfg e st K F" and d: "distinct (F @ [(b, d, f)])" and r: "list_all in_range (F @ [(b, d, f)])"
    and room: "has_room st (8 * length [(b, d, f)] + 3)" and loc: "off_heap st loc 4"
  have b: "unat b < 100" "d < PCI_DEV_PER_BUS" "f < PCI_FUNC_PER_DEV" using r by (auto simp: in_range_def)
  have par: "parent_ok st K (cstr PCI_FS_PATH) pci_path e" and nms: "names_at st (K e) (dir_names @ map function_name F)"
    and dd: "list_all2 (device_dir st K cfg) (drop 2 (K e)) F" using sc by (simp_all add: scanned_def)
  have room': "has_room st 11" using room by simp
  obtain st' K' p us where A: "pci_ramfs_addnode hw stk loc b d f (st, tr) = Some (RET_T_OK, st', tr @ us)"
    "pci_step e st K st' K' 1416" "K' e = K e @ [p]" "device_dir st' K' cfg p (b, d, f)" "p \<noteq> e"
    "names_at st' (K' e) ((dir_names @ map function_name F) @ [dev_name b d f])"
    by (rule pci_ramfs_addnode_ok [OF par nms function_name_new [OF r d] room' loc off_heap_second [OF loc] b(1) hw b(2,3)])
  have "e \<notin> set (drop 2 (K e))" using no_own_entry [OF parent_okD(1) [OF par]] by (auto dest: in_set_dropD)
  then have "list_all2 (device_dir st' K' cfg) (drop 2 (K e)) F"
    using dd by (rule_tac list.rel_mono_strong [of "device_dir st K cfg"]) (auto intro: device_dir_step [OF A(2)])
  moreover have "length (K e) = 2 + length F" using nms by (auto simp: names_at_def dir_names_def dest: list_all2_lengthD)
  ultimately have "scanned cfg e st' K' (F @ [(b, d, f)])"
    using pci_step_parent [OF par A(2)] A(3,4,6) by (simp add: scanned_def function_name_def list_all2_appendI)
  then show "\<exists>st' K' us. pci_ramfs_addnode hw stk loc b d f (st, tr) = Some (RET_T_OK, st', tr @ us) \<and>
      pci_step e st K st' K' (1416 * length [(b, d, f)]) \<and> scanned cfg e st' K' (F @ [(b, d, f)])"
    using A(1,2) by auto
qed

text \<open>\<open>pci_scanFunction\<close> after it has read the class and the vendor.\<close>

definition scan_rest :: "(u8 \<Rightarrow> pci_sys \<Rightarrow> (int \<times> pci_sys) option) \<Rightarrow> machine \<Rightarrow> bytes \<Rightarrow> u32 \<Rightarrow> pci_space \<Rightarrow> u8 \<Rightarrow> u8 \<Rightarrow> u8 \<Rightarrow>
    pci_sys \<Rightarrow> (int \<times> pci_sys) option" where
  "scan_rest scanBus hw stk loc cfg b d f = (\<lambda>(st, tr). if present cfg b d f then do {
            (r, st, tr) \<leftarrow> pci_ramfs_addnode hw stk loc b d f (st, tr);
            if r = RET_T_NOK then Some (RET_T_NOK, st, tr)
            else if is_bridge cfg b d f then
              (case run_state (pci_hdr_01_getSecondaryBus hw b d f) tr of (secondaryBus, tr) \<Rightarrow>
                 do { (_, s) \<leftarrow> scanBus secondaryBus (st, tr); Some (RET_T_OK, s) })
            else Some (RET_T_OK, st, tr) }
          else Some (RET_T_OK, st, tr))"

lemma scanFunction_rest:
  assumes hw: "has_space hw cfg" "d < PCI_DEV_PER_BUS" "f < PCI_FUNC_PER_DEV"
  shows "\<exists>us. pci_scanFunction scanBus hw stk loc b d f (st, tr) = scan_rest scanBus hw stk loc cfg b d f (st, tr @ us)"
proof -
  obtain us1 where 1: "run_state (pci_getBaseClass hw b d f) tr = (cfg b d f 0x0B, tr @ us1)" using pci_fields(4) [OF hw] by blast
  obtain us2 where 2: "run_state (pci_getSubClass hw b d f) (tr @ us1) = (cfg b d f 0x0A, (tr @ us1) @ us2)" using pci_fields(5) [OF hw] by blast
  obtain us3 where 3: "run_state (pci_getVendorID hw b d f) ((tr @ us1) @ us2) = (space16 cfg b d f 0, ((tr @ us1) @ us2) @ us3)"
    using pci_fields(1) [OF hw] by blast
  have "pci_scanFunction scanBus hw stk loc b d f (st, tr) = scan_rest scanBus hw stk loc cfg b d f (st, tr @ us1 @ us2 @ us3)"
    unfolding pci_scanFunction_def scan_rest_def present_def is_bridge_def PCI_NOT_VALID_VENDOR_ID_def PCI_BRIDGE_BASECLASS_def
      PCI_TO_PCI_BRIDGE_SUBCLASS_def using 1 2 3 by simp
  then show ?thesis ..
qed

lemma adds_scan_rest:
  assumes hw: "has_space hw cfg" "d < PCI_DEV_PER_BUS" "f < PCI_FUNC_PER_DEV"
    and below: "\<And>b G. below b = Some G \<Longrightarrow> adds cfg loc (scanBus b) G"
    and G: "function_list below cfg b d f = Some G" and here: "present cfg b d f"
  shows "adds cfg loc (scan_rest scanBus hw stk loc cfg b d f) G"
proof -
  note node = adds_addnode [OF hw(1), of loc stk b d f]
  show ?thesis
  proof (cases "is_bridge cfg b d f")
    case False
    have "adds cfg loc (\<lambda>(st, tr). Some (RET_T_OK, st, tr)) []" by (rule adds_none) simp
    from adds_seq [OF node this] show ?thesis
      using here False G by (auto simp: scan_rest_def function_list_def RET_T_OK_def RET_T_NOK_def)
  next
    case True
    then obtain H where H: "below (secondary cfg b d f) = Some H" "G = [(b, d, f)] @ H" using here G by (auto simp: function_list_def)
    have hb: "adds cfg loc (\<lambda>s. do { (_, s) \<leftarrow> scanBus (secondary cfg b d f) s; Some (RET_T_OK, s) }) H"
      by (rule adds_ignore [OF below [OF H(1)]]) simp
    show ?thesis unfolding H(2)
    proof (rule adds_seq [OF node hb])
      fix st tr st' us
      assume a: "pci_ramfs_addnode hw stk loc b d f (st, tr) = Some (RET_T_OK, st', tr @ us)"
      obtain vs where "run_state (pci_hdr_01_getSecondaryBus hw b d f) (tr @ us) = (secondary cfg b d f, (tr @ us) @ vs)"
        unfolding secondary_def using pci_fields(6) [OF hw] by blast
      then show "\<exists>vs. scan_rest scanBus hw stk loc cfg b d f (st, tr) =
          (do { (_, s) \<leftarrow> scanBus (secondary cfg b d f) (st', tr @ us @ vs); Some (RET_T_OK, s) })"
        using a here True by (auto simp: scan_rest_def RET_T_OK_def RET_T_NOK_def)
    qed
  qed
qed

lemma adds_scanFunction:
  assumes hw: "has_space hw cfg" "d < PCI_DEV_PER_BUS" "f < PCI_FUNC_PER_DEV"
    and below: "\<And>b G. below b = Some G \<Longrightarrow> adds cfg loc (scanBus b) G"
    and G: "function_list below cfg b d f = Some G"
  shows "adds cfg loc (pci_scanFunction scanBus hw stk loc b d f) G"
proof (rule adds_reads [OF _ scanFunction_rest [OF hw]])
  show "adds cfg loc (scan_rest scanBus hw stk loc cfg b d f) G"
  proof (cases "present cfg b d f")
    case False
    then show ?thesis using G by (auto simp: scan_rest_def function_list_def intro: adds_none)
  qed (rule adds_scan_rest [OF hw below G])
qed

text \<open>\<open>pci_scanDevice\<close> after it has read the vendor of a present device.\<close>

definition scan_others :: "(u8 \<Rightarrow> pci_sys \<Rightarrow> (int \<times> pci_sys) option) \<Rightarrow> machine \<Rightarrow> bytes \<Rightarrow> u32 \<Rightarrow> u8 \<Rightarrow> u8 \<Rightarrow> pci_sys \<Rightarrow>
    (int \<times> pci_sys) option" where
  "scan_others scanBus hw stk loc b d = (\<lambda>(st, tr). do {
            (r, st, tr) \<leftarrow> pci_scanFunction scanBus hw stk loc b d 0 (st, tr);
            if r \<noteq> RET_T_OK then Some (RET_T_NOK, st, tr)
            else
              (case run_state (pci_getHeaderType hw b d 0) tr of (hdrType, tr) \<Rightarrow>
                 if hdrType AND PCI_HDR_IS_MULTIFUNCTION \<noteq> 0 then
                   scan_all (\<lambda>func. pci_scanFunction scanBus hw stk loc b d func)
                     (map of_nat [1..<unat PCI_FUNC_PER_DEV]) (st, tr)
                 else Some (RET_T_OK, st, tr)) })"

lemma func_0: "0 < PCI_FUNC_PER_DEV"
  by (simp add: PCI_FUNC_PER_DEV_def)

lemma scanDevice_reads:
  assumes "has_space hw cfg" "d < PCI_DEV_PER_BUS" and "present cfg b d 0"
  shows "\<exists>us. pci_scanDevice scanBus hw stk loc b d (st, tr) = scan_others scanBus hw stk loc b d (st, tr @ us)"
proof -
  obtain us where "run_state (pci_getVendorID hw b d 0) tr = (space16 cfg b d 0 0, tr @ us)"
    using pci_fields(1) [OF assms(1,2) func_0] by blast
  then have "pci_scanDevice scanBus hw stk loc b d (st, tr) = scan_others scanBus hw stk loc b d (st, tr @ us)"
    using assms(3) by (simp add: pci_scanDevice_def scan_others_def present_def PCI_NOT_VALID_VENDOR_ID_def)
  then show ?thesis ..
qed

lemma scan_others_run:
  assumes "has_space hw cfg" "d < PCI_DEV_PER_BUS" and "pci_scanFunction scanBus hw stk loc b d 0 (st, tr) = Some (RET_T_OK, st', tr @ us)"
  shows "\<exists>vs. scan_others scanBus hw stk loc b d (st, tr) =
    scan_all (\<lambda>func. pci_scanFunction scanBus hw stk loc b d func) (if multifunction cfg b d then map of_nat [1..<8] else []) (st', tr @ us @ vs)"
proof -
  obtain vs where "run_state (pci_getHeaderType hw b d 0) (tr @ us) = (cfg b d 0 0x0E, (tr @ us) @ vs)"
    using pci_fields(3) [OF assms(1,2) func_0] by blast
  then have "scan_others scanBus hw stk loc b d (st, tr) = scan_all (\<lambda>func. pci_scanFunction scanBus hw stk loc b d func)
      (if multifunction cfg b d then map of_nat [1..<8] else []) (st', tr @ us @ vs)"
    using assms(3) by (simp add: scan_others_def multifunction_def PCI_HDR_IS_MULTIFUNCTION_def PCI_FUNC_PER_DEV_def)
  then show ?thesis ..
qed

lemma adds_scanDevice:
  assumes hw: "has_space hw cfg" "d < PCI_DEV_PER_BUS"
    and below: "\<And>b G. below b = Some G \<Longrightarrow> adds cfg loc (scanBus b) G"
    and G: "device_list below cfg b d = Some G"
  shows "adds cfg loc (pci_scanDevice scanBus hw stk loc b d) G"
proof -
  have vendor: "\<exists>us. run_state (pci_getVendorID hw b d 0) tr = (space16 cfg b d 0 0, tr @ us)" for tr using pci_fields(1) [OF hw func_0] .
  have scan: "adds cfg loc (pci_scanFunction scanBus hw stk loc b d f) G" if "f < PCI_FUNC_PER_DEV" "function_list below cfg b d f = Some G" for f G
    using adds_scanFunction [OF hw that(1) below that(2)] .
  show ?thesis
  proof (cases "present cfg b d 0")
    case False
    have "\<exists>us. pci_scanDevice scanBus hw stk loc b d (st, tr) = Some (RET_T_OK, st, tr @ us)" for st tr
    proof -
      obtain us where "run_state (pci_getVendorID hw b d 0) tr = (space16 cfg b d 0 0, tr @ us)" using vendor ..
      then show ?thesis using False by (simp add: pci_scanDevice_def present_def PCI_NOT_VALID_VENDOR_ID_def)
    qed
    then show ?thesis using G False by (auto simp: device_list_def intro: adds_none)
  next
    case True
    define fs :: "u8 list" where "fs = (if multifunction cfg b d then map of_nat [1..<8] else [])"
    have "collect (function_list below cfg b d) (0 # fs) = Some G"
      using G True by (simp add: device_list_def fs_def upt_conv_Cons split: if_splits)
    then obtain G1 G2 where H: "function_list below cfg b d 0 = Some G1" "collect (function_list below cfg b d) fs = Some G2" "G = G1 @ G2"
      by (auto split: bind_splits)
    have "f < PCI_FUNC_PER_DEV" if "f \<in> set fs" for f
      using that small_set [of 8 f] by (auto simp: fs_def PCI_FUNC_PER_DEV_def split: if_splits)
    then have rest: "adds cfg loc (scan_all (\<lambda>func. pci_scanFunction scanBus hw stk loc b d func) fs) G2"
      by (intro adds_scan_all [OF _ H(2)] scan)
    show ?thesis unfolding H(3)
      by (rule adds_reads [OF adds_seq [OF scan [OF func_0 H(1)] rest] scanDevice_reads [OF hw True]])
        (unfold fs_def, rule scan_others_run [OF hw])
  qed
qed

lemma adds_scanBus: "has_space hw cfg \<Longrightarrow> bus_list k cfg b = Some G \<Longrightarrow> adds cfg loc (pci_scanBus k hw stk loc b) G"
proof (induction k arbitrary: b G)
  case (Suc k)
  have "d < PCI_DEV_PER_BUS" if "d \<in> set (map of_nat [0..<32])" for d :: u8
    using that small_set [of 32 d] by (simp add: PCI_DEV_PER_BUS_def)
  then have "adds cfg loc (scan_all (\<lambda>dev. pci_scanDevice (pci_scanBus k hw stk loc) hw stk loc b dev) (map of_nat [0..<32])) G"
    by (intro adds_scan_all [OF _ Suc.prems(2) [unfolded bus_list.simps]] adds_scanDevice [OF Suc.prems(1) _ Suc.IH [OF Suc.prems(1)]])
  then show ?case by (simp add: PCI_DEV_PER_BUS_def)
qed simp

lemma adds_scan_hosts:
  assumes hw: "has_space hw cfg"
  shows "\<forall>f\<in>set fs. f < PCI_FUNC_PER_DEV \<Longrightarrow> collect (bus_list k cfg) (takeWhile (present cfg 0 0) fs) = Some G \<Longrightarrow>
    adds cfg loc (pci_scan_hosts k hw stk loc fs) G"
proof (induction fs arbitrary: G)
  case Nil
  then show ?case by (auto intro: adds_none)
next
  case (Cons f fs)
  have vendor: "\<exists>us. run_state (pci_getVendorID hw 0 0 f) tr = (space16 cfg 0 0 f 0, tr @ us)" for tr
    using pci_fields(1) [OF hw, of 0 f 0 tr] Cons.prems(1) by (simp add: PCI_DEV_PER_BUS_def)
  show ?case
  proof (cases "present cfg 0 0 f")
    case False
    have "\<exists>us. pci_scan_hosts k hw stk loc (f # fs) (st, tr) = Some (RET_T_OK, st, tr @ us)" for st tr
    proof -
      obtain us where "run_state (pci_getVendorID hw 0 0 f) tr = (space16 cfg 0 0 f 0, tr @ us)" using vendor ..
      then show ?thesis using False by (simp add: present_def PCI_NOT_VALID_VENDOR_ID_def)
    qed
    then show ?thesis using False Cons.prems(2) by (auto intro: adds_none)
  next
    case True
    then obtain G1 G2 where G: "bus_list k cfg f = Some G1" "collect (bus_list k cfg) (takeWhile (present cfg 0 0) fs) = Some G2" "G = G1 @ G2"
      using Cons.prems(2) by (auto split: bind_splits)
    define h where "h = (\<lambda>s. do { (r, s) \<leftarrow> pci_scanBus k hw stk loc f s; if r \<noteq> RET_T_OK then Some (RET_T_NOK, s) else pci_scan_hosts k hw stk loc fs s })"
    have "adds cfg loc h (G1 @ G2)"
      by (rule adds_seq [OF adds_scanBus [OF hw G(1), of loc stk] Cons.IH [OF _ G(2)]]) (use Cons.prems(1) in \<open>auto simp: h_def intro: exI [of _ "[]"]\<close>)
    moreover have "\<exists>us. pci_scan_hosts k hw stk loc (f # fs) (st, tr) = h (st, tr @ us)" for st tr
    proof -
      obtain us where "run_state (pci_getVendorID hw 0 0 f) tr = (space16 cfg 0 0 f 0, tr @ us)" using vendor ..
      then show ?thesis using True by (auto simp: h_def present_def PCI_NOT_VALID_VENDOR_ID_def)
    qed
    ultimately show ?thesis unfolding G(3) by (rule adds_reads)
  qed
qed

section \<open>The whole scan\<close>

definition device_path :: "u8 list" where
  "device_path = bytes_of ''/sys/device''"

lemma path_names: "pci_path = device_path @ slash # bytes_of ''pci''" "tokens slash pci_path = tokens slash device_path @ [bytes_of ''pci'']"
  "abs_path (cstr PCI_FS_PATH) pci_path" "abs_path (cstr ''/sys/device'') device_path"
proof -
  show p: "pci_path = device_path @ slash # bytes_of ''pci''"
    by (simp add: pci_path_def device_path_def PCI_FS_PATH_def bytes_of_def slash_def)
  show "tokens slash pci_path = tokens slash device_path @ [bytes_of ''pci'']"
    using tokens_single [of slash "bytes_of ''pci''"] by (simp add: p tokens_append bytes_of_def slash_def)
  show "abs_path (cstr PCI_FS_PATH) pci_path"
    using pci_path_cstr by (simp add: abs_path_def pci_path_def PCI_FS_PATH_def bytes_of_def slash_def)
  have "is_cstr (cstr ''/sys/device'') device_path"
    unfolding device_path_def by (rule cstr_bytes) (simp_all add: bytes_of_def)
  then show "abs_path (cstr ''/sys/device'') device_path" by (simp add: abs_path_def device_path_def bytes_of_def slash_def)
qed

lemma pci_make_dir_ok:
  assumes par: "parent_ok st K (cstr ''/sys/device'') device_path p" and absent: "pick st (str_view (bytes_of ''pci'')) (K p) = 0"
    and room: "has_room st 3"
  obtains st' K' e where "pci_make_dir stk st = Some (RET_T_OK, st')" "fs_step st K st' K' 600" "scanned cfg e st' K' []" "K' p = K p @ [e]"
proof -
  define e where "e = CurrentPointer (heap st)"
  obtain st' q r where A: "ramfs_mkDir stk st (cstr ''pci'') (cstr ''/sys/device'') = Some (e, VFS_T_OK, st')"
    "fs_step st K st' (K(p := K p @ [e], e := [q, r])) 600" "e \<noteq> 0" "is_dir st' e"
    "vfs_walk find_dispatch st' (fs_root st') (tokens slash device_path @ [bytes_of ''pci'']) = Some e"
    "named st' e (bytes_of ''pci'')" "named st' q [0x2E]" "named st' r [0x2E, 0x2E]"
    by (rule mkDir_step [OF par file_names(5) absent room e_def])
  have "has_room st 1" using room by (simp add: has_room_def)
  then have "e \<noteq> p" using fresh_not_live [OF parent_okD(1) [OF par]] parent_okD(3) [OF par] by (auto simp: e_def)
  moreover have "scanned cfg e st' (K(p := K p @ [e], e := [q, r])) []"
    using A(2-8) path_names(2,3) by (simp add: scanned_def parent_ok_def fs_step_def names_at_def dir_names_def)
  moreover have "pci_make_dir stk st = Some (RET_T_OK, st')" using A(1,3) by (simp add: pci_make_dir_def)
  ultimately show thesis using that A(2) by simp
qed

lemma pci_scan_ok:
  assumes par: "parent_ok st K (cstr ''/sys/device'') device_path p" and absent: "pick st (str_view (bytes_of ''pci'')) (K p) = 0"
    and hw: "has_space hw cfg" and F: "all_list k cfg = Some F" "distinct F" "list_all in_range F"
    and room: "has_room st (3 + (8 * length F + 3))" and loc: "off_heap st loc 4"
  obtains st' K' e us where "pci_scan k hw stk loc (st, tr) = Some (RET_T_OK, st', tr @ us)" "tree_inv st' K'" "extends st K st' K'"
    "scanned cfg e st' K' F"
proof -
  have "has_room st 3" using room by (simp add: has_room_def)
  then obtain st1 K1 e where A: "pci_make_dir stk st = Some (RET_T_OK, st1)" "fs_step st K st1 K1 600" "scanned cfg e st1 K1 []"
    using pci_make_dir_ok [OF par absent, of stk cfg] by metis
  obtain us1 where us1: "run_state (pci_getHeaderType hw 0 0 0) tr = (cfg 0 0 0 0x0E, tr @ us1)"
    using pci_fields(3) [OF hw _ func_0, of 0 0 tr] by (auto simp: PCI_DEV_PER_BUS_def)
  define g where "g = (if multifunction cfg 0 0 then pci_scan_hosts k hw stk loc (map of_nat [0..<8])
    else (\<lambda>s. do { (r, s) \<leftarrow> pci_scanBus k hw stk loc 0 s; Some (if r \<noteq> RET_T_OK then RET_T_NOK else RET_T_OK, s) }))"
  have g: "adds cfg loc g F"
  proof (cases "multifunction cfg 0 0")
    case True
    have "\<forall>f\<in>set (map of_nat [0..<8]). f < PCI_FUNC_PER_DEV" using small_set [of 8] by (auto simp: PCI_FUNC_PER_DEV_def)
    then have "adds cfg loc (pci_scan_hosts k hw stk loc (map of_nat [0..<8])) F"
      by (rule adds_scan_hosts [OF hw]) (use True F(1) in \<open>simp add: all_list_def host_buses_def\<close>)
    then show ?thesis using True by (simp add: g_def)
  next
    case False
    then have l: "bus_list k cfg 0 = Some F" using F(1) by (auto simp: all_list_def host_buses_def split: bind_splits)
    have "adds cfg loc (\<lambda>(st, tr). Some (RET_T_OK, st, tr)) []" by (rule adds_none) simp
    from adds_seq [OF adds_scanBus [OF hw l, of loc stk] this, of g] show ?thesis
      using False by (auto simp: g_def)
  qed
  have room1: "has_room st1 (8 * length F + 3)" by (rule fs_step_room [OF A(2) _ room]) simp
  obtain st2 K2 us2 where B: "g (st1, tr @ us1) = Some (RET_T_OK, st2, (tr @ us1) @ us2)" "pci_step e st1 K1 st2 K2 (1416 * length F)"
    "scanned cfg e st2 K2 ([] @ F)"
    by (rule addsD [OF g A(3) _ _ room1 fs_step_off_heap [OF A(2) loc], where tr = "tr @ us1"]) (use F(2,3) in simp_all)
  have "pci_scan k hw stk loc (st, tr) = Some (RET_T_OK, st2, tr @ us1 @ us2)"
    using A(1) us1 B(1) by (simp add: pci_scan_def g_def multifunction_def PCI_HDR_IS_MULTIFUNCTION_def PCI_FUNC_PER_DEV_def split: if_splits)
  moreover have "extends st K st2 K2" "tree_inv st2 K2"
    using A(2) B(2) extends_trans [of st K st1 K1 st2 K2] by (simp_all add: fs_step_def pci_step_def)
  ultimately show thesis using that B(3) by simp
qed

section \<open>Looking up what the scan left\<close>

lemma function_names_distinct:
  assumes "distinct F" and "list_all in_range F"
  shows "distinct (dir_names @ map function_name F)"
  using assms
proof (induction F rule: rev_induct)
  case Nil
  then show ?case by (simp add: dir_names_def)
next
  case (snoc x F)
  obtain b d f where x: "x = (b, d, f)" by (cases x) auto
  have "dev_name b d f \<notin> set (dir_names @ map function_name F)"
    using snoc.prems by (intro function_name_new) (simp_all add: x)
  then show ?case using snoc by (simp add: x function_name_def)
qed

lemma device_names_distinct: "distinct device_names" "i < length device_names \<Longrightarrow> is_cstr (str_view (device_names ! i)) (device_names ! i)"
proof -
  show "distinct device_names" by (simp add: device_names_def dir_names_def bytes_of_def)
  show "i < length device_names \<Longrightarrow> is_cstr (str_view (device_names ! i)) (device_names ! i)"
    by (rule names_cstr) (simp_all add: device_names_def dir_names_def bytes_of_def)
qed

text \<open>The directory and the files of a device, by their paths.\<close>

definition device_at :: "ramfs \<Rightarrow> pci_space \<Rightarrow> u8 \<Rightarrow> u8 \<Rightarrow> u8 \<Rightarrow> bool" where
  "device_at st cfg b d f \<longleftrightarrow> (\<exists>q v w u c.
     let find = (\<lambda>ts. vfs_walk find_dispatch st (fs_root st) (tokens slash pci_path @ dev_name b d f # ts))
     in find [] = Some q \<and> is_dir st q \<and>
        find [bytes_of ''vendor''] = Some v \<and> value_file st v (cfg b d f 0) (cfg b d f 1) \<and>
        find [bytes_of ''device''] = Some w \<and> value_file st w (cfg b d f 2) (cfg b d f 3) \<and>
        find [bytes_of ''subsystem_vendor''] = Some u \<and> value_file st u (cfg b d f 2) (cfg b d f 3) \<and>
        find [bytes_of ''config''] = Some c \<and> conf_file st c b d f)"

lemma scanned_device:
  assumes sc: "scanned cfg e st K F" and F: "distinct F" "list_all in_range F" and m: "(b, d, f) \<in> set F"
  shows "device_at st cfg b d f"
proof -
  have par: "parent_ok st K (cstr PCI_FS_PATH) pci_path e" and nms: "names_at st (K e) (dir_names @ map function_name F)"
    and dd: "list_all2 (device_dir st K cfg) (drop 2 (K e)) F" using sc by (simp_all add: scanned_def)
  note P = parent_okD [OF par]
  obtain j where j: "j < length F" "F ! j = (b, d, f)" using m by (auto simp: in_set_conv_nth)
  have nm: "(dir_names @ map function_name F) ! (2 + j) = dev_name b d f"
    using j by (simp add: nth_append dir_names_def function_name_def)
  have ne: "is_cstr (str_view (dev_name b d f)) (dev_name b d f)"
    using dev_name_shape [of b d f] F(2) m small_words by (intro str_view_cstr) (force simp: list_all_iff in_range_def)+
  define q where "q = K e ! (2 + j)"
  have walk: "vfs_walk find_dispatch st (fs_root st) (tokens slash pci_path @ [dev_name b d f]) = Some q"
    using walk_entry [OF P(1) _ P(3,4) nms function_names_distinct [OF F], of "tokens slash pci_path" "2 + j"] par j ne
    by (simp add: nm parent_ok_def q_def dir_names_def function_name_def)
  have "length (K e) = 2 + length F" using nms by (auto simp: names_at_def dir_names_def dest: list_all2_lengthD)
  then have "device_dir st K cfg q (b, d, f)"
    using list_all2_nthD2 [OF dd j(1)] j by (simp add: q_def)
  then have D: "is_dir st q" "q \<in> live st K" "device_files st (K q) cfg b d f" by (simp_all add: device_dir_def)
  have "vfs_walk find_dispatch st (fs_root st) ((tokens slash pci_path @ [dev_name b d f]) @ [device_names ! i]) = Some (K q ! i)"
    if "i < length device_names" for i
    using walk_entry [OF P(1) walk D(2,1) _ device_names_distinct(1) that device_names_distinct(2) [OF that]] D(3) by (simp add: device_files_def)
  from this [of 2] this [of 3] this [of 4] this [of 5] show ?thesis
    unfolding device_at_def using walk D(1,3)
    by (intro exI [of _ q] exI [of _ "K q ! 2"] exI [of _ "K q ! 3"] exI [of _ "K q ! 4"] exI [of _ "K q ! 5"])
      (simp add: device_names_def dir_names_def device_files_def)
qed

end
