(* ===== verification/IA32_Sysinit.thy ===== *)
theory IA32_Sysinit
  imports IA32_Cores IA32_Pci_Scan
begin

text \<open>
  The start of the platform: InitSys of sysinit.c as the sequence of its calls, the handlers of
  exceptions.c and the default handler, and the description of the processor. A state in which the code
  stops (StopSystem, the endless loops of error handling) is \<open>None\<close>.
\<close>

section \<open>Operations\<close>

definition EX_DOUBLE_FAULT :: u16 where "EX_DOUBLE_FAULT = 0x08"
definition EX_PAGE_FAULT :: u16 where "EX_PAGE_FAULT = 0x0E"
definition CPUID_FEAT_DW1_APIC :: u32 where "CPUID_FEAT_DW1_APIC = push_bit 9 1"
definition KMEM_RW :: bool where "KMEM_RW = True"
definition KMEM_UNCACHEABLE :: bool where "KMEM_UNCACHEABLE = False"
definition PIC1_START_IRQ :: "u32 \<Rightarrow> u32" where "PIC1_START_IRQ n = n"
definition PIC2_START_IRQ :: "u32 \<Rightarrow> u32" where "PIC2_START_IRQ n = PIC1_START_IRQ n + 8"

text \<open>Addresses of the handlers and of the stack of the boot processor.\<close>

record routines =
  SysTick_addr :: u32
  ex_DoubleFault_addr :: u32
  ex_PageFault_addr :: u32
  BSP_stack_top :: u32

definition ex_PageFault :: "'s print_fun \<Rightarrow> u32 \<Rightarrow> u32 \<Rightarrow> u32 \<Rightarrow> u32 \<Rightarrow> u32 \<Rightarrow> 's \<Rightarrow> 's option" where
  "ex_PageFault out iid err eip cs eflags st =
     map_option snd (printf out (fmt ''Page Fault - vect 0x%x; Error Code 0x%x; Eip 0x%x; CS 0x%x; EFLAGS 0x%x'' @ [0x0A])
       [Va_Word iid, Va_Word err, Va_Word eip, Va_Word cs, Va_Word eflags] st)"

definition ex_DoubleFault :: "'s print_fun \<Rightarrow> u32 \<Rightarrow> u32 \<Rightarrow> u32 \<Rightarrow> u32 \<Rightarrow> u32 \<Rightarrow> 's \<Rightarrow> 's option" where
  "ex_DoubleFault out iid err eip cs eflags st =
     map_option snd (printf out (fmt ''Double Fault - vect 0x%x; Error Code 0x%x; Eip 0x%x; CS 0x%x; EFLAGS 0x%x'' @ [0x0A])
       [Va_Word iid, Va_Word err, Va_Word eip, Va_Word cs, Va_Word eflags] st)"

definition Default_ISR :: "'s print_fun \<Rightarrow> u32 \<Rightarrow> 's \<Rightarrow> 's option" where
  "Default_ISR out code st =
     map_option snd (printf out (fmt ''IRQ raised but not managed; code: %u'' @ [0x0A]) [Va_Word code] st)"

definition Set_EOI_handler :: "SendEOI \<Rightarrow> platform \<Rightarrow> platform" where
  "Set_EOI_handler f s = s\<lparr>SendEOI_handler := Some f\<rparr>"

text \<open>A page of device registers, mapped to itself; the address 0 is the failure of mem_map.\<close>

definition map_device :: "u32 \<Rightarrow> platform \<Rightarrow> (u32 \<times> platform) option" where
  "map_device a s =
     map_option (\<lambda>(p, _, pg). (p, s\<lparr>page_maps := pg\<rparr>)) (mem_map a a PAGE_SIZE KMEM_RW KMEM_UNCACHEABLE (page_maps s))"

definition check_LAPIC_base :: "surroundings \<Rightarrow> platform \<Rightarrow> platform" where
  "check_LAPIC_base e s =
     (case LAPIC_get_phy_base_addr (devices e) (history s) of (b, tr) \<Rightarrow>
        s\<lparr>history := (if LAPIC_Ptr (SysConf s) \<noteq> b then LAPIC_set_phy_base_addr (LAPIC_Ptr (SysConf s)) tr else tr)\<rparr>)"

definition InitSys_apic :: "surroundings \<Rightarrow> platform \<Rightarrow> platform option" where
  "InitSys_apic e s =
     do { s \<leftarrow> kermsg_info e (fmt ''APIC is available and will be used.'' @ [0x0A]) s;
          let s = s\<lparr>history := PIC_disable (history s)\<rparr>;
          let s = check_LAPIC_base e s;
          (LAPIC_ptr, s) \<leftarrow> map_device (LAPIC_Ptr (SysConf s)) s;
          if LAPIC_ptr = 0 then None
          else do {
            let s = s\<lparr>LAPIC_va := LAPIC_init_vir_addr LAPIC_ptr\<rparr>;
            (p, s) \<leftarrow> (if SysIOAPICs (SysConf s) = [] then None else map_device (IOAPIC_Addr (SysIOAPICs (SysConf s) ! 0)) s);
            let s = s\<lparr>IOAPIC_ptr := p\<rparr>;
            if IOAPIC_ptr s = 0 then None
            else do {
              let s = Set_EOI_handler EOI_LAPIC s;
              let s = s\<lparr>history := LAPIC_enable (devices e) (LAPIC_va s) (ucast SPURIOUS_INT_VECTOR) (history s)\<rparr>;
              let s = s\<lparr>SysConf := (SysConf s)\<lparr>ACPI_Init := True\<rparr>\<rparr>;
              s \<leftarrow> kermsg_info e (fmt ''Number of Cores: '') s;
              s \<leftarrow> print e (fmt ''%d'' @ [0x0A]) [Va_Word (ucast (CPU_Num (SysConf s)))] s;
              s \<leftarrow> kermsg_info e (fmt ''Number of I/O APICs: '') s;
              print e (fmt ''%d'' @ [0x0A]) [Va_Word (ucast (SysIOAPIC_Num (SysConf s)))] s } } }"

definition InitSys_pic :: "surroundings \<Rightarrow> platform \<Rightarrow> platform option" where
  "InitSys_pic e s =
     do { s \<leftarrow> kermsg_info e (fmt ''APIC is not available. The PIC will be used.'' @ [0x0A]) s;
          s \<leftarrow> kermsg_info e (fmt ''Number of Cores: 1'' @ [0x0A]) s;
          let s = Set_EOI_handler EOI_PIC s;
          let (o', tr) = PIC_remap (devices e) (ucast (PIC1_START_IRQ HW_INT_START)) (ucast (PIC2_START_IRQ HW_INT_START)) (history s);
          Some (s\<lparr>PIC_start := o', history := tr, SysConf := (SysConf s)\<lparr>ACPI_Init := False\<rparr>\<rparr>) }"

definition zero_core :: Core_Status where
  "zero_core = \<lparr>Core_ID = 0, StartedState = 0, stackTopAddress = 0\<rparr>"

text \<open>\<open>depth\<close> bounds the nesting of PCI bridges; \<open>stk\<close> and \<open>loc\<close> are stack memory of the scan.\<close>

definition InitSys :: "nat \<Rightarrow> bytes \<Rightarrow> u32 \<Rightarrow> surroundings \<Rightarrow> routines \<Rightarrow> platform \<Rightarrow> platform option" where
  "InitSys depth stk loc e a s =
     do { let s = s\<lparr>IF := False\<rparr>;
          s \<leftarrow> (if dw1 (CPU_Info (SysConf s)) AND CPUID_FEAT_DW1_APIC = CPUID_FEAT_DW1_APIC \<and> ACPI_Init (SysConf s)
               then InitSys_apic e s else InitSys_pic e s);
          let s = s\<lparr>history := RTC_Init (devices e) (history s)\<rparr>;
          (t, isrs, tr) \<leftarrow> InitSysTime (devices e) (SysConf s) (IOAPIC_ptr s) (SysTick_addr a) (SysTime s) (isr_table s) (history s);
          let s = s\<lparr>SysTime := t, isr_table := isrs, history := tr\<rparr>;
          (_, isrs) \<leftarrow> ISR_Install EX_DOUBLE_FAULT (ex_DoubleFault_addr a) (isr_table s);
          (_, isrs) \<leftarrow> ISR_Install EX_PAGE_FAULT (ex_PageFault_addr a) isrs;
          let s = s\<lparr>isr_table := isrs, IF := True\<rparr>;
          ((sc, mt), k, tr) \<leftarrow> InitMicroTimer (devices e) (LAPIC_va s) (low_first e) (ticks e) (SysConf s, MicroTime s) (instant s, history s);
          let s = s\<lparr>SysConf := sc, MicroTime := mt, instant := k, history := tr, CPU_State := replicate MAX_CPU_NUM zero_core\<rparr>;
          s \<leftarrow> set_core (unat BSP_INDEX) (\<lambda>c. \<lparr>Core_ID = CPU_GetCoreID (cpuid_of e), StartedState = CPU_STATE_STARTED, stackTopAddress = BSP_stack_top a\<rparr>) s;
          s \<leftarrow> InitAPs e s;
          (_, st, tr) \<leftarrow> pci_scan depth (devices e) stk loc (kernel_fs s, history s);
          Some (s\<lparr>kernel_fs := st, history := tr\<rparr>) }"

section \<open>Device registers\<close>

definition device_page :: "paging \<Rightarrow> u32 \<Rightarrow> bool" where
  "device_page pg a \<longleftrightarrow> mappable pg a PAGE_SIZE \<and> PAGE_ALIGN_FLOOR a = a \<and> a \<noteq> 0"

lemma map_device_ok:
  assumes "device_page (page_maps s) a"
  obtains pg where "map_device a s = Some (a, s\<lparr>page_maps := pg\<rparr>)" "page_directory pg = page_directory (page_maps s)"
    "\<forall>va. translate pg va = (if unat va div 4096 \<in> area_pages a PAGE_SIZE then Some va else translate (page_maps s) va)"
proof -
  have m: "mappable (page_maps s) a PAGE_SIZE" "PAGE_ALIGN_FLOOR a = a" using assms by (simp_all add: device_page_def)
  from mem_map_ok [OF m(1), of a KMEM_RW KMEM_UNCACHEABLE] obtain pg where
    "mem_map a a PAGE_SIZE KMEM_RW KMEM_UNCACHEABLE (page_maps s) = Some (a, PAGE_ALIGN_CEIL PAGE_SIZE, pg)" "page_directory pg = page_directory (page_maps s)"
    "\<forall>va. translate pg va = (if unat va div 4096 \<in> area_pages a PAGE_SIZE then Some va else translate (page_maps s) va)"
    using m(2) by auto
  then show thesis by (intro that [of pg]) (simp_all add: map_device_def)
qed

lemma device_page_cong: "page_directory pg' = page_directory pg \<Longrightarrow> device_page pg' a = device_page pg a"
  by (simp add: device_page_def mappable_def)

lemma check_LAPIC_base_history: "\<exists>tr. check_LAPIC_base e s = s\<lparr>history := tr\<rparr>"
  by (cases "LAPIC_get_phy_base_addr (devices e) (history s)") (auto simp: check_LAPIC_base_def)

lemma InitSys_apic_ok:
  assumes pr: "prints e" and lap: "device_page (page_maps s) (LAPIC_Ptr (SysConf s))"
    and io: "SysIOAPICs (SysConf s) = io # ios" "device_page (page_maps s) (IOAPIC_Addr io)"
  obtains pg tr where "InitSys_apic e s = Some (s\<lparr>page_maps := pg, LAPIC_va := LAPIC_Ptr (SysConf s), IOAPIC_ptr := IOAPIC_Addr io,
      SendEOI_handler := Some EOI_LAPIC, SysConf := (SysConf s)\<lparr>ACPI_Init := True\<rparr>, history := tr\<rparr>)"
    "\<forall>va. translate pg va = (if unat va div 4096 \<in> area_pages (LAPIC_Ptr (SysConf s)) PAGE_SIZE \<union> area_pages (IOAPIC_Addr io) PAGE_SIZE
       then Some va else translate (page_maps s) va)"
proof -
  define L where "L = LAPIC_Ptr (SysConf s)"
  obtain tr1 where m1: "kermsg_info e (fmt ''APIC is available and will be used.'' @ [0x0A]) s = Some (s\<lparr>history := tr1\<rparr>)"
    using kermsg_info_returns [OF pr, of "fmt ''APIC is available and will be used.'' @ [0x0A]" s] by (auto simp: plain_def fmt_def)
  obtain tr3 where b: "check_LAPIC_base e (s\<lparr>history := PIC_disable tr1\<rparr>) = s\<lparr>history := tr3\<rparr>" 
    using check_LAPIC_base_history [of e "s\<lparr>history := PIC_disable tr1\<rparr>"] by auto
  define s2 where "s2 = s\<lparr>history := tr3\<rparr>"
  have p2: "device_page (page_maps s2) L" "page_maps s2 = page_maps s" using lap by (simp_all add: s2_def L_def)
  obtain pg1 where d1: "map_device L s2 = Some (L, s2\<lparr>page_maps := pg1\<rparr>)" "page_directory pg1 = page_directory (page_maps s)"
    "\<forall>va. translate pg1 va = (if unat va div 4096 \<in> area_pages L PAGE_SIZE then Some va else translate (page_maps s) va)"
    by (rule map_device_ok [OF p2(1), unfolded p2(2)])
  define s3 where "s3 = s2\<lparr>page_maps := pg1, LAPIC_va := L\<rparr>"
  have p3: "device_page (page_maps s3) (IOAPIC_Addr io)" "page_maps s3 = pg1" using device_page_cong [OF d1(2)] io(2) by (simp_all add: s3_def)
  obtain pg2 where d2: "map_device (IOAPIC_Addr io) s3 = Some (IOAPIC_Addr io, s3\<lparr>page_maps := pg2\<rparr>)"
    "\<forall>va. translate pg2 va = (if unat va div 4096 \<in> area_pages (IOAPIC_Addr io) PAGE_SIZE then Some va else translate pg1 va)"
    by (rule map_device_ok [OF p3(1), unfolded p3(2)])
  define s4 where "s4 = s3\<lparr>page_maps := pg2, IOAPIC_ptr := IOAPIC_Addr io, SendEOI_handler := Some EOI_LAPIC,
    history := LAPIC_enable (devices e) L (ucast SPURIOUS_INT_VECTOR) (history s3), SysConf := (SysConf s)\<lparr>ACPI_Init := True\<rparr>\<rparr>"
  obtain tr5 where m5: "kermsg_info e (fmt ''Number of Cores: '') s4 = Some (s4\<lparr>history := tr5\<rparr>)"
    using kermsg_info_returns [OF pr, of "fmt ''Number of Cores: ''" s4] by (auto simp: plain_def fmt_def)
  obtain tr6 where m6: "print e (fmt ''%d'' @ [0x0A]) [Va_Word (ucast (CPU_Num (SysConf s)))] (s4\<lparr>history := tr5\<rparr>) = Some (s4\<lparr>history := tr6\<rparr>)"
    using print_number(2) [OF pr, of "ucast (CPU_Num (SysConf s))" "s4\<lparr>history := tr5\<rparr>"] by auto
  obtain tr7 where m7: "kermsg_info e (fmt ''Number of I/O APICs: '') (s4\<lparr>history := tr6\<rparr>) = Some (s4\<lparr>history := tr7\<rparr>)"
    using kermsg_info_returns [OF pr, of "fmt ''Number of I/O APICs: ''" "s4\<lparr>history := tr6\<rparr>"] by (auto simp: plain_def fmt_def)
  obtain tr8 where m8: "print e (fmt ''%d'' @ [0x0A]) [Va_Word (ucast (SysIOAPIC_Num (SysConf s)))] (s4\<lparr>history := tr7\<rparr>) = Some (s4\<lparr>history := tr8\<rparr>)"
    using print_number(2) [OF pr, of "ucast (SysIOAPIC_Num (SysConf s))" "s4\<lparr>history := tr7\<rparr>"] by auto
  have nz: "L \<noteq> 0" "IOAPIC_Addr io \<noteq> 0" using lap io(2) by (simp_all add: device_page_def L_def)
  have f: "SysConf s2 = SysConf s" "SysConf s3 = SysConf s" "SysConf s4 = (SysConf s)\<lparr>ACPI_Init := True\<rparr>" "LAPIC_va s3 = L"
    by (simp_all add: s2_def s3_def s4_def)
  have "InitSys_apic e s = Some (s4\<lparr>history := tr8\<rparr>)"
    using m1 b d1(1) d2(1) nz m5 m6 m7 m8 f(1,2,4) io(1)
    by (simp add: InitSys_apic_def L_def [symmetric] s2_def [symmetric] s3_def [symmetric] LAPIC_init_vir_addr_def Set_EOI_handler_def
        s4_def [symmetric] f(3) Let_def)
  moreover have "s4\<lparr>history := tr8\<rparr> = s\<lparr>page_maps := pg2, LAPIC_va := L, IOAPIC_ptr := IOAPIC_Addr io,
      SendEOI_handler := Some EOI_LAPIC, SysConf := (SysConf s)\<lparr>ACPI_Init := True\<rparr>, history := tr8\<rparr>"
    by (simp add: s4_def s3_def s2_def)
  ultimately show thesis using that [of tr8 pg2] d1(3) d2(2) by (simp add: L_def)
qed

section \<open>The whole start\<close>

text \<open>Allocations outside of the file system keep it.\<close>

lemma tree_kept:
  assumes inv: "tree_inv st K" and eq: "nodes st' = nodes st" "root_obj st' = root_obj st" "fs_root st' = fs_root st"
    and h: "heap_ok st'" "HeapMem (heap st') = HeapMem (heap st)" "CurrentPointer (heap st) \<le> CurrentPointer (heap st')"
  shows "tree_inv st' K" "extends st K st' K"
proof -
  show "tree_inv st' K" by (rule tree_inv_cong [OF inv]) (simp_all add: eq h)
  show "extends st K st' K" using extends_refl [OF inv] eq live_cong [OF eq(2), of K] by (simp add: extends_def)
qed

text \<open>The handlers and the interrupt of the tick.\<close>

lemma start_handlers:
  assumes "length isrs = INT_NUM" and "ACPI_Init sc" "InterruptSource sc \<noteq> []"
  obtains tr' where "InitSysTime hw sc io tick t isrs tr = Some (t\<lparr>SysTickFun_set := False\<rparr>, isrs[0x20 := tick], tr')"
    "ISR_Install EX_DOUBLE_FAULT df (isrs[0x20 := tick]) = Some (0, isrs[0x20 := tick, 8 := df])"
    "ISR_Install EX_PAGE_FAULT pf (isrs[0x20 := tick, 8 := df]) = Some (0, isrs[0x20 := tick, 8 := df, 14 := pf])"
  using assms
  by (simp add: InitSysTime_def EnableIRQ_def ISA_IRQ0_PIT_def HW_INT_START_def SPURIOUS_INT_VECTOR_def IRQ_def ISR_Install_def ISR_store_def
      INT_NUM_def EX_DOUBLE_FAULT_def EX_PAGE_FAULT_def Let_def)

definition boot_core :: "surroundings \<Rightarrow> routines \<Rightarrow> Core_Status" where
  "boot_core e a = \<lparr>Core_ID = CPU_GetCoreID (cpuid_of e), StartedState = CPU_STATE_STARTED, stackTopAddress = BSP_stack_top a\<rparr>"

text \<open>The rest of InitSys, from the start of the other processors on.\<close>

definition InitSys_rest :: "nat \<Rightarrow> bytes \<Rightarrow> u32 \<Rightarrow> surroundings \<Rightarrow> platform \<Rightarrow> platform option" where
  "InitSys_rest depth stk loc e s =
     do { s \<leftarrow> InitAPs e s;
          (_, st, tr) \<leftarrow> pci_scan depth (devices e) stk loc (kernel_fs s, history s);
          Some (s\<lparr>kernel_fs := st, history := tr\<rparr>) }"

lemma InitSys_devices:
  assumes pr: "prints e" and tk: "low_first e" "ticking T" "ticks e = counter T"
    and sc: "dw1 (CPU_Info (SysConf s)) AND CPUID_FEAT_DW1_APIC = CPUID_FEAT_DW1_APIC" "ACPI_Init (SysConf s)" "InterruptSource (SysConf s) \<noteq> []"
    and lap: "device_page (page_maps s) (LAPIC_Ptr (SysConf s))"
    and io: "SysIOAPICs (SysConf s) = io # ios" "device_page (page_maps s) (IOAPIC_Addr io)"
    and isr: "length (isr_table s) = INT_NUM"
  obtains s5 where "InitSys k stk loc e a s = InitSys_rest k stk loc e s5" "IF s5" "SendEOI_handler s5 = Some EOI_LAPIC"
    "isr_table s5 = (isr_table s)[0x20 := SysTick_addr a, 8 := ex_DoubleFault_addr a, 14 := ex_PageFault_addr a]"
    "\<forall>va. translate (page_maps s5) va = (if unat va div 4096 \<in> area_pages (LAPIC_Ptr (SysConf s)) PAGE_SIZE \<union> area_pages (IOAPIC_Addr io) PAGE_SIZE
       then Some va else translate (page_maps s) va)"
    "LAPIC_va s5 = LAPIC_Ptr (SysConf s)" "ACPI_Init (SysConf s5)" "CPU_Num (SysConf s5) = CPU_Num (SysConf s)" "kernel_fs s5 = kernel_fs s"
    "CPU_State s5 = boot_core e a # replicate 255 zero_core" "CPU_Started_Num s5 = CPU_Started_Num s"
proof -
  define L where "L = LAPIC_Ptr (SysConf s)"
  define s0 where "s0 = s\<lparr>IF := False\<rparr>"
  have c0: "SysConf s0 = SysConf s" "page_maps s0 = page_maps s" by (simp_all add: s0_def)
  obtain pg tr1 where A: "InitSys_apic e s0 = Some (s0\<lparr>page_maps := pg, LAPIC_va := L, IOAPIC_ptr := IOAPIC_Addr io,
      SendEOI_handler := Some EOI_LAPIC, SysConf := (SysConf s)\<lparr>ACPI_Init := True\<rparr>, history := tr1\<rparr>)"
    "\<forall>va. translate pg va = (if unat va div 4096 \<in> area_pages L PAGE_SIZE \<union> area_pages (IOAPIC_Addr io) PAGE_SIZE
       then Some va else translate (page_maps s) va)"
    using InitSys_apic_ok [OF pr, of s0 io ios] lap io unfolding c0 L_def by blast
  define sc1 where "sc1 = (SysConf s)\<lparr>ACPI_Init := True\<rparr>"
  define s1 where "s1 = s0\<lparr>page_maps := pg, LAPIC_va := L, IOAPIC_ptr := IOAPIC_Addr io, SendEOI_handler := Some EOI_LAPIC,
    SysConf := sc1, history := RTC_Init (devices e) tr1\<rparr>"
  have "ACPI_Init sc1" "InterruptSource sc1 \<noteq> []" using sc by (simp_all add: sc1_def)
  then obtain tr2 where B: "InitSysTime (devices e) sc1 (IOAPIC_Addr io) (SysTick_addr a) (SysTime s) (isr_table s) (RTC_Init (devices e) tr1) =
      Some ((SysTime s)\<lparr>SysTickFun_set := False\<rparr>, (isr_table s)[0x20 := SysTick_addr a], tr2)"
    "ISR_Install EX_DOUBLE_FAULT (ex_DoubleFault_addr a) ((isr_table s)[0x20 := SysTick_addr a]) = Some (0, (isr_table s)[0x20 := SysTick_addr a, 8 := ex_DoubleFault_addr a])"
    "ISR_Install EX_PAGE_FAULT (ex_PageFault_addr a) ((isr_table s)[0x20 := SysTick_addr a, 8 := ex_DoubleFault_addr a]) =
      Some (0, (isr_table s)[0x20 := SysTick_addr a, 8 := ex_DoubleFault_addr a, 14 := ex_PageFault_addr a])"
    using start_handlers [OF isr] by blast
  obtain f k3 tr3 where M: "InitMicroTimer (devices e) L True (counter T) (sc1, MicroTime s) (instant s, tr2) =
      Some ((sc1\<lparr>LAPIC_tim_freqHz := f\<rparr>, if f \<noteq> 0 then (MicroTime s)\<lparr>HWTimerEnabled := True, APIC_Ticks_us := f div 1000000\<rparr> else MicroTime s), k3, tr3)"
    using InitMicroTimer_returns [OF tk(2)] by blast
  define mt where "mt = (if f \<noteq> 0 then (MicroTime s)\<lparr>HWTimerEnabled := True, APIC_Ticks_us := f div 1000000\<rparr> else MicroTime s)"
  define s5 where "s5 = s1\<lparr>SysTime := (SysTime s)\<lparr>SysTickFun_set := False\<rparr>, isr_table := (isr_table s)[0x20 := SysTick_addr a, 8 := ex_DoubleFault_addr a, 14 := ex_PageFault_addr a],
    IF := True, SysConf := sc1\<lparr>LAPIC_tim_freqHz := f\<rparr>, MicroTime := mt, instant := k3, history := tr3, CPU_State := boot_core e a # replicate 255 zero_core\<rparr>"
  have cond: "dw1 (CPU_Info (SysConf s0)) AND CPUID_FEAT_DW1_APIC = CPUID_FEAT_DW1_APIC \<and> ACPI_Init (SysConf s0)" using sc c0 by simp
  have z: "replicate MAX_CPU_NUM zero_core = zero_core # replicate 255 zero_core"
  proof -
    have m: "MAX_CPU_NUM = Suc 255" by (simp add: MAX_CPU_NUM_def)
    show ?thesis unfolding m by (rule replicate_Suc)
  qed
  have s0: "SysTime s0 = SysTime s" "isr_table s0 = isr_table s" "MicroTime s0 = MicroTime s" "instant s0 = instant s" by (simp_all add: s0_def)
  have "InitSys k stk loc e a s = InitSys_rest k stk loc e s5"
    using A(1) [folded sc1_def] cond B M [folded mt_def] tk(1,3)
    by (simp add: InitSys_def InitSys_rest_def s0_def [symmetric] s0 z set_core_def BSP_INDEX_def boot_core_def [symmetric] Let_def) (simp add: s5_def s1_def)
  then show thesis using that [of s5] A(2)
    by (simp add: s5_def s1_def s0_def sc1_def L_def)
qed

lemma InitSys_ok:
  assumes pr: "prints e" and tk: "low_first e" "ticking T" "ticks e = counter T" and an: "answers e"
    and lp: "delivers (devices e) (LAPIC_Ptr (SysConf s))" "expires (devices e) (LAPIC_Ptr (SysConf s))"
    and sc: "dw1 (CPU_Info (SysConf s)) AND CPUID_FEAT_DW1_APIC = CPUID_FEAT_DW1_APIC" "ACPI_Init (SysConf s)" "InterruptSource (SysConf s) \<noteq> []"
    and lap: "device_page (page_maps s) (LAPIC_Ptr (SysConf s))"
    and io: "SysIOAPICs (SysConf s) = io # ios" "device_page (page_maps s) (IOAPIC_Addr io)"
    and n: "n = unat (CPU_Num (SysConf s))" "1 < n" "CPU_GetCoreID (cpuid_of e) = 0" "CPU_Started_Num s = 0"
    and isr: "length (isr_table s) = INT_NUM"
    and rm: "room (kernel_fs s) (2212 * n + 0x2000 * (n - 1) + 200 * (8 * length F + 6))"
    and par: "parent_ok (kernel_fs s) K (cstr ''/sys/device'') device_path p" and absent: "pick (kernel_fs s) (str_view (bytes_of ''pci'')) (K p) = 0"
    and pci: "has_space (devices e) cfg" "all_list k cfg = Some F" "distinct F" "list_all in_range F"
    and loc: "off_heap (kernel_fs s) loc 4"
  obtains s' K' d where "InitSys k stk loc e a s = Some s'" "IF s'" "SendEOI_handler s' = Some EOI_LAPIC"
    "isr_table s' = (isr_table s)[0x20 := SysTick_addr a, 8 := ex_DoubleFault_addr a, 14 := ex_PageFault_addr a]"
    "\<forall>va. translate (page_maps s') va = (if unat va div 4096 \<in> area_pages (LAPIC_Ptr (SysConf s)) PAGE_SIZE \<union> area_pages (IOAPIC_Addr io) PAGE_SIZE
       then Some va else translate (page_maps s) va)"
    "CPU_State s' = cores_after 0 (CurrentPointer (heap (kernel_fs s)) + of_nat (2212 * n)) (boot_core e a # replicate 255 zero_core) n"
    "CPU_Started_Num s' = of_nat n" "tree_inv (kernel_fs s') K'" "extends (kernel_fs s) K (kernel_fs s') K'" "scanned cfg d (kernel_fs s') K' F"
proof -
  obtain s5 where D: "InitSys k stk loc e a s = InitSys_rest k stk loc e s5" "IF s5" "SendEOI_handler s5 = Some EOI_LAPIC"
    "isr_table s5 = (isr_table s)[0x20 := SysTick_addr a, 8 := ex_DoubleFault_addr a, 14 := ex_PageFault_addr a]"
    "\<forall>va. translate (page_maps s5) va = (if unat va div 4096 \<in> area_pages (LAPIC_Ptr (SysConf s)) PAGE_SIZE \<union> area_pages (IOAPIC_Addr io) PAGE_SIZE
       then Some va else translate (page_maps s) va)"
    "LAPIC_va s5 = LAPIC_Ptr (SysConf s)" "ACPI_Init (SysConf s5)" "CPU_Num (SysConf s5) = CPU_Num (SysConf s)" "kernel_fs s5 = kernel_fs s"
    "CPU_State s5 = boot_core e a # replicate 255 zero_core" "CPU_Started_Num s5 = CPU_Started_Num s"
    by (rule InitSys_devices [OF pr tk sc lap io isr])
  define base where "base = CurrentPointer (heap (kernel_fs s)) + of_nat (2212 * n)"
  have s5: "responds e T (LAPIC_va s5) (MicroTime s5)" "n = unat (CPU_Num (SysConf s5))"
    "n \<le> length (CPU_State s5)" "CPU_Started_Num s5 = 0" "StartedState (CPU_State s5 ! 0) = CPU_STATE_STARTED"
    "\<forall>c\<in>set (CPU_State s5). \<not> waits c"
    using tk lp n unat_lt2p [of "CPU_Num (SysConf s)"]
    by (simp_all add: D responds_def boot_core_def zero_core_def CPU_STATE_STARTED_def waits_def CPU_STATE_WAITING_START_def)
  note inv = parent_okD(1) [OF par]
  have h: "heap_ok (kernel_fs s5)" "room (kernel_fs s5) (2212 * n + 0x2000 * (n - 1))"
    using tree_invD(1) [OF inv] rm by (simp_all add: D(9) room_def)
  have B0: "unat (CPU_GetCoreID (cpuid_of e)) = 0" "0 < n" using n by simp_all
  obtain s6 st where I: "InitAPs e s5 = Some s6"
    "s6 = s5\<lparr>AP_Tables := CurrentPointer (heap (kernel_fs s)), CPU_State := cores_after 0 base (CPU_State s5) n,
      CPU_Started_Num := of_nat n, kernel_fs := kernel_fs s6, instant := instant s6, history := history s6\<rparr>"
    "st = (kernel_fs s)\<lparr>mem := mem st\<rparr>" "kernel_fs s6 = (kernel_fs s)\<lparr>mem := mem (kernel_fs s6), heap := heap (kernel_fs s6)\<rparr>"
    "bumped st (kernel_fs s6) (2212 * n + 0x2000 * (n - 1))" "heap_ok (kernel_fs s6)"
    unfolding base_def by (rule InitAPs_starts [OF s5(1) an pr D(7) s5(2) n(2) s5(3,6,4) B0 s5(5) h refl, unfolded D(9)])
  have hs: "heap st = heap (kernel_fs s)" by (subst I(3)) simp
  have eq: "nodes (kernel_fs s6) = nodes (kernel_fs s)" "root_obj (kernel_fs s6) = root_obj (kernel_fs s)" "fs_root (kernel_fs s6) = fs_root (kernel_fs s)"
    by (subst I(4), simp)+
  have hp: "HeapMem (heap (kernel_fs s6)) = HeapMem (heap (kernel_fs s))" "CurrentPointer (heap (kernel_fs s)) \<le> CurrentPointer (heap (kernel_fs s6))"
    using I(5) hs by (simp_all add: bumped_def word_le_nat_alt)
  note kept = tree_kept [OF inv eq I(6) hp]
  have par6: "parent_ok (kernel_fs s6) K (cstr ''/sys/device'') device_path p" by (rule parent_ok_extends [OF par kept])
  have absent6: "pick (kernel_fs s6) (str_view (bytes_of ''pci'')) (K p) = 0" using absent eq(1) by (simp add: pick_def name_match_def [abs_def])
  have rm6: "has_room (kernel_fs s6) (3 + (8 * length F + 3))" using rm I(5) hs by (simp add: room_def has_room_def bumped_def)
  have loc6: "off_heap (kernel_fs s6) loc 4" using loc I(5) hs by (simp add: off_heap_def bumped_def)
  obtain st' K' d us where P: "pci_scan k (devices e) stk loc (kernel_fs s6, history s6) = Some (RET_T_OK, st', history s6 @ us)" "tree_inv st' K'"
    "extends (kernel_fs s6) K st' K'" "scanned cfg d st' K' F"
    by (rule pci_scan_ok [OF par6 absent6 pci rm6 loc6])
  define s7 where "s7 = s6\<lparr>kernel_fs := st', history := history s6 @ us\<rparr>"
  have "InitSys k stk loc e a s = Some s7" using I(1) P(1) by (simp add: D(1) InitSys_rest_def s7_def)
  moreover have "extends (kernel_fs s) K st' K'" by (rule extends_trans [OF kept(2) P(3)])
  moreover have "IF s6 = IF s5" "SendEOI_handler s6 = SendEOI_handler s5" "isr_table s6 = isr_table s5" "page_maps s6 = page_maps s5"
    "CPU_State s6 = cores_after 0 base (CPU_State s5) n" "CPU_Started_Num s6 = of_nat n"
    by (subst I(2), simp)+
  ultimately show thesis using that [of s7 K' d] D(2-5,10) P(2,4) by (simp add: s7_def base_def)
qed

end
