(* ===== verification/Coresys_Boot.thy ===== *)
theory Coresys_Boot
  imports Coresys_Ramfs_Steps
begin

text \<open>
  The directories that the kernel makes when it starts (\<open>kernel_initramfs\<close> of kernel.c): the layout of
  the file system that the device drivers rely on. The results of the operations are ignored.
\<close>

definition kernel_initramfs :: "bytes \<Rightarrow> ramfs \<Rightarrow> ramfs option" where
  "kernel_initramfs stk st =
     do { (_, st) \<leftarrow> ramfs_init st;
          (_, _, st) \<leftarrow> ramfs_mkDir stk st (cstr ''initrd'') (cstr ''/'');
          (_, _, st) \<leftarrow> ramfs_mkDir stk st (cstr ''sys'') (cstr ''/'');
          (_, _, st) \<leftarrow> ramfs_mkDir stk st (cstr ''proc'') (cstr ''/sys'');
          (_, _, st) \<leftarrow> ramfs_mkDir stk st (cstr ''device'') (cstr ''/sys'');
          Some st }"

lemma boot_names: "valid_name (cstr ''initrd'') (bytes_of ''initrd'')" "valid_name (cstr ''sys'') (bytes_of ''sys'')"
  "valid_name (cstr ''proc'') (bytes_of ''proc'')" "valid_name (cstr ''device'') (bytes_of ''device'')"
  by (rule cstr_name; simp add: bytes_of_def slash_def)+

lemma boot_paths: "abs_path (cstr ''/'') [slash]" "abs_path (cstr ''/sys'') (bytes_of ''/sys'')"
  "tokens slash [slash] = []" "tokens slash (bytes_of ''/sys'') = [bytes_of ''sys'']"
proof -
  show "abs_path (cstr ''/'') [slash]" by (simp add: abs_path_def cstr_def slash_def)
  have "is_cstr (cstr ''/sys'') (bytes_of ''/sys'')" by (rule cstr_bytes) (simp_all add: bytes_of_def)
  then show "abs_path (cstr ''/sys'') (bytes_of ''/sys'')" by (simp add: abs_path_def bytes_of_def slash_def)
  show "tokens slash [slash] = []" using tokens_delim [of slash "[]"] by simp
  show "tokens slash (bytes_of ''/sys'') = [bytes_of ''sys'']"
    using tokens_delim [of slash "bytes_of ''sys''"] tokens_single [of slash "bytes_of ''sys''"] by (simp add: bytes_of_def slash_def)
qed

text \<open>One more directory in a directory whose names are known.\<close>

lemma mkDir_names:
  assumes par: "parent_ok st K path s d" and nm: "valid_name dirName f" and "names_at st (K d) fs" "f \<notin> set fs"
    and room: "has_room st (3 + k)"
  obtains st' K' p where "ramfs_mkDir stk st dirName path = Some (p, VFS_T_OK, st')" "fs_step st K st' K' 600" "has_room st' k"
    "K' d = K d @ [p]" "names_at st' (K' d) (fs @ [f])" "names_at st' (K' p) dir_names" "is_dir st' p" "p \<noteq> 0"
    "vfs_walk find_dispatch st' (fs_root st') (tokens slash s @ [f]) = Some p" "\<forall>x\<in>live st K. x \<noteq> d \<longrightarrow> K' x = K x"
proof -
  define p where "p = CurrentPointer (heap st)"
  have room': "has_room st 3" "has_room st 1" using room by (simp_all add: has_room_def)
  obtain st' q r where A: "ramfs_mkDir stk st dirName path = Some (p, VFS_T_OK, st')"
    "fs_step st K st' (K(d := K d @ [p], p := [q, r])) 600" "p \<noteq> 0" "is_dir st' p"
    "vfs_walk find_dispatch st' (fs_root st') (tokens slash s @ [f]) = Some p"
    "named st' p f" "named st' q [0x2E]" "named st' r [0x2E, 0x2E]"
    by (rule mkDir_step [OF par nm names_at_absent [OF assms(3,4) nm] room'(1) p_def])
  have "p \<notin> live st K" using fresh_not_live [OF parent_okD(1) [OF par] room'(2)] by (simp add: p_def)
  moreover from this have "p \<noteq> d" using parent_okD(3) [OF par] by auto
  moreover have "names_at st' (K d) fs" using A(2) assms(3) names_at_extends by (auto simp: fs_step_def)
  ultimately show thesis
    using that [OF A(1,2)] A(3-) fs_step_room [OF A(2) _ room] by (simp add: names_at_snoc) (auto simp: names_at_def dir_names_def)
qed

text \<open>The layout: \<open>i\<close>, \<open>s\<close>, \<open>p\<close> and \<open>d\<close> are the nodes of \<open>/initrd\<close>, \<open>/sys\<close>, \<open>/sys/proc\<close> and \<open>/sys/device\<close>.\<close>

definition boot_layout :: "ramfs \<Rightarrow> (u32 \<Rightarrow> u32 list) \<Rightarrow> u32 \<Rightarrow> u32 \<Rightarrow> u32 \<Rightarrow> u32 \<Rightarrow> bool" where
  "boot_layout st K i s p d \<longleftrightarrow> tree_inv st K \<and> list_all (is_dir st) [i, s, p, d] \<and>
     names_at st (K (fs_root st)) (dir_names @ [bytes_of ''initrd'', bytes_of ''sys'']) \<and> drop 2 (K (fs_root st)) = [i, s] \<and>
     names_at st (K s) (dir_names @ [bytes_of ''proc'', bytes_of ''device'']) \<and> drop 2 (K s) = [p, d] \<and>
     list_all (\<lambda>x. names_at st (K x) dir_names) [i, p, d]"

lemma keep_names:
  assumes "fs_step st K st' K' b" and "\<forall>x\<in>live st K. x \<noteq> d \<longrightarrow> K' x = K x" and "x \<in> live st K" and "x \<noteq> d"
  shows "K' x = K x" and "x \<in> live st' K'" and "is_dir st x \<Longrightarrow> is_dir st' x" and "names_at st (K x) fs \<Longrightarrow> names_at st' (K' x) fs"
proof -
  have e: "extends st K st' K'" using assms(1) by (simp add: fs_step_def)
  show k: "K' x = K x" using assms(2-4) by blast
  show "x \<in> live st' K'" using e assms(3) by (simp add: extends_def)
  show "is_dir st x \<Longrightarrow> is_dir st' x" by (rule is_dir_extends [OF e assms(3)])
  show "names_at st (K x) fs \<Longrightarrow> names_at st' (K' x) fs" unfolding k by (rule names_at_extends [OF e])
qed

lemma root_parent:
  assumes "tree_inv st K"
  shows "parent_ok st K (cstr ''/'') [slash] (fs_root st)"
  using assms boot_paths(1,3) tree_invD(2,3,8) [OF assms] by (simp add: parent_ok_def)

lemma entries_differ:
  assumes "tree_inv st K" and "K d = xs @ [x, y]"
  shows "x \<noteq> y" and "x \<noteq> d" and "y \<noteq> d" and "x \<noteq> fs_root st" and "y \<noteq> fs_root st" and "x \<in> live st K" and "y \<in> live st K"
proof -
  have o: "sorted_wrt (<) (K d)" "\<forall>z\<in>set (K d). z \<noteq> root_obj st \<and> (d \<noteq> root_obj st \<longrightarrow> d < z)"
    using tree_invD(9) [OF assms(1)] by (simp_all add: ordered_def)
  then show "x \<noteq> y" "x \<noteq> d" "y \<noteq> d" "x \<noteq> fs_root st" "y \<noteq> fs_root st"
    using tree_invD(2) [OF assms(1)] by (auto simp: assms(2) sorted_wrt_append)
  show "x \<in> live st K" "y \<in> live st K" by (rule liveI [where p = d], simp add: assms(2))+
qed

text \<open>The two directories in the root.\<close>

lemma kernel_initramfs_root:
  assumes "heap_ok st" and "has_room st (2 + (3 + (3 + k)))" and "nodes st (root_obj st) = Some n" "children n = 0"
  obtains st' K' i s st0 st1 where "ramfs_init st = Some (VFS_T_OK, st0)"
    "ramfs_mkDir stk st0 (cstr ''initrd'') (cstr ''/'') = Some (i, VFS_T_OK, st1)"
    "ramfs_mkDir stk st1 (cstr ''sys'') (cstr ''/'') = Some (s, VFS_T_OK, st')"
    "tree_inv st' K'" "bumped st st' 1600" "has_room st' k" "is_dir st' i" "is_dir st' s"
    "names_at st' (K' (fs_root st')) (dir_names @ [bytes_of ''initrd'', bytes_of ''sys''])"
    "drop 2 (K' (fs_root st')) = [i, s]" "names_at st' (K' i) dir_names" "names_at st' (K' s) dir_names"
    "vfs_walk find_dispatch st' (fs_root st') [bytes_of ''sys''] = Some s" "s \<noteq> 0"
proof -
  define q r where "q = CurrentPointer (heap st)" and "r = CurrentPointer (heap st) + 200"
  define K where "K = (\<lambda>p. if p = root_obj st then [q, r] else [])"
  have room: "has_room st 2" using assms(2) by (simp add: has_room_def)
  obtain st0 where I: "ramfs_init st = Some (VFS_T_OK, st0)" "tree_inv st0 K" "root_obj st0 = root_obj st" "bumped st st0 400"
    "named st0 q [0x2E]" "named st0 r [0x2E, 0x2E]"
    using ramfs_init_new [OF assms(1) room assms(3,4) q_def r_def] unfolding K_def by metis
  define R where "R = fs_root st0"
  have KR: "K R = [q, r]" using tree_invD(2) [OF I(2)] I(3) by (simp add: K_def R_def)
  have n0: "names_at st0 (K R) dir_names" using I(5,6) by (simp add: KR names_at_def dir_names_def)
  have room0: "has_room st0 (3 + (3 + k))" by (rule bumped_room [OF I(4) _ assms(2)]) simp
  have new: "bytes_of ''initrd'' \<notin> set dir_names" "bytes_of ''sys'' \<notin> set (dir_names @ [bytes_of ''initrd''])" by (simp_all add: dir_names_def bytes_of_def)
  obtain st1 K1 i where A: "ramfs_mkDir stk st0 (cstr ''initrd'') (cstr ''/'') = Some (i, VFS_T_OK, st1)" "fs_step st0 K st1 K1 600" "has_room st1 (3 + k)"
    "K1 R = K R @ [i]" "names_at st1 (K1 R) (dir_names @ [bytes_of ''initrd''])" "names_at st1 (K1 i) dir_names" "is_dir st1 i" "i \<noteq> 0"
    "vfs_walk find_dispatch st1 (fs_root st1) (tokens slash [slash] @ [bytes_of ''initrd'']) = Some i" "\<forall>x\<in>live st0 K. x \<noteq> R \<longrightarrow> K1 x = K x"
    by (rule mkDir_names [OF root_parent [OF I(2), folded R_def] boot_names(1) n0 new(1) room0])
  obtain st2 K2 s where B: "ramfs_mkDir stk st1 (cstr ''sys'') (cstr ''/'') = Some (s, VFS_T_OK, st2)" "fs_step st1 K1 st2 K2 600" "has_room st2 k"
    "K2 R = K1 R @ [s]" "names_at st2 (K2 R) ((dir_names @ [bytes_of ''initrd'']) @ [bytes_of ''sys''])" "names_at st2 (K2 s) dir_names" "is_dir st2 s" "s \<noteq> 0"
    "vfs_walk find_dispatch st2 (fs_root st2) (tokens slash [slash] @ [bytes_of ''sys'']) = Some s" "\<forall>x\<in>live st1 K1. x \<noteq> R \<longrightarrow> K2 x = K1 x"
    by (rule mkDir_names [OF fs_step_parent [OF root_parent [OF I(2), folded R_def] A(2)] boot_names(2) A(5) new(2) A(3)])
  have R2: "fs_root st2 = R" using A(2) B(2) by (simp add: R_def fs_step_def extends_def)
  have inv1: "tree_inv st1 K1" using A(2) by (simp add: fs_step_def)
  have i: "i \<noteq> R" "i \<in> live st1 K1" using entries_differ [OF inv1, of R "[q]" r i] A(4) KR by simp_all
  note keep = keep_names [OF B(2,10) i(2,1)]
  show thesis
    by (rule that [OF I(1) A(1) B(1), of K2])
      (use B(2,3,5-9) keep(3) [OF A(7)] keep(4) [OF A(6)] bumped_trans [OF I(4) bumped_trans [of st0 st1 600 st2 600]] A(2,4) B(4) KR boot_paths(3) in
        \<open>simp_all add: fs_step_def R2\<close>)
qed

lemma kernel_initramfs_ok:
  assumes "heap_ok st" and "has_room st (14 + k)" and "nodes st (root_obj st) = Some n" "children n = 0"
  obtains st' K i s p d where "kernel_initramfs stk st = Some st'" "boot_layout st' K i s p d" "bumped st st' 2800" "has_room st' k"
    "vfs_walk find_dispatch st' (fs_root st') [bytes_of ''sys'', bytes_of ''device''] = Some d" "d \<noteq> 0"
proof -
  have room: "has_room st (2 + (3 + (3 + (3 + (3 + k)))))" using assms(2) by (simp add: has_room_def algebra_simps)
  obtain st2 K2 i s st0 st1 where A: "ramfs_init st = Some (VFS_T_OK, st0)"
    "ramfs_mkDir stk st0 (cstr ''initrd'') (cstr ''/'') = Some (i, VFS_T_OK, st1)"
    "ramfs_mkDir stk st1 (cstr ''sys'') (cstr ''/'') = Some (s, VFS_T_OK, st2)"
    "tree_inv st2 K2" "bumped st st2 1600" "has_room st2 (3 + (3 + k))" "is_dir st2 i" "is_dir st2 s"
    "names_at st2 (K2 (fs_root st2)) (dir_names @ [bytes_of ''initrd'', bytes_of ''sys''])"
    "drop 2 (K2 (fs_root st2)) = [i, s]" "names_at st2 (K2 i) dir_names" "names_at st2 (K2 s) dir_names"
    "vfs_walk find_dispatch st2 (fs_root st2) [bytes_of ''sys''] = Some s" "s \<noteq> 0"
    by (rule kernel_initramfs_root [OF assms(1) room assms(3,4)])
  define R where "R = fs_root st2"
  have "K2 R = take 2 (K2 R) @ [i, s]" using A(10) append_take_drop_id [of 2 "K2 R"] by (simp add: R_def)
  note e2 = entries_differ [OF A(4) this, folded R_def]
  have par: "parent_ok st2 K2 (cstr ''/sys'') (bytes_of ''/sys'') s"
    using A(4,8,13,14) boot_paths(2,4) by (simp add: parent_ok_def)
  have new: "bytes_of ''proc'' \<notin> set dir_names" "bytes_of ''device'' \<notin> set (dir_names @ [bytes_of ''proc''])" by (simp_all add: dir_names_def bytes_of_def)
  obtain st3 K3 p where B: "ramfs_mkDir stk st2 (cstr ''proc'') (cstr ''/sys'') = Some (p, VFS_T_OK, st3)" "fs_step st2 K2 st3 K3 600" "has_room st3 (3 + k)"
    "K3 s = K2 s @ [p]" "names_at st3 (K3 s) (dir_names @ [bytes_of ''proc''])" "names_at st3 (K3 p) dir_names" "is_dir st3 p" "p \<noteq> 0"
    "vfs_walk find_dispatch st3 (fs_root st3) (tokens slash (bytes_of ''/sys'') @ [bytes_of ''proc'']) = Some p" "\<forall>x\<in>live st2 K2. x \<noteq> s \<longrightarrow> K3 x = K2 x"
    by (rule mkDir_names [OF par boot_names(3) A(12) new(1) A(6)])
  obtain st4 K4 d where C: "ramfs_mkDir stk st3 (cstr ''device'') (cstr ''/sys'') = Some (d, VFS_T_OK, st4)" "fs_step st3 K3 st4 K4 600" "has_room st4 k"
    "K4 s = K3 s @ [d]" "names_at st4 (K4 s) ((dir_names @ [bytes_of ''proc'']) @ [bytes_of ''device''])" "names_at st4 (K4 d) dir_names" "is_dir st4 d" "d \<noteq> 0"
    "vfs_walk find_dispatch st4 (fs_root st4) (tokens slash (bytes_of ''/sys'') @ [bytes_of ''device'']) = Some d" "\<forall>x\<in>live st3 K3. x \<noteq> s \<longrightarrow> K4 x = K3 x"
    by (rule mkDir_names [OF fs_step_parent [OF par B(2)] boot_names(4) B(5) new(2) B(3)])
  have R4: "fs_root st4 = R" "fs_root st3 = R" using B(2) C(2) by (simp_all add: R_def fs_step_def extends_def)
  have "R \<in> live st2 K2" using tree_invD(7) [OF A(4)] by (simp add: R_def)
  note kR = keep_names [OF B(2,10) this e2(5) [symmetric]] and ki = keep_names [OF B(2,10) e2(6,1)]
  note kR' = keep_names [OF C(2,10) kR(2) e2(5) [symmetric]] and ki' = keep_names [OF C(2,10) ki(2) e2(1)]
  have len: "length (K2 s) = 2" using A(12) by (auto simp: names_at_def dir_names_def dest: list_all2_lengthD)
  have "tree_inv st3 K3" using B(2) by (simp add: fs_step_def)
  moreover obtain x y where "K2 s = [x, y]" using len by (auto simp: numeral_2_eq_2 length_Suc_conv)
  ultimately have "p \<noteq> s" "p \<in> live st3 K3" using entries_differ [of st3 K3 s "[x]" y p] B(4) by simp_all
  note kp = keep_names [OF C(2,10) this(2,1)]
  show thesis
  proof (rule that)
    show "kernel_initramfs stk st = Some st4" using A(1-3) B(1) C(1) by (simp add: kernel_initramfs_def)
    show "boot_layout st4 K4 i s p d"
      using C(2,4-7) B(4) len ki'(3) [OF ki(3) [OF A(7)]] kp(3) [OF B(7)] parent_okD(4) [OF fs_step_parent [OF fs_step_parent [OF par B(2)] C(2)]]
        kR'(4) [OF kR(4) [OF A(9) [folded R_def]]] A(10) ki'(4) [OF ki(4) [OF A(11)]] kp(4) [OF B(6)]
      by (simp add: boot_layout_def R4 kR'(1) kR(1) R_def [symmetric] fs_step_def)
    show "bumped st st4 2800"
      using bumped_trans [OF A(5) bumped_trans [of st2 st3 600 st4 600]] B(2) C(2) by (simp add: fs_step_def)
    show "has_room st4 k" "d \<noteq> 0" "vfs_walk find_dispatch st4 (fs_root st4) [bytes_of ''sys'', bytes_of ''device''] = Some d"
      using C(3,8,9) boot_paths(4) by simp_all
  qed
qed

text \<open>The paths of the layout.\<close>

lemma boot_layout_paths:
  assumes "boot_layout st K i s p d"
  shows "vfs_walk find_dispatch st (fs_root st) [bytes_of ''initrd''] = Some i" "vfs_walk find_dispatch st (fs_root st) [bytes_of ''sys''] = Some s"
    "vfs_walk find_dispatch st (fs_root st) [bytes_of ''sys'', bytes_of ''proc''] = Some p"
    "vfs_walk find_dispatch st (fs_root st) [bytes_of ''sys'', bytes_of ''device''] = Some d"
proof -
  note B = assms [unfolded boot_layout_def]
  have inv: "tree_inv st K" and s: "is_dir st s" using B by simp_all
  have len: "length (K (fs_root st)) = 4" "length (K s) = 4" using B by (auto simp: names_at_def dir_names_def dest: list_all2_lengthD)
  have two: "length xs = 4 \<Longrightarrow> drop 2 xs = [a, b] \<Longrightarrow> xs ! 2 = a \<and> xs ! 3 = b" for xs :: "u32 list" and a b
    using nth_drop [of 2 xs 0] nth_drop [of 2 xs 1] by simp
  have ix: "K (fs_root st) ! 2 = i" "K (fs_root st) ! 3 = s" "K s ! 2 = p" "K s ! 3 = d"
    using B len two [of "K (fs_root st)" i s] two [of "K s" p d] by blast+
  have root: "is_dir st (fs_root st)" using tree_invD(2,3) [OF inv] by simp
  define fs gs where "fs = dir_names @ [bytes_of ''initrd'', bytes_of ''sys'']" and "gs = dir_names @ [bytes_of ''proc'', bytes_of ''device'']"
  have fgs: "distinct fs" "length fs = 4" "list_all (\<lambda>s. 0 \<notin> set s \<and> length s < 2 ^ 32) fs"
    "distinct gs" "length gs = 4" "list_all (\<lambda>s. 0 \<notin> set s \<and> length s < 2 ^ 32) gs" by (simp_all add: fs_def gs_def dir_names_def bytes_of_def)
  have nms: "names_at st (K (fs_root st)) fs" "names_at st (K s) gs" using B by (simp_all add: fs_def gs_def)
  have w: "vfs_walk find_dispatch st (fs_root st) ([] @ [fs ! j]) = Some (K (fs_root st) ! j)" if "j < 4" for j
    by (rule walk_entry [OF inv _ tree_invD(7) [OF inv] root nms(1) fgs(1) _ names_cstr [OF fgs(3)]]) (simp_all add: fgs(2) that)
  have sys: "vfs_walk find_dispatch st (fs_root st) [bytes_of ''sys''] = Some s" using w [of 3] ix by (simp add: fs_def dir_names_def)
  show "vfs_walk find_dispatch st (fs_root st) [bytes_of ''initrd''] = Some i" using w [of 2] ix by (simp add: fs_def dir_names_def)
  show "vfs_walk find_dispatch st (fs_root st) [bytes_of ''sys''] = Some s" by (rule sys)
  have live: "s \<in> live st K" by (rule liveI [where p = "fs_root st"]) (use ix len nth_mem [of 3 "K (fs_root st)"] in simp)
  have v: "vfs_walk find_dispatch st (fs_root st) ([bytes_of ''sys''] @ [gs ! j]) = Some (K s ! j)" if "j < 4" for j
    by (rule walk_entry [OF inv sys live s nms(2) fgs(4) _ names_cstr [OF fgs(6)]]) (simp_all add: fgs(5) that)
  show "vfs_walk find_dispatch st (fs_root st) [bytes_of ''sys'', bytes_of ''proc''] = Some p"
    "vfs_walk find_dispatch st (fs_root st) [bytes_of ''sys'', bytes_of ''device''] = Some d"
    using v [of 2] v [of 3] ix by (simp_all add: gs_def dir_names_def)
qed

end
