(* ===== verification/Coresys_Initrd.thy ===== *)
theory Coresys_Initrd
  imports Coresys_Boot
begin

text \<open>
  The loader of the initial RAM disk builds in the file system what the image describes. The image
  is a tree of files and directories; the headers of a directory's entries follow the header of the
  directory. The loader fills a new directory before it links it into its parent, so the proof
  looks at the state with the pending links in place.
\<close>

section \<open>Images\<close>

datatype inode = IFile "u8 list" "u8 list" | IDir "u8 list" "inode list" | IOther

text \<open>A header at address \<open>e\<close> of an image of \<open>len\<close> bytes at \<open>base\<close>.\<close>

definition header_in :: "u32 \<Rightarrow> nat \<Rightarrow> u32 \<Rightarrow> bool" where
  "header_in base len e \<longleftrightarrow> unat (e - base) + 152 \<le> len"

definition header_named :: "bytes \<Rightarrow> u32 \<Rightarrow> u8 list \<Rightarrow> bool" where
  "header_named m e f \<longleftrightarrow> is_cstr (i_name (initrd_file_at m e)) f \<and> length f < 128"

definition data_in :: "bytes \<Rightarrow> u32 \<Rightarrow> nat \<Rightarrow> u32 \<Rightarrow> u8 list \<Rightarrow> bool" where
  "data_in m base len off xs \<longleftrightarrow> unat off + length xs \<le> len \<and> (\<forall>j<length xs. m (base + off + of_nat j) = xs ! j)"

text \<open>The entries from address \<open>e\<close> on; the entries of a directory start where its next sibling starts.\<close>

fun imaged :: "bytes \<Rightarrow> u32 \<Rightarrow> nat \<Rightarrow> u32 \<Rightarrow> inode list \<Rightarrow> bool" where
  "imaged m base len e [] \<longleftrightarrow> True"
| "imaged m base len e (IFile f xs # ts) \<longleftrightarrow> header_in base len e \<and> header_named m e f \<and>
     i_type (initrd_file_at m e) = INITRD_FTYPE_REGULAR \<and> i_length (initrd_file_at m e) = of_nat (length xs) \<and>
     data_in m base len (i_start_file_off (initrd_file_at m e)) xs \<and> imaged m base len (e + 152) ts"
| "imaged m base len e (IDir f ds # ts) \<longleftrightarrow> header_in base len e \<and> header_named m e f \<and>
     i_type (initrd_file_at m e) = INITRD_FTYPE_DIR \<and> i_dir_nfiles (initrd_file_at m e) = of_nat (length ds) \<and>
     length ds < 2 ^ 32 \<and> imaged m base len (e + 152) ds \<and> imaged m base len (e + 152) ts"
| "imaged m base len e (IOther # ts) \<longleftrightarrow> header_in base len e \<and>
     i_type (initrd_file_at m e) \<notin> {INITRD_FTYPE_REGULAR, INITRD_FTYPE_DIR} \<and> imaged m base len (e + 152) ts"

text \<open>The memory that loading takes from the heap.\<close>

fun isize :: "inode list \<Rightarrow> nat" where
  "isize [] = 0"
| "isize (IFile f xs # ts) = 200 + unat (round_up (of_nat (length xs))) + isize ts"
| "isize (IDir f ds # ts) = 600 + isize ds + isize ts"
| "isize (IOther # ts) = isize ts"

lemma unat_add_le: "unat (x + y :: u32) \<le> unat x + unat y"
  by (simp add: unat_word_ariths)

lemma region_bytes:
  assumes "\<forall>i<len. m' (base + of_nat i) = m (base + of_nat i)" and "unat (a - base) < len"
  shows "m' a = m a"
proof -
  have "m' (base + of_nat (unat (a - base))) = m (base + of_nat (unat (a - base)))" using assms by blast
  then show ?thesis by simp
qed

lemma header_byte:
  assumes "header_in base len e" and "i < 152"
  shows "unat (e + i - base) < len"
proof -
  have "e + i - base = (e - base) + i" by simp
  then have "unat (e + i - base) \<le> unat (e - base) + unat i" by (simp only:) (rule unat_add_le)
  moreover have "unat i < 152" using assms(2) by (simp add: word_less_nat_alt)
  ultimately show ?thesis using assms(1) by (simp add: header_in_def)
qed

lemma header_same:
  assumes eq: "\<forall>i<len. m' (base + of_nat i) = m (base + of_nat i)" and h: "header_in base len e"
  shows "i_type (initrd_file_at m' e) = i_type (initrd_file_at m e)" "i_length (initrd_file_at m' e) = i_length (initrd_file_at m e)"
    "i_dir_nfiles (initrd_file_at m' e) = i_dir_nfiles (initrd_file_at m e)"
    "i_start_file_off (initrd_file_at m' e) = i_start_file_off (initrd_file_at m e)"
    "header_named m' e f = header_named m e f"
proof -
  have b: "m' (e + i) = m (e + i)" if "i < 152" for i using region_bytes [OF eq header_byte [OF h that]] .
  have w: "load32 m' (e + i) = load32 m (e + i)" if "i < 149" for i
  proof -
    have "unat i < 149" using that by (simp add: word_less_nat_alt)
    then have "i + 1 < 152" "i + 2 < 152" "i + 3 < 152" "i < 152" by (simp_all add: word_less_nat_alt unat_word_ariths)
    then show ?thesis using b [of i] b [of "i + 1"] b [of "i + 2"] b [of "i + 3"] by (simp add: load32_def add.assoc)
  qed
  show "i_type (initrd_file_at m' e) = i_type (initrd_file_at m e)" "i_length (initrd_file_at m' e) = i_length (initrd_file_at m e)"
    "i_dir_nfiles (initrd_file_at m' e) = i_dir_nfiles (initrd_file_at m e)"
    "i_start_file_off (initrd_file_at m' e) = i_start_file_off (initrd_file_at m e)"
    using w [of 132] w [of 144] w [of 136] w [of 140] by (simp_all add: initrd_file_at_def)
  have "m' (e + of_nat k) = m (e + of_nat k)" if "k \<le> length f" "length f < 128" for k
    using that by (intro b) (simp add: word_less_nat_alt unat_of_nat take_bit_nat_eq_self)
  then show "header_named m' e f = header_named m e f"
    by (auto simp: header_named_def initrd_file_at_def cstr_at_iff_nth view_def)
qed

lemma data_same:
  assumes eq: "\<forall>i<len. m' (base + of_nat i) = m (base + of_nat i)"
  shows "data_in m' base len off xs = data_in m base len off xs"
proof -
  have "m' (base + off + of_nat j) = m (base + off + of_nat j)" if "unat off + length xs \<le> len" "j < length xs" for j
  proof (rule region_bytes [OF eq])
    have "base + off + of_nat j - base = off + of_nat j" by simp
    moreover have "unat (of_nat j :: u32) \<le> j" by (simp add: unat_of_nat)
    ultimately show "unat (base + off + of_nat j - base) < len" using unat_add_le [of off "of_nat j"] that by simp
  qed
  then show ?thesis by (auto simp: data_in_def)
qed

lemma image_same:
  assumes eq: "\<forall>i<len. m' (base + of_nat i) = m (base + of_nat i)"
  shows "imaged m' base len e ts = imaged m base len e ts"
proof (induction ts arbitrary: e rule: isize.induct)
  case (2 f xs ts)
  then show ?case using header_same [OF eq, of e] data_same [OF eq] by auto
next
  case (3 f ds ts)
  then show ?case using header_same [OF eq, of e] by auto
next
  case (4 ts)
  then show ?case using header_same(1) [OF eq, of e] by auto
qed simp

section \<open>Loading one node\<close>

lemma room_bumped: "bumped st st' b \<Longrightarrow> room st (b + c) \<Longrightarrow> room st' c"
  by (simp add: room_def bumped_def)

lemma image_untouched:
  assumes "heap_ok st" and "off_heap st base len" and "unat (a - base) < len"
  shows "untouched st a"
  using off_heap_untouched [of st base len "a - base"] assms by (simp add: heap_ok_def)

lemma image_bumped:
  assumes "heap_ok st" and "off_heap st base len" and "bumped st st' b"
  shows "\<forall>i<len. mem st' (base + of_nat i) = mem st (base + of_nat i)"
proof (intro allI impI)
  fix i assume "i < len"
  moreover have "unat (of_nat i :: u32) \<le> i" by (simp add: unat_of_nat)
  ultimately have "untouched st (base + of_nat i)" by (intro image_untouched [OF assms(1,2)]) simp
  then show "mem st' (base + of_nat i) = mem st (base + of_nat i)" using assms(3) by (simp add: bumped_def)
qed

text \<open>Allocating the block of a file and copying its data from the image.\<close>

lemma alloc_data:
  assumes h: "heap_ok st" and oh: "off_heap st base len" and d: "data_in (mem st) base len off xs"
    and rm: "room st (unat (round_up (of_nat (length xs))))" and c: "c = CurrentPointer (heap st)"
    and k: "kmalloc (heap_magic st) (mem st) (heap st) (of_nat (length xs)) = (p, m, h')"
    and st': "st' = st\<lparr>mem := memcpy m c (base + off) (of_nat (length xs)), heap := h'\<rparr>"
    and pos: "unat (HeapMem (heap st)) + 200 \<le> unat c"
  shows "p = c" and "c \<noteq> 0" and "bumped st st' (unat (round_up (of_nat (length xs))))"
    and "\<forall>j<length xs. mem st' (c + of_nat j) = xs ! j" and "unat c + length xs \<le> unat (CurrentPointer (heap st'))"
    and "untouched st a \<Longrightarrow> m a = mem st a" and "length xs < 2 ^ 32"
proof -
  define L R where "L = (of_nat (length xs) :: u32)" and "R = round_up L"
  have E: "unat c + unat R \<le> unat (HeapMem (heap st)) + unat (HeapMemSize (heap st))"
    "unat (HeapMem (heap st)) + unat (HeapMemSize (heap st)) + 207 \<le> 2 ^ 32"
    using rm h by (simp_all add: room_def heap_ok_def c R_def L_def)
  have xs: "length xs + 3 < 2 ^ 32"
    using oh d pos E by (auto simp: off_heap_def data_in_def)
  then have L: "unat L = length xs" by (simp add: L_def unat_of_nat take_bit_nat_eq_self)
  have up: "unat L \<le> unat R" unfolding R_def using xs L by (intro round_up_bounds) simp
  have hi: "heap_inv (heap st)" and req: "request_ok (heap st) L" using h up E by (simp_all add: heap_ok_def request_ok_def c)
  note K = kmalloc_result [OF hi req k [folded L_def], folded R_def c]
  have c0: "c \<noteq> 0" using hi by (auto simp: heap_inv_def c)
  show pc: "p = c" using K(2,4) E c0 by auto
  then have h': "h' = (heap st)\<lparr>CurrentPointer := c + R\<rparr>" using K(4) c0 by auto
  have uR: "unat (c + R) = unat c + unat R" using E by (intro unat_add_no_wrap) simp
  have m: "m a = mem st a" if "untouched st a" for a
    unfolding K(1) c using E that by (intro store_guard_untouched [OF hi]) (simp_all add: c)
  have far: "\<not> in_region a c L" if "untouched st a" for a
    using that untouched_block [of st a L] up E by (simp add: c)
  have src: "untouched st (base + off + i)" if "i < L" for i
  proof (rule image_untouched [OF h oh])
    have "base + off + i - base = off + i" by simp
    then show "unat (base + off + i - base) < len"
      using unat_add_le [of off i] that d L by (simp add: data_in_def word_less_nat_alt)
  qed
  have dis: "disjoint c L (base + off) L"
    unfolding disjoint_def
  proof (intro allI notI, elim conjE)
    fix a assume "in_region a c L" "in_region a (base + off) L"
    then show False using src [of "a - (base + off)"] far [of a] by (simp add: in_region_def)
  qed
  have mem': "mem st' a = mem st a" if "untouched st a" for a
    using m [OF that] memcpy_frame [OF far [OF that]] by (simp add: st' L_def)
  show "c \<noteq> 0" by (rule c0)
  show "untouched st a \<Longrightarrow> m a = mem st a" by (rule m)
  show "length xs < 2 ^ 32" using xs by simp
  show "bumped st st' (unat (round_up (of_nat (length xs))))"
    using mem' uR h' by (simp add: bumped_def st' L_def [symmetric] R_def [symmetric] c [symmetric])
  show "unat c + length xs \<le> unat (CurrentPointer (heap st'))" using up uR L h' by (simp add: st')
  show "\<forall>j<length xs. mem st' (c + of_nat j) = xs ! j"
  proof (intro allI impI)
    fix j assume j: "j < length xs"
    then have jL: "of_nat j < L" using xs L by (simp add: word_less_nat_alt unat_of_nat take_bit_nat_eq_self)
    then have "mem st' (c + of_nat j) = m (base + off + of_nat j)"
      by (simp add: st' L_def [symmetric] memcpy_apply [OF dis])
    then show "mem st' (c + of_nat j) = xs ! j" using m [OF src [OF jL]] d j by (simp add: data_in_def)
  qed
qed

text \<open>A regular file with its name and its contents in the used part of the heap.\<close>

definition file_node :: "ramfs \<Rightarrow> ramfs_file_header \<Rightarrow> u8 list \<Rightarrow> u8 list \<Rightarrow> bool" where
  "file_node st n f xs \<longleftrightarrow> ftype n = FTYPE_REGULAR \<and> read_cb n = Some Cb_ramfs_read \<and> write_cb n = Some Cb_ramfs_write \<and>
     find_cb n = None \<and> children n = 0 \<and> is_cstr (name n) f \<and> length f < 128 \<and> flength n = of_nat (length xs) \<and>
     length xs < 2 ^ 32 \<and> (\<forall>j<length xs. mem st (filePtr n + of_nat j) = xs ! j) \<and>
     HeapMem (heap st) \<le> filePtr n \<and> unat (filePtr n) + length xs \<le> unat (CurrentPointer (heap st))"

lemma allocNode_base: "ramfs_allocNode st = (p, st1) \<Longrightarrow> initrd_base st1 = initrd_base st"
  by (auto simp: ramfs_allocNode_def split: if_splits prod.splits)

lemma LoadInitrdRegFile_ok:
  assumes h: "heap_ok st" and oh: "off_heap st base len" and e: "header_in base len e" "header_named (mem st) e f"
    and l: "i_length (initrd_file_at (mem st) e) = of_nat (length xs)"
    and d: "data_in (mem st) base len (i_start_file_off (initrd_file_at (mem st) e)) xs" and b: "initrd_base st = base"
    and rm: "room st (200 + unat (round_up (of_nat (length xs))))" and p: "p = CurrentPointer (heap st)"
  obtains st' n where "LoadInitrdRegFile st e = Some (p, st')" "nodes st' = (nodes st)(p \<mapsto> n)" "p \<noteq> 0"
    "bumped st st' (200 + unat (round_up (of_nat (length xs))))" "fs_root st' = fs_root st" "initrd_base st' = base"
    "next_node n = 0" "file_node st' n f xs"
proof -
  define L where "L = (of_nat (length xs) :: u32)"
  have room1: "has_room st 1" using rm by (rule room_has_room) simp
  obtain st1 where st1: "ramfs_allocNode st = (p, st1)" "grown st zero_node st1" "last_ino st1 = last_ino st"
    using ramfs_allocNode_ok [OF h room1] unfolding p .
  have b1: "bumped st st1 200" by (rule bumped_grown [OF h room1 st1(2)])
  have same: "\<forall>i<len. mem st1 (base + of_nat i) = mem st (base + of_nat i)" by (rule image_bumped [OF h oh b1])
  note S = header_same [OF same e(1)]
  have d1: "data_in (mem st1) base len (i_start_file_off (initrd_file_at (mem st) e)) xs"
    using d data_same [OF same] by simp
  define n where "n = zero_node\<lparr>open_cb := Some Cb_ramfs_open, close_cb := Some Cb_ramfs_close, read_cb := Some Cb_ramfs_read,
    write_cb := Some Cb_ramfs_write, flength := L, ino := last_ino st, name := strncpy_to (\<lambda>_. 0) (i_name (initrd_file_at (mem st1) e)) MAX_FNAME,
    ftype := FTYPE_REGULAR\<rparr>"
  define st3 where "st3 = st1\<lparr>last_ino := last_ino st + 1, nodes := (nodes st)(p \<mapsto> n)\<rparr>"
  have g: "nodes st1 = (nodes st)(p \<mapsto> zero_node)" using st1(2) by (simp add: grown_def p)
  obtain q m h' where k: "kmalloc (heap_magic st3) (mem st3) (heap st3) L = (q, m, h')" by (metis surj_pair)
  define c where "c = CurrentPointer (heap st3)"
  define st' where "st' = st3\<lparr>mem := memcpy m c (base + i_start_file_off (initrd_file_at (mem st) e)) L, heap := h'\<rparr>"
  have h3: "heap_ok st3" "off_heap st3 base len" "room st3 (unat (round_up L))"
    using heap_ok_bumped [OF b1 h] room_bumped [OF b1 rm] off_heap_bumped [OF b1 oh] rm
    by (simp_all add: st3_def heap_ok_def off_heap_def room_def L_def)
  have pos: "unat (HeapMem (heap st3)) + 200 \<le> unat c"
    using b1 h by (simp add: c_def st3_def bumped_def heap_ok_def heap_inv_def word_le_nat_alt)
  have d3: "data_in (mem st3) base len (i_start_file_off (initrd_file_at (mem st) e)) xs" using d1 by (simp add: st3_def)
  note A = alloc_data [OF h3(1,2) d3 h3(3) [unfolded L_def] c_def k [unfolded L_def] _ pos, of st', folded L_def, OF st'_def]
  have "\<forall>i<len. m (base + of_nat i) = mem st1 (base + of_nat i)"
  proof (intro allI impI)
    fix i assume "i < len"
    moreover have "unat (of_nat i :: u32) \<le> i" by (simp add: unat_of_nat)
    ultimately have "untouched st3 (base + of_nat i)" by (intro image_untouched [OF h3(1,2)]) simp
    then show "m (base + of_nat i) = mem st1 (base + of_nat i)" using A(6) by (simp add: st3_def)
  qed
  note T = header_same [OF this e(1)]
  define st4 where "st4 = st'\<lparr>nodes := (nodes st)(p \<mapsto> n\<lparr>filePtr := c\<rparr>)\<rparr>"
  have b3: "bumped st st3 200" using b1 by (simp add: bumped_def st3_def)
  have "LoadInitrdRegFile st e = Some (p, st4)"
  proof -
    have p0: "p \<noteq> 0" using h by (auto simp: p heap_ok_def heap_inv_def)
    show ?thesis
      using st1(1,3) p0 g k A(1,2) T S l b allocNode_base [OF st1(1)]
      by (simp add: LoadInitrdRegFile_def UINT32_INITRD_ORDER_def fs_new_ino_id_def assign_def deref_def Let_def L_def [symmetric]
          st4_def st'_def st3_def n_def zero_node_def)
  qed
  moreover have "bumped st st4 (200 + unat (round_up L))"
    using bumped_trans [OF b3 A(3)] by (simp add: bumped_def st4_def)
  moreover have "is_cstr (i_name (initrd_file_at (mem st1) e)) f" "length f < 128" using S(5) [of f] e(2) by (simp_all add: header_named_def)
  then have "file_node st4 (n\<lparr>filePtr := c\<rparr>) f xs"
    using A(3,4,5,7) pos strncpy_to_cstr [of "i_name (initrd_file_at (mem st1) e)" f MAX_FNAME]
    by (simp add: file_node_def st4_def n_def zero_node_def MAX_FNAME_def L_def bumped_def word_le_nat_alt)
  moreover have "p \<noteq> 0" "next_node (n\<lparr>filePtr := c\<rparr>) = 0" using h by (auto simp: p heap_ok_def heap_inv_def n_def zero_node_def)
  moreover have "nodes st4 = (nodes st)(p \<mapsto> n\<lparr>filePtr := c\<rparr>)" "fs_root st4 = fs_root st" "initrd_base st4 = base"
    using st1(2) b allocNode_base [OF st1(1)] by (simp_all add: st4_def st'_def st3_def grown_def)
  ultimately show thesis using that by (simp add: L_def)
qed

lemma LoadInitrdDir_ok:
  assumes h: "heap_ok st" and oh: "off_heap st base len" and e: "header_in base len e" "header_named (mem st) e f"
    and rm: "room st 600" and p: "p = CurrentPointer (heap st)"
  obtains st1 st' nm q r where "LoadInitrdDirFile st e = Some (p, st1)" "LoadInitrdFiles_links st1 d p = Some (Inr r, st')"
    "nodes st' = dir_triple st nm d p q r" "is_cstr nm f" "p \<noteq> 0" "unat q = unat p + 200" "unat r = unat p + 400"
    "placed st' p" "placed st' q" "placed st' r" "bumped st st' 600" "fs_root st' = fs_root st" "initrd_base st' = initrd_base st"
proof -
  have room1: "has_room st 1" using rm by (rule room_has_room) simp
  obtain st0 where st0: "ramfs_allocNode st = (p, st0)" "grown st zero_node st0" "last_ino st0 = last_ino st"
    using ramfs_allocNode_ok [OF h room1] unfolding p .
  have "\<forall>i<len. mem st0 (base + of_nat i) = mem st (base + of_nat i)" by (rule image_bumped [OF h oh bumped_grown [OF h room1 st0(2)]])
  note S = header_same(5) [OF this e(1), of f]
  define nm where "nm = i_name (initrd_file_at (mem st0) e)"
  define nd where "nd = dir_node nm (last_ino st)"
  define st1 where "st1 = st0\<lparr>last_ino := last_ino st + 1, nodes := (nodes st)(p \<mapsto> nd)\<rparr>"
  have g: "nodes st0 = (nodes st)(p \<mapsto> zero_node)" using st0(2) by (simp add: grown_def p)
  have p0: "p \<noteq> 0" using h by (auto simp: p heap_ok_def heap_inv_def)
  have D: "LoadInitrdDirFile st e = Some (p, st1)"
    using st0(1,3) g p0 by (simp add: LoadInitrdDirFile_def fs_new_ino_id_def assign_def deref_def Let_def st1_def nd_def nm_def dir_node_def zero_node_def)
  have g1: "grown st nd st1" using st0(2) by (simp add: grown_def st1_def p)
  note b1 = bumped_grown [OF h room1 g1]
  have h1: "heap_ok st1" by (rule heap_ok_bumped [OF b1 h]) (use rm in \<open>simp add: room_def\<close>)
  have rm1: "room st1 400" using room_bumped [OF b1, of 400] rm by simp
  then have room2: "has_room st1 1" by (rule room_has_room) simp
  define q where "q = CurrentPointer (heap st1)"
  obtain st2 st3 where Q: "ramfs_allocNode st1 = (q, st2)" "fs_get_simlink (cstr ''.'') p q st2 = Some st3"
    "grown st1 (link_node (cstr ''.'') (last_ino st1) p) st3" "last_ino st3 = last_ino st1 + 1" "q \<noteq> 0"
    by (rule alloc_link_heap [OF h1 room2 q_def])
  note b2 = bumped_grown [OF h1 room2 Q(3)]
  have h3: "heap_ok st3" by (rule heap_ok_bumped [OF b2 h1]) (use rm1 in \<open>simp add: room_def\<close>)
  have rm3: "room st3 200" using room_bumped [OF b2, of 200] rm1 by simp
  then have room3: "has_room st3 1" by (rule room_has_room) simp
  define r where "r = CurrentPointer (heap st3)"
  obtain st4 st5 where R: "ramfs_allocNode st3 = (r, st4)" "fs_get_simlink (cstr ''..'') d r st4 = Some st5"
    "grown st3 (link_node (cstr ''..'') (last_ino st3) d) st5" "last_ino st5 = last_ino st3 + 1" "r \<noteq> 0"
    by (rule alloc_link_heap [OF h3 room3 r_def])
  note b3 = bumped_grown [OF h3 room3 R(3)]
  have lt: "unat q = unat p + 200" "unat r = unat p + 400" using b1 b2 by (simp_all add: p q_def r_def bumped_def)
  then have dist: "p \<noteq> q" "p \<noteq> r" "q \<noteq> r" by auto
  have ns: "nodes st5 = (nodes st)(p \<mapsto> nd, q \<mapsto> link_node (cstr ''.'') (last_ino st + 1) p, r \<mapsto> link_node (cstr ''..'') (last_ino st + 2) d)"
    using g1 Q(3,4) R(3) by (simp add: grown_def p q_def r_def st1_def add.assoc)
  define st' where "st' = st5\<lparr>nodes := dir_triple st nm d p q r\<rparr>"
  have L: "LoadInitrdFiles_links st1 d p = Some (Inr r, st')"
  proof -
    have 1: "deref st1 p = Some nd" "children nd = 0" by (simp_all add: st1_def deref_def nd_def dir_node_def zero_node_def)
    have 2: "(nodes st)(p \<mapsto> nd\<lparr>children := q\<rparr>, q \<mapsto> (link_node (cstr ''.'') (last_ino st + 1) p)\<lparr>next_node := r\<rparr>,
        r \<mapsto> (link_node (cstr ''..'') (last_ino st + 2) d)\<lparr>next_node := 0\<rparr>) = dir_triple st nm d p q r"
      by (simp add: dir_triple_def nd_def link_node_def zero_node_def)
    show ?thesis
      using 1 Q(1,2,5) R(1,2,5) dist
      by (simp add: LoadInitrdFiles_links_def assign_def [of p] assign_def [of q] assign_def [of r] deref_def ns st'_def fun_upd_twist
          2 [symmetric])
  qed
  have b: "bumped st st' 600"
    using bumped_trans [OF bumped_trans [OF b1 b2] b3] by (simp add: bumped_def st'_def)
  have pl: "placed st' p" "placed st' q" "placed st' r"
    using b b1 b2 b3 h by (auto simp: placed_def p q_def r_def bumped_def st'_def heap_ok_def heap_inv_def word_le_nat_alt)
  have cs: "is_cstr nm f" using S e(2) by (simp add: header_named_def nm_def)
  have rest: "fs_root st' = fs_root st" using g1 Q(3) R(3) by (simp add: grown_def st'_def)
  have base: "initrd_base st' = initrd_base st"
    using allocNode_base [OF st0(1)] allocNode_base [OF Q(1)] allocNode_base [OF R(1)] Q(2) R(2)
    by (auto simp: st'_def st1_def fs_get_simlink_def fs_new_ino_id_def split: option.splits)
  show thesis by (rule that [OF D L _ cs p0 lt pl b rest base]) (simp add: st'_def)
qed

lemma fresh_block:
  assumes "tree_inv st K" and "p = CurrentPointer (heap st)" and "room st b" and "unat p \<le> unat x" and "unat x < unat p + b"
  shows "x \<notin> live st K"
proof
  assume "x \<in> live st K"
  then have "placed st x" using tree_invD(4) [OF assms(1)] by (simp add: live_ok_def)
  then show False
    using assms(2-5) tree_invD(1) [OF assms(1)] by (auto simp: placed_def heap_ok_def heap_inv_def room_def word_less_nat_alt word_le_nat_alt)
qed

section \<open>Pending links\<close>

text \<open>The state with the links of \<open>P\<close> in place.\<close>

definition plug :: "(u32 \<rightharpoonup> u32) \<Rightarrow> ramfs \<Rightarrow> ramfs" where
  "plug P st = st\<lparr>nodes := (\<lambda>a. case P a of None \<Rightarrow> nodes st a | Some b \<Rightarrow> map_option (\<lambda>n. n\<lparr>next_node := b\<rparr>) (nodes st a))\<rparr>"

lemma plug_simps [simp]: "heap (plug P st) = heap st" "mem (plug P st) = mem st" "root_obj (plug P st) = root_obj st"
  "fs_root (plug P st) = fs_root st" "last_ino (plug P st) = last_ino st" "initrd_base (plug P st) = initrd_base st" "plug Map.empty st = st"
  by (simp_all add: plug_def)

lemma plug_same [simp]: "bumped (plug P st) (plug P' st') b = bumped st st' b" "room (plug P st) b = room st b" "heap_ok (plug P st) = heap_ok st"
  "off_heap (plug P st) base len = off_heap st base len" "placed (plug P st) x = placed st x"
  by (simp_all add: bumped_def untouched_def room_def heap_ok_def off_heap_def placed_def)

lemma nodes_plug: "P a = None \<Longrightarrow> nodes (plug P st) a = nodes st a"
  by (simp add: plug_def)

lemma nodes_plug_cong: "nodes st' a = nodes st a \<Longrightarrow> nodes (plug P st') a = nodes (plug P st) a"
  by (cases "P a") (simp_all add: plug_def)

lemma nodes_plug_upd:
  assumes "P a = None" and "nodes st' = (nodes st)(a \<mapsto> n)"
  shows "nodes (plug P st') = (nodes (plug P st))(a \<mapsto> n)"
proof
  fix x
  show "nodes (plug P st') x = ((nodes (plug P st))(a \<mapsto> n)) x"
    using assms nodes_plug_cong [of st' x st P] by (cases "x = a") (simp_all add: nodes_plug)
qed

lemma nodes_plug_triple:
  assumes "P p = None" "P q = None" "P r = None" and "nodes st' = dir_triple st nm d p q r"
  shows "nodes (plug P st') = dir_triple (plug P st) nm d p q r"
proof
  fix x
  show "nodes (plug P st') x = dir_triple (plug P st) nm d p q r x"
    using assms nodes_plug_cong [of st' x st P] by (cases "x \<in> {p, q, r}") (auto simp: nodes_plug dir_triple_def)
qed

text \<open>A pending link, and the same link set in the node.\<close>

lemma plug_pending:
  assumes "P l = None" and "nodes st l = Some nl"
  shows "plug (P(l \<mapsto> p)) st = (plug P st)\<lparr>nodes := (nodes (plug P st))(l \<mapsto> nl\<lparr>next_node := p\<rparr>)\<rparr>"
    and "plug P (st\<lparr>nodes := (nodes st)(l \<mapsto> nl\<lparr>next_node := p\<rparr>)\<rparr>) = plug (P(l \<mapsto> p)) st"
proof -
  have "nodes (plug (P(l \<mapsto> p)) st) x = ((nodes (plug P st))(l \<mapsto> nl\<lparr>next_node := p\<rparr>)) x" for x
    using assms by (cases "x = l") (simp_all add: plug_def)
  then have n: "nodes (plug (P(l \<mapsto> p)) st) = (nodes (plug P st))(l \<mapsto> nl\<lparr>next_node := p\<rparr>)" by (rule ext)
  show "plug (P(l \<mapsto> p)) st = (plug P st)\<lparr>nodes := (nodes (plug P st))(l \<mapsto> nl\<lparr>next_node := p\<rparr>)\<rparr>"
    unfolding n [symmetric] by (simp add: plug_def)
  define st' where "st' = st\<lparr>nodes := (nodes st)(l \<mapsto> nl\<lparr>next_node := p\<rparr>)\<rparr>"
  have "nodes (plug P st') = nodes (plug (P(l \<mapsto> p)) st)"
    unfolding n by (rule nodes_plug_upd) (simp_all add: st'_def assms(1))
  then show "plug P (st\<lparr>nodes := (nodes st)(l \<mapsto> nl\<lparr>next_node := p\<rparr>)\<rparr>) = plug (P(l \<mapsto> p)) st"
    unfolding st'_def [symmetric] by (simp add: plug_def) (simp add: st'_def)
qed

section \<open>Loaded trees\<close>

text \<open>The nodes \<open>ps\<close> hold the entries \<open>ts\<close>.\<close>

fun loaded :: "ramfs \<Rightarrow> (u32 \<Rightarrow> u32 list) \<Rightarrow> u32 list \<Rightarrow> inode list \<Rightarrow> bool" where
  "loaded st K ps [] \<longleftrightarrow> ps = []"
| "loaded st K ps (IFile f xs # ts) \<longleftrightarrow>
     ps \<noteq> [] \<and> (\<exists>n. nodes st (hd ps) = Some n \<and> file_node st n f xs) \<and> loaded st K (tl ps) ts"
| "loaded st K ps (IDir f ds # ts) \<longleftrightarrow>
     ps \<noteq> [] \<and> named st (hd ps) f \<and> is_dir st (hd ps) \<and> names_at st (take 2 (K (hd ps))) dir_names \<and>
     loaded st K (drop 2 (K (hd ps))) ds \<and> loaded st K (tl ps) ts"
| "loaded st K ps (IOther # ts) \<longleftrightarrow> loaded st K ps ts"

lemma file_node_step:
  assumes "file_node st n f xs" and "bumped st st' b"
  shows "file_node st' (n\<lparr>next_node := x\<rparr>) f xs"
proof -
  have "mem st' (filePtr n + of_nat j) = mem st (filePtr n + of_nat j)" if "j < length xs" for j
  proof -
    have "unat (of_nat j :: u32) \<le> j" by (simp add: unat_of_nat)
    then have "unat (filePtr n + of_nat j) < unat (CurrentPointer (heap st))"
      using unat_add_le [of "filePtr n" "of_nat j"] that assms(1) by (simp add: file_node_def)
    then show ?thesis using assms(2) by (simp add: bumped_def untouched_def word_less_nat_alt)
  qed
  moreover have "unat (CurrentPointer (heap st)) \<le> unat (CurrentPointer (heap st'))" "HeapMem (heap st') = HeapMem (heap st)"
    using assms(2) by (simp_all add: bumped_def)
  ultimately show ?thesis using assms(1) by (auto simp: file_node_def)
qed

text \<open>Later steps in a directory \<open>d\<close> keep what hangs below other entries.\<close>

lemma loaded_step:
  assumes inv: "tree_inv st K" and step: "fs_step st K st' K' b" and same: "\<forall>x\<in>live st K. x \<noteq> d \<longrightarrow> K' x = K x"
    and "loaded st K ps ts" and "\<forall>x\<in>set ps. x \<in> live st K \<and> x \<noteq> root_obj st \<and> (d = root_obj st \<or> d < x)"
  shows "loaded st' K' ps ts"
  using assms(4,5)
proof (induction ts arbitrary: ps rule: isize.induct)
  case (2 f xs ts)
  then have "hd ps \<in> live st K" by simp
  then obtain ys n x where "nodes st (hd ps) = Some n" "nodes st' (hd ps) = Some (n\<lparr>next_node := x\<rparr>)"
    using step by (auto simp: fs_step_def elim!: extendsE)
  moreover have "loaded st' K' (tl ps) ts" using 2 by (intro "2.IH") (auto dest: list.set_sel(2))
  ultimately show ?case using 2 step file_node_step by (auto simp: fs_step_def)
next
  case (3 f ds ts)
  define p where "p = hd ps"
  have p: "p \<in> live st K" "p \<noteq> root_obj st" "d = root_obj st \<or> d < p" and L: "loaded st K (drop 2 (K p)) ds" "named st p f" "is_dir st p"
    "names_at st (take 2 (K p)) dir_names" using 3 by (auto simp: p_def)
  have ext: "extends st K st' K'" using step by (simp add: fs_step_def)
  have Kp: "K' p = K p" using same p by auto
  have "x \<in> live st K \<and> x \<noteq> root_obj st \<and> (d = root_obj st \<or> d < x)" if "x \<in> set (drop 2 (K p))" for x
  proof -
    have x: "x \<in> set (K p)" using that by (rule in_set_dropD)
    then have "x \<noteq> root_obj st" "p < x" using tree_invD(9) [OF inv] p(2) by (auto simp: ordered_def)
    then show ?thesis using p(3) liveI [of x K p] x by auto
  qed
  then have "loaded st' K' (drop 2 (K p)) ds" by (intro "3.IH"(1) [OF L(1)]) blast
  moreover have "names_at st' (take 2 (K p)) dir_names"
    using L(4) unfolding names_at_def
    by (rule list.rel_mono_strong) (meson in_set_takeD liveI named_extends [OF ext])
  moreover have "loaded st' K' (tl ps) ts" using 3 by (intro "3.IH"(2)) (auto dest: list.set_sel(2))
  ultimately show ?case using 3(3) named_extends [OF ext p(1) L(2)] is_dir_extends [OF ext p(1) L(3)] by (simp add: p_def [symmetric] Kp)
qed simp_all

section \<open>The loop\<close>

text \<open>
  The loop over the entries of the directory \<open>d\<close>: its entries start with the two links, \<open>prev\<close> is the
  last one behind them, and none of them waits for its successor.
\<close>

definition loading :: "(u32 \<rightharpoonup> u32) \<Rightarrow> ramfs \<Rightarrow> (u32 \<Rightarrow> u32 list) \<Rightarrow> u32 \<Rightarrow> u32 \<Rightarrow> u32 \<Rightarrow> u32 \<Rightarrow> nat \<Rightarrow> bool" where
  "loading P st K d lnk prev base len \<longleftrightarrow> tree_inv (plug P st) K \<and> d \<in> live (plug P st) K \<and> is_dir (plug P st) d \<and>
     (\<exists>q ks. K d = q # lnk # ks \<and> (ks \<noteq> [] \<longrightarrow> prev = last ks)) \<and> (\<forall>x\<in>set (K d). P x = None) \<and>
     dom P \<subseteq> live (plug P st) K \<and> initrd_base st = base \<and> off_heap st base len"

lemma loadingD:
  assumes "loading P st K d lnk prev base len"
  shows "tree_inv (plug P st) K" "d \<in> live (plug P st) K" "is_dir (plug P st) d" "x \<in> set (K d) \<Longrightarrow> P x = None"
    "x \<notin> live (plug P st) K \<Longrightarrow> P x = None" "initrd_base st = base" "off_heap st base len" "heap_ok st"
    "last (K d) \<in> set (K d)" "P (last (K d)) = None"
proof -
  show "tree_inv (plug P st) K" "d \<in> live (plug P st) K" "is_dir (plug P st) d" "x \<in> set (K d) \<Longrightarrow> P x = None"
    "x \<notin> live (plug P st) K \<Longrightarrow> P x = None" "initrd_base st = base" "off_heap st base len"
    using assms by (auto simp: loading_def)
  then show "heap_ok st" using tree_invD(1) plug_same(3) by blast
  show "last (K d) \<in> set (K d)" using assms by (auto simp: loading_def)
  then show "P (last (K d)) = None" using assms by (auto simp: loading_def)
qed

lemma loading_append:
  assumes l: "loading P st K d lnk prev base len" and same: "\<forall>x\<in>set (K d). nodes st1 x = nodes st x"
  obtains nl where "nodes st (last (K d)) = Some nl" "nodes st1 (last (K d)) = Some nl"
    "LoadInitrd_append st1 lnk prev p = Some (st1\<lparr>nodes := (nodes st1)(last (K d) \<mapsto> nl\<lparr>next_node := p\<rparr>)\<rparr>)"
proof -
  note D = loadingD [OF l]
  obtain q ks where K: "K d = q # lnk # ks" "ks \<noteq> [] \<longrightarrow> prev = last ks" using l by (auto simp: loading_def)
  obtain n where n: "nodes (plug P st) d = Some n" "entry_ok (plug P st) K d n" using live_node [OF D(1,2)] .
  then have ch: "chain (nodes (plug P st)) (children n) (q # lnk # ks)" using D(3) by (simp add: entry_ok_def is_dir_def K)
  have nd: "nodes (plug P st) x = nodes st1 x" if "x \<in> set (K d)" for x using nodes_plug [of P x st] D(4) [OF that] same that by simp
  obtain m where m: "nodes st1 lnk = Some m" "chain (nodes (plug P st)) (next_node m) ks"
    using ch nd [of lnk] by (auto simp: K split: option.splits)
  have "last (K d) \<in> live (plug P st) K" using D(9) by (rule liveI)
  then obtain nl where nl: "nodes (plug P st) (last (K d)) = Some nl" using live_node [OF D(1)] by metis
  then have nl1: "nodes st1 (last (K d)) = Some nl" "nodes st (last (K d)) = Some nl" using nd D(9) same by auto
  have "LoadInitrd_append st1 lnk prev p = Some (st1\<lparr>nodes := (nodes st1)(last (K d) \<mapsto> nl\<lparr>next_node := p\<rparr>)\<rparr>)"
  proof (cases ks)
    case Nil
    then show ?thesis using m nl1 K by (simp add: LoadInitrd_append_def deref_def assign_def)
  next
    case (Cons k js)
    then have "next_node m \<noteq> 0" using m(2) by simp
    then show ?thesis using m(1) nl1 K Cons by (simp add: LoadInitrd_append_def deref_def assign_def)
  qed
  then show thesis using that nl1 by blast
qed

lemma loading_next:
  assumes l: "loading P st K d lnk prev base len" and inv: "tree_inv (plug P st') K'" "live (plug P st) K \<subseteq> live (plug P st') K'"
    "is_dir (plug P st') d" and K': "K' d = K d @ [p]" "P p = None" and rest: "initrd_base st' = base" "off_heap st' base len"
  shows "loading P st' K' d lnk p base len"
proof -
  obtain q ks where K: "K d = q # lnk # ks" using l by (auto simp: loading_def)
  then have "\<exists>q ks. K' d = q # lnk # ks \<and> (ks \<noteq> [] \<longrightarrow> p = last ks)" using K'(1) by simp
  moreover have "dom P \<subseteq> live (plug P st') K'" "d \<in> live (plug P st') K'" using l inv(2) by (auto simp: loading_def)
  moreover have "\<forall>x\<in>set (K' d). P x = None" using loadingD(4) [OF l] K' by auto
  ultimately show ?thesis using inv(1,3) rest by (simp add: loading_def)
qed

lemma load_file_step:
  assumes l: "loading P st K d lnk prev base len" and im: "imaged (mem st) base len e (IFile f xs # ts)"
    and b: "b = 200 + unat (round_up (of_nat (length xs)))" and rm: "room st b" and p: "p = CurrentPointer (heap st)"
  obtains st1 st2 where "LoadInitrdRegFile st e = Some (p, st1)" "LoadInitrd_append st1 lnk prev p = Some st2"
    "loading P st2 (K(d := K d @ [p])) d lnk p base len" "fs_step (plug P st) K (plug P st2) (K(d := K d @ [p])) b"
    "\<exists>n. nodes (plug P st2) p = Some n \<and> file_node (plug P st2) n f xs"
    "\<forall>x\<in>live (plug P st) K. x \<notin> set (K d) \<longrightarrow> nodes st2 x = nodes st x"
proof -
  note D = loadingD [OF l]
  obtain st1 n where A: "LoadInitrdRegFile st e = Some (p, st1)" "nodes st1 = (nodes st)(p \<mapsto> n)" "p \<noteq> 0"
    "bumped st st1 b" "fs_root st1 = fs_root st" "initrd_base st1 = base" "next_node n = 0" "file_node st1 n f xs"
    using LoadInitrdRegFile_ok [OF D(8,7) _ _ _ _ D(6) rm [unfolded b] p, of e f] im unfolding b by auto
  have room': "room (plug P st) b" using rm by simp
  have pl: "p \<notin> live (plug P st) K" using fresh_block [OF D(1) _ room', of p p] by (simp add: p b)
  then have Pp: "P p = None" by (rule D(5))
  have pn: "\<forall>x\<in>set (K d). nodes st1 x = nodes st x" using pl liveI [of _ K d] by (auto simp: A(2))
  obtain nl where B: "nodes st (last (K d)) = Some nl" "nodes st1 (last (K d)) = Some nl"
    "LoadInitrd_append st1 lnk prev p = Some (st1\<lparr>nodes := (nodes st1)(last (K d) \<mapsto> nl\<lparr>next_node := p\<rparr>)\<rparr>)"
    by (rule loading_append [OF l pn])
  define st2 where "st2 = st1\<lparr>nodes := (nodes st1)(last (K d) \<mapsto> nl\<lparr>next_node := p\<rparr>)\<rparr>"
  have P2: "plug P st2 = (plug P st1)\<lparr>nodes := (nodes (plug P st1))(last (K d) \<mapsto> nl\<lparr>next_node := p\<rparr>)\<rparr>"
    using plug_pending [of P "last (K d)" st1 nl p] D(10) B(2) by (simp add: st2_def)
  have fn: "ftype n = FTYPE_REGULAR" "find_cb n = None" "children n = 0" using A(8) by (simp_all add: file_node_def)
  have nl': "nodes (plug P st) (last (K d)) = Some nl" using B(1) nodes_plug [of P "last (K d)" st] D(10) by simp
  have b': "bumped (plug P st) (plug P st1) b" "200 \<le> b" "fs_root (plug P st1) = fs_root (plug P st)" using A(4,5) b by simp_all
  note C = link_file [OF D(1-3) _ b'(1,2) room' nodes_plug_upd [of P p st1 st n, OF Pp A(2)] b'(3) fn A(7) nl' P2] 
  have C1: "fs_step (plug P st) K (plug P st2) (K(d := K d @ [p])) b" "nodes (plug P st2) p = Some n" using C p by (simp_all add: fs_step_def)
  have fl: "file_node (plug P st2) n f xs" using A(8) by (simp add: file_node_def st2_def)
  have "loading P st2 (K(d := K d @ [p])) d lnk p base len"
  proof -
    have e: "tree_inv (plug P st2) (K(d := K d @ [p]))" and ext: "extends (plug P st) K (plug P st2) (K(d := K d @ [p]))"
      using C1(1) by (simp_all add: fs_step_def)
    have "live (plug P st) K \<subseteq> live (plug P st2) (K(d := K d @ [p]))" using ext by (auto simp: extends_def)
    moreover have "is_dir (plug P st2) d" by (rule is_dir_extends [OF ext D(2,3)])
    moreover have "off_heap st2 base len" using off_heap_bumped [OF A(4) D(7)] by (simp add: st2_def off_heap_def)
    moreover have "initrd_base st2 = base" using A(6) by (simp add: st2_def)
    ultimately show ?thesis by (intro loading_next [OF l e]) (simp_all add: Pp)
  qed
  moreover have "\<forall>x\<in>live (plug P st) K. x \<notin> set (K d) \<longrightarrow> nodes st2 x = nodes st x"
    using D(9) pl by (auto simp: st2_def A(2))
  ultimately show thesis using that [OF A(1) B(3) [folded st2_def]] C1 fl by blast
qed

text \<open>Entering a new directory: the link from its parent is pending.\<close>

lemma load_dir_enter:
  assumes l: "loading P st K d lnk prev base len" and e: "header_in base len e" "header_named (mem st) e f"
    and rm: "room st 600" and p: "p = CurrentPointer (heap st)"
  obtains st1 st2 q r where "LoadInitrdDirFile st e = Some (p, st1)" "LoadInitrdFiles_links st1 d p = Some (Inr r, st2)"
    "loading (P(last (K d) \<mapsto> p)) st2 (K(d := K d @ [p], p := [q, r])) p r 0 base len"
    "fs_step (plug P st) K (plug (P(last (K d) \<mapsto> p)) st2) (K(d := K d @ [p], p := [q, r])) 600"
    "named (plug (P(last (K d) \<mapsto> p)) st2) p f" "names_at (plug (P(last (K d) \<mapsto> p)) st2) [q, r] dir_names"
    "\<forall>x\<in>live (plug P st) K. nodes st2 x = nodes st x" "{p, q, r} \<inter> live (plug P st) K = {}"
proof -
  note D = loadingD [OF l]
  obtain st1 st2 nm q r where A: "LoadInitrdDirFile st e = Some (p, st1)" "LoadInitrdFiles_links st1 d p = Some (Inr r, st2)"
    "nodes st2 = dir_triple st nm d p q r" "is_cstr nm f" "p \<noteq> 0" "unat q = unat p + 200" "unat r = unat p + 400"
    "placed st2 p" "placed st2 q" "placed st2 r" "bumped st st2 600" "fs_root st2 = fs_root st" "initrd_base st2 = initrd_base st"
    by (rule LoadInitrdDir_ok [OF D(8,7) e rm p])
  define P' K' where "P' = P(last (K d) \<mapsto> p)" and "K' = K(d := K d @ [p], p := [q, r])"
  have rm': "room (plug P st) 600" using rm by simp
  have fresh: "{p, q, r} \<inter> live (plug P st) K = {}"
    using fresh_block [OF D(1) _ rm'] A(6,7) p by auto
  then have Pn: "P p = None" "P q = None" "P r = None" using D(5) by auto
  have lt: "p < q" "q < r" using A(6,7) by (simp_all add: word_less_nat_alt)
  have same: "\<forall>x\<in>live (plug P st) K. nodes st2 x = nodes st x" using fresh by (auto simp: A(3) dir_triple_def)
  have ll: "last (K d) \<in> live (plug P st) K" using D(9) by (rule liveI)
  then obtain nl where nl: "nodes (plug P st) (last (K d)) = Some nl" using live_node [OF D(1)] by metis
  then have "nodes st (last (K d)) = Some nl" using nodes_plug [of P "last (K d)" st] D(10) by simp
  then have nl2: "nodes st2 (last (K d)) = Some nl" using same ll by simp
  have P2: "plug P' st2 = (plug P st2)\<lparr>nodes := (nodes (plug P st2))(last (K d) \<mapsto> nl\<lparr>next_node := p\<rparr>)\<rparr>"
    unfolding P'_def by (rule plug_pending(1)) (use D(10) nl2 in simp_all)
  have b: "bumped (plug P st) (plug P st2) 600" "fs_root (plug P st2) = fs_root (plug P st)" using A(11,12) by simp_all
  have pl: "placed (plug P st2) p" "placed (plug P st2) q" "placed (plug P st2) r" using A(8-10) by simp_all
  have pp: "p = CurrentPointer (heap (plug P st))" using p by simp
  note C = link_dir [OF D(1-3) pp b(1) rm' nodes_plug_triple [OF Pn A(3)] b(2) lt fresh pl nl P2, folded K'_def]
  have len: "length f < 128" using e(2) by (simp add: header_named_def)
  have nm: "named (plug P' st2) p f" using C(5) A(4) len by blast
  have ext: "extends (plug P st) K (plug P' st2) K'" and inv': "tree_inv (plug P' st2) K'" using C(1,2) by simp_all
  then have fs: "fs_step (plug P st) K (plug P' st2) K' 600" using C(3) by (simp add: fs_step_def)
  have sub: "live (plug P st) K \<subseteq> live (plug P' st2) K'" using ext by (auto simp: extends_def)
  have dp: "d \<noteq> p" "last (K d) \<notin> {p, q, r}" using D(2) ll fresh by auto
  have "loading P' st2 K' p r 0 base len"
  proof -
    have "p \<in> live (plug P' st2) K'" using dp by (intro liveI [of p K' d]) (simp add: K'_def)
    moreover have "dom P' \<subseteq> live (plug P' st2) K'" using l sub ll by (auto simp: loading_def P'_def)
    moreover have "K' p = [q, r]" by (simp add: K'_def)
    moreover have "P' q = None" "P' r = None" using Pn dp by (auto simp: P'_def)
    ultimately show ?thesis using inv' C(4) off_heap_bumped [OF A(11) D(7)] A(13) D(6) by (simp add: loading_def)
  qed
  moreover have "names_at (plug P' st2) [q, r] dir_names" using C(6,7) by (simp add: names_at_def dir_names_def)
  ultimately show thesis using that [OF A(1,2)] fs nm same fresh by (simp add: P'_def K'_def)
qed

text \<open>Leaving it: the link from the parent is set.\<close>

lemma load_dir_leave:
  assumes l: "loading P st K d lnk prev base len" and inv: "tree_inv (plug (P(last (K d) \<mapsto> p)) st3) K3"
    and same: "\<forall>x\<in>set (K d). nodes st3 x = nodes st x" and K3: "K3 d = K d @ [p]" "live (plug P st) K \<subseteq> live (plug (P(last (K d) \<mapsto> p)) st3) K3"
    and dir: "is_dir (plug (P(last (K d) \<mapsto> p)) st3) d" and rest: "initrd_base st3 = base" "off_heap st3 base len" "p \<notin> live (plug P st) K"
  obtains st4 where "LoadInitrd_append st3 lnk prev p = Some st4" "plug P st4 = plug (P(last (K d) \<mapsto> p)) st3"
    "loading P st4 K3 d lnk p base len" "\<forall>x. x \<notin> set (K d) \<longrightarrow> nodes st4 x = nodes st3 x" "mem st4 = mem st3" "heap st4 = heap st3"
proof -
  note D = loadingD [OF l]
  obtain nl where B: "nodes st (last (K d)) = Some nl" "nodes st3 (last (K d)) = Some nl"
    "LoadInitrd_append st3 lnk prev p = Some (st3\<lparr>nodes := (nodes st3)(last (K d) \<mapsto> nl\<lparr>next_node := p\<rparr>)\<rparr>)"
    by (rule loading_append [OF l same])
  define st4 where "st4 = st3\<lparr>nodes := (nodes st3)(last (K d) \<mapsto> nl\<lparr>next_node := p\<rparr>)\<rparr>"
  have P4: "plug P st4 = plug (P(last (K d) \<mapsto> p)) st3"
    unfolding st4_def by (rule plug_pending(2)) (use D(10) B(2) in simp_all)
  have "off_heap st4 base len" "initrd_base st4 = base" using rest by (simp_all add: off_heap_def st4_def)
  then have "loading P st4 K3 d lnk p base len"
    using inv dir K3 D(5) [OF rest(3)] by (intro loading_next [OF l]) (simp_all only: P4)
  then show thesis using that [OF B(3) [folded st4_def] P4] D(9) by (auto simp: st4_def)
qed

text \<open>What the loop over the entries \<open>ts\<close> does.\<close>

definition load_done ::
  "(u32 \<rightharpoonup> u32) \<Rightarrow> ramfs \<Rightarrow> (u32 \<Rightarrow> u32 list) \<Rightarrow> u32 \<Rightarrow> inode list \<Rightarrow> ramfs \<Rightarrow> (u32 \<Rightarrow> u32 list) \<Rightarrow> bool" where
  "load_done P st K d ts st' K' \<longleftrightarrow> fs_step (plug P st) K (plug P st') K' (isize ts) \<and>
     (\<exists>ps. K' d = K d @ ps \<and> loaded (plug P st') K' ps ts) \<and> (\<forall>x\<in>live (plug P st) K. x \<noteq> d \<longrightarrow> K' x = K x) \<and>
     (\<forall>x\<in>live (plug P st) K. x \<notin> set (K d) \<longrightarrow> nodes st' x = nodes st x) \<and> initrd_base st' = initrd_base st"

lemma load_done_Nil: "tree_inv (plug P st) K \<Longrightarrow> load_done P st K d [] st K"
  using extends_refl by (simp add: load_done_def fs_step_def bumped_def)

text \<open>One entry, the node \<open>p\<close>, and the rest.\<close>

lemma load_done_Cons:
  assumes inv: "tree_inv (plug P st) K"
    and one: "fs_step (plug P st) K (plug P st1) K1 b" "K1 d = K d @ [p]" "loaded (plug P st1) K1 [p] [t]"
      "\<forall>x\<in>live (plug P st) K. x \<noteq> d \<longrightarrow> K1 x = K x" "\<forall>x\<in>live (plug P st) K. x \<notin> set (K d) \<longrightarrow> nodes st1 x = nodes st x"
      "initrd_base st1 = initrd_base st" "p \<notin> live (plug P st) K"
    and rest: "load_done P st1 K1 d ts st' K'" and t: "t \<noteq> IOther" "isize (t # ts) = b + isize ts"
  shows "load_done P st K d (t # ts) st' K'"
proof -
  have s1: "fs_step (plug P st1) K1 (plug P st') K' (isize ts)" and R: "\<forall>x\<in>live (plug P st1) K1. x \<noteq> d \<longrightarrow> K' x = K1 x"
    "\<forall>x\<in>live (plug P st1) K1. x \<notin> set (K1 d) \<longrightarrow> nodes st' x = nodes st1 x" "initrd_base st' = initrd_base st1"
    using rest by (simp_all add: load_done_def)
  obtain ps where ps: "K' d = K1 d @ ps" "loaded (plug P st') K' ps ts" using rest by (auto simp: load_done_def)
  have inv1: "tree_inv (plug P st1) K1" and sub: "live (plug P st) K \<subseteq> live (plug P st1) K1"
    using one(1) by (auto simp: fs_step_def extends_def)
  have "p \<in> set (K1 d)" by (simp add: one(2))
  then have "p \<in> live (plug P st1) K1 \<and> p \<noteq> root_obj (plug P st1) \<and> (d = root_obj (plug P st1) \<or> d < p)"
    using tree_invD(9) [OF inv1] liveI [of p K1 d] by (auto simp: ordered_def)
  then have "loaded (plug P st') K' [p] [t]" by (intro loaded_step [OF inv1 s1 R(1) one(3)]) simp
  then have "loaded (plug P st') K' (p # ps) (t # ts)" using ps(2) t(1) by (cases t) simp_all
  then have "\<exists>ps. K' d = K d @ ps \<and> loaded (plug P st') K' ps (t # ts)" using ps(1) one(2) by (intro exI [of _ "p # ps"]) simp
  moreover have "\<forall>x\<in>live (plug P st) K. x \<noteq> d \<longrightarrow> K' x = K x" using R(1) one(4) sub by auto
  moreover have "nodes st' x = nodes st x" if "x \<in> live (plug P st) K" "x \<notin> set (K d)" for x
  proof -
    have "x \<noteq> p" using that(1) one(7) by auto
    then have "nodes st' x = nodes st1 x" using that R(2) one(2) sub by auto
    then show ?thesis using that one(5) by simp
  qed
  ultimately show ?thesis using fs_step_trans [OF one(1) s1] R(3) one(6) t(2) by (simp add: load_done_def)
qed

text \<open>One round of the loop, by the type of the entry.\<close>

lemma loop_round:
  assumes "unat (i_dir_nfiles (initrd_file_at (mem st) a)) = k + Suc n" and "c = a + 152 + of_nat k * 152"
  shows "i_type (initrd_file_at (mem st) c) = INITRD_FTYPE_REGULAR \<Longrightarrow> LoadInitrdRegFile st c = Some (p, st1) \<Longrightarrow>
      LoadInitrd_append st1 lnk prev p = Some st2 \<Longrightarrow>
      LoadInitrdFiles_loop st d a lnk prev (of_nat k) = LoadInitrdFiles_loop st2 d a lnk p (of_nat (Suc k))"
    and "i_type (initrd_file_at (mem st) c) = INITRD_FTYPE_DIR \<Longrightarrow> LoadInitrdDirFile st c = Some (p, st1) \<Longrightarrow>
      LoadInitrdFiles_links st1 d p = Some (Inr r, st2) \<Longrightarrow> LoadInitrdFiles_loop st2 p c r 0 0 = Some (VFS_T_OK, st3) \<Longrightarrow>
      LoadInitrd_append st3 lnk prev p = Some st4 \<Longrightarrow>
      LoadInitrdFiles_loop st d a lnk prev (of_nat k) = LoadInitrdFiles_loop st4 d a lnk p (of_nat (Suc k))"
    and "i_type (initrd_file_at (mem st) c) \<notin> {INITRD_FTYPE_REGULAR, INITRD_FTYPE_DIR} \<Longrightarrow>
      LoadInitrdFiles_loop st d a lnk prev (of_nat k) = LoadInitrdFiles_loop st d a lnk prev (of_nat (Suc k))"
proof -
  have "k < 2 ^ 32" using assms(1) unat_lt2p [of "i_dir_nfiles (initrd_file_at (mem st) a)"] by simp
  then have lt: "of_nat k < i_dir_nfiles (initrd_file_at (mem st) a)"
    using assms(1) by (simp add: word_less_nat_alt unat_of_nat take_bit_nat_eq_self)
  have c: "a + 152 + of_nat k * 152 = c" "of_nat k + 1 = (of_nat (Suc k) :: u32)" using assms(2) by simp_all
  note sz = sizeof_initrd_file_header_def UINT32_INITRD_ORDER_def INITRD_FTYPE_REGULAR_def INITRD_FTYPE_DIR_def
  show "i_type (initrd_file_at (mem st) c) = INITRD_FTYPE_REGULAR \<Longrightarrow> LoadInitrdRegFile st c = Some (p, st1) \<Longrightarrow>
      LoadInitrd_append st1 lnk prev p = Some st2 \<Longrightarrow>
      LoadInitrdFiles_loop st d a lnk prev (of_nat k) = LoadInitrdFiles_loop st2 d a lnk p (of_nat (Suc k))"
    using lt by (subst LoadInitrdFiles_loop.simps) (simp add: sz c del: of_nat_Suc)
  show "i_type (initrd_file_at (mem st) c) = INITRD_FTYPE_DIR \<Longrightarrow> LoadInitrdDirFile st c = Some (p, st1) \<Longrightarrow>
      LoadInitrdFiles_links st1 d p = Some (Inr r, st2) \<Longrightarrow> LoadInitrdFiles_loop st2 p c r 0 0 = Some (VFS_T_OK, st3) \<Longrightarrow>
      LoadInitrd_append st3 lnk prev p = Some st4 \<Longrightarrow>
      LoadInitrdFiles_loop st d a lnk prev (of_nat k) = LoadInitrdFiles_loop st4 d a lnk p (of_nat (Suc k))"
    using lt by (subst LoadInitrdFiles_loop.simps) (simp add: sz c del: of_nat_Suc)
  show "i_type (initrd_file_at (mem st) c) \<notin> {INITRD_FTYPE_REGULAR, INITRD_FTYPE_DIR} \<Longrightarrow>
      LoadInitrdFiles_loop st d a lnk prev (of_nat k) = LoadInitrdFiles_loop st d a lnk prev (of_nat (Suc k))"
    using lt by (subst LoadInitrdFiles_loop.simps) (simp add: sz c del: of_nat_Suc)
qed

text \<open>The image is as before after a step.\<close>

lemma image_step:
  assumes "heap_ok st" and "off_heap st base len" and "bumped st st' b" and "header_in base len a"
    and "unat (i_dir_nfiles (initrd_file_at (mem st) a)) = n" and "imaged (mem st) base len e ts"
  shows "unat (i_dir_nfiles (initrd_file_at (mem st') a)) = n" and "imaged (mem st') base len e ts"
  using header_same(3) [OF image_bumped [OF assms(1-3)] assms(4)] image_same [OF image_bumped [OF assms(1-3)]] assms(5,6) by simp_all

lemma fs_step_plug: "fs_step (plug P st) K (plug P' st') K' b \<Longrightarrow> bumped st st' b"
  by (simp add: fs_step_def)

text \<open>A directory whose entries are loaded is one more entry of its parent.\<close>

lemma load_dir_done:
  assumes l: "loading P st K d lnk prev base len" and P1: "P1 = P(last (K d) \<mapsto> p)" and K1: "K1 = K(d := K d @ [p], p := [q, r])"
    and l2: "loading P1 st2 K1 p r 0 base len" and s2: "fs_step (plug P st) K (plug P1 st2) K1 600"
    and nm: "named (plug P1 st2) p f" "names_at (plug P1 st2) [q, r] dir_names"
    and same: "\<forall>x\<in>live (plug P st) K. nodes st2 x = nodes st x" and fresh: "{p, q, r} \<inter> live (plug P st) K = {}"
    and R: "load_done P1 st2 K1 p ds st3 K3"
  obtains st4 where "LoadInitrd_append st3 lnk prev p = Some st4" "loading P st4 K3 d lnk p base len"
    "fs_step (plug P st) K (plug P st4) K3 (600 + isize ds)" "K3 d = K d @ [p]" "loaded (plug P st4) K3 [p] [IDir f ds]"
    "\<forall>x\<in>live (plug P st) K. x \<noteq> d \<longrightarrow> K3 x = K x" "\<forall>x\<in>live (plug P st) K. x \<notin> set (K d) \<longrightarrow> nodes st4 x = nodes st x"
    "initrd_base st4 = initrd_base st"
proof -
  note D = loadingD [OF l] and D2 = loadingD [OF l2]
  have s3: "fs_step (plug P1 st2) K1 (plug P1 st3) K3 (isize ds)" and K3: "\<forall>x\<in>live (plug P1 st2) K1. x \<noteq> p \<longrightarrow> K3 x = K1 x"
    and n3: "\<forall>x\<in>live (plug P1 st2) K1. x \<notin> {q, r} \<longrightarrow> nodes st3 x = nodes st2 x" and base3: "initrd_base st3 = base"
    using R D2(6) by (simp_all add: load_done_def K1)
  obtain ps where ps: "K3 p = [q, r] @ ps" "loaded (plug P1 st3) K3 ps ds" using R by (auto simp: load_done_def K1)
  have e2: "extends (plug P st) K (plug P1 st2) K1" and e3: "extends (plug P1 st2) K1 (plug P1 st3) K3" and inv3: "tree_inv (plug P1 st3) K3"
    using s2 s3 by (simp_all add: fs_step_def)
  have sub: "live (plug P st) K \<subseteq> live (plug P1 st2) K1" "live (plug P1 st2) K1 \<subseteq> live (plug P1 st3) K3"
    using e2 e3 by (auto simp: extends_def)
  have dp: "d \<noteq> p" using D(2) fresh by auto
  have Kd: "K3 d = K d @ [p]" using K3 sub(1) D(2) dp by (auto simp: K1)
  have x3: "nodes st3 x = nodes st x" if "x \<in> live (plug P st) K" for x
  proof -
    have "x \<notin> {q, r}" using that fresh by auto
    then show ?thesis using that n3 same sub(1) by auto
  qed
  have Kd3: "\<forall>x\<in>set (K d). nodes st3 x = nodes st x" using x3 liveI [of _ K d] by blast
  have dir3: "is_dir (plug P1 st3) d" by (rule is_dir_extends [OF e3 _ is_dir_extends [OF e2 D(2,3)]]) (use sub(1) D(2) in auto)
  have oh3: "off_heap st3 base len" by (rule off_heap_bumped [OF fs_step_plug [OF s3] D2(7)])
  have pl: "p \<notin> live (plug P st) K" using fresh by auto
  obtain st4 where A: "LoadInitrd_append st3 lnk prev p = Some st4" "plug P st4 = plug P1 st3" "loading P st4 K3 d lnk p base len"
    "\<forall>x. x \<notin> set (K d) \<longrightarrow> nodes st4 x = nodes st3 x" "mem st4 = mem st3" "heap st4 = heap st3"
    using load_dir_leave [OF l inv3 [unfolded P1] Kd3 Kd _ _ base3 oh3 pl] sub dir3 unfolding P1 by blast
  have "names_at (plug P1 st3) [q, r] dir_names" using names_at_extends [OF e3, of p] nm(2) by (simp add: K1)
  then have "loaded (plug P st4) K3 [p] [IDir f ds]"
    using ps named_extends [OF e3 D2(2) nm(1)] is_dir_extends [OF e3 D2(2,3)] by (simp add: A(2))
  moreover have "\<forall>x\<in>live (plug P st) K. x \<noteq> d \<longrightarrow> K3 x = K x"
  proof (intro ballI impI)
    fix x assume x: "x \<in> live (plug P st) K" "x \<noteq> d"
    then have "x \<noteq> p" using pl by auto
    then show "K3 x = K x" using x K3 sub(1) by (auto simp: K1)
  qed
  moreover have "\<forall>x\<in>live (plug P st) K. x \<notin> set (K d) \<longrightarrow> nodes st4 x = nodes st x" using A(4) x3 by simp
  moreover have "fs_step (plug P st) K (plug P st4) K3 (600 + isize ds)" using fs_step_trans [OF s2 s3] by (simp add: A(2))
  ultimately show thesis using that [OF A(1,3)] Kd loadingD(6) [OF A(3)] D(6) by simp
qed

lemma load_loop:
  assumes "loading P st K d lnk prev base len" and "imaged (mem st) base len (a + 152 + of_nat k * 152) ts" and "header_in base len a"
    and "unat (i_dir_nfiles (initrd_file_at (mem st) a)) = k + length ts" and "room st (isize ts)"
  shows "\<exists>st' K'. LoadInitrdFiles_loop st d a lnk prev (of_nat k) = Some (VFS_T_OK, st') \<and> load_done P st K d ts st' K'"
  using assms
proof (induction ts arbitrary: P st K d lnk prev a k rule: isize.induct)
  case 1
  then have "unat (of_nat k :: u32) = k" using unat_lt2p [of "i_dir_nfiles (initrd_file_at (mem st) a)"]
    by (simp add: unat_of_nat take_bit_nat_eq_self)
  then have "LoadInitrdFiles_loop st d a lnk prev (of_nat k) = Some (VFS_T_OK, st)"
    using 1 by (subst LoadInitrdFiles_loop.simps) (simp add: UINT32_INITRD_ORDER_def word_less_nat_alt)
  then show ?case using load_done_Nil [OF loadingD(1) [OF "1.prems"(1)]] by blast
next
  case (2 f xs ts)
  define c where "c = a + 152 + of_nat k * 152"
  define b p where "b = 200 + unat (round_up (of_nat (length xs)))" and "p = CurrentPointer (heap st)"
  note D = loadingD [OF "2.prems"(1)]
  have c': "a + 152 + of_nat (Suc k) * 152 = c + 152" by (simp add: c_def algebra_simps)
  have im: "imaged (mem st) base len c (IFile f xs # ts)" and n: "unat (i_dir_nfiles (initrd_file_at (mem st) a)) = k + Suc (length ts)"
    and rm: "room st (b + isize ts)" using "2.prems"(2,4,5) by (simp_all add: c_def b_def)
  have rb: "room st b" using rm by (simp add: room_def)
  obtain st1 st2 where A: "LoadInitrdRegFile st c = Some (p, st1)" "LoadInitrd_append st1 lnk prev p = Some st2"
    "loading P st2 (K(d := K d @ [p])) d lnk p base len" "fs_step (plug P st) K (plug P st2) (K(d := K d @ [p])) b"
    "\<exists>n. nodes (plug P st2) p = Some n \<and> file_node (plug P st2) n f xs"
    "\<forall>x\<in>live (plug P st) K. x \<notin> set (K d) \<longrightarrow> nodes st2 x = nodes st x"
    by (rule load_file_step [OF "2.prems"(1) im b_def rb p_def])
  note bm = fs_step_plug [OF A(4)]
  have "unat (i_dir_nfiles (initrd_file_at (mem st2) a)) = Suc k + length ts" "imaged (mem st2) base len (a + 152 + of_nat (Suc k) * 152) ts"
    using image_step [OF D(8,7) bm "2.prems"(3) n, of "c + 152" ts] im unfolding c' by simp_all
  then obtain st' K' where R: "LoadInitrdFiles_loop st2 d a lnk p (of_nat (Suc k)) = Some (VFS_T_OK, st')"
    "load_done P st2 (K(d := K d @ [p])) d ts st' K'"
    using "2.IH" [OF A(3) _ "2.prems"(3)] room_bumped [OF bm rm] by blast
  have "p \<notin> live (plug P st) K" using fresh_block [OF D(1), of p b p] rb by (simp add: p_def b_def)
  then have "load_done P st K d (IFile f xs # ts) st' K'"
    using A(5,6) loadingD(6) [OF A(3)] D(6) by (intro load_done_Cons [OF D(1) A(4) _ _ _ _ _ _ R(2)]) (simp_all add: b_def)
  then show ?case using loop_round(1) [OF n c_def _ A(1,2)] R(1) im by auto
next
  case (3 f ds ts)
  define c p where "c = a + 152 + of_nat k * 152" and "p = CurrentPointer (heap st)"
  note D = loadingD [OF "3.prems"(1)]
  have c': "a + 152 + of_nat (Suc k) * 152 = c + 152" by (simp add: c_def algebra_simps)
  have im: "imaged (mem st) base len c (IDir f ds # ts)" and n: "unat (i_dir_nfiles (initrd_file_at (mem st) a)) = k + Suc (length ts)"
    and rm: "room st (600 + (isize ds + isize ts))" using "3.prems"(2,4,5) by (simp_all add: c_def add.assoc)
  have nc: "unat (i_dir_nfiles (initrd_file_at (mem st) c)) = length ds" and hc: "header_in base len c" "header_named (mem st) c f"
    using im by (simp_all add: unat_of_nat take_bit_nat_eq_self)
  have rb: "room st 600" using rm by (simp add: room_def)
  define P1 where "P1 = P(last (K d) \<mapsto> p)"
  obtain st1 st2 q r where A: "LoadInitrdDirFile st c = Some (p, st1)" "LoadInitrdFiles_links st1 d p = Some (Inr r, st2)"
    "loading P1 st2 (K(d := K d @ [p], p := [q, r])) p r 0 base len"
    "fs_step (plug P st) K (plug P1 st2) (K(d := K d @ [p], p := [q, r])) 600"
    "named (plug P1 st2) p f" "names_at (plug P1 st2) [q, r] dir_names"
    "\<forall>x\<in>live (plug P st) K. nodes st2 x = nodes st x" "{p, q, r} \<inter> live (plug P st) K = {}"
    unfolding P1_def by (rule load_dir_enter [OF "3.prems"(1) hc rb p_def])
  define K1 where "K1 = K(d := K d @ [p], p := [q, r])"
  note bm = fs_step_plug [OF A(4)] and D1 = loadingD [OF A(3), folded K1_def]
  have rm2: "room st2 (isize ds + isize ts)" by (rule room_bumped [OF bm rm])
  note I2 = image_step [OF D(8,7) bm "3.prems"(3) n, of "c + 152" ts] image_step [OF D(8,7) bm hc(1) nc, of "c + 152" ds]
  obtain st3 K3 where R: "LoadInitrdFiles_loop st2 p c r 0 0 = Some (VFS_T_OK, st3)" "load_done P1 st2 K1 p ds st3 K3"
    using "3.IH"(1) [OF A(3) [folded K1_def] _ hc(1), of 0] I2(3,4) im rm2 by (auto simp: room_def)
  obtain st4 where B: "LoadInitrd_append st3 lnk prev p = Some st4" "loading P st4 K3 d lnk p base len"
    "fs_step (plug P st) K (plug P st4) K3 (600 + isize ds)" "K3 d = K d @ [p]" "loaded (plug P st4) K3 [p] [IDir f ds]"
    "\<forall>x\<in>live (plug P st) K. x \<noteq> d \<longrightarrow> K3 x = K x" "\<forall>x\<in>live (plug P st) K. x \<notin> set (K d) \<longrightarrow> nodes st4 x = nodes st x"
    "initrd_base st4 = initrd_base st"
    by (rule load_dir_done [OF "3.prems"(1) P1_def K1_def A(3,4) [folded K1_def] A(5-8) R(2)])
  note bm4 = fs_step_plug [OF B(3)]
  have "unat (i_dir_nfiles (initrd_file_at (mem st4) a)) = Suc k + length ts" "imaged (mem st4) base len (a + 152 + of_nat (Suc k) * 152) ts"
    using image_step [OF D(8,7) bm4 "3.prems"(3) n, of "c + 152" ts] im unfolding c' by simp_all
  then obtain st' K' where S: "LoadInitrdFiles_loop st4 d a lnk p (of_nat (Suc k)) = Some (VFS_T_OK, st')" "load_done P st4 K3 d ts st' K'"
    using "3.IH"(2) [OF B(2) _ "3.prems"(3)] room_bumped [OF bm4, of "isize ts"] rm [unfolded add.assoc [symmetric]] by blast
  have "load_done P st K d (IDir f ds # ts) st' K'"
    using A(8) by (intro load_done_Cons [OF D(1) B(3-8) _ S(2)]) simp_all
  then show ?case using loop_round(2) [OF n c_def _ A(1,2) R(1) B(1)] S(1) im by auto
next
  case (4 ts)
  define c where "c = a + 152 + of_nat k * 152"
  have c': "a + 152 + of_nat (Suc k) * 152 = c + 152" by (simp add: c_def algebra_simps)
  have n: "unat (i_dir_nfiles (initrd_file_at (mem st) a)) = k + Suc (length ts)" using "4.prems"(4) by simp
  have im: "imaged (mem st) base len c (IOther # ts)" using "4.prems"(2) by (simp add: c_def)
  then obtain st' K' where R: "LoadInitrdFiles_loop st d a lnk prev (of_nat (Suc k)) = Some (VFS_T_OK, st')" "load_done P st K d ts st' K'"
    using "4.IH" [OF "4.prems"(1), of a "Suc k"] "4.prems"(3,5) n unfolding c' by auto
  then have "load_done P st K d (IOther # ts) st' K'" by (simp add: load_done_def)
  then show ?case using loop_round(3) [OF n c_def] R(1) im by auto
qed

section \<open>The loader\<close>

text \<open>An image in memory: the magic number, and the header of its root directory behind the image header.\<close>

definition initrd_image :: "bytes \<Rightarrow> u32 \<Rightarrow> nat \<Rightarrow> inode list \<Rightarrow> bool" where
  "initrd_image m base len ts \<longleftrightarrow> load32 m base = INITRD_MAGIC \<and> header_in base len (base + 12) \<and> length ts < 2 ^ 32 \<and>
     i_dir_nfiles (initrd_file_at m (base + 12)) = of_nat (length ts) \<and> imaged m base len (base + 164) ts"

text \<open>
  The image is loaded into a directory that has no entry besides its two links.
\<close>

lemma ramfs_loadInitrd_ok:
  assumes par: "parent_ok st K path s d" and Kd: "K d = [q, r]" and im: "initrd_image (mem st) base len ts"
    and oh: "off_heap st base len" and rm: "room st (isize ts)"
  obtains st' K' ps where "ramfs_loadInitrd stk st base path = Some (VFS_T_OK, st')" "fs_step st K st' K' (isize ts)"
    "K' d = [q, r] @ ps" "loaded st' K' ps ts" "\<forall>x\<in>live st K. x \<noteq> d \<longrightarrow> K' x = K x"
proof -
  define st1 where "st1 = st\<lparr>initrd_base := base\<rparr>"
  note P = parent_okD [OF par]
  have inv1: "tree_inv st1 K"
    using tree_invD(1) [OF P(1)] by (intro tree_inv_cong [OF P(1)]) (simp_all add: st1_def heap_ok_def)
  have "vfs_walk find_dispatch st1 (fs_root st1) (tokens slash s) = Some d"
  proof -
    have "extends st K st1 K" using extends_refl [OF P(1)] by (simp add: extends_def st1_def live_def)
    then show ?thesis using walk_extends [OF P(1) inv1 _ tree_invD(7) [OF P(1)]] par by (simp add: parent_ok_def st1_def)
  qed
  then have par1: "parent_ok st1 K path s d" using par inv1 by (simp add: parent_ok_def is_dir_def st1_def)
  note P1 = parent_okD [OF par1]
  obtain n where n: "nodes st1 d = Some n" "entry_ok st1 K d n" using live_node [OF inv1 P1(3)] .
  then obtain nq nr where chn: "ftype n = FTYPE_DIRECTORY" "children n = q" "nodes st1 q = Some nq" "next_node nq = r" "nodes st1 r = Some nr"
    using P1(4) Kd by (auto simp: entry_ok_def is_dir_def split: option.splits)
  have l: "loading Map.empty st1 K d r 0 base len"
    using inv1 P1(3,4) Kd oh by (simp add: loading_def off_heap_def st1_def)
  have e: "base + 12 + 152 + of_nat 0 * 152 = base + 164" by simp
  have im1: "imaged (mem st1) base len (base + 12 + 152 + of_nat 0 * 152) ts" "unat (i_dir_nfiles (initrd_file_at (mem st1) (base + 12))) = 0 + length ts"
    "header_in base len (base + 12)" "room st1 (isize ts)"
    unfolding e using im rm by (simp_all add: initrd_image_def st1_def unat_of_nat take_bit_nat_eq_self room_def)
  obtain st' K' where R: "LoadInitrdFiles_loop st1 d (base + 12) r 0 (of_nat 0) = Some (VFS_T_OK, st')" "load_done Map.empty st1 K d ts st' K'"
    using load_loop [OF l im1(1,3,2,4)] by blast
  have "children n \<noteq> 0" using chn(2) P1(1) kids_nonzero [OF inv1, of d] Kd by auto
  then have res: "ramfs_loadInitrd stk st base path = Some (VFS_T_OK, st')"
    using im P1(2,7) n(1) chn R(1)
    by (simp add: ramfs_loadInitrd_def st1_def [symmetric] initrd_image_def UINT32_INITRD_ORDER_def deref_def LoadInitrdFiles_def
        LoadInitrdFiles_links_def sizeof_initrd_header_def)
  obtain ps where ps: "K' d = [q, r] @ ps" "loaded st' K' ps ts" using R(2) Kd by (auto simp: load_done_def)
  have "fs_step st1 K st' K' (isize ts)" "\<forall>x\<in>live st1 K. x \<noteq> d \<longrightarrow> K' x = K x" using R(2) by (simp_all add: load_done_def)
  then have "fs_step st K st' K' (isize ts)" "\<forall>x\<in>live st K. x \<noteq> d \<longrightarrow> K' x = K x"
    using live_cong [of st1 st K] by (simp_all add: fs_step_def st1_def extends_def bumped_def untouched_def)
  then show thesis using that [OF res] ps by blast
qed

section \<open>Paths into the image\<close>

fun iname :: "inode \<Rightarrow> u8 list" where
  "iname (IFile f xs) = f"
| "iname (IDir f ds) = f"
| "iname IOther = []"

definition entries :: "inode list \<Rightarrow> inode list" where
  "entries ts = filter (\<lambda>t. t \<noteq> IOther) ts"

definition entry_names :: "inode list \<Rightarrow> u8 list list" where
  "entry_names ts = dir_names @ map iname (entries ts)"

text \<open>The names in every directory are distinct, and no entry is called like a link.\<close>

fun names_distinct :: "inode list \<Rightarrow> bool" where
  "names_distinct [] \<longleftrightarrow> True"
| "names_distinct (IFile f xs # ts) \<longleftrightarrow> names_distinct ts"
| "names_distinct (IDir f ds # ts) \<longleftrightarrow> distinct (entry_names ds) \<and> names_distinct ds \<and> names_distinct ts"
| "names_distinct (IOther # ts) \<longleftrightarrow> names_distinct ts"

text \<open>The entry of the image under a path.\<close>

fun img_walk :: "inode list \<Rightarrow> u8 list list \<Rightarrow> inode option" where
  "img_walk ts [] = None"
| "img_walk ts [f] = List.find (\<lambda>t. iname t = f) (entries ts)"
| "img_walk ts (f # g # fs) = (case List.find (\<lambda>t. iname t = f) (entries ts) of Some (IDir h ds) \<Rightarrow> img_walk ds (g # fs) | _ \<Rightarrow> None)"

lemma loaded_nth:
  "loaded st K ps ts \<Longrightarrow> length ps = length (entries ts) \<and> (\<forall>i<length ps. loaded st K [ps ! i] [entries ts ! i])"
proof (induction ts arbitrary: ps rule: isize.induct)
  case (2 f xs ts)
  then obtain p qs where "ps = p # qs" by (cases ps) auto
  with 2 show ?case by (auto simp: entries_def nth_Cons' less_Suc_eq_0_disj)
next
  case (3 f ds ts)
  then obtain p qs where "ps = p # qs" by (cases ps) auto
  with 3 show ?case by (auto simp: entries_def nth_Cons' less_Suc_eq_0_disj)
qed (simp_all add: entries_def)

lemma loaded_named: "loaded st K [p] [t] \<Longrightarrow> t \<noteq> IOther \<Longrightarrow> named st p (iname t)"
  by (cases t) (auto simp: named_def file_node_def)

lemma loaded_names:
  assumes "loaded st K ps ts" and "names_at st [q, r] dir_names"
  shows "names_at st (q # r # ps) (entry_names ts)"
proof -
  have L: "length ps = length (entries ts)" "\<forall>i<length ps. loaded st K [ps ! i] [entries ts ! i]" using loaded_nth [OF assms(1)] by simp_all
  have "entries ts ! i \<noteq> IOther" if "i < length (entries ts)" for i using nth_mem [OF that] by (auto simp: entries_def)
  then have "named st (ps ! i) (iname (entries ts ! i))" if "i < length (entries ts)" for i using L loaded_named that by metis
  then have "list_all2 (named st) ps (map iname (entries ts))" using L(1) by (simp add: list_all2_conv_all_nth)
  then show ?thesis using assms(2) by (simp add: names_at_def entry_names_def dir_names_def)
qed

lemma names_distinct_mem: "names_distinct ts \<Longrightarrow> IDir f ds \<in> set ts \<Longrightarrow> distinct (entry_names ds) \<and> names_distinct ds"
  by (induction ts rule: isize.induct) auto

lemma find_named:
  assumes "List.find (\<lambda>t. iname t = f) (entries ts) = Some t"
  obtains i where "i < length (entries ts)" "entries ts ! i = t" "iname t = f" "t \<in> set ts"
proof -
  obtain i where i: "i < length (entries ts)" "iname (entries ts ! i) = f" "t = entries ts ! i" using assms by (auto simp: find_Some_iff)
  then have "t \<in> set (entries ts)" by simp
  then have "t \<in> set ts" by (simp add: entries_def)
  then show thesis using that [OF i(1)] i(2,3) by simp
qed

text \<open>One component of a path below a loaded directory.\<close>

lemma walk_loaded:
  assumes inv: "tree_inv st K" and walk: "vfs_walk find_dispatch st (fs_root st) us = Some e" and e: "e \<in> live st K" "is_dir st e"
    and K: "K e = q # r # ps" "names_at st [q, r] dir_names" "loaded st K ps ts" "distinct (entry_names ts)"
    and f: "List.find (\<lambda>t. iname t = f) (entries ts) = Some t"
  obtains p where "vfs_walk find_dispatch st (fs_root st) (us @ [f]) = Some p" "loaded st K [p] [t]" "p \<in> live st K" "t \<in> set ts"
proof -
  obtain i where i: "i < length (entries ts)" "entries ts ! i = t" "iname t = f" "t \<in> set ts" by (rule find_named [OF f])
  have L: "length ps = length (entries ts)" "loaded st K [ps ! i] [t]" using loaded_nth [OF K(3)] i(1,2) by auto
  have nms: "names_at st (K e) (entry_names ts)" using loaded_names [OF K(3,2)] by (simp add: K(1))
  have nth: "entry_names ts ! (2 + i) = f" "2 + i < length (entry_names ts)" "K e ! (2 + i) = ps ! i"
    using i by (simp_all add: entry_names_def dir_names_def K(1))
  have "t \<noteq> IOther" using i(1,2) nth_mem [OF i(1)] by (auto simp: entries_def)
  then have "named st (ps ! i) f" using loaded_named [OF L(2)] i(3) by simp
  then have "is_cstr (str_view f) f" using str_view_cstr_at by (auto simp: named_def)
  then have "vfs_walk find_dispatch st (fs_root st) (us @ [f]) = Some (ps ! i)"
    using walk_entry [OF inv walk e nms K(4) nth(2), unfolded nth(1,3)] by blast
  moreover have "ps ! i \<in> live st K" using L(1) i(1) by (intro liveI [of _ K e]) (simp add: K(1))
  ultimately show thesis using that L(2) i(4) by blast
qed

lemma img_walk_loaded:
  assumes inv: "tree_inv st K" and walk: "vfs_walk find_dispatch st (fs_root st) us = Some e" and e: "e \<in> live st K" "is_dir st e"
    and K: "K e = q # r # ps" "names_at st [q, r] dir_names" "loaded st K ps ts" "distinct (entry_names ts)" "names_distinct ts"
    and t: "img_walk ts fs = Some t"
  shows "\<exists>p. vfs_walk find_dispatch st (fs_root st) (us @ fs) = Some p \<and> loaded st K [p] [t] \<and> p \<in> live st K"
  using walk e K t
proof (induction ts fs arbitrary: us e q r ps rule: img_walk.induct)
  case (2 ts f)
  then show ?case using walk_loaded [OF inv "2.prems"(1-7), of f t] by auto
next
  case (3 ts f g fs)
  then obtain h ds where h: "List.find (\<lambda>t. iname t = f) (entries ts) = Some (IDir h ds)" "img_walk ds (g # fs) = Some t"
    by (auto split: option.splits inode.splits)
  obtain p where p: "vfs_walk find_dispatch st (fs_root st) (us @ [f]) = Some p" "loaded st K [p] [IDir h ds]" "p \<in> live st K" "IDir h ds \<in> set ts"
    by (rule walk_loaded [OF inv "3.prems"(1-7) h(1)])
  have d: "is_dir st p" "names_at st (take 2 (K p)) dir_names" "loaded st K (drop 2 (K p)) ds" using p(2) by simp_all
  obtain q' r' where tk: "take 2 (K p) = [q', r']" using d(2) by (auto simp: names_at_def dir_names_def list_all2_Cons2)
  then have Kp: "K p = q' # r' # drop 2 (K p)" using append_take_drop_id [of 2 "K p"] by simp
  have nd: "distinct (entry_names ds)" "names_distinct ds" using names_distinct_mem [OF "3.prems"(8) p(4)] by simp_all
  show ?case using "3.IH" [OF h(1) refl p(1,3) d(1) Kp d(2) [unfolded tk] d(3) nd h(2)] by simp
qed simp

end
