(* ===== verification/IA32_Bootloader.thy ===== *)
theory IA32_Bootloader
  imports Libk_Heap "HOL-Library.Monad_Syntax"
begin

text \<open>
  What the boot loader tells the kernel (bootloader.c, multiboot.h): the modules it has loaded and
  the memory map. The information lies in the memory at the address \<open>mbi\<close>; the endless
  loops of the error paths are no result (\<open>None\<close>).
\<close>

section \<open>The multiboot structures\<close>

definition MULTIBOOT_MEMORY_AVAILABLE :: u32 where "MULTIBOOT_MEMORY_AVAILABLE = 1"
definition MAX_MEM_AREAS :: nat where "MAX_MEM_AREAS = 50"
definition sizeof_multiboot_memory_map :: u32 where "sizeof_multiboot_memory_map = 24"
definition sizeof_multiboot_module :: u32 where "sizeof_multiboot_module = 16"
definition sizeof_bootloader_module :: u32 where "sizeof_bootloader_module = 8"

record mem_area =
  area_start :: u32
  area_length :: u32

record bootloader_module =
  mod_start :: u32
  mod_size :: u32

definition mbi_flags :: "bytes \<Rightarrow> u32 \<Rightarrow> u32" where "mbi_flags m mbi = load32 m mbi"
definition mbi_mods_count :: "bytes \<Rightarrow> u32 \<Rightarrow> u32" where "mbi_mods_count m mbi = load32 m (mbi + 20)"
definition mbi_mods_addr :: "bytes \<Rightarrow> u32 \<Rightarrow> u32" where "mbi_mods_addr m mbi = load32 m (mbi + 24)"
definition mbi_mmap_length :: "bytes \<Rightarrow> u32 \<Rightarrow> u32" where "mbi_mmap_length m mbi = load32 m (mbi + 44)"
definition mbi_mmap_addr :: "bytes \<Rightarrow> u32 \<Rightarrow> u32" where "mbi_mmap_addr m mbi = load32 m (mbi + 48)"

text \<open>The 64-bit fields of an entry are converted to the width of an address: their low halves.\<close>

definition mmap_start :: "bytes \<Rightarrow> u32 \<Rightarrow> u32" where "mmap_start m e = load32 m (e + 4)"
definition mmap_len :: "bytes \<Rightarrow> u32 \<Rightarrow> u32" where "mmap_len m e = load32 m (e + 12)"
definition mmap_type :: "bytes \<Rightarrow> u32 \<Rightarrow> u32" where "mmap_type m e = load32 m (e + 20)"

section \<open>The memory map\<close>

text \<open>
  The areas collected so far are the used part of the array \<open>memAreas\<close>; a store behind its end is no behaviour.
\<close>

partial_function (option) memory_map_loop :: "bytes \<Rightarrow> u32 \<Rightarrow> u32 \<Rightarrow> mem_area list \<Rightarrow> mem_area list option" where
  "memory_map_loop m mbi i memAreas =
     (if i < mbi_mmap_length m mbi then
        let mbmm = mbi_mmap_addr m mbi + i
        in if mmap_type m mbmm = MULTIBOOT_MEMORY_AVAILABLE
           then (if length memAreas < MAX_MEM_AREAS
                 then memory_map_loop m mbi (i + sizeof_multiboot_memory_map)
                        (memAreas @ [\<lparr>area_start = mmap_start m mbmm, area_length = mmap_len m mbmm\<rparr>])
                 else None)
           else memory_map_loop m mbi (i + sizeof_multiboot_memory_map) memAreas
      else Some memAreas)"

declare memory_map_loop.simps [code]

definition GetMemoryMap :: "bytes \<Rightarrow> u32 \<Rightarrow> mem_area list option" where
  "GetMemoryMap m multiboot_info =
     (if multiboot_info \<noteq> 0
      then if drop_bit 6 (mbi_flags m multiboot_info) AND 1 = 0 then None else memory_map_loop m multiboot_info 0 []
      else None)"

section \<open>The modules\<close>

definition bl_GetModules :: "u32 \<Rightarrow> bytes \<Rightarrow> kheap \<Rightarrow> u32 \<Rightarrow> (u32 \<times> u32 \<times> bytes \<times> kheap) option" where
  "bl_GetModules magic m h multiboot_info =
     (let mbmodule = mbi_mods_addr m multiboot_info;
          (modules, m1, h) = kmalloc magic m h (mbi_mods_count m multiboot_info * sizeof_bootloader_module)
      in if modules = 0 then None
         else
           let m2 = for_upto 0 (mbi_mods_count m1 multiboot_info) (\<lambda>i m.
                 let p = mbmodule + i * sizeof_multiboot_module;
                     q = modules + i * sizeof_bootloader_module;
                     m = store32 m q (load32 m p)
                 in store32 m (q + 4) (load32 m (p + 4) - load32 m p)) m1
           in Some (modules, mbi_mods_count m2 multiboot_info, m2, h))"

definition module_at :: "bytes \<Rightarrow> u32 \<Rightarrow> u32 \<Rightarrow> bootloader_module" where
  "module_at m modules i = \<lparr>mod_start = load32 m (modules + i * sizeof_bootloader_module),
     mod_size = load32 m (modules + i * sizeof_bootloader_module + 4)\<rparr>"

section \<open>The areas that are found\<close>

text \<open>The available areas of a map of \<open>n\<close> entries, in order.\<close>

definition map_entry :: "bytes \<Rightarrow> u32 \<Rightarrow> nat \<Rightarrow> u32" where
  "map_entry m mbi k = mbi_mmap_addr m mbi + of_nat k * 24"

definition available :: "bytes \<Rightarrow> u32 \<Rightarrow> nat list \<Rightarrow> mem_area list" where
  "available m mbi ks = map (\<lambda>k. \<lparr>area_start = mmap_start m (map_entry m mbi k), area_length = mmap_len m (map_entry m mbi k)\<rparr>)
     (filter (\<lambda>k. mmap_type m (map_entry m mbi k) = 1) ks)"

lemma available_Cons:
  "available m mbi (k # ks) = (if mmap_type m (map_entry m mbi k) = 1
     then [\<lparr>area_start = mmap_start m (map_entry m mbi k), area_length = mmap_len m (map_entry m mbi k)\<rparr>] else []) @ available m mbi ks"
  by (simp add: available_def)

lemma memory_map_loop_ok:
  assumes "mbi_mmap_length m mbi = of_nat n * 24" and "n * 24 + 24 < 2 ^ 32" and "k \<le> n" and "length xs \<le> MAX_MEM_AREAS"
  shows "memory_map_loop m mbi (of_nat k * 24) xs =
    (if length (xs @ available m mbi [k..<n]) \<le> MAX_MEM_AREAS then Some (xs @ available m mbi [k..<n]) else None)"
  using assms(3,4)
proof (induction k arbitrary: xs rule: inc_induct)
  case base
  then show ?case by (simp add: memory_map_loop.simps [of m mbi] assms(1) available_def)
next
  case (step k)
  have less: "of_nat k * 24 < (of_nat n * 24 :: u32)"
    using step.hyps assms(2) by (simp add: word_less_nat_alt unat_word_ariths unat_of_nat)
  have upt: "[k..<n] = k # [Suc k..<n]" using step.hyps by (simp add: upt_conv_Cons)
  have nxt: "of_nat k * 24 + 24 = (of_nat (Suc k) * 24 :: u32)" by (simp add: algebra_simps)
  define a where "a = \<lparr>area_start = mmap_start m (map_entry m mbi k), area_length = mmap_len m (map_entry m mbi k)\<rparr>"
  have unfold: "memory_map_loop m mbi (of_nat k * 24) xs =
      (if mmap_type m (map_entry m mbi k) = 1
       then if length xs < MAX_MEM_AREAS then memory_map_loop m mbi (of_nat (Suc k) * 24) (xs @ [a]) else None
       else memory_map_loop m mbi (of_nat (Suc k) * 24) xs)"
    using less by (subst memory_map_loop.simps)
      (simp add: assms(1) map_entry_def a_def MULTIBOOT_MEMORY_AVAILABLE_def sizeof_multiboot_memory_map_def nxt Let_def del: of_nat_Suc)
  show ?case
    unfolding unfold upt available_Cons a_def [symmetric] using step.IH [of "xs @ [a]"] step.IH [OF step.prems] step.prems
    by (auto simp del: of_nat_Suc)
qed

lemma GetMemoryMap_ok:
  assumes "mbi \<noteq> 0" and "bit (mbi_flags m mbi) 6" and "mbi_mmap_length m mbi = of_nat n * 24" and "n * 24 + 24 < 2 ^ 32"
  shows "GetMemoryMap m mbi = (if length (available m mbi [0..<n]) \<le> 50 then Some (available m mbi [0..<n]) else None)"
proof -
  have "drop_bit 6 (mbi_flags m mbi) AND 1 \<noteq> 0"
    using assms(2) by (simp add: and_one_eq odd_iff_mod_2_eq_one [symmetric] bit_iff_odd_drop_bit)
  then show ?thesis using assms(1) memory_map_loop_ok [OF assms(3,4), of 0 "[]"] by (simp add: GetMemoryMap_def MAX_MEM_AREAS_def)
qed

section \<open>The modules that are found\<close>

text \<open>An address that the allocator does not hand out or use for its guard word.\<close>

definition outside :: "kheap \<Rightarrow> u32 \<Rightarrow> bool" where
  "outside h a \<longleftrightarrow> a < CurrentPointer h \<or> unat (HeapMem h) + unat (HeapMemSize h) + 4 \<le> unat a"

definition copy_module :: "u32 \<Rightarrow> u32 \<Rightarrow> nat \<Rightarrow> bytes \<Rightarrow> bytes" where
  "copy_module p q i m = (let m = store32 m (q + of_nat i * 8) (load32 m (p + of_nat i * 16))
     in store32 m (q + of_nat i * 8 + 4) (load32 m (p + of_nat i * 16 + 4) - load32 m (p + of_nat i * 16)))"

lemma store32_far:
  assumes "unat q + 4 \<le> 2 ^ 32" and "unat a < unat q \<or> unat q + 4 \<le> unat a"
  shows "store32 m q w a = m a"
proof -
  have u: "unat (q + i) = unat q + unat i" if "unat i < 4" for i using assms(1) that by (intro unat_add_no_wrap) simp
  have "a \<noteq> q" "a \<noteq> q + 1" "a \<noteq> q + 2" "a \<noteq> q + 3" using assms(2) u [of 0] u [of 1] u [of 2] u [of 3] by auto
  then show ?thesis by (simp add: store32_def)
qed

lemma load32_eq:
  assumes "\<And>j. j < 4 \<Longrightarrow> m (p + of_nat j) = m' (p + of_nat j)"
  shows "load32 m p = load32 m' p"
  using assms [of 0] assms [of 1] assms [of 2] assms [of 3] by (simp add: load32_def)

text \<open>One round writes the eight bytes of its entry, when the source lies elsewhere.\<close>

lemma copy_module_ok:
  fixes p q :: u32 and k :: nat
  defines "Q \<equiv> q + of_nat k * 8" and "P \<equiv> p + of_nat k * 16"
  assumes Q8: "unat Q + 8 \<le> 2 ^ 32" and src: "\<forall>j<8. unat (P + of_nat j) < unat Q \<or> unat Q + 8 \<le> unat (P + of_nat j)"
  shows "load32 (copy_module p q k m) Q = load32 m P" "load32 (copy_module p q k m) (Q + 4) = load32 m (P + 4) - load32 m P"
    "unat a < unat Q \<or> unat Q + 8 \<le> unat a \<Longrightarrow> copy_module p q k m a = m a"
proof -
  have uQ: "unat (Q + of_nat j) = unat Q + j" if "j < 8" for j
  proof -
    have "unat (of_nat j :: u32) = j" using that by (simp add: unat_of_nat take_bit_nat_eq_self)
    then show ?thesis using that Q8 by (subst unat_add_no_wrap) simp_all
  qed
  have Q4: "unat (Q + 4) = unat Q + 4" using uQ [of 4] by simp
  define m1 where "m1 = store32 m Q (load32 m P)"
  have src1: "m1 (P + of_nat j) = m (P + of_nat j)" if "j < 8" for j
  proof -
    have "unat (P + of_nat j) < unat Q \<or> unat Q + 4 \<le> unat (P + of_nat j)" using src that by fastforce
    then show ?thesis unfolding m1_def using Q8 by (simp add: store32_far)
  qed
  have half: "P + 4 + of_nat j = P + of_nat (4 + j)" for j by (simp add: add.assoc)
  have l: "load32 m1 P = load32 m P" using src1 by (auto intro!: load32_eq)
  have l4: "load32 m1 (P + 4) = load32 m (P + 4)" by (rule load32_eq) (use src1 in \<open>simp add: half del: of_nat_add\<close>)
  have m2: "copy_module p q k m = store32 m1 (Q + 4) (load32 m (P + 4) - load32 m P)"
    using l l4 by (simp add: copy_module_def Q_def P_def m1_def Let_def)
  show "load32 (copy_module p q k m) (Q + 4) = load32 m (P + 4) - load32 m P" by (simp add: m2)
  have "copy_module p q k m (Q + of_nat j) = m1 (Q + of_nat j)" if "j < 4" for j
    unfolding m2 using uQ [of j] that Q4 Q8 by (intro store32_far) simp_all
  then have "load32 (copy_module p q k m) Q = load32 m1 Q" by (rule load32_eq)
  then show "load32 (copy_module p q k m) Q = load32 m P" by (simp add: m1_def)
  show "copy_module p q k m a = m a" if "unat a < unat Q \<or> unat Q + 8 \<le> unat a"
  proof -
    have "unat (Q + 4) + 4 \<le> 2 ^ 32" "unat a < unat (Q + 4) \<or> unat (Q + 4) + 4 \<le> unat a" "unat a < unat Q \<or> unat Q + 4 \<le> unat a" using that Q4 Q8 by linarith+
    then show ?thesis unfolding m2 m1_def using Q8 by (simp add: store32_far)
  qed
qed

lemma module_address:
  fixes q :: u32
  assumes "unat q + 8 * n \<le> 2 ^ 32" and "i < n" and "j < 8"
  shows "unat (q + of_nat i * 8 + of_nat j) = unat q + 8 * i + j"
proof -
  have "8 * i + j < 2 ^ 32" using assms by linarith
  then have "unat (of_nat (8 * i + j) :: u32) = 8 * i + j"
    by (simp only: unat_of_nat take_bit_nat_eq_self) simp
  then have "unat (q + of_nat (8 * i + j)) = unat q + (8 * i + j)" using assms by (subst unat_add_no_wrap) simp_all
  then show ?thesis by (simp add: algebra_simps)
qed

lemma fold_copy_modules:
  assumes fits: "unat q + 8 * n \<le> 2 ^ 32"
    and src: "\<forall>i<n. \<forall>j<8. unat (p + of_nat i * 16 + of_nat j) < unat q \<or> unat q + 8 * n \<le> unat (p + of_nat i * 16 + of_nat j)"
    and k: "k \<le> n"
  shows "(\<forall>i<k. load32 (fold (copy_module p q) [0..<k] m) (q + of_nat i * 8) = load32 m (p + of_nat i * 16) \<and>
      load32 (fold (copy_module p q) [0..<k] m) (q + of_nat i * 8 + 4) = load32 m (p + of_nat i * 16 + 4) - load32 m (p + of_nat i * 16)) \<and>
    (\<forall>a. unat a < unat q \<or> unat q + 8 * k \<le> unat a \<longrightarrow> fold (copy_module p q) [0..<k] m a = m a)"
  using k
proof (induction k)
  case (Suc k)
  define mk where "mk = fold (copy_module p q) [0..<k] m"
  have step: "fold (copy_module p q) [0..<Suc k] m = copy_module p q k mk" by (simp add: mk_def)
  note IH = Suc.IH [folded mk_def, OF Suc_leD [OF Suc.prems]]
  have Q: "unat (q + of_nat k * 8) = unat q + 8 * k" using module_address [OF fits, of k 0] Suc.prems by simp
  have P: "unat (p + of_nat k * 16 + of_nat j) < unat q \<or> unat q + 8 * n \<le> unat (p + of_nat k * 16 + of_nat j)" if "j < 8" for j
    using src Suc.prems that by simp
  have same: "mk (p + of_nat k * 16 + of_nat j) = m (p + of_nat k * 16 + of_nat j)" if "j < 8" for j
  proof -
    have "unat (p + of_nat k * 16 + of_nat j) < unat q \<or> unat q + 8 * k \<le> unat (p + of_nat k * 16 + of_nat j)" using P [OF that] Suc.prems by linarith
    then show ?thesis using IH by blast
  qed
  have l: "load32 mk (p + of_nat k * 16) = load32 m (p + of_nat k * 16)" using same by (auto intro!: load32_eq)
  have l4: "load32 mk (p + of_nat k * 16 + 4) = load32 m (p + of_nat k * 16 + 4)"
    by (rule load32_eq) (use same [of "4 + _"] in \<open>simp add: add.assoc\<close>)
  have "\<forall>j<8. unat (p + of_nat k * 16 + of_nat j) < unat (q + of_nat k * 8) \<or> unat (q + of_nat k * 8) + 8 \<le> unat (p + of_nat k * 16 + of_nat j)"
    using P Q Suc.prems by fastforce
  note C = copy_module_ok [where q = q and k = k and p = p and m = mk, OF _ this]
  have Q8: "unat (q + of_nat k * 8) + 8 \<le> 2 ^ 32" using Q Suc.prems fits by linarith
  have old: "load32 (copy_module p q k mk) (q + of_nat i * 8) = load32 mk (q + of_nat i * 8)"
    "load32 (copy_module p q k mk) (q + of_nat i * 8 + 4) = load32 mk (q + of_nat i * 8 + 4)" if "i < k" for i
  proof -
    have *: "copy_module p q k mk (q + of_nat i * 8 + of_nat j) = mk (q + of_nat i * 8 + of_nat j)" if "j < 8" for j
      using module_address [OF fits, of i j] that \<open>i < k\<close> Suc.prems Q by (intro C(3) [OF Q8]) simp
    show "load32 (copy_module p q k mk) (q + of_nat i * 8) = load32 mk (q + of_nat i * 8)" by (rule load32_eq) (use * in simp)
    show "load32 (copy_module p q k mk) (q + of_nat i * 8 + 4) = load32 mk (q + of_nat i * 8 + 4)"
      by (rule load32_eq) (use * [of "4 + _"] in \<open>simp add: add.assoc\<close>)
  qed
  have "copy_module p q k mk a = m a" if "unat a < unat q \<or> unat q + 8 * Suc k \<le> unat a" for a
    using C(3) [OF Q8, of a] IH Q that by auto
  then show ?case unfolding step using C(1,2) [OF Q8] l l4 old IH by (auto simp: less_Suc_eq)
qed simp

lemma round_up_multiple: "unat w = 8 * n \<Longrightarrow> 8 * n + 4 \<le> 2 ^ 32 \<Longrightarrow> round_up w = w"
proof -
  assume w: "unat w = 8 * n" "8 * n + 4 \<le> 2 ^ 32"
  then have "unat (w + 4 - 1) = 8 * n + 3" by (simp add: unat_word_ariths unat_sub_if')
  then have "unat ((w + 4 - 1) div 4) = 2 * n" by (simp add: unat_div)
  then have "unat ((w + 4 - 1) div 4 * 4) = 8 * n" using w by (simp add: unat_word_ariths)
  then show ?thesis using w(1) by (simp add: round_up_def MEM_MIN_SIZE_def word_unat_eq_iff)
qed

lemma bl_GetModules_ok:
  fixes m :: bytes and mbi :: u32
  defines "n \<equiv> unat (mbi_mods_count m mbi)" and "p \<equiv> mbi_mods_addr m mbi"
  assumes h: "heap_inv h" "request_ok h (mbi_mods_count m mbi * 8)" and room: "unat (CurrentPointer h) + 8 * n \<le> unat (HeapMem h) + unat (HeapMemSize h)"
    and top: "unat (HeapMem h) + unat (HeapMemSize h) + 4 \<le> 2 ^ 32"
    and info: "\<forall>j<4. outside h (mbi + 20 + of_nat j)" and src: "\<forall>i<n. \<forall>j<8. outside h (p + of_nat i * 16 + of_nat j)"
  shows "\<exists>m'. bl_GetModules magic m h mbi =
      Some (CurrentPointer h, of_nat n, m', h\<lparr>CurrentPointer := CurrentPointer h + of_nat (8 * n)\<rparr>) \<and>
    (\<forall>i<n. module_at m' (CurrentPointer h) (of_nat i) =
       \<lparr>mod_start = load32 m (p + of_nat i * 16), mod_size = load32 m (p + of_nat i * 16 + 4) - load32 m (p + of_nat i * 16)\<rparr>) \<and>
    (\<forall>a. outside h a \<longrightarrow> m' a = m a)"
proof -
  define q where "q = CurrentPointer h"
  have hp: "HeapMem h \<noteq> 0" "unat (HeapMem h) \<le> unat q" using h(1) by (simp_all add: heap_inv_def q_def word_le_nat_alt)
  have n8: "unat (mbi_mods_count m mbi * 8) = 8 * n"
    using room unat_lt2p [of "mbi_mods_count m mbi * 8"] top by (simp add: n_def unat_mult_no_wrap)
  have ru: "round_up (mbi_mods_count m mbi * 8) = mbi_mods_count m mbi * 8"
    using n8 room top by (simp add: round_up_multiple)
  obtain a m1 h' where k: "kmalloc magic m h (mbi_mods_count m mbi * 8) = (a, m1, h')" by (metis surj_pair)
  note R = kmalloc_result [OF h k, unfolded ru n8, folded q_def]
  have a: "a = q" "q \<noteq> 0" using R(2,4) room hp by (auto simp: q_def)
  have uq: "unat (q + mbi_mods_count m mbi * 8) = unat q + 8 * n" using n8 room top by (subst unat_add_no_wrap) (simp_all add: q_def)
  have out1: "m1 x = m x" if "outside h x" for x
    unfolding R(1) using that uq room top by (intro store32_far) (auto simp: outside_def q_def word_less_nat_alt)
  have cnt: "mbi_mods_count m' mbi = mbi_mods_count m mbi" if "\<forall>x. outside h x \<longrightarrow> m' x = m x" for m'
    unfolding mbi_mods_count_def by (rule load32_eq) (use info that in simp)
  define m2 where "m2 = fold (copy_module p q) [0..<n] m1"
  have src': "\<forall>i<n. \<forall>j<8. unat (p + of_nat i * 16 + of_nat j) < unat q \<or> unat q + 8 * n \<le> unat (p + of_nat i * 16 + of_nat j)"
    using src room by (fastforce simp: outside_def q_def word_less_nat_alt)
  have fits: "unat q + 8 * n \<le> 2 ^ 32" using room top by (simp add: q_def)
  note F = fold_copy_modules [OF fits src' order_refl, of m1, folded m2_def]
  have out2: "\<forall>x. outside h x \<longrightarrow> m2 x = m x"
    using F out1 room by (fastforce simp: outside_def q_def word_less_nat_alt)
  have "mbi_mods_count m mbi * 8 = of_nat (8 * n)" using n8 by (metis of_nat_unat ucast_id)
  then have "h' = h\<lparr>CurrentPointer := q + of_nat (8 * n)\<rparr>" using R(4) a by simp
  moreover have "bl_GetModules magic m h mbi = Some (q, of_nat n, m2, h')"
    using k a cnt [of m1] cnt [of m2] out1 out2
    by (simp add: bl_GetModules_def p_def n_def sizeof_bootloader_module_def sizeof_multiboot_module_def for_upto_0 m2_def copy_module_def [abs_def] Let_def)
  moreover have "load32 m1 (p + of_nat i * 16) = load32 m (p + of_nat i * 16)" "load32 m1 (p + of_nat i * 16 + 4) = load32 m (p + of_nat i * 16 + 4)" if "i < n" for i
  proof -
    have *: "m1 (p + of_nat i * 16 + of_nat j) = m (p + of_nat i * 16 + of_nat j)" if "j < 8" for j using out1 src \<open>i < n\<close> that by simp
    show "load32 m1 (p + of_nat i * 16) = load32 m (p + of_nat i * 16)" by (rule load32_eq) (use * in simp)
    show "load32 m1 (p + of_nat i * 16 + 4) = load32 m (p + of_nat i * 16 + 4)" by (rule load32_eq) (use * [of "4 + _"] in \<open>simp add: add.assoc\<close>)
  qed
  ultimately show ?thesis using F out2 by (auto simp: module_at_def sizeof_bootloader_module_def q_def [symmetric])
qed

end
