(* ===== verification/Coresys_Start.thy ===== *)
theory Coresys_Start
  imports Coresys_Initrd IA32_Bootloader IA32_Paging
begin

text \<open>
  The start of the file system (\<open>kernel_init_fs\<close> of kernel.c): the directories, the device directory, the
  search for the initial RAM disk among the modules of the boot loader, and its loading. The memory is flat:
  the mapping of a module maps it to itself. The endless loops of the error paths are no result (\<open>None\<close>).
\<close>

section \<open>Operations\<close>

text \<open>The loop over the modules: the index, the state and the page tables when it ends.\<close>

partial_function (option) find_initrd :: "u32 \<Rightarrow> u32 \<Rightarrow> u32 \<Rightarrow> ramfs \<Rightarrow> paging \<Rightarrow> (u32 \<times> ramfs \<times> paging) option" where
  "find_initrd modules nModules i st pg =
     (if i < nModules then do {
        let md = module_at (mem st) modules i;
        (a, _, pg) \<leftarrow> mem_map (mod_start md) (mod_start md) (mod_size md) False True pg;
        let st = st\<lparr>mem := store32 (mem st) (modules + i * sizeof_bootloader_module) a\<rparr>;
        let md = module_at (mem st) modules i;
        if load32 (mem st) (mod_start md) = UINT32_INITRD_ORDER INITRD_MAGIC then Some (i, st, pg)
        else find_initrd modules nModules (i + 1) st (mem_unmap (mod_start md) (mod_size md) pg) }
      else Some (i, st, pg))"

declare find_initrd.simps [code]

definition kernel_init_fs :: "bytes \<Rightarrow> u32 \<Rightarrow> ramfs \<Rightarrow> paging \<Rightarrow> (ramfs \<times> paging) option" where
  "kernel_init_fs stk multiboot_info st pg =
     do { st \<leftarrow> kernel_initramfs stk st;
          (_, st) \<leftarrow> devfs_init stk st;
          (modules, nModules, m, h) \<leftarrow> bl_GetModules (heap_magic st) (mem st) (heap st) multiboot_info;
          let st = st\<lparr>mem := m, heap := h\<rparr>;
          if nModules = 0 then None
          else do {
            (i, st, pg) \<leftarrow> find_initrd modules nModules 0 st pg;
            if i = nModules then None
            else do {
              (_, st) \<leftarrow> ramfs_loadInitrd stk st (mod_start (module_at (mem st) modules i)) (cstr ''/initrd'');
              let md = module_at (mem st) modules i;
              Some (st, mem_unmap (mod_start md) (mod_size md) pg) } } }"

section \<open>The device directory\<close>

lemma null_name: "is_cstr (strncpy_to v (cstr ''null'') SIZE_MAX) (bytes_of ''null'')"
proof -
  have "is_cstr (cstr ''null'') (bytes_of ''null'')" by (rule cstr_bytes) (simp_all add: bytes_of_def)
  then show ?thesis using strncpy_to_cstr [of "cstr ''null''" "bytes_of ''null''" SIZE_MAX v] by (simp add: bytes_of_def SIZE_MAX_def)
qed

lemma dev_name: "valid_name (cstr ''dev'') (bytes_of ''dev'')"
  by (rule cstr_name) (simp_all add: bytes_of_def slash_def)

text \<open>The entry that a directory gains was not there before.\<close>

lemma new_entry_fresh:
  assumes "tree_inv st K" and ext: "extends st K st1 K1" and inv1: "tree_inv st1 K1" and e: "K1 d = K d @ [e]"
  shows "e \<notin> live st K"
proof
  assume l: "e \<in> live st K"
  have "e \<in> set (K1 d)" by (simp add: e)
  then have "e \<noteq> root_obj st1" using tree_invD(9) [OF inv1] by (auto simp: ordered_def)
  then have "e \<noteq> root_obj st" using tree_invD(2) [OF inv1] tree_invD(2) [OF assms(1)] ext by (simp add: extends_def)
  then obtain t where t: "e \<in> set (K t)" using l by (auto simp: live_def)
  then have "t \<in> live st K" using tree_invD(5) [OF assms(1), of t] by (cases "t \<in> live st K") auto
  then have "e \<in> set (K1 t)" using ext t by (auto simp: extends_def)
  then have "t = d" using tree_invD(6) [OF inv1, of t d] e by auto
  moreover have "sorted_wrt (<) (K1 d)" using tree_invD(9) [OF inv1] by (simp add: ordered_def)
  ultimately show False using t e by (auto simp: sorted_wrt_append)
qed

text \<open>\<open>/dev\<close> and \<open>/dev/null\<close>.\<close>

lemma devfs_init_ok:
  assumes inv: "tree_inv st K" and nms: "names_at st (K (fs_root st)) fs" "bytes_of ''dev'' \<notin> set fs" and room: "has_room st (4 + k)"
  obtains st' K' e nul n where "devfs_init stk st = Some (0, st')" "fs_step st K st' K' 800" "has_room st' k"
    "\<forall>x\<in>live st K. x \<noteq> fs_root st \<longrightarrow> K' x = K x" "K' (fs_root st) = K (fs_root st) @ [e]"
    "vfs_walk find_dispatch st' (fs_root st') [bytes_of ''dev''] = Some e"
    "nodes st' nul = Some n" "read_cb n = Some Cb_null_read" "write_cb n = Some Cb_null_write"
    "vfs_walk find_dispatch st' (fs_root st') [bytes_of ''dev'', bytes_of ''null''] = Some nul"
proof -
  have room3: "has_room st (3 + (1 + k))" using room by (simp add: has_room_def)
  obtain st1 K1 e where A: "ramfs_mkDir stk st (cstr ''dev'') (cstr ''/'') = Some (e, VFS_T_OK, st1)" "fs_step st K st1 K1 600" "has_room st1 (1 + k)"
    "K1 (fs_root st) = K (fs_root st) @ [e]" "names_at st1 (K1 (fs_root st)) (fs @ [bytes_of ''dev''])" "names_at st1 (K1 e) dir_names" "is_dir st1 e" "e \<noteq> 0"
    "vfs_walk find_dispatch st1 (fs_root st1) (tokens slash [slash] @ [bytes_of ''dev'']) = Some e" "\<forall>x\<in>live st K. x \<noteq> fs_root st \<longrightarrow> K1 x = K x"
    by (rule mkDir_names [OF root_parent [OF inv] dev_name nms room3])
  have inv1: "tree_inv st1 K1" using A(2) by (simp add: fs_step_def)
  have e1: "e \<in> live st1 K1" by (rule liveI [of e K1 "fs_root st"]) (simp add: A(4))
  define p where "p = CurrentPointer (heap st1)"
  have rm: "room st1 200" "has_room st1 1" using A(3) by (simp_all add: room_def has_room_def)
  have h: "heap_ok st1" by (rule tree_invD(1) [OF inv1])
  obtain q m hp where km: "kmalloc (heap_magic st1) (mem st1) (heap st1) sizeof_ramfs_file_header = (q, m, hp)" by (metis surj_pair)
  note r = kmalloc_result [OF _ heap_ok_request km, OF _ h]
  have p0: "p \<noteq> 0" using h by (auto simp: p_def heap_ok_def heap_inv_def)
  have q0: "q \<noteq> 0" using r(2) h rm(1) by (auto simp: heap_ok_def room_def)
  then have q: "q = p" "hp = (heap st1)\<lparr>CurrentPointer := p + 200\<rparr>" using r(4) h by (auto simp: heap_ok_def p_def)
  have m: "m a = mem st1 a" if "untouched st1 a" for a
    using r(1) store_guard_untouched [OF _ that, of 200] h rm(1) by (simp add: heap_ok_def room_def)
  define n where "n = \<lparr>name = strncpy_to (view m p) (cstr ''null'') SIZE_MAX, ino = last_ino st1, owner_id = 0, owner_group = 0, perm = 0,
    ftype = FTYPE_REGULAR, flength = 0, impl_def = 0, open_cb = None, close_cb = None, read_cb = Some Cb_null_read,
    write_cb = Some Cb_null_write, readdir_cb = None, find_cb = None, node_ptr = 0, filePtr = 0, next_node = 0, children = 0\<rparr>"
  define st4 where "st4 = st1\<lparr>mem := m, heap := hp, last_ino := last_ino st1 + 1, nullNodeFile := p, nodes := (nodes st1)(p \<mapsto> n)\<rparr>"
  have b4: "bumped st1 st4 200"
    using m q(2) next_pointer(1) [OF h rm(2)] by (simp add: bumped_def st4_def p_def)
  have n4: "nodes st4 = (nodes st1)(p \<mapsto> n)" "fs_root st4 = fs_root st1" by (simp_all add: st4_def)
  have nf: "ftype n = FTYPE_REGULAR" "find_cb n = None" "children n = 0" "next_node n = 0" by (simp_all add: n_def)
  obtain nl where nl: "nodes st1 (last (K1 e)) = Some nl" "last (K1 e) \<in> live st1 K1"
    using ramfs_getLastChild_dir [OF inv1 e1 A(7)] by metis
  define st5 where "st5 = st4\<lparr>nodes := (nodes st4)(last (K1 e) \<mapsto> nl\<lparr>next_node := p\<rparr>)\<rparr>"
  note L = link_file [OF inv1 e1 A(7) p_def b4 _ rm(1) n4 nf nl(1) st5_def]
  have pl: "p \<notin> live st1 K1" using L(4) by simp
  have lp: "last (K1 e) \<noteq> p" using nl(2) pl by auto
  have res: "devfs_init stk st = Some (0, st5)"
    using A(1,8) km q p0 nl(1) lp getLastChild_fresh [OF inv1 e1 A(7) pl n4(1)]
    by (simp add: devfs_init_def fs_new_ino_id_def assign_def deref_def st5_def n4(1)) (simp add: st4_def n_def)
  define K' where "K' = K1(e := K1 e @ [p])"
  have s5: "fs_step st1 K1 st5 K' 200" using L(1-3) by (simp add: fs_step_def K'_def)
  have s: "fs_step st K st5 K' 800" using fs_step_trans [OF A(2) s5] by simp
  have ext: "extends st1 K1 st5 K'" "extends st K st1 K1" and inv5: "tree_inv st5 K'" using s5 A(2) by (simp_all add: fs_step_def)
  have roots: "fs_root st1 = fs_root st" "fs_root st5 = fs_root st" using ext by (simp_all add: extends_def)
  have "e \<notin> live st K" by (rule new_entry_fresh [OF inv ext(2) inv1 A(4)])
  then have ne: "e \<noteq> fs_root st" using tree_invD(7) [OF inv] by auto
  have e5: "e \<in> live st5 K'" "is_dir st5 e" using ext(1) e1 is_dir_extends [OF ext(1) e1 A(7)] by (auto simp: extends_def)
  have dev: "vfs_walk find_dispatch st5 (fs_root st5) [bytes_of ''dev''] = Some e"
    using walk_extends [OF inv1 inv5 ext(1) tree_invD(7) [OF inv1], of "[bytes_of ''dev'']" e] A(8,9) boot_paths(3) roots
    by (simp del: vfs_walk.simps)
  have "named st5 p (bytes_of ''null'')" using L(5) null_name by (auto simp: named_def n_def bytes_of_def)
  then have nms5: "names_at st5 (K' e) (dir_names @ [bytes_of ''null''])"
    using names_at_extends [OF ext(1) A(6)] by (simp add: K'_def names_at_snoc)
  have len: "length (K1 e) = 2" using A(6) by (auto simp: names_at_def dir_names_def dest: list_all2_lengthD)
  have "distinct (dir_names @ [bytes_of ''null''])" "is_cstr (str_view (bytes_of ''null'')) (bytes_of ''null'')"
    by (simp_all add: dir_names_def bytes_of_def str_view_cstr del: cstr_at.simps)
  then have "vfs_walk find_dispatch st5 (fs_root st5) ([bytes_of ''dev''] @ [(dir_names @ [bytes_of ''null'']) ! 2]) = Some (K' e ! 2)"
    by (intro walk_entry [OF inv5 dev e5 nms5]) (simp_all add: dir_names_def)
  then have nul: "vfs_walk find_dispatch st5 (fs_root st5) [bytes_of ''dev'', bytes_of ''null''] = Some p"
    using len by (simp add: dir_names_def K'_def nth_append)
  have keep: "\<forall>x\<in>live st K. x \<noteq> fs_root st \<longrightarrow> K' x = K x" using A(10) \<open>e \<notin> live st K\<close> by (auto simp: K'_def)
  have Kr: "K' (fs_root st) = K (fs_root st) @ [e]" using A(4) ne by (simp add: K'_def)
  have rk: "has_room st5 k" by (rule fs_step_room [OF s _ room]) simp
  show thesis by (rule that [OF res s rk keep Kr dev L(5) _ _ nul]) (simp_all add: n_def)
qed

section \<open>The modules\<close>

lemma load32_bytes:
  "ucast (load32 m p) = m p" "ucast (drop_bit 8 (load32 m p)) = m (p + 1)" "ucast (drop_bit 16 (load32 m p)) = m (p + 2)"
  "ucast (drop_bit 24 (load32 m p)) = m (p + 3)"
  by (rule bit_word_eqI, auto simp: load32_def bit_simps dest: bit_imp_le_length)+

lemma store32_same: "store32 m p (load32 m p) = m"
  by (simp add: store32_def load32_bytes)

text \<open>The first module with the magic number is found; the page directory stays.\<close>

definition aligned_module :: "paging \<Rightarrow> bootloader_module \<Rightarrow> bool" where
  "aligned_module pg md \<longleftrightarrow> PAGE_ALIGN_FLOOR (mod_start md) = mod_start md \<and> mappable pg (mod_start md) (mod_size md)"

lemma mem_unmap_directory: "page_directory (mem_unmap a n pg) = page_directory pg"
proof -
  have "page_directory (fold f ks s) = page_directory s" if "\<And>k s. page_directory (f k s) = page_directory s" for f :: "nat \<Rightarrow> paging \<Rightarrow> paging" and ks s
    using that by (induction ks arbitrary: s) simp_all
  then show ?thesis by (simp add: mem_unmap_def for_upto_0 Let_def set_entry_def)
qed

lemma find_initrd_ok:
  assumes "\<forall>j<k. load32 (mem st) (mod_start (module_at (mem st) modules (of_nat j))) \<noteq> INITRD_MAGIC"
    and "load32 (mem st) (mod_start (module_at (mem st) modules (of_nat k))) = INITRD_MAGIC"
    and "\<forall>j\<le>k. aligned_module pg (module_at (mem st) modules (of_nat j))"
    and "k < unat nModules" and "i \<le> k"
  shows "\<exists>pg'. find_initrd modules nModules (of_nat i) st pg = Some (of_nat k, st, pg') \<and> page_directory pg' = page_directory pg"
  using assms(5,3)
proof (induction i arbitrary: pg rule: inc_induct)
  case base
  define md where "md = module_at (mem st) modules (of_nat k)"
  have md: "PAGE_ALIGN_FLOOR (mod_start md) = mod_start md" "mappable pg (mod_start md) (mod_size md)"
    using base by (simp_all add: md_def aligned_module_def)
  obtain pg' where M: "mem_map (mod_start md) (mod_start md) (mod_size md) False True pg = Some (mod_start md, PAGE_ALIGN_CEIL (mod_size md), pg')"
    "page_directory pg' = page_directory pg" using mem_map_ok [OF md(2), of "mod_start md" False True] md(1) by auto
  have st: "store32 (mem st) (modules + of_nat k * sizeof_bootloader_module) (mod_start md) = mem st"
    by (simp add: md_def module_at_def store32_same)
  have "unat (of_nat k :: u32) = k" using assms(4) unat_lt2p [of nModules] by (simp add: unat_of_nat take_bit_nat_eq_self)
  then have "(of_nat k :: u32) < nModules" using assms(4) by (simp add: word_less_nat_alt)
  then have "find_initrd modules nModules (of_nat k) st pg = Some (of_nat k, st, pg')"
    using M(1) assms(2) by (subst find_initrd.simps) (simp add: md_def [symmetric] st UINT32_INITRD_ORDER_def)
  then show ?case using M(2) by blast
next
  case (step i)
  define md where "md = module_at (mem st) modules (of_nat i)"
  have md: "PAGE_ALIGN_FLOOR (mod_start md) = mod_start md" "mappable pg (mod_start md) (mod_size md)"
    using step by (simp_all add: md_def aligned_module_def)
  obtain pg1 where M: "mem_map (mod_start md) (mod_start md) (mod_size md) False True pg = Some (mod_start md, PAGE_ALIGN_CEIL (mod_size md), pg1)"
    "page_directory pg1 = page_directory pg" using mem_map_ok [OF md(2), of "mod_start md" False True] md(1) by auto
  have st: "store32 (mem st) (modules + of_nat i * sizeof_bootloader_module) (mod_start md) = mem st"
    by (simp add: md_def module_at_def store32_same)
  have "unat (of_nat i :: u32) = i" using assms(4) step.hyps unat_lt2p [of nModules] by (simp add: unat_of_nat take_bit_nat_eq_self)
  then have "(of_nat i :: u32) < nModules" using assms(4) step.hyps by (simp add: word_less_nat_alt)
  define pg2 where "pg2 = mem_unmap (mod_start md) (mod_size md) pg1"
  have pd: "page_directory pg2 = page_directory pg" using M(2) by (simp add: pg2_def mem_unmap_directory)
  have "load32 (mem st) (mod_start md) \<noteq> INITRD_MAGIC" using assms(1) step.hyps by (simp add: md_def)
  then have "find_initrd modules nModules (of_nat i) st pg = find_initrd modules nModules (of_nat (Suc i)) st pg2"
    using M(1) \<open>of_nat i < nModules\<close> by (subst find_initrd.simps) (simp add: md_def [symmetric] st UINT32_INITRD_ORDER_def pg2_def add.commute)
  moreover have "\<forall>j\<le>k. aligned_module pg2 (module_at (mem st) modules (of_nat j))"
    using step.prems pd by (simp add: aligned_module_def mappable_def)
  ultimately show ?case using step.IH [of pg2] pd by (simp del: of_nat_Suc)
qed

section \<open>The boot information\<close>

text \<open>The modules that the boot loader describes, outside of the free part of the heap.\<close>

definition boot_info :: "ramfs \<Rightarrow> u32 \<Rightarrow> bootloader_module list \<Rightarrow> bool" where
  "boot_info st mbi mods \<longleftrightarrow> unat (mbi_mods_count (mem st) mbi) = length mods \<and> (\<forall>j<8. untouched st (mbi + 20 + of_nat j)) \<and>
     (\<forall>i<length mods. (\<forall>j<8. untouched st (mbi_mods_addr (mem st) mbi + of_nat i * 16 + of_nat j)) \<and>
        mods ! i = \<lparr>mod_start = load32 (mem st) (mbi_mods_addr (mem st) mbi + of_nat i * 16),
          mod_size = load32 (mem st) (mbi_mods_addr (mem st) mbi + of_nat i * 16 + 4) - load32 (mem st) (mbi_mods_addr (mem st) mbi + of_nat i * 16)\<rparr>)"

lemma load32_untouched:
  assumes "bumped st st' b" and "\<forall>j<8. untouched st (a + of_nat j)"
  shows "load32 (mem st') a = load32 (mem st) a" and "load32 (mem st') (a + 4) = load32 (mem st) (a + 4)"
proof -
  have m: "mem st' (a + of_nat j) = mem st (a + of_nat j)" if "j < 8" for j using assms that by (simp add: bumped_def)
  show "load32 (mem st') a = load32 (mem st) a" by (rule load32_eq) (use m in simp)
  show "load32 (mem st') (a + 4) = load32 (mem st) (a + 4)" by (rule load32_eq) (use m [of "4 + _"] in \<open>simp add: add.assoc\<close>)
qed

lemma untouched_bumped: "bumped st st' b \<Longrightarrow> untouched st a \<Longrightarrow> untouched st' a"
  by (auto simp: bumped_def untouched_def word_less_nat_alt)

lemma boot_info_bumped:
  assumes b: "bumped st st' b" and "boot_info st mbi mods"
  shows "boot_info st' mbi mods"
proof -
  note B = assms(2) [unfolded boot_info_def]
  have addr: "mbi_mods_count (mem st') mbi = mbi_mods_count (mem st) mbi" "mbi_mods_addr (mem st') mbi = mbi_mods_addr (mem st) mbi"
    using load32_untouched [OF b, of "mbi + 20"] B by (simp_all add: mbi_mods_count_def mbi_mods_addr_def add.assoc)
  show ?thesis
    unfolding boot_info_def addr using B load32_untouched [OF b] untouched_bumped [OF b] by simp
qed

lemma modules_ok:
  assumes inv: "tree_inv st K" and info: "boot_info st mbi mods" and rm: "room st (8 * length mods)"
  obtains st' where "bl_GetModules (heap_magic st) (mem st) (heap st) mbi = Some (CurrentPointer (heap st), of_nat (length mods), mem st', heap st')"
    "st' = st\<lparr>mem := mem st', heap := heap st'\<rparr>" "tree_inv st' K" "bumped st st' (8 * length mods)"
    "\<forall>i<length mods. module_at (mem st') (CurrentPointer (heap st)) (of_nat i) = mods ! i"
proof -
  note B = info [unfolded boot_info_def]
  define h n where "h = heap st" and "n = unat (mbi_mods_count (mem st) mbi)"
  have n: "n = length mods" using B by (simp add: n_def)
  have hk: "heap_inv h" "unat (HeapMem h) + unat (HeapMemSize h) + 207 \<le> 2 ^ 32" using tree_invD(1) [OF inv] by (simp_all add: heap_ok_def h_def)
  have room: "unat (CurrentPointer h) + 8 * n \<le> unat (HeapMem h) + unat (HeapMemSize h)" using rm by (simp add: room_def h_def n)
  have n8: "unat (mbi_mods_count (mem st) mbi * 8) = 8 * n" using room hk by (subst unat_mult_no_wrap) (simp_all add: n_def)
  then have req: "request_ok h (mbi_mods_count (mem st) mbi * 8)" using room hk by (simp add: request_ok_def)
  have top: "unat (HeapMem h) + unat (HeapMemSize h) + 4 \<le> 2 ^ 32" using hk by simp
  have out: "outside h a = untouched st a" for a by (simp add: outside_def untouched_def h_def)
  obtain m' where A: "bl_GetModules (heap_magic st) (mem st) h mbi =
      Some (CurrentPointer h, of_nat n, m', h\<lparr>CurrentPointer := CurrentPointer h + of_nat (8 * n)\<rparr>)"
    "\<forall>i<n. module_at m' (CurrentPointer h) (of_nat i) = mods ! i" "\<forall>a. untouched st a \<longrightarrow> m' a = mem st a"
    using bl_GetModules_ok [OF hk(1) req room [unfolded n_def] top, of "heap_magic st"] B n unfolding n_def [symmetric] out by auto
  define st' where "st' = st\<lparr>mem := m', heap := h\<lparr>CurrentPointer := CurrentPointer h + of_nat (8 * n)\<rparr>\<rparr>"
  have u: "unat (CurrentPointer h + of_nat (8 * n)) = unat (CurrentPointer h) + 8 * n"
  proof -
    have "unat (of_nat (8 * n) :: u32) = 8 * n" using room hk by (simp only: unat_of_nat) (simp add: take_bit_nat_eq_self)
    then show ?thesis using room hk by (subst unat_add_no_wrap) (simp_all del: of_nat_mult)
  qed
  have b: "bumped st st' (8 * n)" using A(3) u by (simp add: bumped_def st'_def h_def)
  have "tree_inv st' K"
    using heap_ok_bumped [OF b tree_invD(1) [OF inv]] rm u n
    by (intro tree_inv_cong [OF inv]) (simp_all add: st'_def h_def word_le_nat_alt)
  then show thesis using that [of st'] A b n by (simp add: st'_def h_def)
qed

section \<open>The start of the file system\<close>

lemma initrd_path: "abs_path (cstr ''/initrd'') (bytes_of ''/initrd'')" "tokens slash (bytes_of ''/initrd'') = [bytes_of ''initrd'']"
proof -
  have "is_cstr (cstr ''/initrd'') (bytes_of ''/initrd'')" by (rule cstr_bytes) (simp_all add: bytes_of_def)
  then show "abs_path (cstr ''/initrd'') (bytes_of ''/initrd'')" by (simp add: abs_path_def bytes_of_def slash_def)
  show "tokens slash (bytes_of ''/initrd'') = [bytes_of ''initrd'']"
    using tokens_delim [of slash "bytes_of ''initrd''"] tokens_single [of slash "bytes_of ''initrd''"] by (simp add: bytes_of_def slash_def)
qed

lemma initrd_image_bumped:
  assumes "heap_ok st" and "off_heap st base len" and "bumped st st' b" and "initrd_image (mem st) base len ts"
  shows "initrd_image (mem st') base len ts"
proof -
  note same = image_bumped [OF assms(1-3)]
  have h: "header_in base len (base + 12)" using assms(4) by (simp add: initrd_image_def)
  have "load32 (mem st') base = load32 (mem st) base"
  proof (rule load32_eq)
    fix j :: nat assume "j < 4"
    then show "mem st' (base + of_nat j) = mem st (base + of_nat j)" using same h by (simp add: header_in_def)
  qed
  then show ?thesis using assms(4) header_same(3) [OF same h] image_same [OF same] by (simp add: initrd_image_def)
qed

text \<open>
  The file system before the image is loaded: the directory \<open>/initrd\<close> has its two links only.
\<close>

lemma start_directories:
  assumes h: "heap_ok st" and root: "nodes st (root_obj st) = Some n" "children n = 0" and rm: "room st (3600 + c)"
  obtains st1 st2 K i q r where "kernel_initramfs stk st = Some st1" "devfs_init stk st1 = Some (0, st2)"
    "tree_inv st2 K" "bumped st st2 3600" "room st2 c" "parent_ok st2 K (cstr ''/initrd'') (bytes_of ''/initrd'') i"
    "K i = [q, r]" "names_at st2 [q, r] dir_names"
proof -
  have room1: "has_room st (14 + 0)" using rm by (simp add: room_def has_room_def)
  obtain st1 K1 i s p d where A: "kernel_initramfs stk st = Some st1" "boot_layout st1 K1 i s p d" "bumped st st1 2800"
    by (rule kernel_initramfs_ok [OF h room1 root])
  note B = A(2) [unfolded boot_layout_def]
  have inv1: "tree_inv st1 K1" using B by simp
  have rm1: "room st1 (800 + c)" using room_bumped [OF A(3), of "800 + c"] rm by simp
  then have room4: "has_room st1 (4 + 0)" by (simp add: room_def has_room_def)
  have nms: "names_at st1 (K1 (fs_root st1)) (dir_names @ [bytes_of ''initrd'', bytes_of ''sys''])"
    "bytes_of ''dev'' \<notin> set (dir_names @ [bytes_of ''initrd'', bytes_of ''sys''])"
    using B by (simp_all add: dir_names_def bytes_of_def)
  obtain st2 K2 e where D: "devfs_init stk st1 = Some (0, st2)" "fs_step st1 K1 st2 K2 800"
    "\<forall>x\<in>live st1 K1. x \<noteq> fs_root st1 \<longrightarrow> K2 x = K1 x"
    by (rule devfs_init_ok [OF inv1 nms room4]) blast
  have inv2: "tree_inv st2 K2" and ext: "extends st1 K1 st2 K2" and b2: "bumped st1 st2 800" using D(2) by (simp_all add: fs_step_def)
  have roots: "fs_root st2 = fs_root st1" using ext by (simp add: extends_def)
  have i: "vfs_walk find_dispatch st1 (fs_root st1) [bytes_of ''initrd''] = Some i" by (rule boot_layout_paths(1) [OF A(2)])
  have "drop 2 (K1 (fs_root st1)) = [i, s]" using B by simp
  then have "K1 (fs_root st1) = take 2 (K1 (fs_root st1)) @ [i, s]" using append_take_drop_id [of 2 "K1 (fs_root st1)"] by simp
  note E = entries_differ [OF inv1 this]
  have il: "i \<in> live st1 K1" "is_dir st1 i" "names_at st1 (K1 i) dir_names" and ir: "i \<noteq> fs_root st1" using B E(4,6) by simp_all
  have "i \<noteq> 0" using live_node [OF inv1 il(1)] by blast
  then have "vfs_walk find_dispatch st2 (fs_root st2) [bytes_of ''initrd''] = Some i"
    using walk_extends [OF inv1 inv2 ext tree_invD(7) [OF inv1], of "[bytes_of ''initrd'']" i] i roots by (simp del: vfs_walk.simps)
  then have par: "parent_ok st2 K2 (cstr ''/initrd'') (bytes_of ''/initrd'') i"
    using inv2 initrd_path \<open>i \<noteq> 0\<close> is_dir_extends [OF ext il(1,2)] by (simp add: parent_ok_def del: vfs_walk.simps)
  have Ki: "K2 i = K1 i" using D(3) il(1) ir by blast
  obtain q r where qr: "K1 i = [q, r]" using il(3) by (auto simp: names_at_def dir_names_def list_all2_Cons2)
  have "names_at st2 [q, r] dir_names" using names_at_extends [OF ext il(3)] by (simp add: qr)
  then show thesis
    using that [OF A(1) D(1) inv2 _ _ par] Ki qr bumped_trans [OF A(3) b2] room_bumped [OF b2 rm1] by simp
qed

text \<open>
  The image is the module \<open>k\<close>, the first one that starts with the magic number; the modules up to it lie on
  page boundaries where the page directory has tables.
\<close>

definition initrd_module :: "ramfs \<Rightarrow> paging \<Rightarrow> bootloader_module list \<Rightarrow> nat \<Rightarrow> nat \<Rightarrow> inode list \<Rightarrow> bool" where
  "initrd_module st pg mods k len ts \<longleftrightarrow> k < length mods \<and> (\<forall>j\<le>k. aligned_module pg (mods ! j)) \<and>
     (\<forall>j<k. (\<forall>i<8. untouched st (mod_start (mods ! j) + of_nat i)) \<and> load32 (mem st) (mod_start (mods ! j)) \<noteq> INITRD_MAGIC) \<and>
     off_heap st (mod_start (mods ! k)) len \<and> initrd_image (mem st) (mod_start (mods ! k)) len ts"

lemma initrd_module_found:
  assumes h: "heap_ok st" and b: "bumped st st' b" and im: "initrd_module st pg mods k len ts"
    and n: "unat (of_nat (length mods) :: u32) = length mods" and mods: "\<forall>j<length mods. module_at (mem st') modules (of_nat j) = mods ! j"
  obtains pg' where "find_initrd modules (of_nat (length mods)) 0 st' pg = Some (of_nat k, st', pg')"
    "mod_start (module_at (mem st') modules (of_nat k)) = mod_start (mods ! k)" "(of_nat k :: u32) \<noteq> of_nat (length mods)"
    "(of_nat (length mods) :: u32) \<noteq> 0" "initrd_image (mem st') (mod_start (mods ! k)) len ts" "off_heap st' (mod_start (mods ! k)) len"
proof -
  note I = im [unfolded initrd_module_def]
  have img: "initrd_image (mem st') (mod_start (mods ! k)) len ts" "off_heap st' (mod_start (mods ! k)) len"
    using initrd_image_bumped [OF h _ b] off_heap_bumped [OF b] I by simp_all
  have md: "module_at (mem st') modules (of_nat j) = mods ! j" if "j \<le> k" for j using mods I that by simp
  have f1: "\<forall>j<k. load32 (mem st') (mod_start (module_at (mem st') modules (of_nat j))) \<noteq> INITRD_MAGIC"
    using I md load32_untouched(1) [OF b] by simp
  have f2: "load32 (mem st') (mod_start (module_at (mem st') modules (of_nat k))) = INITRD_MAGIC" using img(1) md by (simp add: initrd_image_def)
  have f3: "\<forall>j\<le>k. aligned_module pg (module_at (mem st') modules (of_nat j))" using I md by simp
  have kn: "k < unat (of_nat (length mods) :: u32)" using I n by simp
  obtain pg' where F: "find_initrd modules (of_nat (length mods)) 0 st' pg = Some (of_nat k, st', pg')"
    using find_initrd_ok [OF f1 f2 f3 kn, of 0] by auto
  have "unat (of_nat k :: u32) = k" using kn unat_lt2p [of "of_nat (length mods) :: u32"] by (simp add: unat_of_nat take_bit_nat_eq_self)
  then have "(of_nat k :: u32) \<noteq> of_nat (length mods)" using n I by (metis nat_neq_iff)
  moreover have "(of_nat (length mods) :: u32) \<noteq> 0" using kn by (metis not_less_zero unat_0)
  ultimately show thesis using that [OF F] md img by simp
qed

lemma kernel_init_fs_ok:
  assumes h: "heap_ok st" and root: "nodes st (root_obj st) = Some n" "children n = 0"
    and rm: "room st (3600 + 8 * length mods + isize ts)"
    and info: "boot_info st mbi mods" and im: "initrd_module st pg mods k len ts"
  obtains st' pg' K i q r ps where "kernel_init_fs stk mbi st pg = Some (st', pg')" "tree_inv st' K"
    "vfs_walk find_dispatch st' (fs_root st') [bytes_of ''initrd''] = Some i" "i \<in> live st' K" "is_dir st' i"
    "K i = q # r # ps" "names_at st' [q, r] dir_names" "loaded st' K ps ts" "bumped st st' (3600 + 8 * length mods + isize ts)"
proof -
  define base where "base = mod_start (mods ! k)"
  have rm': "room st (3600 + (8 * length mods + isize ts))" using rm by (simp add: add.assoc)
  obtain st1 st2 K i q r where A: "kernel_initramfs stk st = Some st1" "devfs_init stk st1 = Some (0, st2)"
    "tree_inv st2 K" "bumped st st2 3600" "room st2 (8 * length mods + isize ts)" "parent_ok st2 K (cstr ''/initrd'') (bytes_of ''/initrd'') i"
    "K i = [q, r]" "names_at st2 [q, r] dir_names"
    by (rule start_directories [OF h root rm'])
  have rm2: "room st2 (8 * length mods)" using A(5) by (simp add: room_def)
  obtain st3 where B: "bl_GetModules (heap_magic st2) (mem st2) (heap st2) mbi = Some (CurrentPointer (heap st2), of_nat (length mods), mem st3, heap st3)"
    "st3 = st2\<lparr>mem := mem st3, heap := heap st3\<rparr>" "tree_inv st3 K" "bumped st2 st3 (8 * length mods)"
    "\<forall>j<length mods. module_at (mem st3) (CurrentPointer (heap st2)) (of_nat j) = mods ! j"
    by (rule modules_ok [OF A(3) boot_info_bumped [OF A(4) info] rm2])
  define modules where "modules = CurrentPointer (heap st2)"
  have b3: "bumped st st3 (3600 + 8 * length mods)" by (rule bumped_trans [OF A(4) B(4)])
  have nm: "unat (of_nat (length mods) :: u32) = length mods" using info by (metis boot_info_def of_nat_unat ucast_id)
  obtain pg1 where F: "find_initrd modules (of_nat (length mods)) 0 st3 pg = Some (of_nat k, st3, pg1)"
    "mod_start (module_at (mem st3) modules (of_nat k)) = base" "(of_nat k :: u32) \<noteq> of_nat (length mods)"
    "(of_nat (length mods) :: u32) \<noteq> 0" "initrd_image (mem st3) base len ts" "off_heap st3 base len"
    unfolding base_def by (rule initrd_module_found [OF h b3 im nm B(5) [folded modules_def]])
  have n3: "nodes st3 = nodes st2" "fs_root st3 = fs_root st2" "root_obj st3 = root_obj st2"
    by (subst B(2), simp)+
  have "extends st2 K st3 K" using extends_refl [OF A(3)] n3 live_cong [OF n3(3), of K] by (simp add: extends_def)
  then have par3: "parent_ok st3 K (cstr ''/initrd'') (bytes_of ''/initrd'') i" by (rule parent_ok_extends [OF A(6) B(3)])
  have rm3: "room st3 (isize ts)" by (rule room_bumped [OF B(4) A(5)])
  obtain st4 K4 ps where L: "ramfs_loadInitrd stk st3 base (cstr ''/initrd'') = Some (VFS_T_OK, st4)" "fs_step st3 K st4 K4 (isize ts)"
    "K4 i = [q, r] @ ps" "loaded st4 K4 ps ts"
    by (rule ramfs_loadInitrd_ok [OF par3 A(7) F(5,6) rm3]) blast
  define md4 where "md4 = module_at (mem st4) modules (of_nat k)"
  define pg2 where "pg2 = mem_unmap (mod_start md4) (mod_size md4) pg1"
  have res: "kernel_init_fs stk mbi st pg = Some (st4, pg2)"
    using A(1,2) B(1) F(1-4) L(1) B(2) [symmetric]
    by (simp add: kernel_init_fs_def modules_def [symmetric] pg2_def md4_def Let_def)
  have inv4: "tree_inv st4 K4" and ext4: "extends st3 K st4 K4" and b4: "bumped st3 st4 (isize ts)" using L(2) by (simp_all add: fs_step_def)
  have par4: "parent_ok st4 K4 (cstr ''/initrd'') (bytes_of ''/initrd'') i" by (rule fs_step_parent [OF par3 L(2)])
  have "names_at st3 (K i) dir_names" using A(7,8) n3(1) by (simp add: names_at_def named_def [abs_def])
  then have nms: "names_at st4 [q, r] dir_names" using names_at_extends [OF ext4, of i] A(7) by simp
  show thesis
    using that [OF res inv4 _ parent_okD(3,4) [OF par4] _ nms L(4)] par4 initrd_path(2) L(3) bumped_trans [OF b3 b4] by (simp add: parent_ok_def)
qed

end
