(* ===== verification/Props_Boot.thy ===== *)
theory Props_Boot
  imports Coresys_Start Props_Fs Props_Arch
begin

text \<open>
  The start of the file system as a whole: what the kernel can read after \<open>kernel_init_fs\<close> from the
  image that the boot loader left in memory, applied to an image of one directory with one file.
\<close>

section \<open>Reading a loaded file\<close>

lemma loaded_file_reads:
  assumes n: "nodes st p = Some n" "p \<noteq> 0" "file_node st n f xs" and buf: "off_heap st buf (length xs)"
    and h: "heap_ok st" and len: "length xs < 2 ^ 31"
  obtains st' where "fs_read io_dispatch st p buf (of_nat (length xs)) 0 = Some (int (length xs), st')"
    "\<forall>j<length xs. mem st' (buf + of_nat j) = xs ! j"
proof -
  define N where "N = (of_nat (length xs) :: u32)"
  have u: "unat N = length xs" using len by (simp add: N_def unat_of_nat take_bit_nat_eq_self)
  have s: "sint N = int (length xs)" using len by (simp add: N_def sint_uint signed_take_bit_int_eq_self_iff uint_nat u [unfolded N_def])
  have reg: "regular_at st p n" using n by (simp add: regular_at_def file_node_def)
  have f: "flength n = N" "unat (HeapMem (heap st)) \<le> unat (filePtr n)" "unat (filePtr n) + length xs \<le> unat (CurrentPointer (heap st))"
    "\<forall>j<length xs. mem st (filePtr n + of_nat j) = xs ! j"
    using n(3) by (simp_all add: file_node_def N_def word_le_nat_alt)
  have hp: "unat (CurrentPointer (heap st)) \<le> unat (HeapMem (heap st)) + unat (HeapMemSize (heap st))"
    using h by (simp add: heap_ok_def heap_inv_def)
  have "unat (filePtr n) + length xs \<le> 2 ^ 32" using f(3) unat_lt2p [of "CurrentPointer (heap st)"] by simp
  then have fit: "fits (filePtr n) N" "fits buf N" using buf u by (simp_all add: fits_def off_heap_def)
  have dis: "disjoint buf N (filePtr n + 0) N"
  proof (cases "unat buf + length xs \<le> unat (HeapMem (heap st))")
    case True
    then show ?thesis using fit f(2) u by (intro disjointI) simp_all
  next
    case False
    then have "unat (filePtr n) + unat N \<le> unat buf" using buf f(3) hp u by (auto simp: off_heap_def)
    then show ?thesis unfolding disjoint_sym [of buf] using fit by (intro disjointI) simp_all
  qed
  have "buf \<noteq> 0" "unat N + unat (0 :: u32) \<le> unat (flength n)" using buf f(1) by (simp_all add: off_heap_def)
  then obtain st' where r: "ramfs_read st p buf N 0 = Some (sint N, st')" "\<And>i. i < N \<Longrightarrow> mem st' (buf + i) = mem st (filePtr n + 0 + i)"
    using ramfs_read_ok [OF reg _ _ dis] by metis
  have "mem st' (buf + of_nat j) = xs ! j" if "j < length xs" for j
  proof -
    have "(of_nat j :: u32) < N" using that len u by (simp add: word_less_nat_alt unat_of_nat take_bit_nat_eq_self)
    then show ?thesis using r(2) f(4) that by simp
  qed
  then show thesis using that r(1) fs_io_regular(2) [OF reg] s by (simp add: N_def)
qed

text \<open>
  C7. The files of the initial RAM disk. The kernel starts with an empty file system, enough heap,
  and the boot loader's list of modules, one of which, behind modules that are not RAM disks, is
  the image of a tree of files and directories whose names are distinct in each directory. Then
  \<open>kernel_init_fs\<close> returns, the file system is well formed, and every file of the image, at any
  depth, is found under /initrd by its path, and reading it delivers its bytes.
\<close>

theorem start_initrd_files:
  assumes "heap_ok st" and "nodes st (root_obj st) = Some n" "children n = 0"
    and "room st (3600 + 8 * length mods + isize ts)"
    and "boot_info st mbi mods" and "initrd_module st pg mods k len ts"
    and "distinct (entry_names ts)" "names_distinct ts" and "img_walk ts fs = Some (IFile f xs)"
    and "abs_path path s" "tokens slash s = bytes_of ''initrd'' # fs"
    and "off_heap st buf (length xs)" "length xs < 2 ^ 31"
  shows "\<exists>st' pg' K p st''. kernel_init_fs stk mbi st pg = Some (st', pg') \<and> tree_inv st' K \<and>
    ramfs_get_node stk' st' path = Some p \<and>
    fs_read io_dispatch st' p buf (of_nat (length xs)) 0 = Some (int (length xs), st'') \<and>
    (\<forall>j<length xs. mem st'' (buf + of_nat j) = xs ! j)"
proof -
  obtain st' pg' K i q r ps where S: "kernel_init_fs stk mbi st pg = Some (st', pg')" "tree_inv st' K"
    "vfs_walk find_dispatch st' (fs_root st') [bytes_of ''initrd''] = Some i" "i \<in> live st' K" "is_dir st' i"
    "K i = q # r # ps" "names_at st' [q, r] dir_names" "loaded st' K ps ts" "bumped st st' (3600 + 8 * length mods + isize ts)"
    by (rule kernel_init_fs_ok [OF assms(1-6)])
  obtain p where p: "vfs_walk find_dispatch st' (fs_root st') ([bytes_of ''initrd''] @ fs) = Some p"
    "loaded st' K [p] [IFile f xs]" "p \<in> live st' K"
    using img_walk_loaded [OF S(2-8) assms(7-9)] by blast
  then obtain m where m: "nodes st' p = Some m" "file_node st' m f xs" by auto
  have "p \<noteq> 0" using live_node [OF S(2) p(3)] by blast
  moreover have "off_heap st' buf (length xs)" using assms(12) S(9) by (simp add: off_heap_def bumped_def)
  ultimately obtain st'' where "fs_read io_dispatch st' p buf (of_nat (length xs)) 0 = Some (int (length xs), st'')"
    "\<forall>j<length xs. mem st'' (buf + of_nat j) = xs ! j"
    using loaded_file_reads [OF m(1) _ m(2) _ tree_invD(1) [OF S(2)] assms(13)] by blast
  moreover have "ramfs_get_node stk' st' path = Some p"
    using ramfs_get_node_walk [OF S(2), of path s stk'] assms(10,11) p(1) by (simp add: abs_path_def)
  ultimately show ?thesis using S(1,2) by blast
qed

text \<open>
  A machine whose boot loader left one module at 0x400000: an image with a directory d that holds
  a file a of two bytes.
\<close>

definition demo_image :: "(u32 \<times> u8) list" where
  "demo_image = [(0x20014, 1), (0x20019, 1), (0x2001A, 2), (0x20102, 0x40), (0x20105, 0x18), (0x20106, 0x40),
     (0x400000, 0x64), (0x400001, 0x72), (0x400002, 0x6E), (0x400003, 0x69), (0x400094, 1),
     (0x4000A4, 0x64), (0x400128, 2), (0x40012C, 1),
     (0x40013C, 0x61), (0x4001C0, 1), (0x4001C9, 2), (0x4001CC, 2), (0x400200, 0x68), (0x400201, 0x69)]"

definition demo_machine :: ramfs where
  "demo_machine = demo_boot\<lparr>mem := (\<lambda>a. case map_of demo_image a of Some b \<Rightarrow> b | None \<Rightarrow> 0)\<rparr>"

definition demo_tree :: "inode list" where
  "demo_tree = [IDir [0x64] [IFile [0x61] [0x68, 0x69]]]"

definition demo_modules :: "bootloader_module list" where
  "demo_modules = [\<lparr>mod_start = 0x400000, mod_size = 0x1800\<rparr>]"

lemma demo_machine_mem: "mem demo_machine a = (case map_of demo_image a of Some b \<Rightarrow> b | None \<Rightarrow> 0)"
  by (simp add: demo_machine_def)

lemma demo_machine_heap: "heap demo_machine = \<lparr>HeapMem = 0x1000, HeapMemSize = 0x10000, CurrentPointer = 0x1000\<rparr>"
  using demo_heap by (simp add: demo_machine_def)

lemma demo_machine_off_heap: "0x20000 \<le> unat a \<Longrightarrow> unat a + k \<le> 2 ^ 32 \<Longrightarrow> off_heap demo_machine a k"
  by (auto simp: off_heap_def demo_machine_heap)

lemma demo_machine_ok: "heap_ok demo_machine" "nodes demo_machine (root_obj demo_machine) = Some zero_node"
  using demo_boot_ok by (simp_all add: demo_machine_def heap_ok_def)

lemma demo_machine_untouched: "0x20000 \<le> unat a \<Longrightarrow> unat a + 8 \<le> 2 ^ 32 \<Longrightarrow> \<forall>j<8. untouched demo_machine (a + of_nat j)"
  using off_heap_untouched [OF _ demo_machine_off_heap, of a 8] demo_machine_ok(1)
  by (simp add: heap_ok_def unat_of_nat take_bit_nat_eq_self)

lemma demo_machine_info: "boot_info demo_machine 0x20000 demo_modules"
proof -
  have "mbi_mods_count (mem demo_machine) 0x20000 = 1" "mbi_mods_addr (mem demo_machine) 0x20000 = 0x20100"
    "load32 (mem demo_machine) 0x20100 = 0x400000" "load32 (mem demo_machine) 0x20104 = 0x401800"
    by code_simp+
  then show ?thesis using demo_machine_untouched [of "0x20014"] demo_machine_untouched [of "0x20100"]
    by (simp add: boot_info_def demo_modules_def)
qed

lemma demo_machine_image: "initrd_image (mem demo_machine) 0x400000 0x1000 demo_tree"
proof -
  define m where "m = mem demo_machine"
  have hd: "load32 m 0x400000 = INITRD_MAGIC" "load32 m 0x400094 = 1" unfolding m_def by code_simp+
  have d: "m 0x4000A4 = 0x64" "m 0x4000A5 = 0" "load32 m 0x400128 = INITRD_FTYPE_DIR" "load32 m 0x40012C = 1" unfolding m_def by code_simp+
  have f: "m 0x40013C = 0x61" "m 0x40013D = 0" "load32 m 0x4001C0 = INITRD_FTYPE_REGULAR" "load32 m 0x4001C8 = 0x200" "load32 m 0x4001CC = 2"
    "m 0x400200 = 0x68" "m 0x400201 = 0x69" unfolding m_def by code_simp+
  have n: "header_named m 0x4000A4 [0x64]" "header_named m 0x40013C [0x61]"
    using d f by (simp_all add: header_named_def initrd_file_at_def view_def)
  show ?thesis unfolding m_def [symmetric]
    using hd d f n by (simp add: initrd_image_def demo_tree_def initrd_file_at_def header_in_def data_in_def less_Suc_eq)
qed

lemma demo_machine_module: "initrd_module demo_machine demo_paging demo_modules 0 0x1000 demo_tree"
proof -
  have "PAGE_ALIGN_FLOOR 0x400000 = 0x400000" by code_simp
  then have "aligned_module demo_paging (demo_modules ! 0)" using demo_mappable by (simp add: aligned_module_def demo_modules_def)
  moreover have "off_heap demo_machine 0x400000 0x1000" by (rule demo_machine_off_heap) simp_all
  ultimately show ?thesis using demo_machine_image by (simp add: initrd_module_def demo_modules_def)
qed

lemma demo_machine_room: "room demo_machine (3600 + 8 * length demo_modules + isize demo_tree)"
proof -
  have "unat (round_up 2) = 4" by code_simp
  then show ?thesis by (simp add: room_def demo_machine_heap demo_modules_def demo_tree_def)
qed

lemma demo_tree_names: "distinct (entry_names demo_tree)" "names_distinct demo_tree"
  "img_walk demo_tree [[0x64], [0x61]] = Some (IFile [0x61] [0x68, 0x69])"
  by (simp_all add: demo_tree_def entry_names_def entries_def dir_names_def)

lemma demo_tree_path: "abs_path (cstr ''/initrd/d/a'') (bytes_of ''/initrd/d/a'')"
  "tokens slash (bytes_of ''/initrd/d/a'') = bytes_of ''initrd'' # [[0x64], [0x61]]"
proof -
  have "is_cstr (cstr ''/initrd/d/a'') (bytes_of ''/initrd/d/a'')" by (rule cstr_bytes) (simp_all add: bytes_of_def)
  then show "abs_path (cstr ''/initrd/d/a'') (bytes_of ''/initrd/d/a'')" by (simp add: abs_path_def bytes_of_def slash_def)
  show "tokens slash (bytes_of ''/initrd/d/a'') = bytes_of ''initrd'' # [[0x64], [0x61]]" by code_simp
qed

theorem start_initrd_files_witness:
  "\<exists>st' pg' K p st''. kernel_init_fs demo_stk 0x20000 demo_machine demo_paging = Some (st', pg') \<and> tree_inv st' K \<and>
    ramfs_get_node demo_stk st' (cstr ''/initrd/d/a'') = Some p \<and>
    fs_read io_dispatch st' p 0x30000 2 0 = Some (2, st'') \<and> (\<forall>j<2. mem st'' (0x30000 + of_nat j) = [0x68, 0x69] ! j)"
proof -
  have "off_heap demo_machine 0x30000 (length [0x68, 0x69 :: u8])" by (rule demo_machine_off_heap) simp_all
  moreover have "length [0x68, 0x69 :: u8] < 2 ^ 31" by simp
  ultimately show ?thesis
    using start_initrd_files [OF demo_machine_ok _ demo_machine_room demo_machine_info demo_machine_module demo_tree_names demo_tree_path,
        where buf = "0x30000" and stk = demo_stk and stk' = demo_stk]
    by (simp add: zero_node_def numeral_2_eq_2 [symmetric])
qed

end
