(* ===== verification/Props_Pci.thy ===== *)
theory Props_Pci
  imports IA32_Pci_Scan Coresys_Boot Props_Fs
begin

text \<open>
  The properties of the start of the file system (kernel.c) and of the PCI scan (pci.c). The scan is applied to a
  machine with a host bridge, a bridge to a second bus, and a device on that bus, on the file system
  that the kernel has just made.
\<close>

section \<open>A machine\<close>

text \<open>A machine whose data port shows the configuration space \<open>cfg\<close> at the address that was written last.\<close>

definition pci_machine :: "pci_space \<Rightarrow> machine" where
  "pci_machine cfg tr req =
     (case last tr of
        Out32 a port \<Rightarrow> ucast (space32 cfg (ucast (drop_bit 16 a)) (ucast (drop_bit 11 a AND 0x1F)) (ucast (drop_bit 8 a AND 7)) (ucast a AND 0xFC))
      | _ \<Rightarrow> 0)"

lemma pci_address_fields:
  assumes "d < PCI_DEV_PER_BUS" and "f < PCI_FUNC_PER_DEV"
  shows "ucast (drop_bit 16 (pci_address b d f r)) = b" "ucast (drop_bit 11 (pci_address b d f r) AND 0x1F) = d"
    "ucast (drop_bit 8 (pci_address b d f r) AND 7) = f" "ucast (pci_address b d f r) AND 0xFC = r AND 0xFC"
proof -
  have small: "\<not> bit x n" if "unat x < 2 ^ k" "k \<le> n" for x :: u8 and n k
  proof -
    have "(2 :: nat) ^ k \<le> 2 ^ n" using that(2) by (rule power_increasing) simp
    then have "unat x < 2 ^ n" using that(1) by linarith
    then have "\<not> bit (unat x) n" by (simp add: bit_iff_odd)
    then show ?thesis by (simp add: bit_unsigned_iff)
  qed
  have d: "\<not> bit d n" if "5 \<le> n" for n using small [of d 5] that assms(1) by (simp add: PCI_DEV_PER_BUS_def word_less_nat_alt)
  have f: "\<not> bit f n" if "3 \<le> n" for n using small [of f 3] that assms(2) by (simp add: PCI_FUNC_PER_DEV_def word_less_nat_alt)
  have masks: "bit (31 :: int) n \<longleftrightarrow> n < 5" "bit (7 :: int) n \<longleftrightarrow> n < 3" "bit (252 :: int) n \<longleftrightarrow> 2 \<le> n \<and> n < 8"
    "bit (32768 :: int) n \<longleftrightarrow> n = 15" "bit (1048576 :: int) n \<longleftrightarrow> n = 20" "bit (8388608 :: int) n \<longleftrightarrow> n = 23" "bit (2147483648 :: int) n \<longleftrightarrow> n = 31" for n
  proof -
    have "(31 :: int) = mask 5" "(7 :: int) = mask 3" "(252 :: int) = push_bit 2 (mask 6)" "(32768 :: int) = push_bit 15 1"
      "(1048576 :: int) = push_bit 20 1" "(8388608 :: int) = push_bit 23 1" "(2147483648 :: int) = push_bit 31 1"
      by (simp_all add: mask_eq_exp_minus_1 push_bit_eq_mult)
    then show "bit (31 :: int) n \<longleftrightarrow> n < 5" "bit (7 :: int) n \<longleftrightarrow> n < 3" "bit (252 :: int) n \<longleftrightarrow> 2 \<le> n \<and> n < 8"
      "bit (32768 :: int) n \<longleftrightarrow> n = 15" "bit (1048576 :: int) n \<longleftrightarrow> n = 20" "bit (8388608 :: int) n \<longleftrightarrow> n = 23"
      "bit (2147483648 :: int) n \<longleftrightarrow> n = 31" by (auto simp only: bit_simps) auto
  qed
  have low: "bit d n \<Longrightarrow> n < 5" "bit f n \<Longrightarrow> n < 3" for n using d f not_le by blast+
  show "ucast (drop_bit 16 (pci_address b d f r)) = b"
    by (rule bit_word_eqI) (auto simp: pci_address_def PCI_ENABLE_BIT_def bit_simps masks d f dest: low)
  show "ucast (drop_bit 11 (pci_address b d f r) AND 0x1F) = d"
    by (rule bit_word_eqI) (auto simp: pci_address_def PCI_ENABLE_BIT_def bit_simps masks d f dest: low)
  show "ucast (drop_bit 8 (pci_address b d f r) AND 7) = f"
    by (rule bit_word_eqI) (auto simp: pci_address_def PCI_ENABLE_BIT_def bit_simps masks d f dest: low)
  show "ucast (pci_address b d f r) AND 0xFC = r AND 0xFC" 
    by (rule bit_word_eqI) (auto simp: pci_address_def PCI_ENABLE_BIT_def bit_simps masks d f dest: low)
qed

lemma pci_machine_space: "has_space (pci_machine cfg) cfg"
  unfolding has_space_def by (simp add: pci_machine_def pci_address_fields)

text \<open>
  A small system: a host bridge, a bridge to the bus 1, and a device on that bus.
\<close>

definition demo_space :: pci_space where
  "demo_space b d f r =
     (if (b, d, f) = (0, 0, 0) then (if r = 0 then 0x86 else if r = 1 then 0x80 else if r = 0x0B then 6 else 0)
      else if (b, d, f) = (0, 1, 0) then (if r = 0 then 0x86 else if r = 1 then 0x80 else if r = 0x0A then 4 else if r = 0x0B then 6 else if r = 0x19 then 1 else 0)
      else if (b, d, f) = (1, 3, 0) then (if r = 0 then 0xEC else if r = 1 then 0x10 else if r = 2 then 0x39 else if r = 3 then 0x81 else 0)
      else 0xFF)"

lemma demo_functions: "all_list 2 demo_space = Some [(0, 0, 0), (0, 1, 0), (1, 3, 0)]"
  by code_simp

lemma device_path_tokens: "tokens slash device_path = [bytes_of ''sys'', bytes_of ''device'']"
proof -
  have "device_path = bytes_of ''/sys'' @ slash # bytes_of ''device''" by (simp add: device_path_def bytes_of_def slash_def)
  moreover have "tokens slash (bytes_of ''device'') = [bytes_of ''device'']" by (rule tokens_single) (simp_all add: bytes_of_def slash_def)
  ultimately show ?thesis using boot_paths(4) by (metis tokens_append append_Cons append_Nil)
qed

text \<open>A configuration file for the device on bus 1.\<close>

definition demo_conf :: ramfs where
  "demo_conf = demo_boot\<lparr>nodes := [0x1000 \<mapsto> (conf_area_node (\<lambda>_. 0) (cstr ''config'') 7)\<lparr>filePtr := 0x10C8\<rparr>],
     mem := (\<lambda>_. 0)(0x10C8 := 1, 0x10C9 := 3), heap := (heap demo_boot)\<lparr>CurrentPointer := 0x2000\<rparr>\<rparr>"

lemma demo_conf_file: "conf_file demo_conf 0x1000 1 3 0"
  by (simp add: conf_file_def demo_conf_def conf_area_node_def in_heap_def demo_heap)

lemma demo_buffer_far: "k < 4 \<Longrightarrow> 0x20000 + of_nat k \<notin> {0x1000 + 200, 0x1000 + 201, 0x1000 + 202 :: u32}"
proof -
  assume "k < 4"
  then have "k = 0 \<or> k = 1 \<or> k = 2 \<or> k = 3" by linarith
  then show ?thesis by auto
qed

section \<open>The configuration file\<close>

lemma conf_read32_space:
  assumes "has_space hw cfg" and "d < PCI_DEV_PER_BUS" "f < PCI_FUNC_PER_DEV"
    and "mem st a = b" "mem st (a + 1) = d" "mem st (a + 2) = f"
  shows "conf_read32 hw a reg st tr = (drop_bit (8 * unat (ucast reg AND (3 :: u8))) (space32 cfg b d f (ucast reg AND 0xFC)),
    tr @ read_events cfg b d f (ucast reg))"
  using assms(4-6) pci_read32_space [OF assms(1-3), of b "ucast reg" tr] by (simp add: conf_read32_def)

lemma and_3_mod: "x AND 3 = 0 \<longleftrightarrow> unat x mod 4 = 0" for x :: u8
proof -
  have "x AND 3 = take_bit 2 x" by (simp add: take_bit_eq_mask mask_eq_exp_minus_1)
  then have "unat (x AND 3) = unat x mod 4" by (simp add: take_bit_eq_mod unat_mod)
  then show ?thesis by (metis unat_eq_zero)
qed

lemma conf_read_loop:
  assumes hw: "has_space hw cfg" "d < PCI_DEV_PER_BUS" "f < PCI_FUNC_PER_DEV" and dev: "mem st a = b" "mem st (a + 1) = d" "mem st (a + 2) = f"
    and far: "\<forall>k<n. buf + of_nat k \<notin> {a, a + 1, a + 2}" and n: "n < 2 ^ 32"
  obtains m us where "fold (\<lambda>k. (\<lambda>(st, tr). case conf_read32 hw a (off + of_nat k) st tr of
       (v, tr) \<Rightarrow> (st\<lparr>mem := (mem st)(buf + of_nat k := ucast v)\<rparr>, tr))) [0..<n] (st, tr) = (st\<lparr>mem := m\<rparr>, tr @ us)"
    "\<forall>k<n. m (buf + of_nat k) = cfg b d f (ucast (off + of_nat k))" "\<forall>x. (\<forall>k<n. x \<noteq> buf + of_nat k) \<longrightarrow> m x = mem st x"
  using far n
proof (induction n arbitrary: thesis)
  case 0
  show ?case by (rule 0(1) [of "mem st" "[]"]) simp_all
next
  case (Suc n)
  have far: "\<forall>k<n. buf + of_nat k \<notin> {a, a + 1, a + 2}" using Suc.prems(2) by simp
  obtain m us where A: "fold (\<lambda>k. (\<lambda>(st, tr). case conf_read32 hw a (off + of_nat k) st tr of
       (v, tr) \<Rightarrow> (st\<lparr>mem := (mem st)(buf + of_nat k := ucast v)\<rparr>, tr))) [0..<n] (st, tr) = (st\<lparr>mem := m\<rparr>, tr @ us)"
    "\<forall>k<n. m (buf + of_nat k) = cfg b d f (ucast (off + of_nat k))" "\<forall>x. (\<forall>k<n. x \<noteq> buf + of_nat k) \<longrightarrow> m x = mem st x"
    by (rule Suc.IH [OF _ far]) (use Suc.prems(3) in simp_all)
  have "m a = b" "m (a + 1) = d" "m (a + 2) = f" using A(3) far dev by (metis insertCI)+
  then have r: "conf_read32 hw a (off + of_nat n) (st\<lparr>mem := m\<rparr>) (tr @ us) =
      (drop_bit (8 * unat (ucast (off + of_nat n) AND (3 :: u8))) (space32 cfg b d f (ucast (off + of_nat n) AND 0xFC)),
       (tr @ us) @ read_events cfg b d f (ucast (off + of_nat n)))"
    by (intro conf_read32_space [OF hw]) simp_all
  have inj: "buf + of_nat k \<noteq> buf + of_nat n" if "k < n" for k
    using that Suc.prems(3) by (auto simp: word_of_nat_eq_iff take_bit_nat_eq_self)
  show ?case
  proof (rule Suc.prems(1) [of "m(buf + of_nat n := cfg b d f (ucast (off + of_nat n)))" "us @ read_events cfg b d f (ucast (off + of_nat n))"])
    show "fold (\<lambda>k. (\<lambda>(st, tr). case conf_read32 hw a (off + of_nat k) st tr of
       (v, tr) \<Rightarrow> (st\<lparr>mem := (mem st)(buf + of_nat k := ucast v)\<rparr>, tr))) [0..<Suc n] (st, tr) =
       (st\<lparr>mem := m(buf + of_nat n := cfg b d f (ucast (off + of_nat n)))\<rparr>, tr @ us @ read_events cfg b d f (ucast (off + of_nat n)))"
      using A(1) r by (simp add: space_read8)
  qed (use A(2,3) inj in \<open>auto simp: less_Suc_eq\<close>)
qed

section \<open>Properties\<close>

text \<open>
  C6. \<open>kernel_initramfs\<close> on a heap with room for 14 nodes succeeds and leaves a well-formed file system whose
  root holds \<open>initrd\<close> and \<open>sys\<close>, and whose \<open>sys\<close> holds \<open>proc\<close> and \<open>device\<close>, all of them empty directories
  that their paths resolve to; it takes 2800 bytes of the heap.
\<close>

theorem kernel_boot_layout:
  assumes "heap_ok st" and "has_room st 14" and "nodes st (root_obj st) = Some n" and "children n = 0"
  shows "\<exists>st' K i s p d. kernel_initramfs stk st = Some st' \<and> boot_layout st' K i s p d \<and>
    vfs_walk find_dispatch st' (fs_root st') [bytes_of ''initrd''] = Some i \<and>
    vfs_walk find_dispatch st' (fs_root st') [bytes_of ''sys''] = Some s \<and>
    vfs_walk find_dispatch st' (fs_root st') [bytes_of ''sys'', bytes_of ''proc''] = Some p \<and>
    vfs_walk find_dispatch st' (fs_root st') [bytes_of ''sys'', bytes_of ''device''] = Some d \<and>
    unat (CurrentPointer (heap st')) = unat (CurrentPointer (heap st)) + 2800"
proof -
  have "has_room st (14 + 0)" using assms(2) by simp
  then obtain st' K i s p d where A: "kernel_initramfs stk st = Some st'" "boot_layout st' K i s p d" "bumped st st' 2800"
    by (rule kernel_initramfs_ok [OF assms(1) _ assms(3,4)])
  then show ?thesis using boot_layout_paths [OF A(2)] by (auto simp: bumped_def)
qed

theorem kernel_boot_layout_witness:
  "\<exists>st' K i s p d. kernel_initramfs demo_stk demo_boot = Some st' \<and> boot_layout st' K i s p d \<and>
    vfs_walk find_dispatch st' (fs_root st') [bytes_of ''initrd''] = Some i \<and>
    vfs_walk find_dispatch st' (fs_root st') [bytes_of ''sys''] = Some s \<and>
    vfs_walk find_dispatch st' (fs_root st') [bytes_of ''sys'', bytes_of ''proc''] = Some p \<and>
    vfs_walk find_dispatch st' (fs_root st') [bytes_of ''sys'', bytes_of ''device''] = Some d \<and>
    unat (CurrentPointer (heap st')) = unat (CurrentPointer (heap demo_boot)) + 2800"
  by (rule kernel_boot_layout [OF demo_boot_ok(1) _ demo_boot_ok(3,4)]) (simp add: has_room_def demo_heap)

text \<open>
  C11. The scan of the PCI buses, on a machine with a configuration space \<open>cfg\<close> whose bus numbers are below 100,
  with room in the heap: it returns RET_T_OK, keeps the file system well formed and every path that
  resolved before, and \<open>/sys/device/pci\<close> holds exactly one directory for each function that can be reached
  from the host controllers through bridges, in the order of the scan, with the files \<open>vendor\<close>, \<open>device\<close>,
  \<open>subsystem_vendor\<close> (with the device identifier, as the code has it) and \<open>config\<close>.
\<close>

theorem pci_scan_devices:
  assumes par: "parent_ok st K (cstr ''/sys/device'') device_path p" and absent: "pick st (str_view (bytes_of ''pci'')) (K p) = 0"
    and hw: "has_space hw cfg" and F: "all_list k cfg = Some F" "distinct F" "\<forall>(b, d, f)\<in>set F. unat b < 100"
    and room: "has_room st (8 * length F + 6)" and loc: "off_heap st loc 4"
  shows "\<exists>st' K' e us. pci_scan k hw stk loc (st, tr) = Some (RET_T_OK, st', tr @ us) \<and> tree_inv st' K' \<and>
    (\<forall>ts x. vfs_walk find_dispatch st (fs_root st) ts = Some x \<longrightarrow> x \<noteq> 0 \<longrightarrow> vfs_walk find_dispatch st' (fs_root st') ts = Some x) \<and>
    vfs_walk find_dispatch st' (fs_root st') (tokens slash pci_path) = Some e \<and>
    names_at st' (K' e) (dir_names @ map function_name F) \<and> (\<forall>(b, d, f)\<in>set F. device_at st' cfg b d f) \<and>
    (\<forall>b d f. (b, d, f) \<in> set F \<longleftrightarrow> (\<exists>h\<in>set (host_buses cfg). bus_reached cfg h b) \<and> visible cfg b d f)"
proof -
  note reach = all_list_reached [OF F(1)]
  have rng: "list_all in_range F"
    using F(3) reach by (fastforce simp: list_all_iff in_range_def visible_def PCI_DEV_PER_BUS_def PCI_FUNC_PER_DEV_def)
  have room': "has_room st (3 + (8 * length F + 3))" using room by (simp add: has_room_def)
  obtain st' K' e us where A: "pci_scan k hw stk loc (st, tr) = Some (RET_T_OK, st', tr @ us)" "tree_inv st' K'" "extends st K st' K'"
    "scanned cfg e st' K' F"
    by (rule pci_scan_ok [OF par absent hw F(1,2) rng room' loc])
  have "vfs_walk find_dispatch st' (fs_root st') ts = Some x"
    if "vfs_walk find_dispatch st (fs_root st) ts = Some x" "x \<noteq> 0" for ts x
    using walk_extends [OF parent_okD(1) [OF par] A(2,3) tree_invD(7) [OF parent_okD(1) [OF par]] that] A(3) by (simp add: extends_def)
  moreover have "\<forall>(b, d, f)\<in>set F. device_at st' cfg b d f" using scanned_device [OF A(4) F(2) rng] by auto
  ultimately show ?thesis using A(1,2,4) reach unfolding scanned_def parent_ok_def
    by (intro exI [of _ st'] exI [of _ K'] exI [of _ e] exI [of _ us]) auto
qed

theorem pci_scan_devices_witness:
  "\<exists>st st' K' e us. kernel_initramfs demo_stk demo_boot = Some st \<and>
    pci_scan 2 (pci_machine demo_space) demo_stk 0x20000 (st, []) = Some (RET_T_OK, st', us) \<and>
    vfs_walk find_dispatch st' (fs_root st') (tokens slash pci_path) = Some e \<and>
    names_at st' (K' e) (dir_names @ map function_name [(0, 0, 0), (0, 1, 0), (1, 3, 0)]) \<and> device_at st' demo_space 1 3 0"
proof -
  have "has_room demo_boot (14 + 30)" by (simp add: has_room_def demo_heap)
  then obtain st K i s p d where B: "kernel_initramfs demo_stk demo_boot = Some st" "boot_layout st K i s p d" "bumped demo_boot st 2800" "has_room st 30"
    "vfs_walk find_dispatch st (fs_root st) [bytes_of ''sys'', bytes_of ''device''] = Some d" "d \<noteq> 0"
    by (rule kernel_initramfs_ok [OF demo_boot_ok(1) _ demo_boot_ok(3,4)])
  have par: "parent_ok st K (cstr ''/sys/device'') device_path d"
    using B(2,5,6) path_names(4) device_path_tokens by (simp add: parent_ok_def boot_layout_def)
  have absent: "pick st (str_view (bytes_of ''pci'')) (K d) = 0"
    by (rule names_at_absent [OF _ _ file_names(5), of _ _ dir_names]) (use B(2) in \<open>simp_all add: boot_layout_def dir_names_def bytes_of_def\<close>)
  have loc: "off_heap st 0x20000 4" using B(3) by (simp add: bumped_def demo_heap off_heap_def)
  have room: "has_room st (8 * length [(0 :: u8, 0 :: u8, 0 :: u8), (0, 1, 0), (1, 3, 0)] + 6)" using B(4) by simp
  have "\<exists>st' K' e us. pci_scan 2 (pci_machine demo_space) demo_stk 0x20000 (st, []) = Some (RET_T_OK, st', [] @ us) \<and> tree_inv st' K' \<and>
    (\<forall>ts x. vfs_walk find_dispatch st (fs_root st) ts = Some x \<longrightarrow> x \<noteq> 0 \<longrightarrow> vfs_walk find_dispatch st' (fs_root st') ts = Some x) \<and>
    vfs_walk find_dispatch st' (fs_root st') (tokens slash pci_path) = Some e \<and>
    names_at st' (K' e) (dir_names @ map function_name [(0, 0, 0), (0, 1, 0), (1, 3, 0)]) \<and>
    (\<forall>(b, d, f)\<in>set [(0, 0, 0), (0, 1, 0), (1, 3, 0)]. device_at st' demo_space b d f) \<and>
    (\<forall>b d f. (b, d, f) \<in> set [(0, 0, 0), (0, 1, 0), (1, 3, 0)] \<longleftrightarrow> (\<exists>h\<in>set (host_buses demo_space). bus_reached demo_space h b) \<and> visible demo_space b d f)"
    by (rule pci_scan_devices [OF par absent pci_machine_space demo_functions _ _ room loc]) simp_all
  then show ?thesis using B(1) by (elim exE conjE) (intro exI conjI, assumption+, simp_all)
qed

text \<open>
  C12. Reading fewer than four bytes of the configuration file of a device delivers the bytes of its configuration
  space at the offset, into the buffer and nowhere else.
\<close>

theorem conf_read_bytes:
  assumes cf: "conf_file st p b d f" and hw: "has_space hw cfg" "d < PCI_DEV_PER_BUS" "f < PCI_FUNC_PER_DEV"
    and n: "nbyte < 4" and far: "\<forall>k<unat nbyte. buf + of_nat k \<notin> {p + 200, p + 201, p + 202}"
  shows "\<exists>m us. pci_vfs_confing_read hw (st, tr) p buf nbyte off = Some (sint nbyte, st\<lparr>mem := m\<rparr>, tr @ us) \<and>
    (\<forall>k<unat nbyte. m (buf + of_nat k) = cfg b d f (ucast (off + of_nat k))) \<and>
    (\<forall>a. (\<forall>k<unat nbyte. a \<noteq> buf + of_nat k) \<longrightarrow> m a = mem st a)"
proof -
  obtain h where h: "nodes st p = Some h" "p \<noteq> 0" "filePtr h = p + 200" "mem st (p + 200) = b" "mem st (p + 200 + 1) = d" "mem st (p + 200 + 2) = f"
    using cf by (auto simp: conf_file_def add.assoc)
  have far': "\<forall>k<unat nbyte. buf + of_nat k \<notin> {p + 200, p + 200 + 1, p + 200 + 2}" using far by (simp add: add.assoc)
  have lt: "unat nbyte < 2 ^ 32" using unat_lt2p [of nbyte] by simp
  have z: "nbyte div 4 = 0" "nbyte mod 4 = nbyte" using n by (simp_all add: word_less_nat_alt word_unat_eq_iff unat_div unat_mod)
  obtain m us where A: "fold (\<lambda>k. (\<lambda>(st, tr). case conf_read32 hw (p + 200) (off + of_nat k) st tr of
       (v, tr) \<Rightarrow> (st\<lparr>mem := (mem st)(buf + of_nat k := ucast v)\<rparr>, tr))) [0..<unat nbyte] (st, tr) = (st\<lparr>mem := m\<rparr>, tr @ us)"
    "\<forall>k<unat nbyte. m (buf + of_nat k) = cfg b d f (ucast (off + of_nat k))" "\<forall>x. (\<forall>k<unat nbyte. x \<noteq> buf + of_nat k) \<longrightarrow> m x = mem st x"
    by (rule conf_read_loop [OF hw h(4-6) far' lt])
  have "pci_vfs_confing_read hw (st, tr) p buf nbyte off = Some (sint nbyte, st\<lparr>mem := m\<rparr>, tr @ us)"
    using h(1-3) A(1) by (simp add: pci_vfs_confing_read_def deref_def z for_upto_0)
  with A(2,3) show ?thesis by blast
qed

theorem conf_read_bytes_witness:
  "\<exists>m us. pci_vfs_confing_read (pci_machine demo_space) (demo_conf, []) 0x1000 0x20000 2 2 = Some (2, demo_conf\<lparr>mem := m\<rparr>, us) \<and>
    m 0x20000 = 0x39 \<and> m 0x20001 = 0x81"
proof -
  have w: "demo_space 1 3 0 2 = 0x39" "demo_space 1 3 0 3 = 0x81" by code_simp+
  have far: "\<forall>k<unat (2 :: u32). 0x20000 + of_nat k \<notin> {0x1000 + 200, 0x1000 + 201, 0x1000 + 202 :: u32}" using demo_buffer_far by simp
  have "\<exists>m us. pci_vfs_confing_read (pci_machine demo_space) (demo_conf, []) 0x1000 0x20000 2 2 = Some (sint (2 :: u32), demo_conf\<lparr>mem := m\<rparr>, [] @ us) \<and>
    (\<forall>k<unat (2 :: u32). m (0x20000 + of_nat k) = demo_space 1 3 0 (ucast (2 + of_nat k :: u32))) \<and>
    (\<forall>a. (\<forall>k<unat (2 :: u32). a \<noteq> 0x20000 + of_nat k) \<longrightarrow> m a = mem demo_conf a)"
    by (rule conf_read_bytes [OF demo_conf_file pci_machine_space _ _ _ far]) (simp_all add: PCI_DEV_PER_BUS_def PCI_FUNC_PER_DEV_def)
  then obtain m us where m: "pci_vfs_confing_read (pci_machine demo_space) (demo_conf, []) 0x1000 0x20000 2 2 = Some (2, demo_conf\<lparr>mem := m\<rparr>, us)"
    "\<forall>k<2. m (0x20000 + of_nat k) = demo_space 1 3 0 (ucast (2 + of_nat k :: u32))" by auto
  from spec [OF m(2), of 0] spec [OF m(2), of 1] m(1) w show ?thesis by auto
qed

text \<open>
  C13. Reading eight bytes at an aligned offset writes the second double word to the bytes 16 to 19 behind the
  start of the buffer: its second half stays as it was, and memory behind the buffer is overwritten.
\<close>

theorem conf_read_overruns:
  assumes cf: "conf_file st p b d f" and hw: "has_space hw cfg" "d < PCI_DEV_PER_BUS" "f < PCI_FUNC_PER_DEV"
    and off: "unat off mod 4 = 0" and far: "\<forall>k<4. buf + of_nat k \<notin> {p + 200, p + 201, p + 202}"
  shows "\<exists>us. pci_vfs_confing_read hw (st, tr) p buf 8 off = Some (8, st\<lparr>mem :=
      store32 (store32 (mem st) buf (space32 cfg b d f (ucast off))) (buf + 16) (space32 cfg b d f (ucast (off + 4)))\<rparr>, tr @ us)"
proof -
  obtain h where h: "nodes st p = Some h" "p \<noteq> 0" "filePtr h = p + 200" "mem st (p + 200) = b" "mem st (p + 200 + 1) = d" "mem st (p + 200 + 2) = f"
    using cf by (auto simp: conf_file_def add.assoc)
  have al: "(ucast off :: u8) AND 3 = 0" "(ucast (off + 4) :: u8) AND 3 = 0"
  proof -
    have "unat (off + 4) mod 4 = 0" using off by (simp add: unat_word_ariths mod_mod_cancel mod_add_left_eq [of _ 4 4, symmetric])
    then show "(ucast off :: u8) AND 3 = 0" "(ucast (off + 4) :: u8) AND 3 = 0"
      using off by (simp_all add: and_3_mod unsigned_ucast_eq take_bit_eq_mod mod_mod_cancel del: unat_plus_if')
  qed
  define m where "m = store32 (mem st) buf (space32 cfg b d f (ucast off))"
  have "m a = mem st a" if "a \<in> {p + 200, p + 201, p + 202}" for a
    using that far spec [OF far, of 0] spec [OF far, of 1] spec [OF far, of 2] spec [OF far, of 3] unfolding m_def store32_def by auto
  then have m: "m (p + 200) = b" "m (p + 200 + 1) = d" "m (p + 200 + 2) = f" using h(4-6) by (simp_all add: add.assoc)
  have r1: "conf_read32 hw (p + 200) off st tr = (space32 cfg b d f (ucast off), tr @ read_events cfg b d f (ucast off))"
    using conf_read32_space [OF hw h(4-6), of off tr] space_read32 [OF al(1), of cfg b d f] by simp
  have r2: "conf_read32 hw (p + 200) (off + 4) (st\<lparr>mem := m\<rparr>) tr' = (space32 cfg b d f (ucast (off + 4)), tr' @ read_events cfg b d f (ucast (off + 4)))" for tr'
    using conf_read32_space [OF hw, of "st\<lparr>mem := m\<rparr>" "p + 200" b "off + 4" tr'] m space_read32 [OF al(2), of cfg b d f] by simp
  have "pci_vfs_confing_read hw (st, tr) p buf 8 off = Some (8, st\<lparr>mem := store32 m (buf + 16) (space32 cfg b d f (ucast (off + 4)))\<rparr>,
      (tr @ read_events cfg b d f (ucast off)) @ read_events cfg b d f (ucast (off + 4)))"
    using h(1-3) r1 r2 by (simp add: pci_vfs_confing_read_def deref_def for_upto.simps m_def)
  then show ?thesis unfolding m_def by auto
qed

theorem conf_read_overruns_witness:
  "\<exists>us. pci_vfs_confing_read (pci_machine demo_space) (demo_conf, []) 0x1000 0x20000 8 0 = Some (8, demo_conf\<lparr>mem :=
      store32 (store32 (mem demo_conf) 0x20000 0x813910EC) 0x20010 0\<rparr>, us)"
proof -
  have w: "space32 demo_space 1 3 0 (ucast (0 :: u32)) = 0x813910EC" "space32 demo_space 1 3 0 (ucast (0 + 4 :: u32)) = 0" by code_simp+
  have far: "\<forall>k<4. 0x20000 + of_nat k \<notin> {0x1000 + 200, 0x1000 + 201, 0x1000 + 202 :: u32}" using demo_buffer_far by simp
  have "\<exists>us. pci_vfs_confing_read (pci_machine demo_space) (demo_conf, []) 0x1000 0x20000 8 0 = Some (8, demo_conf\<lparr>mem :=
      store32 (store32 (mem demo_conf) 0x20000 (space32 demo_space 1 3 0 (ucast (0 :: u32)))) (0x20000 + 16) (space32 demo_space 1 3 0 (ucast (0 + 4 :: u32)))\<rparr>, [] @ us)"
    by (rule conf_read_overruns [OF demo_conf_file pci_machine_space _ _ _ far]) (simp_all add: PCI_DEV_PER_BUS_def PCI_FUNC_PER_DEV_def)
  then show ?thesis unfolding w by simp
qed

text \<open>
  C14. Writing at least two bytes to the configuration file sends the first two to the Command register when the
  offset is that of Command or of Status, and nothing otherwise: the Status register is never addressed.
\<close>

theorem conf_write_registers:
  assumes "conf_file st p b d f" and "2 \<le> nbyte"
  shows "pci_vfs_confing_write (st, tr) p buf nbyte off =
    (if off = 4 \<or> off = 6
     then Some (sint nbyte, st, tr @ [Out32 (pci_address b d f PCI_HDR_COMMAND_OFFSET) PCI_CONFIG_ADDRESS, Out16 (fetch16 (mem st) buf) PCI_CONFIG_DATA])
     else Some (0, st, tr))"
proof -
  have "nbyte \<noteq> 0" using assms(2) by auto
  moreover obtain h where "nodes st p = Some h" "p \<noteq> 0" "filePtr h = p + 200" "mem st (p + 200) = b" "mem st (p + 200 + 1) = d" "mem st (p + 200 + 2) = f"
    using assms(1) by (auto simp: conf_file_def add.assoc)
  ultimately show ?thesis using assms(2)
    by (auto simp: pci_vfs_confing_write_def deref_def pci_write16_def outl_def outw_def pci_address_def PCI_HDR_COMMAND_OFFSET_def PCI_HDR_STATUS_OFFSET_def)
qed

theorem conf_write_registers_witness:
  "pci_vfs_confing_write (demo_conf, []) 0x1000 0x10C8 2 6 =
    Some (2, demo_conf, [Out32 (pci_address 1 3 0 PCI_HDR_COMMAND_OFFSET) PCI_CONFIG_ADDRESS, Out16 0x301 PCI_CONFIG_DATA])"
proof -
  have "fetch16 (mem demo_conf) 0x10C8 = 0x301" by (simp add: fetch16_def demo_conf_def)
  then show ?thesis using conf_write_registers [OF demo_conf_file, where nbyte = 2 and tr = "[]" and buf = "0x10C8" and off = 6] by simp
qed

end
