(* ===== verification/Props_Sys.thy ===== *)
theory Props_Sys
  imports IA32_Systime IA32_Tables
begin

text \<open>
  The properties of the interrupt controllers, of the system configuration and of the system time,
  each applied to a concrete state.
\<close>

section \<open>System configuration\<close>


text \<open>A memory with a root pointer, a root table and an interrupt controller table of three entries.\<close>

definition demo_rsdp :: "u8 list" where
  "demo_rsdp = [82, 83, 68, 32, 80, 84, 82, 32, 209, 0, 0, 0, 0, 0, 0, 0, 0, 16, 0, 0]"

definition demo_rsdt :: "u8 list" where
  "demo_rsdt = [82, 83, 68, 84, 40, 0, 0, 0, 0, 0, 0, 0, 0, 0, 0, 0, 0, 0, 0, 0, 0, 0, 0, 0, 0, 0, 0, 0, 0, 0, 0, 0, 0, 0, 0, 0, 0, 32, 0, 0]"

definition demo_madt :: "u8 list" where
  "demo_madt = [65, 80, 73, 67, 74, 0, 0, 0, 0, 209, 0, 0, 0, 0, 0, 0, 0, 0, 0, 0, 0, 0, 0, 0, 0, 0, 0, 0, 0, 0, 0, 0, 0, 0, 0, 0, 0, 0, 224, 254, 1, 0, 0, 0, 0, 8, 0, 5, 1, 0, 0, 0, 1, 12, 2, 0, 0, 0, 192, 254, 0, 0, 0, 0, 2, 10, 0, 0, 2, 0, 0, 0, 0, 0]"

definition byte_of :: "u8 list \<Rightarrow> nat \<Rightarrow> u8" where
  "byte_of xs i = (if i < length xs then xs ! i else 0)"

definition demo_mem :: bytes where
  "demo_mem a = (if unat a < 0x2000 then byte_of demo_rsdt (unat a - 0x1000)
     else if unat a < 0x3000 then byte_of demo_madt (unat a - 0x2000) else byte_of demo_rsdp (unat a - 0xE0000))"

lemmas demo_simps = demo_mem_def byte_of_def demo_rsdp_def demo_rsdt_def demo_madt_def

lemma list_checksum:
  assumes "\<And>i. i < length xs \<Longrightarrow> m (p + of_nat i) = xs ! i" and "unat p + length xs < 2 ^ 32" and "n = of_nat (length xs)"
  shows "acpi_tab_checksum m p n \<longleftrightarrow> sum_list (map unat xs) mod 256 = 0"
proof -
  have n: "unat n = length xs" using assms(2,3) by (simp add: unat_of_nat take_bit_nat_eq_self)
  have "(\<Sum>i<unat n. unat (m (p + of_nat i))) = (\<Sum>i<length xs. map unat xs ! i)" using assms(1) by (simp add: n)
  then show ?thesis using assms(2) n by (subst checksum_sum) (simp_all add: sum_list_sum_nth atLeast0LessThan)
qed

lemma demo_rsdp_found: "acpi_get_RSDP_ptr demo_mem BIOS_START_ADDR BIOS_END_ADDR = 0xE0000"
proof -
  have "\<forall>k<8. demo_mem (0xE0000 + of_nat k) = RSDP_LABEL (of_nat k)"
    by (simp add: numeral_eq_Suc All_less_Suc) (simp add: demo_simps RSDP_LABEL_def label_def)
  then have "memcmp (view demo_mem 0xE0000) RSDP_LABEL RSDP_SIGN_LEN = 0"
    by (simp add: memcmp_eq_0_iff all_less_of_nat RSDP_SIGN_LEN_def view_def)
  moreover have "acpi_tab_checksum demo_mem 0xE0000 sizeof_RSDP"
    by (subst list_checksum [where xs = demo_rsdp])
      (simp_all add: demo_simps sizeof_RSDP_def unat_word_ariths unat_of_nat take_bit_nat_eq_self)
  ultimately show ?thesis
    by (simp add: acpi_get_RSDP_ptr_def BIOS_START_ADDR_def BIOS_END_ADDR_def for_ret.simps [of "0xE0000"])
qed

lemma demo_lengths: "acpi_Length demo_mem 0x1000 = 40" "acpi_Length demo_mem 0x2000 = 74" "RsdtAddress demo_mem 0xE0000 = 0x1000"
  "load32 demo_mem 0x1024 = 0x2000"
  by (simp_all add: acpi_Length_def RsdtAddress_def load32_def demo_simps)


lemma demo_madt_found: "acpi_find_table demo_mem 0x1000 MADT_LABEL = 0x2000"
proof -
  have "\<not> (\<forall>k<4. demo_mem (0x1000 + of_nat k) = XSDT_LABEL (of_nat k))"
    by (simp add: numeral_eq_Suc All_less_Suc) (simp add: demo_simps XSDT_LABEL_def label_def)
  then have "memcmp (view demo_mem 0x1000) XSDT_LABEL ACPI_SIGN_LEN \<noteq> 0"
    by (simp add: memcmp_eq_0_iff all_less_of_nat ACPI_SIGN_LEN_def view_def)
  moreover have "\<forall>k<4. demo_mem (0x2000 + of_nat k) = MADT_LABEL (of_nat k)"
    by (simp add: numeral_eq_Suc All_less_Suc) (simp add: demo_simps MADT_LABEL_def label_def)
  then have "memcmp (view demo_mem 0x2000) MADT_LABEL ACPI_SIGN_LEN = 0"
    by (simp add: memcmp_eq_0_iff all_less_of_nat ACPI_SIGN_LEN_def view_def)
  ultimately show ?thesis
    by (simp add: acpi_find_table_def demo_lengths sizeof_acpi_header_def for_ret.simps [of 0] Let_def)
qed

lemma demo_tables: "acpi_tables demo_mem 0xE0000 0x2000 [0x202C, 0x2034, 0x2040]"
proof -
  have "acpi_tab_checksum demo_mem 0x2000 74"
    by (subst list_checksum [where xs = demo_madt])
      (simp_all add: demo_simps unat_word_ariths unat_of_nat take_bit_nat_eq_self)
  moreover have len: "EntryLength demo_mem 0x202C = 8" "EntryLength demo_mem 0x2034 = 12" "EntryLength demo_mem 0x2040 = 10"
    by (simp_all add: EntryLength_def demo_simps)
  moreover have "entries demo_mem (0x2000 + 44) (0x2000 + 74) [0x202C, 0x2034, 0x2040]" by (simp add: len)
  moreover have "madt_fits demo_mem [0x202C, 0x2034, 0x2040]"
    by (simp add: madt_fits_def of_type_def EntryType_def MAX_CPU_NUM_def MAX_INT_NUM_def MAX_NMI_NUM_def MAX_IOAPIC_NUM_def)
  ultimately show ?thesis
    unfolding acpi_tables_def demo_rsdp_found demo_lengths demo_madt_found by simp
qed

lemma demo_types: "EntryType demo_mem 0x202C = 0" "EntryType demo_mem 0x2034 = 1" "EntryType demo_mem 0x2040 = 2"
  by (simp_all add: EntryType_def demo_simps)

lemma demo_overrides: "of_type demo_mem MADT_ENT_IOAPIC_INT_OVER [0x202C, 0x2034, 0x2040] = [0x2040]"
  by (simp add: of_type_def demo_types MADT_ENT_IOAPIC_INT_OVER_def)


text \<open>
  C35. From the ACPI tables to the I/O interrupt controller: after InitSystemConfig has read good tables,
  EnableIRQ for ISA interrupt \<open>k\<close> programs the line the tables route it to (the last override, or
  line \<open>k\<close>) with vector \<open>0x20 + k\<close>, fixed delivery and the given processor, unmasked, and leaves
  every other register of the controller as it was.
\<close>

theorem acpi_irq_routing:
  assumes "acpi_tables m rsdp h qs" and "length (InterruptSource sc) = INT_NUM" and "length (CPUs sc) = MAX_SUPP_PROC_NUM"
    and "ioapic_answers ptr regs0 hw" and "k < 223"
  shows "\<exists>sc' tr'. InitSystemConfig cpuid m sc = Some sc' \<and>
    EnableIRQ hw sc' ptr dest (HW_INT_START + of_nat k) tr = Some tr' \<and>
    (let line = routing m (map (\<lambda>q. q + 2) (of_type m MADT_ENT_IOAPIC_INT_OVER qs)) k in
     enabled_entry dest k (entry_of (ioapic_regs ptr regs0 tr') line) \<and>
     (\<forall>r. r \<noteq> IOAPIC_ENTRY_LOWER_ADDR line \<longrightarrow> r \<noteq> IOAPIC_ENTRY_UPPER_ADDR line \<longrightarrow>
       ioapic_regs ptr regs0 tr' r = ioapic_regs ptr regs0 tr r))"
proof -
  obtain info where "acpi_get_MADT_info m rsdp = Some (True, info)" "summarises m (load32 m (h + 36)) qs info"
    using MADT_info_summarises [of rsdp m h qs] assms(1) by (auto simp: acpi_tables_def)
  then obtain sc1 where "ReadSystemConfig cpuid m sc = Some (0, sc1)"
    and r: "routed m (map (\<lambda>q. q + 2) (of_type m MADT_ENT_IOAPIC_INT_OVER qs)) (InterruptSource sc1)"
    using read_sysconf [of m rsdp info _ qs sc cpuid] assms(1-3) by (auto simp: acpi_tables_def)
  then have "InitSystemConfig cpuid m sc = Some (sc1\<lparr>ACPI_Init := True\<rparr>)" by (simp add: InitSystemConfig_def)
  moreover have "routed m (map (\<lambda>q. q + 2) (of_type m MADT_ENT_IOAPIC_INT_OVER qs)) (InterruptSource (sc1\<lparr>ACPI_Init := True\<rparr>))"
    using r by simp
  ultimately show ?thesis
    using enable_irq_acpi [OF assms(4), of "sc1\<lparr>ACPI_Init := True\<rparr>" m _ k dest tr] assms(5) by (auto simp: Let_def)
qed

text \<open>A controller with cleared registers, and an empty configuration.\<close>

definition demo_ioapic :: machine where
  "demo_ioapic tr q = (case ioapic_state 0xFEC00000 (\<lambda>_. 0) tr of (sel, regs) \<Rightarrow> ucast (regs sel))"

definition demo_sysconf :: SysConf_Info where
  "demo_sysconf = \<lparr>CPU_Info = CPU_GetInfo (\<lambda>_. (0, 0, 0, 0)), CPUs = replicate 16 \<lparr>CoreID = 0, LAPIC_Id = 0\<rparr>,
     InterruptSource = replicate 256 \<lparr>IntVector = 0, GlobalSysInt = 0, Polarity = 0, TriggerMode = 0, isNMI = 0\<rparr>,
     SysIOAPICs = replicate 16 \<lparr>IOAPIC_ID = 0, IOAPIC_Addr = 0, GlobalSysInterBase = 0\<rparr>,
     LAPIC_Ptr = 0, LAPIC_tim_freqHz = 0, CPU_Num = 0, SysIOAPIC_Num = 0, ACPI_Init = False\<rparr>"

lemma demo_ioapic_answers: "ioapic_answers 0xFEC00000 (\<lambda>_. 0) demo_ioapic"
  by (simp add: ioapic_answers_def demo_ioapic_def split: prod.split)

theorem acpi_irq_routing_witness:
  "\<exists>sc' tr'. InitSystemConfig (\<lambda>_. (0, 0, 0, 0)) demo_mem demo_sysconf = Some sc' \<and>
    EnableIRQ demo_ioapic sc' 0xFEC00000 1 HW_INT_START [] = Some tr' \<and>
    enabled_entry 1 0 (entry_of (ioapic_regs 0xFEC00000 (\<lambda>_. 0) tr') 2)"
proof -
  have "routing demo_mem [0x2042] 0 = 2"
    by (simp add: routing_def Over_IRQSource_def Over_GlobalSysInt_def load32_def demo_simps)
  moreover have "length (InterruptSource demo_sysconf) = INT_NUM" "length (CPUs demo_sysconf) = MAX_SUPP_PROC_NUM"
    by (simp_all add: demo_sysconf_def INT_NUM_def MAX_SUPP_PROC_NUM_def)
  ultimately show ?thesis
    using acpi_irq_routing [OF demo_tables _ _ demo_ioapic_answers, of demo_sysconf 0 "\<lambda>_. (0, 0, 0, 0)" 1 "[]"]
    by (auto simp: Let_def demo_overrides)
qed


section \<open>The legacy interrupt controllers\<close>

text \<open>
  The mask of the two legacy controllers: for each of the sixteen lines, PIC_EnableIRQ unmasks
  exactly that line and PIC_DisableIRQ masks exactly that line; the vector remapping keeps every
  mask, and after PIC_disable every line is masked.
\<close>

lemma pic_line_masks:
  assumes "pic_reads_back hw" and "line < 16" and "j < 16"
  shows "(masked j (PIC_EnableIRQ hw (HW_INT_START + of_nat line) tr) \<longleftrightarrow> j \<noteq> line \<and> masked j tr) \<and>
    (masked j (PIC_DisableIRQ hw (HW_INT_START + of_nat line) tr) \<longleftrightarrow> j = line \<or> masked j tr) \<and>
    masked j (snd (PIC_remap hw o1 o2 tr)) = masked j tr \<and> masked j (PIC_disable tr)"
  using pic_mask_ops [OF assms(1) refl assms(2,3)] PIC_remap_keeps_mask [OF assms(1)] PIC_disable_masks [OF assms(3)] by simp

section \<open>System time\<close>

text \<open>
  C37. The tick counter at 1000 Hz: after SetSysTimerFrequency and \<open>n\<close> ticks of 1193 timer clocks
  the millisecond counter has skipped every 6591st tick, its distance to the true time
  \<open>n * 1193 * 1000 / 1193181\<close> ms is exactly \<open>(181 * (n mod 6591) - 210 * (n div 6591)) / 1193181\<close> ms,
  and the time stamp has advanced by one per 1000 counts and one more every 659100 ticks.
\<close>

theorem tick_time:
  assumes "SysTickCounter t = 0" and "SetSysTimerFrequency 1000 t tr = Some (t', tr')" and "timers_inv os" and "n < 2 ^ 64"
  shows "\<exists>t2 os2. run_ticks n (SetSysTickFun t', os) = (t2, os2) \<and> unat (SysTickCounter t2) = n - n div 6591 \<and>
    1193181 * int (unat (SysTickCounter t2)) - 1193000 * int n = 181 * int (n mod 6591) - 210 * int (n div 6591) \<and>
    timestamp os2 = timestamp os + of_nat (unat (SysTickCounter t2) div 1000 + n div 659100)"
proof -
  define c where "c = counter_at n"
  have "c < 2 ^ 64" unfolding c_def counter_at_def by (rule le_less_trans [OF diff_le_self assms(4)])
  then have u: "unat (of_nat c :: u64) = c" by (simp add: unat_of_nat take_bit_nat_eq_self)
  have "int (1193181 * c + 210 * (n div 6591)) = int (1193000 * n + 181 * (n mod 6591))"
    unfolding c_def by (simp only: counter_drift)
  then have drift: "1193181 * int c - 1193000 * int n = 181 * int (n mod 6591) - 210 * int (n div 6591)"
    unfolding of_nat_add of_nat_mult of_nat_numeral by linarith
  obtain t2 os2 where t2: "run_ticks n (SetSysTickFun t', os) = (t2, os2)" "SysTickCounter t2 = of_nat c"
    "timestamp os2 = timestamp os + of_nat (c div 1000 + n div 659100)"
    using run_ticks_state [OF fresh_time_1000 [OF assms(1,2)] assms(3,4)] by (auto simp: c_def stamps_at_def)
  show ?thesis
    using t2 drift by (intro exI [of _ t2] exI [of _ os2]) (simp only: u, simp add: c_def counter_at_def)
qed

text \<open>One cycle of the correction: 6591 ticks are 6590 ms, 210 / 1193181 ms behind.\<close>

definition demo_time :: systime where
  "demo_time = \<lparr>SysTickFun_set = False, SysTickCounter = 0, SysTickIncrement = 1, TickAdjustReload = 0, TickAdjustCurrent = 0\<rparr>"

definition demo_timers :: os_data where
  "demo_timers = \<lparr>timestamp = 7, SysTickPeriod_ms = 0, SysTime_ms = 0,
     TimeSliceTimer = \<lparr>Started = False, Expired = False, CountDown = 20\<rparr>,
     TimerBlocks = replicate 20 \<lparr>Started = False, Expired = False, CountDown = 0\<rparr>\<rparr>"

theorem tick_time_witness:
  "\<exists>t' tr' t2 os2. SetSysTimerFrequency 1000 demo_time [] = Some (t', tr') \<and>
    run_ticks 6591 (SetSysTickFun t', demo_timers) = (t2, os2) \<and> unat (SysTickCounter t2) = 6590 \<and> timestamp os2 = 13"
proof -
  obtain t' tr' where f: "SetSysTimerFrequency 1000 demo_time [] = Some (t', tr')" by (simp add: SetSysTimerFrequency_def Let_def)
  have "timers_inv demo_timers" by (simp add: timers_inv_def demo_timers_def timer_consts)
  from tick_time [OF _ f this, of 6591] f show ?thesis by (auto simp: demo_time_def demo_timers_def)
qed

text \<open>
  C38. Reading the 64-bit counter while it runs: with the low half loaded first, ReadTimeCounter
  returns for every counter that never decreases, and the value is exactly the value of the counter
  at some instant during the call.
\<close>

theorem read_counter_exact:
  assumes "mono c"
  shows "\<exists>v k'. ReadTimeCounter True c k = Some (v, k') \<and> k < k' \<and> (\<exists>j. k \<le> j \<and> j < k' \<and> v = c j)"
  by (rule ReadTimeCounter_exact [OF assms])

text \<open>A counter that carries into the high half between the second and the third access.\<close>

definition demo_counter :: "nat \<Rightarrow> u64" where
  "demo_counter k = (if k \<le> 2 then 0xFFFFFFFF else 0x100000000)"

lemma demo_counter_mono: "mono demo_counter"
  by (rule monoI) (auto simp: demo_counter_def)

theorem read_counter_exact_witness:
  "\<exists>v k'. ReadTimeCounter True demo_counter 0 = Some (v, k') \<and> v \<in> {0xFFFFFFFF, 0x100000000}"
  using read_counter_exact [OF demo_counter_mono, of 0] by (auto simp: demo_counter_def split: if_splits)

section \<open>Descriptor tables\<close>


definition demo_tables :: Core_Tables where
  "demo_tables = \<lparr>gdt = replicate GDT_SEG_NUM (gdt_descriptor 0 0 0 0), kernelTSS = zero_tss,
     sGdtr = \<lparr>reg_limit = 0, reg_base = 0\<rparr>, idt = replicate INT_NUM (idt_descriptor 0 0), sIdtr = \<lparr>reg_limit = 0, reg_base = 0\<rparr>\<rparr>"




end
