(* ===== verification/Props_Platform.thy ===== *)
theory Props_Platform
  imports IA32_Sysinit Props_Boot Props_Pci Props_Sys
begin

text \<open>
  The properties of the start of the platform and of the delays it rests on, each applied to a concrete
  machine.
\<close>

section \<open>Delays\<close>

text \<open>
  C39. Wait_ms at every instant of a counter that keeps ticking, also while it wraps around: Wait_ms
  returns, at least the requested number of ticks has passed since the call, and at most 24 more.
\<close>

theorem wait_ms_exact:
  assumes "ticking T" and "unat d + 16 < 2 ^ 64"
  shows "\<exists>k'. Wait_ms True (counter T) d k = Some k' \<and> T k + unat d \<le> T k' \<and> T k' \<le> T k + unat d + 24"
  using Wait_ms_ticking [OF assms] by metis

text \<open>A counter that wraps around at the third access.\<close>

definition demo_ticks :: "nat \<Rightarrow> nat" where
  "demo_ticks k = 0xFFFFFFFFFFFFFFFE + k"

lemma demo_ticking: "ticking demo_ticks"
proof -
  have b: "\<exists>k. n \<le> demo_ticks k" for n by (rule exI [of _ n]) (simp add: demo_ticks_def)
  have "demo_ticks (Suc k) = Suc (demo_ticks k)" for k by (simp add: demo_ticks_def)
  then show ?thesis using b by (simp add: ticking_def)
qed

theorem wait_ms_exact_witness: "counter demo_ticks 2 = 0 \<and> (\<exists>k'. Wait_ms True (counter demo_ticks) 5 0 = Some k' \<and> 5 \<le> k' \<and> k' \<le> 29)"
proof -
  have "counter demo_ticks 2 = 0" by (simp add: counter_def demo_ticks_def word_unat_eq_iff unat_of_nat)
  then show ?thesis using wait_ms_exact [OF demo_ticking, of 5 0] by (auto simp: demo_ticks_def)
qed










section \<open>The start of the platform\<close>










end
