(* ===== verification/Coresys_Main.thy ===== *)
theory Coresys_Main
  imports Coresys_Ramfs_Steps Coresys_Stdio Libk_Printf_Ref
begin

text \<open>
  The listing of directories in kernel_main (kernel.c): the loop over fs_readdir with an index of one byte,
  which prints every name, and the listings the kernel prints. The output is any stream of printf.
\<close>

section \<open>Operations\<close>

definition readdir_dispatch :: "fs_callback \<Rightarrow> ramfs \<Rightarrow> u32 \<Rightarrow> u32 \<Rightarrow> dirent \<Rightarrow> (int \<times> dirent option \<times> dirent) option" where
  "readdir_dispatch f st d index entry = (if f = Cb_ramfs_readdir then ramfs_readdir st d index entry else None)"

definition print_entry :: "'s print_fun \<Rightarrow> u8 list \<Rightarrow> dirent option \<Rightarrow> 's \<Rightarrow> 's option" where
  "print_entry out format retEntry w =
     (case retEntry of Some e \<Rightarrow> map_option snd (printf out format [Va_Str (d_name e)] w) | None \<Rightarrow> Some w)"

text \<open>\<open>entry\<close> is the buffer of the caller, \<open>retEntry\<close> the pointer that fs_readdir returns.\<close>

partial_function (option) list_dir ::
  "'s print_fun \<Rightarrow> bytes \<Rightarrow> bytes \<Rightarrow> u8 list \<Rightarrow> ramfs \<Rightarrow> u8 \<Rightarrow> dirent \<Rightarrow> dirent option \<Rightarrow> 's \<Rightarrow> ('s \<times> dirent) option" where
  "list_dir out stk path format st i entry retEntry w =
     Option.bind (ramfs_get_node stk st path) (\<lambda>node.
     Option.bind (fs_readdir readdir_dispatch st node (ucast i) entry retEntry) (\<lambda>(_, retEntry, entry).
     Option.bind (print_entry out format retEntry w) (\<lambda>w.
       if retEntry \<noteq> None then list_dir out stk path format st (i + 1) entry retEntry w else Some (w, entry))))"

text \<open>
  One listing: the title, then the entries. The second argument of the title's printf is not used by
  its format.
\<close>

definition show_dir :: "'s print_fun \<Rightarrow> bytes \<Rightarrow> u8 list \<Rightarrow> bytes \<Rightarrow> u8 list \<Rightarrow> ramfs \<Rightarrow> dirent \<Rightarrow> dirent option \<Rightarrow> 's \<Rightarrow> ('s \<times> dirent) option" where
  "show_dir out stk title path format st entry retEntry w =
     Option.bind (printf out title [] w) (\<lambda>(_, w). list_dir out stk path format st 0 entry retEntry w)"

definition show_root :: "'s print_fun \<Rightarrow> bytes \<Rightarrow> ramfs \<Rightarrow> dirent \<Rightarrow> dirent option \<Rightarrow> 's \<Rightarrow> ('s \<times> dirent) option" where
  "show_root out stk = show_dir out stk (fmt ''/'' @ [0x0A]) (cstr ''/'') (fmt ''    %s'' @ [0x0A])"

definition show_dev :: "'s print_fun \<Rightarrow> bytes \<Rightarrow> ramfs \<Rightarrow> dirent \<Rightarrow> dirent option \<Rightarrow> 's \<Rightarrow> ('s \<times> dirent) option" where
  "show_dev out stk = show_dir out stk (fmt ''/dev'' @ [0x0A]) (cstr ''/dev'') (fmt ''    %s'' @ [0x0A])"

definition show_sys :: "'s print_fun \<Rightarrow> bytes \<Rightarrow> ramfs \<Rightarrow> dirent \<Rightarrow> dirent option \<Rightarrow> 's \<Rightarrow> ('s \<times> dirent) option" where
  "show_sys out stk = show_dir out stk (fmt ''/sys'' @ [0x0A]) (cstr ''/sys'') (fmt ''    %s'' @ [0x0A])"

definition show_sys_device :: "'s print_fun \<Rightarrow> bytes \<Rightarrow> ramfs \<Rightarrow> dirent \<Rightarrow> dirent option \<Rightarrow> 's \<Rightarrow> ('s \<times> dirent) option" where
  "show_sys_device out stk = show_dir out stk (fmt ''  /sys/device'' @ [0x0A]) (cstr ''/sys/device'') (fmt ''      %s'' @ [0x0A])"

section \<open>What is printed\<close>

lemma fs_readdir_nth:
  assumes inv: "tree_inv st K" and d: "d \<in> live st K" "is_dir st d"
  shows "fs_readdir readdir_dispatch st d index entry res =
    (if unat index < length (K d)
     then case nodes st (K d ! unat index) of None \<Rightarrow> None
          | Some n \<Rightarrow> Some (VFS_T_OK, Some (dirent_of n entry), dirent_of n entry)
     else Some (VFS_T_OK, None, entry))"
proof -
  obtain n where n: "nodes st d = Some n" "entry_ok st K d n" using live_node [OF inv d(1)] by metis
  then have f: "ftype n = FTYPE_DIRECTORY" "readdir_cb n = Some Cb_ramfs_readdir" using d(2) by (simp_all add: is_dir_def entry_ok_def)
  then have "vfs_nodeFromSimlink st d = Some d" using n(1) by (simp add: vfs_nodeFromSimlink.simps [of st d] ftype_defs)
  then show ?thesis using n(1) f(2) ramfs_readdir_nth [OF inv d, of index entry] by (simp add: fs_readdir_def readdir_dispatch_def)
qed

lemma print_entry_sends:
  assumes "console hw stdio" and "plain ind" "ind \<noteq> []" "length ind < 2 ^ 20" and v: "is_cstr v g" "length g < 128"
    and e: "d_name e = v"
  shows "\<exists>tr'. print_entry (stdout_fun hw stdio) (ind @ fmt ''%s'' @ [0x0A]) (Some e) (Some tr) = Some (Some tr') \<and>
    sent_on stdio (Some tr') = sent_on stdio (Some tr) @ ind @ g @ [0x0A]"
proof -
  define ps where "ps = [Lit ind, Str v g, Lit [0x0A]]"
  have f: "format_of ps = ind @ fmt ''%s'' @ [0x0A]" "args_of ps = [Va_Str v]" "text_of ps = ind @ g @ [0x0A]"
    by (simp_all add: ps_def format_of_def args_of_def text_of_def fmt_def)
  have ok: "pieces_ok ps" using assms(2,3) v(1) by (simp add: ps_def plain_def)
  have "unat (strlen v) < 2 ^ 31" using v by (simp add: strlen_cstr)
  then have a: "args_ok (args_of ps)" by (simp add: f args_ok_def)
  have l: "length (format_of ps) < 2 ^ 31" "length (text_of ps) < 2 ^ 31 - 1" using assms(4) v(2) by (simp_all add: f fmt_def)
  have "printf_text INT_MAX (format_of ps) (args_of ps) = Some (0, text_of ps)"
    using ok l by (intro printf_text_reference) (simp_all add: INT_MAX_def)
  from console.console_printf [OF assms(1) a l(1) this, of tr] show ?thesis by (auto simp: print_entry_def f e)
qed

lemma list_dir_prints:
  assumes con: "console hw stdio" and ind: "plain ind" "ind \<noteq> []" "length ind < 2 ^ 20" and inv: "tree_inv st K"
    and get: "ramfs_get_node stk st path = Some d" and d: "d \<in> live st K" "is_dir st d"
    and names: "names_at st (K d) fs" and few: "length fs < 256" and i: "i \<le> length fs"
  shows "\<exists>tr' entry'. list_dir (stdout_fun hw stdio) stk path (ind @ fmt ''%s'' @ [0x0A]) st (of_nat i) entry ret (Some tr) = Some (Some tr', entry') \<and>
    sent_on stdio (Some tr') = sent_on stdio (Some tr) @ concat (map (\<lambda>g. ind @ g @ [0x0A]) (drop i fs))"
  using i
proof (induction i arbitrary: entry ret tr rule: inc_induct)
  case base
  have len: "length (K d) = length fs" using names by (simp add: names_at_def list_all2_lengthD)
  have u: "unat (ucast (of_nat (length fs) :: u8) :: u32) = length fs" using few by (simp add: unsigned_ucast_eq unat_of_nat take_bit_nat_eq_self)
  have "fs_readdir readdir_dispatch st d (ucast (of_nat (length fs) :: u8)) entry ret = Some (VFS_T_OK, None, entry)"
    using fs_readdir_nth [OF inv d] u len by simp
  then show ?case using get by (subst list_dir.simps) (simp add: print_entry_def)
next
  case (step i)
  have len: "length (K d) = length fs" using names by (simp add: names_at_def list_all2_lengthD)
  have u: "unat (ucast (of_nat i :: u8) :: u32) = i" using few step.hyps by (simp add: unsigned_ucast_eq unat_of_nat take_bit_nat_eq_self)
  have "named st (K d ! i) (fs ! i)" using names step.hyps len by (simp add: names_at_def list_all2_nthD)
  then obtain n where n: "nodes st (K d ! i) = Some n" "is_cstr (name n) (fs ! i)" "length (fs ! i) < 128" by (auto simp: named_def)
  define e where "e = dirent_of n entry"
  have rd: "fs_readdir readdir_dispatch st d (ucast (of_nat i :: u8)) entry ret = Some (VFS_T_OK, Some e, e)"
    using fs_readdir_nth [OF inv d] u len step.hyps n(1) by (simp add: e_def)
  have "is_cstr (name_view n) (fs ! i)" by (rule name_view_cstr [OF n(2,3)])
  then have "is_cstr (d_name e) (fs ! i)"
    using strncpy_to_cstr [of "name_view n" "fs ! i" MAX_FNAME "d_name entry"] n(3) by (simp add: e_def dirent_of_def Let_def MAX_FNAME_def)
  then obtain tr1 where p: "print_entry (stdout_fun hw stdio) (ind @ fmt ''%s'' @ [0x0A]) (Some e) (Some tr) = Some (Some tr1)"
    "sent_on stdio (Some tr1) = sent_on stdio (Some tr) @ ind @ (fs ! i) @ [0x0A]"
    using print_entry_sends [OF con ind _ n(3) refl] by blast
  have "of_nat i + 1 = (of_nat (Suc i) :: u8)" by simp
  then show ?case using get rd p step.IH [of e "Some e" tr1] step.hyps
    by (subst list_dir.simps) (auto simp: Cons_nth_drop_Suc [symmetric] simp del: of_nat_Suc)
qed

text \<open>A listing is its title and one line for every entry.\<close>

lemma show_dir_prints:
  assumes con: "console hw stdio" and title: "plain title" "title \<noteq> []" "length title < 2 ^ 20" and ind: "plain ind" "ind \<noteq> []" "length ind < 2 ^ 20"
    and inv: "tree_inv st K" and get: "ramfs_get_node stk st path = Some d" and d: "d \<in> live st K" "is_dir st d"
    and names: "names_at st (K d) fs" "length fs < 256"
  shows "\<exists>tr' entry'. show_dir (stdout_fun hw stdio) stk title path (ind @ fmt ''%s'' @ [0x0A]) st entry ret (Some tr) = Some (Some tr', entry') \<and>
    sent_on stdio (Some tr') = sent_on stdio (Some tr) @ title @ concat (map (\<lambda>g. ind @ g @ [0x0A]) fs)"
proof -
  have "printf_text INT_MAX (format_of [Lit title]) (args_of [Lit title]) = Some (0, text_of [Lit title])"
    using title by (intro printf_text_reference) (simp_all add: INT_MAX_def format_of_def text_of_def)
  then obtain tr1 where "printf (stdout_fun hw stdio) title [] (Some tr) = Some (int (length title), Some tr1)"
    "sent_on stdio (Some tr1) = sent_on stdio (Some tr) @ title"
    using console.console_printf [OF con, of "[]" title 0 title tr] title by (auto simp: format_of_def args_of_def text_of_def args_ok_def)
  then show ?thesis using list_dir_prints [OF con ind inv get d names, of 0 entry ret tr1] by (auto simp: show_dir_def)
qed

text \<open>The listing of the root directory.\<close>

lemma show_root_prints:
  assumes "console hw stdio" and inv: "tree_inv st K" and "names_at st (K (fs_root st)) fs" "length fs < 256"
  shows "\<exists>tr' entry'. show_root (stdout_fun hw stdio) stk st entry ret (Some tr) = Some (Some tr', entry') \<and>
    sent_on stdio (Some tr') = sent_on stdio (Some tr) @ fmt ''/'' @ [0x0A] @ concat (map (\<lambda>g. fmt ''    '' @ g @ [0x0A]) fs)"
proof -
  have "ramfs_get_node stk st (cstr ''/'') = Some (fs_root st)"
    using ramfs_get_node_walk [OF inv, of "cstr ''/''" "[slash]" stk] tokens_delim [of slash "[]"] by (simp add: cstr_def slash_def)
  moreover have "is_dir st (fs_root st)" using tree_invD(2,3) [OF inv] by simp
  ultimately have "\<exists>tr' entry'. show_dir (stdout_fun hw stdio) stk (fmt ''/'' @ [0x0A]) (cstr ''/'') (fmt ''    '' @ fmt ''%s'' @ [0x0A]) st entry ret (Some tr) =
      Some (Some tr', entry') \<and> sent_on stdio (Some tr') = sent_on stdio (Some tr) @ (fmt ''/'' @ [0x0A]) @ concat (map (\<lambda>g. fmt ''    '' @ g @ [0x0A]) fs)"
    using tree_invD(7) [OF inv] assms by (intro show_dir_prints) (simp_all add: plain_def fmt_def)
  then show ?thesis by (simp add: show_root_def fmt_def)
qed

end
