(* ===== verification/Coresys_Report.thy ===== *)
theory Coresys_Report
  imports Coresys_Main IA32_Bootloader IA32_Sysconf "HOL-Library.Monad_Syntax"
begin

text \<open>
  The other reports of kernel_main (kernel.c): the files of the PCI devices, a loop over the devices with a
  loop over the files of each, and the memory map; and the description of the processor that
  GetSysConfiguration (sysinit.c) prepares for the kernel.
\<close>

section \<open>The files of the PCI devices\<close>

text \<open>
  The path of a device is built in a local buffer; \<open>stk\<close> is the stack memory it lies in. The file
  that the last call of fs_readdir returned stays in \<open>retEntry_nested\<close>, also when the entry is skipped.
\<close>

definition device_dir :: "bytes \<Rightarrow> dirent \<Rightarrow> bytes option" where
  "device_dir stk e =
     do { (r, m) \<leftarrow> sprintf 1 (fmt ''%s%s'') [Va_Str (cstr ''/sys/device/pci/''), Va_Str (d_name e)] stk;
          if r > int (unat MAX_FNAME) then None else Some (view m 1) }"

definition nested_entry :: "'s print_fun \<Rightarrow> bytes \<Rightarrow> ramfs \<Rightarrow> dirent \<Rightarrow> u8 \<Rightarrow> dirent \<Rightarrow> dirent option \<Rightarrow> 's \<Rightarrow>
    (dirent \<times> dirent option \<times> 's) option" where
  "nested_entry out stk st e k entry_nested retEntry_nested w =
     (if d_name e 0 \<noteq> 0x2E then
        do { currDir \<leftarrow> device_dir stk e;
             node \<leftarrow> ramfs_get_node stk st currDir;
             (_, ret, entry) \<leftarrow> fs_readdir readdir_dispatch st node (ucast k) entry_nested retEntry_nested;
             w \<leftarrow> print_entry out (fmt ''                %s'' @ [0x0A]) ret w;
             Some (entry, ret, w) }
      else Some (entry_nested, retEntry_nested, w))"

partial_function (option) list_nested ::
  "'s print_fun \<Rightarrow> bytes \<Rightarrow> ramfs \<Rightarrow> dirent \<Rightarrow> u8 \<Rightarrow> dirent \<Rightarrow> dirent option \<Rightarrow> 's \<Rightarrow> (dirent \<times> dirent option \<times> 's) option" where
  "list_nested out stk st e k entry_nested retEntry_nested w =
     Option.bind (nested_entry out stk st e k entry_nested retEntry_nested w) (\<lambda>(entry, ret, w).
       if ret \<noteq> None then list_nested out stk st e (k + 1) entry ret w else Some (entry, ret, w))"

text \<open>Buffers and pointers of the caller: those of the outer loop and those of the inner one.\<close>

partial_function (option) list_pci ::
  "'s print_fun \<Rightarrow> bytes \<Rightarrow> ramfs \<Rightarrow> u8 \<Rightarrow> dirent \<times> dirent option \<Rightarrow> dirent \<times> dirent option \<Rightarrow> 's \<Rightarrow> 's option" where
  "list_pci out stk st i outer inner w =
     Option.bind (ramfs_get_node stk st (cstr ''/sys/device/pci'')) (\<lambda>node.
     Option.bind (fs_readdir readdir_dispatch st node (ucast i) (fst outer) (snd outer)) (\<lambda>(_, retEntry, entry).
     Option.bind (print_entry out (fmt ''        %s'' @ [0x0A]) retEntry w) (\<lambda>w.
     Option.bind (case retEntry of None \<Rightarrow> Some (fst inner, snd inner, w) | Some e \<Rightarrow> list_nested out stk st e 0 (fst inner) (snd inner) w)
       (\<lambda>(entry_nested, retEntry_nested, w).
       if retEntry \<noteq> None then list_pci out stk st (i + 1) (entry, retEntry) (entry_nested, retEntry_nested) w else Some w))))"

definition show_pci :: "'s print_fun \<Rightarrow> bytes \<Rightarrow> ramfs \<Rightarrow> dirent \<times> dirent option \<Rightarrow> dirent \<times> dirent option \<Rightarrow> 's \<Rightarrow> 's option" where
  "show_pci out stk st outer inner w =
     Option.bind (printf out (fmt ''    /sys/device/pci'' @ [0x0A]) [] w) (\<lambda>(_, w). list_pci out stk st 0 outer inner w)"

text \<open>
  An entry that is skipped leaves the pointer of the inner loop as it was: if the pointer was not NULL the
  loop never ends, otherwise it ends at once.
\<close>

lemma list_nested_hidden: "d_name e 0 = 0x2E \<Longrightarrow> list_nested out stk st e k entry None w = Some (entry, None, w)"
  by (subst list_nested.simps) (simp add: nested_entry_def)

lemma list_nested_hangs:
  assumes "d_name e 0 = 0x2E"
  shows "list_nested out stk st e k entry (Some r) w = None"
proof -
  have "ret \<noteq> None \<longrightarrow> False" if "list_nested out stk st e k entry ret w = Some y" and "d_name e 0 = 0x2E" for k entry ret w y
  proof -
    have "d_name e 0 = 0x2E \<longrightarrow> ret = None"
      using that(1)
    proof (rule list_nested.raw_induct [where P = "\<lambda>_ _ _ e _ _ ret _ _. d_name e 0 = 0x2E \<longrightarrow> ret = None", rotated], goal_cases)
      case (1 f out stk st e k entry ret w y)
      show ?case using 1(1) [of out stk st e "k + 1" entry ret w y] 1(2) by (auto simp: nested_entry_def split: if_splits)
    qed
    with that(2) show ?thesis by simp
  qed
  then show ?thesis using assms by (cases "list_nested out stk st e k entry (Some r) w") blast+
qed

section \<open>The memory map\<close>

partial_function (option) show_areas :: "'s print_fun \<Rightarrow> mem_area list \<Rightarrow> u8 \<Rightarrow> u32 \<Rightarrow> 's \<Rightarrow> (u32 \<times> 's) option" where
  "show_areas out areas i availMem w =
     (if unat i < length areas then
        Option.bind (printf out (fmt ''Start Addr: 0x%.08x | Length: 0x%.08x'' @ [0x0A])
            [Va_Word (area_start (areas ! unat i)), Va_Word (area_length (areas ! unat i))] w)
          (\<lambda>(_, w). show_areas out areas (i + 1) (availMem + area_length (areas ! unat i)) w)
      else Some (availMem, w))"

definition show_memory :: "'s print_fun \<Rightarrow> bytes \<Rightarrow> u32 \<Rightarrow> 's \<Rightarrow> 's option" where
  "show_memory out m multiboot_info w =
     do { (_, w) \<leftarrow> printf out (fmt ''Memory mapping:'' @ [0x0A]) [] w;
          areas \<leftarrow> GetMemoryMap m multiboot_info;
          (availMem, w) \<leftarrow> show_areas out areas 0 0 w;
          (_, w) \<leftarrow> printf out (fmt ''Available memory %d MB.'' @ [0x0A]) [Va_Word (availMem div (1024 * 1024))] w;
          Some w }"

text \<open>The sum of the lengths is taken over every area, in the arithmetic of the machine.\<close>

lemma show_areas_total:
  assumes "length areas < 256" and pr: "\<And>a b w. \<exists>w'. printf out (fmt ''Start Addr: 0x%.08x | Length: 0x%.08x'' @ [0x0A]) [Va_Word a, Va_Word b] w = Some w'"
    and i: "i \<le> length areas"
  shows "\<exists>w'. show_areas out areas (of_nat i) av w = Some (av + sum_list (map area_length (drop i areas)), w')"
  using i
proof (induction i arbitrary: av w rule: inc_induct)
  case base
  then show ?case using assms(1) by (subst show_areas.simps) (simp add: unat_of_nat take_bit_nat_eq_self)
next
  case (step i)
  have u: "unat (of_nat i :: u8) = i" using step.hyps assms(1) by (simp add: unat_of_nat take_bit_nat_eq_self)
  obtain r w' where p: "printf out (fmt ''Start Addr: 0x%.08x | Length: 0x%.08x'' @ [0x0A])
      [Va_Word (area_start (areas ! i)), Va_Word (area_length (areas ! i))] w = Some (r, w')" using pr by (metis surj_pair)
  have d: "sum_list (map area_length (drop i areas)) = area_length (areas ! i) + sum_list (map area_length (drop (Suc i) areas))"
    using step.hyps by (simp add: Cons_nth_drop_Suc [symmetric])
  show ?case using step.IH [of "av + area_length (areas ! i)" w'] step.hyps
    by (subst show_areas.simps) (simp add: u p d add.assoc add.commute)
qed

section \<open>The description of the processor\<close>

record SysConf_t =
  CPU_InfoString :: bytes
  CoresNum :: u16
  EndOfMemory :: u64

definition CPU_INFO_STRING_LEN :: u32 where "CPU_INFO_STRING_LEN = 50"

text \<open>The string is written into the structure of the caller; the buffer is seen at address 1.\<close>

definition GetSysConfiguration :: "SysConf_Info \<Rightarrow> SysConf_t \<Rightarrow> SysConf_t option" where
  "GetSysConfiguration sc conf =
     map_option (\<lambda>(_, m). conf\<lparr>CPU_InfoString := view m 1, CoresNum := ucast (CPU_Num sc)\<rparr>)
       (snprintf 1 CPU_INFO_STRING_LEN (fmt ''%s - Family %d; Model %d; Stepping %d'')
          [Va_Str (VendorId (CPU_Info sc)), Va_Word (ucast (FamilyId (CPU_Info sc))), Va_Word (ucast (ModelId (CPU_Info sc))),
           Va_Word (ucast (SteppingId (CPU_Info sc)))] (\<lambda>a. CPU_InfoString conf (a - 1)))"

text \<open>The string fits for every processor CPU_GetInfo can describe, to the last byte of the buffer.\<close>

lemma signed_text_small: "unat v < 2 ^ 31 \<Longrightarrow> signed_text v = number_text 10 (unat v)"
  by (simp add: signed_text_def sint_cases del: of_nat_unat)

lemma info_fields: "FamilyId (CPU_GetInfo f) < 1000" "ModelId (CPU_GetInfo f) < 1000" "SteppingId (CPU_GetInfo f) < 100"
proof -
  have b: "unat (BIT_FIELD_32 x i k) < 2 ^ k" if "k \<le> 8" for x i k
  proof -
    have m: "(0xFFFFFFFF :: u32) = - 1" by simp
    have "drop_bit (32 - k) (0xFFFFFFFF :: u32) = mask k" unfolding m using that by (intro bit_word_eqI) (auto simp: bit_drop_bit_eq bit_mask_iff)
    then show ?thesis by (simp add: BIT_FIELD_32_def take_bit_eq_mask [symmetric] unsigned_take_bit_eq)
  qed
  define ax where "ax = fst (f CPUID_GETFEATURES)"
  have n: "unat (BIT_FIELD_32 ax 8 4) < 16" "unat (BIT_FIELD_32 ax 20 8) < 256" "unat (BIT_FIELD_32 ax 4 4) < 16"
    "unat (BIT_FIELD_32 ax 16 4) < 16" "unat (BIT_FIELD_32 ax 0 4) < 16"
    using b [of 4 ax 8] b [of 8 ax 20] b [of 4 ax 4] b [of 4 ax 16] b [of 4 ax 0] by simp_all
  have fam: "unat (BIT_FIELD_32 ax 8 4 + BIT_FIELD_32 ax 20 8) < 272"
    using n by (subst unat_add_no_wrap) simp_all
  have p: "unat (push_bit 4 (BIT_FIELD_32 ax 16 4)) < 256"
    using n by (simp add: push_bit_eq_mult unat_word_ariths)
  have model: "unat (BIT_FIELD_32 ax 4 4 + push_bit 4 (BIT_FIELD_32 ax 16 4)) < 272"
    using n p by (subst unat_add_no_wrap) simp_all
  have uc: "unat (ucast x :: u16) = unat x mod 65536" "unat (ucast x :: u8) = unat x mod 256" for x :: u32
    by (simp_all add: unsigned_ucast_eq take_bit_eq_mod)
  have i: "CPU_GetInfo f = (case f CPUID_GETFEATURES of (eax, _) \<Rightarrow> (CPU_GetInfo f)\<lparr>
      ModelId := (if BIT_FIELD_32 eax 8 4 = 15 \<or> BIT_FIELD_32 eax 8 4 = 6
             then ucast (BIT_FIELD_32 eax 4 4 + push_bit 4 (BIT_FIELD_32 eax 16 4)) else ucast (BIT_FIELD_32 eax 4 4)),
      FamilyId := (if BIT_FIELD_32 eax 8 4 = 15
             then ucast (BIT_FIELD_32 eax 8 4 + BIT_FIELD_32 eax 20 8) else ucast (BIT_FIELD_32 eax 8 4)),
      SteppingId := ucast (BIT_FIELD_32 eax 0 4)\<rparr>)"
    by (simp add: CPU_GetInfo_def Let_def split: prod.splits)
  show "FamilyId (CPU_GetInfo f) < 1000"
    using n fam by (subst i) (auto simp: word_less_nat_alt uc ax_def split: prod.splits)
  show "ModelId (CPU_GetInfo f) < 1000"
    using n model by (subst i) (auto simp: word_less_nat_alt uc ax_def split: prod.splits)
  show "SteppingId (CPU_GetInfo f) < 100"
    using n by (subst i) (auto simp: word_less_nat_alt uc ax_def split: prod.splits)
qed

lemma short_number:
  assumes "n < 10 ^ k" and "0 < k"
  shows "length (number_text 10 n) \<le> k"
proof -
  obtain j where j: "length (digits_rev 10 n) = Suc j" using digits_rev_ne [of 10 n] by (metis gr0_conv_Suc)
  have "j = 0 \<or> 10 ^ j \<le> n" using digits_rev_length [OF _ j] by simp
  then have "j = 0 \<or> (10 :: nat) ^ j < 10 ^ k" using assms(1) by (metis le_less_trans)
  then have "j < k" using assms(2) by auto
  then show ?thesis by (simp add: number_text_def j)
qed

lemma GetSysConfiguration_text:
  assumes v: "is_cstr (VendorId (CPU_Info sc)) vendor" "length vendor \<le> 12"
    and r: "FamilyId (CPU_Info sc) < 1000" "ModelId (CPU_Info sc) < 1000" "SteppingId (CPU_Info sc) < 100"
  obtains conf' where "GetSysConfiguration sc conf = Some conf'" "CoresNum conf' = ucast (CPU_Num sc)"
    "is_cstr (CPU_InfoString conf') (vendor @ fmt '' - Family '' @ number_text 10 (unat (FamilyId (CPU_Info sc))) @
       fmt ''; Model '' @ number_text 10 (unat (ModelId (CPU_Info sc))) @ fmt ''; Stepping '' @ number_text 10 (unat (SteppingId (CPU_Info sc))))"
proof -
  define ci where "ci = CPU_Info sc"
  define ps where "ps = [Str (VendorId ci) vendor, Lit (fmt '' - Family ''), Signed (ucast (FamilyId ci)), Lit (fmt ''; Model ''),
    Signed (ucast (ModelId ci)), Lit (fmt ''; Stepping ''), Signed (ucast (SteppingId ci))]"
  define t where "t = vendor @ fmt '' - Family '' @ number_text 10 (unat (FamilyId ci)) @
    fmt ''; Model '' @ number_text 10 (unat (ModelId ci)) @ fmt ''; Stepping '' @ number_text 10 (unat (SteppingId ci))"
  have u: "unat (ucast (FamilyId ci) :: u32) = unat (FamilyId ci)" "unat (ucast (ModelId ci) :: u32) = unat (ModelId ci)"
    "unat (ucast (SteppingId ci) :: u32) = unat (SteppingId ci)" by (simp_all add: unsigned_ucast_eq)
  have "unat (FamilyId ci) < 2 ^ 31" "unat (ModelId ci) < 2 ^ 31" "unat (SteppingId ci) < 2 ^ 31"
    using unat_lt2p [of "FamilyId ci"] unat_lt2p [of "ModelId ci"] unat_lt2p [of "SteppingId ci"] by simp_all
  then have tx: "text_of ps = t" by (simp add: ps_def t_def text_of_def signed_text_small u)
  have fm: "format_of ps = fmt ''%s - Family %d; Model %d; Stepping %d''" "args_of ps = [Va_Str (VendorId ci), Va_Word (ucast (FamilyId ci)), Va_Word (ucast (ModelId ci)), Va_Word (ucast (SteppingId ci))]"
    by (simp_all add: ps_def format_of_def args_of_def fmt_def)
  have ok: "pieces_ok ps" using v(1) by (simp add: ps_def ci_def plain_def fmt_def)
  have "unat (strlen (VendorId ci)) < 2 ^ 31" using v by (simp add: ci_def strlen_cstr)
  then have a: "args_ok (args_of ps)" by (simp add: fm args_ok_def)
  have "length (number_text 10 (unat (FamilyId ci))) \<le> 3" "length (number_text 10 (unat (ModelId ci))) \<le> 3" "length (number_text 10 (unat (SteppingId ci))) \<le> 2"
    using r by (auto intro!: short_number simp: ci_def word_less_nat_alt)
  then have len: "length t < 50" using v(2) by (simp add: t_def fmt_def)
  have "printf_text CPU_INFO_STRING_LEN (format_of ps) (args_of ps) = Some (0, t)"
    using ok len tx by (subst printf_text_reference) (simp_all add: CPU_INFO_STRING_LEN_def fm fmt_def)
  then obtain m' where m': "gen_printf (buffer_nul 1) (copy_to_buffer 1) CPU_INFO_STRING_LEN (format_of ps) (args_of ps) (\<lambda>a. CPU_InfoString conf (a - 1)) =
      Some (sint (of_nat (length t) + 1 :: u32), m')" "\<forall>i<length t. m' (1 + of_nat i) = t ! i" "m' (1 + of_nat (length t)) = 0"
    using gen_printf_buffer [of CPU_INFO_STRING_LEN "args_of ps" "format_of ps" 1 0 t "\<lambda>a. CPU_InfoString conf (a - 1)"] a len
    by (auto simp: CPU_INFO_STRING_LEN_def fm fmt_def)
  have "0 \<notin> set t" using v(1) number_text_ne_0 [of 10] by (auto simp: t_def ci_def fmt_def cstr_at_iff_nth in_set_conv_nth)
  then have c: "is_cstr (view m' 1) t" using m'(2,3) by (auto simp: cstr_at_iff_nth in_set_conv_nth view_apply)
  have "GetSysConfiguration sc conf = Some (conf\<lparr>CPU_InfoString := view m' 1, CoresNum := ucast (CPU_Num sc)\<rparr>)"
    using m'(1) by (simp add: GetSysConfiguration_def snprintf_def fm ci_def)
  then show thesis using that c by (simp add: t_def ci_def)
qed

end
