(* ===== verification/Libk_Asctime.thy ===== *)
theory Libk_Asctime
  imports Libk_Time Libk_Printf_Ref Coresys_Stdio "HOL-Library.Monad_Syntax"
begin

text \<open>The printed form of a calendar date, \<open>asctime_r\<close> of \<open>libk/time.c\<close>: the tables of names and one call of
  \<open>sprintf\<close>.\<close>

definition wday_name :: "string list" where
  "wday_name = [''Mon'', ''Tue'', ''Wed'', ''Thu'', ''Fri'', ''Sat'', ''Sun'']"

definition mon_name :: "string list" where
  "mon_name = [''Jan'', ''Feb'', ''Mar'', ''Apr'', ''May'', ''Jun'', ''Jul'', ''Aug'', ''Sep'', ''Oct'', ''Nov'', ''Dec'']"

text \<open>Days of the week and months count from 1; a number outside of the table has no name.\<close>

definition name_of :: "string list \<Rightarrow> int \<Rightarrow> bytes option" where
  "name_of names i = (if 1 \<le> i \<and> i \<le> int (length names) then Some (cstr (names ! nat (i - 1))) else None)"

definition asctime_r :: "tm \<Rightarrow> u32 \<Rightarrow> bytes \<Rightarrow> bytes option" where
  "asctime_r timeptr buf m =
     do { w \<leftarrow> name_of wday_name (tm_wday timeptr);
          mo \<leftarrow> name_of mon_name (tm_mon timeptr);
          map_option snd (sprintf buf (fmt ''%.3s %.3s%3d %.2d:%.2d:%.2d %d'' @ [0x0A])
            [Va_Str w, Va_Str mo, Va_Word (of_int (tm_mday timeptr)), Va_Word (of_int (tm_hour timeptr)),
             Va_Word (of_int (tm_min timeptr)), Va_Word (of_int (tm_sec timeptr)), Va_Word (of_int (1900 + tm_year timeptr))] m) }"

text \<open>The dates \<open>ts_to_date\<close> produces have names: the week day and the month are in the tables.\<close>

lemma name_of_Some: "1 \<le> i \<Longrightarrow> i \<le> length names \<Longrightarrow> name_of names (int i) = Some (cstr (names ! (i - 1)))"
  by (auto simp: name_of_def nat_diff_distrib)

lemma asctime_r_weekday:
  assumes "tm_wday t = int (n mod 7 + 1)" "tm_mon t = int m" "1 \<le> m" "m \<le> 12"
  shows "asctime_r t buf s = map_option snd (sprintf buf (fmt ''%.3s %.3s%3d %.2d:%.2d:%.2d %d'' @ [0x0A])
    [Va_Str (cstr (wday_name ! (n mod 7))), Va_Str (cstr (mon_name ! (m - 1))), Va_Word (of_int (tm_mday t)), Va_Word (of_int (tm_hour t)),
     Va_Word (of_int (tm_min t)), Va_Word (of_int (tm_sec t)), Va_Word (of_int (1900 + tm_year t))] s)"
proof -
  have "name_of wday_name (tm_wday t) = Some (cstr (wday_name ! (n mod 7)))"
    using name_of_Some [of "n mod 7 + 1" wday_name] mod_less_divisor [of 7 n] assms(1) by (simp add: wday_name_def)
  moreover have "name_of mon_name (tm_mon t) = Some (cstr (mon_name ! (m - 1)))"
    using name_of_Some [of m mon_name] assms(2-4) by (simp add: mon_name_def)
  ultimately show ?thesis by (simp add: asctime_r_def)
qed

lemma asctime_r_no_name: "tm_wday t = 0 \<or> tm_mon t = 0 \<Longrightarrow> asctime_r t buf s = None"
  by (auto simp: asctime_r_def name_of_def split: Option.bind_splits)

end
