(* ===== verification/Libk_Tree.thy ===== *)
theory Libk_Tree
  imports Libk_Heap "HOL-Library.Monad_Syntax"
begin

text \<open>
  The tree of tree.c: nodes on the kernel heap with a list of children. The comparison function of
  the caller is a parameter that looks at the state and a node. The null pointer is no node, so an
  access through it is no behaviour (\<open>None\<close>).
\<close>

section \<open>State and operations\<close>

definition TREE_T_OK :: int where "TREE_T_OK = 0"
definition TREE_T_NOK :: int where "TREE_T_NOK = -1"
definition sizeof_tree_node :: u32 where "sizeof_tree_node = 12"

record tree_node =
  node_ptr :: u32
  next_node :: u32
  children :: u32

record tree_mem =
  tnodes :: "u32 \<rightharpoonup> tree_node"
  tmem :: bytes
  theap :: kheap
  tmagic :: u32

type_synonym compare = "tree_mem \<Rightarrow> u32 \<Rightarrow> int"

definition node_at :: "tree_mem \<Rightarrow> u32 \<Rightarrow> tree_node option" where
  "node_at st p = (if p = 0 then None else tnodes st p)"

definition set_node :: "u32 \<Rightarrow> (tree_node \<Rightarrow> tree_node) \<Rightarrow> tree_mem \<Rightarrow> tree_mem option" where
  "set_node p f st = do { n \<leftarrow> node_at st p; Some (st\<lparr>tnodes := (tnodes st)(p \<mapsto> f n)\<rparr>) }"

definition tree_allocNode :: "tree_mem \<Rightarrow> u32 \<times> tree_mem" where
  "tree_allocNode st =
     (case kmalloc (tmagic st) (tmem st) (theap st) sizeof_tree_node of (newNode, m, h) \<Rightarrow>
        let st = st\<lparr>tmem := m, theap := h\<rparr>
        in if newNode = 0 then (0, st)
           else (newNode, st\<lparr>tnodes := (tnodes st)(newNode \<mapsto> \<lparr>node_ptr = 0, next_node = 0, children = 0\<rparr>)\<rparr>))"

definition tree_initialize :: "tree_mem \<Rightarrow> u32 \<times> tree_mem" where
  "tree_initialize st = tree_allocNode st"

partial_function (option) last_sibling :: "tree_mem \<Rightarrow> u32 \<Rightarrow> u32 option" where
  "last_sibling st currChild =
     do { n \<leftarrow> node_at st currChild; if next_node n \<noteq> 0 then last_sibling st (next_node n) else Some currChild }"

definition tree_getLastChild :: "tree_mem \<Rightarrow> u32 \<Rightarrow> u32 option" where
  "tree_getLastChild st parent = do { n \<leftarrow> node_at st parent; last_sibling st (children n) }"

partial_function (option) tree_pruneSubTree_inter :: "u32 \<Rightarrow> tree_mem \<Rightarrow> (int \<times> tree_mem) option" where
  "tree_pruneSubTree_inter node st =
     do { n \<leftarrow> node_at st node;
          (r, st) \<leftarrow> (if children n \<noteq> 0 then tree_pruneSubTree_inter (children n) st else Some (TREE_T_OK, st));
          if r \<noteq> TREE_T_OK then Some (TREE_T_NOK, st)
          else do {
            n \<leftarrow> node_at st node;
            (r, st) \<leftarrow> (if next_node n \<noteq> 0 then tree_pruneSubTree_inter (next_node n) st else Some (TREE_T_OK, st));
            if r \<noteq> TREE_T_OK then Some (TREE_T_NOK, st)
            else Some (TREE_T_NOK, st\<lparr>theap := kfree (theap st) node\<rparr>) } }"

text \<open>The search for the node among its siblings: the result says whether it was found.\<close>

partial_function (option) unlink_sibling :: "u32 \<Rightarrow> u32 \<Rightarrow> u32 \<Rightarrow> tree_mem \<Rightarrow> (bool \<times> tree_mem) option" where
  "unlink_sibling node prev cur st =
     (if cur = 0 then Some (False, st)
      else if cur = node then do {
        n \<leftarrow> node_at st node;
        st \<leftarrow> set_node prev (\<lambda>p. p\<lparr>next_node := next_node n\<rparr>) st;
        Some (True, st) }
      else do { c \<leftarrow> node_at st cur; unlink_sibling node cur (next_node c) st })"

definition tree_pruneSubTree :: "u32 \<Rightarrow> u32 \<Rightarrow> tree_mem \<Rightarrow> (int \<times> tree_mem) option" where
  "tree_pruneSubTree parent node st =
     do { p \<leftarrow> node_at st parent;
          if children p = node then do {
            n \<leftarrow> node_at st node;
            st \<leftarrow> set_node parent (\<lambda>p. p\<lparr>children := next_node n\<rparr>) st;
            tree_pruneSubTree_inter node st }
          else do {
            c \<leftarrow> node_at st (children p);
            (found, st) \<leftarrow> unlink_sibling node (children p) (next_node c) st;
            if \<not> found then Some (TREE_T_NOK, st) else tree_pruneSubTree_inter node st } }"

partial_function (option) find_sibling :: "compare \<Rightarrow> tree_mem \<Rightarrow> u32 \<Rightarrow> u32 option" where
  "find_sibling compFun st currNode =
     (if compFun st currNode = TREE_T_OK then Some currNode
      else do { n \<leftarrow> node_at st currNode; if next_node n \<noteq> 0 then find_sibling compFun st (next_node n) else Some 0 })"

definition tree_findChild :: "compare \<Rightarrow> tree_mem \<Rightarrow> u32 \<Rightarrow> u32 option" where
  "tree_findChild compFun st parent =
     do { n \<leftarrow> node_at st parent; if children n \<noteq> 0 then find_sibling compFun st (children n) else Some 0 }"

text \<open>The second search goes to the children again.\<close>

partial_function (option) tree_findNodeRecursive :: "compare \<Rightarrow> tree_mem \<Rightarrow> u32 \<Rightarrow> u32 option" where
  "tree_findNodeRecursive compFun st node =
     (if compFun st node = TREE_T_OK then Some node
      else do {
        n \<leftarrow> node_at st node;
        foundNode \<leftarrow> (if children n \<noteq> 0 then tree_findNodeRecursive compFun st (children n) else Some 0);
        if next_node n \<noteq> 0 \<and> foundNode = 0 then tree_findNodeRecursive compFun st (children n) else Some foundNode })"

definition tree_addChild :: "u32 \<Rightarrow> u32 \<Rightarrow> tree_mem \<Rightarrow> (int \<times> tree_mem) option" where
  "tree_addChild parent ptr st =
     do { lastChild \<leftarrow> tree_getLastChild st parent;
          let (new, st) = tree_allocNode st;
          st \<leftarrow> set_node lastChild (\<lambda>n. n\<lparr>next_node := new\<rparr>) st;
          if new = 0 then Some (TREE_T_NOK, st)
          else do { st \<leftarrow> set_node new (\<lambda>n. n\<lparr>node_ptr := ptr\<rparr>) st; Some (TREE_T_OK, st) } }"

definition tree_addSubTree :: "u32 \<Rightarrow> u32 \<Rightarrow> tree_mem \<Rightarrow> tree_mem option" where
  "tree_addSubTree parent tree st =
     do { lastChild \<leftarrow> tree_getLastChild st parent; set_node lastChild (\<lambda>n. n\<lparr>next_node := tree\<rparr>) st }"

declare last_sibling.simps [code] tree_pruneSubTree_inter.simps [code] unlink_sibling.simps [code]
  find_sibling.simps [code] tree_findNodeRecursive.simps [code]

section \<open>The abstract tree\<close>

text \<open>A tree of addresses, and the nodes that represent a list of trees from a pointer on.\<close>

datatype rose = Rose (root: u32) (subs: "rose list")

fun forest :: "(u32 \<rightharpoonup> tree_node) \<Rightarrow> u32 \<Rightarrow> rose list \<Rightarrow> bool" where
  "forest ns p [] \<longleftrightarrow> p = 0"
| "forest ns p (Rose x cs # ts) \<longleftrightarrow> p = x \<and> x \<noteq> 0 \<and>
     (case ns x of None \<Rightarrow> False | Some n \<Rightarrow> forest ns (children n) cs \<and> forest ns (next_node n) ts)"

fun addrs :: "rose list \<Rightarrow> u32 list" where
  "addrs [] = []"
| "addrs (Rose x cs # ts) = x # addrs cs @ addrs ts"

lemma forest_cong: "(\<And>x. x \<in> set (addrs ts) \<Longrightarrow> ns' x = ns x) \<Longrightarrow> forest ns' p ts = forest ns p ts"
proof (induction ns p ts rule: forest.induct)
  case (2 ns p x cs ts)
  then show ?case by (auto split: option.splits)
qed simp

lemma forest_null: "forest ns p ts \<Longrightarrow> p = 0 \<longleftrightarrow> ts = []"
  by (induction ts rule: addrs.induct) auto

lemma forest_upd: "forest ns p ts \<Longrightarrow> x \<notin> set (addrs ts) \<Longrightarrow> forest (ns(x \<mapsto> n)) p ts"
  using forest_cong [of ts "ns(x \<mapsto> n)" ns p] by (metis fun_upd_other)

lemma forest_roots: "forest ns p ts \<Longrightarrow> t \<in> set ts \<Longrightarrow> root t \<noteq> 0 \<and> root t \<in> set (addrs ts) \<and> ns (root t) \<noteq> None"
  by (induction ns p ts rule: forest.induct) (auto split: option.splits)

lemma forest_suffix: "forest ns p (us @ Rose x cs # vs) \<Longrightarrow> forest ns x (Rose x cs # vs)"
proof (induction us arbitrary: p)
  case (Cons u us)
  have "\<exists>q. forest ns q (us @ Rose x cs # vs)" using Cons.prems by (cases u) (auto split: option.splits)
  then obtain q where "forest ns q (us @ Rose x cs # vs)" ..
  then show ?case by (rule Cons.IH)
qed simp

lemma last_sibling_forest:
  "forest (tnodes st) p ts \<Longrightarrow> ts \<noteq> [] \<Longrightarrow> last_sibling st p = Some (root (last ts))"
proof (induction ts arbitrary: p)
  case (Cons t ts)
  obtain x cs where t: "t = Rose x cs" by (cases t)
  obtain n where n: "tnodes st x = Some n" "p = x" "x \<noteq> 0" "forest (tnodes st) (next_node n) ts"
    using Cons.prems(1) by (auto simp: t split: option.splits)
  show ?case
  proof (cases ts)
    case Nil
    then show ?thesis using n by (simp add: t last_sibling.simps [of st x] node_at_def)
  next
    case (Cons u us)
    then have "next_node n \<noteq> 0" using n(4) by (cases u) auto
    then show ?thesis using n Cons.IH [OF n(4)] Cons by (simp add: t last_sibling.simps [of st x] node_at_def)
  qed
qed simp

text \<open>The children of a node are found in order.\<close>

lemma find_sibling_forest:
  "forest (tnodes st) p ts \<Longrightarrow> ts \<noteq> [] \<Longrightarrow>
    find_sibling compFun st p = Some (case List.find (\<lambda>x. compFun st x = TREE_T_OK) (map root ts) of None \<Rightarrow> 0 | Some x \<Rightarrow> x)"
proof (induction ts arbitrary: p)
  case (Cons t ts)
  obtain x cs where t: "t = Rose x cs" by (cases t)
  obtain n where n: "tnodes st x = Some n" "p = x" "x \<noteq> 0" "forest (tnodes st) (next_node n) ts"
    using Cons.prems(1) by (auto simp: t split: option.splits)
  show ?case
  proof (cases ts)
    case Nil
    then show ?thesis using n by (simp add: t find_sibling.simps [of compFun st x] node_at_def)
  next
    case (Cons u us)
    then have "next_node n \<noteq> 0" using n(4) by (cases u) auto
    then show ?thesis using n Cons.IH [OF n(4)] Cons by (simp add: t find_sibling.simps [of compFun st x] node_at_def)
  qed
qed simp

text \<open>Pruning always returns, and always reports a failure.\<close>

lemma prune_inter_forest:
  "forest (tnodes st) p ts \<Longrightarrow> ts \<noteq> [] \<Longrightarrow> tree_pruneSubTree_inter p st = Some (TREE_T_NOK, st)"
proof (induction "tnodes st" p ts rule: forest.induct)
  case (2 p x cs ts)
  obtain n where n: "tnodes st x = Some n" "p = x" "x \<noteq> 0" "forest (tnodes st) (children n) cs" "forest (tnodes st) (next_node n) ts"
    using "2.prems"(1) by (auto split: option.splits)
  have c: "children n \<noteq> 0 \<longleftrightarrow> cs \<noteq> []" "next_node n \<noteq> 0 \<longleftrightarrow> ts \<noteq> []"
    using n(4,5) by (auto simp: forest_null)
  have na: "node_at st x = Some n" using n(1,3) by (simp add: node_at_def)
  have k: "st\<lparr>theap := kfree (theap st) x\<rparr> = st" by (simp add: kfree_def)
  show ?case
  proof (cases "cs = []")
    case True
    then show ?thesis unfolding n(2) using 2(2) [OF n(1) n(5)] c k
      by (subst tree_pruneSubTree_inter.simps) (cases "ts = []"; simp add: na TREE_T_OK_def TREE_T_NOK_def)
  next
    case False
    then show ?thesis unfolding n(2) using 2(1) [OF n(1) n(4)] c
      by (subst tree_pruneSubTree_inter.simps) (simp add: na TREE_T_OK_def TREE_T_NOK_def)
  qed
qed simp

section \<open>The operations on a list of children\<close>

definition kids :: "tree_mem \<Rightarrow> u32 \<Rightarrow> rose list \<Rightarrow> bool" where
  "kids st p ts \<longleftrightarrow> (\<exists>n. node_at st p = Some n \<and> forest (tnodes st) (children n) ts) \<and> p \<notin> set (addrs ts) \<and> distinct (addrs ts)"

lemma tree_findChild_kids:
  assumes "kids st p ts"
  shows "tree_findChild compFun st p = Some (case List.find (\<lambda>x. compFun st x = TREE_T_OK) (map root ts) of None \<Rightarrow> 0 | Some x \<Rightarrow> x)"
proof -
  obtain n where n: "node_at st p = Some n" "forest (tnodes st) (children n) ts" using assms by (auto simp: kids_def)
  show ?thesis
  proof (cases ts)
    case Nil
    then show ?thesis using n by (simp add: tree_findChild_def)
  next
    case (Cons t us)
    then have "children n \<noteq> 0" using n(2) by (cases t) auto
    then show ?thesis using n find_sibling_forest [OF n(2), of compFun] Cons by (simp add: tree_findChild_def)
  qed
qed

text \<open>A parent without children cannot get one: its last child is read through the null pointer.\<close>

lemma tree_addChild_empty: "kids st p [] \<Longrightarrow> tree_addChild p ptr st = None"
  by (auto simp: kids_def tree_addChild_def tree_getLastChild_def last_sibling.simps [of st 0] node_at_def split: if_splits)

lemma addrs_append: "addrs (ts @ us) = addrs ts @ addrs us"
  by (induction ts rule: addrs.induct) simp_all

lemma forest_snoc:
  assumes "forest ns p ts" and "ts \<noteq> []" and "distinct (addrs ts)" and "q \<noteq> 0" and "q \<notin> set (addrs ts)"
    and "ns q = Some \<lparr>node_ptr = v, next_node = 0, children = 0\<rparr>" and "ns (root (last ts)) = Some l"
  shows "forest (ns(root (last ts) \<mapsto> l\<lparr>next_node := q\<rparr>)) p (ts @ [Rose q []])"
  using assms
proof (induction ns p ts rule: forest.induct)
  case (2 ns p x cs ts)
  obtain n where n: "ns x = Some n" "p = x" "x \<noteq> 0" "forest ns (children n) cs" "forest ns (next_node n) ts"
    using "2.prems"(1) by (auto split: option.splits)
  show ?case
  proof (cases "ts = []")
    case True
    define m where "m = ns(x \<mapsto> l\<lparr>next_node := q\<rparr>)"
    have "forest m (children n) cs"
      unfolding m_def using "2.prems"(3) by (intro forest_upd [OF n(4)]) simp
    moreover have "m x = Some (l\<lparr>next_node := q\<rparr>)" "m q = ns q" "l = n" using "2.prems" True n(1) by (auto simp: m_def)
    moreover have e: "ns(root (last (Rose x cs # ts)) \<mapsto> l\<lparr>next_node := q\<rparr>) = m" using True by (simp add: m_def)
    ultimately show ?thesis unfolding e using True n(2,3) "2.prems"(4,6) by simp
  next
    case False
    define m where "m = ns(root (last ts) \<mapsto> l\<lparr>next_node := q\<rparr>)"
    have r: "root (last ts) \<in> set (addrs ts)" using forest_roots [OF n(5), of "last ts"] False by simp
    have "forest m (children n) cs"
      unfolding m_def using "2.prems"(3) r by (intro forest_upd [OF n(4)]) auto
    moreover have "forest m (next_node n) (ts @ [Rose q []])"
      unfolding m_def by (rule "2.IH"(2) [OF n(1) n(5) False]) (use "2.prems" False in simp_all)
    moreover have "root (last ts) \<noteq> x" using r "2.prems"(3) by auto
    then have "m x = Some n" using n(1) by (simp add: m_def)
    ultimately show ?thesis using n(2,3) False by (simp add: m_def [symmetric])
  qed
qed simp

lemma kids_last:
  assumes "kids st p ts" and "ts \<noteq> []"
  obtains l where "tree_getLastChild st p = Some (root (last ts))" "tnodes st (root (last ts)) = Some l" "root (last ts) \<noteq> 0"
    "root (last ts) \<in> set (addrs ts)"
proof -
  obtain n where n: "node_at st p = Some n" "forest (tnodes st) (children n) ts" using assms(1) by (auto simp: kids_def)
  have "root (last ts) \<noteq> 0 \<and> root (last ts) \<in> set (addrs ts) \<and> tnodes st (root (last ts)) \<noteq> None"
    by (rule forest_roots [OF n(2)]) (simp add: assms(2))
  then show thesis using that n(1) last_sibling_forest [OF n(2) assms(2)] by (auto simp: tree_getLastChild_def)
qed

text \<open>With room for one more node, the new child is the last one and holds the given pointer.\<close>

lemma tree_addChild_kids:
  assumes k: "kids st p ts" and ne: "ts \<noteq> []" and h: "heap_inv (theap st)" "request_ok (theap st) 12"
    and below: "\<forall>x\<in>set (p # addrs ts). x < CurrentPointer (theap st)" and q: "q = CurrentPointer (theap st)"
    and room: "unat q + 12 \<le> unat (HeapMem (theap st)) + unat (HeapMemSize (theap st))"
  obtains st' where "tree_addChild p ptr st = Some (TREE_T_OK, st')" "kids st' p (ts @ [Rose q []])"
    "tnodes st' q = Some \<lparr>node_ptr = ptr, next_node = 0, children = 0\<rparr>" "\<forall>x. x \<notin> {q, root (last ts)} \<longrightarrow> tnodes st' x = tnodes st x"
proof -
  obtain l where l: "tree_getLastChild st p = Some (root (last ts))" "tnodes st (root (last ts)) = Some l" "root (last ts) \<noteq> 0"
    "root (last ts) \<in> set (addrs ts)" by (rule kids_last [OF k ne])
  define r where "r = root (last ts)"
  obtain n where n: "node_at st p = Some n" "forest (tnodes st) (children n) ts" "p \<notin> set (addrs ts)" "distinct (addrs ts)"
    using k by (auto simp: kids_def)
  obtain a m h' where km: "kmalloc (tmagic st) (tmem st) (theap st) 12 = (a, m, h')" by (metis surj_pair)
  have "round_up 12 = 12" by (simp add: round_up_def MEM_MIN_SIZE_def)
  then have a: "a = q" "q \<noteq> 0" using kmalloc_result [OF h km] room q h(1) by (auto simp: heap_inv_def)
  have qn: "q \<noteq> p" "q \<notin> set (addrs ts)" "q \<noteq> r" using below l(4) by (auto simp: q r_def)
  have pr: "p \<noteq> r" using n(3) l(4) by (auto simp: r_def)
  define new where "new = \<lparr>node_ptr = ptr, next_node = 0, children = 0 :: u32\<rparr>"
  define ns where "ns = (tnodes st)(q \<mapsto> new)"
  define st' where "st' = st\<lparr>tmem := m, theap := h', tnodes := (tnodes st)(q \<mapsto> new, r \<mapsto> l\<lparr>next_node := q\<rparr>)\<rparr>"
  have ns: "tnodes st' = ns(r \<mapsto> l\<lparr>next_node := q\<rparr>)" by (simp add: st'_def ns_def)
  have "forest ns (children n) ts" unfolding ns_def by (rule forest_upd [OF n(2) qn(2)])
  then have "forest (tnodes st') (children n) (ts @ [Rose q []])"
    unfolding ns r_def using qn l(2) r_def new_def by (intro forest_snoc [OF _ ne n(4) a(2) qn(2)]) (simp_all add: ns_def)
  moreover have "node_at st' p = Some n" using n(1) qn pr by (auto simp: node_at_def st'_def split: if_splits)
  ultimately have "kids st' p (ts @ [Rose q []])" using n(3,4) qn by (auto simp: kids_def addrs_append)
  moreover have "tree_addChild p ptr st = Some (TREE_T_OK, st')"
    using l(1-3) km a qn(3) unfolding r_def [symmetric]
    by (simp add: tree_addChild_def tree_allocNode_def sizeof_tree_node_def set_node_def node_at_def st'_def new_def fun_upd_twist)
  ultimately show thesis using that qn by (simp add: st'_def new_def r_def)
qed

lemma tree_addSubTree_kids:
  assumes "kids st p ts" and "ts \<noteq> []"
  shows "\<exists>st'. tree_addSubTree p t st = Some st' \<and> (\<exists>l. tnodes st' = (tnodes st)(root (last ts) \<mapsto> l\<lparr>next_node := t\<rparr>))"
  by (rule kids_last [OF assms]) (auto simp: tree_addSubTree_def set_node_def node_at_def)

section \<open>Pruning\<close>

lemma unlink_forest:
  assumes "forest (tnodes st) c (us @ Rose x cs # vs)" and "us \<noteq> []" and "distinct (addrs (us @ Rose x cs # vs))"
    and "node_at st c = Some m"
  shows "\<exists>st'. unlink_sibling x c (next_node m) st = Some (True, st') \<and> forest (tnodes st') c (us @ vs) \<and>
    (\<forall>y. y \<notin> set (addrs us) \<longrightarrow> tnodes st' y = tnodes st y)"
  using assms
proof (induction us arbitrary: c m)
  case (Cons u us)
  obtain y ds where u: "u = Rose y ds" by (cases u)
  have c: "c = y" "y \<noteq> 0" "tnodes st y = Some m" "forest (tnodes st) (children m) ds" "forest (tnodes st) (next_node m) (us @ Rose x cs # vs)"
    using Cons.prems(1,4) by (auto simp: u node_at_def split: option.splits if_splits)
  show ?case
  proof (cases "us = []")
    case True
    obtain n where n: "next_node m = x" "x \<noteq> 0" "tnodes st x = Some n" "forest (tnodes st) (next_node n) vs"
      using c(5) True by (auto split: option.splits)
    define st' where "st' = st\<lparr>tnodes := (tnodes st)(y \<mapsto> m\<lparr>next_node := next_node n\<rparr>)\<rparr>"
    have "unlink_sibling x c (next_node m) st = Some (True, st')"
      using n c by (simp add: unlink_sibling.simps [of x] node_at_def set_node_def st'_def)
    moreover have "forest (tnodes st') (children m) ds" "forest (tnodes st') (next_node n) vs"
      using Cons.prems(3) True by (auto simp: st'_def u addrs_append intro!: forest_upd c(4) n(4))
    then have "forest (tnodes st') c ((u # us) @ vs)" using c True by (simp add: u) (simp add: st'_def)
    ultimately show ?thesis using True by (auto simp: st'_def u)
  next
    case False
    then obtain z es ws where us: "us = Rose z es # ws" by (metis list.exhaust rose.exhaust)
    obtain k where k: "next_node m = z" "z \<noteq> 0" "node_at st z = Some k" using c(5) by (auto simp: us node_at_def split: option.splits)
    have zx: "z \<noteq> x" using Cons.prems(3) by (auto simp: u us addrs_append)
    obtain st' where IH: "unlink_sibling x z (next_node k) st = Some (True, st')" "forest (tnodes st') z (us @ vs)"
      "\<forall>y. y \<notin> set (addrs us) \<longrightarrow> tnodes st' y = tnodes st y"
      using Cons.IH [of z k] c(5) False Cons.prems(3) k by (auto simp: u)
    have "unlink_sibling x c (next_node m) st = unlink_sibling x z (next_node k) st"
      using k zx by (subst unlink_sibling.simps) simp
    moreover have "tnodes st' y = Some m" "forest (tnodes st') (children m) ds"
    proof -
      show "tnodes st' y = Some m" using IH(3) c(3) Cons.prems(3) by (auto simp: u addrs_append)
      have "forest (tnodes st') (children m) ds = forest (tnodes st) (children m) ds"
        using IH(3) Cons.prems(3) by (intro forest_cong) (auto simp: u addrs_append)
      then show "forest (tnodes st') (children m) ds" using c(4) by simp
    qed
    then have "forest (tnodes st') c ((u # us) @ vs)" using c(1,2) k(1) IH(2) by (simp add: u)
    ultimately show ?thesis using IH(1,3) by (auto simp: u)
  qed
qed simp

text \<open>
  Pruning takes the subtree out of the list of children and reports a failure.
\<close>

lemma tree_pruneSubTree_kids:
  assumes "kids st p (us @ Rose x cs # vs)"
  shows "\<exists>st'. tree_pruneSubTree p x st = Some (TREE_T_NOK, st') \<and> kids st' p (us @ vs)"
proof -
  obtain n where n: "node_at st p = Some n" "forest (tnodes st) (children n) (us @ Rose x cs # vs)"
    "p \<notin> set (addrs (us @ Rose x cs # vs))" "distinct (addrs (us @ Rose x cs # vs))" using assms by (auto simp: kids_def)
  have p0: "p \<noteq> 0" "tnodes st p = Some n" using n(1) by (auto simp: node_at_def split: if_splits)
  show ?thesis
  proof (cases "us = []")
    case True
    obtain k where k: "children n = x" "x \<noteq> 0" "tnodes st x = Some k" "forest (tnodes st) (next_node k) vs"
      using n(2) True by (auto split: option.splits)
    define st' where "st' = st\<lparr>tnodes := (tnodes st)(p \<mapsto> n\<lparr>children := next_node k\<rparr>)\<rparr>"
    have "tnodes st' = (tnodes st)(p \<mapsto> n\<lparr>children := next_node k\<rparr>)" by (simp add: st'_def)
    then have f: "forest (tnodes st') x (Rose x cs # vs)"
      by (simp only:) (rule forest_upd, use n(2,3) True k(1) in simp_all)
    have "forest (tnodes st') (next_node k) vs" using n(3) k(4) by (auto simp: st'_def addrs_append intro!: forest_upd)
    then have "kids st' p (us @ vs)" using n(3,4) True p0 by (auto simp: kids_def node_at_def st'_def)
    moreover have "tree_pruneSubTree p x st = tree_pruneSubTree_inter x st'"
      using n(1) k(1-3) p0 by (simp add: tree_pruneSubTree_def node_at_def set_node_def st'_def)
    ultimately show ?thesis using prune_inter_forest [OF f] by simp
  next
    case False
    then obtain z es ws where us: "us = Rose z es # ws" by (metis list.exhaust rose.exhaust)
    obtain m where m: "children n = z" "node_at st z = Some m" "z \<noteq> x" using n(2,4) by (auto simp: us node_at_def addrs_append split: option.splits)
    obtain st' where U: "unlink_sibling x z (next_node m) st = Some (True, st')" "forest (tnodes st') z (us @ vs)"
      "\<forall>y. y \<notin> set (addrs us) \<longrightarrow> tnodes st' y = tnodes st y"
      using unlink_forest [OF n(2) [unfolded m(1)] False n(4) m(2)] by blast
    have sub: "forest (tnodes st) x (Rose x cs # vs)" using forest_suffix [OF n(2)] by simp
    have "forest (tnodes st') x (Rose x cs # vs) = forest (tnodes st) x (Rose x cs # vs)"
      using U(3) n(4) by (intro forest_cong) (auto simp: addrs_append)
    then have f: "forest (tnodes st') x (Rose x cs # vs)" using sub by simp
    have "tnodes st' p = Some n" using U(3) n(3) p0 by (auto simp: addrs_append)
    then have "kids st' p (us @ vs)" using U(2) n(3,4) p0 m(1) by (auto simp: kids_def node_at_def addrs_append)
    moreover have "tree_pruneSubTree p x st = tree_pruneSubTree_inter x st'"
      using n(1) m U(1) by (simp add: tree_pruneSubTree_def)
    ultimately show ?thesis using prune_inter_forest [OF f] by simp
  qed
qed

text \<open>
  The recursive search does not look at siblings: behind a leaf with a sibling it calls the comparison with the null
  pointer, and has no behaviour unless that succeeds.
\<close>

lemma tree_findNodeRecursive_leaf:
  assumes "forest (tnodes st) p (Rose p [] # u # us)" and "compFun st p \<noteq> TREE_T_OK"
  shows "tree_findNodeRecursive compFun st p = (if compFun st 0 = TREE_T_OK then Some 0 else None)"
proof -
  obtain n where n: "tnodes st p = Some n" "p \<noteq> 0" "children n = 0" "forest (tnodes st) (next_node n) (u # us)"
    using assms(1) by (auto split: option.splits)
  then have "next_node n \<noteq> 0" using forest_null by blast
  then show ?thesis using n(1-3) assms(2)
    by (simp add: tree_findNodeRecursive.simps [of compFun st p] tree_findNodeRecursive.simps [of compFun st 0] node_at_def)
qed

end
