(* ===== verification/Spec2Isabelle.thy ===== *)
theory Spec2Isabelle
  imports Props_Fs Props_Kernel Props_Arch Props_Dev Props_Platform Coresys_Report Libk_Asctime Libk_Tree
begin

text \<open>
  A verification library of the TalOS kernel (C, IA32).

  \<^bold>\<open>The program.\<close> TalOS is a small kernel. Its C library (src/kernel/src/libk) has memory and
  string routines, a bump allocator, a queue, number conversions, a calendar and formatted output.
  The core (src/kernel/src/coresys) has a virtual file system whose only file system lives in RAM,
  timers driven by a periodic tick, spin locks and the standard streams. The drivers
  (src/kernel/src/devs) serve the keyboard, the serial port and the text screen. The platform
  (src/kernel/src/arch/IA32) has paging, descriptor tables, the interrupt controllers, the real-time
  clock, the system time and the parser of the ACPI tables. The file system allocates its nodes with
  the heap and compares names with the string routines; the streams go through callbacks of the
  file system to the serial driver; the tick of the system time calls the timers; the interrupt
  services use what the ACPI parser has found. InitSys starts the platform: it maps the controllers,
  installs the handlers, calibrates the timer, starts the other processors and enters the PCI devices in
  the file system, which kernel_init_fs has filled from the boot image.

  \<^bold>\<open>How the code is modelled.\<close> Machine integers are words of their width. The memory is a function
  from 32-bit addresses to bytes; a C string is such a function from offset 0. A structure is a
  record and a pointer to it an address in a store of nodes where aliasing matters. An operation is
  a function from its arguments and the state to its result and the new state. The value \<open>None\<close>
  stands for what has no behaviour in C (the dereference of an address that holds no object, an
  index out of range), for a loop that does not end (\<open>partial_function\<close>) and for the endless loops the
  code enters on a fatal error. The memory is flat: the page tables are a state of their own, and where
  code maps an area before it reads it the mapping is the identity. Devices are not part
  of the program: a machine answers every read from the history of all accesses before it, and what
  a property needs of a device is a named hypothesis about the machine. The tick counter that interrupts
  change during a wait is a function of the instant of the access, and the other processors change the table of
  the cores by steps of the trampoline.

  \<^bold>\<open>The theories.\<close>
  \<^item> \<open>Prelude\<close>: word lemmas, the counting loops \<open>for_upto\<close>, \<open>for_downto\<close> and \<open>for_ret\<close> with their closed forms.
  \<^item> \<open>Libk_Mem\<close>, \<open>Libk_String\<close>, \<open>Libk_Heap\<close>, \<open>Libk_Queue\<close>, \<open>Libk_Conv\<close>, \<open>Libk_Time\<close>: mem*.c, string.c,
    kheap.c, queue.c, itoa.c and atoi.c, time.c; \<open>Libk_Asctime\<close> is its asctime_r and \<open>Libk_Tree\<close> tree.c. The heap is interpreted as an allocator of disjoint
    blocks, the queue as a bounded FIFO.
  \<^item> \<open>Libk_Printf\<close>, \<open>Libk_Printf_Out\<close>, \<open>Libk_Printf_Ref\<close>: printf.c with putchar.c, puts.c, getc.c; the bounds of
    what is written, and a reference semantics of formats that the loop computes.
  \<^item> \<open>Coresys_Vfs\<close>, \<open>Coresys_Ramfs\<close>: vfs.c, ramfs.c and devfs.c. \<open>Coresys_Ramfs_Inv\<close> has the invariant of
    the node store (chains of children, links, placement in the heap), \<open>Coresys_Ramfs_Ops\<close> and
    \<open>Coresys_Ramfs_Files\<close> its preservation and the behaviour of every operation. Path resolution is
    proved once over an interface of directory lookups and interpreted on ramfs. \<open>Coresys_Ramfs_Steps\<close>
    composes the creation of files and directories.
  \<^item> \<open>Coresys_Boot\<close>, \<open>Coresys_Initrd\<close>, \<open>Coresys_Start\<close>: kernel_initramfs, the boot image as a tree of headers with
    the loader's effect on the file system, and kernel_init_fs with \<open>IA32_Bootloader\<close> (bootloader.c, multiboot.h).
  \<^item> \<open>Coresys_Main\<close>, \<open>Coresys_Report\<close>: the reports of kernel_main (directories, PCI devices, memory map) and
    GetSysConfiguration.
  \<^item> \<open>Coresys_Timer\<close>, \<open>Coresys_Spinlock\<close>, \<open>Coresys_Stdio\<close>: timer.c, spinlock.c with atomic.S, and the stream
    functions of kernel.c. The lock and the interrupted SetTimer are step relations.
  \<^item> \<open>Devs_Keyboard\<close>, \<open>Devs_Serial\<close>, \<open>Devs_Vga\<close>: the drivers.
  \<^item> \<open>IA32_Io\<close>: port and memory accesses and the machine. \<open>IA32_Rtc\<close>, \<open>IA32_Paging\<close>, \<open>IA32_Pic\<close> (with pit.c),
    \<open>IA32_Apic\<close> (with smp.c), \<open>IA32_Acpi\<close>, \<open>IA32_Sysconf\<close> (sysinit.c, interrupts.c, cpu.c), \<open>IA32_Systime\<close>,
    \<open>IA32_Tables\<close> (tables.c and the table part of sysinit.c). \<open>IA32_Microtime\<close> has the calibration and the
    delays in microseconds of systime.c, \<open>IA32_Delays\<close> the waits on a counter that keeps ticking.
  \<^item> \<open>IA32_Pci_Config\<close>, \<open>IA32_Pci\<close>: pci.c; \<open>IA32_Pci_Names\<close>, \<open>IA32_Pci_Dirs\<close>, \<open>IA32_Pci_Files\<close> and \<open>IA32_Pci_Scan\<close> prove the
    names, the directories, the files and the whole scan.
  \<^item> \<open>IA32_Cores\<close>, \<open>IA32_Sysinit\<close>: InitAPs, AP_init and the waiting loop of tramAP.S; InitSys and the exception handlers.
  \<^item> \<open>Props_Fs\<close>, \<open>Props_Kernel\<close>, \<open>Props_Arch\<close>, \<open>Props_Dev\<close>, \<open>Props_Sys\<close>, \<open>Props_Pci\<close>, \<open>Props_Boot\<close>,
    \<open>Props_Platform\<close>: the properties, each with an application to a
    concrete state.

  \<^bold>\<open>What is shown.\<close> The file system keeps its invariant and its paths resolve as the tree says, what is
  written is read back, directories are enumerated completely and errors leave the state alone; the kernel
  starts with the directories it means to have and with the files of the boot image (C1 to C10). The PCI scan
  gives every function of the buses its directory; the configuration files behave as stated, their overrun
  and their dropped writes included (C11 to C14). Blocks of the heap are disjoint, the spin lock excludes,
  timers count ticks exactly, queue and keyboard ring are FIFOs (C15 to C21). Mapping, unmapping and the boot
  page tables translate as requested, and InitSys leaves the platform with its controllers, handlers, cores and
  devices (C22 to C26). The clock and the calendar agree with Unix time (C27 to C29). The printf family stays
  in its buffer and computes the reference text down to the bytes on the serial line, the screen driver
  implements a linear screen (C30 to C33). The ACPI tables are collected completely and interrupts are routed
  as they say, the delays last as long as requested, the system time is exact up to its drift, and the
  processor gets its tables (C34 to C40).

  \<^bold>\<open>Loops and bounds.\<close> Counting loops are closed forms over the word counter. Loops that follow
  pointers or wait for a device are partial functions; properties say when they return. The only fuel is
  the depth of the PCI scan, which recurses at every bridge: the properties ask for a depth that bounds the
  nesting of the bridges, and a bus number behind a loop of bridges exhausts every depth, as the stack of the code.

  \<^bold>\<open>Not modelled.\<close> kernel_init and the demonstration in kernel_main beside its reports, which only call
  modelled operations on disjoint parts of the state; the stops and the reset of the machine; the assembly of the
  boot and of the mode switches beside the loop of the trampoline; the unused string instructions of io.h; and the
  headers that only declare constants of the processor.
\<close>

end
